(* ===== verification/Prelude.thy ===== *)
theory Prelude
  imports Main "HOL-Library.Word"
begin

text \<open>
  Shared vocabulary of the development: the machine integers of the Rust sources, the
  fallible arithmetic of the standard library (\<^verbatim>\<open>checked_add\<close>, \<^verbatim>\<open>saturating_mul\<close>, ...),
  the iterator and string functions the components call, and two small interfaces (locales)
  that several components implement: a state machine with an invariant, and a store of
  records addressed by a key.

  Rust strings are modelled as lists of code points below 256 (the type \<^typ>\<open>string\<close>), so
  \<^verbatim>\<open>str::len\<close>, which counts UTF-8 bytes, is \<open>utf8_len\<close>, and \<^verbatim>\<open>char::is_whitespace\<close> is the
  Unicode \<^verbatim>\<open>White_Space\<close> property restricted to these code points.
\<close>

named_theorems result_simps \<open>equations of the result type used by every component\<close>

section \<open>Machine integers and checked arithmetic\<close>

type_synonym u8 = "8 word"
type_synonym u16 = "16 word"
type_synonym u32 = "32 word"
type_synonym u64 = "64 word"
type_synonym usize = "64 word"

text \<open>Errors are values: \<open>Inl\<close> is \<^verbatim>\<open>Err\<close>, \<open>Inr\<close> is \<^verbatim>\<open>Ok\<close>.\<close>

type_synonym ('e, 'a) result = "'e + 'a"

definition u32_max :: nat where
  "u32_max = 4294967295"

definition u64_max :: nat where
  "u64_max = 18446744073709551615"

definition i64_max :: int where
  "i64_max = 9223372036854775807"

definition i64_min :: int where
  "i64_min = -9223372036854775808"

definition in_i64 :: "int \<Rightarrow> bool" where
  "in_i64 x \<longleftrightarrow> i64_min \<le> x \<and> x \<le> i64_max"

text \<open>\<^verbatim>\<open>i64::try_from\<close> and \<^verbatim>\<open>i64::checked_add\<close>: the value if it is representable.\<close>

definition try_i64 :: "int \<Rightarrow> int option" where
  "try_i64 x = (if in_i64 x then Some x else None)"

definition checked_add_i64 :: "int \<Rightarrow> int \<Rightarrow> int option" where
  "checked_add_i64 a b = try_i64 (a + b)"

definition checked_mul_i64 :: "int \<Rightarrow> int \<Rightarrow> int option" where
  "checked_mul_i64 a b = try_i64 (a * b)"

text \<open>\<^verbatim>\<open>u64::saturating_add\<close> and friends, on naturals in the range of the type.\<close>

definition sat_add_u64 :: "nat \<Rightarrow> nat \<Rightarrow> nat" where
  "sat_add_u64 a b = min u64_max (a + b)"

definition sat_mul_u64 :: "nat \<Rightarrow> nat \<Rightarrow> nat" where
  "sat_mul_u64 a b = min u64_max (a * b)"

definition sat_pow_u64 :: "nat \<Rightarrow> nat \<Rightarrow> nat" where
  "sat_pow_u64 a n = min u64_max (a ^ n)"

lemma try_i64_Some [simp]: "try_i64 x = Some y \<longleftrightarrow> in_i64 x \<and> y = x"
  by (auto simp: try_i64_def)

lemma try_i64_None [simp]: "try_i64 x = None \<longleftrightarrow> \<not> in_i64 x"
  by (auto simp: try_i64_def)

lemma checked_add_i64_Some [simp]:
  "checked_add_i64 a b = Some c \<longleftrightarrow> in_i64 (a + b) \<and> c = a + b"
  by (simp add: checked_add_i64_def)

lemma checked_mul_i64_Some [simp]:
  "checked_mul_i64 a b = Some c \<longleftrightarrow> in_i64 (a * b) \<and> c = a * b"
  by (simp add: checked_mul_i64_def)

lemma sat_add_u64_le: "sat_add_u64 a b \<le> u64_max"
  by (simp add: sat_add_u64_def)

lemma sat_mul_u64_le: "sat_mul_u64 a b \<le> u64_max"
  by (simp add: sat_mul_u64_def)

lemma sat_mul_u64_mono: "a \<le> b \<Longrightarrow> sat_mul_u64 c a \<le> sat_mul_u64 c b"
  unfolding sat_mul_u64_def by (rule min.mono) simp_all

lemma sat_pow_u64_mono: "0 < a \<Longrightarrow> m \<le> n \<Longrightarrow> sat_pow_u64 a m \<le> sat_pow_u64 a n"
  unfolding sat_pow_u64_def by (rule min.mono) (simp_all add: power_increasing)

text \<open>Under a cap that fits the type, saturating multiplication by a saturating power is exact.\<close>

lemma min_sat_u64: "m \<le> u64_max \<Longrightarrow> min (min u64_max x) m = min x m"
  by (simp add: min_def)

lemma sat_mul_pow_capped:
  assumes "m \<le> u64_max"
  shows "min (sat_mul_u64 b (sat_pow_u64 a k)) m = min (b * a ^ k) m"
proof (cases "a ^ k \<le> u64_max")
  case True
  then have "sat_pow_u64 a k = a ^ k" by (simp add: sat_pow_u64_def)
  with assms show ?thesis by (simp add: sat_mul_u64_def min_sat_u64)
next
  case False
  then have p: "sat_pow_u64 a k = u64_max" by (simp add: sat_pow_u64_def)
  show ?thesis
  proof (cases b)
    case (Suc c)
    have "m \<le> b * u64_max" "m \<le> b * a ^ k" using False Suc assms by (auto intro: le_trans)
    with p assms show ?thesis by (simp add: sat_mul_u64_def min_sat_u64)
  qed (simp add: sat_mul_u64_def)
qed

section \<open>Results\<close>

text \<open>\<^verbatim>\<open>?\<close> on a \<^verbatim>\<open>Result\<close>: stop at the first error.\<close>

definition bind_result :: "('e, 'a) result \<Rightarrow> ('a \<Rightarrow> ('e, 'b) result) \<Rightarrow> ('e, 'b) result" where
  "bind_result r f = (case r of Inl e \<Rightarrow> Inl e | Inr x \<Rightarrow> f x)"

definition ok_or :: "'e \<Rightarrow> 'a option \<Rightarrow> ('e, 'a) result" where
  "ok_or e x = (case x of None \<Rightarrow> Inl e | Some v \<Rightarrow> Inr v)"

definition is_ok :: "('e, 'a) result \<Rightarrow> bool" where
  "is_ok r = (case r of Inl _ \<Rightarrow> False | Inr _ \<Rightarrow> True)"

lemma bind_result_Inl [simp, result_simps]: "bind_result (Inl e) f = Inl e"
  by (simp add: bind_result_def)

lemma bind_result_Inr [simp, result_simps]: "bind_result (Inr x) f = f x"
  by (simp add: bind_result_def)

lemma bind_result_eq_Inr [result_simps]:
  "bind_result r f = Inr y \<longleftrightarrow> (\<exists>x. r = Inr x \<and> f x = Inr y)"
  by (cases r) simp_all

lemma ok_or_None [simp, result_simps]: "ok_or e None = Inl e"
  by (simp add: ok_or_def)

lemma ok_or_Some [simp, result_simps]: "ok_or e (Some x) = Inr x"
  by (simp add: ok_or_def)

lemma ok_or_eq_Inr [simp, result_simps]: "ok_or e x = Inr y \<longleftrightarrow> x = Some y"
  by (cases x) simp_all

lemma ok_or_eq_Inl [simp, result_simps]: "ok_or e x = Inl e' \<longleftrightarrow> x = None \<and> e' = e"
  by (cases x) auto

lemma is_ok_Inl [simp, result_simps]: "is_ok (Inl e) = False"
  by (simp add: is_ok_def)

lemma is_ok_Inr [simp, result_simps]: "is_ok (Inr x) = True"
  by (simp add: is_ok_def)

lemma is_ok_iff: "is_ok r \<longleftrightarrow> (\<exists>x. r = Inr x)"
  by (cases r) simp_all

section \<open>Iterators\<close>

text \<open>\<^verbatim>\<open>Iterator::find_map\<close>.\<close>

fun find_map :: "('a \<Rightarrow> 'b option) \<Rightarrow> 'a list \<Rightarrow> 'b option" where
  "find_map f [] = None"
| "find_map f (x # xs) = (case f x of Some y \<Rightarrow> Some y | None \<Rightarrow> find_map f xs)"

lemma find_map_None: "find_map f xs = None \<longleftrightarrow> (\<forall>x\<in>set xs. f x = None)"
  by (induction xs) (auto split: option.splits)

lemma find_map_Some_in: "find_map f xs = Some y \<Longrightarrow> \<exists>x\<in>set xs. f x = Some y"
  by (induction xs) (auto split: option.splits)

lemma find_map_append:
  "find_map f (xs @ ys) = (case find_map f xs of Some y \<Rightarrow> Some y | None \<Rightarrow> find_map f ys)"
  by (induction xs) (auto split: option.splits)

lemma find_map_None_set:
  "set xs = set ys \<Longrightarrow> find_map f xs = None \<longleftrightarrow> find_map f ys = None"
  by (simp add: find_map_None)

lemma find_Some_iff_first: "find P xs = Some x \<Longrightarrow> P x \<and> x \<in> set xs"
  by (induction xs) (auto split: if_splits)

section \<open>Strings\<close>

text \<open>The decimal form of an unsigned integer (\<^verbatim>\<open>Display\<close>).\<close>

fun nat_str :: "nat \<Rightarrow> string" where
  "nat_str n = (if n < 10 then [char_of (48 + n)] else nat_str (n div 10) @ [char_of (48 + n mod 10)])"

declare nat_str.simps [simp del]

lemma nat_str_nonempty: "nat_str n \<noteq> []"
  by (subst nat_str.simps) simp

text \<open>A name between single quotes, as the messages print it.\<close>

definition quoted :: "string \<Rightarrow> string" where
  "quoted s = CHR 0x27 # s @ [CHR 0x27]"

text \<open>Bytes of the UTF-8 encoding of a string of code points below 256.\<close>

definition utf8_len :: "string \<Rightarrow> nat" where
  "utf8_len s = sum_list (map (\<lambda>c. if (of_char c :: nat) < 128 then 1 else 2) s)"

definition is_ws :: "char \<Rightarrow> bool" where
  "is_ws c \<longleftrightarrow> (let n = (of_char c :: nat) in (9 \<le> n \<and> n \<le> 13) \<or> n = 32 \<or> n = 133 \<or> n = 160)"

definition trim_start :: "string \<Rightarrow> string" where
  "trim_start s = dropWhile is_ws s"

definition trim_end :: "string \<Rightarrow> string" where
  "trim_end s = rev (dropWhile is_ws (rev s))"

definition trim :: "string \<Rightarrow> string" where
  "trim s = trim_end (trim_start s)"

section \<open>Interface: a state machine with an invariant\<close>

text \<open>
  Several components are state machines: a state, a total step for each request, and a
  well-formedness predicate that every step keeps. The consequences for whole runs are
  proved here once.
\<close>

locale invariant_machine =
  fixes step :: "'s \<Rightarrow> 'e \<Rightarrow> 's"
    and inv :: "'s \<Rightarrow> bool"
  assumes step_inv: "inv s \<Longrightarrow> inv (step s e)"
begin

lemma run_inv: "inv s \<Longrightarrow> inv (foldl step s es)"
  by (induction es arbitrary: s) (simp_all add: step_inv)

lemma run_prefix_inv: "inv s \<Longrightarrow> inv (foldl step s (take n es))"
  by (rule run_inv)

end

text \<open>
  A machine in which, in addition, a measure never decreases (or a fact, once true, stays
  true): the same induction.
\<close>

locale monotone_machine =
  fixes step :: "'s \<Rightarrow> 'e \<Rightarrow> 's"
    and below :: "'s \<Rightarrow> 's \<Rightarrow> bool"
  assumes below_refl: "below s s"
    and below_trans: "below s t \<Longrightarrow> below t u \<Longrightarrow> below s u"
    and step_below: "below s (step s e)"
begin

lemma run_below: "below s (foldl step s es)"
proof (induction es arbitrary: s)
  case Nil
  show ?case by (simp add: below_refl)
next
  case (Cons e es)
  have "below s (step s e)" by (rule step_below)
  then show ?case using Cons.IH [of "step s e"] by (auto intro: below_trans)
qed

end

text \<open>Runs of a machine whose steps give an output, with the outputs in order.\<close>

fun run_outputs :: "('s \<Rightarrow> 'e \<Rightarrow> 's \<times> 'o) \<Rightarrow> 's \<Rightarrow> 'e list \<Rightarrow> 's \<times> 'o list" where
  "run_outputs step s [] = (s, [])"
| "run_outputs step s (e # es) =
     (case step s e of (s1, out) \<Rightarrow> (case run_outputs step s1 es of (s2, outs) \<Rightarrow> (s2, out # outs)))"

lemma fst_run_outputs_Cons: "fst (run_outputs step s (e # es)) = fst (run_outputs step (fst (step s e)) es)"
  by (simp split: prod.split)

text \<open>A machine with ranks that never decrease: an output that only occurs when the rank of a key
  crosses a threshold occurs at most once in a run.\<close>

locale ranked_machine =
  fixes step :: "'s \<Rightarrow> 'e \<Rightarrow> 's \<times> 'o"
    and inv :: "'s \<Rightarrow> bool"
    and rank :: "'k \<Rightarrow> 's \<Rightarrow> nat"
  assumes inv_step: "inv s \<Longrightarrow> inv (fst (step s e))"
    and rank_step: "inv s \<Longrightarrow> rank k s \<le> rank k (fst (step s e))"
begin

lemma run_inv: "inv s \<Longrightarrow> inv (fst (run_outputs step s es))"
proof (induction es arbitrary: s)
  case (Cons e es)
  then show ?case by (simp only: fst_run_outputs_Cons inv_step)
qed simp

lemma run_rank: "inv s \<Longrightarrow> rank k s \<le> rank k (fst (run_outputs step s es))"
proof (induction es arbitrary: s)
  case (Cons e es)
  then show ?case unfolding fst_run_outputs_Cons using inv_step [of s e] rank_step [of s k e] by (blast intro: order_trans)
qed simp

lemma crossing_once:
  assumes "\<And>s e. inv s \<Longrightarrow> P (snd (step s e)) \<Longrightarrow> rank k s < n \<and> n \<le> rank k (fst (step s e))" "inv s"
  shows "length (filter P (snd (run_outputs step s es))) \<le> (if rank k s < n then 1 else 0)"
  using assms(2)
proof (induction es arbitrary: s)
  case (Cons e es)
  obtain s1 out where st: "step s e = (s1, out)" by fastforce
  obtain s2 outs where rn: "run_outputs step s1 es = (s2, outs)" by fastforce
  have i1: "inv s1" using inv_step [OF Cons.prems, of e] st by simp
  have mono: "rank k s \<le> rank k s1" using rank_step [OF Cons.prems, of k e] st by simp
  have ih: "length (filter P outs) \<le> (if rank k s1 < n then 1 else 0)" using Cons.IH [OF i1] rn by simp
  show ?case
  proof (cases "P out")
    case True
    then have "rank k s < n \<and> n \<le> rank k s1" using assms(1) [OF Cons.prems, of e] st by simp
    with ih st rn True show ?thesis by simp
  next
    case False
    with ih mono st rn show ?thesis by (auto split: if_splits)
  qed
qed simp

end

section \<open>Interface: records addressed by a key\<close>

text \<open>
  The in-memory registries and the database tables share one contract: an insertion is
  visible under its key, leaves the other keys alone, and a removal removes exactly its key.
\<close>

locale keyed_store =
  fixes lookup :: "'k \<Rightarrow> 't \<Rightarrow> 'r option"
    and put :: "'r \<Rightarrow> 't \<Rightarrow> 't"
    and remove :: "'k \<Rightarrow> 't \<Rightarrow> 't"
    and key :: "'r \<Rightarrow> 'k"
  assumes lookup_put: "lookup k (put r t) = (if k = key r then Some r else lookup k t)"
    and lookup_remove: "lookup k (remove j t) = (if k = j then None else lookup k t)"
    and lookup_key: "lookup k t = Some r \<Longrightarrow> key r = k"
begin

lemma put_put_same: "key r = key r' \<Longrightarrow> lookup k (put r' (put r t)) = lookup k (put r' t)"
  by (simp add: lookup_put)

lemma put_commute:
  "key r \<noteq> key r' \<Longrightarrow> lookup k (put r' (put r t)) = lookup k (put r (put r' t))"
  by (simp add: lookup_put)

lemma remove_put: "lookup k (remove (key r) (put r t)) = lookup k (remove (key r) t)"
  by (simp add: lookup_put lookup_remove)

lemma lookup_put_other: "k \<noteq> key r \<Longrightarrow> lookup k (put r t) = lookup k t"
  by (simp add: lookup_put)

lemma lookup_foldl_put_other:
  "(\<And>r. r \<in> set rs \<Longrightarrow> key r \<noteq> k) \<Longrightarrow> lookup k (foldl (\<lambda>t r. put r t) t rs) = lookup k t"
  by (induction rs arbitrary: t) (auto simp: lookup_put)

end

end
