(* ===== verification/Guard_Action.thy ===== *)
theory Guard_Action
  imports Prelude
begin

text \<open>
  The action taxonomy of \<^verbatim>\<open>crates/hf-guardrails/src/action.rs\<close>: the privileged operations,
  their inherent risk tier, the stable kind used in audit records and the label shown to
  the approver. The tiers are linearly ordered by declaration, as the derived \<^verbatim>\<open>Ord\<close> is.
\<close>

section \<open>Risk tiers\<close>

datatype risk_tier = Low | Medium | High | Critical

fun tier_rank :: "risk_tier \<Rightarrow> nat" where
  "tier_rank Low = 0"
| "tier_rank Medium = 1"
| "tier_rank High = 2"
| "tier_rank Critical = 3"

lemma tier_rank_inj [simp]: "tier_rank a = tier_rank b \<longleftrightarrow> a = b"
  by (cases a; cases b) simp_all

instantiation risk_tier :: linorder
begin

definition less_eq_risk_tier :: "risk_tier \<Rightarrow> risk_tier \<Rightarrow> bool" where
  "a \<le> b \<longleftrightarrow> tier_rank a \<le> tier_rank b"

definition less_risk_tier :: "risk_tier \<Rightarrow> risk_tier \<Rightarrow> bool" where
  "a < b \<longleftrightarrow> tier_rank a < tier_rank b"

instance
  by standard (auto simp: less_eq_risk_tier_def less_risk_tier_def simp flip: tier_rank_inj)

end

lemmas tier_order = less_eq_risk_tier_def less_risk_tier_def

fun tier_as_str :: "risk_tier \<Rightarrow> string" where
  "tier_as_str Low = ''low''"
| "tier_as_str Medium = ''medium''"
| "tier_as_str High = ''high''"
| "tier_as_str Critical = ''critical''"

text \<open>The derived \<^verbatim>\<open>Debug\<close> form, used in denial and approval reasons.\<close>

fun tier_debug :: "risk_tier \<Rightarrow> string" where
  "tier_debug Low = ''Low''"
| "tier_debug Medium = ''Medium''"
| "tier_debug High = ''High''"
| "tier_debug Critical = ''Critical''"

section \<open>Actions\<close>

datatype action =
    Discover
  | AnalyzeSource string
  | DraftHarness
  | CompileHarness
  | RunHarness
  | PromoteHarness
  | RunFuzzer string u64
  | RunConcolic string u64
  | VerifyRemediation string u64
  | RunProjectBuild string
  | PublishChangeComparison string
  | PublishFindings string
  | AutomotiveOffline string
  | AutomotiveVirtualCan string u64
  | AutomotivePhysicalBench string string u64 string
  | Triage
  | CorpusOp
  | Chat
  | ShellExec string
  | WriteHostFile string
  | AgentTool string

fun action_kind :: "action \<Rightarrow> string" where
  "action_kind Discover = ''discover''"
| "action_kind (AnalyzeSource _) = ''analyze_source''"
| "action_kind DraftHarness = ''draft_harness''"
| "action_kind CompileHarness = ''compile_harness''"
| "action_kind RunHarness = ''run_harness''"
| "action_kind PromoteHarness = ''promote_harness''"
| "action_kind (RunFuzzer _ _) = ''run_fuzzer''"
| "action_kind (RunConcolic _ _) = ''run_concolic''"
| "action_kind (VerifyRemediation _ _) = ''verify_remediation''"
| "action_kind (RunProjectBuild _) = ''run_project_build''"
| "action_kind (PublishChangeComparison _) = ''publish_change_comparison''"
| "action_kind (PublishFindings _) = ''publish_findings''"
| "action_kind (AutomotiveOffline _) = ''automotive_offline''"
| "action_kind (AutomotiveVirtualCan _ _) = ''automotive_virtual_can''"
| "action_kind (AutomotivePhysicalBench _ _ _ _) = ''automotive_physical_bench''"
| "action_kind Triage = ''triage''"
| "action_kind CorpusOp = ''corpus_op''"
| "action_kind Chat = ''chat''"
| "action_kind (ShellExec _) = ''shell_exec''"
| "action_kind (WriteHostFile _) = ''write_host_file''"
| "action_kind (AgentTool _) = ''agent_tool''"

abbreviation secs_str :: "u64 \<Rightarrow> string" where
  "secs_str d \<equiv> nat_str (unat d) @ ''s''"

fun action_label :: "action \<Rightarrow> string" where
  "action_label Discover = ''discover targets''"
| "action_label (AnalyzeSource analyzer) = ''analyze source with '' @ analyzer"
| "action_label DraftHarness = ''draft harness''"
| "action_label CompileHarness = ''compile harness in sandbox''"
| "action_label RunHarness = ''run harness (smoke fuzz)''"
| "action_label PromoteHarness = ''promote harness''"
| "action_label (RunFuzzer engine d) = ''run '' @ engine @ '' for '' @ secs_str d"
| "action_label (RunConcolic target d) =
     ''run concolic enrichment for '' @ target @ '' for '' @ secs_str d"
| "action_label (VerifyRemediation engine d) =
     ''verify '' @ engine @ '' remediation for '' @ secs_str d"
| "action_label (RunProjectBuild b) = ''run the project's '' @ b @ '' build''"
| "action_label (PublishChangeComparison dest) = ''publish change comparison to '' @ dest"
| "action_label (PublishFindings dest) = ''publish findings to '' @ dest"
| "action_label (AutomotiveOffline oper) = ''automotive offline '' @ oper"
| "action_label (AutomotiveVirtualCan protocol d) =
     ''automotive virtual CAN '' @ protocol @ '' for '' @ secs_str d"
| "action_label (AutomotivePhysicalBench iface protocol d img) =
     ''automotive physical CAN interface '' @ iface @ '' using '' @ protocol @ '' for ''
       @ secs_str d @ '' with image sha256:'' @ img"
| "action_label Triage = ''triage crash artifacts''"
| "action_label CorpusOp = ''corpus operation''"
| "action_label Chat = ''chat turn''"
| "action_label (ShellExec command) = ''shell: '' @ command"
| "action_label (WriteHostFile path) = ''write host file: '' @ path"
| "action_label (AgentTool name) = ''agent tool: '' @ name"

fun risk :: "action \<Rightarrow> risk_tier" where
  "risk Discover = Low"
| "risk DraftHarness = Low"
| "risk CorpusOp = Low"
| "risk Chat = Low"
| "risk CompileHarness = Medium"
| "risk (AnalyzeSource _) = Medium"
| "risk Triage = Medium"
| "risk (AutomotiveOffline _) = Medium"
| "risk (AgentTool _) = Medium"
| "risk RunHarness = High"
| "risk PromoteHarness = High"
| "risk (RunFuzzer _ _) = High"
| "risk (RunConcolic _ _) = High"
| "risk (VerifyRemediation _ _) = High"
| "risk (RunProjectBuild _) = High"
| "risk (PublishChangeComparison _) = High"
| "risk (PublishFindings _) = High"
| "risk (AutomotiveVirtualCan _ _) = High"
| "risk (AutomotivePhysicalBench _ _ _ _) = High"
| "risk (WriteHostFile _) = High"
| "risk (ShellExec _) = Critical"

section \<open>Facts about the taxonomy\<close>

lemma risk_Critical_iff: "risk a = Critical \<longleftrightarrow> (\<exists>c. a = ShellExec c)"
  by (cases a) simp_all

lemma tier_cases_le:
  "(t \<le> Medium) \<longleftrightarrow> t = Low \<or> t = Medium"
  "(Critical \<le> t) \<longleftrightarrow> t = Critical"
  "t \<le> Critical"
  by (cases t; simp add: tier_order)+

lemma tier_le_simps [simp]:
  "High \<le> Medium \<longleftrightarrow> False" "Low \<le> Medium" "Medium \<le> (Medium :: risk_tier)"
  "Critical \<le> Medium \<longleftrightarrow> False" "Critical \<le> High \<longleftrightarrow> False"
  "Critical \<le> Low \<longleftrightarrow> False" "t \<le> Critical"
  by (simp_all add: tier_order) (cases t; simp)

text \<open>
  The audit kind does not carry the parameters of an action, and it determines the tier.
\<close>

lemma action_kind_determines_risk: "action_kind a = action_kind b \<Longrightarrow> risk a = risk b"
  by (cases a; cases b; simp)

end
