(* ===== verification/Guard_Engine.thy ===== *)
theory Guard_Engine
  imports Guard_Action
begin

text \<open>
  The guardrail engine of \<^verbatim>\<open>crates/hf-guardrails/src/lib.rs\<close> with the approval gates of
  \<^verbatim>\<open>hitl.rs\<close> and the activation state of \<^verbatim>\<open>crates/hf-core/src/armed.rs\<close>. An action passes
  three phases: tighten-only advisors, policy evaluation with human consent, and deny-only
  guards. A call returns its result together with the prompts it put to the gate, since
  whether a human was asked is the observable effect of the call.
\<close>

section \<open>Decisions, advice and the policy\<close>

datatype decision =
    Allow
  | RequireApproval risk_tier string
  | Deny string

datatype advice = Abstain | AdviseApproval string

datatype guardrail_error = Denied string

record guardrail_policy =
  auto_allow_max :: risk_tier
  deny_at :: "risk_tier option"

definition default_policy :: guardrail_policy where
  "default_policy = \<lparr>auto_allow_max = Medium, deny_at = Some Critical\<rparr>"

definition permissive_policy :: guardrail_policy where
  "permissive_policy = \<lparr>auto_allow_max = Critical, deny_at = None\<rparr>"

definition evaluate :: "guardrail_policy \<Rightarrow> action \<Rightarrow> decision" where
  "evaluate p a =
     (let tier = risk a;
          denied = (case deny_at p of Some d \<Rightarrow> tier \<ge> d | None \<Rightarrow> False)
      in if denied
         then Deny (tier_debug tier @ ''-risk action '' @ quoted (action_label a) @ '' is denied by policy'')
         else if tier \<le> auto_allow_max p then Allow
         else RequireApproval tier
           (tier_debug tier @ ''-risk action '' @ quoted (action_label a) @ '' requires approval''))"

section \<open>Approval gates\<close>

text \<open>An environment is the process environment: \<open>None\<close> is an unset (or non-Unicode) variable.\<close>

type_synonym environment = "string \<Rightarrow> string option"
type_synonym approval_gate = "action \<Rightarrow> string \<Rightarrow> bool"

definition auto_approve :: approval_gate where
  "auto_approve a reason = True"

definition deny_all :: approval_gate where
  "deny_all a reason = False"

definition auto_approve_enabled :: "environment \<Rightarrow> bool" where
  "auto_approve_enabled env = (case env ''HF_AUTO_APPROVE'' of
     None \<Rightarrow> False
   | Some v \<Rightarrow> v = ''1'' \<or> v = ''true'' \<or> v = ''yes'' \<or> v = ''on'')"

definition env_approval_gate :: "environment \<Rightarrow> approval_gate" where
  "env_approval_gate env a reason = auto_approve_enabled env"

definition callback_gate :: "(action \<Rightarrow> string \<Rightarrow> bool) \<Rightarrow> approval_gate" where
  "callback_gate f a reason = f a reason"

section \<open>Activation state and the disarmed guard\<close>

text \<open>
  The handle is shared: every clone reads the one flag, so the model passes the flag's
  current value.
\<close>

type_synonym armed_state = bool

definition armed_new :: armed_state where
  "armed_new = False"

definition arm :: "armed_state \<Rightarrow> armed_state" where
  "arm s = True"

definition disarm :: "armed_state \<Rightarrow> armed_state" where
  "disarm s = False"

definition is_armed :: "armed_state \<Rightarrow> bool" where
  "is_armed s = s"

record disarmed_guard =
  dg_armed :: armed_state
  arm_required_above :: risk_tier

definition disarmed_guard_new :: "armed_state \<Rightarrow> disarmed_guard" where
  "disarmed_guard_new s = \<lparr>dg_armed = s, arm_required_above = Medium\<rparr>"

definition disarmed_deny_reason :: "disarmed_guard \<Rightarrow> action \<Rightarrow> string option" where
  "disarmed_deny_reason dg a =
     (if is_armed (dg_armed dg) \<or> risk a \<le> arm_required_above dg then None
      else Some (quoted (action_label a) @
        '' requires a freshly armed session: restored work does not resume on its own''))"

section \<open>The engine\<close>

record guardrails =
  gr_policy :: guardrail_policy
  gr_gate :: approval_gate
  gr_advisors :: "(action \<Rightarrow> advice) list"
  gr_guards :: "(action \<Rightarrow> string option) list"

definition guardrails_new :: "guardrail_policy \<Rightarrow> approval_gate \<Rightarrow> guardrails" where
  "guardrails_new p gt = \<lparr>gr_policy = p, gr_gate = gt, gr_advisors = [], gr_guards = []\<rparr>"

definition with_approval_gate :: "guardrails \<Rightarrow> approval_gate \<Rightarrow> guardrails" where
  "with_approval_gate g gt = g\<lparr>gr_gate := gt\<rparr>"

definition with_advisor :: "guardrails \<Rightarrow> (action \<Rightarrow> advice) \<Rightarrow> guardrails" where
  "with_advisor g adv = g\<lparr>gr_advisors := gr_advisors g @ [adv]\<rparr>"

definition with_guard :: "guardrails \<Rightarrow> (action \<Rightarrow> string option) \<Rightarrow> guardrails" where
  "with_guard g gd = g\<lparr>gr_guards := gr_guards g @ [gd]\<rparr>"

definition permissive :: guardrails where
  "permissive = guardrails_new permissive_policy auto_approve"

definition env_gated :: "environment \<Rightarrow> guardrails" where
  "env_gated env = guardrails_new default_policy (env_approval_gate env)"

definition from_env_with_gate :: "environment \<Rightarrow> approval_gate \<Rightarrow> guardrails" where
  "from_env_with_gate env gt =
     (if env ''HF_GUARDRAILS'' = Some ''permissive'' then permissive
      else guardrails_new default_policy gt)"

definition from_env :: "environment \<Rightarrow> guardrails" where
  "from_env env = from_env_with_gate env (env_approval_gate env)"

definition first_advice :: "guardrails \<Rightarrow> action \<Rightarrow> string option" where
  "first_advice g a =
     find_map (\<lambda>adv. case adv a of AdviseApproval reason \<Rightarrow> Some reason | Abstain \<Rightarrow> None)
       (gr_advisors g)"

definition first_guard_denial :: "guardrails \<Rightarrow> action \<Rightarrow> string option" where
  "first_guard_denial g a = find_map (\<lambda>gd. gd a) (gr_guards g)"

type_synonym prompts = "(action \<times> string) list"

definition require_approval :: "guardrails \<Rightarrow> action \<Rightarrow> string \<Rightarrow> bool \<times> prompts" where
  "require_approval g a reason = (gr_gate g a reason, [(a, reason)])"

definition resolve_policy ::
  "guardrails \<Rightarrow> action \<Rightarrow> string option \<Rightarrow> (guardrail_error, unit) result \<times> prompts" where
  "resolve_policy g a advised =
     (let ask = (\<lambda>reason.
            (if gr_gate g a reason then Inr () else Inl (Denied (''approval declined: '' @ reason)),
             [(a, reason)]))
      in case evaluate (gr_policy g) a of
           Deny reason \<Rightarrow> (Inl (Denied reason), [])
         | RequireApproval _ reason \<Rightarrow> ask reason
         | Allow \<Rightarrow> (case advised of Some reason \<Rightarrow> ask reason | None \<Rightarrow> (Inr (), [])))"

definition authorize :: "guardrails \<Rightarrow> action \<Rightarrow> (guardrail_error, unit) result \<times> prompts" where
  "authorize g a =
     (let advised = first_advice g a;
          (r, ps) = resolve_policy g a advised
      in case r of
           Inl e \<Rightarrow> (Inl e, ps)
         | Inr _ \<Rightarrow> (case first_guard_denial g a of
             Some reason \<Rightarrow> (Inl (Denied reason), ps)
           | None \<Rightarrow> (Inr (), ps)))"

abbreviation authorized :: "guardrails \<Rightarrow> action \<Rightarrow> bool" where
  "authorized g a \<equiv> is_ok (fst (authorize g a))"

section \<open>How the phases compose\<close>

lemmas builder_defs = guardrails_new_def with_approval_gate_def with_advisor_def with_guard_def

lemma evaluate_Deny_iff:
  "(\<exists>r. evaluate p a = Deny r) \<longleftrightarrow> (\<exists>d. deny_at p = Some d \<and> d \<le> risk a)"
  by (auto simp: evaluate_def Let_def split: option.splits)

lemma evaluate_Allow_iff:
  "evaluate p a = Allow \<longleftrightarrow>
     risk a \<le> auto_allow_max p \<and> (\<forall>d. deny_at p = Some d \<longrightarrow> \<not> d \<le> risk a)"
  by (auto simp: evaluate_def Let_def split: option.splits)

lemma first_advice_None_iff: "first_advice g a = None \<longleftrightarrow> (\<forall>adv\<in>set (gr_advisors g). adv a = Abstain)"
  by (auto simp: first_advice_def find_map_None split: advice.splits) (meson advice.exhaust)

lemma first_guard_denial_None_iff:
  "first_guard_denial g a = None \<longleftrightarrow> (\<forall>gd\<in>set (gr_guards g). gd a = None)"
  by (simp add: first_guard_denial_def find_map_None)

lemma authorize_prompts: "snd (authorize g a) = snd (resolve_policy g a (first_advice g a))"
  by (auto simp: authorize_def Let_def split: prod.splits sum.splits option.splits)

lemma authorized_split:
  "authorized g a \<longleftrightarrow>
     is_ok (fst (resolve_policy g a (first_advice g a))) \<and> first_guard_denial g a = None"
  by (auto simp: authorize_def Let_def split: prod.splits sum.splits option.splits)

lemma resolve_policy_ok_iff:
  "is_ok (fst (resolve_policy g a adv)) \<longleftrightarrow>
     (case evaluate (gr_policy g) a of
        Deny _ \<Rightarrow> False
      | RequireApproval _ reason \<Rightarrow> gr_gate g a reason
      | Allow \<Rightarrow> (case adv of Some reason \<Rightarrow> gr_gate g a reason | None \<Rightarrow> True))"
  by (auto simp: resolve_policy_def Let_def split: decision.splits option.splits)

lemma resolve_policy_prompts:
  "snd (resolve_policy g a adv) =
     (case evaluate (gr_policy g) a of
        Deny _ \<Rightarrow> []
      | RequireApproval _ reason \<Rightarrow> [(a, reason)]
      | Allow \<Rightarrow> (case adv of Some reason \<Rightarrow> [(a, reason)] | None \<Rightarrow> []))"
  by (auto simp: resolve_policy_def Let_def split: decision.splits option.splits)

lemma with_guard_parts [simp]:
  "gr_policy (with_guard g gd) = gr_policy g" "gr_gate (with_guard g gd) = gr_gate g"
  "first_advice (with_guard g gd) a = first_advice g a"
  "first_guard_denial (with_guard g gd) a =
     (case first_guard_denial g a of Some r \<Rightarrow> Some r | None \<Rightarrow> gd a)"
  by (auto simp: with_guard_def first_advice_def first_guard_denial_def find_map_append
      split: option.splits)

lemma with_advisor_parts [simp]:
  "gr_policy (with_advisor g adv) = gr_policy g" "gr_gate (with_advisor g adv) = gr_gate g"
  "first_guard_denial (with_advisor g adv) a = first_guard_denial g a"
  "first_advice (with_advisor g adv) a =
     (case first_advice g a of Some r \<Rightarrow> Some r
      | None \<Rightarrow> (case adv a of AdviseApproval r \<Rightarrow> Some r | Abstain \<Rightarrow> None))"
  by (auto simp: with_advisor_def first_advice_def first_guard_denial_def find_map_append
      split: option.splits advice.splits)

lemma resolve_policy_cong:
  "gr_policy g = gr_policy h \<Longrightarrow> gr_gate g = gr_gate h \<Longrightarrow>
   resolve_policy g a adv = resolve_policy h a adv"
  by (simp add: resolve_policy_def)

lemma permissive_authorized: "authorized permissive a"
  by (simp add: authorized_split resolve_policy_ok_iff permissive_def guardrails_new_def
      permissive_policy_def evaluate_def first_advice_def first_guard_denial_def Let_def)

lemma default_policy_cases:
  "evaluate default_policy a = Allow \<longleftrightarrow> risk a \<le> Medium"
  "(\<exists>r. evaluate default_policy a = Deny r) \<longleftrightarrow> (\<exists>c. a = ShellExec c)"
  by (simp_all add: evaluate_Allow_iff evaluate_Deny_iff default_policy_def tier_cases_le
      risk_Critical_iff) (cases "risk a"; auto simp: tier_order)

section \<open>Interface: a guard that leaves inspection alone\<close>

text \<open>
  What a caller relies on when it installs a guard that only concerns acting: at or below a
  floor tier the guard abstains, so it does not change any decision there.
\<close>

locale floor_guard =
  fixes deny_reason :: "action \<Rightarrow> string option"
    and floor :: risk_tier
  assumes abstains: "risk a \<le> floor \<Longrightarrow> deny_reason a = None"
begin

lemma inspection_unaffected:
  "risk a \<le> floor \<Longrightarrow> authorize (with_guard g deny_reason) a = authorize g a"
  by (simp add: authorize_def abstains resolve_policy_cong [of "with_guard g deny_reason" g]
      split: option.splits prod.splits sum.splits)

lemma denial_above_floor:
  "authorized g a \<Longrightarrow> \<not> authorized (with_guard g deny_reason) a \<Longrightarrow> floor < risk a"
  by (metis inspection_unaffected not_le)

end

interpretation disarmed: floor_guard "disarmed_deny_reason (disarmed_guard_new s)" Medium for s
  by unfold_locales (simp add: disarmed_deny_reason_def disarmed_guard_new_def)

section \<open>A session: arming, disarming and requests in any order\<close>

datatype session_event = ArmEv | DisarmEv | Request action

record session =
  se_armed :: armed_state
  se_log :: "(action \<times> bool) list"

definition session_new :: session where
  "session_new = \<lparr>se_armed = armed_new, se_log = []\<rparr>"

fun session_step :: "guardrails \<Rightarrow> session \<Rightarrow> session_event \<Rightarrow> session" where
  "session_step g s ArmEv = s\<lparr>se_armed := arm (se_armed s)\<rparr>"
| "session_step g s DisarmEv = s\<lparr>se_armed := disarm (se_armed s)\<rparr>"
| "session_step g s (Request a) =
     s\<lparr>se_log := se_log s @
       [(a, authorized (with_guard g (disarmed_deny_reason (disarmed_guard_new (se_armed s)))) a)]\<rparr>"

definition armed_since :: "session_event list \<Rightarrow> bool" where
  "armed_since es \<longleftrightarrow> (\<exists>pre mid. es = pre @ ArmEv # mid \<and> DisarmEv \<notin> set mid)"

lemma armed_since_snoc: "armed_since es \<Longrightarrow> e \<noteq> DisarmEv \<Longrightarrow> armed_since (es @ [e])"
  by (fastforce simp: armed_since_def)

lemma session_armed_since:
  "se_armed (foldl (session_step g) session_new es) \<Longrightarrow> armed_since es"
proof (induction es rule: rev_induct)
  case Nil
  then show ?case by (simp add: session_new_def armed_new_def)
next
  case (snoc e es)
  then show ?case
  proof (cases e)
    case ArmEv
    then show ?thesis by (force simp: armed_since_def)
  next
    case DisarmEv
    with snoc.prems show ?thesis by (simp add: disarm_def)
  next
    case (Request a)
    with snoc show ?thesis by (simp add: armed_since_snoc)
  qed
qed

lemma request_needs_arming:
  assumes "authorized (with_guard g (disarmed_deny_reason (disarmed_guard_new s))) a"
  shows "s \<or> risk a \<le> Medium"
proof (rule ccontr)
  assume "\<not> (s \<or> risk a \<le> Medium)"
  then have "disarmed_deny_reason (disarmed_guard_new s) a \<noteq> None"
    by (simp add: disarmed_deny_reason_def disarmed_guard_new_def is_armed_def)
  with assms show False by (auto simp: authorized_split split: option.splits)
qed

section \<open>Properties\<close>

text \<open>C1. An action is authorized exactly when the policy does not hard-deny its tier, the
  human gate consented wherever the policy or an advisor asks for consent, and no guard denies
  it. Consent is necessary, never sufficient.\<close>

theorem authorize_ok_iff:
  "authorized g a \<longleftrightarrow>
     (\<forall>d. deny_at (gr_policy g) = Some d \<longrightarrow> \<not> d \<le> risk a) \<and>
     (if risk a \<le> auto_allow_max (gr_policy g) \<and> (\<forall>adv\<in>set (gr_advisors g). adv a = Abstain)
      then snd (authorize g a) = []
      else \<exists>r. snd (authorize g a) = [(a, r)] \<and> gr_gate g a r) \<and>
     (\<forall>gd\<in>set (gr_guards g). gd a = None)"
proof (cases "evaluate (gr_policy g) a")
  case Allow
  then have al: "risk a \<le> auto_allow_max (gr_policy g)"
    "\<forall>d. deny_at (gr_policy g) = Some d \<longrightarrow> \<not> d \<le> risk a"
    by (simp_all add: evaluate_Allow_iff)
  show ?thesis
    using Allow al
    by (cases "first_advice g a")
      (auto simp: authorized_split authorize_prompts resolve_policy_ok_iff resolve_policy_prompts
        first_guard_denial_None_iff first_advice_None_iff [symmetric])
next
  case (RequireApproval t r)
  then have "\<not> risk a \<le> auto_allow_max (gr_policy g)"
    "\<forall>d. deny_at (gr_policy g) = Some d \<longrightarrow> \<not> d \<le> risk a"
    by (auto simp: evaluate_def Let_def split: option.splits if_splits)
  with RequireApproval show ?thesis
    by (auto simp: authorized_split authorize_prompts resolve_policy_ok_iff resolve_policy_prompts
        first_guard_denial_None_iff)
next
  case (Deny r)
  then have "\<exists>d. deny_at (gr_policy g) = Some d \<and> d \<le> risk a"
    using evaluate_Deny_iff by blast
  with Deny show ?thesis by (auto simp: authorized_split resolve_policy_ok_iff)
qed

theorem authorize_ok_iff_witness:
  "authorized (guardrails_new default_policy auto_approve) RunHarness \<and>
   (\<exists>r. snd (authorize (guardrails_new default_policy auto_approve) RunHarness) = [(RunHarness, r)])"
proof -
  let ?g = "guardrails_new default_policy auto_approve"
  have "authorized ?g RunHarness"
    by (simp add: authorized_split resolve_policy_ok_iff guardrails_new_def default_policy_def
        evaluate_def auto_approve_def first_guard_denial_def Let_def tier_order)
  then show ?thesis
    using authorize_ok_iff [of ?g RunHarness]
    by (simp add: guardrails_new_def default_policy_def tier_order) blast
qed

text \<open>Extensions only tighten: registering a guard or an advisor never authorizes an
  action that was not authorized before, and neither the order nor the multiplicity of the
  guards changes any decision.\<close>

theorem extensions_only_tighten:
  "(authorized (with_guard g gd) a \<longrightarrow> authorized g a) \<and>
   (authorized (with_advisor g adv) a \<longrightarrow> authorized g a) \<and>
   (set gs = set (gr_guards g) \<longrightarrow> authorized (g\<lparr>gr_guards := gs\<rparr>) a = authorized g a)"
proof (intro conjI impI)
  assume "authorized (with_guard g gd) a"
  then show "authorized g a"
    by (auto simp: authorized_split resolve_policy_ok_iff split: option.splits decision.splits)
next
  assume "authorized (with_advisor g adv) a"
  then show "authorized g a"
    by (auto simp: authorized_split resolve_policy_ok_iff
        split: option.splits decision.splits advice.splits)
next
  assume "set gs = set (gr_guards g)"
  then show "authorized (g\<lparr>gr_guards := gs\<rparr>) a = authorized g a"
    by (auto simp: authorized_split resolve_policy_ok_iff first_advice_def first_guard_denial_None_iff
        split: decision.splits option.splits)
qed

theorem extensions_only_tighten_witness:
  "authorized (with_guard permissive (\<lambda>_. None)) Triage \<and> authorized permissive Triage"
proof -
  have "authorized (with_guard permissive (\<lambda>_. None)) Triage"
    using permissive_authorized [of Triage]
    by (simp add: authorized_split resolve_policy_cong [of "with_guard permissive (\<lambda>_. None)" permissive]
        split: option.splits)
  then show ?thesis
    using extensions_only_tighten [of permissive "\<lambda>_. None" Triage "\<lambda>_. Abstain" "[]"] by blast
qed



text \<open>Activation is never restored: in every interleaving of arming, disarming and
  requests from a fresh process, a request above the medium tier is authorized only after an
  arming that no disarming has followed.\<close>

theorem disarmed_session_safe:
  assumes "(a, True) \<in> set (se_log (foldl (session_step g) session_new es))"
  shows "risk a \<le> Medium \<or> (\<exists>pre post. es = pre @ Request a # post \<and> armed_since pre)"
  using assms
proof (induction es rule: rev_induct)
  case Nil
  then show ?case by (simp add: session_new_def)
next
  case (snoc e es)
  show ?case
  proof (cases "(a, True) \<in> set (se_log (foldl (session_step g) session_new es))")
    case True
    with snoc.IH show ?thesis by (metis append.assoc append_Cons)
  next
    case False
    let ?s = "se_armed (foldl (session_step g) session_new es)"
    from False snoc.prems have e: "e = Request a"
      and ok: "authorized (with_guard g (disarmed_deny_reason (disarmed_guard_new ?s))) a"
      by (cases e; auto)+
    from request_needs_arming [OF ok] session_armed_since [of g es] e show ?thesis by auto
  qed
qed

theorem disarmed_session_safe_witness:
  "(RunHarness, True) \<in> set (se_log (foldl (session_step permissive) session_new [ArmEv, Request RunHarness]))
   \<and> (\<exists>pre post. [ArmEv, Request RunHarness] = pre @ Request RunHarness # post \<and> armed_since pre)"
proof -
  have ok: "authorized (with_guard permissive (disarmed_deny_reason (disarmed_guard_new True))) RunHarness"
    using permissive_authorized [of RunHarness]
    by (simp add: authorized_split disarmed_deny_reason_def disarmed_guard_new_def is_armed_def
        resolve_policy_cong [of "with_guard permissive _" permissive] split: option.splits)
  then have mem: "(RunHarness, True) \<in> set (se_log (foldl (session_step permissive) session_new
      [ArmEv, Request RunHarness]))"
    by (simp add: session_new_def arm_def)
  from disarmed_session_safe [OF mem] show ?thesis using mem by simp
qed

end
