(* ===== verification/Loop_Guard.thy ===== *)
theory Loop_Guard
  imports Prelude
begin

text \<open>
  Runaway-loop detection for the agent loop, \<^verbatim>\<open>crates/hf-guardrails/src/loop_guard.rs\<close>. The
  guard keeps a bounded history of steps and reports the first of four patterns. Thresholds
  are \<^verbatim>\<open>usize\<close> values, so naturals up to \<open>u64_max\<close>; the unchecked \<open>oscillation_threshold * 2\<close>
  of \<^verbatim>\<open>max_history\<close> wraps, as in a release build, while \<^verbatim>\<open>check_oscillation\<close> uses a checked
  multiplication.
\<close>

section \<open>Data\<close>

datatype loop_pattern = Repetition | Oscillation | RedundantToolCall | Drift

fun pattern_as_str :: "loop_pattern \<Rightarrow> string" where
  "pattern_as_str Repetition = ''repetition''"
| "pattern_as_str Oscillation = ''oscillation''"
| "pattern_as_str RedundantToolCall = ''redundant_tool_call''"
| "pattern_as_str Drift = ''drift''"

record loop_guard_config =
  repetition_threshold :: nat
  oscillation_threshold :: nat
  redundant_threshold :: nat
  drift_window :: nat
  enabled :: bool

definition default_config :: loop_guard_config where
  "default_config = \<lparr>repetition_threshold = 4, oscillation_threshold = 3,
     redundant_threshold = 3, drift_window = 8, enabled = True\<rparr>"

record step_record =
  sr_action :: string
  args_signature :: "string option"

definition step_tool :: "string \<Rightarrow> string \<Rightarrow> step_record" where
  "step_tool a sig = \<lparr>sr_action = a, args_signature = Some sig\<rparr>"

definition step_action :: "string \<Rightarrow> step_record" where
  "step_action a = \<lparr>sr_action = a, args_signature = None\<rparr>"

definition signature_key :: "step_record \<Rightarrow> string \<times> string option" where
  "signature_key s = (sr_action s, args_signature s)"

record loop_detection =
  ld_pattern :: loop_pattern
  ld_reason :: string

record loop_guard =
  lg_config :: loop_guard_config
  lg_history :: "step_record list"

definition loop_guard_new :: "loop_guard_config \<Rightarrow> loop_guard" where
  "loop_guard_new c = \<lparr>lg_config = c, lg_history = []\<rparr>"

section \<open>Operations\<close>

definition max_history :: "loop_guard_config \<Rightarrow> nat" where
  "max_history c =
     max (sat_mul_u64
           (max (max (max (repetition_threshold c) (oscillation_threshold c * 2 mod 2 ^ 64))
                     (redundant_threshold c))
                (drift_window c)) 2)
         1"

text \<open>The trimming loop of \<^verbatim>\<open>record\<close>: drop from the front while the history is too long.\<close>

fun trim_history :: "nat \<Rightarrow> 'a list \<Rightarrow> 'a list" where
  "trim_history cap [] = []"
| "trim_history cap (x # xs) = (if length (x # xs) > cap then trim_history cap xs else x # xs)"

definition check_repetition :: "loop_guard_config \<Rightarrow> step_record list \<Rightarrow> loop_detection option" where
  "check_repetition c h =
     (let threshold = repetition_threshold c
      in if threshold = 0 \<or> length h < threshold \<or> h = [] then None
         else let key = signature_key (last h);
                  consecutive = length (takeWhile (\<lambda>s. signature_key s = key) (rev h))
              in if consecutive \<ge> threshold
                 then Some \<lparr>ld_pattern = Repetition,
                        ld_reason = ''action '' @ quoted (sr_action (last h)) @ '' repeated ''
                          @ nat_str consecutive @ '' times in a row (threshold ''
                          @ nat_str threshold @ '')''\<rparr>
                 else None)"

definition check_oscillation :: "loop_guard_config \<Rightarrow> step_record list \<Rightarrow> loop_detection option" where
  "check_oscillation c h =
     (let threshold = oscillation_threshold c; needed = threshold * 2
      in if needed > u64_max then None
         else if needed = 0 \<or> length h < needed then None
         else let tail = take needed (rev h);
                  a = signature_key (tail ! 0); b = signature_key (tail ! 1)
              in if a = b then None
                 else if list_all (\<lambda>(i, s). signature_key s = (if i mod 2 = 0 then a else b))
                        (enumerate 0 tail)
                 then Some \<lparr>ld_pattern = Oscillation,
                        ld_reason = ''oscillation between '' @ quoted (fst a) @ '' and ''
                          @ quoted (fst b) @ '' for '' @ nat_str threshold @ '' cycles''\<rparr>
                 else None)"

definition check_redundant_tool :: "loop_guard_config \<Rightarrow> step_record list \<Rightarrow> loop_detection option" where
  "check_redundant_tool c h =
     (let threshold = redundant_threshold c
      in if threshold = 0 \<or> length h < threshold \<or> h = [] then None
         else case args_signature (last h) of
                None \<Rightarrow> None
              | Some sig \<Rightarrow>
                  let consecutive = length (takeWhile
                        (\<lambda>s. sr_action s = sr_action (last h) \<and> args_signature s = Some sig) (rev h))
                  in if consecutive \<ge> threshold
                     then Some \<lparr>ld_pattern = RedundantToolCall,
                            ld_reason = ''tool '' @ quoted (sr_action (last h))
                              @ '' called with identical arguments '' @ nat_str consecutive
                              @ '' times (threshold '' @ nat_str threshold @ '')''\<rparr>
                     else None)"

definition check_drift :: "loop_guard_config \<Rightarrow> step_record list \<Rightarrow> loop_detection option" where
  "check_drift c h =
     (let window = drift_window c
      in if window < 4 \<or> length h < window then None
         else let n_distinct = length (remdups (map signature_key (take window (rev h))))
              in if 1 \<le> n_distinct \<and> sat_mul_u64 n_distinct 2 \<le> window
                 then Some \<lparr>ld_pattern = Drift,
                        ld_reason = ''stuck cycling over '' @ nat_str n_distinct
                          @ '' distinct step(s) across the last '' @ nat_str window @ '' steps''\<rparr>
                 else None)"

text \<open>\<^verbatim>\<open>or_else\<close> chain of \<^verbatim>\<open>record\<close>: the most specific pattern first.\<close>

definition detect :: "loop_guard_config \<Rightarrow> step_record list \<Rightarrow> loop_detection option" where
  "detect c h =
     (case check_redundant_tool c h of Some d \<Rightarrow> Some d
      | None \<Rightarrow> (case check_repetition c h of Some d \<Rightarrow> Some d
      | None \<Rightarrow> (case check_oscillation c h of Some d \<Rightarrow> Some d
      | None \<Rightarrow> check_drift c h)))"

definition record_step :: "loop_guard \<Rightarrow> step_record \<Rightarrow> loop_guard \<times> loop_detection option" where
  "record_step g s =
     (if \<not> enabled (lg_config g) then (g, None)
      else let h = trim_history (max_history (lg_config g)) (lg_history g @ [s])
           in (g\<lparr>lg_history := h\<rparr>, detect (lg_config g) h))"

definition reset_history :: "loop_guard \<Rightarrow> loop_guard" where
  "reset_history g = g\<lparr>lg_history := []\<rparr>"

text \<open>The agent feeds the steps one after the other.\<close>

definition feed :: "loop_guard \<Rightarrow> step_record list \<Rightarrow> loop_guard" where
  "feed g steps = foldl (\<lambda>g s. fst (record_step g s)) g steps"

section \<open>The bounded history\<close>

lemma trim_history_drop: "trim_history cap xs = drop (length xs - cap) xs"
  by (induction xs) (auto simp: Suc_diff_le not_less_eq_eq)

lemma length_trim_history: "length (trim_history cap xs) \<le> cap"
  by (simp add: trim_history_drop)

lemma drop_append_drop:
  "drop (length (drop (length xs - n) xs @ [x]) - n) (drop (length xs - n) xs @ [x])
     = drop (length (xs @ [x]) - n) (xs @ [x])"
proof (cases "length xs \<le> n")
  case True
  then show ?thesis by simp
next
  case False
  then have "length (drop (length xs - n) xs) = n" by simp
  moreover have "length xs - n + (Suc n - n) = Suc (length xs) - n" using False by simp
  ultimately show ?thesis using False
    by (cases n) (simp_all add: Suc_diff_le [symmetric] del: drop_Suc)
qed

definition config_ok :: "loop_guard_config \<Rightarrow> bool" where
  "config_ok c \<longleftrightarrow> repetition_threshold c \<le> u64_max \<and> oscillation_threshold c \<le> u64_max
     \<and> redundant_threshold c \<le> u64_max \<and> drift_window c \<le> u64_max"

definition history_bounded :: "loop_guard \<Rightarrow> bool" where
  "history_bounded g \<longleftrightarrow> length (lg_history g) \<le> max_history (lg_config g)"

interpretation history: invariant_machine "\<lambda>g s. fst (record_step g s)" history_bounded
  by unfold_locales (simp add: record_step_def history_bounded_def length_trim_history Let_def)

lemma feed_config [simp]: "lg_config (feed g steps) = lg_config g"
  unfolding feed_def
  by (induction steps arbitrary: g) (simp_all add: record_step_def Let_def)

lemma feed_history:
  assumes "enabled c"
  shows "lg_history (feed (loop_guard_new c) steps) = drop (length steps - max_history c) steps"
proof (induction steps rule: rev_induct)
  case Nil
  show ?case by (simp add: feed_def loop_guard_new_def)
next
  case (snoc s steps)
  have c: "lg_config (feed (loop_guard_new c) steps) = c" by (simp add: loop_guard_new_def)
  have "feed (loop_guard_new c) (steps @ [s]) = fst (record_step (feed (loop_guard_new c) steps) s)"
    by (simp add: feed_def)
  with assms snoc.IH c show ?case
    by (simp only: record_step_def Let_def trim_history_drop drop_append_drop if_False not_True_eq_False
        fst_conv) (simp add: drop_append_drop [simplified])
qed

section \<open>Every detector looks at a bounded suffix\<close>

text \<open>
  The pattern a detector reports depends only on the last steps, and the bound is at most
  \<open>max_history\<close>; so trimming loses no detection.
\<close>

lemma take_rev_drop: "n \<le> k \<Longrightarrow> take n (rev (drop (length h - k) h)) = take n (rev h)"
  by (simp add: rev_drop take_take min_absorb1 min_def)

lemma takeWhile_ge_iff:
  "n \<le> length (takeWhile P xs) \<longleftrightarrow> n \<le> length xs \<and> list_all P (take n xs)"
proof (induction xs arbitrary: n)
  case Nil
  then show ?case by simp
next
  case (Cons x xs)
  then show ?case by (cases n) auto
qed

lemma last_take_rev: "h \<noteq> [] \<Longrightarrow> last h = hd (rev h)"
  by (simp add: hd_rev)

lemma check_repetition_pattern:
  "map_option ld_pattern (check_repetition c h) =
     (let t = repetition_threshold c
      in if 0 < t \<and> t \<le> length h \<and>
            list_all (\<lambda>s. signature_key s = signature_key (hd (take t (rev h)))) (take t (rev h))
         then Some Repetition else None)"
  by (auto simp: check_repetition_def Let_def takeWhile_ge_iff hd_rev)

lemma check_redundant_pattern:
  "map_option ld_pattern (check_redundant_tool c h) =
     (let t = redundant_threshold c; l = hd (take t (rev h))
      in if 0 < t \<and> t \<le> length h \<and> args_signature l \<noteq> None \<and>
            list_all (\<lambda>s. signature_key s = signature_key l) (take t (rev h))
         then Some RedundantToolCall else None)"
  by (auto simp: check_redundant_tool_def Let_def takeWhile_ge_iff hd_rev signature_key_def
      split: option.splits elim!: list.pred_mono_strong)

lemma check_oscillation_suffix:
  assumes "oscillation_threshold c * 2 \<le> k \<or> u64_max < oscillation_threshold c * 2"
  shows "check_oscillation c (drop (length h - k) h) = check_oscillation c h"
  using assms
  by (auto simp: check_oscillation_def Let_def take_rev_drop)

lemma check_drift_suffix:
  assumes "drift_window c \<le> k"
  shows "check_drift c (drop (length h - k) h) = check_drift c h"
  using assms by (auto simp: check_drift_def Let_def take_rev_drop)

lemma repetition_suffix:
  assumes "repetition_threshold c \<le> k"
  shows "map_option ld_pattern (check_repetition c (drop (length h - k) h))
    = map_option ld_pattern (check_repetition c h)"
  using assms by (auto simp: check_repetition_pattern Let_def take_rev_drop)

lemma redundant_suffix:
  assumes "redundant_threshold c \<le> k"
  shows "map_option ld_pattern (check_redundant_tool c (drop (length h - k) h))
    = map_option ld_pattern (check_redundant_tool c h)"
  using assms by (auto simp: check_redundant_pattern Let_def take_rev_drop)

lemma detect_pattern:
  "map_option ld_pattern (detect c h) =
     (case map_option ld_pattern (check_redundant_tool c h) of Some d \<Rightarrow> Some d
      | None \<Rightarrow> (case map_option ld_pattern (check_repetition c h) of Some d \<Rightarrow> Some d
      | None \<Rightarrow> (case map_option ld_pattern (check_oscillation c h) of Some d \<Rightarrow> Some d
      | None \<Rightarrow> map_option ld_pattern (check_drift c h))))"
  by (simp add: detect_def split: option.splits)

lemma max_history_covers:
  assumes "config_ok c"
  shows "repetition_threshold c \<le> max_history c" "redundant_threshold c \<le> max_history c"
    "drift_window c \<le> max_history c"
    "oscillation_threshold c * 2 \<le> max_history c \<or> u64_max < oscillation_threshold c * 2"
proof -
  let ?m = "max (max (max (repetition_threshold c) (oscillation_threshold c * 2 mod 2 ^ 64))
                     (redundant_threshold c)) (drift_window c)"
  have "oscillation_threshold c * 2 mod 2 ^ 64 \<le> u64_max"
    by (simp add: u64_max_def less_Suc_eq_le [symmetric])
  then have "?m \<le> u64_max" using assms by (simp add: config_ok_def)
  moreover have "m \<le> u64_max \<Longrightarrow> m \<le> max (sat_mul_u64 m 2) 1" for m
    by (simp add: sat_mul_u64_def max_def min_def)
  ultimately have m: "?m \<le> max_history c" unfolding max_history_def by blast
  then show "repetition_threshold c \<le> max_history c" "redundant_threshold c \<le> max_history c"
    "drift_window c \<le> max_history c" by simp_all
  have "oscillation_threshold c * 2 mod 2 ^ 64 = oscillation_threshold c * 2
      \<or> u64_max < oscillation_threshold c * 2"
    by (cases "oscillation_threshold c * 2 < 2 ^ 64") (simp_all add: u64_max_def)
  with m show "oscillation_threshold c * 2 \<le> max_history c \<or> u64_max < oscillation_threshold c * 2"
    by auto
qed

lemma detect_trimmed:
  assumes "config_ok c"
  shows "map_option ld_pattern (detect c (drop (length h - max_history c) h))
    = map_option ld_pattern (detect c h)"
  using max_history_covers [OF assms]
  by (simp only: detect_pattern redundant_suffix repetition_suffix check_oscillation_suffix
      check_drift_suffix)

lemma record_after_feed:
  assumes "enabled c"
  shows "snd (record_step (feed (loop_guard_new c) steps) s)
    = detect c (drop (length (steps @ [s]) - max_history c) (steps @ [s]))"
proof -
  have "lg_config (feed (loop_guard_new c) steps) = c" by (simp add: loop_guard_new_def)
  with assms show ?thesis
    by (simp only: record_step_def Let_def trim_history_drop feed_history drop_append_drop if_False
        not_True_eq_False snd_conv)
qed

lemma record_pattern_full:
  assumes "config_ok c" "enabled c"
  shows "map_option ld_pattern (snd (record_step (feed (loop_guard_new c) steps) s))
    = map_option ld_pattern (detect c (steps @ [s]))"
  by (simp only: record_after_feed [OF assms(2)] detect_trimmed [OF assms(1)])

lemma distinct_not_all_same:
  assumes "distinct (map f xs)" "2 \<le> t" "t \<le> length xs"
  shows "\<not> list_all (\<lambda>x. f x = f (hd (take t xs))) (take t xs)"
proof -
  obtain x y zs where "xs = x # y # zs"
    using assms by (cases xs; cases "tl xs") auto
  moreover obtain n where "t = Suc (Suc n)" using assms(2) by (metis add_2_eq_Suc le_Suc_ex)
  ultimately show ?thesis using assms(1) by auto
qed

lemma fresh_no_oscillation:
  assumes d: "distinct (map signature_key (rev h))" and t: "oscillation_threshold c \<noteq> 1"
  shows "check_oscillation c h = None"
proof (rule ccontr)
  let ?n = "oscillation_threshold c * 2"
  let ?tail = "take ?n (rev h)"
  assume "check_oscillation c h \<noteq> None"
  then have n: "?n \<noteq> 0" "?n \<le> length h"
    and alt: "list_all (\<lambda>(i, s). signature_key s =
      (if i mod 2 = 0 then signature_key (?tail ! 0) else signature_key (?tail ! Suc 0))) (enumerate 0 ?tail)"
    by (auto simp: check_oscillation_def Let_def split: if_splits)
  from n(1) t have four: "4 \<le> ?n" by (cases "oscillation_threshold c") auto
  then have len: "2 < length ?tail" using n(2) by simp
  then have "(2, ?tail ! 2) \<in> set (enumerate 0 ?tail)"
    by (metis add_0 in_set_conv_nth length_enumerate nth_enumerate_eq)
  with alt have "signature_key (?tail ! 2) = signature_key (?tail ! 0)"
    unfolding list_all_iff by fastforce
  moreover have ne: "h \<noteq> []" using four n(2) by auto
  ultimately have "map signature_key (rev h) ! 2 = map signature_key (rev h) ! 0"
    using four n(2) by simp
  moreover have "map signature_key (rev h) ! 2 \<noteq> map signature_key (rev h) ! 0"
    using nth_eq_iff_index_eq [OF d, of 2 0] ne four n(2) by simp
  ultimately show False by contradiction
qed

lemma fresh_no_drift:
  assumes d: "distinct (map signature_key (rev h))" and w: "drift_window c < u64_max"
  shows "check_drift c h = None"
proof -
  have "distinct (map signature_key (take w (rev h)))" for w
    using d by (metis distinct_take take_map)
  then have "length (remdups (map signature_key (take w (rev h)))) = min (length h) w" for w
    by (simp add: distinct_remdups_id)
  then show ?thesis using w
    by (auto simp: check_drift_def Let_def sat_mul_u64_def u64_max_def min_def)
qed

section \<open>Properties\<close>

text \<open>Whatever steps the agent takes, the guard's memory stays within
  \<^verbatim>\<open>max_history\<close> of its configuration.\<close>

theorem loop_history_bounded:
  "length (lg_history (feed (loop_guard_new c) steps)) \<le> max_history c"
proof -
  have "history_bounded (loop_guard_new c)" by (simp add: history_bounded_def loop_guard_new_def)
  then have "history_bounded (feed (loop_guard_new c) steps)"
    unfolding feed_def by (rule history.run_inv)
  then show ?thesis by (simp add: history_bounded_def) (simp add: loop_guard_new_def)
qed

text \<open>C3. The bounded history is a faithful abstraction: after any run, the pattern
  reported for the next step is the one the detectors would report on the complete, untrimmed
  step history.\<close>

theorem bounded_history_refines_full:
  assumes "config_ok c" "enabled c"
  shows "map_option ld_pattern (snd (record_step (feed (loop_guard_new c) steps) s))
    = map_option ld_pattern (detect c (steps @ [s]))"
  by (rule record_pattern_full [OF assms])

theorem bounded_history_refines_full_witness:
  "config_ok default_config \<and> enabled default_config \<and>
   map_option ld_pattern (snd (record_step (feed (loop_guard_new default_config)
       (replicate 40 (step_action ''scan''))) (step_action ''scan'')))
   = map_option ld_pattern (detect default_config (replicate 40 (step_action ''scan'') @ [step_action ''scan'']))"
proof -
  have h: "config_ok default_config" "enabled default_config"
    by (simp_all add: config_ok_def default_config_def u64_max_def)
  show ?thesis using h bounded_history_refines_full [OF h] by blast
qed

text \<open>A stuck agent is caught: repeating one step as often as the repetition threshold
  is reported at the latest on that step, whatever happened before.\<close>

theorem stuck_agent_detected:
  assumes "config_ok c" "enabled c" "0 < repetition_threshold c"
  shows "snd (record_step (feed (loop_guard_new c)
           (steps @ replicate (repetition_threshold c - 1) s)) s) \<noteq> None"
proof -
  let ?t = "repetition_threshold c"
  let ?h = "steps @ replicate (?t - 1) s @ [s]"
  have "replicate (?t - 1) s @ [s] = replicate ?t s"
    using assms(3) by (metis Suc_diff_1 replicate_append_same replicate_Suc)
  then have "take ?t (rev ?h) = replicate ?t s" and "?t \<le> length ?h"
    using assms(3) by simp_all
  then have "map_option ld_pattern (check_repetition c ?h) = Some Repetition"
    using assms(3) by (simp add: check_repetition_pattern list_all_iff)
  then have "map_option ld_pattern (detect c ?h) \<noteq> None"
    by (auto simp: detect_pattern split: option.splits)
  with record_pattern_full [OF assms(1,2), of "steps @ replicate (?t - 1) s" s]
  show ?thesis by auto
qed

theorem stuck_agent_detected_witness:
  "snd (record_step (feed (loop_guard_new default_config)
     ([step_action ''plan''] @ replicate (repetition_threshold default_config - 1) (step_action ''scan'')))
     (step_action ''scan'')) \<noteq> None"
  by (rule stuck_agent_detected)
    (simp_all add: config_ok_def default_config_def u64_max_def)

text \<open>Progress is never mistaken for a loop: if no step of the run repeats (tool and
  arguments), no pattern is reported. The thresholds must ask for at least two occurrences; an
  oscillation threshold of one would match any two different steps.\<close>

theorem fresh_steps_not_flagged:
  assumes "config_ok c" "enabled c"
    and "repetition_threshold c \<noteq> 1" "redundant_threshold c \<noteq> 1" "oscillation_threshold c \<noteq> 1"
    and "drift_window c < u64_max"
    and fresh: "distinct (map signature_key (steps @ [s]))"
  shows "snd (record_step (feed (loop_guard_new c) steps) s) = None"
proof -
  let ?h = "steps @ [s]"
  have d: "distinct (map signature_key (rev ?h))"
    using fresh by (simp add: rev_map [symmetric] del: rev_append)
  note two = distinct_not_all_same [OF d, simplified length_rev]
  have rep: "map_option ld_pattern (check_repetition c ?h) = None"
    using two [of "repetition_threshold c"] assms(3)
    by (auto simp add: check_repetition_pattern Let_def simp del: rev_append)
  have red: "map_option ld_pattern (check_redundant_tool c ?h) = None"
    using two [of "redundant_threshold c"] assms(4)
    by (auto simp add: check_redundant_pattern Let_def simp del: rev_append)
  note osc = fresh_no_oscillation [OF d assms(5)] and drift = fresh_no_drift [OF d assms(6)]
  show ?thesis
    using record_pattern_full [OF assms(1,2), of steps s]
    by (simp add: detect_pattern rep red osc drift)
qed

theorem fresh_steps_not_flagged_witness:
  "snd (record_step (feed (loop_guard_new default_config)
      [step_tool ''run_fuzzer'' ''a'', step_tool ''triage'' ''1'', step_tool ''run_fuzzer'' ''b''])
      (step_tool ''triage'' ''2'')) = None"
  by (rule fresh_steps_not_flagged)
    (simp_all add: config_ok_def default_config_def u64_max_def signature_key_def step_tool_def)

end
