(* ===== verification/Budget_Store.thy ===== *)
theory Budget_Store
  imports Prelude
begin

text \<open>
  Durable provider-attempt reservations, \<^verbatim>\<open>crates/hf-storage/src/model_budget_store.rs\<close> over
  the tables of \<^verbatim>\<open>migrations/0041_model_budgets.sql\<close>. Each operation is one transaction, so it
  is a function from the database to the database and a result; an error leaves the database
  unchanged (the transaction is dropped without a commit). SQLite serializes writers, so
  concurrent callers are sequences of operations in some order. The \<^verbatim>\<open>CHECK\<close>, key and
  not-found failures of SQLite are the constructors of \<open>storage_error\<close>; failures of the
  medium (disk, connection) are outside the model.
\<close>

section \<open>Tables\<close>

record budget_scope =
  bs_policy_json :: string
  bs_calls :: int
  bs_tokens :: int
  bs_cost :: int
  bs_terminal_reason :: "string option"
  bs_blocked :: bool

datatype attempt_state = AttReserved | AttSettled | AttOverrun

record budget_attempt =
  at_id :: string
  at_scope :: string
  at_provider :: string
  at_model :: string
  at_reserved_input :: int
  at_reserved_output :: int
  at_reserved_cost :: int
  at_observed :: "(int \<times> int \<times> int) option"
  at_state :: attempt_state

record budget_db =
  db_scopes :: "string \<rightharpoonup> budget_scope"
  db_attempts :: "budget_attempt list"

definition budget_db_empty :: budget_db where
  "budget_db_empty = \<lparr>db_scopes = Map.empty, db_attempts = []\<rparr>"

datatype storage_error = ConstraintViolation | RowNotFound | InvalidData string | RecordNotFound string

record budget_policy =
  bp_scope :: string
  bp_json :: string
  bp_max_calls :: "int option"
  bp_max_tokens :: "int option"
  bp_max_cost :: "int option"

record budget_charge =
  bc_provider :: string
  bc_model :: string
  bc_input :: int
  bc_output :: int
  bc_cost :: int

datatype admission = AdmReserved string | AdmDenied string

section \<open>Operations\<close>

fun exceeds :: "int option \<Rightarrow> int option \<Rightarrow> bool" where
  "exceeds None _ = True"
| "exceeds (Some v) (Some limit) = (v > limit)"
| "exceeds (Some v) None = False"

definition scope_default :: "string \<Rightarrow> budget_scope" where
  "scope_default json = \<lparr>bs_policy_json = json, bs_calls = 0, bs_tokens = 0, bs_cost = 0,
     bs_terminal_reason = None, bs_blocked = False\<rparr>"

text \<open>\<^verbatim>\<open>INSERT ... ON CONFLICT(scope_id) DO NOTHING\<close> followed by the \<^verbatim>\<open>SELECT\<close>.\<close>

definition scope_row :: "budget_db \<Rightarrow> budget_policy \<Rightarrow> budget_scope" where
  "scope_row db p = (case db_scopes db (bp_scope p) of
     None \<Rightarrow> scope_default (bp_json p) | Some r \<Rightarrow> r)"

definition denial_reason ::
  "budget_policy \<Rightarrow> budget_scope \<Rightarrow> int option \<Rightarrow> int option \<Rightarrow> int option \<Rightarrow> string option" where
  "denial_reason p row new_calls new_tokens new_cost =
     (if bs_policy_json row \<noteq> bp_json p then Some ''scope_limits_changed''
      else if bs_blocked row then Some ''usage_exceeded_reservation''
      else if exceeds new_calls (bp_max_calls p) then Some ''calls_exhausted''
      else if exceeds new_tokens (bp_max_tokens p) then Some ''tokens_exhausted''
      else if exceeds new_cost (bp_max_cost p) then Some ''cost_exhausted''
      else None)"

definition new_attempt :: "string \<Rightarrow> budget_policy \<Rightarrow> budget_charge \<Rightarrow> budget_attempt" where
  "new_attempt uid p c = \<lparr>at_id = uid, at_scope = bp_scope p, at_provider = bc_provider c,
     at_model = bc_model c, at_reserved_input = bc_input c, at_reserved_output = bc_output c,
     at_reserved_cost = bc_cost c, at_observed = None, at_state = AttReserved\<rparr>"

text \<open>The fresh identifier is \<^verbatim>\<open>Uuid::new_v4()\<close>: an argument of the operation.\<close>

definition reserve_model_budget ::
  "budget_db \<Rightarrow> budget_policy \<Rightarrow> budget_charge \<Rightarrow> string \<Rightarrow> budget_db \<times> (storage_error, admission) result" where
  "reserve_model_budget db p c uid =
     (let row = scope_row db p;
          new_calls = checked_add_i64 (bs_calls row) 1;
          new_tokens = Option.bind (checked_add_i64 (bc_input c) (bc_output c))
            (\<lambda>v. checked_add_i64 (bs_tokens row) v);
          new_cost = checked_add_i64 (bs_cost row) (bc_cost c)
      in case denial_reason p row new_calls new_tokens new_cost of
           Some reason \<Rightarrow>
             (db\<lparr>db_scopes := (db_scopes db)(bp_scope p \<mapsto> row\<lparr>bs_terminal_reason := Some reason\<rparr>)\<rparr>,
              Inr (AdmDenied reason))
         | None \<Rightarrow>
             if the new_calls < 0 \<or> the new_tokens < 0 \<or> the new_cost < 0
                \<or> bc_input c < 0 \<or> bc_output c < 0 \<or> bc_cost c < 0
                \<or> uid \<in> set (map at_id (db_attempts db))
             then (db, Inl ConstraintViolation)
             else (db\<lparr>db_scopes := (db_scopes db)(bp_scope p \<mapsto>
                       row\<lparr>bs_calls := the new_calls, bs_tokens := the new_tokens, bs_cost := the new_cost\<rparr>),
                     db_attempts := db_attempts db @ [new_attempt uid p c]\<rparr>,
                   Inr (AdmReserved uid)))"

definition find_attempt :: "budget_db \<Rightarrow> string \<Rightarrow> budget_attempt option" where
  "find_attempt db uid = find (\<lambda>a. at_id a = uid) (db_attempts db)"

definition update_attempt :: "string \<Rightarrow> (budget_attempt \<Rightarrow> budget_attempt) \<Rightarrow> budget_attempt list \<Rightarrow> budget_attempt list" where
  "update_attempt uid f as = map (\<lambda>a. if at_id a = uid then f a else a) as"

definition update_scope :: "string \<Rightarrow> (budget_scope \<Rightarrow> budget_scope) \<Rightarrow> budget_db \<Rightarrow> (string \<rightharpoonup> budget_scope)" where
  "update_scope sc f db = (case db_scopes db sc of
     None \<Rightarrow> db_scopes db | Some r \<Rightarrow> (db_scopes db)(sc \<mapsto> f r))"

definition within_reservation :: "budget_attempt \<Rightarrow> int \<Rightarrow> int \<Rightarrow> int \<Rightarrow> bool" where
  "within_reservation a i out cost \<longleftrightarrow> 0 \<le> i \<and> 0 \<le> out \<and> 0 \<le> cost
     \<and> i \<le> at_reserved_input a \<and> out \<le> at_reserved_output a \<and> cost \<le> at_reserved_cost a"

text \<open>The refunding update violates the table's \<^verbatim>\<open>CHECK\<close> if a total would turn negative.\<close>

definition refund_scope :: "int \<Rightarrow> int \<Rightarrow> budget_scope \<Rightarrow> budget_scope" where
  "refund_scope toks cost r = r\<lparr>bs_tokens := bs_tokens r - toks, bs_cost := bs_cost r - cost\<rparr>"

definition settle_model_budget ::
  "budget_db \<Rightarrow> string \<Rightarrow> int \<Rightarrow> int \<Rightarrow> int \<Rightarrow> budget_db \<times> (storage_error, bool) result" where
  "settle_model_budget db uid i out cost =
     (case find_attempt db uid of
        None \<Rightarrow> (db, Inl RowNotFound)
      | Some a \<Rightarrow>
          if at_state a \<noteq> AttReserved then (db, Inr (at_state a = AttSettled))
          else if within_reservation a i out cost then
            (let toks = (at_reserved_input a - i) + (at_reserved_output a - out);
                 money = at_reserved_cost a - cost
             in case db_scopes db (at_scope a) of
                  Some r \<Rightarrow>
                    if bs_tokens r - toks < 0 \<or> bs_cost r - money < 0
                    then (db, Inl ConstraintViolation)
                    else (db\<lparr>db_scopes := update_scope (at_scope a) (refund_scope toks money) db,
                             db_attempts := update_attempt uid
                               (\<lambda>x. x\<lparr>at_state := AttSettled, at_observed := Some (i, out, cost)\<rparr>)
                               (db_attempts db)\<rparr>, Inr True)
                | None \<Rightarrow>
                    (db\<lparr>db_attempts := update_attempt uid
                          (\<lambda>x. x\<lparr>at_state := AttSettled, at_observed := Some (i, out, cost)\<rparr>)
                          (db_attempts db)\<rparr>, Inr True))
          else
            (db\<lparr>db_scopes := update_scope (at_scope a)
                   (\<lambda>r. r\<lparr>bs_blocked := True, bs_terminal_reason := Some ''usage_exceeded_reservation''\<rparr>) db,
                 db_attempts := update_attempt uid
                   (\<lambda>x. x\<lparr>at_state := AttOverrun, at_observed := Some (i, out, cost)\<rparr>)
                   (db_attempts db)\<rparr>, Inr False))"

record budget_snapshot =
  sn_scope :: string
  sn_calls :: int
  sn_tokens :: int
  sn_cost :: int
  sn_terminal_reason :: "string option"
  sn_blocked :: bool

definition model_budget_snapshot :: "budget_db \<Rightarrow> string \<Rightarrow> budget_snapshot option" where
  "model_budget_snapshot db sc = map_option
     (\<lambda>r. \<lparr>sn_scope = sc, sn_calls = bs_calls r, sn_tokens = bs_tokens r, sn_cost = bs_cost r,
           sn_terminal_reason = bs_terminal_reason r, sn_blocked = bs_blocked r\<rparr>) (db_scopes db sc)"

section \<open>The accounting invariant\<close>

text \<open>
  What an attempt currently counts for: its observed usage once settled, its whole reservation
  while it is unresolved or overrun.
\<close>

definition charged_tokens :: "budget_attempt \<Rightarrow> int" where
  "charged_tokens a = (case (at_state a, at_observed a) of
     (AttSettled, Some (i, out, cost)) \<Rightarrow> i + out
   | _ \<Rightarrow> at_reserved_input a + at_reserved_output a)"

definition charged_cost :: "budget_attempt \<Rightarrow> int" where
  "charged_cost a = (case (at_state a, at_observed a) of
     (AttSettled, Some (i, out, cost)) \<Rightarrow> cost
   | _ \<Rightarrow> at_reserved_cost a)"

definition attempt_ok :: "budget_attempt \<Rightarrow> bool" where
  "attempt_ok a \<longleftrightarrow> 0 \<le> at_reserved_input a \<and> 0 \<le> at_reserved_output a \<and> 0 \<le> at_reserved_cost a
     \<and> (case at_state a of
          AttReserved \<Rightarrow> at_observed a = None
        | AttSettled \<Rightarrow> (case at_observed a of None \<Rightarrow> False
                         | Some (i, out, cost) \<Rightarrow> within_reservation a i out cost)
        | AttOverrun \<Rightarrow> at_observed a \<noteq> None)"

definition attempts_of :: "string \<Rightarrow> budget_attempt list \<Rightarrow> budget_attempt list" where
  "attempts_of sc as = filter (\<lambda>a. at_scope a = sc) as"

definition scope_balanced :: "string \<Rightarrow> budget_scope \<Rightarrow> budget_attempt list \<Rightarrow> bool" where
  "scope_balanced sc r as \<longleftrightarrow>
     bs_calls r = int (length (attempts_of sc as))
     \<and> bs_tokens r = sum_list (map charged_tokens (attempts_of sc as))
     \<and> bs_cost r = sum_list (map charged_cost (attempts_of sc as))
     \<and> bs_blocked r = list_ex (\<lambda>a. at_state a = AttOverrun) (attempts_of sc as)"

definition accounts_ok :: "budget_db \<Rightarrow> bool" where
  "accounts_ok db \<longleftrightarrow> distinct (map at_id (db_attempts db))
     \<and> (\<forall>a\<in>set (db_attempts db). attempt_ok a \<and> db_scopes db (at_scope a) \<noteq> None)
     \<and> (\<forall>sc r. db_scopes db sc = Some r \<longrightarrow> scope_balanced sc r (db_attempts db))"

section \<open>Preservation\<close>

lemma attempts_of_append [simp]: "attempts_of sc (as @ bs) = attempts_of sc as @ attempts_of sc bs"
  by (simp add: attempts_of_def)

lemma attempts_of_Nil [simp]: "attempts_of sc [] = []"
  by (simp add: attempts_of_def)

lemma accounts_ok_empty: "accounts_ok budget_db_empty"
  by (simp add: accounts_ok_def budget_db_empty_def)

lemma scope_balanced_unrelated:
  "at_scope a \<noteq> sc \<Longrightarrow> scope_balanced sc r (as @ [a]) \<longleftrightarrow> scope_balanced sc r as"
  by (simp add: scope_balanced_def attempts_of_def)

lemma accounts_no_row:
  assumes "accounts_ok db" "db_scopes db sc = None"
  shows "attempts_of sc (db_attempts db) = []"
  using assms by (auto simp: accounts_ok_def attempts_of_def filter_empty_conv)

lemma scope_row_balanced:
  assumes "accounts_ok db"
  shows "scope_balanced (bp_scope p) (scope_row db p) (db_attempts db)"
proof (cases "db_scopes db (bp_scope p)")
  case None
  with accounts_no_row [OF assms] show ?thesis
    by (simp add: scope_row_def scope_default_def scope_balanced_def)
next
  case (Some r)
  with assms show ?thesis by (simp add: scope_row_def accounts_ok_def)
qed

lemma scope_balanced_terminal [simp]:
  "scope_balanced sc (r\<lparr>bs_terminal_reason := t\<rparr>) as = scope_balanced sc r as"
  by (simp add: scope_balanced_def)

lemma checked_the:
  "checked_add_i64 a b \<noteq> None \<Longrightarrow> the (checked_add_i64 a b) = a + b"
  by (auto simp: checked_add_i64_def try_i64_def split: if_splits)

lemma denial_None:
  assumes "denial_reason p row nc nt nm = None"
  shows "bs_policy_json row = bp_json p" "\<not> bs_blocked row" "\<not> exceeds nc (bp_max_calls p)"
    "\<not> exceeds nt (bp_max_tokens p)" "\<not> exceeds nm (bp_max_cost p)"
  using assms by (auto simp: denial_reason_def split: if_splits)

lemma not_exceeds: "\<not> exceeds v l \<longleftrightarrow> (\<exists>x. v = Some x \<and> (\<forall>m. l = Some m \<longrightarrow> x \<le> m))"
  by (cases v; cases l) auto

text \<open>The shape of a successful reservation.\<close>

lemma reserve_Reserved:
  assumes "reserve_model_budget db p c uid = (db', Inr (AdmReserved i))"
  defines "row \<equiv> scope_row db p"
  defines "row' \<equiv> row\<lparr>bs_calls := bs_calls row + 1, bs_tokens := bs_tokens row + (bc_input c + bc_output c),
     bs_cost := bs_cost row + bc_cost c\<rparr>"
  shows "i = uid" "db' = db\<lparr>db_scopes := (db_scopes db)(bp_scope p \<mapsto> row'),
           db_attempts := db_attempts db @ [new_attempt uid p c]\<rparr>"
    and "uid \<notin> set (map at_id (db_attempts db))"
    and "0 \<le> bc_input c" "0 \<le> bc_output c" "0 \<le> bc_cost c"
    and "bs_policy_json row = bp_json p" "\<not> bs_blocked row"
    and "\<And>m. bp_max_calls p = Some m \<Longrightarrow> bs_calls row' \<le> m"
    and "\<And>m. bp_max_tokens p = Some m \<Longrightarrow> bs_tokens row' \<le> m"
    and "\<And>m. bp_max_cost p = Some m \<Longrightarrow> bs_cost row' \<le> m"
    and "in_i64 (bs_calls row')" "in_i64 (bs_tokens row')" "in_i64 (bs_cost row')"
proof -
  let ?nc = "checked_add_i64 (bs_calls row) 1"
  let ?nt = "Option.bind (checked_add_i64 (bc_input c) (bc_output c)) (\<lambda>v. checked_add_i64 (bs_tokens row) v)"
  let ?nm = "checked_add_i64 (bs_cost row) (bc_cost c)"
  have d: "denial_reason p row ?nc ?nt ?nm = None"
    using assms(1) by (auto simp: reserve_model_budget_def row_def Let_def split: option.splits)
  note dn = denial_None [OF d]
  obtain nc nt nm where n: "?nc = Some nc" "?nt = Some nt" "?nm = Some nm"
    using dn(3-5) by (auto simp: not_exceeds)
  then have v: "nc = bs_calls row + 1" "nt = bs_tokens row + (bc_input c + bc_output c)"
    "nm = bs_cost row + bc_cost c" "in_i64 nc" "in_i64 nt" "in_i64 nm"
    by (auto simp: bind_eq_Some_conv)
  have row': "row' = row\<lparr>bs_calls := nc, bs_tokens := nt, bs_cost := nm\<rparr>"
    by (simp add: row'_def v)
  have chk: "\<not> (nc < 0 \<or> nt < 0 \<or> nm < 0 \<or> bc_input c < 0 \<or> bc_output c < 0 \<or> bc_cost c < 0
      \<or> uid \<in> set (map at_id (db_attempts db)))"
    and db': "db' = db\<lparr>db_scopes := (db_scopes db)(bp_scope p \<mapsto> row'),
       db_attempts := db_attempts db @ [new_attempt uid p c]\<rparr>" and i: "i = uid"
    using assms(1) d row' n
    by (auto simp: reserve_model_budget_def row_def [symmetric] Let_def
      split: if_splits simp del: checked_add_i64_Some)
  show "i = uid" "uid \<notin> set (map at_id (db_attempts db))" "0 \<le> bc_input c" "0 \<le> bc_output c"
    "0 \<le> bc_cost c" using chk i by simp_all
  show "db' = db\<lparr>db_scopes := (db_scopes db)(bp_scope p \<mapsto> row'),
      db_attempts := db_attempts db @ [new_attempt uid p c]\<rparr>" by (rule db')
  show "bs_policy_json row = bp_json p" "\<not> bs_blocked row" by (rule dn)+
  show "bp_max_calls p = Some m \<Longrightarrow> bs_calls row' \<le> m" "bp_max_tokens p = Some m \<Longrightarrow> bs_tokens row' \<le> m"
    "bp_max_cost p = Some m \<Longrightarrow> bs_cost row' \<le> m" for m
    using dn(3-5) n by (simp_all add: row' not_exceeds)
  show "in_i64 (bs_calls row')" "in_i64 (bs_tokens row')" "in_i64 (bs_cost row')"
    using v by (simp_all add: row')
qed

lemma reserve_Denied:
  assumes "reserve_model_budget db p c uid = (db', Inr (AdmDenied reason))"
  shows "db' = db\<lparr>db_scopes := (db_scopes db)(bp_scope p \<mapsto>
           (scope_row db p)\<lparr>bs_terminal_reason := Some reason\<rparr>)\<rparr>"
  using assms by (auto simp: reserve_model_budget_def Let_def split: option.splits if_splits)

lemma reserve_error:
  assumes "reserve_model_budget db p c uid = (db', Inl e)"
  shows "db' = db"
  using assms by (auto simp: reserve_model_budget_def Let_def split: option.splits if_splits)

lemma accounts_ok_put_row:
  assumes "accounts_ok db" "scope_balanced sc r (db_attempts db)"
  shows "accounts_ok (db\<lparr>db_scopes := (db_scopes db)(sc \<mapsto> r)\<rparr>)"
  using assms by (auto simp: accounts_ok_def)

lemma new_attempt_ok:
  "\<lbrakk>0 \<le> bc_input c; 0 \<le> bc_output c; 0 \<le> bc_cost c\<rbrakk> \<Longrightarrow> attempt_ok (new_attempt uid p c)"
  by (simp add: attempt_ok_def new_attempt_def)

lemma scope_balanced_new:
  assumes "scope_balanced (bp_scope p) row as" "\<not> bs_blocked row"
  shows "scope_balanced (bp_scope p)
    (row\<lparr>bs_calls := bs_calls row + 1, bs_tokens := bs_tokens row + (bc_input c + bc_output c),
         bs_cost := bs_cost row + bc_cost c\<rparr>) (as @ [new_attempt uid p c])"
  using assms
  by (simp add: scope_balanced_def attempts_of_def new_attempt_def charged_tokens_def charged_cost_def)

theorem reserve_accounts_ok:
  assumes "accounts_ok db" "reserve_model_budget db p c uid = (db', r)"
  shows "accounts_ok db'"
proof (cases r)
  case (Inl e)
  with assms show ?thesis by (auto dest: reserve_error)
next
  case (Inr ad)
  note bal = scope_row_balanced [OF assms(1), of p]
  show ?thesis
  proof (cases ad)
    case (AdmDenied reason)
    with Inr assms(2) have "db' = db\<lparr>db_scopes := (db_scopes db)(bp_scope p \<mapsto>
        (scope_row db p)\<lparr>bs_terminal_reason := Some reason\<rparr>)\<rparr>"
      by (auto dest: reserve_Denied)
    with accounts_ok_put_row [OF assms(1)] bal show ?thesis by simp
  next
    case (AdmReserved i)
    with Inr assms(2) have r: "reserve_model_budget db p c uid = (db', Inr (AdmReserved i))" by simp
    note sh = reserve_Reserved [OF r]
    have at: "attempt_ok (new_attempt uid p c)" using sh(4-6) by (rule new_attempt_ok)
    have nid: "at_id (new_attempt uid p c) = uid" "at_scope (new_attempt uid p c) = bp_scope p"
      by (simp_all add: new_attempt_def)
    note nb = scope_balanced_new [OF bal sh(8), of c uid]
    show ?thesis
      unfolding accounts_ok_def
    proof (intro conjI)
      show "distinct (map at_id (db_attempts db'))"
        using assms(1) sh(2,3) nid by (simp add: accounts_ok_def)
      show "\<forall>a\<in>set (db_attempts db'). attempt_ok a \<and> db_scopes db' (at_scope a) \<noteq> None"
        using assms(1) sh(2) at nid by (simp add: accounts_ok_def)
      show "\<forall>sc r. db_scopes db' sc = Some r \<longrightarrow> scope_balanced sc r (db_attempts db')"
        using assms(1) sh(2) nb nid by (simp add: accounts_ok_def scope_balanced_unrelated)
    qed
  qed
qed

text \<open>Rewriting one row of a table keyed by \<open>at_id\<close> changes one summand.\<close>

lemma update_attempt_absent:
  "uid \<notin> set (map at_id as) \<Longrightarrow> update_attempt uid f as = as"
  by (induction as) (auto simp: update_attempt_def)

lemma update_attempt_Cons [simp]:
  "update_attempt uid f (a # as) = (if at_id a = uid then f a else a) # update_attempt uid f as"
  by (simp add: update_attempt_def)

lemma sum_update_attempt:
  fixes g :: "budget_attempt \<Rightarrow> int"
  assumes "distinct (map at_id as)" "a \<in> set as" "at_id a = uid" "\<And>x. at_scope (f x) = at_scope x"
  shows "sum_list (map g (attempts_of sc (update_attempt uid f as)))
       = sum_list (map g (attempts_of sc as)) + (if at_scope a = sc then g (f a) - g a else 0)"
  using assms
proof (induction as)
  case Nil
  then show ?case by simp
next
  case (Cons b as)
  show ?case
  proof (cases "b = a")
    case True
    with Cons.prems have "update_attempt uid f as = as"
      by (intro update_attempt_absent) auto
    with True Cons.prems show ?thesis by (simp add: attempts_of_def)
  next
    case False
    with Cons.prems have "at_id b \<noteq> uid" by auto
    with False Cons show ?thesis by (simp add: attempts_of_def)
  qed
qed

lemma length_update_attempt:
  assumes "\<And>x. at_scope (f x) = at_scope x"
  shows "length (attempts_of sc (update_attempt uid f as)) = length (attempts_of sc as)"
  using assms by (induction as) (auto simp: attempts_of_def update_attempt_def)

lemma set_update_attempt:
  "set (update_attempt uid f as) = (\<lambda>a. if at_id a = uid then f a else a) ` set as"
  by (simp add: update_attempt_def)

lemma ids_update_attempt:
  "(\<And>x. at_id (f x) = at_id x) \<Longrightarrow> map at_id (update_attempt uid f as) = map at_id as"
  by (simp add: update_attempt_def)

definition settle_as :: "attempt_state \<Rightarrow> int \<Rightarrow> int \<Rightarrow> int \<Rightarrow> budget_attempt \<Rightarrow> budget_attempt" where
  "settle_as st i out cost x = x\<lparr>at_state := st, at_observed := Some (i, out, cost)\<rparr>"

lemma settle_as_keeps [simp]:
  "at_id (settle_as st i out cost x) = at_id x" "at_scope (settle_as st i out cost x) = at_scope x"
  "at_state (settle_as st i out cost x) = st"
  by (simp_all add: settle_as_def)

lemma find_attempt_Some:
  "find_attempt db uid = Some a \<Longrightarrow> a \<in> set (db_attempts db) \<and> at_id a = uid"
  unfolding find_attempt_def by (drule find_Some_iff_first) simp

lemma find_attempt_None: "find_attempt db uid = None \<longleftrightarrow> uid \<notin> set (map at_id (db_attempts db))"
  by (auto simp: find_attempt_def find_None_iff)

lemma balanced_update_attempt:
  assumes "distinct (map at_id as)" "a \<in> set as" "at_id a = uid" "at_state a = AttReserved"
    and bal: "scope_balanced sc r as" and other: "at_scope a \<noteq> sc"
  shows "scope_balanced sc r (update_attempt uid (settle_as st i out cost) as)"
proof -
  have "attempts_of sc (update_attempt uid (settle_as st i out cost) as) = attempts_of sc as"
    using assms(1-3) other
  proof (induction as)
    case (Cons b as)
    show ?case
    proof (cases "b = a")
      case True
      with Cons.prems have "update_attempt uid (settle_as st i out cost) as = as"
        by (intro update_attempt_absent) auto
      with True Cons.prems show ?thesis by (simp add: attempts_of_def)
    next
      case False
      with Cons.prems have "at_id b \<noteq> uid" by auto
      with False Cons show ?thesis by (simp add: attempts_of_def)
    qed
  qed simp
  with bal show ?thesis by (simp add: scope_balanced_def)
qed

lemma overrun_after_update:
  assumes "distinct (map at_id as)" "a \<in> set as" "at_id a = uid" "at_state a = AttReserved"
  shows "list_ex (\<lambda>x. at_state x = AttOverrun) (attempts_of (at_scope a) (update_attempt uid (settle_as st i out cost) as))
     \<longleftrightarrow> st = AttOverrun \<or> list_ex (\<lambda>x. at_state x = AttOverrun) (attempts_of (at_scope a) as)"
proof -
  have u: "at_id b = uid \<longleftrightarrow> b = a" if "b \<in> set as" for b
    using that assms(1-3) by (auto simp: distinct_map dest: inj_onD)
  let ?f = "settle_as st i out cost"
  have "(\<exists>x\<in>set (update_attempt uid ?f as). at_scope x = at_scope a \<and> at_state x = AttOverrun)
    \<longleftrightarrow> (\<exists>x\<in>set as. at_scope x = at_scope a \<and> (if x = a then st else at_state x) = AttOverrun)"
    unfolding set_update_attempt bex_simps by (rule bex_cong) (auto simp: u)
  also have "\<dots> \<longleftrightarrow> st = AttOverrun \<or> (\<exists>x\<in>set as. at_scope x = at_scope a \<and> at_state x = AttOverrun)"
    using assms(2,4) by (metis attempt_state.distinct(3))
  finally show ?thesis by (auto simp: list_ex_iff attempts_of_def)
qed

lemma charged_Reserved:
  "at_state a = AttReserved \<Longrightarrow> charged_tokens a = at_reserved_input a + at_reserved_output a"
  "at_state a = AttReserved \<Longrightarrow> charged_cost a = at_reserved_cost a"
  by (simp_all add: charged_tokens_def charged_cost_def)

lemma charged_settle_as:
  "charged_tokens (settle_as AttSettled i out cost a) = i + out"
  "charged_cost (settle_as AttSettled i out cost a) = cost"
  "charged_tokens (settle_as AttOverrun i out cost a) = at_reserved_input a + at_reserved_output a"
  "charged_cost (settle_as AttOverrun i out cost a) = at_reserved_cost a"
  by (simp_all add: charged_tokens_def charged_cost_def settle_as_def)

lemma charged_nonneg: "attempt_ok a \<Longrightarrow> 0 \<le> charged_tokens a \<and> 0 \<le> charged_cost a"
  by (auto simp: attempt_ok_def charged_tokens_def charged_cost_def within_reservation_def
      split: attempt_state.splits option.splits)

lemma settle_as_ok:
  assumes "attempt_ok a" "at_state a = AttReserved"
  shows "within_reservation a i out cost \<Longrightarrow> attempt_ok (settle_as AttSettled i out cost a)"
    and "attempt_ok (settle_as AttOverrun i out cost a)"
  using assms by (auto simp: attempt_ok_def settle_as_def within_reservation_def)

lemma scope_balanced_settle:
  assumes "distinct (map at_id as)" "a \<in> set as" "at_id a = uid" "at_state a = AttReserved"
    and bal: "scope_balanced (at_scope a) r as"
  shows "scope_balanced (at_scope a)
      (refund_scope ((at_reserved_input a - i) + (at_reserved_output a - out)) (at_reserved_cost a - cost) r)
      (update_attempt uid (settle_as AttSettled i out cost) as)"
    and "scope_balanced (at_scope a)
      (r\<lparr>bs_blocked := True, bs_terminal_reason := t\<rparr>)
      (update_attempt uid (settle_as AttOverrun i out cost) as)"
  using bal overrun_after_update [OF assms(1-4), of _ i out cost]
    sum_update_attempt [OF assms(1-3), of "settle_as _ i out cost" _ "at_scope a"]
  by (simp_all add: scope_balanced_def refund_scope_def length_update_attempt
      charged_settle_as charged_Reserved [OF assms(4)])

text \<open>
  The common step of both settlements: the attempt becomes \<open>st\<close> and the row of its scope is
  replaced by one that is balanced again.
\<close>

lemma accounts_ok_settle:
  assumes ok: "accounts_ok db" and a: "a \<in> set (db_attempts db)" "at_id a = uid" "at_state a = AttReserved"
    and at: "attempt_ok (settle_as st i out cost a)"
    and bal: "scope_balanced (at_scope a) r' (update_attempt uid (settle_as st i out cost) (db_attempts db))"
  shows "accounts_ok (db\<lparr>db_scopes := (db_scopes db)(at_scope a \<mapsto> r'),
     db_attempts := update_attempt uid (settle_as st i out cost) (db_attempts db)\<rparr>)"
proof -
  have dist: "distinct (map at_id (db_attempts db))"
    and rows: "\<And>x. x \<in> set (db_attempts db) \<Longrightarrow> attempt_ok x \<and> db_scopes db (at_scope x) \<noteq> None"
    and bals: "\<And>sc r. db_scopes db sc = Some r \<Longrightarrow> scope_balanced sc r (db_attempts db)"
    using ok by (auto simp: accounts_ok_def)
  have u: "x = a" if "x \<in> set (db_attempts db)" "at_id x = uid" for x
    using that a(1,2) dist by (auto simp: distinct_map dest: inj_onD)
  have atx: "attempt_ok (settle_as st i out cost x)" if "x \<in> set (db_attempts db)" "at_id x = uid" for x
    using u [OF that] at by simp
  show ?thesis
    unfolding accounts_ok_def
  proof (intro conjI)
    show "distinct (map at_id (db_attempts (db\<lparr>db_scopes := (db_scopes db)(at_scope a \<mapsto> r'),
        db_attempts := update_attempt uid (settle_as st i out cost) (db_attempts db)\<rparr>)))"
      using dist by (simp add: ids_update_attempt)
  qed (use atx rows bals bal balanced_update_attempt [OF dist a] in \<open>auto simp: set_update_attempt\<close>)
qed

lemma settle_cases:
  assumes ok: "accounts_ok db" and s: "settle_model_budget db uid i out cost = (db', res)"
  obtains (missing) "uid \<notin> set (map at_id (db_attempts db))" "db' = db" "res = Inl RowNotFound"
    | (closed) a where "find_attempt db uid = Some a" "at_state a \<noteq> AttReserved" "db' = db"
        "res = Inr (at_state a = AttSettled)"
    | (settled) a r where "find_attempt db uid = Some a" "at_state a = AttReserved"
        "within_reservation a i out cost" "db_scopes db (at_scope a) = Some r" "res = Inr True"
        "db' = db\<lparr>db_scopes := (db_scopes db)(at_scope a \<mapsto> refund_scope
            ((at_reserved_input a - i) + (at_reserved_output a - out)) (at_reserved_cost a - cost) r),
          db_attempts := update_attempt uid (settle_as AttSettled i out cost) (db_attempts db)\<rparr>"
    | (overrun) a r where "find_attempt db uid = Some a" "at_state a = AttReserved"
        "\<not> within_reservation a i out cost" "db_scopes db (at_scope a) = Some r" "res = Inr False"
        "db' = db\<lparr>db_scopes := (db_scopes db)(at_scope a \<mapsto>
            r\<lparr>bs_blocked := True, bs_terminal_reason := Some ''usage_exceeded_reservation''\<rparr>),
          db_attempts := update_attempt uid (settle_as AttOverrun i out cost) (db_attempts db)\<rparr>"
proof (cases "find_attempt db uid")
  case None
  with s show ?thesis by (intro missing) (auto simp: settle_model_budget_def find_attempt_None)
next
  case (Some a)
  note fa = find_attempt_Some [OF Some]
  show ?thesis
  proof (cases "at_state a = AttReserved")
    case False
    with s Some show ?thesis by (intro closed) (auto simp: settle_model_budget_def)
  next
    case True
    obtain r where r: "db_scopes db (at_scope a) = Some r"
      using ok fa by (auto simp: accounts_ok_def)
    have bal: "scope_balanced (at_scope a) r (db_attempts db)"
      and dist: "distinct (map at_id (db_attempts db))"
      and oks: "\<forall>x\<in>set (db_attempts db). attempt_ok x"
      using ok r by (auto simp: accounts_ok_def)
    have aok: "attempt_ok a" using oks fa by simp
    show ?thesis
    proof (cases "within_reservation a i out cost")
      case False
      with s Some True r show ?thesis
        by (intro overrun) (auto simp: settle_model_budget_def update_scope_def settle_as_def [abs_def])
    next
      case within: True
      note sb = scope_balanced_settle(1) [OF dist conjunct1 [OF fa] conjunct2 [OF fa] True bal, of i out cost]
      have "\<forall>x\<in>set (update_attempt uid (settle_as AttSettled i out cost) (db_attempts db)).
          0 \<le> charged_tokens x \<and> 0 \<le> charged_cost x"
        using oks dist fa within settle_as_ok(1) [OF aok True within]
        by (auto simp: set_update_attempt charged_nonneg charged_settle_as within_reservation_def)
      then have "0 \<le> bs_tokens r - (at_reserved_input a - i + (at_reserved_output a - out))"
        "0 \<le> bs_cost r - (at_reserved_cost a - cost)"
        using sb by (auto simp: scope_balanced_def refund_scope_def attempts_of_def intro!: sum_list_nonneg)
      with s Some True r within show ?thesis
        by (intro settled) (auto simp: settle_model_budget_def update_scope_def settle_as_def [abs_def] Let_def)
    qed
  qed
qed

lemma settle_accounts_ok:
  assumes "accounts_ok db" "settle_model_budget db uid i out cost = (db', res)"
  shows "accounts_ok db'"
  using assms
proof (cases rule: settle_cases)
  case (settled a r)
  note fa = find_attempt_Some [OF settled(1)]
  have "distinct (map at_id (db_attempts db))" "scope_balanced (at_scope a) r (db_attempts db)" "attempt_ok a"
    using assms(1) settled(4) fa by (auto simp: accounts_ok_def)
  then show ?thesis
    unfolding settled(6) using fa settled(2,3)
    by (intro accounts_ok_settle [OF assms(1)] scope_balanced_settle settle_as_ok) auto
next
  case (overrun a r)
  note fa = find_attempt_Some [OF overrun(1)]
  have "distinct (map at_id (db_attempts db))" "scope_balanced (at_scope a) r (db_attempts db)" "attempt_ok a"
    using assms(1) overrun(4) fa by (auto simp: accounts_ok_def)
  then show ?thesis
    unfolding overrun(6) using fa overrun(2)
    by (intro accounts_ok_settle [OF assms(1)] scope_balanced_settle settle_as_ok) auto
qed (use assms(1) in auto)

section \<open>Runs of the store\<close>

text \<open>
  The service derives both the limits and \<^verbatim>\<open>policy_json\<close> from one settings value, so the
  limits are a function \<open>lim\<close> of the stored policy text. A run is any sequence of
  reservations and settlements, whatever scopes, policies, charges and identifiers they name.
\<close>

type_synonym budget_limits = "string \<Rightarrow> int option \<times> int option \<times> int option"

definition policy_of :: "budget_limits \<Rightarrow> string \<Rightarrow> string \<Rightarrow> budget_policy" where
  "policy_of lim sc json = (case lim json of (mc, mt, mm) \<Rightarrow>
     \<lparr>bp_scope = sc, bp_json = json, bp_max_calls = mc, bp_max_tokens = mt, bp_max_cost = mm\<rparr>)"

datatype budget_op =
    OpReserve string string budget_charge string
  | OpSettle string int int int

fun budget_step :: "budget_limits \<Rightarrow> budget_db \<Rightarrow> budget_op \<Rightarrow> budget_db" where
  "budget_step lim db (OpReserve sc json c uid) = fst (reserve_model_budget db (policy_of lim sc json) c uid)"
| "budget_step lim db (OpSettle uid i out cost) = fst (settle_model_budget db uid i out cost)"

definition budget_run :: "budget_limits \<Rightarrow> budget_op list \<Rightarrow> budget_db" where
  "budget_run lim ops = foldl (budget_step lim) budget_db_empty ops"

definition under :: "int \<Rightarrow> int option \<Rightarrow> bool" where
  "under t l \<longleftrightarrow> (case l of None \<Rightarrow> True | Some m \<Rightarrow> t \<le> max 0 m)"

definition scope_under :: "budget_limits \<Rightarrow> budget_scope \<Rightarrow> bool" where
  "scope_under lim r \<longleftrightarrow> (case lim (bs_policy_json r) of (mc, mt, mm) \<Rightarrow>
     under (bs_calls r) mc \<and> under (bs_tokens r) mt \<and> under (bs_cost r) mm)"

definition budget_inv :: "budget_limits \<Rightarrow> budget_db \<Rightarrow> bool" where
  "budget_inv lim db \<longleftrightarrow> accounts_ok db \<and> (\<forall>sc r. db_scopes db sc = Some r \<longrightarrow> scope_under lim r)"

lemma policy_of_simps [simp]:
  "bp_scope (policy_of lim sc json) = sc" "bp_json (policy_of lim sc json) = json"
  "bp_max_calls (policy_of lim sc json) = fst (lim json)"
  "bp_max_tokens (policy_of lim sc json) = fst (snd (lim json))"
  "bp_max_cost (policy_of lim sc json) = snd (snd (lim json))"
  by (simp_all add: policy_of_def split: prod.splits)

lemma scope_under_alt:
  "scope_under lim r \<longleftrightarrow> under (bs_calls r) (fst (lim (bs_policy_json r)))
     \<and> under (bs_tokens r) (fst (snd (lim (bs_policy_json r))))
     \<and> under (bs_cost r) (snd (snd (lim (bs_policy_json r))))"
  by (simp add: scope_under_def split: prod.splits)

lemma under_mono: "under t l \<Longrightarrow> t' \<le> t \<Longrightarrow> under t' l"
  by (auto simp: under_def split: option.splits)

lemma under_le: "(\<And>m. l = Some m \<Longrightarrow> t \<le> m) \<Longrightarrow> under t l"
  by (auto simp: under_def max.coboundedI2 split: option.splits)

lemma scope_row_under:
  assumes "budget_inv lim db"
  shows "scope_under lim (scope_row db p)"
proof -
  have "scope_under lim (scope_default (bp_json p))"
    by (auto simp: scope_default_def scope_under_alt under_def split: option.splits)
  with assms show ?thesis by (auto simp: budget_inv_def scope_row_def split: option.splits)
qed

lemma reserve_inv:
  assumes inv: "budget_inv lim db" and r: "reserve_model_budget db (policy_of lim sc json) c uid = (db', res)"
  shows "budget_inv lim db'"
proof -
  have ok: "accounts_ok db'" using inv r reserve_accounts_ok by (auto simp: budget_inv_def)
  note ru = scope_row_under [OF inv, of "policy_of lim sc json"]
  have "scope_under lim r'" if "db_scopes db' sc' = Some r'" for sc' r'
  proof (cases res)
    case (Inl e)
    with r that inv show ?thesis by (auto simp: budget_inv_def dest: reserve_error)
  next
    case (Inr ad)
    show ?thesis
    proof (cases ad)
      case (AdmDenied reason)
      with Inr r reserve_Denied that inv ru show ?thesis
        by (fastforce simp: budget_inv_def scope_under_alt split: if_splits)
    next
      case (AdmReserved i)
      with Inr r have "reserve_model_budget db (policy_of lim sc json) c uid = (db', Inr (AdmReserved i))" by simp
      note sh = reserve_Reserved [OF this]
      let ?row = "scope_row db (policy_of lim sc json)"
      have "scope_under lim (?row\<lparr>bs_calls := bs_calls ?row + 1,
          bs_tokens := bs_tokens ?row + (bc_input c + bc_output c), bs_cost := bs_cost ?row + bc_cost c\<rparr>)"
        using sh(7,9-11) by (simp add: scope_under_alt under_le)
      with that sh(2) inv show ?thesis by (auto simp: budget_inv_def split: if_splits)
    qed
  qed
  with ok show ?thesis by (simp add: budget_inv_def)
qed

lemma settle_inv:
  assumes inv: "budget_inv lim db" and s: "settle_model_budget db uid i out cost = (db', res)"
  shows "budget_inv lim db'"
proof -
  have ok: "accounts_ok db" and un: "\<And>sc r. db_scopes db sc = Some r \<Longrightarrow> scope_under lim r"
    using inv by (auto simp: budget_inv_def)
  have "\<forall>sc r. db_scopes db' sc = Some r \<longrightarrow> scope_under lim r"
    using ok s
  proof (cases rule: settle_cases)
    case (settled a r)
    have "scope_under lim (refund_scope ((at_reserved_input a - i) + (at_reserved_output a - out))
        (at_reserved_cost a - cost) r)"
      using un [OF settled(4)] settled(3)
      by (auto simp: scope_under_alt refund_scope_def within_reservation_def elim!: under_mono)
    with settled(6) un show ?thesis by simp
  next
    case (overrun a r)
    with un [OF overrun(4)] un show ?thesis by (simp add: scope_under_alt)
  qed (use un in auto)
  with settle_accounts_ok [OF ok s] show ?thesis by (simp add: budget_inv_def)
qed

interpretation budget: invariant_machine "budget_step lim" "budget_inv lim" for lim
proof
  fix db op
  assume inv: "budget_inv lim db"
  show "budget_inv lim (budget_step lim db op)"
  proof (cases op)
    case (OpReserve sc json c uid)
    with reserve_inv [OF inv] show ?thesis by (metis budget_step.simps(1) prod.collapse)
  next
    case (OpSettle uid i out cost)
    with settle_inv [OF inv] show ?thesis by (metis budget_step.simps(2) prod.collapse)
  qed
qed

lemma budget_inv_empty: "budget_inv lim budget_db_empty"
  by (simp add: budget_inv_def accounts_ok_empty) (simp add: budget_db_empty_def)

lemma budget_run_inv: "budget_inv lim (budget_run lim ops)"
  unfolding budget_run_def by (intro budget.run_inv budget_inv_empty)

lemma budget_run_accounts: "accounts_ok (budget_run lim ops)"
  using budget_run_inv [of lim ops] by (simp add: budget_inv_def)

text \<open>A blocked scope is never unblocked, by no operation on any scope.\<close>

definition blocks_kept :: "budget_db \<Rightarrow> budget_db \<Rightarrow> bool" where
  "blocks_kept db db' \<longleftrightarrow> (\<forall>sc r. db_scopes db sc = Some r \<longrightarrow> bs_blocked r \<longrightarrow>
     (\<exists>r'. db_scopes db' sc = Some r' \<and> bs_blocked r'))"

lemma blocks_kept_put:
  assumes "\<And>r. db_scopes db sc = Some r \<Longrightarrow> bs_blocked r \<Longrightarrow> bs_blocked r'"
  shows "blocks_kept db (db\<lparr>db_scopes := (db_scopes db)(sc \<mapsto> r'), db_attempts := as\<rparr>)"
  using assms by (auto simp: blocks_kept_def)

lemma blocks_kept_refl: "blocks_kept db db"
  by (auto simp: blocks_kept_def)

lemma reserve_blocks_kept: "blocks_kept db (fst (reserve_model_budget db p c uid))"
proof -
  have row: "bs_blocked (scope_row db p)" if "db_scopes db (bp_scope p) = Some r" "bs_blocked r" for r
    using that by (simp add: scope_row_def)
  obtain db' res where r: "reserve_model_budget db p c uid = (db', res)" by fastforce
  show ?thesis
  proof (cases res)
    case (Inl e)
    with r reserve_error show ?thesis by (metis blocks_kept_refl fst_conv)
  next
    case (Inr ad)
    show ?thesis
    proof (cases ad)
      case (AdmDenied reason)
      with r Inr have "db' = db\<lparr>db_scopes := (db_scopes db)(bp_scope p \<mapsto>
          (scope_row db p)\<lparr>bs_terminal_reason := Some reason\<rparr>)\<rparr>" by (auto dest: reserve_Denied)
      with r row show ?thesis by (auto simp: blocks_kept_def)
    next
      case (AdmReserved i)
      with r Inr have "reserve_model_budget db p c uid = (db', Inr (AdmReserved i))" by simp
      note sh = reserve_Reserved [OF this]
      show ?thesis using r sh(2,8) row by (auto simp: blocks_kept_def)
    qed
  qed
qed

lemma settle_blocks_kept: "blocks_kept db (fst (settle_model_budget db uid i out cost))"
  by (auto simp: settle_model_budget_def blocks_kept_def update_scope_def refund_scope_def Let_def
      split: option.splits)

interpretation blocked: monotone_machine "budget_step lim" blocks_kept for lim
proof
  fix a b c db op
  show "blocks_kept db db" by (rule blocks_kept_refl)
  show "blocks_kept a b \<Longrightarrow> blocks_kept b c \<Longrightarrow> blocks_kept a c"
    unfolding blocks_kept_def by metis
  show "blocks_kept db (budget_step lim db op)"
    by (cases op) (simp_all add: reserve_blocks_kept settle_blocks_kept)
qed

lemma reserve_blocked_denied:
  assumes "db_scopes db (bp_scope p) = Some r" "bs_blocked r"
  shows "\<exists>reason. snd (reserve_model_budget db p c uid) = Inr (AdmDenied reason)"
  using assms by (auto simp: reserve_model_budget_def denial_reason_def scope_row_def Let_def)

lemma settle_closed:
  "find_attempt db uid = Some a \<Longrightarrow> at_state a \<noteq> AttReserved \<Longrightarrow>
     settle_model_budget db uid i out cost = (db, Inr (at_state a = AttSettled))"
  by (simp add: settle_model_budget_def)

lemma find_attempt_update:
  "find_attempt (db\<lparr>db_scopes := m, db_attempts := update_attempt uid (settle_as st i out cost) (db_attempts db)\<rparr>) uid
     = map_option (settle_as st i out cost) (find_attempt db uid)"
proof -
  have "find (\<lambda>a. at_id a = uid) (update_attempt uid (settle_as st i out cost) as)
      = map_option (settle_as st i out cost) (find (\<lambda>a. at_id a = uid) as)" for as
    by (induction as) (auto simp: update_attempt_def)
  then show ?thesis by (simp add: find_attempt_def)
qed

text \<open>A small run for the witnesses: two calls of at most a hundred tokens are allowed, one
  reservation of fifty tokens is made.\<close>

definition two_calls :: budget_limits where
  "two_calls json = (Some 2, Some 100, None)"

definition fifty_tokens :: budget_charge where
  "fifty_tokens = \<lparr>bc_provider = ''p'', bc_model = ''m'', bc_input = 20, bc_output = 30, bc_cost = 7\<rparr>"

definition one_reserved :: "budget_op list" where
  "one_reserved = [OpReserve ''w'' ''{}'' fifty_tokens ''a1'']"

lemma one_reserved_run:
  "budget_run two_calls one_reserved = \<lparr>db_scopes = [''w'' \<mapsto> \<lparr>bs_policy_json = ''{}'', bs_calls = 1,
      bs_tokens = 50, bs_cost = 7, bs_terminal_reason = None, bs_blocked = False\<rparr>],
    db_attempts = [\<lparr>at_id = ''a1'', at_scope = ''w'', at_provider = ''p'', at_model = ''m'',
      at_reserved_input = 20, at_reserved_output = 30, at_reserved_cost = 7, at_observed = None,
      at_state = AttReserved\<rparr>]\<rparr>"
  by (simp add: budget_run_def one_reserved_def fifty_tokens_def two_calls_def budget_db_empty_def
      reserve_model_budget_def scope_row_def scope_default_def denial_reason_def new_attempt_def
      checked_add_i64_def try_i64_def in_i64_def i64_max_def i64_min_def)

section \<open>Properties\<close>

text \<open>C7. However reservations and settlements of any scopes interleave, the durable totals of a
  scope stay within the limits of the policy it was opened with: the snapshot of a scope never
  shows more calls, tokens or cost than its policy allows.\<close>

theorem budget_never_exceeded:
  assumes "db_scopes (budget_run lim ops) sc = Some r"
    and "lim (bs_policy_json r) = (mc, mt, mm)"
    and "model_budget_snapshot (budget_run lim ops) sc = Some s"
  shows "under (sn_calls s) mc \<and> under (sn_tokens s) mt \<and> under (sn_cost s) mm"
proof -
  have "scope_under lim r" using budget_run_inv [of lim ops] assms(1) by (simp add: budget_inv_def)
  with assms show ?thesis by (auto simp: scope_under_def model_budget_snapshot_def)
qed

theorem budget_never_exceeded_witness:
  "\<exists>s. model_budget_snapshot (budget_run two_calls one_reserved) ''w'' = Some s
     \<and> under (sn_calls s) (Some 2) \<and> under (sn_tokens s) (Some 100)"
proof -
  obtain s where s: "model_budget_snapshot (budget_run two_calls one_reserved) ''w'' = Some s"
    by (simp add: one_reserved_run model_budget_snapshot_def)
  have "under (sn_calls s) (Some 2) \<and> under (sn_tokens s) (Some 100) \<and> under (sn_cost s) None"
    by (rule budget_never_exceeded [OF _ _ s]) (simp add: one_reserved_run, simp add: two_calls_def)
  with s show ?thesis by blast
qed

text \<open>C8. The snapshot of a scope is exactly what its attempt ledger adds up to: one call per
  attempt, the observed usage of the settled attempts, the whole reservation of the unresolved
  and the overrun ones; the scope is blocked exactly when one of its attempts overran.\<close>

theorem snapshot_is_ledger:
  assumes "model_budget_snapshot (budget_run lim ops) sc = Some s"
  defines "as \<equiv> attempts_of sc (db_attempts (budget_run lim ops))"
  shows "sn_calls s = int (length as) \<and> sn_tokens s = sum_list (map charged_tokens as)
    \<and> sn_cost s = sum_list (map charged_cost as)
    \<and> sn_blocked s = list_ex (\<lambda>a. at_state a = AttOverrun) as"
proof -
  obtain r where r: "db_scopes (budget_run lim ops) sc = Some r"
    using assms(1) by (auto simp: model_budget_snapshot_def)
  then have "scope_balanced sc r (db_attempts (budget_run lim ops))"
    using budget_run_accounts by (simp add: accounts_ok_def)
  with r assms(1) show ?thesis
    by (auto simp: scope_balanced_def model_budget_snapshot_def as_def)
qed

theorem snapshot_is_ledger_witness:
  "\<exists>s. model_budget_snapshot (budget_run two_calls one_reserved) ''w'' = Some s
     \<and> sn_calls s = 1 \<and> sn_tokens s = 50"
  using snapshot_is_ledger [of two_calls one_reserved "''w''"]
  by (simp add: one_reserved_run model_budget_snapshot_def attempts_of_def charged_tokens_def)

text \<open>C9. A settlement takes effect once: when it succeeds, settling the same attempt again with
  any figures changes nothing and reports the first verdict; and a settlement of an attempt the
  store issued never fails.\<close>

theorem settle_takes_effect_once:
  assumes "uid \<in> set (map at_id (db_attempts (budget_run lim ops)))"
  shows "\<exists>db' v. settle_model_budget (budget_run lim ops) uid i out cost = (db', Inr v)
     \<and> settle_model_budget db' uid i' out' cost' = (db', Inr v)"
proof -
  let ?db = "budget_run lim ops"
  obtain db' res where s: "settle_model_budget ?db uid i out cost = (db', res)" by fastforce
  from budget_run_accounts s show ?thesis
  proof (cases rule: settle_cases)
    case missing
    with assms show ?thesis by simp
  next
    case (closed a)
    then have "settle_model_budget db' uid i' out' cost' = (db', res)" by (simp add: settle_closed)
    with s closed(4) show ?thesis by auto
  next
    case (settled a r)
    then have "find_attempt db' uid = Some (settle_as AttSettled i out cost a)"
      by (simp add: find_attempt_update)
    from settle_closed [OF this] s settled(5) show ?thesis by auto
  next
    case (overrun a r)
    then have "find_attempt db' uid = Some (settle_as AttOverrun i out cost a)"
      by (simp add: find_attempt_update)
    from settle_closed [OF this] s overrun(5) show ?thesis by auto
  qed
qed

theorem settle_takes_effect_once_witness:
  "\<exists>db'. settle_model_budget (budget_run two_calls one_reserved) ''a1'' 10 5 3 = (db', Inr True)
     \<and> settle_model_budget db' ''a1'' 0 0 0 = (db', Inr True)"
proof -
  have "\<exists>db'. settle_model_budget (budget_run two_calls one_reserved) ''a1'' 10 5 3 = (db', Inr True)"
    by (simp add: one_reserved_run settle_model_budget_def find_attempt_def within_reservation_def)
  with settle_takes_effect_once [of "''a1''" two_calls one_reserved 10 5 3 0 0 0] show ?thesis
    by (auto simp: one_reserved_run)
qed

text \<open>C10. Fail closed after an overrun: once a settlement reports usage beyond its reservation,
  no later reservation on that scope is ever admitted, whatever happens in between.\<close>

theorem overrun_blocks_scope:
  assumes "find_attempt (budget_run lim ops) uid = Some a" "at_state a = AttReserved"
    and "settle_model_budget (budget_run lim ops) uid i out cost = (db', Inr False)"
    and "bp_scope p = at_scope a"
  shows "\<exists>reason. snd (reserve_model_budget (foldl (budget_step lim) db' later) p c uid') = Inr (AdmDenied reason)"
proof -
  from budget_run_accounts assms(3) obtain r where r: "db_scopes db' (at_scope a) = Some r" "bs_blocked r"
    by (cases rule: settle_cases) (use assms(1,2) in auto)
  with blocked.run_below [of db' lim later] obtain r' where
    "db_scopes (foldl (budget_step lim) db' later) (at_scope a) = Some r'" "bs_blocked r'"
    by (auto simp: blocks_kept_def)
  with assms(4) show ?thesis by (simp add: reserve_blocked_denied)
qed

theorem overrun_blocks_scope_witness:
  "\<exists>db' reason. settle_model_budget (budget_run two_calls one_reserved) ''a1'' 10 31 3 = (db', Inr False)
     \<and> snd (reserve_model_budget (foldl (budget_step two_calls) db' one_reserved)
          (policy_of two_calls ''w'' ''{}'') fifty_tokens ''a2'') = Inr (AdmDenied reason)"
proof -
  obtain db' where s: "settle_model_budget (budget_run two_calls one_reserved) ''a1'' 10 31 3 = (db', Inr False)"
    by (simp add: one_reserved_run settle_model_budget_def find_attempt_def within_reservation_def)
  have "\<exists>reason. snd (reserve_model_budget (foldl (budget_step two_calls) db' one_reserved)
      (policy_of two_calls ''w'' ''{}'') fifty_tokens ''a2'') = Inr (AdmDenied reason)"
    by (rule overrun_blocks_scope [OF _ _ s]) (simp add: one_reserved_run find_attempt_def, simp, simp)
  with s show ?thesis by blast
qed

end
