(* ===== verification/Text.thy ===== *)
theory Text
  imports Prelude
begin

text \<open>
  The string functions of the Rust standard library that the components call, on code points
  below 256: substring search, prefix stripping, ASCII classes, lower-casing, decimal parsing
  and splitting, with the lemmas that relate printing and parsing of decimals.
\<close>

section \<open>Searching\<close>

fun starts_with :: "string \<Rightarrow> string \<Rightarrow> bool" where
  "starts_with [] s = True"
| "starts_with (p # ps) [] = False"
| "starts_with (p # ps) (c # cs) = (p = c \<and> starts_with ps cs)"

fun str_contains :: "string \<Rightarrow> string \<Rightarrow> bool" where
  "str_contains p [] = (p = [])"
| "str_contains p (c # cs) = (starts_with p (c # cs) \<or> str_contains p cs)"

definition strip_prefix :: "string \<Rightarrow> string \<Rightarrow> string option" where
  "strip_prefix p s = (if starts_with p s then Some (drop (length p) s) else None)"

lemma starts_with_append [simp]: "starts_with p (p @ s)"
  by (induction p) simp_all

lemma strip_prefix_append [simp]: "strip_prefix p (p @ s) = Some s"
  by (simp add: strip_prefix_def)

text \<open>A pattern whose first character does not occur in a prefix is not found across it.\<close>

lemma str_contains_skip:
  assumes "p = c # ps" "c \<notin> set pre"
  shows "str_contains p (pre @ s) = str_contains p s"
  using assms(2) by (induction pre) (auto simp: assms(1))

section \<open>Characters\<close>

definition char_code :: "char \<Rightarrow> nat" where
  "char_code c = of_char c"

definition is_ascii_digit :: "char \<Rightarrow> bool" where
  "is_ascii_digit c \<longleftrightarrow> 48 \<le> char_code c \<and> char_code c \<le> 57"

definition is_ascii_alphanumeric :: "char \<Rightarrow> bool" where
  "is_ascii_alphanumeric c \<longleftrightarrow> is_ascii_digit c \<or> (65 \<le> char_code c \<and> char_code c \<le> 90)
     \<or> (97 \<le> char_code c \<and> char_code c \<le> 122)"

text \<open>\<^verbatim>\<open>str::to_lowercase\<close>: ASCII and Latin-1 capitals (all but the multiplication sign).\<close>

definition to_lower_char :: "char \<Rightarrow> char" where
  "to_lower_char c = (let n = char_code c in
     if (65 \<le> n \<and> n \<le> 90) \<or> (192 \<le> n \<and> n \<le> 222 \<and> n \<noteq> 215) then char_of (n + 32) else c)"

definition to_lower :: "string \<Rightarrow> string" where
  "to_lower s = map to_lower_char s"

lemma to_lower_append [simp]: "to_lower (a @ b) = to_lower a @ to_lower b"
  by (simp add: to_lower_def)

lemma to_lower_digit: "is_ascii_digit c \<Longrightarrow> to_lower_char c = c"
  by (auto simp: to_lower_char_def is_ascii_digit_def Let_def)

section \<open>Decimals\<close>

definition digit_value :: "char \<Rightarrow> nat" where
  "digit_value c = char_code c - 48"

definition digits_value :: "string \<Rightarrow> nat" where
  "digits_value s = foldl (\<lambda>n c. 10 * n + digit_value c) 0 s"

text \<open>\<^verbatim>\<open>str::parse\<close> of an unsigned integer with maximum \<open>m\<close>: an optional plus sign, then at
  least one digit.\<close>

definition parse_unsigned :: "nat \<Rightarrow> string \<Rightarrow> nat option" where
  "parse_unsigned m s =
     (let ds = (case s of [] \<Rightarrow> s | c # cs \<Rightarrow> if c = CHR ''+'' then cs else s) in
      if ds \<noteq> [] \<and> list_all is_ascii_digit ds \<and> digits_value ds \<le> m then Some (digits_value ds) else None)"

lemma char_code_char_of: "(n :: nat) < 256 \<Longrightarrow> char_code (char_of n) = n"
  by (simp add: char_code_def)

lemma is_ascii_digit_digit: "(d :: nat) < 10 \<Longrightarrow> is_ascii_digit (char_of (48 + d))"
  by (simp add: is_ascii_digit_def char_code_char_of)

lemma digits_value_snoc: "digits_value (s @ [c]) = 10 * digits_value s + digit_value c"
  by (simp add: digits_value_def)

lemma digits_value_nat_str: "digits_value (nat_str n) = n"
proof (induction n rule: nat_str.induct)
  case (1 n)
  show ?case
  proof (cases "n < 10")
    case True
    then show ?thesis
      by (subst nat_str.simps) (simp add: digits_value_def digit_value_def char_code_char_of)
  next
    case False
    with 1 have "digits_value (nat_str (n div 10)) = n div 10" by simp
    with False show ?thesis
      by (subst nat_str.simps) (simp add: digits_value_snoc digit_value_def char_code_char_of)
  qed
qed

lemma nat_str_digits: "list_all is_ascii_digit (nat_str n)"
proof (induction n rule: nat_str.induct)
  case (1 n)
  show ?case
  proof (cases "n < 10")
    case True
    then show ?thesis by (subst nat_str.simps) (simp add: is_ascii_digit_digit)
  next
    case False
    with 1 show ?thesis by (subst nat_str.simps) (simp add: is_ascii_digit_digit)
  qed
qed

lemma plus_not_digit: "is_ascii_digit c \<Longrightarrow> c \<noteq> CHR ''+''"
  by (auto simp: is_ascii_digit_def char_code_def)

text \<open>Printing then parsing an unsigned integer of the type's range gives it back.\<close>

lemma parse_nat_str: "n \<le> m \<Longrightarrow> parse_unsigned m (nat_str n) = Some n"
proof -
  assume "n \<le> m"
  obtain c cs where s: "nat_str n = c # cs" using nat_str_nonempty by (cases "nat_str n") auto
  with nat_str_digits [of n] have "c \<noteq> CHR ''+''" by (auto dest: plus_not_digit)
  with s have "(case nat_str n of [] \<Rightarrow> nat_str n | c # cs \<Rightarrow> if c = CHR ''+'' then cs else nat_str n) = nat_str n"
    by simp
  with \<open>n \<le> m\<close> show ?thesis
    by (simp add: parse_unsigned_def digits_value_nat_str nat_str_digits nat_str_nonempty Let_def)
qed

section \<open>Splitting\<close>

text \<open>\<^verbatim>\<open>str::lines\<close>: a line ends at a newline, with a carriage return before it; no empty last line.\<close>

fun lines_from :: "string \<Rightarrow> string \<Rightarrow> string list" where
  "lines_from acc [] = (if acc = [] then [] else [rev acc])"
| "lines_from acc (c # cs) =
     (if c = CHR 0x0A
      then rev (case acc of [] \<Rightarrow> [] | a # as \<Rightarrow> if a = CHR 0x0D then as else acc) # lines_from [] cs
      else lines_from (c # acc) cs)"

definition str_lines :: "string \<Rightarrow> string list" where
  "str_lines s = lines_from [] s"

fun words_from :: "string \<Rightarrow> string \<Rightarrow> string list" where
  "words_from acc [] = (if acc = [] then [] else [rev acc])"
| "words_from acc (c # cs) =
     (if is_ws c then (if acc = [] then words_from [] cs else rev acc # words_from [] cs)
      else words_from (c # acc) cs)"

definition split_whitespace :: "string \<Rightarrow> string list" where
  "split_whitespace s = words_from [] s"

text \<open>\<^verbatim>\<open>split_once\<close> at a character and at a string.\<close>

definition split_once :: "char \<Rightarrow> string \<Rightarrow> (string \<times> string) option" where
  "split_once c s = (if c \<in> set s then Some (takeWhile (\<lambda>x. x \<noteq> c) s, tl (dropWhile (\<lambda>x. x \<noteq> c) s)) else None)"

fun after_str :: "string \<Rightarrow> string \<Rightarrow> string option" where
  "after_str p [] = (if p = [] then Some [] else None)"
| "after_str p (c # cs) = (if starts_with p (c # cs) then Some (drop (length p) (c # cs)) else after_str p cs)"

lemma starts_with_length: "starts_with p s \<Longrightarrow> length p \<le> length s"
  by (induction p s rule: starts_with.induct) auto

text \<open>\<^verbatim>\<open>trim_start_matches\<close> with a non-empty pattern removes it as often as it occurs at the start.\<close>

function trim_start_str :: "string \<Rightarrow> string \<Rightarrow> string" where
  "trim_start_str p s = (if p \<noteq> [] \<and> starts_with p s then trim_start_str p (drop (length p) s) else s)"
  by pat_completeness auto

termination
  by (relation "measure (\<lambda>(p, s). length s)") (auto dest: starts_with_length simp: neq_Nil_conv)

declare trim_start_str.simps [simp del]

definition trim_end_char :: "char \<Rightarrow> string \<Rightarrow> string" where
  "trim_end_char c s = rev (dropWhile (\<lambda>x. x = c) (rev s))"

text \<open>\<^verbatim>\<open>str::parse::<i64>\<close>.\<close>

definition parse_i64 :: "string \<Rightarrow> int option" where
  "parse_i64 s = (case s of
     [] \<Rightarrow> None
   | c # cs \<Rightarrow>
       (let neg = (c = CHR ''-''); ds = (if neg \<or> c = CHR ''+'' then cs else s);
            v = (if neg then - int (digits_value ds) else int (digits_value ds))
        in if ds \<noteq> [] \<and> list_all is_ascii_digit ds \<and> in_i64 v then Some v else None))"

section \<open>ASCII case and joining\<close>

text \<open>\<^verbatim>\<open>str::to_ascii_lowercase\<close>, \<^verbatim>\<open>str::eq_ignore_ascii_case\<close> and \<^verbatim>\<open>slice::join\<close>.\<close>

definition ascii_lower_char :: "char \<Rightarrow> char" where
  "ascii_lower_char c = (let n = char_code c in if 65 \<le> n \<and> n \<le> 90 then char_of (n + 32) else c)"

definition to_ascii_lowercase :: "string \<Rightarrow> string" where
  "to_ascii_lowercase s = map ascii_lower_char s"

definition eq_ignore_ascii_case :: "string \<Rightarrow> string \<Rightarrow> bool" where
  "eq_ignore_ascii_case a b \<longleftrightarrow> to_ascii_lowercase a = to_ascii_lowercase b"

fun str_join :: "string \<Rightarrow> string list \<Rightarrow> string" where
  "str_join sep [] = []"
| "str_join sep [x] = x"
| "str_join sep (x # y # ys) = x @ sep @ str_join sep (y # ys)"

definition is_ascii_hexdigit :: "char \<Rightarrow> bool" where
  "is_ascii_hexdigit c \<longleftrightarrow> is_ascii_digit c \<or> (65 \<le> char_code c \<and> char_code c \<le> 70) \<or> (97 \<le> char_code c \<and> char_code c \<le> 102)"

text \<open>\<^verbatim>\<open>str::split\<close> on a character (always at least one piece), \<^verbatim>\<open>str::ends_with\<close>, and the
  lexicographic order of strings.\<close>

fun split_from :: "char \<Rightarrow> string \<Rightarrow> string \<Rightarrow> string list" where
  "split_from d acc [] = [rev acc]"
| "split_from d acc (c # cs) = (if c = d then rev acc # split_from d [] cs else split_from d (c # acc) cs)"

definition split_char :: "char \<Rightarrow> string \<Rightarrow> string list" where
  "split_char d s = split_from d [] s"

definition ends_with :: "string \<Rightarrow> string \<Rightarrow> bool" where
  "ends_with p s = starts_with (rev p) (rev s)"

fun str_le :: "string \<Rightarrow> string \<Rightarrow> bool" where
  "str_le [] t = True"
| "str_le (c # cs) [] = False"
| "str_le (c # cs) (d # ds) = (char_code c < char_code d \<or> (c = d \<and> str_le cs ds))"

end
