(* ===== verification/F64.thy ===== *)
theory F64
  imports Text
begin

text \<open>
  The IEEE binary64 numbers of the pricing, routing and metrics code. A finite float is kept
  exactly as sign, integer significand and binary exponent; \<open>round_f64\<close> is round to nearest,
  ties to even, with the gradual underflow and the overflow threshold of binary64. Quotients
  are computed with two extra bits and a sticky bit before the rounding.
\<close>

datatype f64 = FNaN | FInf bool | Fin bool nat int

fun bit_len :: "nat \<Rightarrow> nat" where
  "bit_len n = (if n = 0 then 0 else Suc (bit_len (n div 2)))"

declare bit_len.simps [simp del]

definition half_even :: "nat \<Rightarrow> nat \<Rightarrow> nat" where
  "half_even p k = (let q = p div 2 ^ k; r = p mod 2 ^ k; half = 2 ^ (k - 1)
     in if r > half \<or> (r = half \<and> odd q) then q + 1 else q)"

definition round_f64 :: "bool \<Rightarrow> nat \<Rightarrow> int \<Rightarrow> f64" where
  "round_f64 s p e =
     (let k = max (int (bit_len p) - 53) (-1074 - e);
          q = (if k \<le> 0 then p else half_even p (nat k));
          e' = (if k \<le> 0 then e else e + k)
      in if q \<noteq> 0 \<and> int (bit_len q) + e' > 1024 then FInf s else Fin s q e')"

fun f_mul :: "f64 \<Rightarrow> f64 \<Rightarrow> f64" where
  "f_mul (Fin s m e) (Fin s' m' e') = round_f64 (s \<noteq> s') (m * m') (e + e')"
| "f_mul (FInf s) (FInf s') = FInf (s \<noteq> s')"
| "f_mul (FInf s) (Fin s' m e) = (if m = 0 then FNaN else FInf (s \<noteq> s'))"
| "f_mul (Fin s m e) (FInf s') = (if m = 0 then FNaN else FInf (s \<noteq> s'))"
| "f_mul _ _ = FNaN"

fun f_add :: "f64 \<Rightarrow> f64 \<Rightarrow> f64" where
  "f_add (Fin s m e) (Fin s' m' e') =
     (let b = min e e'; v = (if s then -1 else 1) * int m * 2 ^ nat (e - b)
                           + (if s' then -1 else 1) * int m' * 2 ^ nat (e' - b)
      in if v = 0 then Fin (s \<and> s') 0 0 else round_f64 (v < 0) (nat \<bar>v\<bar>) b)"
| "f_add (FInf s) (FInf s') = (if s = s' then FInf s else FNaN)"
| "f_add (FInf s) (Fin _ _ _) = FInf s"
| "f_add (Fin _ _ _) (FInf s') = FInf s'"
| "f_add _ _ = FNaN"

fun f_div :: "f64 \<Rightarrow> f64 \<Rightarrow> f64" where
  "f_div (Fin s m e) (Fin s' m' e') =
     (if m' = 0 then (if m = 0 then FNaN else FInf (s \<noteq> s'))
      else let k = 55 + bit_len m' - bit_len m;
               q = (m * 2 ^ k) div m';
               sticky = (if (m * 2 ^ k) mod m' = 0 then 0 else 1)
           in round_f64 (s \<noteq> s') (2 * q + sticky) (e - e' - int k - 1))"
| "f_div (FInf s) (Fin s' _ _) = FInf (s \<noteq> s')"
| "f_div (Fin s _ _) (FInf s') = Fin (s \<noteq> s') 0 0"
| "f_div _ _ = FNaN"

fun f_floor :: "f64 \<Rightarrow> f64" where
  "f_floor (Fin s m e) =
     (if e \<ge> 0 then Fin s m e
      else let d = 2 ^ nat (- e) in Fin s (if s then (m + d - 1) div d else m div d) 0)"
| "f_floor x = x"

fun f_ceil :: "f64 \<Rightarrow> f64" where
  "f_ceil (Fin s m e) =
     (if e \<ge> 0 then Fin s m e
      else let d = 2 ^ nat (- e) in Fin s (if s then m div d else (m + d - 1) div d) 0)"
| "f_ceil x = x"

fun f_is_finite :: "f64 \<Rightarrow> bool" where
  "f_is_finite (Fin _ _ _) = True"
| "f_is_finite _ = False"

text \<open>\<^verbatim>\<open>partial_cmp\<close>: both operands over a common exponent; \<open>None\<close> when one is NaN.\<close>

definition fin_over :: "int \<Rightarrow> bool \<Rightarrow> nat \<Rightarrow> int \<Rightarrow> int" where
  "fin_over base s m e = (if s then -1 else 1) * int m * 2 ^ nat (e - base)"

fun f_less :: "f64 \<Rightarrow> f64 \<Rightarrow> bool" where
  "f_less (Fin s m e) (Fin s' m' e') = (fin_over (min e e') s m e < fin_over (min e e') s' m' e')"
| "f_less (Fin _ _ _) (FInf s') = (\<not> s')"
| "f_less (FInf s) (Fin _ _ _) = s"
| "f_less (FInf s) (FInf s') = (s \<and> \<not> s')"
| "f_less _ _ = False"

definition f_of_nat :: "nat \<Rightarrow> f64" where
  "f_of_nat n = round_f64 False n 0"

definition f_zero :: f64 where
  "f_zero = Fin False 0 0"

text \<open>\<^verbatim>\<open>as u128\<close> of a finite, non-negative, integral float.\<close>

fun f_to_nat :: "f64 \<Rightarrow> nat" where
  "f_to_nat (Fin False m e) = (if e \<ge> 0 then m * 2 ^ nat e else m div 2 ^ nat (- e))"
| "f_to_nat _ = 0"



section \<open>Fused multiply-add, signed conversion, decimal parsing\<close>

text \<open>\<^verbatim>\<open>f64::mul_add\<close>: one rounding of the exact result.\<close>

fun f_fma :: "f64 \<Rightarrow> f64 \<Rightarrow> f64 \<Rightarrow> f64" where
  "f_fma (Fin s m e) (Fin s' m' e') (Fin t n x) =
     (let b = min (e + e') x;
          p = (if s \<noteq> s' then -1 else 1) * int (m * m') * 2 ^ nat (e + e' - b);
          v = p + (if t then -1 else 1) * int n * 2 ^ nat (x - b)
      in if v = 0 then Fin (m * m' = 0 \<and> (s \<noteq> s') \<and> t) 0 0 else round_f64 (v < 0) (nat \<bar>v\<bar>) b)"
| "f_fma a b c = f_add (f_mul a b) c"

definition f_of_int :: "int \<Rightarrow> f64" where
  "f_of_int i = round_f64 (i < 0) (nat \<bar>i\<bar>) 0"

text \<open>The binary64 nearest to \<open>d * 10 ^ x\<close>.\<close>

definition f_decimal :: "bool \<Rightarrow> nat \<Rightarrow> int \<Rightarrow> f64" where
  "f_decimal s d x =
     (if x \<ge> 0 then round_f64 s (d * 10 ^ nat x) 0
      else f_div (Fin s d 0) (Fin False (10 ^ nat (- x)) 0))"

text \<open>\<^verbatim>\<open>str::parse::<f64>\<close>: sign, then \<^verbatim>\<open>inf\<close>, \<^verbatim>\<open>infinity\<close> or \<^verbatim>\<open>nan\<close> in any case, or digits with an
  optional point and exponent.\<close>

definition parse_exponent :: "string \<Rightarrow> int option" where
  "parse_exponent s = (case s of
     [] \<Rightarrow> Some 0
   | c # cs \<Rightarrow>
       if c = CHR ''e'' \<or> c = CHR ''E'' then
         (let (neg, ds) = (case cs of [] \<Rightarrow> (False, cs)
              | d # ds \<Rightarrow> if d = CHR ''-'' then (True, ds) else if d = CHR ''+'' then (False, ds) else (False, cs))
          in if ds \<noteq> [] \<and> list_all is_ascii_digit ds
             then Some (if neg then - int (digits_value ds) else int (digits_value ds)) else None)
       else None)"

definition parse_f64_unsigned :: "bool \<Rightarrow> string \<Rightarrow> f64 option" where
  "parse_f64_unsigned s t =
     (if to_lower t = ''inf'' \<or> to_lower t = ''infinity'' then Some (FInf s)
      else if to_lower t = ''nan'' then Some FNaN
      else
        let ip = takeWhile is_ascii_digit t; r = dropWhile is_ascii_digit t;
            (fp, r') = (case r of [] \<Rightarrow> ([], r)
               | c # cs \<Rightarrow> if c = CHR ''.'' then (takeWhile is_ascii_digit cs, dropWhile is_ascii_digit cs) else ([], r))
        in if ip @ fp = [] then None
           else map_option (\<lambda>x. f_decimal s (digits_value (ip @ fp)) (x - int (length fp))) (parse_exponent r'))"

definition parse_f64 :: "string \<Rightarrow> f64 option" where
  "parse_f64 s = (case s of
     [] \<Rightarrow> None
   | c # cs \<Rightarrow> if c = CHR ''-'' then parse_f64_unsigned True cs
               else if c = CHR ''+'' then parse_f64_unsigned False cs
               else parse_f64_unsigned False s)"

end
