(* ===== verification/Json.thy ===== *)
theory Json
  imports F64
begin

text \<open>
  The values the program passes around as data, \<^verbatim>\<open>serde_json::Value\<close>. Objects keep their
  insertion order: the workspace builds \<^verbatim>\<open>serde_json\<close> with \<^verbatim>\<open>preserve_order\<close>.
\<close>

section \<open>Values\<close>

datatype json_number = PosInt nat | NegInt int | JFloat f64

datatype json =
    JNull
  | JBool bool
  | JNumber json_number
  | JString string
  | JArray "json list"
  | JObject "(string \<times> json) list"

text \<open>\<^verbatim>\<open>Value::get\<close> on an object, \<^verbatim>\<open>Map::insert\<close> (in place when the key exists, else at the end).\<close>

fun jget :: "string \<Rightarrow> json \<Rightarrow> json option" where
  "jget k (JObject kvs) = map_of kvs k"
| "jget k _ = None"

fun obj_insert :: "string \<Rightarrow> 'v \<Rightarrow> (string \<times> 'v) list \<Rightarrow> (string \<times> 'v) list" where
  "obj_insert k v [] = [(k, v)]"
| "obj_insert k v ((k', v') # kvs) = (if k' = k then (k, v) # kvs else (k', v') # obj_insert k v kvs)"

fun j_as_object :: "json \<Rightarrow> (string \<times> json) list option" where
  "j_as_object (JObject kvs) = Some kvs"
| "j_as_object _ = None"

lemma map_of_obj_insert [simp]: "map_of (obj_insert k v kvs) = (map_of kvs)(k \<mapsto> v)"
  by (induction kvs) auto

lemma keys_obj_insert: "fst ` set (obj_insert k v kvs) = insert k (fst ` set kvs)"
  by (induction k v kvs rule: obj_insert.induct) auto

lemma distinct_obj_insert: "distinct (map fst kvs) \<Longrightarrow> distinct (map fst (obj_insert k v kvs))"
proof (induction kvs)
  case (Cons kv kvs)
  then show ?case using keys_obj_insert [of k v kvs] by (cases kv) auto
qed simp

end
