(* ===== verification/Provider_Error.thy ===== *)
theory Provider_Error
  imports Text Json
begin

text \<open>
  The provider vocabulary of \<^verbatim>\<open>crates/hf-core/src/provider.rs\<close> (requests, usage, metadata,
  errors and their severity, routing requests) and the classifier of
  \<^verbatim>\<open>crates/hf-provider/src/error_classifier.rs\<close> that turns a provider failure into one of the
  standard errors the pool acts on. Durations are nanoseconds.
\<close>

section \<open>hf-core provider types\<close>

type_synonym provider_id = string
type_synonym duration = nat

definition secs :: "nat \<Rightarrow> duration" where
  "secs n = n * 1000000000"

definition as_secs :: "duration \<Rightarrow> nat" where
  "as_secs d = d div 1000000000"

lemma as_secs_secs [simp]: "as_secs (secs n) = n"
  by (simp add: as_secs_def secs_def)

datatype request_mode = TextChat | ImageGeneration

text \<open>The fields of a request that no component below reads are one value, \<open>cr_payload\<close>.\<close>

record chat_request =
  cr_model :: "string option"
  cr_mode :: request_mode
  cr_max_tokens :: "u32 option"
  cr_temperature :: "f64 option"
  cr_top_p :: "f64 option"
  cr_extra :: json
  cr_payload :: json

datatype usage_source = ProviderReported | Estimated

record token_usage =
  tu_input :: u32
  tu_output :: u32
  tu_cache_read :: "u32 option"
  tu_cache_write :: "u32 option"
  tu_source :: usage_source

record chat_response =
  cs_usage :: token_usage
  cs_provider_id :: "provider_id option"
  cs_body :: json

record provider_metadata =
  pm_id :: provider_id
  pm_model :: string
  pm_tags :: "string list"
  pm_max_concurrency :: usize
  pm_context_window :: usize
  pm_cost_in :: f64
  pm_cost_out :: f64

datatype provider_error =
    RateLimited string nat
  | QuotaExhausted string string
  | AuthenticationFailed string string
  | KeyInvalid string string
  | ServerError string string
  | NetworkError string
  | NoProviderAvailable "string list"
  | ModelBudgetDenied string string
  | Cancelled
  | ResponseBodyLimitExceeded nat
  | ResponseStreamLimitExceeded string nat
  | ParseError string
  | OtherError string

datatype error_severity = Transient | Permanent | UserActionRequired

fun severity :: "provider_error \<Rightarrow> error_severity" where
  "severity (AuthenticationFailed _ _) = Permanent"
| "severity (KeyInvalid _ _) = Permanent"
| "severity (QuotaExhausted _ _) = Permanent"
| "severity (ModelBudgetDenied _ _) = UserActionRequired"
| "severity (NoProviderAvailable _) = UserActionRequired"
| "severity (ResponseBodyLimitExceeded _) = UserActionRequired"
| "severity (ResponseStreamLimitExceeded _ _) = UserActionRequired"
| "severity _ = Transient"

datatype route_priority = Critical | Normal | Idle

record route_request =
  rr_required_tags :: "string list"
  rr_preferred_tags :: "string list"
  rr_preferred_provider :: "provider_id option"
  rr_preferred_model :: "string option"
  rr_priority :: route_priority

definition route_default :: route_request where
  "route_default = \<lparr>rr_required_tags = [], rr_preferred_tags = [], rr_preferred_provider = None,
     rr_preferred_model = None, rr_priority = Normal\<rparr>"

definition route_with_tags :: "string list \<Rightarrow> route_request" where
  "route_with_tags tags = route_default\<lparr>rr_required_tags := tags\<rparr>"

definition route_preferring_tags :: "string list \<Rightarrow> route_request" where
  "route_preferring_tags tags = route_default\<lparr>rr_preferred_tags := tags\<rparr>"

section \<open>Standard errors\<close>

datatype standard_error =
    SContextWindowExceeded
  | SRateLimited "duration option"
  | SQuotaExhausted
  | SAuthenticationFailed
  | SKeyInvalid
  | SInsufficientBalance
  | SModelNotFound
  | SServerError
  | SNetworkError
  | SContentFiltered
  | SResponseBodyLimitExceeded
  | SResponseStreamLimitExceeded
  | SModelBudgetDenied
  | SUnknown

fun freeze_duration :: "standard_error \<Rightarrow> duration option" where
  "freeze_duration (SRateLimited ra) = Some (case ra of None \<Rightarrow> secs 60 | Some d \<Rightarrow> d)"
| "freeze_duration SServerError = Some (secs 300)"
| "freeze_duration SNetworkError = Some (secs 30)"
| "freeze_duration SModelNotFound = Some (secs 3600)"
| "freeze_duration SAuthenticationFailed = Some (secs 86400)"
| "freeze_duration SUnknown = Some (secs 60)"
| "freeze_duration _ = None"

fun is_permanent :: "standard_error \<Rightarrow> bool" where
  "is_permanent SKeyInvalid = True"
| "is_permanent SQuotaExhausted = True"
| "is_permanent SInsufficientBalance = True"
| "is_permanent _ = False"

fun is_transient :: "standard_error \<Rightarrow> bool" where
  "is_transient (SRateLimited _) = True"
| "is_transient SServerError = True"
| "is_transient SNetworkError = True"
| "is_transient SUnknown = True"
| "is_transient _ = False"

fun should_freeze :: "standard_error \<Rightarrow> bool" where
  "should_freeze SModelBudgetDenied = False"
| "should_freeze SContextWindowExceeded = False"
| "should_freeze SContentFiltered = False"
| "should_freeze SResponseBodyLimitExceeded = False"
| "should_freeze SResponseStreamLimitExceeded = False"
| "should_freeze _ = True"

section \<open>Classification from status and body\<close>

definition body_contains_any :: "string \<Rightarrow> string list \<Rightarrow> bool" where
  "body_contains_any body patterns = list_ex (\<lambda>p. str_contains p (to_lower body)) patterns"

definition classify_auth_error :: "string \<Rightarrow> standard_error" where
  "classify_auth_error body =
     (let lower = to_lower body in
      if (str_contains ''invalid'' lower \<and> str_contains ''key'' lower)
         \<or> str_contains ''expired'' lower \<or> str_contains ''revoked'' lower
         \<or> str_contains ''deactivated'' lower
      then SKeyInvalid else SAuthenticationFailed)"

definition classify_forbidden_error :: "string \<Rightarrow> standard_error" where
  "classify_forbidden_error body =
     (let lower = to_lower body in
      if str_contains ''quota'' lower \<or> (str_contains ''exceeded'' lower \<and> str_contains ''limit'' lower)
      then SQuotaExhausted
      else if str_contains ''balance'' lower \<or> str_contains ''insufficient'' lower
         \<or> str_contains ''billing'' lower \<or> str_contains ''payment'' lower
      then SInsufficientBalance else SAuthenticationFailed)"

definition classify_bad_request :: "string \<Rightarrow> standard_error" where
  "classify_bad_request body =
     (let lower = to_lower body in
      if (str_contains ''context'' lower \<and> (str_contains ''length'' lower \<or> str_contains ''window'' lower))
         \<or> (str_contains ''maximum'' lower \<and> str_contains ''token'' lower)
      then SContextWindowExceeded
      else if str_contains ''content_filter'' lower \<or> str_contains ''content filter'' lower
      then SContentFiltered
      else if str_contains ''model'' lower \<and> str_contains ''not'' lower then SModelNotFound
      else SUnknown)"

definition classify_from_body :: "string \<Rightarrow> standard_error" where
  "classify_from_body body =
     (let lower = to_lower body in
      if str_contains ''rate limit'' lower \<or> str_contains ''rate_limit'' lower then SRateLimited None
      else if str_contains ''quota'' lower \<or> (str_contains ''exceeded'' lower \<and> str_contains ''limit'' lower)
      then SQuotaExhausted
      else if str_contains ''invalid api key'' lower \<or> str_contains ''invalid_api_key'' lower then SKeyInvalid
      else if str_contains ''insufficient'' lower \<and> str_contains ''balance'' lower then SInsufficientBalance
      else if str_contains ''context'' lower \<and> str_contains ''length'' lower then SContextWindowExceeded
      else if str_contains ''content_filter'' lower \<or> str_contains ''content filter'' lower
      then SContentFiltered
      else SUnknown)"

definition classify :: "u16 \<Rightarrow> string \<Rightarrow> standard_error" where
  "classify status body =
     (let n = unat status in
      if n = 401 then classify_auth_error body
      else if n = 403 then classify_forbidden_error body
      else if n = 429 then SRateLimited None
      else if n = 404 then
        (if body_contains_any body [''model'', ''not found'', ''does not exist''] then SModelNotFound else SUnknown)
      else if n = 400 then classify_bad_request body
      else if 500 \<le> n \<and> n \<le> 599 then SServerError
      else if n = 0 then SNetworkError
      else classify_from_body body)"

definition u16_max :: nat where
  "u16_max = 65535"

definition classify_http_message :: "string \<Rightarrow> standard_error option" where
  "classify_http_message message =
     (case strip_prefix ''HTTP '' message of
        None \<Rightarrow> None
      | Some rest \<Rightarrow>
          (case parse_unsigned u16_max (takeWhile is_ascii_digit rest) of
             None \<Rightarrow> None
           | Some status \<Rightarrow> Some (classify (of_nat status) rest)))"

fun classify_provider_error :: "provider_error \<Rightarrow> standard_error" where
  "classify_provider_error (RateLimited _ s) = SRateLimited (Some (secs s))"
| "classify_provider_error (QuotaExhausted _ _) = SQuotaExhausted"
| "classify_provider_error (AuthenticationFailed _ _) = SAuthenticationFailed"
| "classify_provider_error (KeyInvalid _ _) = SKeyInvalid"
| "classify_provider_error (ServerError _ message) =
     (case classify_http_message message of
        Some c \<Rightarrow> c
      | None \<Rightarrow> if str_contains ''context'' message \<and> str_contains ''length'' message
                then SContextWindowExceeded else SServerError)"
| "classify_provider_error (ModelBudgetDenied _ _) = SModelBudgetDenied"
| "classify_provider_error (ResponseBodyLimitExceeded _) = SResponseBodyLimitExceeded"
| "classify_provider_error (ResponseStreamLimitExceeded _ _) = SResponseStreamLimitExceeded"
| "classify_provider_error (NetworkError _) = SNetworkError"
| "classify_provider_error (NoProviderAvailable _) = SUnknown"
| "classify_provider_error Cancelled = SUnknown"
| "classify_provider_error (ParseError _) = SUnknown"
| "classify_provider_error (OtherError message) =
     (case classify_http_message message of Some c \<Rightarrow> c | None \<Rightarrow> classify_from_body message)"

definition auth_failure_to_provider_error :: "string \<Rightarrow> string \<Rightarrow> provider_error" where
  "auth_failure_to_provider_error pid body =
     (let classified = (case classify_auth_error body of SKeyInvalid \<Rightarrow> SKeyInvalid
                        | _ \<Rightarrow> classify_forbidden_error body)
      in case classified of
           SKeyInvalid \<Rightarrow> KeyInvalid pid body
         | SQuotaExhausted \<Rightarrow> QuotaExhausted pid body
         | SInsufficientBalance \<Rightarrow> QuotaExhausted pid body
         | _ \<Rightarrow> AuthenticationFailed pid body)"

definition http_failure_to_provider_error :: "string \<Rightarrow> u16 \<Rightarrow> string \<Rightarrow> provider_error" where
  "http_failure_to_provider_error pid status body =
     (let message = ''HTTP '' @ nat_str (unat status) @ '': '' @ body
      in case classify status body of
           SRateLimited ra \<Rightarrow> RateLimited pid (case ra of None \<Rightarrow> 60 | Some d \<Rightarrow> as_secs d)
         | SKeyInvalid \<Rightarrow> KeyInvalid pid message
         | SQuotaExhausted \<Rightarrow> QuotaExhausted pid message
         | SInsufficientBalance \<Rightarrow> QuotaExhausted pid message
         | SAuthenticationFailed \<Rightarrow> AuthenticationFailed pid message
         | SNetworkError \<Rightarrow> NetworkError message
         | _ \<Rightarrow> ServerError pid message)"

text \<open>The JSON printer is \<^verbatim>\<open>serde_json\<close>'s and an argument.\<close>

definition stream_error_to_provider_error :: "(json \<Rightarrow> string) \<Rightarrow> string \<Rightarrow> json \<Rightarrow> provider_error" where
  "stream_error_to_provider_error to_string pid err =
     ServerError pid (case jget ''message'' err of Some (JString m) \<Rightarrow> m | _ \<Rightarrow> to_string err)"

section \<open>The status survives the message\<close>

definition tag_char :: "char \<Rightarrow> bool" where
  "tag_char c \<longleftrightarrow> is_ascii_digit c \<or> c = CHR '':'' \<or> c = CHR '' ''"

lemma to_lower_tag: "list_all tag_char pre \<Longrightarrow> to_lower pre = pre"
proof (induction pre)
  case (Cons c pre)
  have "to_lower_char (CHR '':'') = CHR '':''" "to_lower_char (CHR '' '') = CHR '' ''"
    by (simp_all add: to_lower_char_def char_code_def)
  with Cons show ?case by (auto simp: to_lower_def tag_char_def to_lower_digit)
qed (simp add: to_lower_def)

lemma contains_after_tag:
  assumes "list_all tag_char pre" "p = c # ps" "\<not> tag_char c"
  shows "str_contains p (to_lower (pre @ s)) = str_contains p (to_lower s)"
  using assms by (simp add: to_lower_tag) (rule str_contains_skip, auto simp: list_all_iff)

text \<open>None of the classifier's patterns starts like a status tag, so a tag changes nothing.\<close>

lemma pattern_heads: "\<not> tag_char (CHR ''b'')" "\<not> tag_char (CHR ''c'')" "\<not> tag_char (CHR ''d'')"
  "\<not> tag_char (CHR ''e'')" "\<not> tag_char (CHR ''i'')" "\<not> tag_char (CHR ''k'')" "\<not> tag_char (CHR ''l'')"
  "\<not> tag_char (CHR ''m'')" "\<not> tag_char (CHR ''n'')" "\<not> tag_char (CHR ''p'')" "\<not> tag_char (CHR ''q'')"
  "\<not> tag_char (CHR ''r'')" "\<not> tag_char (CHR ''t'')" "\<not> tag_char (CHR ''w'')"
  by (simp_all add: tag_char_def is_ascii_digit_def char_code_def)

lemma classify_parts_after_tag:
  assumes "list_all tag_char pre"
  shows "classify_auth_error (pre @ body) = classify_auth_error body"
    and "classify_forbidden_error (pre @ body) = classify_forbidden_error body"
    and "classify_bad_request (pre @ body) = classify_bad_request body"
    and "classify_from_body (pre @ body) = classify_from_body body"
    and "body_contains_any (pre @ body) [''model'', ''not found'', ''does not exist'']
       = body_contains_any body [''model'', ''not found'', ''does not exist'']"
  unfolding classify_auth_error_def classify_forbidden_error_def classify_bad_request_def
    classify_from_body_def body_contains_any_def Let_def list_ex_iff set_simps ball_simps bex_simps
  by (simp_all only: contains_after_tag [OF assms refl] pattern_heads not_False_eq_True)

lemma classify_after_tag:
  "list_all tag_char pre \<Longrightarrow> classify status (pre @ body) = classify status body"
  unfolding classify_def by (simp only: classify_parts_after_tag)

lemma nat_str_tag: "list_all tag_char (nat_str n)"
  using nat_str_digits [of n] by (simp add: list_all_iff tag_char_def)

lemma takeWhile_status: "takeWhile is_ascii_digit (nat_str n @ CHR '':'' # s) = nat_str n"
proof -
  have "\<not> is_ascii_digit (CHR '':'')" by (simp add: is_ascii_digit_def char_code_def)
  then show ?thesis using nat_str_digits [of n]
    by (simp add: takeWhile_append2 list_all_iff)
qed

lemma classify_http_message_tagged:
  "classify_http_message (''HTTP '' @ nat_str (unat status) @ '': '' @ body) = Some (classify status body)"
proof -
  have "unat status < 2 ^ LENGTH(16)" by (rule unsigned_less)
  then have le: "unat status \<le> u16_max" by (simp add: u16_max_def)
  have sp: "strip_prefix ''HTTP '' (''HTTP '' @ s) = Some s" for s by (rule strip_prefix_append)
  have tag: "list_all tag_char (nat_str (unat status) @ '': '')"
    by (simp add: nat_str_tag) (simp add: tag_char_def)
  have cl: "classify status (nat_str (unat status) @ '': '' @ body) = classify status body"
    using classify_after_tag [OF tag, of status body] by simp
  show ?thesis
    unfolding classify_http_message_def sp
    using le cl by (simp add: takeWhile_status parse_nat_str)
qed

text \<open>What a standard error becomes when it travels as a \<^verbatim>\<open>ProviderError\<close>: a rate limit without
  a delay gets the default minute, a missing balance becomes an exhausted quota.\<close>

fun carried :: "standard_error \<Rightarrow> standard_error" where
  "carried (SRateLimited None) = SRateLimited (Some (secs 60))"
| "carried (SRateLimited (Some d)) = SRateLimited (Some (secs (as_secs d)))"
| "carried SInsufficientBalance = SQuotaExhausted"
| "carried e = e"

lemma freezable_has_duration:
  "should_freeze e \<Longrightarrow> \<not> is_permanent e \<Longrightarrow> \<exists>d. freeze_duration e = Some d"
  by (cases e) auto

text \<open>The HTTP failure a backend reports keeps its meaning on the way to the pool: whatever
  status and body the classifier saw, classifying the \<^verbatim>\<open>ProviderError\<close> built from them gives
  the same standard error (up to the default delay and the quota/balance merge), and so the same
  freeze decision and the same permanence.\<close>

theorem http_failure_roundtrip:
  "classify_provider_error (http_failure_to_provider_error pid status body) = carried (classify status body)
   \<and> should_freeze (classify_provider_error (http_failure_to_provider_error pid status body))
      = should_freeze (classify status body)
   \<and> is_permanent (classify_provider_error (http_failure_to_provider_error pid status body))
      = is_permanent (classify status body)"
proof -
  have "classify_provider_error (http_failure_to_provider_error pid status body) = carried (classify status body)"
    using classify_http_message_tagged [of status body]
    by (cases "classify status body")
      (simp_all add: http_failure_to_provider_error_def Let_def split: option.splits)
  then show ?thesis by (cases "classify status body" rule: carried.cases) simp_all
qed

end
