(* ===== verification/Budget_Service.thy ===== *)
theory Budget_Service
  imports Budget_Store Provider_Error
begin

text \<open>
  The spending policy around every provider attempt, \<^verbatim>\<open>crates/hf-service/src/model_budget.rs\<close>
  (settings and their validation) and \<^verbatim>\<open>model_budget/dispatch.rs\<close> (the decorating provider), as
  built with the \<^verbatim>\<open>model-budgets\<close> feature. The store behind the controller is the database of
  \<open>Budget_Store\<close>; whether it can be opened, the fresh identifier, the JSON printer of
  \<^verbatim>\<open>serde_json\<close>, the text of a storage error and the wrapped provider are arguments.
\<close>

section \<open>Settings\<close>

record model_budget_settings =
  ms_scope_id :: "string option"
  ms_max_calls :: "u64 option"
  ms_max_tokens :: "u64 option"
  ms_max_cost :: "u64 option"
  ms_max_output :: u32

definition settings_default :: model_budget_settings where
  "settings_default = \<lparr>ms_scope_id = None, ms_max_calls = None, ms_max_tokens = None, ms_max_cost = None,
     ms_max_output = 4096\<rparr>"

definition settings_enabled :: "model_budget_settings \<Rightarrow> bool" where
  "settings_enabled s \<longleftrightarrow> ms_max_calls s \<noteq> None \<or> ms_max_tokens s \<noteq> None \<or> ms_max_cost s \<noteq> None"

definition limit_bad :: "u64 option \<Rightarrow> bool" where
  "limit_bad l = (case l of None \<Rightarrow> False | Some v \<Rightarrow> v = 0 \<or> uint v > i64_max)"

definition scope_char :: "char \<Rightarrow> bool" where
  "scope_char c \<longleftrightarrow> is_ascii_alphanumeric c \<or> c \<in> set ''-_.:''"

definition settings_validate :: "model_budget_settings \<Rightarrow> (string, unit) result" where
  "settings_validate s =
     (if ms_max_output s = 0 \<or> unat (ms_max_output s) > 1000000
      then Inl ''model_budget.max_output_tokens must be within 1..=1000000''
      else if limit_bad (ms_max_calls s) then Inl ''model_budget.max_calls must be within 1..=i64::MAX''
      else if limit_bad (ms_max_tokens s) then Inl ''model_budget.max_tokens must be within 1..=i64::MAX''
      else if limit_bad (ms_max_cost s) then Inl ''model_budget.max_cost_microusd must be within 1..=i64::MAX''
      else case ms_scope_id s of
        Some scope \<Rightarrow>
          if scope = [] \<or> utf8_len scope > 128 \<or> \<not> list_all scope_char scope
          then Inl ''model_budget.scope_id must contain 1..=128 ASCII letters, digits, or -_.:''
          else if \<not> settings_enabled s then Inl ''model_budget.scope_id requires at least one spending limit''
          else Inr ()
      | None \<Rightarrow>
          if settings_enabled s then Inl ''model_budget.scope_id is required when a limit is configured''
          else Inr ())"

section \<open>Pricing\<close>

definition u128_max :: nat where
  "u128_max = 2 ^ 128 - 1"

text \<open>The rate in whole microdollars per 1000 tokens, rounded up; \<open>None\<close> when it is out of range.\<close>

definition micro_rate :: "f64 \<Rightarrow> nat option" where
  "micro_rate rate = (let r = f_ceil (f_mul rate (f_of_nat 1000000)) in
     if \<not> f_is_finite r \<or> f_less r f_zero \<or> \<not> f_less r (Fin False 1 63) then None else Some (f_to_nat r))"

definition price_charge :: "int \<Rightarrow> f64 \<Rightarrow> int option" where
  "price_charge tokens rate = (case micro_rate rate of
     None \<Rightarrow> None
   | Some r \<Rightarrow>
       if tokens < 0 then None
       else if nat tokens * r > u128_max then None
       else try_i64 (int ((nat tokens * r + 999) div 1000)))"

definition price :: "int \<Rightarrow> int \<Rightarrow> f64 \<Rightarrow> f64 \<Rightarrow> (string, int) result" where
  "price i out ir outr = ok_or ''cost_allowance_overflow''
     (Option.bind (price_charge i ir) (\<lambda>a. Option.bind (price_charge out outr) (\<lambda>b. checked_add_i64 a b)))"

section \<open>The controller\<close>

record budget_controller =
  bk_settings :: "(string, model_budget_settings) result"
  bk_store :: "(string, unit) result"

definition denied :: "budget_controller \<Rightarrow> string \<Rightarrow> provider_error" where
  "denied k reason = ModelBudgetDenied
     (case bk_settings k of
        Inr s \<Rightarrow> (case ms_scope_id s of Some sc \<Rightarrow> sc | None \<Rightarrow> ''configuration'')
      | Inl _ \<Rightarrow> ''configuration'') reason"

definition controller_store :: "budget_controller \<Rightarrow> (provider_error, unit) result" where
  "controller_store k = (case bk_store k of
     Inr u \<Rightarrow> Inr () | Inl e \<Rightarrow> Inl (denied k (''accounting_unavailable: '' @ e)))"

definition controller_settings :: "budget_controller \<Rightarrow> (provider_error, model_budget_settings) result" where
  "controller_settings k = (case bk_settings k of
     Inr s \<Rightarrow> Inr s | Inl e \<Rightarrow> Inl (denied k (''invalid_configuration: '' @ e)))"

text \<open>\<^verbatim>\<open>budget_providers\<close> and \<^verbatim>\<open>configured_budget_providers\<close>: the controller that wraps the
  providers, or \<open>None\<close> when they are returned as they are.\<close>

definition budget_providers :: "model_budget_settings \<Rightarrow> (string, budget_controller option) result" where
  "budget_providers s = (case settings_validate s of
     Inl e \<Rightarrow> Inl e
   | Inr _ \<Rightarrow> if \<not> settings_enabled s then Inr None else Inr (Some \<lparr>bk_settings = Inr s, bk_store = Inr ()\<rparr>))"

definition configured_budget_providers ::
  "(string, model_budget_settings) result \<Rightarrow> (string, unit) result \<Rightarrow> budget_controller option" where
  "configured_budget_providers settings connect =
     (case settings of
        Inr s \<Rightarrow> if \<not> settings_enabled s then None else Some \<lparr>bk_settings = settings, bk_store = connect\<rparr>
      | Inl _ \<Rightarrow> Some \<lparr>bk_settings = settings, bk_store = connect\<rparr>)"

definition model_budget_status ::
  "(string, model_budget_settings) result \<Rightarrow> (string, unit) result \<Rightarrow> budget_db \<Rightarrow> (string, budget_snapshot option) result" where
  "model_budget_status settings connect db = bind_result settings (\<lambda>s. case ms_scope_id s of
     None \<Rightarrow> Inr None
   | Some sc \<Rightarrow> bind_result connect (\<lambda>_. Inr (model_budget_snapshot db sc)))"

section \<open>Reserve, settle\<close>

record attempt =
  an_id :: string
  an_input_price :: f64
  an_output_price :: f64
  an_priced :: bool

definition is_priced :: "provider_metadata \<Rightarrow> bool" where
  "is_priced m \<longleftrightarrow> f_is_finite (pm_cost_in m) \<and> f_less f_zero (pm_cost_in m)
     \<and> f_is_finite (pm_cost_out m) \<and> f_less f_zero (pm_cost_out m)"

definition unbounded_parameters :: "model_budget_settings \<Rightarrow> provider_metadata \<Rightarrow> chat_request \<Rightarrow> bool" where
  "unbounded_parameters s m r \<longleftrightarrow> (ms_max_tokens s \<noteq> None \<or> ms_max_cost s \<noteq> None)
     \<and> (cr_mode r \<noteq> TextChat
        \<or> (case cr_model r of Some md \<Rightarrow> md \<noteq> pm_model m | None \<Rightarrow> False)
        \<or> \<not> (cr_extra r = JNull \<or> cr_extra r = JObject []))"

definition output_allowance :: "model_budget_settings \<Rightarrow> chat_request \<Rightarrow> u32" where
  "output_allowance s r = (case cr_max_tokens r of None \<Rightarrow> ms_max_output s | Some l \<Rightarrow> min l (ms_max_output s))"

definition try_limit :: "u64 option \<Rightarrow> (string, int option) result" where
  "try_limit l = (case l of None \<Rightarrow> Inr None
     | Some v \<Rightarrow> if uint v \<le> i64_max then Inr (Some (uint v))
                 else Inl ''out of range integral type conversion attempted'')"

definition budget_reserve ::
  "(model_budget_settings \<Rightarrow> (string, string) result) \<Rightarrow> (storage_error \<Rightarrow> string) \<Rightarrow> budget_controller
    \<Rightarrow> provider_metadata \<Rightarrow> chat_request \<Rightarrow> string \<Rightarrow> budget_db
    \<Rightarrow> budget_db \<times> (provider_error, chat_request \<times> attempt) result" where
  "budget_reserve to_json show_err k m r uid db =
     (case controller_settings k of
        Inl e \<Rightarrow> (db, Inl e)
      | Inr s \<Rightarrow>
          if unbounded_parameters s m r then (db, Inl (denied k ''unbounded_request_parameters''))
          else if ms_max_cost s \<noteq> None \<and> \<not> is_priced m then (db, Inl (denied k ''unknown_pricing''))
          else
            let out = output_allowance s r in
            if out = 0 \<or> pm_context_window m = 0 then (db, Inl (denied k ''unbounded_token_allowance''))
            else case try_i64 (uint (pm_context_window m)) of
              None \<Rightarrow> (db, Inl (denied k ''token_allowance_overflow''))
            | Some inp \<Rightarrow>
                (case (if is_priced m then price inp (uint out) (pm_cost_in m) (pm_cost_out m) else Inr 0) of
                   Inl reason \<Rightarrow> (db, Inl (denied k reason))
                 | Inr cost \<Rightarrow>
                     (case ms_scope_id s of
                        None \<Rightarrow> (db, Inl (denied k ''missing_scope''))
                      | Some sc \<Rightarrow>
                          (case bind_result (to_json s) (\<lambda>js.
                                  bind_result (try_limit (ms_max_calls s)) (\<lambda>mc.
                                  bind_result (try_limit (ms_max_tokens s)) (\<lambda>mt.
                                  bind_result (try_limit (ms_max_cost s)) (\<lambda>mm.
                                    Inr \<lparr>bp_scope = sc, bp_json = js, bp_max_calls = mc,
                                         bp_max_tokens = mt, bp_max_cost = mm\<rparr>)))) of
                             Inl e \<Rightarrow> (db, Inl (denied k e))
                           | Inr pol \<Rightarrow>
                               (case controller_store k of
                                  Inl e \<Rightarrow> (db, Inl e)
                                | Inr _ \<Rightarrow>
                                    (case reserve_model_budget db pol
                                            \<lparr>bc_provider = pm_id m, bc_model = pm_model m, bc_input = inp,
                                             bc_output = uint out, bc_cost = cost\<rparr> uid of
                                       (db', Inl e) \<Rightarrow> (db', Inl (denied k (''reservation_failed: '' @ show_err e)))
                                     | (db', Inr (AdmDenied reason)) \<Rightarrow> (db', Inl (denied k reason))
                                     | (db', Inr (AdmReserved i)) \<Rightarrow>
                                         (db', Inr (r\<lparr>cr_max_tokens := Some out\<rparr>,
                                            \<lparr>an_id = i, an_input_price = pm_cost_in m,
                                             an_output_price = pm_cost_out m, an_priced = is_priced m\<rparr>))))))))"

definition usage_counts :: "token_usage \<Rightarrow> bool" where
  "usage_counts u \<longleftrightarrow> tu_source u = ProviderReported \<and> tu_input u \<noteq> 0 \<and> tu_output u \<noteq> 0"

text \<open>Billable input: cache counters are added, whether or not they are included already.\<close>

definition opt_tokens :: "u32 option \<Rightarrow> int" where
  "opt_tokens o' = (case o' of None \<Rightarrow> 0 | Some v \<Rightarrow> uint v)"

definition billable_input :: "token_usage \<Rightarrow> int" where
  "billable_input u = uint (tu_input u) + opt_tokens (tu_cache_read u) + opt_tokens (tu_cache_write u)"

definition budget_settle ::
  "(storage_error \<Rightarrow> string) \<Rightarrow> budget_controller \<Rightarrow> attempt \<Rightarrow> token_usage \<Rightarrow> budget_db \<Rightarrow> budget_db \<times> (provider_error, unit) result" where
  "budget_settle show_err k a u db =
     (if \<not> usage_counts u then (db, Inr ())
      else case (if an_priced a then price (billable_input u) (uint (tu_output u)) (an_input_price a) (an_output_price a)
                 else Inr 0) of
        Inl reason \<Rightarrow> (db, Inl (denied k reason))
      | Inr cost \<Rightarrow>
          (case controller_store k of
             Inl e \<Rightarrow> (db, Inl e)
           | Inr _ \<Rightarrow>
               (case settle_model_budget db (an_id a) (billable_input u) (uint (tu_output u)) cost of
                  (db', Inl e) \<Rightarrow> (db', Inl (denied k (''settlement_failed: '' @ show_err e)))
                | (db', Inr within) \<Rightarrow>
                    (db', if within then Inr () else Inl (denied k ''usage_exceeded_reservation'')))))"

section \<open>The decorated calls\<close>

text \<open>The result carries the requests that reached the wrapped provider.\<close>

definition budgeted_chat_completion ::
  "(model_budget_settings \<Rightarrow> (string, string) result) \<Rightarrow> (storage_error \<Rightarrow> string) \<Rightarrow> budget_controller
    \<Rightarrow> provider_metadata \<Rightarrow> (chat_request \<Rightarrow> (provider_error, chat_response) result) \<Rightarrow> chat_request \<Rightarrow> string \<Rightarrow> budget_db
    \<Rightarrow> budget_db \<times> chat_request list \<times> (provider_error, chat_response) result" where
  "budgeted_chat_completion to_json show_err k m inner r uid db =
     (case budget_reserve to_json show_err k m r uid db of
        (db1, Inl e) \<Rightarrow> (db1, [], Inl e)
      | (db1, Inr (r', a)) \<Rightarrow>
          (case inner r' of
             Inl e \<Rightarrow> (db1, [r'], Inl e)
           | Inr resp \<Rightarrow>
               (case budget_settle show_err k a (cs_usage resp) db1 of
                  (db2, Inl e) \<Rightarrow> (db2, [r'], Inl e)
                | (db2, Inr _) \<Rightarrow> (db2, [r'], Inr resp))))"

text \<open>
  The stream wrapper: its state is the attempt still to settle, the last usage seen and whether
  an item failed. At the end of the inner stream it settles once; a settlement error is one more
  item. The items are \<open>Inr\<close> a chunk's usage or \<open>Inl\<close> an error.
\<close>

type_synonym budget_stream_item = "(provider_error, token_usage option) result"

record budget_stream =
  st_attempt :: "attempt option"
  st_usage :: "token_usage option"
  st_failed :: bool

definition stream_on_item :: "budget_stream \<Rightarrow> budget_stream_item \<Rightarrow> budget_stream" where
  "stream_on_item st item = (case item of
     Inr (Some u) \<Rightarrow> st\<lparr>st_usage := Some u\<rparr>
   | Inr None \<Rightarrow> st
   | Inl _ \<Rightarrow> st\<lparr>st_failed := True\<rparr>)"

definition stream_on_end ::
  "(storage_error \<Rightarrow> string) \<Rightarrow> budget_controller \<Rightarrow> budget_stream \<Rightarrow> budget_db
    \<Rightarrow> budget_db \<times> budget_stream \<times> budget_stream_item option" where
  "stream_on_end show_err k st db =
     (if st_failed st then (db, st, None)
      else case (st_attempt st, st_usage st) of
        (Some a, Some u) \<Rightarrow>
          (case budget_settle show_err k a u db of
             (db', Inl e) \<Rightarrow> (db', \<lparr>st_attempt = None, st_usage = None, st_failed = True\<rparr>, Some (Inl e))
           | (db', Inr _) \<Rightarrow> (db', st\<lparr>st_attempt := None\<rparr>, None))
      | _ \<Rightarrow> (db, st\<lparr>st_attempt := None\<rparr>, None))"

definition run_stream ::
  "(storage_error \<Rightarrow> string) \<Rightarrow> budget_controller \<Rightarrow> attempt \<Rightarrow> budget_stream_item list \<Rightarrow> budget_db \<Rightarrow> budget_db \<times> budget_stream_item option" where
  "run_stream show_err k a items db =
     (let st = foldl stream_on_item \<lparr>st_attempt = Some a, st_usage = None, st_failed = False\<rparr> items;
          (db', _, extra) = stream_on_end show_err k st db
      in (db', extra))"

section \<open>Pricing lemmas\<close>

lemma price_charge_mono:
  assumes "price_charge t' rate = Some c'" "0 \<le> t" "t \<le> t'"
  shows "\<exists>c. price_charge t rate = Some c \<and> 0 \<le> c \<and> c \<le> c'"
proof -
  obtain r where r: "micro_rate rate = Some r" using assms(1) by (auto simp: price_charge_def split: option.splits)
  have le: "nat t * r \<le> nat t' * r" using assms(3) by (simp add: nat_mono)
  then have "(nat t * r + 999) div 1000 \<le> (nat t' * r + 999) div 1000" by (intro div_le_mono) simp
  then have "int ((nat t * r + 999) div 1000) \<le> c'"
    using assms(1) r by (auto simp: price_charge_def split: if_splits)
  moreover have "in_i64 (int ((nat t * r + 999) div 1000))"
    using calculation assms(1) r
    by (auto simp: price_charge_def in_i64_def i64_min_def split: if_splits)
  ultimately show ?thesis
    using assms(1,2) r order_trans [OF le, of u128_max] by (auto simp: price_charge_def not_less split: if_splits)
qed

lemma price_mono:
  assumes "price i' out' ir outr = Inr c'" "0 \<le> i" "i \<le> i'" "0 \<le> out" "out \<le> out'"
  shows "\<exists>c. price i out ir outr = Inr c \<and> 0 \<le> c \<and> c \<le> c'"
proof -
  obtain a' b' where c': "price_charge i' ir = Some a'" "price_charge out' outr = Some b'" "in_i64 (a' + b')" "c' = a' + b'"
    using assms(1) by (auto simp: price_def bind_eq_Some_conv)
  obtain a where a: "price_charge i ir = Some a" "0 \<le> a" "a \<le> a'" using price_charge_mono [OF c'(1) assms(2,3)] by auto
  obtain b where b: "price_charge out outr = Some b" "0 \<le> b" "b \<le> b'" using price_charge_mono [OF c'(2) assms(4,5)] by auto
  have "in_i64 (a + b)" using a b c'(3) by (simp add: in_i64_def i64_min_def)
  with a b c'(4) show ?thesis by (simp add: price_def)
qed

section \<open>What a reservation does\<close>

definition settings_policy :: "model_budget_settings \<Rightarrow> string \<Rightarrow> string \<Rightarrow> budget_policy" where
  "settings_policy s sc js = \<lparr>bp_scope = sc, bp_json = js, bp_max_calls = map_option uint (ms_max_calls s),
     bp_max_tokens = map_option uint (ms_max_tokens s), bp_max_cost = map_option uint (ms_max_cost s)\<rparr>"

lemma try_limit_Inr: "try_limit l = Inr v \<Longrightarrow> v = map_option uint l"
  by (auto simp: try_limit_def split: option.splits if_splits)

text \<open>Either the database is untouched, or the store was asked with the policy of the settings.\<close>

lemma budget_reserve_cases:
  assumes "budget_reserve to_json show_err k m r uid db = (db', res)"
  obtains (refused) e where "db' = db" "res = Inl e"
    | (asked) s sc js c ad where "bk_settings k = Inr s" "ms_scope_id s = Some sc" "to_json s = Inr js"
        "reserve_model_budget db (settings_policy s sc js) c uid = (db', ad)"
        "c = \<lparr>bc_provider = pm_id m, bc_model = pm_model m, bc_input = uint (pm_context_window m),
              bc_output = uint (output_allowance s r), bc_cost = bc_cost c\<rparr>"
        "if is_priced m then price (bc_input c) (bc_output c) (pm_cost_in m) (pm_cost_out m) = Inr (bc_cost c) else bc_cost c = 0"
        "output_allowance s r \<noteq> 0" "bk_store k = Inr ()"
        "res = (case ad of Inl e \<Rightarrow> Inl (denied k (''reservation_failed: '' @ show_err e))
           | Inr (AdmDenied reason) \<Rightarrow> Inl (denied k reason)
           | Inr (AdmReserved i) \<Rightarrow> Inr (r\<lparr>cr_max_tokens := Some (output_allowance s r)\<rparr>,
               \<lparr>an_id = i, an_input_price = pm_cost_in m, an_output_price = pm_cost_out m, an_priced = is_priced m\<rparr>))"
proof (cases "\<exists>e. db' = db \<and> res = Inl e")
  case True
  with refused show thesis by blast
next
  case False
  note D0 = assms [unfolded budget_reserve_def]
  obtain s where s: "controller_settings k = Inr s" using D0 False by (auto split: sum.splits)
  have s': "bk_settings k = Inr s" using s by (auto simp: controller_settings_def split: sum.splits)
  note D1 = D0 [unfolded s sum.case Let_def]
  have g: "unbounded_parameters s m r = False" "(ms_max_cost s \<noteq> None \<and> \<not> is_priced m) = False"
    "(output_allowance s r = 0 \<or> pm_context_window m = 0) = False"
    using D1 False by (auto split: if_splits)
  note D2 = D1 [unfolded g if_False]
  obtain inp where inp: "try_i64 (uint (pm_context_window m)) = Some inp"
    using D2 False by (cases "try_i64 (uint (pm_context_window m))") auto
  then have inp': "inp = uint (pm_context_window m)" by simp
  note D3 = D2 [unfolded inp option.case]
  obtain cost where cost: "(if is_priced m then price inp (uint (output_allowance s r)) (pm_cost_in m) (pm_cost_out m) else Inr 0) = Inr cost"
    using D3 False by (cases "if is_priced m then price inp (uint (output_allowance s r)) (pm_cost_in m) (pm_cost_out m) else Inr 0") auto
  note D4 = D3 [unfolded cost sum.case]
  obtain sc where sc: "ms_scope_id s = Some sc" using D4 False by (cases "ms_scope_id s") auto
  note D5 = D4 [unfolded sc option.case]
  obtain js where js: "to_json s = Inr js" using D5 False by (cases "to_json s") auto
  obtain mc where mc: "try_limit (ms_max_calls s) = Inr mc"
    using D5 False js by (cases "try_limit (ms_max_calls s)") auto
  obtain mt where mt: "try_limit (ms_max_tokens s) = Inr mt"
    using D5 False js mc by (cases "try_limit (ms_max_tokens s)") auto
  obtain mm where mm: "try_limit (ms_max_cost s) = Inr mm"
    using D5 False js mc mt by (cases "try_limit (ms_max_cost s)") auto
  note D6 = D5 [unfolded js mc mt mm bind_result_Inr sum.case]
  obtain u where st: "controller_store k = Inr u" using D6 False by (cases "controller_store k") auto
  note D = D6 [unfolded st sum.case]
  have st': "bk_store k = Inr ()" using st by (auto simp: controller_store_def split: sum.splits)
  let ?c = "\<lparr>bc_provider = pm_id m, bc_model = pm_model m, bc_input = inp, bc_output = uint (output_allowance s r), bc_cost = cost\<rparr>"
  have pol: "\<lparr>bp_scope = sc, bp_json = js, bp_max_calls = mc, bp_max_tokens = mt, bp_max_cost = mm\<rparr> = settings_policy s sc js"
    using mc mt mm by (simp add: settings_policy_def try_limit_Inr)
  obtain db1 ad where a: "reserve_model_budget db (settings_policy s sc js) ?c uid = (db1, ad)" by fastforce
  have D': "(case (db1, ad) of
       (db', Inl e) \<Rightarrow> (db', Inl (denied k (''reservation_failed: '' @ show_err e)))
     | (db', Inr (AdmDenied reason)) \<Rightarrow> (db', Inl (denied k reason))
     | (db', Inr (AdmReserved i)) \<Rightarrow> (db', Inr (r\<lparr>cr_max_tokens := Some (output_allowance s r)\<rparr>,
           \<lparr>an_id = i, an_input_price = pm_cost_in m, an_output_price = pm_cost_out m, an_priced = is_priced m\<rparr>))) = (db', res)"
    using D unfolding pol a .
  show thesis
  proof (rule asked [OF s' sc js, of ?c ad])
    show "reserve_model_budget db (settings_policy s sc js) ?c uid = (db', ad)"
      using a D' by (auto split: sum.splits admission.splits)
    show "res = (case ad of Inl e \<Rightarrow> Inl (denied k (''reservation_failed: '' @ show_err e))
           | Inr (AdmDenied reason) \<Rightarrow> Inl (denied k reason)
           | Inr (AdmReserved i) \<Rightarrow> Inr (r\<lparr>cr_max_tokens := Some (output_allowance s r)\<rparr>,
               \<lparr>an_id = i, an_input_price = pm_cost_in m, an_output_price = pm_cost_out m, an_priced = is_priced m\<rparr>))"
      using D' by (auto split: sum.splits admission.splits)
  qed (use inp' cost g st' in \<open>auto split: if_splits\<close>)
qed

section \<open>Service runs are store runs\<close>

text \<open>
  One call of one decorated provider. Any mix of controllers, providers, requests and backend
  answers may share the database.
\<close>

record service_call =
  sv_controller :: budget_controller
  sv_meta :: provider_metadata
  sv_inner :: "chat_request \<Rightarrow> (provider_error, chat_response) result"
  sv_request :: chat_request
  sv_uuid :: string

definition service_step ::
  "(model_budget_settings \<Rightarrow> (string, string) result) \<Rightarrow> (storage_error \<Rightarrow> string) \<Rightarrow> budget_db \<Rightarrow> service_call \<Rightarrow> budget_db" where
  "service_step to_json show_err db c = fst (budgeted_chat_completion to_json show_err (sv_controller c) (sv_meta c)
     (sv_inner c) (sv_request c) (sv_uuid c) db)"

text \<open>What the accounting relies on from \<^verbatim>\<open>serde_json\<close>: the text of the settings determines the
  limits in them.\<close>

definition json_faithful :: "(model_budget_settings \<Rightarrow> (string, string) result) \<Rightarrow> budget_limits \<Rightarrow> bool" where
  "json_faithful to_json lim \<longleftrightarrow> (\<forall>s js. to_json s = Inr js \<longrightarrow>
     lim js = (map_option uint (ms_max_calls s), map_option uint (ms_max_tokens s), map_option uint (ms_max_cost s)))"

lemma settings_policy_of:
  "json_faithful to_json lim \<Longrightarrow> to_json s = Inr js \<Longrightarrow> settings_policy s sc js = policy_of lim sc js"
  by (simp add: json_faithful_def settings_policy_def policy_of_def)

lemma reserve_is_ops:
  assumes "json_faithful to_json lim" "budget_reserve to_json show_err k m r uid db = (db', res)"
  shows "\<exists>ops. db' = foldl (budget_step lim) db ops"
  using assms(2)
proof (cases rule: budget_reserve_cases)
  case (refused e)
  then show ?thesis by (intro exI [of _ "[]"]) simp
next
  case (asked s sc js c ad)
  then show ?thesis
    using settings_policy_of [OF assms(1) asked(3), of sc]
    by (intro exI [of _ "[OpReserve sc js c uid]"]) simp
qed

lemma budget_settle_db:
  "fst (budget_settle show_err k a u db) = db
   \<or> (\<exists>cost. fst (budget_settle show_err k a u db)
        = fst (settle_model_budget db (an_id a) (billable_input u) (uint (tu_output u)) cost))"
proof (cases "usage_counts u")
  case True
  let ?p = "if an_priced a then price (billable_input u) (uint (tu_output u)) (an_input_price a) (an_output_price a) else Inr 0"
  show ?thesis
  proof (cases ?p)
    case (Inl e)
    then show ?thesis using True by (simp add: budget_settle_def)
  next
    case (Inr cost)
    have "fst (budget_settle show_err k a u db) = db \<or> fst (budget_settle show_err k a u db)
        = fst (settle_model_budget db (an_id a) (billable_input u) (uint (tu_output u)) cost)"
      using True Inr by (cases "controller_store k") (simp_all add: budget_settle_def split: prod.split sum.split)
    then show ?thesis by blast
  qed
qed (simp add: budget_settle_def)

lemma settle_is_ops:
  "\<exists>ops. fst (budget_settle show_err k a u db) = foldl (budget_step lim) db ops"
proof -
  consider "fst (budget_settle show_err k a u db) = db"
    | cost where "fst (budget_settle show_err k a u db)
        = fst (settle_model_budget db (an_id a) (billable_input u) (uint (tu_output u)) cost)"
    using budget_settle_db by blast
  then show ?thesis
  proof cases
    case 1
    then show ?thesis by (intro exI [of _ "[]"]) simp
  next
    case (2 cost)
    then show ?thesis
      by (intro exI [of _ "[OpSettle (an_id a) (billable_input u) (uint (tu_output u)) cost]"]) simp
  qed
qed

text \<open>A decorated call is its reservation, at most one dispatch, and at most one settlement.\<close>

lemma budgeted_cases:
  assumes "budget_reserve to_json show_err k m r uid db = (db1, res)"
    and "budgeted_chat_completion to_json show_err k m inner r uid db = (db', sent, out)"
  obtains (refused) e where "res = Inl e" "db' = db1" "sent = []" "out = Inl e"
    | (failed) r' a e where "res = Inr (r', a)" "inner r' = Inl e" "db' = db1" "sent = [r']" "out = Inl e"
    | (answered) r' a resp where "res = Inr (r', a)" "inner r' = Inr resp" "sent = [r']"
        "db' = fst (budget_settle show_err k a (cs_usage resp) db1)"
        "out = (case snd (budget_settle show_err k a (cs_usage resp) db1) of Inl e \<Rightarrow> Inl e | Inr _ \<Rightarrow> Inr resp)"
proof (cases res)
  case (Inl e)
  with assms show ?thesis by (intro refused) (auto simp: budgeted_chat_completion_def)
next
  case (Inr ra)
  obtain r' a where ra: "ra = (r', a)" by fastforce
  show ?thesis
  proof (cases "inner r'")
    case (Inl e)
    with assms Inr ra show ?thesis by (intro failed [of r' a e]) (simp_all add: budgeted_chat_completion_def)
  next
    case (Inr resp)
    obtain db2 sr where sr: "budget_settle show_err k a (cs_usage resp) db1 = (db2, sr)" by fastforce
    show ?thesis
      using assms \<open>res = Inr ra\<close> ra Inr sr
      by (intro answered) (auto simp: budgeted_chat_completion_def split: sum.splits)
  qed
qed

lemma service_step_is_ops:
  assumes "json_faithful to_json lim"
  shows "\<exists>ops. service_step to_json show_err db c = foldl (budget_step lim) db ops"
proof -
  obtain db1 res where r: "budget_reserve to_json show_err (sv_controller c) (sv_meta c) (sv_request c) (sv_uuid c) db = (db1, res)"
    by fastforce
  then obtain ops1 where o1: "db1 = foldl (budget_step lim) db ops1" using reserve_is_ops [OF assms] by blast
  show ?thesis
  proof (cases "service_step to_json show_err db c = db1")
    case True
    with o1 show ?thesis by auto
  next
    case False
    obtain db' sent out where b: "budgeted_chat_completion to_json show_err (sv_controller c) (sv_meta c)
        (sv_inner c) (sv_request c) (sv_uuid c) db = (db', sent, out)" by (metis prod_cases3)
    from r b obtain a u where "service_step to_json show_err db c = fst (budget_settle show_err (sv_controller c) a u db1)"
      by (cases rule: budgeted_cases) (use False b in \<open>auto simp: service_step_def\<close>)
    with settle_is_ops [of show_err "sv_controller c" a u db1 lim]
    obtain ops2 where "service_step to_json show_err db c = foldl (budget_step lim) db1 ops2" by auto
    with o1 have "service_step to_json show_err db c = foldl (budget_step lim) db (ops1 @ ops2)" by simp
    then show ?thesis by blast
  qed
qed

lemma service_run_is_store_run:
  assumes "json_faithful to_json lim"
  shows "\<exists>ops. foldl (service_step to_json show_err) db cs = foldl (budget_step lim) db ops"
proof (induction cs arbitrary: db)
  case Nil
  show ?case by (intro exI [of _ "[]"]) simp
next
  case (Cons c cs)
  obtain ops1 where "service_step to_json show_err db c = foldl (budget_step lim) db ops1"
    using service_step_is_ops [OF assms] by blast
  moreover obtain ops2 where "foldl (service_step to_json show_err) (service_step to_json show_err db c) cs
      = foldl (budget_step lim) (service_step to_json show_err db c) ops2" using Cons.IH by blast
  ultimately have "foldl (service_step to_json show_err) db (c # cs) = foldl (budget_step lim) db (ops1 @ ops2)" by simp
  then show ?case by blast
qed

text \<open>A reservation is in the ledger, and a settlement does not take it out.\<close>

definition committed :: "budget_db \<Rightarrow> budget_db \<Rightarrow> string \<Rightarrow> string \<Rightarrow> int \<Rightarrow> int \<Rightarrow> bool" where
  "committed db db' uid sc i out \<longleftrightarrow> find_attempt db uid = None \<and> (\<exists>a. find_attempt db' uid = Some a
     \<and> at_scope a = sc \<and> at_reserved_input a = i \<and> at_reserved_output a = out)"

lemma find_append: "find P (xs @ ys) = (case find P xs of None \<Rightarrow> find P ys | Some x \<Rightarrow> Some x)"
  by (induction xs) auto

lemma reserve_attempt:
  assumes "reserve_model_budget db p c uid = (db1, Inr (AdmReserved i))"
  shows "i = uid" "find_attempt db uid = None" "find_attempt db1 uid = Some (new_attempt uid p c)"
proof -
  note sh = reserve_Reserved [OF assms]
  show "i = uid" by (rule sh(1))
  show n: "find_attempt db uid = None" using sh(3) by (simp add: find_attempt_None)
  show "find_attempt db1 uid = Some (new_attempt uid p c)"
    using n sh(2) by (simp add: find_attempt_def find_append new_attempt_def)
qed

lemma reserve_committed:
  assumes "budget_reserve to_json show_err k m r uid db = (db1, rs)" "rs = Inr (r', an)"
  obtains s sc where "bk_settings k = Inr s" "ms_scope_id s = Some sc" "output_allowance s r \<noteq> 0"
    "r' = r\<lparr>cr_max_tokens := Some (output_allowance s r)\<rparr>"
    "committed db db1 uid sc (uint (pm_context_window m)) (uint (output_allowance s r))"
  using assms(1)
proof (cases rule: budget_reserve_cases)
  case (refused e)
  with assms(2) show thesis by simp
next
  case (asked s sc js c ad)
  obtain i where ad: "ad = Inr (AdmReserved i)" and r': "r' = r\<lparr>cr_max_tokens := Some (output_allowance s r)\<rparr>"
    using asked(9) assms(2) by (auto split: sum.splits admission.splits)
  note ra = reserve_attempt [OF asked(4) [unfolded ad]]
  have c: "bc_input c = uint (pm_context_window m)" "bc_output c = uint (output_allowance s r)"
    by (subst asked(5), simp)+
  have "committed db db1 uid sc (uint (pm_context_window m)) (uint (output_allowance s r))"
    using ra c by (simp add: committed_def new_attempt_def settings_policy_def)
  with asked(1,2,7) r' show thesis by (intro that)
qed

lemma find_update_attempt:
  assumes "\<And>x. at_id (f x) = at_id x"
  shows "find (\<lambda>a. at_id a = uid) (update_attempt uid' f as)
    = map_option (\<lambda>a. if at_id a = uid' then f a else a) (find (\<lambda>a. at_id a = uid) as)"
  using assms by (induction as) (auto simp: update_attempt_def)

lemma settle_keeps_attempt:
  assumes "find_attempt db uid = Some a"
  shows "\<exists>a'. find_attempt (fst (settle_model_budget db uid' i out cost)) uid = Some a'
     \<and> at_scope a' = at_scope a \<and> at_reserved_input a' = at_reserved_input a \<and> at_reserved_output a' = at_reserved_output a"
  using assms
  by (auto simp: settle_model_budget_def Let_def find_attempt_def find_update_attempt split: option.splits)

lemma committed_settle:
  "committed db db1 uid sc i out \<Longrightarrow> committed db (fst (budget_settle show_err k a u db1)) uid sc i out"
  using budget_settle_db [of show_err k a u db1] settle_keeps_attempt [of db1 uid]
  unfolding committed_def by metis

lemma output_allowance_le: "output_allowance s r \<le> ms_max_output s"
  by (simp add: output_allowance_def split: option.splits)

text \<open>A concrete call for the witnesses: two calls of at most ten thousand tokens allowed, a
  provider with a window of a hundred tokens and no price.\<close>

definition sample_settings :: model_budget_settings where
  "sample_settings = \<lparr>ms_scope_id = Some ''w'', ms_max_calls = Some 2, ms_max_tokens = Some 10000,
     ms_max_cost = None, ms_max_output = 50\<rparr>"

definition sample_json :: "model_budget_settings \<Rightarrow> (string, string) result" where
  "sample_json s = (if s = sample_settings then Inr ''{}'' else Inl ''unused'')"

definition sample_limits :: budget_limits where
  "sample_limits js = (Some 2, Some 10000, None)"

definition sample_controller :: budget_controller where
  "sample_controller = \<lparr>bk_settings = Inr sample_settings, bk_store = Inr ()\<rparr>"

definition small_model :: provider_metadata where
  "small_model = \<lparr>pm_id = ''p'', pm_model = ''m'', pm_tags = [], pm_max_concurrency = 1, pm_context_window = 100,
     pm_cost_in = f_zero, pm_cost_out = f_zero\<rparr>"

definition plain_request :: chat_request where
  "plain_request = \<lparr>cr_model = None, cr_mode = TextChat, cr_max_tokens = None, cr_temperature = None,
     cr_top_p = None, cr_extra = JNull, cr_payload = JNull\<rparr>"

definition sample_usage :: token_usage where
  "sample_usage = \<lparr>tu_input = 20, tu_output = 30, tu_cache_read = None, tu_cache_write = None, tu_source = ProviderReported\<rparr>"

definition sample_response :: chat_response where
  "sample_response = \<lparr>cs_usage = sample_usage, cs_provider_id = None, cs_body = JNull\<rparr>"

definition no_text :: "storage_error \<Rightarrow> string" where
  "no_text e = []"

definition sample_call :: service_call where
  "sample_call = \<lparr>sv_controller = sample_controller, sv_meta = small_model, sv_inner = (\<lambda>_. Inr sample_response),
     sv_request = plain_request, sv_uuid = ''a1''\<rparr>"

definition sample_reserved :: budget_db where
  "sample_reserved = \<lparr>db_scopes = [''w'' \<mapsto> \<lparr>bs_policy_json = ''{}'', bs_calls = 1, bs_tokens = 150, bs_cost = 0,
       bs_terminal_reason = None, bs_blocked = False\<rparr>],
     db_attempts = [\<lparr>at_id = ''a1'', at_scope = ''w'', at_provider = ''p'', at_model = ''m'', at_reserved_input = 100,
       at_reserved_output = 50, at_reserved_cost = 0, at_observed = None, at_state = AttReserved\<rparr>]\<rparr>"

definition sample_attempt :: attempt where
  "sample_attempt = \<lparr>an_id = ''a1'', an_input_price = f_zero, an_output_price = f_zero, an_priced = False\<rparr>"

lemma small_model_unpriced: "\<not> is_priced small_model"
  by (simp add: is_priced_def small_model_def f_zero_def fin_over_def)

lemma sample_reserve:
  "budget_reserve sample_json no_text sample_controller small_model plain_request ''a1'' budget_db_empty
   = (sample_reserved, Inr (plain_request\<lparr>cr_max_tokens := Some 50\<rparr>, sample_attempt))"
  using small_model_unpriced
  by (simp add: budget_reserve_def sample_controller_def controller_settings_def unbounded_parameters_def
      sample_settings_def plain_request_def output_allowance_def small_model_def try_i64_def in_i64_def i64_max_def
      i64_min_def sample_json_def try_limit_def controller_store_def reserve_model_budget_def scope_row_def
      scope_default_def budget_db_empty_def denial_reason_def new_attempt_def checked_add_i64_def
      sample_reserved_def sample_attempt_def)

lemma sample_json_faithful: "json_faithful sample_json sample_limits"
  by (simp add: json_faithful_def sample_json_def sample_limits_def sample_settings_def)

lemma sample_store_open: "controller_store sample_controller = Inr ()"
  by (simp add: controller_store_def sample_controller_def)

lemma sample_service_step:
  "service_step sample_json no_text budget_db_empty sample_call
   = fst (settle_model_budget sample_reserved ''a1'' 20 30 0)"
  by (simp add: service_step_def sample_call_def budgeted_chat_completion_def sample_reserve sample_response_def
      budget_settle_def usage_counts_def sample_usage_def sample_attempt_def billable_input_def opt_tokens_def
      sample_store_open split: prod.split sum.split)

section \<open>Properties\<close>

text \<open>C4. End to end, spending stays within the configured limits: after any sequence of calls
  through any decorated providers on one database, a scope opened with the settings \<open>s\<close>
  shows at most the calls, tokens and cost \<open>s\<close> allows, unresolved reservations included.
  (The policy text determines the limits, which is what a lossless serialization gives.)\<close>

theorem spending_within_settings:
  assumes "json_faithful to_json lim"
    and "db = foldl (service_step to_json show_err) budget_db_empty cs"
    and "db_scopes db sc = Some row" "to_json s = Inr (bs_policy_json row)"
    and "model_budget_status (Inr (s\<lparr>ms_scope_id := Some sc\<rparr>)) (Inr ()) db = Inr (Some sn)"
  shows "under (sn_calls sn) (map_option uint (ms_max_calls s))
    \<and> under (sn_tokens sn) (map_option uint (ms_max_tokens s))
    \<and> under (sn_cost sn) (map_option uint (ms_max_cost s))"
proof -
  obtain ops where "db = budget_run lim ops"
    using service_run_is_store_run [OF assms(1), of show_err budget_db_empty cs] assms(2) by (auto simp: budget_run_def)
  then have "budget_inv lim db" using budget_run_inv by simp
  then have "scope_under lim row" using assms(3) by (simp add: budget_inv_def)
  moreover have "lim (bs_policy_json row) = (map_option uint (ms_max_calls s), map_option uint (ms_max_tokens s),
      map_option uint (ms_max_cost s))"
    using assms(1,4) by (simp add: json_faithful_def)
  ultimately show ?thesis
    using assms(3,5) by (auto simp: scope_under_def model_budget_status_def model_budget_snapshot_def)
qed

theorem spending_within_settings_witness:
  "\<exists>sn. model_budget_status (Inr sample_settings) (Inr ()) (foldl (service_step sample_json no_text) budget_db_empty [sample_call])
       = Inr (Some sn) \<and> under (sn_calls sn) (Some 2) \<and> under (sn_tokens sn) (Some 10000)"
proof -
  let ?db = "foldl (service_step sample_json no_text) budget_db_empty [sample_call]"
  obtain row where row: "db_scopes ?db ''w'' = Some row" "bs_policy_json row = ''{}''"
    by (simp add: sample_service_step sample_reserved_def settle_model_budget_def find_attempt_def
        within_reservation_def update_scope_def refund_scope_def)
  then obtain sn where sn: "model_budget_status (Inr (sample_settings\<lparr>ms_scope_id := Some ''w''\<rparr>)) (Inr ()) ?db = Inr (Some sn)"
    by (auto simp: model_budget_status_def model_budget_snapshot_def)
  have "under (sn_calls sn) (map_option uint (ms_max_calls sample_settings))
    \<and> under (sn_tokens sn) (map_option uint (ms_max_tokens sample_settings))
    \<and> under (sn_cost sn) (map_option uint (ms_max_cost sample_settings))"
    by (rule spending_within_settings [OF sample_json_faithful refl row(1) _ sn])
      (simp add: row(2) sample_json_def)
  with sn show ?thesis by (simp add: sample_settings_def)
qed

text \<open>C5. Nothing is dispatched without a committed reservation: a decorated call reaches the
  backend at most once; when it does, the request is the caller's with an explicit output cap
  within the settings, and a new attempt row that reserves the provider's whole context window
  and that cap, on the configured scope, is in the database.\<close>

theorem dispatch_only_after_reservation:
  assumes "budgeted_chat_completion to_json show_err k m inner r uid db = (db', sent, res)"
  shows "sent = [] \<or> (\<exists>s sc. bk_settings k = Inr s \<and> ms_scope_id s = Some sc
    \<and> sent = [r\<lparr>cr_max_tokens := Some (output_allowance s r)\<rparr>]
    \<and> 0 < output_allowance s r \<and> output_allowance s r \<le> ms_max_output s
    \<and> find_attempt db uid = None
    \<and> (\<exists>a. find_attempt db' uid = Some a \<and> at_scope a = sc
         \<and> at_reserved_input a = uint (pm_context_window m) \<and> at_reserved_output a = uint (output_allowance s r)))"
proof -
  obtain db1 rs where r: "budget_reserve to_json show_err k m r uid db = (db1, rs)" by fastforce
  show ?thesis
  proof (cases "\<exists>i. rs = Inr i")
    case False
    with r assms(1) show ?thesis by (cases rule: budgeted_cases) auto
  next
    case True
    then obtain r' an where rs: "rs = Inr (r', an)" by fastforce
    from r obtain s sc js c where st: "bk_settings k = Inr s" "ms_scope_id s = Some sc" "output_allowance s r \<noteq> 0"
      and r': "r' = r\<lparr>cr_max_tokens := Some (output_allowance s r)\<rparr>"
      and cr: "committed db db1 uid sc (uint (pm_context_window m)) (uint (output_allowance s r))"
      by (rule reserve_committed [OF _ rs]) blast
    have sent: "sent = [r']" using r assms(1) by (cases rule: budgeted_cases) (use rs in auto)
    have "committed db db' uid sc (uint (pm_context_window m)) (uint (output_allowance s r))"
      using r assms(1) by (cases rule: budgeted_cases) (use rs cr committed_settle in auto)
    then show ?thesis
      using st r' sent output_allowance_le [of s r] by (auto simp: committed_def word_gt_0)
  qed
qed

theorem dispatch_only_after_reservation_witness:
  "\<exists>db' sent res a. budgeted_chat_completion sample_json no_text sample_controller small_model (\<lambda>_. Inl Cancelled)
       plain_request ''a1'' budget_db_empty = (db', sent, res)
     \<and> length sent = 1 \<and> find_attempt db' ''a1'' = Some a \<and> at_reserved_output a = 50"
proof -
  have b: "budgeted_chat_completion sample_json no_text sample_controller small_model (\<lambda>_. Inl Cancelled)
       plain_request ''a1'' budget_db_empty = (sample_reserved, [plain_request\<lparr>cr_max_tokens := Some 50\<rparr>], Inl Cancelled)"
    by (simp add: budgeted_chat_completion_def sample_reserve)
  from dispatch_only_after_reservation [OF b] b show ?thesis
    by (auto simp: sample_controller_def output_allowance_def plain_request_def sample_settings_def)
qed

text \<open>C6. Accounting fails closed: with a configuration that does not load, the providers are
  still wrapped, and with it, as with a ledger that cannot be opened, a decorated call is refused
  before the backend sees anything and the database is unchanged.\<close>

theorem broken_accounting_fails_closed:
  "(\<exists>k. configured_budget_providers (Inl why) connect = Some k
      \<and> budgeted_chat_completion to_json show_err k m inner r uid db
          = (db, [], Inl (ModelBudgetDenied ''configuration'' (''invalid_configuration: '' @ why))))
   \<and> (settings_enabled s \<longrightarrow> (\<exists>k e. configured_budget_providers (Inr s) (Inl why) = Some k
      \<and> budgeted_chat_completion to_json show_err k m inner r uid db = (db, [], Inl e)))"
proof (intro conjI impI)
  show "\<exists>k. configured_budget_providers (Inl why) connect = Some k
      \<and> budgeted_chat_completion to_json show_err k m inner r uid db
          = (db, [], Inl (ModelBudgetDenied ''configuration'' (''invalid_configuration: '' @ why)))"
    by (simp add: configured_budget_providers_def budgeted_chat_completion_def budget_reserve_def
        controller_settings_def denied_def)
next
  assume en: "settings_enabled s"
  let ?k = "\<lparr>bk_settings = Inr s, bk_store = Inl why\<rparr>"
  obtain db1 res where rs: "budget_reserve to_json show_err ?k m r uid db = (db1, res)" by fastforce
  then have "\<exists>e. db1 = db \<and> res = Inl e"
    by (cases rule: budget_reserve_cases) auto
  with rs en show "\<exists>k e. configured_budget_providers (Inr s) (Inl why) = Some k
      \<and> budgeted_chat_completion to_json show_err k m inner r uid db = (db, [], Inl e)"
    by (auto simp: configured_budget_providers_def budgeted_chat_completion_def)
qed

theorem broken_accounting_fails_closed_witness:
  "\<exists>k e. configured_budget_providers (Inr sample_settings) (Inl ''disk'') = Some k
     \<and> budgeted_chat_completion sample_json no_text k small_model (\<lambda>_. Inr sample_response) plain_request ''a1'' budget_db_empty
       = (budget_db_empty, [], Inl e)"
  using broken_accounting_fails_closed [where s = sample_settings and why = "''disk''" and connect = "Inr ()"
      and to_json = sample_json and show_err = no_text and m = small_model and inner = "\<lambda>_. Inr sample_response"
      and r = plain_request and uid = "''a1''" and db = budget_db_empty]
  by (simp add: settings_enabled_def sample_settings_def)

text \<open>An honest provider never blocks its own scope: if the usage it reports (cache tokens
  added) fits the context window and the output cap it was sent, then settling the attempt right
  after its reservation succeeds, whatever prices are configured, because the reserved cost is
  the price of a larger usage.\<close>

theorem honest_usage_settles:
  assumes "accounts_ok db"
    and "budget_reserve to_json show_err k m r uid db = (db1, Inr (r', a))"
    and "billable_input u \<le> uint (pm_context_window m)"
    and "cr_max_tokens r' = Some out" "tu_output u \<le> out"
  shows "\<exists>db2. budget_settle show_err k a u db1 = (db2, Inr ())"
proof (cases "usage_counts u")
  case False
  then show ?thesis by (simp add: budget_settle_def)
next
  case counts: True
  from assms(2) show ?thesis
  proof (cases rule: budget_reserve_cases)
    case (asked s sc js c ad)
    obtain i where ad: "ad = Inr (AdmReserved i)"
      and a: "a = \<lparr>an_id = i, an_input_price = pm_cost_in m, an_output_price = pm_cost_out m, an_priced = is_priced m\<rparr>"
      and out: "out = output_allowance s r"
      using asked(9) assms(4) by (auto split: sum.splits admission.splits)
    note ra = reserve_attempt [OF asked(4) [unfolded ad]]
    have c: "bc_input c = uint (pm_context_window m)" "bc_output c = uint (output_allowance s r)"
      by (subst asked(5), simp)+
    have b0: "0 \<le> billable_input u" by (auto simp: billable_input_def opt_tokens_def split: option.splits)
    have o1: "uint (tu_output u) \<le> bc_output c" using assms(5) out c by (simp add: word_le_def)
    obtain cost where cost: "(if an_priced a then price (billable_input u) (uint (tu_output u)) (an_input_price a) (an_output_price a)
        else Inr 0) = Inr cost" "0 \<le> cost" "cost \<le> bc_cost c"
    proof (cases "is_priced m")
      case True
      with asked(6) have "price (bc_input c) (bc_output c) (pm_cost_in m) (pm_cost_out m) = Inr (bc_cost c)" by simp
      from price_mono [OF this b0 _ _ o1] assms(3) c True a show thesis by (auto intro: that)
    next
      case False
      with asked(6) a show thesis by (intro that [of 0]) auto
    qed
    have w: "within_reservation (new_attempt uid (settings_policy s sc js) c) (billable_input u) (uint (tu_output u)) cost"
      using b0 o1 assms(3) c cost by (simp add: within_reservation_def new_attempt_def)
    have ok1: "accounts_ok db1" by (rule reserve_accounts_ok [OF assms(1) asked(4)])
    obtain db2 res where st: "settle_model_budget db1 uid (billable_input u) (uint (tu_output u)) cost = (db2, res)" by fastforce
    have "res = Inr True"
      using ok1 st by (cases rule: settle_cases) (use ra w find_attempt_None [of db1 uid] in \<open>auto simp: new_attempt_def\<close>)
    moreover have "an_id a = uid" "controller_store k = Inr ()"
      using a ra(1) asked(8) by (simp_all add: controller_store_def)
    ultimately show ?thesis using st counts unfolding budget_settle_def cost(1) by simp
  qed simp
qed

theorem honest_usage_settles_witness:
  "\<exists>db2. budget_settle no_text sample_controller sample_attempt sample_usage sample_reserved = (db2, Inr ())"
  by (rule honest_usage_settles [OF accounts_ok_empty sample_reserve, where out = 50])
    (simp_all add: sample_usage_def billable_input_def opt_tokens_def small_model_def plain_request_def word_le_nat_alt)

end
