(* ===== verification/Provider_Freeze.thy ===== *)
theory Provider_Freeze
  imports Provider_Error
begin

text \<open>
  The freeze manager of one provider, \<^verbatim>\<open>crates/hf-provider/src/freeze.rs\<close>. Every method takes
  the lock once, except \<^verbatim>\<open>is_frozen\<close>, which reads, releases, and then takes the write lock in
  \<^verbatim>\<open>try_auto_thaw\<close>; other threads may act in between, so a run is a sequence of lock-protected
  events in any order. Clock readings (nanoseconds of the monotonic clock) are arguments.
  \<^verbatim>\<open>Instant + Duration\<close> panics past the range of the clock: \<open>freeze\<close> then reports
  \<open>False\<close> and keeps the fields it had already written (the lock is recovered from poisoning).
  The counter of consecutive freezes is a \<^verbatim>\<open>u32\<close> and wraps.
\<close>

type_synonym instant = nat

record freeze_state =
  fs_frozen :: bool
  fs_reason :: "string option"
  fs_frozen_at :: "instant option"
  fs_thaw_at :: "instant option"
  fs_consecutive :: u32
  fs_permanent :: bool

record freeze_manager =
  fm_state :: freeze_state
  fm_base_secs :: nat
  fm_max_secs :: nat

definition thawed_state :: freeze_state where
  "thawed_state = \<lparr>fs_frozen = False, fs_reason = None, fs_frozen_at = None, fs_thaw_at = None,
     fs_consecutive = 0, fs_permanent = False\<rparr>"

definition freeze_manager_new :: "nat \<Rightarrow> nat \<Rightarrow> freeze_manager" where
  "freeze_manager_new base mx = \<lparr>fm_state = thawed_state, fm_base_secs = base, fm_max_secs = mx\<rparr>"

text \<open>The clock counts seconds in an \<^verbatim>\<open>i64\<close>.\<close>

definition instant_limit :: instant where
  "instant_limit = secs (2 ^ 63)"

definition instant_add :: "instant \<Rightarrow> duration \<Rightarrow> instant option" where
  "instant_add t d = (if t + d < instant_limit then Some (t + d) else None)"

definition adaptive_duration :: "freeze_manager \<Rightarrow> u32 \<Rightarrow> duration" where
  "adaptive_duration fm consecutive =
     (let multiplier = sat_pow_u64 2 (unat consecutive - 1)
      in secs (min (sat_mul_u64 (fm_base_secs fm) multiplier) (fm_max_secs fm)))"

text \<open>The duration \<^verbatim>\<open>freeze\<close> settles on: an explicit non-zero one, else the adaptive one, capped.\<close>

definition freeze_target :: "freeze_manager \<Rightarrow> duration option \<Rightarrow> u32 \<Rightarrow> duration" where
  "freeze_target fm dur n =
     min (case dur of Some d \<Rightarrow> if d = 0 then adaptive_duration fm n else d
          | None \<Rightarrow> adaptive_duration fm n)
         (secs (fm_max_secs fm))"

definition freeze :: "string \<Rightarrow> duration option \<Rightarrow> instant \<Rightarrow> instant \<Rightarrow> freeze_manager \<Rightarrow> freeze_manager \<times> bool" where
  "freeze reason dur now now' fm =
     (let st = fm_state fm in
      if fs_permanent st then (fm\<lparr>fm_state := st\<lparr>fs_consecutive := fs_consecutive st + 1\<rparr>\<rparr>, True)
      else
        let st1 = st\<lparr>fs_frozen := True, fs_reason := Some reason, fs_frozen_at := Some now,
                     fs_consecutive := fs_consecutive st + 1\<rparr>;
            target = freeze_target fm dur (fs_consecutive st1)
        in case instant_add now' target of
             None \<Rightarrow> (fm\<lparr>fm_state := st1\<rparr>, False)
           | Some t \<Rightarrow> (fm\<lparr>fm_state := st1\<lparr>fs_thaw_at := Some t, fs_permanent := False\<rparr>\<rparr>, True))"

definition freeze_permanent :: "string \<Rightarrow> instant \<Rightarrow> freeze_manager \<Rightarrow> freeze_manager" where
  "freeze_permanent reason now fm = fm\<lparr>fm_state := (fm_state fm)\<lparr>fs_frozen := True,
     fs_reason := Some reason, fs_frozen_at := Some now, fs_thaw_at := None, fs_permanent := True\<rparr>\<rparr>"

definition thaw :: "freeze_manager \<Rightarrow> freeze_manager" where
  "thaw fm = fm\<lparr>fm_state := thawed_state\<rparr>"

definition try_auto_thaw :: "instant \<Rightarrow> freeze_manager \<Rightarrow> freeze_manager \<times> bool" where
  "try_auto_thaw now fm =
     (let st = fm_state fm in
      if fs_permanent st then (fm, True)
      else case fs_thaw_at st of
        Some t \<Rightarrow>
          if now \<ge> t
          then (fm\<lparr>fm_state := st\<lparr>fs_frozen := False, fs_reason := None, fs_frozen_at := None,
                  fs_thaw_at := None\<rparr>\<rparr>, False)
          else (fm, fs_frozen st)
      | None \<Rightarrow> (fm, fs_frozen st))"

text \<open>The read phase of \<^verbatim>\<open>is_frozen\<close>: an answer, or \<open>None\<close> to go on to the write phase.\<close>

definition is_frozen_read :: "instant \<Rightarrow> freeze_manager \<Rightarrow> bool option" where
  "is_frozen_read now fm =
     (let st = fm_state fm in
      if \<not> fs_frozen st then Some False
      else case fs_thaw_at st of Some t \<Rightarrow> if now \<ge> t then None else Some True | None \<Rightarrow> Some True)"

definition is_frozen :: "instant \<Rightarrow> instant \<Rightarrow> freeze_manager \<Rightarrow> freeze_manager \<times> bool" where
  "is_frozen now now' fm = (case is_frozen_read now fm of
     Some b \<Rightarrow> (fm, b) | None \<Rightarrow> try_auto_thaw now' fm)"

record freeze_status =
  fst_is_frozen :: bool
  fst_reason :: "string option"
  fst_frozen_since :: "instant option"
  fst_thaw_at :: "instant option"
  fst_consecutive :: u32
  fst_permanent :: bool

definition freeze_status_of :: "instant \<Rightarrow> freeze_manager \<Rightarrow> freeze_status" where
  "freeze_status_of now fm =
     (let st = fm_state fm in
      \<lparr>fst_is_frozen = (fs_frozen st \<and> (fs_permanent st \<or>
           (case fs_thaw_at st of None \<Rightarrow> True | Some t \<Rightarrow> now < t))),
       fst_reason = fs_reason st, fst_frozen_since = fs_frozen_at st, fst_thaw_at = fs_thaw_at st,
       fst_consecutive = fs_consecutive st, fst_permanent = fs_permanent st\<rparr>)"

section \<open>Events\<close>

datatype freeze_event =
    EFreeze string "duration option" instant instant
  | EFreezePermanent string instant
  | EAutoThaw instant
  | EThaw

fun freeze_step :: "freeze_manager \<Rightarrow> freeze_event \<Rightarrow> freeze_manager" where
  "freeze_step fm (EFreeze r d now now') = fst (freeze r d now now' fm)"
| "freeze_step fm (EFreezePermanent r now) = freeze_permanent r now fm"
| "freeze_step fm (EAutoThaw now) = fst (try_auto_thaw now fm)"
| "freeze_step fm EThaw = thaw fm"

text \<open>A thawed manager holds no reason and no deadline; a permanent freeze has no deadline.\<close>

definition freeze_wf :: "freeze_manager \<Rightarrow> bool" where
  "freeze_wf fm \<longleftrightarrow> (let st = fm_state fm in
     (\<not> fs_frozen st \<longrightarrow> fs_reason st = None \<and> fs_frozen_at st = None \<and> fs_thaw_at st = None
        \<and> \<not> fs_permanent st)
     \<and> (fs_frozen st \<longrightarrow> fs_reason st \<noteq> None \<and> fs_frozen_at st \<noteq> None)
     \<and> (fs_permanent st \<longrightarrow> fs_thaw_at st = None))"

lemma freeze_wf_new: "freeze_wf (freeze_manager_new base mx)"
  by (simp add: freeze_wf_def freeze_manager_new_def thawed_state_def)

lemma freeze_keeps_wf: "freeze_wf fm \<Longrightarrow> freeze_wf (fst (freeze r d now now' fm))"
  by (auto simp: freeze_wf_def freeze_def Let_def split: option.splits)

lemma freeze_permanent_keeps_wf: "freeze_wf (freeze_permanent r now fm)"
  by (simp add: freeze_wf_def freeze_permanent_def)

lemma thaw_keeps_wf: "freeze_wf (thaw fm)"
  by (simp add: freeze_wf_def thaw_def thawed_state_def)

lemma try_auto_thaw_keeps_wf: "freeze_wf fm \<Longrightarrow> freeze_wf (fst (try_auto_thaw now fm))"
  by (auto simp: freeze_wf_def try_auto_thaw_def Let_def split: option.splits)

lemmas freeze_wf_intros = freeze_keeps_wf freeze_permanent_keeps_wf thaw_keeps_wf try_auto_thaw_keeps_wf

interpretation freezing: invariant_machine freeze_step freeze_wf
proof
  fix fm e
  assume "freeze_wf fm"
  then show "freeze_wf (freeze_step fm e)"
    by (cases e) (simp_all add: freeze_wf_intros)
qed

text \<open>Everything the process does on its own: all events but a manual thaw.\<close>

datatype auto_event =
    AFreeze string "duration option" instant instant
  | AFreezePermanent string instant
  | AAutoThaw instant

fun auto_event_as :: "auto_event \<Rightarrow> freeze_event" where
  "auto_event_as (AFreeze r d now now') = EFreeze r d now now'"
| "auto_event_as (AFreezePermanent r now) = EFreezePermanent r now"
| "auto_event_as (AAutoThaw now) = EAutoThaw now"

definition auto_step :: "freeze_manager \<Rightarrow> auto_event \<Rightarrow> freeze_manager" where
  "auto_step fm e = freeze_step fm (auto_event_as e)"

definition permanence_kept :: "freeze_manager \<Rightarrow> freeze_manager \<Rightarrow> bool" where
  "permanence_kept fm fm' \<longleftrightarrow>
     (fs_permanent (fm_state fm) \<and> fs_frozen (fm_state fm) \<and> fs_thaw_at (fm_state fm) = None \<longrightarrow>
      fs_permanent (fm_state fm') \<and> fs_frozen (fm_state fm') \<and> fs_thaw_at (fm_state fm') = None)"

interpretation permanence: monotone_machine auto_step permanence_kept
proof
  fix a b c fm e
  show "permanence_kept fm fm" by (simp add: permanence_kept_def)
  show "permanence_kept a b \<Longrightarrow> permanence_kept b c \<Longrightarrow> permanence_kept a c"
    by (auto simp: permanence_kept_def)
  show "permanence_kept fm (auto_step fm e)"
    by (cases e) (auto simp: permanence_kept_def auto_step_def freeze_def freeze_permanent_def
        try_auto_thaw_def Let_def split: option.splits)
qed

lemma is_frozen_permanent:
  "fs_frozen (fm_state fm) \<Longrightarrow> fs_thaw_at (fm_state fm) = None \<Longrightarrow> snd (is_frozen now now' fm)"
  by (simp add: is_frozen_def is_frozen_read_def Let_def)

lemma freeze_target_le: "freeze_target fm dur n \<le> secs (fm_max_secs fm)"
  by (simp add: freeze_target_def)

section \<open>Properties\<close>


text \<open>A temporary freeze ends: on any manager reached from a fresh one that is not
  permanently frozen, a freeze that fits the clock keeps the provider frozen until its deadline,
  and the provider is usable again from the configured maximum after the freeze on.\<close>

theorem temporary_freeze_bounded:
  assumes "fm = foldl freeze_step (freeze_manager_new base mx) es"
    and "\<not> fs_permanent (fm_state fm)"
    and "freeze reason dur t t' fm = (fm', True)"
  shows "(\<forall>now now'. now \<ge> t' + secs mx \<and> now' \<ge> now \<longrightarrow> \<not> snd (is_frozen now now' fm'))
     \<and> (\<forall>now now'. now < t' + freeze_target fm dur (fs_consecutive (fm_state fm) + 1) \<longrightarrow> snd (is_frozen now now' fm'))"
proof -
  have "fm_max_secs (freeze_step f e) = fm_max_secs f" for f e
    by (cases e) (simp_all add: freeze_def freeze_permanent_def thaw_def try_auto_thaw_def Let_def
        split: option.splits)
  then have "fm_max_secs (foldl freeze_step f es) = fm_max_secs f" for f
    by (induction es arbitrary: f) simp_all
  then have mx: "fm_max_secs fm = mx" by (simp add: assms(1) freeze_manager_new_def)
  let ?target = "freeze_target fm dur (fs_consecutive (fm_state fm) + 1)"
  have st: "fs_frozen (fm_state fm') \<and> \<not> fs_permanent (fm_state fm')
      \<and> fs_thaw_at (fm_state fm') = Some (t' + ?target)"
    using assms(2,3) by (auto simp: freeze_def Let_def instant_add_def split: option.splits if_splits)
  have "?target \<le> secs mx" using freeze_target_le [of fm dur] mx by simp
  with st show ?thesis
    by (auto simp: is_frozen_def is_frozen_read_def try_auto_thaw_def Let_def)
qed

theorem temporary_freeze_bounded_witness:
  "\<not> snd (is_frozen (secs 200) (secs 200)
       (fst (freeze ''HTTP 503'' (Some (secs 500)) 0 0 (freeze_manager_new 30 120))))"
proof -
  have "freeze ''HTTP 503'' (Some (secs 500)) 0 0 (freeze_manager_new 30 120)
      = (fst (freeze ''HTTP 503'' (Some (secs 500)) 0 0 (freeze_manager_new 30 120)), True)"
    by (simp add: freeze_def freeze_manager_new_def thawed_state_def freeze_target_def instant_add_def
        instant_limit_def secs_def Let_def)
  from temporary_freeze_bounded [OF _ _ this, of 30 120 "[]"] show ?thesis
    by (simp add: freeze_manager_new_def thawed_state_def secs_def)
qed

text \<open>The saturating 64-bit arithmetic of the backoff is exact: the adaptive duration is the
  smaller of the cap and base times two to the number of earlier consecutive freezes, computed
  in unbounded integers, so it never shrinks as failures repeat.\<close>

theorem adaptive_duration_exact:
  assumes "fm_max_secs fm \<le> u64_max"
  shows "adaptive_duration fm n = secs (min (fm_base_secs fm * 2 ^ (unat n - 1)) (fm_max_secs fm))
    \<and> (n \<le> m \<longrightarrow> adaptive_duration fm n \<le> adaptive_duration fm m)"
proof -
  have exact: "adaptive_duration fm k = secs (min (fm_base_secs fm * 2 ^ (unat k - 1)) (fm_max_secs fm))" for k
    unfolding adaptive_duration_def Let_def sat_mul_pow_capped [OF assms] ..
  have "fm_base_secs fm * 2 ^ (unat n - 1) \<le> fm_base_secs fm * 2 ^ (unat m - 1)" if "n \<le> m"
    using that by (intro mult_le_mono2 power_increasing diff_le_mono) (simp_all add: word_le_nat_alt)
  then show ?thesis
    unfolding exact secs_def by (auto simp: min.coboundedI1)
qed

theorem adaptive_duration_exact_witness:
  "adaptive_duration (freeze_manager_new 30 3600) 3 = secs 120
   \<and> adaptive_duration (freeze_manager_new 30 3600) 3 \<le> adaptive_duration (freeze_manager_new 30 3600) 200"
  using adaptive_duration_exact [of "freeze_manager_new 30 3600" 3 200]
  by (simp add: freeze_manager_new_def u64_max_def)

text \<open>The status shown to the operator agrees with the routing decision: on every reachable
  manager, \<^verbatim>\<open>status\<close> reports frozen exactly when \<^verbatim>\<open>is_frozen\<close> does at the same time.\<close>

theorem status_agrees_with_routing:
  assumes "fm = foldl freeze_step (freeze_manager_new base mx) es"
  shows "fst_is_frozen (freeze_status_of now fm) = snd (is_frozen now now fm)"
proof -
  have "freeze_wf fm" unfolding assms by (intro freezing.run_inv freeze_wf_new)
  then show ?thesis
    by (auto simp: freeze_wf_def freeze_status_of_def is_frozen_def is_frozen_read_def try_auto_thaw_def Let_def
        split: option.splits)
qed

theorem status_agrees_with_routing_witness:
  "fst_is_frozen (freeze_status_of 5 (freeze_step (freeze_manager_new 30 3600) (EFreezePermanent ''key'' 0)))
     = snd (is_frozen 5 5 (freeze_step (freeze_manager_new 30 3600) (EFreezePermanent ''key'' 0)))"
  by (rule status_agrees_with_routing [of _ 30 3600 "[EFreezePermanent ''key'' 0]"]) simp

end
