(* ===== verification/Provider_Router.thy ===== *)
theory Provider_Router
  imports Provider_Freeze
begin

text \<open>
  Tag-based routing, \<^verbatim>\<open>crates/hf-provider/src/router.rs\<close>. Selecting reads the freeze state of
  every provider, and reading an expired freeze thaws it, so \<open>select\<close> returns the
  providers it leaves behind. The clock readings of provider \<open>i\<close> are \<open>clock i\<close>; the
  nanosecond seed of the random strategy is an argument; the permit counts are one snapshot.
\<close>

record routable_provider =
  rp_meta :: provider_metadata
  rp_freeze :: freeze_manager
  rp_available :: nat
  rp_max :: nat

datatype selection_strategy = Priority | Random | LeastLoaded | RoundRobin | CostOptimized

record tag_based_router =
  tr_next_index :: usize
  tr_strategy :: selection_strategy

definition router_with_strategy :: "selection_strategy \<Rightarrow> tag_based_router" where
  "router_with_strategy s = \<lparr>tr_next_index = 0, tr_strategy = s\<rparr>"

definition router_new :: tag_based_router where
  "router_new = router_with_strategy Priority"

definition has_tags :: "string list \<Rightarrow> routable_provider \<Rightarrow> bool" where
  "has_tags tags p = list_all (\<lambda>t. t \<in> set (pm_tags (rp_meta p))) tags"

fun admits_priority :: "route_priority \<Rightarrow> routable_provider \<Rightarrow> bool" where
  "admits_priority Idle p = (rp_available p > 0)"
| "admits_priority Critical p = True"
| "admits_priority Normal p = (rp_available p > rp_max p div 5)"

text \<open>The first filter of step 1 for one provider: the answer and the provider after the check.\<close>

definition check_frozen :: "instant \<times> instant \<Rightarrow> routable_provider \<Rightarrow> routable_provider \<times> bool" where
  "check_frozen t p = (let (fm, b) = is_frozen (fst t) (snd t) (rp_freeze p) in (p\<lparr>rp_freeze := fm\<rparr>, b))"

definition check_all :: "(nat \<Rightarrow> instant \<times> instant) \<Rightarrow> routable_provider list \<Rightarrow> (routable_provider \<times> bool) list" where
  "check_all clock ps = map (\<lambda>i. check_frozen (clock i) (ps ! i)) [0..<length ps]"

definition route_candidates :: "(routable_provider \<times> bool) list \<Rightarrow> route_request \<Rightarrow> nat list" where
  "route_candidates cs r = filter (\<lambda>i. \<not> snd (cs ! i) \<and> has_tags (rr_required_tags r) (fst (cs ! i))
      \<and> admits_priority (rr_priority r) (fst (cs ! i))) [0..<length cs]"

text \<open>Step 1b: narrow to the preferred tags when some candidate carries them.\<close>

definition prefer_tags :: "routable_provider list \<Rightarrow> route_request \<Rightarrow> nat list \<Rightarrow> nat list" where
  "prefer_tags ps r cands =
     (if rr_preferred_tags r = [] then cands
      else let preferred = filter (\<lambda>i. has_tags (rr_preferred_tags r) (ps ! i)) cands
           in if preferred = [] then cands else preferred)"

text \<open>\<^verbatim>\<open>Iterator::max_by_key\<close> keeps the last of equal maxima, \<^verbatim>\<open>min_by\<close> the first minimum.\<close>

fun max_by_key :: "('a \<Rightarrow> nat) \<Rightarrow> 'a \<Rightarrow> 'a list \<Rightarrow> 'a" where
  "max_by_key f x [] = x"
| "max_by_key f x (y # ys) = max_by_key f (if f x > f y then x else y) ys"

fun min_by :: "('a \<Rightarrow> 'a \<Rightarrow> bool) \<Rightarrow> 'a \<Rightarrow> 'a list \<Rightarrow> 'a" where
  "min_by gt x [] = x"
| "min_by gt x (y # ys) = min_by gt (if gt x y then y else x) ys"

text \<open>\<^verbatim>\<open>apply_strategy\<close> is called with a non-empty candidate list.\<close>

definition apply_strategy ::
  "tag_based_router \<Rightarrow> nat \<Rightarrow> routable_provider list \<Rightarrow> nat list \<Rightarrow> tag_based_router \<times> nat" where
  "apply_strategy rt seed ps cands =
     (case tr_strategy rt of
        Priority \<Rightarrow> (rt, hd cands)
      | Random \<Rightarrow> (rt, cands ! (seed mod length cands))
      | LeastLoaded \<Rightarrow> (rt, max_by_key (\<lambda>i. rp_available (ps ! i)) (hd cands) (tl cands))
      | RoundRobin \<Rightarrow> (rt\<lparr>tr_next_index := tr_next_index rt + 1\<rparr>,
                       cands ! (unat (tr_next_index rt) mod length cands))
      | CostOptimized \<Rightarrow> (rt, min_by (\<lambda>a b. f_less (pm_cost_in (rp_meta (ps ! b))) (pm_cost_in (rp_meta (ps ! a))))
                          (hd cands) (tl cands)))"

text \<open>The \<^verbatim>\<open>{:?}\<close> of the tag list in the mismatch message is an argument.\<close>

definition preferred_choice ::
  "(string list \<Rightarrow> string) \<Rightarrow> provider_id \<Rightarrow> route_request \<Rightarrow> routable_provider list \<Rightarrow> (provider_error, nat) result" where
  "preferred_choice dbg pid r ps =
     (case find (\<lambda>i. pm_id (rp_meta (ps ! i)) = pid) [0..<length ps] of
        None \<Rightarrow> Inl (OtherError (''preferred provider '' @ quoted pid @ '' is not registered''))
      | Some i \<Rightarrow>
          if has_tags (rr_required_tags r) (ps ! i) then Inr i
          else Inl (OtherError (''preferred provider '' @ quoted pid @
            '' does not match required tags '' @ dbg (rr_required_tags r))))"

definition select ::
  "(string list \<Rightarrow> string) \<Rightarrow> (nat \<Rightarrow> instant \<times> instant) \<Rightarrow> nat \<Rightarrow> tag_based_router \<Rightarrow> routable_provider list
    \<Rightarrow> route_request \<Rightarrow> routable_provider list \<times> tag_based_router \<times> (provider_error, nat) result" where
  "select dbg clock seed rt ps r =
     (case rr_preferred_provider r of
        Some pid \<Rightarrow> (ps, rt, preferred_choice dbg pid r ps)
      | None \<Rightarrow>
          (let cs = check_all clock ps;
               ps' = map fst cs;
               cands = route_candidates cs r
           in if cands = [] then (ps', rt, Inl (NoProviderAvailable (rr_required_tags r)))
              else
                let cands' = prefer_tags ps' r cands
                in case (case rr_preferred_model r of
                           None \<Rightarrow> None
                         | Some m \<Rightarrow> find (\<lambda>i. pm_model (rp_meta (ps' ! i)) = m) cands') of
                     Some i \<Rightarrow> (ps', rt, Inr i)
                   | None \<Rightarrow> (let (rt', i) = apply_strategy rt seed ps' cands' in (ps', rt', Inr i))))"

section \<open>Lemmas\<close>

lemma max_by_key_in: "max_by_key f x xs \<in> set (x # xs)"
proof (induction xs arbitrary: x)
  case (Cons y ys)
  show ?case using Cons.IH [of x] Cons.IH [of y] by auto
qed simp

lemma max_by_key_max: "y \<in> set (x # xs) \<Longrightarrow> f y \<le> f (max_by_key f x xs)"
proof (induction xs arbitrary: x y)
  case (Cons z zs)
  let ?x = "if f x > f z then x else z"
  have "f ?x \<le> f (max_by_key f ?x zs)" by (rule Cons.IH) simp
  moreover have "f x \<le> f ?x" "f z \<le> f ?x" by auto
  moreover have "f y \<le> f (max_by_key f ?x zs)" if "y \<in> set zs" by (rule Cons.IH) (use that in simp)
  ultimately show ?case using Cons.prems by auto
qed simp

lemma min_by_in: "min_by g x xs \<in> set (x # xs)"
proof (induction xs arbitrary: x)
  case (Cons y ys)
  show ?case using Cons.IH [of x] Cons.IH [of y] by auto
qed simp

lemma prefer_tags_subset: "set (prefer_tags ps r cands) \<subseteq> set cands"
  by (auto simp: prefer_tags_def Let_def)

lemma prefer_tags_nonempty: "cands \<noteq> [] \<Longrightarrow> prefer_tags ps r cands \<noteq> []"
  by (simp add: prefer_tags_def Let_def)

lemma apply_strategy_in:
  assumes "cands \<noteq> []"
  shows "snd (apply_strategy rt seed ps cands) \<in> set cands"
proof -
  have c: "hd cands # tl cands = cands" using assms by simp
  have "length cands > 0" using assms by simp
  then show ?thesis
    using max_by_key_in [of _ "hd cands" "tl cands"] min_by_in [of _ "hd cands" "tl cands"] assms
    unfolding c by (cases "tr_strategy rt") (simp_all add: apply_strategy_def)
qed

lemma length_check_all [simp]: "length (check_all clock ps) = length ps"
  by (simp add: check_all_def)

lemma check_all_nth: "i < length ps \<Longrightarrow> check_all clock ps ! i = check_frozen (clock i) (ps ! i)"
  by (simp add: check_all_def)

lemma check_frozen_keeps [simp]:
  "rp_meta (fst (check_frozen t p)) = rp_meta p" "rp_available (fst (check_frozen t p)) = rp_available p"
  "rp_max (fst (check_frozen t p)) = rp_max p"
  "snd (check_frozen t p) = snd (is_frozen (fst t) (snd t) (rp_freeze p))"
  by (simp_all add: check_frozen_def split: prod.splits)

lemma has_tags_checked [simp]: "has_tags tags (fst (check_frozen t p)) = has_tags tags p"
  by (simp add: has_tags_def)

lemma admits_checked [simp]: "admits_priority q (fst (check_frozen t p)) = admits_priority q p"
  by (cases q) simp_all

text \<open>A provider is eligible for a route: usable now, tagged as required, with room for its priority.\<close>

definition eligible :: "(nat \<Rightarrow> instant \<times> instant) \<Rightarrow> route_request \<Rightarrow> routable_provider list \<Rightarrow> nat \<Rightarrow> bool" where
  "eligible clock r ps i \<longleftrightarrow> i < length ps \<and> \<not> snd (is_frozen (fst (clock i)) (snd (clock i)) (rp_freeze (ps ! i)))
     \<and> has_tags (rr_required_tags r) (ps ! i) \<and> admits_priority (rr_priority r) (ps ! i)"

lemma set_route_candidates: "set (route_candidates (check_all clock ps) r) = {i. eligible clock r ps i}"
  by (auto simp: route_candidates_def eligible_def check_all_nth)

lemma route_candidates_Nil: "route_candidates (check_all clock ps) r = [] \<longleftrightarrow> (\<forall>i. \<not> eligible clock r ps i)"
  by (metis (no_types, lifting) Collect_empty_eq set_empty set_route_candidates)

lemma checked_meta:
  "i < length ps \<Longrightarrow> rp_meta (map fst (check_all clock ps) ! i) = rp_meta (ps ! i)"
  "i < length ps \<Longrightarrow> rp_available (map fst (check_all clock ps) ! i) = rp_available (ps ! i)"
  by (simp_all add: check_all_nth)

text \<open>The choice of step 2 and 3, when there are candidates.\<close>

lemma select_chooses:
  assumes "rr_preferred_provider r = None" "eligible clock r ps j"
  obtains i where "snd (snd (select dbg clock seed rt ps r)) = Inr i"
    "i \<in> set (prefer_tags (map fst (check_all clock ps)) r (route_candidates (check_all clock ps) r))"
proof -
  let ?cs = "check_all clock ps"
  let ?c = "route_candidates ?cs r"
  let ?c' = "prefer_tags (map fst ?cs) r ?c"
  let ?m = "case rr_preferred_model r of None \<Rightarrow> None
     | Some m \<Rightarrow> find (\<lambda>i. pm_model (rp_meta (map fst ?cs ! i)) = m) ?c'"
  have ne: "?c \<noteq> []" using assms(2) by (auto simp: route_candidates_Nil)
  show thesis
  proof (cases ?m)
    case None
    have "snd (snd (select dbg clock seed rt ps r)) = Inr (snd (apply_strategy rt seed (map fst ?cs) ?c'))"
      using assms(1) ne None by (simp add: select_def Let_def split: prod.splits)
    then show thesis using apply_strategy_in [OF prefer_tags_nonempty [OF ne]] by (rule that)
  next
    case (Some i)
    then have "i \<in> set ?c'" by (auto split: option.splits dest: find_Some_iff_first)
    moreover have "snd (snd (select dbg clock seed rt ps r)) = Inr i"
      using assms(1) ne Some by (simp add: select_def Let_def)
    ultimately show thesis by (intro that)
  qed
qed

lemma select_none:
  assumes "rr_preferred_provider r = None" "\<forall>i. \<not> eligible clock r ps i"
  shows "snd (snd (select dbg clock seed rt ps r)) = Inl (NoProviderAvailable (rr_required_tags r))"
  using assms by (simp add: select_def Let_def route_candidates_Nil)

lemma select_eligible:
  assumes "rr_preferred_provider r = None" "snd (snd (select dbg clock seed rt ps r)) = Inr i"
  shows "eligible clock r ps i"
proof (cases "\<exists>j. eligible clock r ps j")
  case False
  with select_none [OF assms(1)] assms(2) show ?thesis by simp
next
  case True
  then obtain i' where "snd (snd (select dbg clock seed rt ps r)) = Inr i'"
    "i' \<in> set (prefer_tags (map fst (check_all clock ps)) r (route_candidates (check_all clock ps) r))"
    using select_chooses [OF assms(1)] by metis
  with assms(2) prefer_tags_subset set_route_candidates show ?thesis by fastforce
qed

section \<open>Properties\<close>

text \<open>Automatic routing is sound and complete: without an explicit provider, \<^verbatim>\<open>select\<close>
  returns a provider exactly when one is usable, carries every required tag and has room for the
  request's priority; the one it returns is such a provider, carries the preferred tags if any
  eligible one does, and otherwise the error names the required tags.\<close>

theorem select_sound_complete:
  assumes "rr_preferred_provider r = None"
  shows "case snd (snd (select dbg clock seed rt ps r)) of
       Inr i \<Rightarrow> eligible clock r ps i
         \<and> ((\<exists>j. eligible clock r ps j \<and> has_tags (rr_preferred_tags r) (ps ! j)) \<longrightarrow>
            has_tags (rr_preferred_tags r) (ps ! i))
     | Inl e \<Rightarrow> e = NoProviderAvailable (rr_required_tags r) \<and> (\<forall>i. \<not> eligible clock r ps i)"
proof (cases "\<exists>j. eligible clock r ps j")
  case False
  with select_none [OF assms] show ?thesis by simp
next
  case True
  let ?cs = "check_all clock ps"
  obtain i where i: "snd (snd (select dbg clock seed rt ps r)) = Inr i"
    "i \<in> set (prefer_tags (map fst ?cs) r (route_candidates ?cs r))"
    using True select_chooses [OF assms] by metis
  have el: "eligible clock r ps i"
    using i(2) prefer_tags_subset set_route_candidates by blast
  have same: "has_tags t (map fst ?cs ! j) = has_tags t (ps ! j)" if "eligible clock r ps j" for j t
    using that by (simp add: eligible_def check_all_nth)
  have "has_tags (rr_preferred_tags r) (ps ! i)"
    if j: "eligible clock r ps j" "has_tags (rr_preferred_tags r) (ps ! j)" for j
  proof (cases "rr_preferred_tags r = []")
    case True
    then show ?thesis by (simp add: has_tags_def)
  next
    case False
    have "j \<in> set (filter (\<lambda>i. has_tags (rr_preferred_tags r) (map fst ?cs ! i)) (route_candidates ?cs r))"
      using j same by (simp add: set_route_candidates)
    then have "filter (\<lambda>i. has_tags (rr_preferred_tags r) (map fst ?cs ! i)) (route_candidates ?cs r) \<noteq> []"
      by force
    with i(2) False have "has_tags (rr_preferred_tags r) (map fst ?cs ! i)"
      by (simp add: prefer_tags_def Let_def)
    with same [OF el] show ?thesis by simp
  qed
  with i(1) el show ?thesis by auto
qed

text \<open>Three idle providers with ten slots each, of which 2, 1 and 5 are free.\<close>

definition sample_meta :: "string \<Rightarrow> string list \<Rightarrow> provider_metadata" where
  "sample_meta pid tags = \<lparr>pm_id = pid, pm_model = ''m'', pm_tags = tags, pm_max_concurrency = 10,
     pm_context_window = 8000, pm_cost_in = f_zero, pm_cost_out = f_zero\<rparr>"

definition sample_provider :: "string \<Rightarrow> string list \<Rightarrow> nat \<Rightarrow> routable_provider" where
  "sample_provider pid tags free = \<lparr>rp_meta = sample_meta pid tags, rp_freeze = freeze_manager_new 30 3600,
     rp_available = free, rp_max = 10\<rparr>"

definition sample_pool :: "routable_provider list" where
  "sample_pool = [sample_provider ''a'' [''fast''] 2, sample_provider ''b'' [''fast''] 1, sample_provider ''c'' [''fast'', ''deep''] 5]"

lemma sample_not_frozen [simp]: "\<not> snd (is_frozen t t' (freeze_manager_new b m))"
  by (simp add: is_frozen_def is_frozen_read_def freeze_manager_new_def thawed_state_def)

lemma sample_pool_simps [simp]:
  "rp_meta (sample_provider pid tags free) = sample_meta pid tags"
  "rp_freeze (sample_provider pid tags free) = freeze_manager_new 30 3600"
  "rp_available (sample_provider pid tags free) = free" "rp_max (sample_provider pid tags free) = 10"
  "pm_tags (sample_meta pid tags) = tags"
  by (simp_all add: sample_provider_def sample_meta_def)

theorem select_sound_complete_witness:
  "\<exists>i. snd (snd (select concat (\<lambda>_. (0, 0)) 7 router_new sample_pool (route_with_tags [''fast'']))) = Inr i
     \<and> eligible (\<lambda>_. (0, 0)) (route_with_tags [''fast'']) sample_pool i"
proof -
  have el: "eligible (\<lambda>_. (0, 0)) (route_with_tags [''fast'']) sample_pool 2"
    by (simp add: eligible_def sample_pool_def route_with_tags_def route_default_def has_tags_def)
  show ?thesis
    using select_sound_complete [where r = "route_with_tags [''fast'']" and dbg = concat and clock = "\<lambda>_. (0, 0)"
        and seed = 7 and rt = router_new and ps = sample_pool] el
    by (auto simp: route_with_tags_def route_default_def split: sum.splits)
qed

text \<open>The least-loaded strategy picks an eligible provider with the most free permits among
  the candidates it may choose from (no preferred tags or model narrow the choice).\<close>

theorem least_loaded_balances:
  assumes "rr_preferred_provider r = None" "rr_preferred_model r = None" "rr_preferred_tags r = []"
    and "tr_strategy rt = LeastLoaded"
    and "snd (snd (select dbg clock seed rt ps r)) = Inr i" "eligible clock r ps j"
  shows "eligible clock r ps i \<and> rp_available (ps ! j) \<le> rp_available (ps ! i)"
proof -
  let ?cs = "check_all clock ps"
  let ?c = "route_candidates ?cs r"
  let ?f = "\<lambda>i. rp_available (map fst ?cs ! i)"
  have ne: "?c \<noteq> []" using assms(6) by (auto simp: route_candidates_Nil)
  then have c: "hd ?c # tl ?c = ?c" by simp
  have i: "i = max_by_key ?f (hd ?c) (tl ?c)"
    using assms(1-5) ne by (simp add: select_def Let_def prefer_tags_def apply_strategy_def)
  have ei: "eligible clock r ps i"
    using max_by_key_in [of ?f "hd ?c" "tl ?c"] unfolding c i by (simp add: set_route_candidates)
  have "j \<in> set (hd ?c # tl ?c)" unfolding c using assms(6) by (simp add: set_route_candidates)
  then have "?f j \<le> ?f i" unfolding i by (rule max_by_key_max)
  moreover have "i < length ps" "j < length ps" using ei assms(6) by (simp_all add: eligible_def)
  ultimately show ?thesis using ei by (simp add: check_all_nth)
qed

theorem least_loaded_balances_witness:
  "snd (snd (select concat (\<lambda>_. (0, 0)) 7 (router_with_strategy LeastLoaded) sample_pool
      (route_default\<lparr>rr_priority := Critical\<rparr>))) = Inr 2
   \<and> rp_available (sample_pool ! 0) \<le> rp_available (sample_pool ! 2)"
proof -
  let ?r = "route_default\<lparr>rr_priority := Critical\<rparr>"
  have s: "snd (snd (select concat (\<lambda>_. (0, 0)) 7 (router_with_strategy LeastLoaded) sample_pool ?r)) = Inr 2"
    by (simp add: select_def route_default_def router_with_strategy_def check_all_def sample_pool_def
        route_candidates_def check_frozen_def apply_strategy_def prefer_tags_def has_tags_def
        is_frozen_def is_frozen_read_def freeze_manager_new_def thawed_state_def sample_provider_def)
  have "eligible (\<lambda>_. (0, 0)) ?r sample_pool 0"
    by (simp add: eligible_def sample_pool_def route_default_def has_tags_def)
  with least_loaded_balances [where r = ?r and dbg = concat and clock = "\<lambda>_. (0, 0)"
      and rt = "router_with_strategy LeastLoaded" and seed = 7 and ps = sample_pool and i = 2 and j = 0] s show ?thesis
    by (simp add: route_default_def router_with_strategy_def)
qed

text \<open>The reserve for critical requests is open to idle ones: when no provider has more than
  its critical fifth of slots free, every normal request is refused, while an idle request, the
  lowest priority, is still given a slot of a usable provider that has one left.\<close>

theorem idle_takes_critical_reserve:
  assumes "rr_preferred_provider r = None" "\<forall>p\<in>set ps. rp_available p \<le> rp_max p div 5"
    and "eligible clock (r\<lparr>rr_priority := Critical\<rparr>) ps i" "0 < rp_available (ps ! i)"
  shows "snd (snd (select dbg clock seed rt ps (r\<lparr>rr_priority := Normal\<rparr>))) = Inl (NoProviderAvailable (rr_required_tags r))
    \<and> (\<exists>j. snd (snd (select dbg clock seed rt ps (r\<lparr>rr_priority := Idle\<rparr>))) = Inr j)"
proof
  have "\<not> eligible clock (r\<lparr>rr_priority := Normal\<rparr>) ps j" for j
    using assms(2) nth_mem [of j ps] by (auto simp: eligible_def not_less [symmetric])
  with select_none [of "r\<lparr>rr_priority := Normal\<rparr>"] assms(1)
  show "snd (snd (select dbg clock seed rt ps (r\<lparr>rr_priority := Normal\<rparr>))) = Inl (NoProviderAvailable (rr_required_tags r))"
    by simp
  have "eligible clock (r\<lparr>rr_priority := Idle\<rparr>) ps i" using assms(3,4) by (simp add: eligible_def)
  then show "\<exists>j. snd (snd (select dbg clock seed rt ps (r\<lparr>rr_priority := Idle\<rparr>))) = Inr j"
    using select_chooses [of "r\<lparr>rr_priority := Idle\<rparr>"] assms(1) by (metis route_request.select_convs(3) route_request.surjective route_request.update_convs(5))
qed

theorem idle_takes_critical_reserve_witness:
  "snd (snd (select concat (\<lambda>_. (0, 0)) 7 router_new [sample_provider ''a'' [] 2] (route_default\<lparr>rr_priority := Normal\<rparr>)))
      = Inl (NoProviderAvailable [])
   \<and> (\<exists>j. snd (snd (select concat (\<lambda>_. (0, 0)) 7 router_new [sample_provider ''a'' [] 2] (route_default\<lparr>rr_priority := Idle\<rparr>))) = Inr j)"
  using idle_takes_critical_reserve [where r = route_default and ps = "[sample_provider ''a'' [] 2]" and clock = "\<lambda>_. (0, 0)"
      and i = 0 and dbg = concat and seed = 7 and rt = router_new]
  by (simp add: route_default_def eligible_def has_tags_def)

end
