(* ===== verification/Provider_Pool.thy ===== *)
theory Provider_Pool
  imports Provider_Router
begin

text \<open>
  The provider pool, \<^verbatim>\<open>crates/hf-provider/src/pool.rs\<close>, with its metrics (\<^verbatim>\<open>metrics.rs\<close>) and
  the health check (\<^verbatim>\<open>health.rs\<close>). A chat call is three phases, as in the source: routing and
  the permits (\<open>pool_route\<close>, \<open>pool_acquire_global\<close>, \<open>pool_acquire_provider\<close>), the retry loop against the selected backend
  (\<open>retry_loop\<close>), and the bookkeeping (\<open>pool_finish\<close>). The backend's answers, the clock
  readings and the random seed are arguments. Waiting for a permit is \<open>None\<close>. A panic of the
  clock inside \<^verbatim>\<open>freeze\<close> unwinds the calling task; only the freeze state it leaves is kept.
\<close>

section \<open>Metrics\<close>

record provider_metrics =
  mt_requests :: u64
  mt_errors :: u64
  mt_input :: u64
  mt_output :: u64
  mt_cost_micros :: u64

definition metrics_new :: provider_metrics where
  "metrics_new = \<lparr>mt_requests = 0, mt_errors = 0, mt_input = 0, mt_output = 0, mt_cost_micros = 0\<rparr>"

definition safe_f64_to_u64 :: "f64 \<Rightarrow> u64" where
  "safe_f64_to_u64 v =
     (if v = FNaN \<or> \<not> f_less f_zero v then 0
      else if v = FInf False \<or> v = FInf True \<or> \<not> f_less v (Fin False 1 64) then of_nat u64_max
      else of_nat (f_to_nat (f_floor v)))"

definition success_cost :: "u32 \<Rightarrow> u32 \<Rightarrow> f64 \<Rightarrow> f64 \<Rightarrow> u64" where
  "success_cost i out cin cout =
     (let input_cost = f_mul (f_div (f_of_nat (unat i)) (f_of_nat 1000)) cin;
          output_cost = f_mul (f_div (f_of_nat (unat out)) (f_of_nat 1000)) cout
      in safe_f64_to_u64 (f_mul (f_add input_cost output_cost) (f_of_nat 1000000)))"

definition record_success_with_cost :: "u32 \<Rightarrow> u32 \<Rightarrow> f64 \<Rightarrow> f64 \<Rightarrow> provider_metrics \<Rightarrow> provider_metrics" where
  "record_success_with_cost i out cin cout m = m\<lparr>mt_requests := mt_requests m + 1,
     mt_input := mt_input m + ucast i, mt_output := mt_output m + ucast out,
     mt_cost_micros := mt_cost_micros m + success_cost i out cin cout\<rparr>"

definition record_error :: "provider_metrics \<Rightarrow> provider_metrics" where
  "record_error m = m\<lparr>mt_requests := mt_requests m + 1, mt_errors := mt_errors m + 1\<rparr>"

definition metrics_reset :: "provider_metrics \<Rightarrow> provider_metrics" where
  "metrics_reset m = metrics_new"

definition error_rate :: "provider_metrics \<Rightarrow> f64" where
  "error_rate m = (if mt_requests m = 0 then f_zero
     else f_div (f_of_nat (unat (mt_errors m))) (f_of_nat (unat (mt_requests m))))"

section \<open>Error text\<close>

definition error_display :: "(string list \<Rightarrow> string) \<Rightarrow> provider_error \<Rightarrow> string" where
  "error_display dbg e = (case e of
     RateLimited p s \<Rightarrow> ''rate limited by '' @ p @ '': retry after '' @ nat_str s @ ''s''
   | QuotaExhausted p m \<Rightarrow> ''quota exhausted for '' @ p @ '': '' @ m
   | AuthenticationFailed p m \<Rightarrow> ''authentication failed for '' @ p @ '': '' @ m
   | KeyInvalid p m \<Rightarrow> ''invalid API key for '' @ p @ '': '' @ m
   | ServerError p m \<Rightarrow> ''server error from '' @ p @ '': '' @ m
   | NetworkError m \<Rightarrow> ''network error: '' @ m
   | NoProviderAvailable tags \<Rightarrow> ''no provider available matching tags '' @ dbg tags
   | ModelBudgetDenied sc r \<Rightarrow> ''model budget '' @ sc @ '': '' @ r
   | Cancelled \<Rightarrow> ''request cancelled''
   | ResponseBodyLimitExceeded n \<Rightarrow> ''response body exceeds '' @ nat_str n @ '' bytes''
   | ResponseStreamLimitExceeded b n \<Rightarrow> ''response stream '' @ b @ '' exceeds '' @ nat_str n @ '' bytes''
   | ParseError m \<Rightarrow> ''response parse error: '' @ m
   | OtherError m \<Rightarrow> m)"

section \<open>Pool state\<close>

record provider_entry =
  pe_meta :: provider_metadata
  pe_freeze :: freeze_manager
  pe_permits :: nat
  pe_max :: nat
  pe_default_temperature :: "f64 option"
  pe_default_top_p :: "f64 option"
  pe_metrics :: provider_metrics
  pe_active :: nat

record provider_pool =
  pl_entries :: "provider_entry list"
  pl_router :: tag_based_router
  pl_health_interval :: duration
  pl_global :: "nat option"

record pool_config =
  pc_sampling :: "(provider_id \<times> f64 option \<times> f64 option) list"
  pc_default_freeze_secs :: nat
  pc_max_freeze_secs :: nat
  pc_max_global :: "nat option"
  pc_strategy :: selection_strategy
  pc_health_interval_secs :: nat

text \<open>\<^verbatim>\<open>ConfiguredMetadataProvider\<close>: the operator's prices replace the backend's.\<close>

definition with_configured_costs :: "f64 \<Rightarrow> f64 \<Rightarrow> provider_metadata \<Rightarrow> provider_metadata" where
  "with_configured_costs cin cout m = m\<lparr>pm_cost_in := cin, pm_cost_out := cout\<rparr>"

text \<open>Collecting into a hash map keeps the last entry of a repeated id.\<close>

definition new_entry :: "pool_config \<Rightarrow> provider_metadata \<Rightarrow> provider_entry" where
  "new_entry cfg m =
     (let (t, p) = (case map_of (rev (pc_sampling cfg)) (pm_id m) of Some d \<Rightarrow> d | None \<Rightarrow> (None, None))
      in \<lparr>pe_meta = m, pe_freeze = freeze_manager_new (pc_default_freeze_secs cfg) (pc_max_freeze_secs cfg),
          pe_permits = unat (pm_max_concurrency m), pe_max = unat (pm_max_concurrency m),
          pe_default_temperature = t, pe_default_top_p = p, pe_metrics = metrics_new, pe_active = 0\<rparr>)"

definition from_providers :: "provider_metadata list \<Rightarrow> pool_config \<Rightarrow> provider_pool" where
  "from_providers ms cfg = \<lparr>pl_entries = map (new_entry cfg) ms,
     pl_router = router_with_strategy (pc_strategy cfg),
     pl_health_interval = secs (max (pc_health_interval_secs cfg) 1), pl_global = pc_max_global cfg\<rparr>"

definition routable_providers :: "provider_pool \<Rightarrow> routable_provider list" where
  "routable_providers pl = map (\<lambda>e. \<lparr>rp_meta = pe_meta e, rp_freeze = pe_freeze e,
     rp_available = pe_permits e, rp_max = pe_max e\<rparr>) (pl_entries pl)"

definition find_entry :: "provider_pool \<Rightarrow> provider_id \<Rightarrow> nat option" where
  "find_entry pl pid = find (\<lambda>i. pm_id (pe_meta (pl_entries pl ! i)) = pid) [0..<length (pl_entries pl)]"

definition update_entry :: "nat \<Rightarrow> (provider_entry \<Rightarrow> provider_entry) \<Rightarrow> provider_pool \<Rightarrow> provider_pool" where
  "update_entry i f pl = pl\<lparr>pl_entries := (pl_entries pl)[i := f (pl_entries pl ! i)]\<rparr>"

definition classify_and_freeze ::
  "(string list \<Rightarrow> string) \<Rightarrow> instant \<times> instant \<Rightarrow> provider_error \<Rightarrow> freeze_manager \<Rightarrow> freeze_manager" where
  "classify_and_freeze dbg t e fm =
     (let c = classify_provider_error e in
      if \<not> should_freeze c then fm
      else if is_permanent c then freeze_permanent (error_display dbg e) (fst t) fm
      else fst (freeze (error_display dbg e) (freeze_duration c) (fst t) (snd t) fm))"

definition apply_request_defaults :: "provider_entry \<Rightarrow> chat_request \<Rightarrow> chat_request" where
  "apply_request_defaults e r = r\<lparr>
     cr_temperature := (case cr_temperature r of Some x \<Rightarrow> Some x | None \<Rightarrow> pe_default_temperature e),
     cr_top_p := (case cr_top_p r of Some x \<Rightarrow> Some x | None \<Rightarrow> pe_default_top_p e)\<rparr>"

definition report_error ::
  "(string list \<Rightarrow> string) \<Rightarrow> instant \<times> instant \<Rightarrow> provider_id \<Rightarrow> provider_error \<Rightarrow> provider_pool \<Rightarrow> provider_pool" where
  "report_error dbg t pid e pl = (case find_entry pl pid of
     None \<Rightarrow> pl
   | Some i \<Rightarrow> update_entry i (\<lambda>en. en\<lparr>pe_freeze := classify_and_freeze dbg t e (pe_freeze en)\<rparr>) pl)"

section \<open>The retry loop\<close>

definition max_in_call_attempts :: nat where
  "max_in_call_attempts = 3"

definition max_in_call_backoff :: duration where
  "max_in_call_backoff = secs 2"

definition in_call_backoff :: "nat \<Rightarrow> standard_error \<Rightarrow> duration" where
  "in_call_backoff attempt c = (case c of
     SRateLimited (Some delay) \<Rightarrow> min delay max_in_call_backoff
   | _ \<Rightarrow> (let a = attempt - 1; shift = min (if a \<le> u32_max then a else 0) 4
           in min (250000000 * 2 ^ shift) max_in_call_backoff))"

text \<open>\<open>out n\<close> is the backend's answer to its n-th call; the loop returns the backoffs it
  slept and the last answer.\<close>

function retry_loop ::
  "(nat \<Rightarrow> (provider_error, chat_response) result) \<Rightarrow> nat \<Rightarrow> duration list \<times> (provider_error, chat_response) result" where
  "retry_loop out attempt = (case out attempt of
     Inr r \<Rightarrow> ([], Inr r)
   | Inl e \<Rightarrow>
       let c = classify_provider_error e in
       if is_transient c \<and> Suc attempt < max_in_call_attempts
       then (let (ds, r) = retry_loop out (Suc attempt) in (in_call_backoff (Suc attempt) c # ds, r))
       else ([], Inl e))"
  by pat_completeness auto

termination
  by (relation "measure (\<lambda>(out, a). max_in_call_attempts - a)") auto

declare retry_loop.simps [simp del]

section \<open>A chat call\<close>

definition pool_route ::
  "(string list \<Rightarrow> string) \<Rightarrow> (nat \<Rightarrow> instant \<times> instant) \<Rightarrow> nat \<Rightarrow> route_request \<Rightarrow> provider_pool
    \<Rightarrow> provider_pool \<times> (provider_error, nat) result" where
  "pool_route dbg clock seed r pl =
     (let (ps, rt, res) = select dbg clock seed (pl_router pl) (routable_providers pl) r
      in (pl\<lparr>pl_entries := map2 (\<lambda>e p. e\<lparr>pe_freeze := rp_freeze p\<rparr>) (pl_entries pl) ps, pl_router := rt\<rparr>, res))"

definition pool_acquire_global :: "provider_pool \<Rightarrow> provider_pool option" where
  "pool_acquire_global pl = (case pl_global pl of
     None \<Rightarrow> Some pl
   | Some g \<Rightarrow> if g = 0 then None else Some (pl\<lparr>pl_global := Some (g - 1)\<rparr>))"

definition pool_acquire_provider :: "nat \<Rightarrow> provider_pool \<Rightarrow> provider_pool option" where
  "pool_acquire_provider i pl =
     (if pe_permits (pl_entries pl ! i) = 0 then None
      else Some (update_entry i (\<lambda>e. e\<lparr>pe_permits := pe_permits e - 1, pe_active := pe_active e + 1\<rparr>) pl))"

text \<open>The permits and the guard of a call are dropped together.\<close>

definition pool_release_global :: "provider_pool \<Rightarrow> provider_pool" where
  "pool_release_global pl = pl\<lparr>pl_global := map_option Suc (pl_global pl)\<rparr>"

definition pool_release :: "nat \<Rightarrow> provider_pool \<Rightarrow> provider_pool" where
  "pool_release i pl = update_entry i (\<lambda>e. e\<lparr>pe_permits := pe_permits e + 1, pe_active := pe_active e - 1\<rparr>)
     (pool_release_global pl)"

definition pool_finish ::
  "(string list \<Rightarrow> string) \<Rightarrow> instant \<times> instant \<Rightarrow> nat \<Rightarrow> (provider_error, chat_response) result \<Rightarrow> provider_pool
    \<Rightarrow> provider_pool \<times> (provider_error, chat_response) result" where
  "pool_finish dbg t i res pl =
     (let m = pe_meta (pl_entries pl ! i) in
      case res of
        Inr r \<Rightarrow> (pool_release i (update_entry i (\<lambda>e. e\<lparr>pe_metrics :=
                    record_success_with_cost (tu_input (cs_usage r)) (tu_output (cs_usage r))
                      (pm_cost_in m) (pm_cost_out m) (pe_metrics e)\<rparr>) pl),
                  Inr (r\<lparr>cs_provider_id := Some (pm_id m)\<rparr>))
      | Inl e \<Rightarrow> (pool_release i (report_error dbg t (pm_id m) e
                    (update_entry i (\<lambda>en. en\<lparr>pe_metrics := record_error (pe_metrics en)\<rparr>) pl)),
                  Inl e))"

text \<open>The whole call when its permits are free: the backend is a function of the selected
  provider, the attempt number and the request it receives.\<close>

definition pool_chat_completion ::
  "(string list \<Rightarrow> string) \<Rightarrow> (nat \<Rightarrow> instant \<times> instant) \<Rightarrow> instant \<times> instant \<Rightarrow> nat
    \<Rightarrow> (nat \<Rightarrow> nat \<Rightarrow> chat_request \<Rightarrow> (provider_error, chat_response) result)
    \<Rightarrow> chat_request \<Rightarrow> route_request \<Rightarrow> provider_pool \<Rightarrow> (provider_pool \<times> (provider_error, chat_response) result) option" where
  "pool_chat_completion dbg clock t seed backend req r pl =
     (case pool_route dbg clock seed r pl of
        (pl1, Inl e) \<Rightarrow> Some (pl1, Inl e)
      | (pl1, Inr i) \<Rightarrow>
          (case Option.bind (pool_acquire_global pl1) (pool_acquire_provider i) of
             None \<Rightarrow> None
           | Some pl2 \<Rightarrow>
               let eff = apply_request_defaults (pl_entries pl2 ! i) req
               in Some (pool_finish dbg t i (snd (retry_loop (\<lambda>n. backend i n eff) 0)) pl2)))"

section \<open>Streams\<close>

text \<open>The items of a chunk stream, as far as the accounting reads them.\<close>

datatype stream_item = Chunk "(u32 \<times> u32) option" | StreamError provider_error

record stream_metrics_state =
  sm_freeze :: freeze_manager
  sm_metrics :: provider_metrics
  sm_cost_in :: f64
  sm_cost_out :: f64
  sm_usage :: "(u32 \<times> u32) option"
  sm_recorded :: bool

fun stream_item_step ::
  "(string list \<Rightarrow> string) \<Rightarrow> instant \<times> instant \<Rightarrow> stream_metrics_state \<Rightarrow> stream_item \<Rightarrow> stream_metrics_state" where
  "stream_item_step dbg t st (Chunk u) = (case u of None \<Rightarrow> st | Some v \<Rightarrow> st\<lparr>sm_usage := Some v\<rparr>)"
| "stream_item_step dbg t st (StreamError e) =
     (if sm_recorded st then st
      else st\<lparr>sm_recorded := True, sm_metrics := record_error (sm_metrics st),
              sm_freeze := classify_and_freeze dbg t e (sm_freeze st)\<rparr>)"

definition stream_end_step :: "stream_metrics_state \<Rightarrow> stream_metrics_state" where
  "stream_end_step st =
     (if sm_recorded st then st
      else let (i, out) = (case sm_usage st of None \<Rightarrow> (0, 0) | Some v \<Rightarrow> v)
           in st\<lparr>sm_recorded := True,
                 sm_metrics := record_success_with_cost i out (sm_cost_in st) (sm_cost_out st) (sm_metrics st)\<rparr>)"

section \<open>Health checks\<close>

definition health_request :: chat_request where
  "health_request = \<lparr>cr_model = None, cr_mode = TextChat, cr_max_tokens = Some 1,
     cr_temperature = Some f_zero, cr_top_p = None, cr_extra = JNull, cr_payload = JString ''ping''\<rparr>"

text \<open>\<open>None\<close> is a probe that ran into the timeout.\<close>

definition health_check :: "(chat_request \<Rightarrow> (provider_error, chat_response) result option) \<Rightarrow> (provider_error, unit) result" where
  "health_check ping = (case ping health_request of
     Some (Inr _) \<Rightarrow> Inr ()
   | Some (Inl e) \<Rightarrow> Inl e
   | None \<Rightarrow> Inl (NetworkError ''health check timed out''))"

definition check_and_thaw ::
  "(string list \<Rightarrow> string) \<Rightarrow> instant \<times> instant \<Rightarrow> (chat_request \<Rightarrow> (provider_error, chat_response) result option)
    \<Rightarrow> freeze_manager \<Rightarrow> freeze_manager \<times> (provider_error, unit) result" where
  "check_and_thaw dbg t ping fm = (case health_check ping of
     Inr u \<Rightarrow> (thaw fm, Inr ())
   | Inl e \<Rightarrow> (fst (freeze (''health check failed: '' @ error_display dbg e) None (fst t) (snd t) fm), Inl e))"

definition pool_freeze :: "instant \<times> instant \<Rightarrow> provider_id \<Rightarrow> string \<Rightarrow> provider_pool \<Rightarrow> provider_pool" where
  "pool_freeze t pid reason pl = (case find_entry pl pid of
     None \<Rightarrow> pl
   | Some i \<Rightarrow> update_entry i (\<lambda>e. e\<lparr>pe_freeze := fst (freeze reason None (fst t) (snd t) (pe_freeze e))\<rparr>) pl)"

definition pool_thaw ::
  "(string list \<Rightarrow> string) \<Rightarrow> instant \<times> instant \<Rightarrow> (provider_id \<Rightarrow> chat_request \<Rightarrow> (provider_error, chat_response) result option)
    \<Rightarrow> provider_id \<Rightarrow> provider_pool \<Rightarrow> provider_pool \<times> (provider_error, unit) result" where
  "pool_thaw dbg t ping pid pl = (case find_entry pl pid of
     None \<Rightarrow> (pl, Inl (OtherError (''provider not found: '' @ pid)))
   | Some i \<Rightarrow>
       let (fm, res) = check_and_thaw dbg t (ping pid) (pe_freeze (pl_entries pl ! i))
       in (update_entry i (\<lambda>e. e\<lparr>pe_freeze := fm\<rparr>) pl, res))"

record provider_status =
  ps_id :: provider_id
  ps_is_frozen :: bool
  ps_reason :: "string option"
  ps_active :: nat
  ps_requests :: u64
  ps_errors :: u64

definition provider_statuses :: "instant \<Rightarrow> provider_pool \<Rightarrow> provider_status list" where
  "provider_statuses now pl = map (\<lambda>e. let fs = freeze_status_of now (pe_freeze e) in
     \<lparr>ps_id = pm_id (pe_meta e), ps_is_frozen = fst_is_frozen fs, ps_reason = fst_reason fs,
      ps_active = pe_active e, ps_requests = mt_requests (pe_metrics e), ps_errors = mt_errors (pe_metrics e)\<rparr>)
     (pl_entries pl)"

text \<open>The periodic recovery loop over the statuses read at its start.\<close>

fun thaw_each ::
  "(string list \<Rightarrow> string) \<Rightarrow> instant \<times> instant \<Rightarrow> (provider_id \<Rightarrow> chat_request \<Rightarrow> (provider_error, chat_response) result option)
    \<Rightarrow> provider_status list \<Rightarrow> provider_pool \<times> nat \<Rightarrow> provider_pool \<times> nat" where
  "thaw_each dbg t ping [] acc = acc"
| "thaw_each dbg t ping (s # ss) (pl, n) =
     (if ps_is_frozen s then
        (let (pl', r) = pool_thaw dbg t ping (ps_id s) pl
         in thaw_each dbg t ping ss (pl', if is_ok r then Suc n else n))
      else thaw_each dbg t ping ss (pl, n))"

definition thaw_frozen_providers ::
  "(string list \<Rightarrow> string) \<Rightarrow> instant \<Rightarrow> instant \<times> instant \<Rightarrow> (provider_id \<Rightarrow> chat_request \<Rightarrow> (provider_error, chat_response) result option)
    \<Rightarrow> provider_pool \<Rightarrow> provider_pool \<times> nat" where
  "thaw_frozen_providers dbg now t ping pl = thaw_each dbg t ping (provider_statuses now pl) (pl, 0)"

section \<open>Concurrent calls\<close>

text \<open>
  A task waits for its provider's permit while it holds the global one, or runs with both.
  The events of all tasks interleave freely; an event that is not possible leaves the state
  unchanged. Dropping a future at an await point is \<open>CCancel\<close>.
\<close>

datatype task = Waiting nat | Running nat

datatype call_event =
    CRoute "string list \<Rightarrow> string" "nat \<Rightarrow> instant \<times> instant" nat route_request
  | CGlobal nat
  | CProvider nat
  | CFinish "string list \<Rightarrow> string" "instant \<times> instant" nat "(provider_error, chat_response) result"
  | CCancel task

fun cancel_task :: "task \<Rightarrow> provider_pool \<Rightarrow> provider_pool" where
  "cancel_task (Waiting i) pl = pool_release_global pl"
| "cancel_task (Running i) pl = pool_release i pl"

fun call_step :: "provider_pool \<times> task list \<Rightarrow> call_event \<Rightarrow> provider_pool \<times> task list" where
  "call_step (pl, ts) (CRoute dbg clock seed r) = (fst (pool_route dbg clock seed r pl), ts)"
| "call_step (pl, ts) (CGlobal i) =
     (if i < length (pl_entries pl) then
        (case pool_acquire_global pl of None \<Rightarrow> (pl, ts) | Some pl' \<Rightarrow> (pl', Waiting i # ts))
      else (pl, ts))"
| "call_step (pl, ts) (CProvider i) =
     (if Waiting i \<in> set ts then
        (case pool_acquire_provider i pl of None \<Rightarrow> (pl, ts)
         | Some pl' \<Rightarrow> (pl', Running i # remove1 (Waiting i) ts))
      else (pl, ts))"
| "call_step (pl, ts) (CFinish dbg t i res) =
     (if Running i \<in> set ts then (fst (pool_finish dbg t i res pl), remove1 (Running i) ts) else (pl, ts))"
| "call_step (pl, ts) (CCancel k) =
     (if k \<in> set ts then (cancel_task k pl, remove1 k ts) else (pl, ts))"

fun task_index :: "task \<Rightarrow> nat" where
  "task_index (Waiting i) = i"
| "task_index (Running i) = i"

definition slots :: "provider_pool \<Rightarrow> (nat \<times> nat) list" where
  "slots pl = map (\<lambda>e. (pe_permits e, pe_active e)) (pl_entries pl)"

definition calls_ok :: "nat list \<Rightarrow> nat option \<Rightarrow> provider_pool \<times> task list \<Rightarrow> bool" where
  "calls_ok maxs limit s \<longleftrightarrow> (case s of (pl, ts) \<Rightarrow>
     length (slots pl) = length maxs
     \<and> (\<forall>i<length maxs. fst (slots pl ! i) + count_list ts (Running i) = maxs ! i
          \<and> snd (slots pl ! i) = count_list ts (Running i))
     \<and> (\<forall>k\<in>set ts. task_index k < length maxs)
     \<and> (case (pl_global pl, limit) of
          (None, None) \<Rightarrow> True | (Some g, Some l) \<Rightarrow> g + length ts = l | _ \<Rightarrow> False))"

lemma slots_update_entry:
  assumes "\<And>e. pe_permits (f e) = pe_permits e" "\<And>e. pe_active (f e) = pe_active e"
  shows "slots (update_entry i f pl) = slots pl"
proof (cases "i < length (pl_entries pl)")
  case True
  with assms show ?thesis by (auto simp: slots_def update_entry_def nth_list_update intro!: nth_equalityI)
qed (simp add: slots_def update_entry_def list_update_beyond)

lemma length_update_entry [simp]: "length (pl_entries (update_entry i f pl)) = length (pl_entries pl)"
  by (simp add: update_entry_def)

lemma global_update_entry [simp]: "pl_global (update_entry i f pl) = pl_global pl"
  by (simp add: update_entry_def)

lemma length_slots: "length (slots pl) = length (pl_entries pl)"
  by (simp add: slots_def)

lemma slots_report_error: "slots (report_error dbg t pid e pl) = slots pl"
  by (auto simp: report_error_def slots_update_entry split: option.splits)

lemma global_report_error [simp]: "pl_global (report_error dbg t pid e pl) = pl_global pl"
  by (auto simp: report_error_def split: option.splits)

lemma slots_pool_route: "slots (fst (pool_route dbg clock seed r pl)) = slots pl"
proof -
  obtain ps rt res where s: "select dbg clock seed (pl_router pl) (routable_providers pl) r = (ps, rt, res)"
    by (metis prod_cases3)
  have "length ps = length (pl_entries pl)"
    using s by (auto simp: select_def Let_def routable_providers_def split: option.splits if_splits prod.splits)
  then show ?thesis
    using s by (auto simp: pool_route_def slots_def intro!: nth_equalityI)
qed

lemma global_pool_route [simp]: "pl_global (fst (pool_route dbg clock seed r pl)) = pl_global pl"
  by (simp add: pool_route_def split: prod.splits)

lemma slots_acquire_provider:
  assumes "pool_acquire_provider i pl = Some pl'" "i < length (slots pl)"
  shows "slots pl' = (slots pl)[i := (fst (slots pl ! i) - 1, snd (slots pl ! i) + 1)]"
    and "fst (slots pl ! i) > 0" and "pl_global pl' = pl_global pl"
  using assms by (auto simp: pool_acquire_provider_def slots_def update_entry_def map_update split: if_splits)

lemma slots_release:
  assumes "i < length (slots pl)"
  shows "slots (pool_release i pl) = (slots pl)[i := (fst (slots pl ! i) + 1, snd (slots pl ! i) - 1)]"
    and "pl_global (pool_release i pl) = map_option Suc (pl_global pl)"
  using assms by (simp_all add: pool_release_def pool_release_global_def slots_def update_entry_def map_update)

lemma slots_finish:
  assumes "i < length (slots pl)"
  shows "slots (fst (pool_finish dbg t i res pl)) = (slots pl)[i := (fst (slots pl ! i) + 1, snd (slots pl ! i) - 1)]"
    and "pl_global (fst (pool_finish dbg t i res pl)) = map_option Suc (pl_global pl)"
  using assms
  by (auto simp: pool_finish_def Let_def slots_release slots_report_error slots_update_entry length_slots
      split: sum.splits)

lemma count_remove1:
  "x \<in> set xs \<Longrightarrow> count_list (remove1 x xs) y + (if x = y then 1 else 0) = count_list xs y"
  by (induction xs) auto

lemma calls_ok_leave:
  assumes ok: "calls_ok maxs limit (pl, ts)" and k: "Running i \<in> set ts"
    and sl: "slots pl' = (slots pl)[i := (fst (slots pl ! i) + 1, snd (slots pl ! i) - 1)]"
    and gl: "pl_global pl' = map_option Suc (pl_global pl)"
  shows "calls_ok maxs limit (pl', remove1 (Running i) ts)"
proof -
  have i: "i < length maxs" using ok k by (auto simp: calls_ok_def)
  have c: "count_list (remove1 (Running i) ts) (Running j) + (if i = j then 1 else 0) = count_list ts (Running j)" for j
    using count_remove1 [OF k, of "Running j"] by simp
  have "fst (slots pl' ! j) + count_list (remove1 (Running i) ts) (Running j) = maxs ! j
      \<and> snd (slots pl' ! j) = count_list (remove1 (Running i) ts) (Running j)" if "j < length maxs" for j
    using ok that c [of j] sl by (auto simp: calls_ok_def nth_list_update)
  moreover have "length (remove1 (Running i) ts) + 1 = length ts"
    using k length_pos_if_in_set [OF k] by (simp add: length_remove1)
  moreover have "set (remove1 (Running i) ts) \<subseteq> set ts" by (rule set_remove1_subset)
  ultimately show ?thesis
    using ok sl gl by (auto simp: calls_ok_def split: option.splits)
qed

lemma calls_ok_leave_waiting:
  assumes ok: "calls_ok maxs limit (pl, ts)" and k: "Waiting i \<in> set ts"
  shows "calls_ok maxs limit (pool_release_global pl, remove1 (Waiting i) ts)"
proof -
  have "count_list (remove1 (Waiting i) ts) (Running j) = count_list ts (Running j)" for j
    using count_remove1 [OF k, of "Running j"] by simp
  moreover have "length (remove1 (Waiting i) ts) + 1 = length ts"
    using k length_pos_if_in_set [OF k] by (simp add: length_remove1)
  moreover have "set (remove1 (Waiting i) ts) \<subseteq> set ts" by (rule set_remove1_subset)
  moreover have "slots (pool_release_global pl) = slots pl" by (simp add: slots_def pool_release_global_def)
  ultimately show ?thesis
    using ok by (auto simp: calls_ok_def pool_release_global_def split: option.splits)
qed

lemma calls_ok_enter:
  assumes ok: "calls_ok maxs limit (pl, ts)" and k: "Waiting i \<in> set ts" and a: "pool_acquire_provider i pl = Some pl'"
  shows "calls_ok maxs limit (pl', Running i # remove1 (Waiting i) ts)"
proof -
  have i: "i < length maxs" "length (slots pl) = length maxs" using ok k by (auto simp: calls_ok_def)
  note sl = slots_acquire_provider [OF a, unfolded i(2), OF i(1)]
  have "count_list (remove1 (Waiting i) ts) (Running j) = count_list ts (Running j)" for j
    using count_remove1 [OF k, of "Running j"] by simp
  then have "fst (slots pl' ! j) + count_list (Running i # remove1 (Waiting i) ts) (Running j) = maxs ! j
      \<and> snd (slots pl' ! j) = count_list (Running i # remove1 (Waiting i) ts) (Running j)" if "j < length maxs" for j
    using ok that sl(1,2) i(2) by (auto simp: calls_ok_def nth_list_update)
  moreover have "length (Running i # remove1 (Waiting i) ts) = length ts"
    using k length_pos_if_in_set [OF k] by (simp add: length_remove1)
  moreover have "set (remove1 (Waiting i) ts) \<subseteq> set ts" by (rule set_remove1_subset)
  ultimately show ?thesis
    using ok sl(1,3) i by (auto simp: calls_ok_def split: option.splits)
qed

lemma calls_ok_global:
  assumes "calls_ok maxs limit (pl, ts)" "pool_acquire_global pl = Some pl'" "i < length (pl_entries pl)"
  shows "calls_ok maxs limit (pl', Waiting i # ts)"
proof -
  have "slots pl' = slots pl" using assms(2)
    by (auto simp: pool_acquire_global_def slots_def split: option.splits if_splits)
  with assms show ?thesis
    by (auto simp: calls_ok_def pool_acquire_global_def length_slots split: option.splits if_splits)
qed

lemma call_step_ok:
  assumes ok: "calls_ok maxs limit (pl, ts)"
  shows "calls_ok maxs limit (call_step (pl, ts) ev)"
proof (cases ev)
  case (CRoute dbg clock seed r)
  with ok show ?thesis by (simp add: calls_ok_def slots_pool_route)
next
  case (CGlobal i)
  with ok show ?thesis by (auto simp: calls_ok_global split: option.splits)
next
  case (CProvider i)
  with ok show ?thesis by (auto simp: calls_ok_enter split: option.splits)
next
  case (CFinish dbg t i res)
  have "i < length (slots pl)" if "Running i \<in> set ts" using ok that by (auto simp: calls_ok_def)
  with ok CFinish show ?thesis by (auto intro!: calls_ok_leave simp: slots_finish)
next
  case (CCancel k)
  have "i < length (slots pl)" if "Running i \<in> set ts" for i using ok that by (auto simp: calls_ok_def)
  with ok CCancel show ?thesis
    by (cases k) (auto intro!: calls_ok_leave calls_ok_leave_waiting simp: slots_release)
qed

interpretation calls: invariant_machine call_step "calls_ok maxs limit" for maxs limit
proof
  fix s ev
  assume "calls_ok maxs limit s"
  then show "calls_ok maxs limit (call_step s ev)"
    by (cases s) (metis call_step_ok)
qed

lemma calls_ok_fresh:
  "calls_ok (map (\<lambda>m. unat (pm_max_concurrency m)) ms) (pc_max_global cfg) (from_providers ms cfg, [])"
  by (auto simp: calls_ok_def from_providers_def slots_def new_entry_def split: option.splits prod.splits)

section \<open>Retries, failover, streams\<close>

lemma in_call_backoff_le: "in_call_backoff n c \<le> max_in_call_backoff"
  by (auto simp: in_call_backoff_def Let_def split: standard_error.splits option.splits)

lemma retry_loop_spec:
  assumes "retry_loop out a = (ds, r)" "a < max_in_call_attempts"
  shows "a + length ds < max_in_call_attempts \<and> r = out (a + length ds)
    \<and> (\<forall>k. a \<le> k \<and> k < a + length ds \<longrightarrow> (\<exists>e. out k = Inl e \<and> is_transient (classify_provider_error e)))
    \<and> (\<forall>e. r = Inl e \<longrightarrow> is_transient (classify_provider_error e) \<longrightarrow> Suc (a + length ds) = max_in_call_attempts)
    \<and> (\<forall>d\<in>set ds. d \<le> max_in_call_backoff)"
  using assms
proof (induction out a arbitrary: ds r rule: retry_loop.induct)
  case (1 out a)
  show ?case
  proof (cases "out a")
    case (Inr x)
    with "1.prems" show ?thesis by (auto simp: retry_loop.simps [of out a])
  next
    case (Inl e)
    show ?thesis
    proof (cases "is_transient (classify_provider_error e) \<and> Suc a < max_in_call_attempts")
      case False
      with Inl "1.prems" show ?thesis by (auto simp: retry_loop.simps [of out a])
    next
      case True
      obtain ds' where r: "retry_loop out (Suc a) = (ds', r)" "ds = in_call_backoff (Suc a) (classify_provider_error e) # ds'"
        using Inl True "1.prems"(1) by (auto simp: retry_loop.simps [of out a] split: prod.splits)
      have k: "a \<le> k \<longleftrightarrow> k = a \<or> Suc a \<le> k" for k by auto
      have IH: "Suc a + length ds' < max_in_call_attempts \<and> r = out (Suc a + length ds')
        \<and> (\<forall>k. Suc a \<le> k \<and> k < Suc a + length ds' \<longrightarrow> (\<exists>e. out k = Inl e \<and> is_transient (classify_provider_error e)))
        \<and> (\<forall>e. r = Inl e \<longrightarrow> is_transient (classify_provider_error e) \<longrightarrow> Suc (Suc a + length ds') = max_in_call_attempts)
        \<and> (\<forall>d\<in>set ds'. d \<le> max_in_call_backoff)"
        using "1.IH" [OF Inl refl True r(1)] True by blast
      then show ?thesis
        using Inl True r(2) in_call_backoff_le by (auto simp: k)
    qed
  qed
qed

lemma find_entry_self:
  assumes "distinct (map (\<lambda>e. pm_id (pe_meta e)) (pl_entries pl))" "i < length (pl_entries pl)"
  shows "find_entry pl (pm_id (pe_meta (pl_entries pl ! i))) = Some i"
proof -
  have "pm_id (pe_meta (pl_entries pl ! j)) = pm_id (pe_meta (pl_entries pl ! i)) \<longleftrightarrow> j = i" if "j < length (pl_entries pl)" for j
    using assms that by (auto simp: distinct_conv_nth)
  with assms(2) show ?thesis
    unfolding find_entry_def find_Some_iff by (intro exI [of _ i]) auto
qed

lemma metrics_find_entry:
  "find_entry (update_entry i (\<lambda>e. e\<lparr>pe_metrics := f e\<rparr>) pl) pid = find_entry pl pid"
proof -
  have "pm_id (pe_meta ((pl_entries pl)[i := (pl_entries pl ! i)\<lparr>pe_metrics := f (pl_entries pl ! i)\<rparr>] ! j))
      = pm_id (pe_meta (pl_entries pl ! j))" if "j < length (pl_entries pl)" for j
    using that by (cases "i = j") simp_all
  then have "find (\<lambda>j. pm_id (pe_meta ((pl_entries pl)[i := (pl_entries pl ! i)\<lparr>pe_metrics := f (pl_entries pl ! i)\<rparr>] ! j)) = pid)
        [0..<length (pl_entries pl)]
      = find (\<lambda>j. pm_id (pe_meta (pl_entries pl ! j)) = pid) [0..<length (pl_entries pl)]"
    by (intro find_cong) auto
  then show ?thesis by (simp add: find_entry_def update_entry_def)
qed

lemma entry_update_nth:
  "i < length (pl_entries pl) \<Longrightarrow> pl_entries (update_entry i f pl) ! i = f (pl_entries pl ! i)"
  by (simp add: update_entry_def)

lemma entries_release_global: "pl_entries (pool_release_global pl) = pl_entries pl"
  by (simp add: pool_release_global_def)

text \<open>The freeze state of the selected entry after a failed call.\<close>

lemma finish_error_freeze:
  assumes "distinct (map (\<lambda>e. pm_id (pe_meta e)) (pl_entries pl))" "i < length (pl_entries pl)"
  shows "pe_freeze (pl_entries (fst (pool_finish dbg t i (Inl e) pl)) ! i)
       = classify_and_freeze dbg t e (pe_freeze (pl_entries pl ! i))"
    and "length (pl_entries (fst (pool_finish dbg t i (Inl e) pl))) = length (pl_entries pl)"
  using find_entry_self [OF assms] assms(2)
  by (simp_all add: pool_finish_def Let_def report_error_def metrics_find_entry pool_release_def
      entry_update_nth entries_release_global)

definition freeze_until :: "standard_error \<Rightarrow> instant \<Rightarrow> freeze_manager \<Rightarrow> instant \<Rightarrow> bool" where
  "freeze_until c t' fm now \<longleftrightarrow> is_permanent c \<or> fs_permanent (fm_state fm)
     \<or> now < t' + freeze_target fm (freeze_duration c) (fs_consecutive (fm_state fm) + 1)"

lemma classify_and_freeze_frozen:
  assumes wf: "freeze_wf fm" and "should_freeze (classify_provider_error e)"
    and "freeze_until (classify_provider_error e) (snd t) fm now" "snd t + secs (fm_max_secs fm) < instant_limit"
  shows "snd (is_frozen now now' (classify_and_freeze dbg t e fm))"
proof -
  have lt: "snd t + freeze_target fm d n < instant_limit" for d n
    using assms(4) freeze_target_le [of fm d n] by simp
  have pf: "fs_permanent (fm_state fm) \<Longrightarrow> fs_frozen (fm_state fm) \<and> fs_thaw_at (fm_state fm) = None"
    using wf by (auto simp: freeze_wf_def Let_def)
  show ?thesis
    using assms(2,3) lt pf
    by (auto simp: classify_and_freeze_def Let_def freeze_until_def freeze_permanent_def freeze_def
        instant_add_def is_frozen_def is_frozen_read_def)
qed

lemma pool_route_result:
  "snd (pool_route dbg clock seed r pl)
     = snd (snd (select dbg clock seed (pl_router pl) (routable_providers pl) r))"
  by (simp add: pool_route_def split: prod.splits)

lemma stream_fold:
  "sm_recorded (foldl (stream_item_step dbg t) st items) = (sm_recorded st \<or> (\<exists>e. StreamError e \<in> set items))
   \<and> sm_metrics (foldl (stream_item_step dbg t) st items)
       = (if \<not> sm_recorded st \<and> (\<exists>e. StreamError e \<in> set items) then record_error (sm_metrics st) else sm_metrics st)"
proof (induction items arbitrary: st)
  case (Cons x xs)
  then show ?case by (cases x) (auto split: option.splits)
qed simp

section \<open>Properties\<close>

text \<open>C11. Concurrency limits hold under every interleaving: in any sequence of routing, permit
  acquisition, completion and cancellation on a fresh pool, no provider ever runs more calls than
  its \<^verbatim>\<open>max_concurrency\<close>, all calls together never exceed the global limit, and the number of
  active requests the operator sees is exactly the number of running calls.\<close>

theorem concurrency_limits_hold:
  assumes "foldl call_step (from_providers ms cfg, []) evs = (pl, ts)" "i < length ms"
  shows "count_list ts (Running i) \<le> unat (pm_max_concurrency (ms ! i))
    \<and> pe_active (pl_entries pl ! i) = count_list ts (Running i)
    \<and> (case pc_max_global cfg of None \<Rightarrow> True | Some l \<Rightarrow> length ts \<le> l)"
proof -
  let ?maxs = "map (\<lambda>m. unat (pm_max_concurrency m)) ms"
  have ok: "calls_ok ?maxs (pc_max_global cfg) (pl, ts)"
    using calls.run_inv [OF calls_ok_fresh, of ms cfg evs] assms(1) by simp
  then have "fst (slots pl ! i) + count_list ts (Running i) = ?maxs ! i \<and> snd (slots pl ! i) = count_list ts (Running i)"
    and "i < length (pl_entries pl)"
    using assms(2) by (auto simp: calls_ok_def length_slots)
  with assms(2) have "count_list ts (Running i) \<le> unat (pm_max_concurrency (ms ! i))"
    "pe_active (pl_entries pl ! i) = count_list ts (Running i)"
    by (auto simp: slots_def)
  with ok show ?thesis by (auto simp: calls_ok_def split: option.splits)
qed


definition sample_config :: pool_config where
  "sample_config = \<lparr>pc_sampling = [], pc_default_freeze_secs = 30, pc_max_freeze_secs = 3600,
     pc_max_global = Some 4, pc_strategy = Priority, pc_health_interval_secs = 60\<rparr>"

theorem concurrency_limits_hold_witness:
  "\<exists>pl ts. foldl call_step (from_providers [sample_meta ''a'' []] sample_config, []) [CGlobal 0, CProvider 0] = (pl, ts)
     \<and> count_list ts (Running 0) \<le> 10 \<and> length ts \<le> 4"
proof -
  obtain pl ts where s: "foldl call_step (from_providers [sample_meta ''a'' []] sample_config, []) [CGlobal 0, CProvider 0] = (pl, ts)"
    by fastforce
  from concurrency_limits_hold [OF s, of 0] s show ?thesis
    by (simp add: sample_config_def sample_meta_def)
qed

text \<open>C13. A chat call retries only what is worth retrying: it calls the backend at most three
  times, every call before the last failed with a transient error, each backoff is at most two
  seconds, and it gives up on a transient error only after the third attempt; the answer is the
  last backend answer.\<close>

theorem retry_loop_bounded:
  assumes "retry_loop out 0 = (ds, r)"
  shows "length ds < 3 \<and> r = out (length ds)
    \<and> (\<forall>k<length ds. \<exists>e. out k = Inl e \<and> is_transient (classify_provider_error e))
    \<and> (\<forall>e. r = Inl e \<and> is_transient (classify_provider_error e) \<longrightarrow> length ds = 2)
    \<and> (\<forall>d\<in>set ds. d \<le> secs 2)"
  using retry_loop_spec [OF assms] by (simp add: max_in_call_attempts_def max_in_call_backoff_def)

theorem retry_loop_bounded_witness:
  "length (fst (retry_loop (\<lambda>n. Inl (NetworkError ''down'')) 0)) < 3
   \<and> list_all (\<lambda>d. d \<le> secs 2) (fst (retry_loop (\<lambda>n. Inl (NetworkError ''down'')) 0))"
proof -
  obtain ds r where s: "retry_loop (\<lambda>n. Inl (NetworkError ''down'')) 0 = (ds, r)" by fastforce
  from retry_loop_bounded [OF s] s show ?thesis by (simp add: list_all_iff)
qed

text \<open>C12. Failover: after a call on provider \<open>i\<close> ends with an error that freezes, automatic
  routing does not choose that provider until the freeze ends (never again, when the error is
  permanent or the provider was permanently frozen already).\<close>

theorem failed_provider_not_routed:
  assumes "distinct (map (\<lambda>e. pm_id (pe_meta e)) (pl_entries pl))" "i < length (pl_entries pl)"
    and "freeze_wf (pe_freeze (pl_entries pl ! i))"
    and "should_freeze (classify_provider_error e)"
    and "snd t + secs (fm_max_secs (pe_freeze (pl_entries pl ! i))) < instant_limit"
    and "freeze_until (classify_provider_error e) (snd t) (pe_freeze (pl_entries pl ! i)) (fst (clock i))"
    and "rr_preferred_provider r = None"
  shows "snd (pool_route dbg' clock seed r (fst (pool_finish dbg t i (Inl e) pl))) \<noteq> Inr i"
proof
  let ?pl = "fst (pool_finish dbg t i (Inl e) pl)"
  assume "snd (pool_route dbg' clock seed r ?pl) = Inr i"
  then have "eligible clock r (routable_providers ?pl) i"
    by (intro select_eligible [OF assms(7)]) (simp add: pool_route_result)
  then have "\<not> snd (is_frozen (fst (clock i)) (snd (clock i)) (pe_freeze (pl_entries ?pl ! i)))"
    using finish_error_freeze(2) [OF assms(1,2)] assms(2) by (simp add: eligible_def routable_providers_def)
  with classify_and_freeze_frozen [OF assms(3,4,6,5)] show False
    by (simp add: finish_error_freeze(1) [OF assms(1,2)])
qed

theorem failed_provider_not_routed_witness:
  "snd (pool_route concat (\<lambda>_. (secs 10, secs 10)) 0 route_default
      (fst (pool_finish concat (0, 0) 0 (Inl (NetworkError ''down'')) (from_providers [sample_meta ''a'' []] sample_config)))) \<noteq> Inr 0"
  by (rule failed_provider_not_routed)
    (simp_all add: from_providers_def new_entry_def sample_config_def route_default_def freeze_wf_def
      freeze_until_def freeze_target_def freeze_manager_new_def thawed_state_def secs_def instant_limit_def)

text \<open>A budget denial is not the provider's fault: a call that ends with it changes no
  freeze state, and it is never retried.\<close>

theorem budget_denial_harmless:
  "map pe_freeze (pl_entries (fst (pool_finish dbg t i (Inl (ModelBudgetDenied sc why)) pl))) = map pe_freeze (pl_entries pl)
   \<and> retry_loop (\<lambda>n. Inl (ModelBudgetDenied sc why)) 0 = ([], Inl (ModelBudgetDenied sc why))"
proof
  have upd: "map pe_freeze (pl_entries (update_entry j f q)) = map pe_freeze (pl_entries q)"
    if "\<And>x. pe_freeze (f x) = pe_freeze x" for j f q
    using that by (cases "j < length (pl_entries q)")
      (auto simp: update_entry_def list_update_beyond nth_list_update intro!: nth_equalityI)
  have same: "classify_and_freeze dbg t (ModelBudgetDenied sc why) fm = fm" for fm
    by (simp add: classify_and_freeze_def)
  show "map pe_freeze (pl_entries (fst (pool_finish dbg t i (Inl (ModelBudgetDenied sc why)) pl))) = map pe_freeze (pl_entries pl)"
    by (simp add: pool_finish_def Let_def report_error_def pool_release_def entries_release_global upd same
        split: option.splits)
  show "retry_loop (\<lambda>n. Inl (ModelBudgetDenied sc why)) 0 = ([], Inl (ModelBudgetDenied sc why))"
    by (simp add: retry_loop.simps)
qed

text \<open>A stream counts once: whatever chunks and errors it yields, when a fresh stream ends it
  has added exactly one request, and one error exactly when some item was an error.\<close>

theorem stream_counted_once:
  assumes "\<not> sm_recorded st" "fin = stream_end_step (foldl (stream_item_step dbg t) st items)"
  shows "sm_recorded fin \<and> mt_requests (sm_metrics fin) = mt_requests (sm_metrics st) + 1
    \<and> mt_errors (sm_metrics fin) = mt_errors (sm_metrics st) + (if \<exists>e. StreamError e \<in> set items then 1 else 0)
    \<and> stream_end_step fin = fin"
  using stream_fold [of dbg t st items] assms
  by (auto simp: stream_end_step_def record_error_def record_success_with_cost_def split: prod.splits)

definition sample_stream :: stream_metrics_state where
  "sample_stream = \<lparr>sm_freeze = freeze_manager_new 30 3600, sm_metrics = metrics_new, sm_cost_in = f_zero,
     sm_cost_out = f_zero, sm_usage = None, sm_recorded = False\<rparr>"

theorem stream_counted_once_witness:
  "mt_requests (sm_metrics (stream_end_step (foldl (stream_item_step concat (0, 0)) sample_stream
      [Chunk None, StreamError Cancelled, StreamError Cancelled]))) = 1"
  using stream_counted_once [OF _ refl, of sample_stream concat "(0, 0)" "[Chunk None, StreamError Cancelled, StreamError Cancelled]"]
  by (simp add: sample_stream_def metrics_new_def)

end
