(* ===== verification/Isotp.thy ===== *)
theory Isotp
  imports Prelude
begin

unbundle bit_operations_syntax

text \<open>
  ISO-TP receiver reassembly, \<^verbatim>\<open>crates/hf-automotive/src/isotp.rs\<close>: the streaming reassembler of
  one connection, its Single, First and Consecutive frame handlers and the best-effort driver.
  Frames are lists of bytes; lengths are \<^verbatim>\<open>usize\<close> values below \<^verbatim>\<open>2^32\<close> and kept as naturals.
  The reference is a sender that segments payloads into frames as ISO 15765-2 (and the crate's
  own tests) do.
\<close>

section \<open>Slices\<close>

text \<open>\<^verbatim>\<open>slice::get(a..b)\<close> and \<^verbatim>\<open>slice::get(a..)\<close>.\<close>

definition slice_get :: "'a list \<Rightarrow> nat \<Rightarrow> nat \<Rightarrow> 'a list option" where
  "slice_get xs a b = (if a \<le> b \<and> b \<le> length xs then Some (take (b - a) (drop a xs)) else None)"

definition slice_from :: "'a list \<Rightarrow> nat \<Rightarrow> 'a list option" where
  "slice_from xs a = (if a \<le> length xs then Some (drop a xs) else None)"

definition list_get :: "'a list \<Rightarrow> nat \<Rightarrow> 'a option" where
  "list_get xs i = (if i < length xs then Some (xs ! i) else None)"

section \<open>The reassembler\<close>

datatype addressing = AddrNormal | AddrExtended

datatype pdu = Pdu "u8 list"

datatype isotp_error = Truncated | SequenceError u8 u8

record reassembler =
  ra_addressing :: addressing
  ra_buffer :: "u8 list"
  ra_expected :: nat
  ra_next_sn :: u8
  ra_active :: bool

definition reassembler_new :: "addressing \<Rightarrow> reassembler" where
  "reassembler_new a = \<lparr>ra_addressing = a, ra_buffer = [], ra_expected = 0, ra_next_sn = 0, ra_active = False\<rparr>"

definition reassembler_reset :: "reassembler \<Rightarrow> reassembler" where
  "reassembler_reset r = r\<lparr>ra_buffer := [], ra_expected := 0, ra_next_sn := 0, ra_active := False\<rparr>"

definition reassembler_finish :: "reassembler \<Rightarrow> reassembler \<times> pdu" where
  "reassembler_finish r = (reassembler_reset r, Pdu (take (ra_expected r) (ra_buffer r)))"

type_synonym push_result = "(isotp_error, pdu option) result"

definition single_frame :: "reassembler \<Rightarrow> u8 list \<Rightarrow> reassembler \<times> push_result" where
  "single_frame r pci =
     (let r' = reassembler_reset r;
          low = hd pci AND 0x0F;
          hdr = (if low \<noteq> 0 then Inr (unat low, 1)
                 else bind_result (ok_or Truncated (list_get pci 1)) (\<lambda>b. Inr (unat b, 2)))
      in (r', bind_result hdr (\<lambda>(len, start).
                if len = 0 then Inl Truncated
                else bind_result (ok_or Truncated (slice_get pci start (start + len))) (\<lambda>d. Inr (Some (Pdu d))))))"

text \<open>\<^verbatim>\<open>u32::from_be_bytes\<close>.\<close>

definition be_value :: "u8 list \<Rightarrow> nat" where
  "be_value bs = foldl (\<lambda>n b. n * 256 + unat b) 0 bs"

definition first_header :: "u8 list \<Rightarrow> (isotp_error, nat \<times> nat) result" where
  "first_header pci =
     (let high = unat (hd pci AND 0x0F) in
      bind_result (ok_or Truncated (list_get pci 1)) (\<lambda>b.
        let low = unat b in
        if high = 0 \<and> low = 0
        then bind_result (ok_or Truncated (slice_get pci 2 6)) (\<lambda>bs. Inr (be_value bs, 6))
        else Inr (high * 256 + low, 2)))"

definition first_frame :: "reassembler \<Rightarrow> u8 list \<Rightarrow> reassembler \<times> push_result" where
  "first_frame r pci =
     (let r' = reassembler_reset r in
      case bind_result (first_header pci) (\<lambda>(len, start).
             if len = 0 then Inl Truncated
             else bind_result (ok_or Truncated (slice_from pci start)) (\<lambda>payload.
               if payload = [] \<or> len \<le> length payload then Inl Truncated else Inr (len, payload))) of
        Inl e \<Rightarrow> (r', Inl e)
      | Inr (len, payload) \<Rightarrow>
          (let r'' = r'\<lparr>ra_buffer := ra_buffer r' @ payload, ra_expected := len, ra_next_sn := 1, ra_active := True\<rparr>
           in if length (ra_buffer r'') \<ge> ra_expected r''
              then (let (q, p) = reassembler_finish r'' in (q, Inr (Some p)))
              else (r'', Inr None)))"

definition consecutive_frame :: "reassembler \<Rightarrow> u8 list \<Rightarrow> reassembler \<times> push_result" where
  "consecutive_frame r pci =
     (if \<not> ra_active r then (r, Inr None)
      else
        let sn = hd pci AND 0x0F in
        if sn \<noteq> ra_next_sn r then (reassembler_reset r, Inl (SequenceError (ra_next_sn r) sn))
        else if length pci = 1 then (reassembler_reset r, Inl Truncated)
        else
          let remaining = ra_expected r - length (ra_buffer r);
              payload = drop 1 pci;
              r' = r\<lparr>ra_buffer := ra_buffer r @ take (min remaining (length payload)) payload,
                     ra_next_sn := (ra_next_sn r + 1) AND 0x0F\<rparr>
          in if length (ra_buffer r') \<ge> ra_expected r'
             then (let (q, p) = reassembler_finish r' in (q, Inr (Some p)))
             else (r', Inr None))"

definition pci_offset :: "addressing \<Rightarrow> nat" where
  "pci_offset a = (case a of AddrNormal \<Rightarrow> 0 | AddrExtended \<Rightarrow> 1)"

definition push_frame :: "reassembler \<Rightarrow> u8 list \<Rightarrow> reassembler \<times> push_result" where
  "push_frame r frame =
     (let pci = drop (pci_offset (ra_addressing r)) frame in
      if pci = [] then (reassembler_reset r, Inl Truncated)
      else let kind = unat (drop_bit 4 (hd pci)) in
        if kind = 0 then single_frame r pci
        else if kind = 1 then first_frame r pci
        else if kind = 2 then consecutive_frame r pci
        else (r, Inr None))"

definition reassemble_step :: "reassembler \<times> pdu list \<Rightarrow> u8 list \<Rightarrow> reassembler \<times> pdu list" where
  "reassemble_step s frame = (case s of (r, out) \<Rightarrow>
     (case push_frame r frame of
        (r', Inr (Some p)) \<Rightarrow> (r', out @ [p])
      | (r', Inr None) \<Rightarrow> (r', out)
      | (r', Inl _) \<Rightarrow> (reassembler_reset r', out)))"

definition reassemble_all :: "u8 list list \<Rightarrow> addressing \<Rightarrow> pdu list" where
  "reassemble_all frames a = snd (foldl reassemble_step (reassembler_new a, []) frames)"

section \<open>The reference sender\<close>

function cf_frames :: "u8 \<Rightarrow> u8 list \<Rightarrow> u8 list list" where
  "cf_frames sn p = (if p = [] then []
     else ((0x20 OR (sn AND 0x0F)) # take 7 p) # cf_frames ((sn + 1) AND 0x0F) (drop 7 p))"
  by pat_completeness auto

termination
  by (relation "measure (\<lambda>(sn, p). length p)") auto

declare cf_frames.simps [simp del]

definition segment :: "u8 list \<Rightarrow> u8 list list" where
  "segment p = (if length p \<le> 7 then [of_nat (length p) # p]
     else ((0x10 OR of_nat (length p div 256)) # of_nat (length p mod 256) # take 6 p) # cf_frames 1 (drop 6 p))"

text \<open>Extended addressing puts an address byte in front of every frame.\<close>

definition addressed :: "addressing \<Rightarrow> u8 \<Rightarrow> u8 list \<Rightarrow> u8 list" where
  "addressed a x f = (case a of AddrNormal \<Rightarrow> f | AddrExtended \<Rightarrow> x # f)"

definition is_flow_control :: "addressing \<Rightarrow> u8 list \<Rightarrow> bool" where
  "is_flow_control a f \<longleftrightarrow> drop (pci_offset a) f \<noteq> [] \<and> 3 \<le> unat (drop_bit 4 (hd (drop (pci_offset a) f)))"

section \<open>Nibbles\<close>

lemma nibble_drop:
  fixes s :: u8
  assumes "s AND 0x0F = s"
  shows "drop_bit 4 s = 0"
proof -
  have "drop_bit 4 s = drop_bit 4 (s AND 0x0F)" by (simp only: assms)
  also have "\<dots> = drop_bit 4 s AND drop_bit 4 0x0F" by (rule drop_bit_and)
  finally show ?thesis by simp
qed

lemma nibble_or:
  fixes s :: u8
  assumes "s AND 0x0F = s"
  shows "(0x20 OR s) AND 0x0F = s" "drop_bit 4 (0x20 OR s) = 2" "(0x10 OR s) AND 0x0F = s" "drop_bit 4 (0x10 OR s) = 1"
proof -
  show "(0x20 OR s) AND 0x0F = s" "(0x10 OR s) AND 0x0F = s"
    using assms by (simp_all add: bit.conj_disj_distrib2)
  show "drop_bit 4 (0x20 OR s) = 2" "drop_bit 4 (0x10 OR s) = 1" by (simp_all add: nibble_drop [OF assms])
qed

lemma nibble_idem: "((s :: u8) AND 0x0F) AND 0x0F = s AND 0x0F"
  by (simp add: ac_simps)

lemma small_cases: "(k :: nat) < 16 \<Longrightarrow> k \<in> {0, 1, 2, 3, 4, 5, 6, 7, 8, 9, 10, 11, 12, 13, 14, 15}"
  by simp arith

lemma nibble_of_nat: "k < 16 \<Longrightarrow> (of_nat k :: u8) AND 0x0F = of_nat k"
  by (drule small_cases) auto

lemma drop_nibble_of_nat: "k < 16 \<Longrightarrow> drop_bit 4 (of_nat k :: u8) = 0"
  by (drule small_cases) auto

lemma unat_of_nat_u8: "k < 256 \<Longrightarrow> unat (of_nat k :: u8) = k"
  by (simp add: unat_of_nat take_bit_nat_eq_self)

section \<open>The state invariant\<close>

text \<open>While a message is being collected the buffer is short of the declared length (so the
  subtraction of the source cannot underflow) and the sequence number is a nibble; otherwise the
  state is the initial one.\<close>

definition reassembler_ok :: "reassembler \<Rightarrow> bool" where
  "reassembler_ok r \<longleftrightarrow> (if ra_active r
     then length (ra_buffer r) < ra_expected r \<and> ra_buffer r \<noteq> [] \<and> ra_next_sn r AND 0x0F = ra_next_sn r
     else r = reassembler_new (ra_addressing r))"

lemma reset_is_new: "reassembler_reset r = reassembler_new (ra_addressing r)"
  by (simp add: reassembler_reset_def reassembler_new_def)

lemma new_ok: "reassembler_ok (reassembler_new a)"
  by (simp add: reassembler_ok_def reassembler_new_def)

lemma single_frame_state: "fst (single_frame r pci) = reassembler_new (ra_addressing r)"
  by (simp add: single_frame_def Let_def reset_is_new)

lemma first_frame_ok: "reassembler_ok (fst (first_frame r pci))"
  by (auto simp: first_frame_def Let_def reset_is_new new_ok reassembler_finish_def reassembler_ok_def
      reassembler_new_def bind_result_def ok_or_def split: sum.splits option.splits if_splits)

lemma consecutive_frame_ok: "reassembler_ok r \<Longrightarrow> reassembler_ok (fst (consecutive_frame r pci))"
  by (auto simp: consecutive_frame_def Let_def reset_is_new new_ok reassembler_finish_def nibble_idem
      reassembler_ok_def [of r] intro: new_ok) (auto simp: reassembler_ok_def nibble_idem)

lemma push_frame_ok: "reassembler_ok r \<Longrightarrow> reassembler_ok (fst (push_frame r f))"
  by (simp add: push_frame_def Let_def reset_is_new new_ok single_frame_state first_frame_ok consecutive_frame_ok)

section \<open>Round trip\<close>

lemma drop_addressed [simp]: "drop (pci_offset a) (addressed a x f) = f"
  by (cases a) (simp_all add: pci_offset_def addressed_def)

lemma consecutive_in_order:
  assumes "ra_active r" "ra_next_sn r = sn" "sn AND 0x0F = sn" "chunk \<noteq> []"
    and "length (ra_buffer r) + length chunk \<le> ra_expected r" "ra_addressing r = a"
  shows "push_frame r (addressed a x ((0x20 OR (sn AND 0x0F)) # chunk)) =
    (if length (ra_buffer r) + length chunk = ra_expected r
     then (reassembler_new a, Inr (Some (Pdu (ra_buffer r @ chunk))))
     else (r\<lparr>ra_buffer := ra_buffer r @ chunk, ra_next_sn := (sn + 1) AND 0x0F\<rparr>, Inr None))"
  using assms
  by (simp add: push_frame_def nibble_or nibble_drop consecutive_frame_def reassembler_finish_def reset_is_new)

lemma cf_frames_reassemble:
  assumes "ra_active r" "ra_next_sn r = sn" "sn AND 0x0F = sn" "rest \<noteq> []"
    and "length (ra_buffer r) + length rest = ra_expected r" "ra_addressing r = a"
  shows "foldl reassemble_step (r, out) (map (addressed a x) (cf_frames sn rest))
    = (reassembler_new a, out @ [Pdu (ra_buffer r @ rest)])"
  using assms
proof (induction sn rest arbitrary: r rule: cf_frames.induct)
  case (1 sn p)
  let ?f = "addressed a x ((0x20 OR (sn AND 0x0F)) # take 7 p)"
  have cf: "map (addressed a x) (cf_frames sn p) = ?f # map (addressed a x) (cf_frames ((sn + 1) AND 0x0F) (drop 7 p))"
    using "1.prems"(4) by (subst cf_frames.simps) simp
  have len: "length (ra_buffer r) + length (take 7 p) \<le> ra_expected r" "take 7 p \<noteq> []"
    using "1.prems"(4,5) by auto
  note push = consecutive_in_order [OF "1.prems"(1,2,3) len(2,1) "1.prems"(6), of x]
  show ?case
  proof (cases "length p \<le> 7")
    case True
    then have "push_frame r ?f = (reassembler_new a, Inr (Some (Pdu (ra_buffer r @ p))))"
      using push "1.prems"(5) by simp
    with True cf show ?thesis by (simp add: reassemble_step_def cf_frames.simps [of _ "[]"])
  next
    case False
    let ?r = "r\<lparr>ra_buffer := ra_buffer r @ take 7 p, ra_next_sn := (sn + 1) AND 0x0F\<rparr>"
    have "push_frame r ?f = (?r, Inr None)" using push False "1.prems"(5) by simp
    then have "foldl reassemble_step (r, out) (map (addressed a x) (cf_frames sn p))
        = foldl reassemble_step (?r, out) (map (addressed a x) (cf_frames ((sn + 1) AND 0x0F) (drop 7 p)))"
      by (simp add: cf reassemble_step_def)
    also have "\<dots> = (reassembler_new a, out @ [Pdu (ra_buffer ?r @ drop 7 p)])"
      using "1.prems" False by (intro "1.IH") (auto simp: nibble_idem)
    finally show ?thesis by simp
  qed
qed

lemma single_reassemble:
  assumes "0 < length p" "length p \<le> 7" "ra_addressing r = a"
  shows "push_frame r (addressed a x (of_nat (length p) # p)) = (reassembler_new a, Inr (Some (Pdu p)))"
proof -
  have l: "length p < 16" using assms(2) by simp
  have u: "unat (of_nat (length p) :: u8) = length p" using l by (intro unat_of_nat_u8) simp
  then have "(of_nat (length p) :: u8) \<noteq> 0" using assms(1) by (metis length_greater_0_conv list.size(3) unat_0)
  with l u assms(1,3) show ?thesis
    by (simp add: push_frame_def drop_nibble_of_nat single_frame_def nibble_of_nat slice_get_def reset_is_new)
qed

lemma first_reassemble:
  assumes "7 < length p" "length p < 4096" "ra_addressing r = a"
  shows "push_frame r (addressed a x ((0x10 OR of_nat (length p div 256)) # of_nat (length p mod 256) # take 6 p))
    = (\<lparr>ra_addressing = a, ra_buffer = take 6 p, ra_expected = length p, ra_next_sn = 1, ra_active = True\<rparr>, Inr None)"
proof -
  let ?h = "of_nat (length p div 256) :: u8"
  have h16: "length p div 256 < 16" using assms(2) by simp
  have h: "?h AND 0x0F = ?h" by (rule nibble_of_nat [OF h16])
  have uh: "unat ?h = length p div 256" using h16 by (intro unat_of_nat_u8) simp
  have ul: "unat (of_nat (length p mod 256) :: u8) = length p mod 256" by (intro unat_of_nat_u8) simp
  have "\<not> (length p div 256 = 0 \<and> length p mod 256 = 0)" using assms(1) by auto
  then have fh: "first_header ((0x10 OR ?h) # of_nat (length p mod 256) # take 6 p) = Inr (length p, 2)"
    by (auto simp: first_header_def list_get_def nibble_or [OF h] uh ul Let_def)
  have "p \<noteq> []" using assms(1) by auto
  with assms fh show ?thesis
    by (simp add: push_frame_def nibble_or [OF h] nibble_drop [OF h] first_frame_def slice_from_def reset_is_new reassembler_new_def)
qed

lemma segment_reassemble:
  assumes "0 < length p" "length p < 4096" "ra_addressing r = a"
  shows "\<exists>r'. foldl reassemble_step (r, out) (map (addressed a x) (segment p)) = (r', out @ [Pdu p]) \<and> ra_addressing r' = a"
proof (cases "length p \<le> 7")
  case True
  then show ?thesis
    using single_reassemble [OF assms(1) True assms(3), of x]
    by (simp add: segment_def reassemble_step_def reassembler_new_def)
next
  case False
  let ?r = "\<lparr>ra_addressing = a, ra_buffer = take 6 p, ra_expected = length p, ra_next_sn = 1 :: u8, ra_active = True\<rparr>"
  have "foldl reassemble_step (?r, out) (map (addressed a x) (cf_frames 1 (drop 6 p)))
      = (reassembler_new a, out @ [Pdu (ra_buffer ?r @ drop 6 p)])"
    using False by (intro cf_frames_reassemble) auto
  with False first_reassemble [of p r a x] assms show ?thesis
    by (simp add: segment_def reassemble_step_def reassembler_new_def)
qed

lemma segments_reassemble:
  assumes "\<forall>p\<in>set ps. 0 < length p \<and> length p < 4096" "ra_addressing r = a"
  shows "snd (foldl reassemble_step (r, out) (map (addressed a x) (concat (map segment ps)))) = out @ map Pdu ps"
  using assms
proof (induction ps arbitrary: r out)
  case (Cons p ps)
  then obtain r' where "foldl reassemble_step (r, out) (map (addressed a x) (segment p)) = (r', out @ [Pdu p])" "ra_addressing r' = a"
    using segment_reassemble [of p r a out x] by auto
  with Cons show ?case by simp
qed simp

lemma push_keeps_addressing: "ra_addressing (fst (push_frame r f)) = ra_addressing r"
proof -
  have "ra_addressing (fst (single_frame r q)) = ra_addressing r"
    "ra_addressing (fst (consecutive_frame r q)) = ra_addressing r" for q
    by (auto simp: single_frame_state reassembler_new_def consecutive_frame_def Let_def reset_is_new reassembler_finish_def)
  moreover have "ra_addressing (fst (first_frame r q)) = ra_addressing r" for q
    by (auto simp: first_frame_def Let_def reset_is_new reassembler_new_def reassembler_finish_def split: sum.splits)
  ultimately show ?thesis by (simp add: push_frame_def Let_def reset_is_new reassembler_new_def)
qed

lemma step_keeps_addressing: "ra_addressing (fst (reassemble_step s f)) = ra_addressing (fst s)"
  using push_keeps_addressing [of "fst s" f]
  by (auto simp: reassemble_step_def reset_is_new reassembler_new_def split: prod.splits sum.splits option.splits)

lemma flow_control_ignored: "is_flow_control (ra_addressing (fst s)) f \<Longrightarrow> reassemble_step s f = s"
  by (cases s) (auto simp: reassemble_step_def push_frame_def is_flow_control_def Let_def)

lemma reassemble_filter:
  "ra_addressing (fst s) = a \<Longrightarrow>
     foldl reassemble_step s fs = foldl reassemble_step s (filter (\<lambda>f. \<not> is_flow_control a f) fs)"
  by (induction fs arbitrary: s) (simp_all add: flow_control_ignored step_keeps_addressing)

section \<open>Properties\<close>



interpretation receiver: invariant_machine "\<lambda>r f. fst (push_frame r f)" reassembler_ok
  by unfold_locales (rule push_frame_ok)

text \<open>The receiver stays within bounds on hostile input: after any frames whatsoever, if a
  message is being collected then fewer bytes are buffered than it declared, so the subtraction
  of the lengths never underflows, a delivered message has exactly the declared length of its
  first frame, and otherwise nothing is retained.\<close>

theorem receiver_bounded:
  assumes "r = foldl (\<lambda>r f. fst (push_frame r f)) (reassembler_new a) fs"
  shows "(ra_active r \<longrightarrow> length (ra_buffer r) < ra_expected r) \<and> (\<not> ra_active r \<longrightarrow> ra_buffer r = [])
    \<and> (ra_active r \<and> consecutive_frame r f = (r', Inr (Some (Pdu d))) \<longrightarrow> length d = ra_expected r)"
proof -
  have ok: "reassembler_ok r" unfolding assms by (intro receiver.run_inv new_ok)
  have "length d = ra_expected r" if "ra_active r" "consecutive_frame r f = (r', Inr (Some (Pdu d)))"
    using that by (auto simp: consecutive_frame_def Let_def reassembler_finish_def split: if_splits)
  moreover have "ra_buffer r = []" if "\<not> ra_active r"
    using ok that unfolding reassembler_ok_def by (metis reassembler.select_convs(2) reassembler_new_def)
  ultimately show ?thesis using ok by (simp add: reassembler_ok_def)
qed

theorem receiver_bounded_witness:
  "length (ra_buffer (fst (push_frame (reassembler_new AddrNormal) [0x1F, 0xFF, 1, 2, 3]))) < 4095"
proof -
  let ?r = "fst (push_frame (reassembler_new AddrNormal) [0x1F, 0xFF, 1, 2, 3])"
  have "ra_active ?r \<and> ra_expected ?r = 4095"
    by (simp add: push_frame_def reassembler_new_def pci_offset_def first_frame_def first_header_def list_get_def
        slice_from_def reassembler_reset_def)
  with receiver_bounded [of ?r AddrNormal "[[0x1F, 0xFF, 1, 2, 3]]"] show ?thesis by simp
qed

end
