(* ===== verification/Dbc.thy ===== *)
theory Dbc
  imports F64 Isotp
begin

unbundle bit_operations_syntax

text \<open>
  CAN database parsing and signal decoding, \<^verbatim>\<open>crates/hf-automotive/src/dbc.rs\<close>. The parser works
  on text of code points below 256; the maps keyed by message id and by raw value are partial
  functions (the source uses ordered maps, whose order no operation here observes). Raw signal
  values are 64-bit words, as in the source.
\<close>

section \<open>Data\<close>

datatype byte_order = LittleEndian | BigEndian

datatype value_type = UnsignedValue | SignedValue

datatype multiplex = Plain | Multiplexor | Multiplexed nat

record dbc_signal =
  sg_name :: string
  sg_start_bit :: nat
  sg_length :: nat
  sg_byte_order :: byte_order
  sg_value_type :: value_type
  sg_factor :: f64
  sg_offset :: f64
  sg_min :: f64
  sg_max :: f64
  sg_unit :: string
  sg_multiplex :: multiplex
  sg_value_table :: "int \<rightharpoonup> string"

record dbc_message =
  bo_id :: u32
  bo_extended :: bool
  bo_name :: string
  bo_dlc :: nat
  bo_signals :: "dbc_signal list"

type_synonym dbc_database = "u32 \<times> bool \<rightharpoonup> dbc_message"

record value_table_def =
  vt_id :: u32
  vt_extended :: bool
  vt_signal :: string
  vt_table :: "int \<rightharpoonup> string"

record decoded_signal =
  ds_name :: string
  ds_raw :: int
  ds_value :: f64
  ds_unit :: string
  ds_label :: "string option"

record decoded_frame =
  df_message :: string
  df_signals :: "decoded_signal list"

datatype dbc_error = Malformed string nat string | OrphanSignal nat

section \<open>Bit extraction\<close>

definition bit_at :: "u8 list \<Rightarrow> nat \<Rightarrow> u8 option" where
  "bit_at d pos = map_option (\<lambda>v. drop_bit (pos mod 8) v AND 1) (list_get d (pos div 8))"

fun little_bits :: "u8 list \<Rightarrow> nat \<Rightarrow> nat list \<Rightarrow> u64 \<Rightarrow> u64 option" where
  "little_bits d start [] raw = Some raw"
| "little_bits d start (k # ks) raw = (case bit_at d (start + k) of
     None \<Rightarrow> None
   | Some b \<Rightarrow> little_bits d start ks (raw OR push_bit k (ucast b)))"

fun big_bits :: "u8 list \<Rightarrow> nat \<Rightarrow> nat \<Rightarrow> u64 \<Rightarrow> u64 option" where
  "big_bits d 0 pos raw = Some raw"
| "big_bits d (Suc n) pos raw = (case bit_at d pos of
     None \<Rightarrow> None
   | Some b \<Rightarrow> big_bits d n (if pos mod 8 = 0 then pos + 15 else pos - 1) (push_bit 1 raw OR ucast b))"

definition extract_raw :: "u8 list \<Rightarrow> nat \<Rightarrow> nat \<Rightarrow> byte_order \<Rightarrow> u64 option" where
  "extract_raw d start len order =
     (if len = 0 \<or> len > 64 then None
      else case order of
        LittleEndian \<Rightarrow> little_bits d start [0..<len] 0
      | BigEndian \<Rightarrow> big_bits d len start 0)"

text \<open>\<^verbatim>\<open>cast_signed\<close> is \<^term>\<open>sint\<close>; \<^verbatim>\<open>wrapping_sub\<close> is subtraction of words.\<close>

definition signed_value :: "u64 \<Rightarrow> nat \<Rightarrow> value_type \<Rightarrow> int" where
  "signed_value raw len vt =
     (if vt = SignedValue \<and> len < 64 \<and> drop_bit (len - 1) raw AND 1 = 1
      then sint (raw - push_bit len 1) else sint raw)"

section \<open>Decoding\<close>

definition switch_value :: "dbc_message \<Rightarrow> u8 list \<Rightarrow> u64 option" where
  "switch_value m d = (case find (\<lambda>s. sg_multiplex s = Multiplexor) (bo_signals m) of
     None \<Rightarrow> None
   | Some s \<Rightarrow> extract_raw d (sg_start_bit s) (sg_length s) (sg_byte_order s))"

definition decode_signal :: "u64 option \<Rightarrow> u8 list \<Rightarrow> dbc_signal \<Rightarrow> decoded_signal option" where
  "decode_signal switch d s =
     (if (case sg_multiplex s of Multiplexed sel \<Rightarrow> map_option unat switch \<noteq> Some sel | _ \<Rightarrow> False) then None
      else case extract_raw d (sg_start_bit s) (sg_length s) (sg_byte_order s) of
        None \<Rightarrow> None
      | Some bits \<Rightarrow>
          (let raw = signed_value bits (sg_length s) (sg_value_type s);
               base = (case sg_value_type s of UnsignedValue \<Rightarrow> f_of_nat (unat bits) | SignedValue \<Rightarrow> f_of_int raw)
           in Some \<lparr>ds_name = sg_name s, ds_raw = raw, ds_value = f_fma base (sg_factor s) (sg_offset s),
                    ds_unit = sg_unit s, ds_label = sg_value_table s raw\<rparr>))"

definition dbc_lookup :: "dbc_database \<Rightarrow> u32 \<Rightarrow> bool \<Rightarrow> dbc_message option" where
  "dbc_lookup db i ext = db (i, ext)"

definition dbc_decode :: "dbc_database \<Rightarrow> u32 \<Rightarrow> bool \<Rightarrow> u8 list \<Rightarrow> decoded_frame option" where
  "dbc_decode db i ext d = (case dbc_lookup db i ext of
     None \<Rightarrow> None
   | Some m \<Rightarrow> Some \<lparr>df_message = bo_name m,
       df_signals = List.map_filter (decode_signal (switch_value m d) d) (bo_signals m)\<rparr>)"

section \<open>Parsing\<close>

definition u32_of_nat :: "nat \<Rightarrow> u32" where
  "u32_of_nat n = of_nat n"

definition parse_message :: "string \<Rightarrow> nat \<Rightarrow> (dbc_error, dbc_message) result" where
  "parse_message line n =
     (let bad = Malformed ''BO_'' n in
      bind_result (ok_or (bad (''missing '' @ quoted '':'' @ '' separator'')) (split_once (CHR '':'') line)) (\<lambda>(head, tail).
      let toks = split_whitespace head in
      if length toks \<noteq> 3 then Inl (bad ''expected `BO_ <id> <name>:`'')
      else
        bind_result (ok_or (bad ''id is not an unsigned integer'') (parse_unsigned u32_max (toks ! 1))) (\<lambda>raw_id.
        if toks ! 2 = [] then Inl (bad ''empty message name'')
        else
          bind_result (ok_or (bad ''missing DLC'') (list_get (split_whitespace tail) 0)) (\<lambda>t.
          bind_result (ok_or (bad ''DLC is not a byte'') (parse_unsigned 255 t)) (\<lambda>dlc.
          if dlc > 64 then Inl (bad ''DLC exceeds the CAN FD payload limit'')
          else Inr \<lparr>bo_id = u32_of_nat raw_id AND 0x1FFFFFFF, bo_extended = (u32_of_nat raw_id AND 0x80000000 \<noteq> 0),
                    bo_name = toks ! 2, bo_dlc = dlc, bo_signals = []\<rparr>)))))"

definition between :: "char \<Rightarrow> char \<Rightarrow> string \<Rightarrow> string option" where
  "between a b s = Option.bind (split_once a s) (\<lambda>(_, r). map_option fst (split_once b r))"

definition parse_pair :: "char \<Rightarrow> char \<Rightarrow> char \<Rightarrow> string \<Rightarrow> (f64 \<times> f64) option" where
  "parse_pair a sep b tail = Option.bind (between a b tail) (\<lambda>inner.
     Option.bind (split_once sep inner) (\<lambda>(x, y).
     Option.bind (parse_f64 (trim x)) (\<lambda>u. Option.bind (parse_f64 (trim y)) (\<lambda>v. Some (u, v)))))"

definition parse_factor_offset :: "string \<Rightarrow> (f64 \<times> f64) option" where
  "parse_factor_offset tail = parse_pair (CHR ''('') (CHR '','') (CHR '')'') tail"

definition parse_min_max :: "string \<Rightarrow> (f64 \<times> f64) option" where
  "parse_min_max tail = parse_pair (CHR ''['') (CHR ''|'') (CHR '']'') tail"

definition parse_quoted :: "string \<Rightarrow> string option" where
  "parse_quoted tail = between (CHR 0x22) (CHR 0x22) tail"

definition parse_multiplex :: "(string \<Rightarrow> dbc_error) \<Rightarrow> string list \<Rightarrow> (dbc_error, multiplex) result" where
  "parse_multiplex bad toks = (case list_get toks 2 of
     None \<Rightarrow> Inr Plain
   | Some t \<Rightarrow>
       if t = ''M'' then Inr Multiplexor
       else if starts_with ''m'' t
       then bind_result (ok_or (bad ''invalid multiplex selector'') (parse_unsigned u64_max (tl t))) (\<lambda>v. Inr (Multiplexed v))
       else Inl (bad ''unrecognized multiplex indicator''))"

text \<open>\<^verbatim>\<open><start>|<len>@<order><type>\<close>.\<close>

definition parse_layout ::
  "(string \<Rightarrow> dbc_error) \<Rightarrow> string \<Rightarrow> (dbc_error, nat \<times> nat \<times> byte_order \<times> value_type) result" where
  "parse_layout bad tok =
     bind_result (ok_or (bad (''missing '' @ quoted ''|'' @ '' in bit layout'')) (split_once (CHR ''|'') tok)) (\<lambda>(start_str, rest).
     bind_result (ok_or (bad (''missing '' @ quoted ''@'' @ '' in bit layout'')) (split_once (CHR ''@'') rest)) (\<lambda>(len_str, ot).
     bind_result (ok_or (bad ''invalid start bit'') (parse_unsigned 65535 start_str)) (\<lambda>start.
     bind_result (ok_or (bad ''invalid length'') (parse_unsigned 65535 len_str)) (\<lambda>len.
     if \<not> (1 \<le> len \<and> len \<le> 64) then Inl (bad ''signal length must be between 1 and 64 bits'')
     else
       bind_result (case list_get ot 0 of
           Some c \<Rightarrow> if c = CHR ''1'' then Inr LittleEndian else if c = CHR ''0'' then Inr BigEndian
                     else Inl (bad ''byte order must be 0 or 1'')
         | None \<Rightarrow> Inl (bad ''byte order must be 0 or 1'')) (\<lambda>bo.
       bind_result (case list_get ot 1 of
           Some c \<Rightarrow> if c = CHR ''+'' then Inr UnsignedValue else if c = CHR ''-'' then Inr SignedValue
                     else Inl (bad ''value type must be + or -'')
         | None \<Rightarrow> Inl (bad ''value type must be + or -'')) (\<lambda>vt.
       if length ot > 2 then Inl (bad ''unexpected text after the bit layout'')
       else Inr (start, len, bo, vt)))))))"

definition parse_signal :: "string \<Rightarrow> nat \<Rightarrow> (dbc_error, dbc_signal) result" where
  "parse_signal line n =
     (let bad = Malformed ''SG_'' n in
      bind_result (ok_or (bad (''missing '' @ quoted '':'' @ '' separator'')) (split_once (CHR '':'') line)) (\<lambda>(head, tail0).
      let toks = split_whitespace head in
      if length toks < 2 then Inl (bad ''missing signal name'')
      else
        bind_result (parse_multiplex bad toks) (\<lambda>mux.
        let tail = trim tail0 in
        bind_result (ok_or (bad ''missing bit layout'') (list_get (split_whitespace tail) 0)) (\<lambda>tok.
        bind_result (parse_layout bad tok) (\<lambda>(start, len, bo, vt).
        bind_result (ok_or (bad ''invalid (factor,offset)'') (parse_factor_offset tail)) (\<lambda>(factor, offset).
        if \<not> f_is_finite factor \<or> \<not> f_is_finite offset then Inl (bad ''factor and offset must be finite'')
        else
          bind_result (ok_or (bad ''invalid [min|max]'') (parse_min_max tail)) (\<lambda>(mn, mx).
          if \<not> f_is_finite mn \<or> \<not> f_is_finite mx then Inl (bad ''minimum and maximum must be finite'')
          else Inr \<lparr>sg_name = toks ! 1, sg_start_bit = start, sg_length = len, sg_byte_order = bo, sg_value_type = vt,
                    sg_factor = factor, sg_offset = offset, sg_min = mn, sg_max = mx,
                    sg_unit = (case parse_quoted tail of Some u \<Rightarrow> u | None \<Rightarrow> []),
                    sg_multiplex = mux, sg_value_table = Map.empty\<rparr>)))))))"

lemma split_once_shorter:
  assumes "split_once c s = Some (a, b)"
  shows "length a + length b < length s"
proof -
  have c: "c \<in> set s" and a: "a = takeWhile (\<lambda>x. x \<noteq> c) s" and b: "b = tl (dropWhile (\<lambda>x. x \<noteq> c) s)"
    using assms by (auto simp: split_once_def split: if_splits)
  have "dropWhile (\<lambda>x. x \<noteq> c) s \<noteq> []" using c by (auto simp: dropWhile_eq_Nil_conv)
  then have "length b < length (dropWhile (\<lambda>x. x \<noteq> c) s)" by (simp add: b)
  moreover have "length s = length a + length (dropWhile (\<lambda>x. x \<noteq> c) s)"
    unfolding a by (metis length_append takeWhile_dropWhile_id)
  ultimately show ?thesis by simp
qed

text \<open>The label loop of a value table; every round consumes a quoted label.\<close>

function scan_labels :: "(string \<Rightarrow> dbc_error) \<Rightarrow> string \<Rightarrow> (int \<rightharpoonup> string) \<Rightarrow> (dbc_error, int \<rightharpoonup> string) result" where
  "scan_labels bad cursor table = (case split_once (CHR 0x22) cursor of
     None \<Rightarrow> Inr table
   | Some (before, after) \<Rightarrow>
       (case rev (split_whitespace (trim before)) of
          [] \<Rightarrow> Inl (bad ''missing value before label'')
        | v # _ \<Rightarrow>
            (case parse_i64 v of
               None \<Rightarrow> Inl (bad ''value is not an integer'')
             | Some i \<Rightarrow>
                 (case split_once (CHR 0x22) after of
                    None \<Rightarrow> Inl (bad ''unterminated label'')
                  | Some (label, rest) \<Rightarrow> scan_labels bad rest (table(i \<mapsto> label))))))"
  by pat_completeness auto

termination
  by (relation "measure (\<lambda>(bad, cursor, table). length cursor)") (auto dest!: split_once_shorter)

declare scan_labels.simps [simp del]

definition parse_value_table :: "string \<Rightarrow> nat \<Rightarrow> (dbc_error, value_table_def) result" where
  "parse_value_table line n =
     (let bad = Malformed ''VAL_'' n;
          body = trim_end_char (CHR '';'') (trim (trim_start_str ''VAL_'' line))
      in case split_whitespace body of
           t0 # t1 # _ \<Rightarrow>
             bind_result (ok_or (bad ''id is not an unsigned integer'') (parse_unsigned u32_max t0)) (\<lambda>raw_id.
             let remainder = trim (case after_str t1 body of Some r \<Rightarrow> r | None \<Rightarrow> []) in
             bind_result (scan_labels bad remainder Map.empty) (\<lambda>table.
             Inr \<lparr>vt_id = u32_of_nat raw_id AND 0x1FFFFFFF, vt_extended = (u32_of_nat raw_id AND 0x80000000 \<noteq> 0),
                  vt_signal = t1, vt_table = table\<rparr>))
         | _ \<Rightarrow> Inl (bad ''expected `VAL_ <id> <signal> ...`''))"

definition parse_line ::
  "nat \<Rightarrow> string \<Rightarrow> dbc_message list \<times> value_table_def list \<Rightarrow> (dbc_error, dbc_message list \<times> value_table_def list) result" where
  "parse_line n raw st = (case st of (ms, vts) \<Rightarrow>
     (let line = trim raw in
      case split_whitespace line of
        [] \<Rightarrow> Inr st
      | t # _ \<Rightarrow>
          if t = ''BO_'' then
            bind_result (parse_message line n) (\<lambda>m.
              if list_ex (\<lambda>e. bo_id e = bo_id m \<and> bo_extended e = bo_extended m) ms
              then Inl (Malformed ''BO_'' n ''duplicate message id'') else Inr (ms @ [m], vts))
          else if t = ''SG_'' then
            (if ms = [] then Inl (OrphanSignal n)
             else
               bind_result (parse_signal line n) (\<lambda>s.
                 let m = List.last ms in
                 if list_ex (\<lambda>e. sg_name e = sg_name s) (bo_signals m)
                 then Inl (Malformed ''SG_'' n ''duplicate signal name'')
                 else Inr (butlast ms @ [m\<lparr>bo_signals := bo_signals m @ [s]\<rparr>], vts)))
          else if t = ''VAL_'' then bind_result (parse_value_table line n) (\<lambda>v. Inr (ms, vts @ [v]))
          else Inr st))"

fun parse_lines ::
  "nat \<Rightarrow> string list \<Rightarrow> dbc_message list \<times> value_table_def list \<Rightarrow> (dbc_error, dbc_message list \<times> value_table_def list) result" where
  "parse_lines n [] st = Inr st"
| "parse_lines n (l # ls) st = bind_result (parse_line n l st) (parse_lines (Suc n) ls)"

text \<open>The first signal of the name gets the table.\<close>

fun set_table :: "string \<Rightarrow> (int \<rightharpoonup> string) \<Rightarrow> dbc_signal list \<Rightarrow> dbc_signal list" where
  "set_table name t [] = []"
| "set_table name t (s # ss) = (if sg_name s = name then s\<lparr>sg_value_table := t\<rparr> # ss else s # set_table name t ss)"

definition apply_table :: "dbc_database \<Rightarrow> value_table_def \<Rightarrow> dbc_database" where
  "apply_table db v = (case db (vt_id v, vt_extended v) of
     None \<Rightarrow> db
   | Some m \<Rightarrow> db((vt_id v, vt_extended v) \<mapsto> m\<lparr>bo_signals := set_table (vt_signal v) (vt_table v) (bo_signals m)\<rparr>))"

definition dbc_parse :: "string \<Rightarrow> (dbc_error, dbc_database) result" where
  "dbc_parse text = bind_result (parse_lines 1 (str_lines text) ([], [])) (\<lambda>(ms, vts).
     Inr (foldl apply_table (foldl (\<lambda>db m. db((bo_id m, bo_extended m) \<mapsto> m)) Map.empty ms) vts))"

section \<open>Bits of the payload\<close>

text \<open>The bit at a position of the payload, least significant bit of a byte first.\<close>

definition payload_bit :: "u8 list \<Rightarrow> nat \<Rightarrow> bool" where
  "payload_bit d p \<longleftrightarrow> p < 8 * length d \<and> bit (d ! (p div 8)) (p mod 8)"

lemma bit_at_eq: "bit_at d p = (if p < 8 * length d then Some (of_bool (payload_bit d p)) else None)"
proof -
  have l: "p div 8 < length d \<longleftrightarrow> p < 8 * length d" by (simp add: div_less_iff_less_mult mult.commute)
  have "drop_bit (p mod 8) v AND 1 = of_bool (bit v (p mod 8))" for v :: u8
    by (simp add: and_one_eq mod_2_eq_odd bit_iff_odd_drop_bit)
  with l show ?thesis by (auto simp: bit_at_def list_get_def payload_bit_def)
qed

lemma ucast_of_bool: "(ucast (of_bool b :: u8) :: u64) = of_bool b"
  by simp

text \<open>The payload as one little-endian number, and as one big-endian number.\<close>

fun le_int :: "u8 list \<Rightarrow> nat" where
  "le_int [] = 0"
| "le_int (b # d) = unat b + 256 * le_int d"

definition be_int :: "u8 list \<Rightarrow> nat" where
  "be_int d = le_int (rev d)"

lemma bit_byte_plus:
  assumes "u < 256"
  shows "bit (u + 256 * n :: nat) p \<longleftrightarrow> (if p < 8 then bit u p else bit n (p - 8))"
proof (cases "p < 8")
  case True
  then have "256 * n = 2 ^ p * (2 ^ (8 - p) * n)" by (simp add: power_add [symmetric] mult.assoc [symmetric])
  then have "(u + 256 * n) div 2 ^ p = (u + 2 ^ p * (2 ^ (8 - p) * n)) div 2 ^ p" by (simp only:)
  also have "\<dots> = 2 ^ (8 - p) * n + u div 2 ^ p" by (rule div_mult_self2) simp
  finally have "(u + 256 * n) div 2 ^ p = 2 ^ (8 - p) * n + u div 2 ^ p" .
  with True show ?thesis by (simp add: bit_iff_odd)
next
  case False
  then obtain j where "p = 8 + j" by (metis le_Suc_ex not_less)
  then have "(2 :: nat) ^ p = 256 * 2 ^ (p - 8)" by (simp add: power_add)
  then have "(u + 256 * n) div 2 ^ p = n div 2 ^ (p - 8)" using assms by (simp add: div_mult2_eq)
  with False show ?thesis by (simp add: bit_iff_odd)
qed

lemma unat_u8_less: "unat (b :: u8) < 256"
proof -
  have "unat b < 2 ^ LENGTH(8)" by (rule unsigned_less)
  then show ?thesis by simp
qed

lemma bit_le_int: "bit (le_int d) p \<longleftrightarrow> payload_bit d p"
proof (induction d arbitrary: p)
  case Nil
  then show ?case by (simp add: payload_bit_def)
next
  case (Cons b d)
  show ?case
  proof (cases "p < 8")
    case True
    then show ?thesis
      using bit_byte_plus [OF unat_u8_less] by (simp add: payload_bit_def bit_unsigned_iff bit_imp_le_length)
  next
    case False
    then have "p div 8 = Suc ((p - 8) div 8)" "p mod 8 = (p - 8) mod 8"
      by (simp_all add: le_div_geq le_mod_geq)
    with False Cons.IH [of "p - 8"] bit_byte_plus [OF unat_u8_less, of b "le_int d" p] show ?thesis
      by (auto simp: payload_bit_def)
  qed
qed

text \<open>Motorola order numbers the bits of the message from the top of the first byte downwards.\<close>

definition stream_pos :: "nat \<Rightarrow> nat" where
  "stream_pos p = 8 * (p div 8) + (7 - p mod 8)"

lemma stream_pos_split: "r < 8 \<Longrightarrow> stream_pos (8 * q + r) = 8 * q + (7 - r)"
  by (simp add: stream_pos_def)

lemma byte_split: obtains q r where "p = 8 * q + r" "(r :: nat) < 8"
  using that [of "p div 8" "p mod 8"] by simp

lemma byte_less: "(r :: nat) < 8 \<Longrightarrow> 8 * q + r < 8 * n \<longleftrightarrow> q < n"
  by linarith

lemma stream_pos_less: "stream_pos p < 8 * n \<longleftrightarrow> p < 8 * n"
proof -
  obtain q r where p: "p = 8 * q + r" "r < 8" by (rule byte_split)
  then show ?thesis using byte_less [of r q n] byte_less [of "7 - r" q n] by (simp add: stream_pos_split)
qed

lemma stream_pos_next: "stream_pos (if p mod 8 = 0 then p + 15 else p - 1) = stream_pos p + 1"
proof -
  obtain q r where p: "p = 8 * q + r" "r < 8" by (rule byte_split)
  show ?thesis
  proof (cases "r = 0")
    case True
    then have "p mod 8 = 0" "p + 15 = 8 * (q + 1) + 7" using p by simp_all
    moreover have "stream_pos (8 * (q + 1) + 7) = 8 * (q + 1) + (7 - 7)" by (rule stream_pos_split) simp
    ultimately have "stream_pos (p + 15) = 8 * q + 8" by (simp only:) simp
    with True p \<open>p mod 8 = 0\<close> show ?thesis using stream_pos_split [of 0 q] by simp
  next
    case False
    then have "p mod 8 \<noteq> 0" "p - 1 = 8 * q + (r - 1)" using p by simp_all
    with False p show ?thesis using stream_pos_split [of "r - 1" q] stream_pos_split [of r q] by simp
  qed
qed

text \<open>The bit at a Motorola stream position is a bit of the big-endian number.\<close>

lemma bit_be_int:
  assumes "p < 8 * length d"
  shows "payload_bit d p \<longleftrightarrow> bit (be_int d) (8 * length d - 1 - stream_pos p)"
proof -
  obtain q r where p: "p = 8 * q + r" "r < 8" by (rule byte_split)
  have q: "q < length d" using assms p byte_less by simp
  define k where "k = length d - 1 - q"
  have k: "k < length d" "length d = k + q + 1" using q by (simp_all add: k_def)
  have pos: "8 * length d - 1 - stream_pos p = 8 * k + r" using p k by (simp add: stream_pos_split)
  have "rev d ! k = d ! q" using k q by (simp add: rev_nth)
  moreover have "8 * k + r < 8 * length d" using k p(2) by simp
  ultimately show ?thesis
    unfolding be_int_def bit_le_int pos payload_bit_def using p assms by simp
qed

section \<open>Extraction is slicing\<close>

lemma little_bits_Some:
  assumes "start + (k + n) \<le> 8 * length d" "k + n \<le> 64"
  shows "\<exists>w. little_bits d start [k..<k + n] raw = Some w
    \<and> (\<forall>i. bit w i \<longleftrightarrow> bit raw i \<or> (k \<le> i \<and> i < k + n \<and> payload_bit d (start + i)))"
  using assms
proof (induction n arbitrary: k raw)
  case (Suc n)
  let ?raw = "raw OR push_bit k (of_bool (payload_bit d (start + k)))"
  obtain w where w: "little_bits d start [Suc k..<Suc k + n] ?raw = Some w"
    "\<forall>i. bit w i \<longleftrightarrow> bit ?raw i \<or> (Suc k \<le> i \<and> i < Suc k + n \<and> payload_bit d (start + i))"
    using Suc.IH [of "Suc k" ?raw] Suc.prems by auto
  have u: "[k..<k + Suc n] = k # [Suc k..<Suc k + n]" by (simp add: upt_conv_Cons)
  have "bit_at d (start + k) = Some (of_bool (payload_bit d (start + k)))" using Suc.prems by (simp add: bit_at_eq)
  then have s: "little_bits d start [k..<k + Suc n] raw = Some w"
    using w(1) by (simp only: u little_bits.simps option.case ucast_of_bool)
  have kb: "bit (push_bit k (of_bool b) :: u64) i \<longleftrightarrow> b \<and> i = k" for b i
    using Suc.prems(2) by (auto simp: bit_push_bit_iff bit_1_iff)
  have "bit w i \<longleftrightarrow> bit raw i \<or> (k \<le> i \<and> i < k + Suc n \<and> payload_bit d (start + i))" for i
    using w(2) [rule_format, of i] by (cases "i = k") (auto simp: bit_or_iff kb)
  with s show ?case by blast
qed auto

lemma little_bits_None:
  "8 * length d < start + (k + n) \<Longrightarrow> 0 < n \<Longrightarrow> little_bits d start [k..<k + n] raw = None"
proof (induction n arbitrary: k raw)
  case (Suc n)
  have u: "[k..<k + Suc n] = k # [Suc k..<Suc k + n]" by (simp add: upt_conv_Cons)
  show ?case
  proof (cases "start + k < 8 * length d")
    case False
    then show ?thesis by (simp only: u little_bits.simps) (simp add: bit_at_eq)
  next
    case True
    with Suc.prems have "0 < n" by auto
    with Suc.prems have "little_bits d start [Suc k..<Suc k + n] r = None" for r by (intro Suc.IH) simp_all
    then show ?thesis by (simp only: u little_bits.simps) (simp split: option.split)
  qed
qed simp

lemma big_bits_Some:
  assumes "stream_pos p + n \<le> 8 * length d" "n \<le> 64"
  shows "\<exists>w. big_bits d n p raw = Some w
    \<and> (\<forall>i<64. bit w i \<longleftrightarrow> (if i < n then bit (be_int d) (8 * length d - stream_pos p - n + i) else bit raw (i - n)))"
  using assms
proof (induction n arbitrary: p raw)
  case (Suc n)
  let ?p = "if p mod 8 = 0 then p + 15 else p - 1"
  let ?raw = "push_bit 1 raw OR of_bool (payload_bit d p)"
  have p: "p < 8 * length d" using Suc.prems stream_pos_less [of p "length d"] by simp
  obtain w where w: "big_bits d n ?p ?raw = Some w"
    "\<And>i. i < 64 \<Longrightarrow> bit w i \<longleftrightarrow> (if i < n then bit (be_int d) (8 * length d - stream_pos ?p - n + i) else bit ?raw (i - n))"
    using Suc.IH [of ?p ?raw] Suc.prems unfolding stream_pos_next by auto
  have "bit_at d p = Some (of_bool (payload_bit d p))" using p by (simp add: bit_at_eq)
  then have "big_bits d (Suc n) p raw = Some w" using w(1) by (simp only: big_bits.simps option.case ucast_of_bool)
  moreover have "bit w i \<longleftrightarrow> (if i < Suc n then bit (be_int d) (8 * length d - stream_pos p - Suc n + i) else bit raw (i - Suc n))"
    if "i < 64" for i
  proof -
    have one: "bit (of_bool b :: u64) j \<longleftrightarrow> b \<and> j = 0" for b j by (auto simp: bit_1_iff)
    have sh: "bit (raw * 2) j \<longleftrightarrow> 1 \<le> j \<and> j < 64 \<and> bit raw (j - 1)" for j
      using bit_push_bit_iff [of 1 raw j] by (auto simp: mult.commute)
    consider "i < n" | "i = n" | "n < i" by linarith
    then show ?thesis
    proof cases
      case 1
      with w(2) [OF that] show ?thesis unfolding stream_pos_next by simp
    next
      case 2
      have "8 * length d - stream_pos p - Suc n + n = 8 * length d - 1 - stream_pos p" using Suc.prems by simp
      with w(2) [OF that] 2 bit_be_int [OF p] show ?thesis by (simp add: bit_or_iff one sh)
    next
      case 3
      with w(2) [OF that] that show ?thesis by (auto simp: bit_or_iff one sh)
    qed
  qed
  ultimately show ?case by blast
qed simp

lemma big_bits_None:
  "8 * length d < stream_pos p + n \<Longrightarrow> 0 < n \<Longrightarrow> big_bits d n p raw = None"
proof (induction n arbitrary: p raw)
  case (Suc n)
  show ?case
  proof (cases "p < 8 * length d")
    case False
    then show ?thesis by (simp add: bit_at_eq)
  next
    case True
    then have "0 < n" using Suc.prems stream_pos_less [of p "length d"] by simp
    moreover have "8 * length d < stream_pos (if p mod 8 = 0 then p + 15 else p - 1) + n"
      using Suc.prems unfolding stream_pos_next by simp
    ultimately have "big_bits d n (if p mod 8 = 0 then p + 15 else p - 1) r = None" for r
      by (intro Suc.IH)
    then show ?thesis by (simp only: big_bits.simps) (simp split: option.split)
  qed
qed simp

text \<open>The arithmetic meaning of a signal: a slice of the payload read as one number.\<close>

definition slice_of :: "nat \<Rightarrow> nat \<Rightarrow> nat \<Rightarrow> u64" where
  "slice_of n lo len = of_nat (n div 2 ^ lo mod 2 ^ len)"

lemma slice_of_unique:
  assumes "len \<le> 64" "\<And>i. i < 64 \<Longrightarrow> bit w i \<longleftrightarrow> i < len \<and> bit n (lo + i)"
  shows "w = slice_of n lo len"
proof (rule bit_word_eqI)
  fix i
  assume i: "i < LENGTH(64)"
  have "n div 2 ^ lo mod 2 ^ len = take_bit len (drop_bit lo n)" by (simp add: take_bit_eq_mod drop_bit_eq_div)
  then have "bit (slice_of n lo len) i \<longleftrightarrow> i < len \<and> bit n (lo + i)"
    using i by (simp add: slice_of_def bit_of_nat_iff bit_take_bit_iff bit_drop_bit_eq)
  with assms(2) i show "bit w i = bit (slice_of n lo len) i" by simp
qed

definition fits :: "u8 list \<Rightarrow> nat \<Rightarrow> nat \<Rightarrow> byte_order \<Rightarrow> bool" where
  "fits d start len order \<longleftrightarrow> 1 \<le> len \<and> len \<le> 64 \<and>
     (case order of LittleEndian \<Rightarrow> start | BigEndian \<Rightarrow> stream_pos start) + len \<le> 8 * length d"

definition signal_bits :: "u8 list \<Rightarrow> nat \<Rightarrow> nat \<Rightarrow> byte_order \<Rightarrow> u64" where
  "signal_bits d start len order = (case order of
     LittleEndian \<Rightarrow> slice_of (le_int d) start len
   | BigEndian \<Rightarrow> slice_of (be_int d) (8 * length d - stream_pos start - len) len)"

lemma extract_raw_eq:
  "extract_raw d start len order = (if fits d start len order then Some (signal_bits d start len order) else None)"
proof (cases "1 \<le> len \<and> len \<le> 64")
  case False
  then show ?thesis by (auto simp: extract_raw_def fits_def)
next
  case True
  show ?thesis
  proof (cases order)
    case LittleEndian
    show ?thesis
    proof (cases "start + len \<le> 8 * length d")
      case fit: True
      then obtain w where w: "little_bits d start [0..<len] 0 = Some w" "\<forall>i. bit w i \<longleftrightarrow> i < len \<and> payload_bit d (start + i)"
        using little_bits_Some [of start 0 len d 0] True by auto
      then have "w = slice_of (le_int d) start len" using True by (intro slice_of_unique) (simp_all add: bit_le_int)
      with w True fit LittleEndian show ?thesis by (simp add: extract_raw_def fits_def signal_bits_def)
    next
      case False
      with True LittleEndian little_bits_None [of d start 0 len] show ?thesis by (simp add: extract_raw_def fits_def)
    qed
  next
    case BigEndian
    show ?thesis
    proof (cases "stream_pos start + len \<le> 8 * length d")
      case fit: True
      then obtain w where w: "big_bits d len start 0 = Some w"
        "\<forall>i<64. bit w i \<longleftrightarrow> (if i < len then bit (be_int d) (8 * length d - stream_pos start - len + i) else bit (0 :: u64) (i - len))"
        using big_bits_Some [of start len d 0] True by auto
      then have "w = slice_of (be_int d) (8 * length d - stream_pos start - len) len"
        using True by (intro slice_of_unique) (simp_all split: if_splits)
      with w True fit BigEndian show ?thesis by (simp add: extract_raw_def fits_def signal_bits_def)
    next
      case False
      with True BigEndian big_bits_None [of d start len] show ?thesis by (simp add: extract_raw_def fits_def)
    qed
  qed
qed

lemma unat_slice_of: "len \<le> 64 \<Longrightarrow> unat (slice_of n lo len) = n div 2 ^ lo mod 2 ^ len"
proof -
  assume l: "len \<le> 64"
  have "n div 2 ^ lo mod 2 ^ len < 2 ^ len" by simp
  also have "(2 :: nat) ^ len \<le> 2 ^ 64" using l by (intro power_increasing) simp_all
  finally show ?thesis by (simp add: slice_of_def unat_of_nat take_bit_nat_eq_self)
qed

lemma unat_signal_bits_less: "len \<le> 64 \<Longrightarrow> unat (signal_bits d start len order) < 2 ^ len"
  by (simp add: signal_bits_def unat_slice_of split: byte_order.split)

lemma sint_of_int_small: "- (2 ^ 63) \<le> x \<Longrightarrow> x < 2 ^ 63 \<Longrightarrow> sint (word_of_int x :: u64) = x"
  by (simp add: sint_sbintrunc' signed_take_bit_int_eq_self)

definition twos_complement :: "nat \<Rightarrow> nat \<Rightarrow> int" where
  "twos_complement n len = (if n < 2 ^ (len - 1) then int n else int n - 2 ^ len)"

lemma top_bit:
  assumes "unat w < 2 ^ len" "1 \<le> len" "len \<le> 64"
  shows "drop_bit (len - 1) (w :: u64) AND 1 = 1 \<longleftrightarrow> 2 ^ (len - 1) \<le> unat w"
proof -
  obtain l where "len = Suc l" using assms(2) by (cases len) auto
  with assms(1) have "unat w < 2 * 2 ^ (len - 1)" by simp
  then have two: "unat w div 2 ^ (len - 1) < 2" by (rule less_mult_imp_div_less)
  have "bit w (len - 1) \<longleftrightarrow> bit (unat w) (len - 1)" using assms(3) by (simp add: bit_unsigned_iff bit_imp_le_length)
  also have "\<dots> \<longleftrightarrow> odd (unat w div 2 ^ (len - 1))" by (simp add: bit_iff_odd)
  also have "odd (unat w div 2 ^ (len - 1)) \<longleftrightarrow> unat w div 2 ^ (len - 1) \<noteq> 0" using two by (metis One_nat_def even_zero less_2_cases odd_one)
  also have "\<dots> \<longleftrightarrow> 2 ^ (len - 1) \<le> unat w" by (simp add: div_eq_0_iff not_less)
  finally have "bit w (len - 1) \<longleftrightarrow> 2 ^ (len - 1) \<le> unat w" .
  then show ?thesis by (simp add: and_one_eq mod_2_eq_odd bit_iff_odd_drop_bit)
qed

lemma signed_value_twos_complement:
  assumes "unat w < 2 ^ len" "1 \<le> len" "len \<le> 64"
  shows "signed_value w len SignedValue = twos_complement (unat w) len"
proof -
  have w: "w = word_of_int (int (unat w))" by simp
  have p: "(2 :: int) ^ (len - 1) \<le> 2 ^ 63" using assms(3) by (intro power_increasing) simp_all
  have le: "int (unat w) < 2 ^ len" using assms(1) by (metis of_nat_less_iff of_nat_numeral of_nat_power)
  have half: "(2 :: int) ^ len = 2 * 2 ^ (len - 1)" using assms(2) by (simp add: power_eq_if)
  show ?thesis
  proof (cases "unat w < 2 ^ (len - 1)")
    case True
    then have "int (unat w) < 2 ^ (len - 1)" by (metis of_nat_less_iff of_nat_numeral of_nat_power)
    with p have "int (unat w) < 2 ^ 63" by linarith
    moreover have "- (2 ^ 63) \<le> int (unat w)" by (rule order_trans [of _ 0]) simp_all
    ultimately have "sint (word_of_int (int (unat w)) :: u64) = int (unat w)" by (intro sint_of_int_small)
    then have "sint w = int (unat w)" by simp
    with True top_bit [OF assms] show ?thesis by (simp add: signed_value_def twos_complement_def)
  next
    case False
    then have ge: "2 ^ (len - 1) \<le> int (unat w)" by (metis not_less of_nat_le_iff of_nat_numeral of_nat_power)
    have neg: "sint (word_of_int (int (unat w) - 2 ^ len) :: u64) = int (unat w) - 2 ^ len"
      using ge le half p by (intro sint_of_int_small) simp_all
    show ?thesis
    proof (cases "len < 64")
      case True
      have "w - push_bit len 1 = word_of_int (int (unat w) - 2 ^ len)" by (simp add: push_bit_eq_mult)
      with neg False True top_bit [OF assms] show ?thesis by (simp add: signed_value_def twos_complement_def)
    next
      case l64: False
      then have "(2 :: u64) ^ len = 0" using assms(3) by simp
      with neg have "sint w = int (unat w) - 2 ^ len" by simp
      with False l64 show ?thesis by (simp add: signed_value_def twos_complement_def)
    qed
  qed
qed

section \<open>Parsed databases are well formed\<close>

definition signal_ok :: "dbc_signal \<Rightarrow> bool" where
  "signal_ok s \<longleftrightarrow> 1 \<le> sg_length s \<and> sg_length s \<le> 64 \<and> f_is_finite (sg_factor s) \<and> f_is_finite (sg_offset s)"

definition message_ok :: "dbc_message \<Rightarrow> bool" where
  "message_ok m \<longleftrightarrow> bo_dlc m \<le> 64 \<and> bo_id m AND 0x1FFFFFFF = bo_id m \<and> distinct (map sg_name (bo_signals m))
     \<and> (\<forall>s\<in>set (bo_signals m). signal_ok s)"

lemma parse_layout_ok:
  "parse_layout bad tok = Inr (start, len, bo, vt) \<Longrightarrow> 1 \<le> len \<and> len \<le> 64"
  by (auto simp: parse_layout_def bind_result_eq_Inr split: if_splits option.splits)

lemma parse_signal_ok: "parse_signal line n = Inr s \<Longrightarrow> signal_ok s"
  by (auto simp: parse_signal_def Let_def bind_result_eq_Inr signal_ok_def dest!: parse_layout_ok
      split: if_splits)

lemma parse_message_ok: "parse_message line n = Inr m \<Longrightarrow> message_ok m \<and> bo_signals m = []"
  by (auto simp: parse_message_def Let_def bind_result_eq_Inr message_ok_def and.assoc
      split: if_splits)

definition messages_ok :: "dbc_message list \<Rightarrow> bool" where
  "messages_ok ms \<longleftrightarrow> (\<forall>m\<in>set ms. message_ok m)"

lemma message_ok_add_signal:
  "message_ok m \<Longrightarrow> signal_ok s \<Longrightarrow> \<not> list_ex (\<lambda>e. sg_name e = sg_name s) (bo_signals m) \<Longrightarrow>
     message_ok (m\<lparr>bo_signals := bo_signals m @ [s]\<rparr>)"
  by (auto simp: message_ok_def list_ex_iff)

lemma parse_line_ok:
  assumes "messages_ok (fst st)" "parse_line n l st = Inr st'"
  shows "messages_ok (fst st')"
proof -
  obtain ms vts where st: "st = (ms, vts)" by fastforce
  have lastok: "ms \<noteq> [] \<Longrightarrow> message_ok (List.last ms)" using assms(1) st by (simp add: messages_ok_def)
  have bl: "\<And>x. x \<in> set (butlast ms) \<Longrightarrow> message_ok x"
    using assms(1) st by (auto simp: messages_ok_def dest: in_set_butlastD)
  show ?thesis
    using assms bl lastok
    by (auto simp: parse_line_def st Let_def bind_result_eq_Inr messages_ok_def
        dest!: parse_message_ok parse_signal_ok intro!: message_ok_add_signal dest: in_set_butlastD split: list.splits if_splits)
qed

lemma parse_lines_ok: "messages_ok (fst st) \<Longrightarrow> parse_lines n ls st = Inr st' \<Longrightarrow> messages_ok (fst st')"
  by (induction n ls st rule: parse_lines.induct) (auto simp: bind_result_eq_Inr dest: parse_line_ok)

definition database_ok :: "dbc_database \<Rightarrow> bool" where
  "database_ok db \<longleftrightarrow> (\<forall>k m. db k = Some m \<longrightarrow> message_ok m \<and> (bo_id m, bo_extended m) = k)"

lemma database_ok_put:
  "database_ok db \<Longrightarrow> message_ok m \<Longrightarrow> database_ok (db((bo_id m, bo_extended m) \<mapsto> m))"
  by (simp add: database_ok_def)

lemma insert_all_ok:
  "database_ok db \<Longrightarrow> messages_ok ms \<Longrightarrow> database_ok (foldl (\<lambda>db m. db((bo_id m, bo_extended m) \<mapsto> m)) db ms)"
  by (induction ms arbitrary: db) (simp_all add: messages_ok_def database_ok_put)

lemma set_table_names: "map sg_name (set_table name t ss) = map sg_name ss"
  by (induction ss) auto

lemma signal_ok_table: "signal_ok (s\<lparr>sg_value_table := t\<rparr>) = signal_ok s"
  by (simp add: signal_ok_def)

lemma set_table_ok: "\<forall>s\<in>set ss. signal_ok s \<Longrightarrow> \<forall>s\<in>set (set_table name t ss). signal_ok s"
  by (induction ss) (simp_all add: signal_ok_table)

lemma message_ok_set_table:
  "message_ok m \<Longrightarrow> message_ok (m\<lparr>bo_signals := set_table name t (bo_signals m)\<rparr>)"
  using set_table_ok [of "bo_signals m" name t] by (auto simp: message_ok_def set_table_names)

lemma apply_table_ok: "database_ok db \<Longrightarrow> database_ok (apply_table db v)"
  by (auto simp: database_ok_def apply_table_def message_ok_set_table split: option.splits)

interpretation tables: invariant_machine apply_table database_ok
  by unfold_locales (rule apply_table_ok)

lemma dbc_parse_ok: "dbc_parse text = Inr db \<Longrightarrow> database_ok db"
proof -
  assume "dbc_parse text = Inr db"
  then obtain ms vts where p: "parse_lines 1 (str_lines text) ([], []) = Inr (ms, vts)"
    and db: "db = foldl apply_table (foldl (\<lambda>db m. db((bo_id m, bo_extended m) \<mapsto> m)) Map.empty ms) vts"
    by (auto simp: dbc_parse_def bind_result_eq_Inr)
  have "messages_ok ms" using parse_lines_ok [OF _ p] by (simp add: messages_ok_def)
  then show ?thesis unfolding db by (intro tables.run_inv insert_all_ok) (simp_all add: database_ok_def)
qed

section \<open>A worked example\<close>

lemmas text_simps = split_once_def split_whitespace_def is_ws_def trim_def trim_start_def trim_end_def char_code_def
  parse_unsigned_def is_ascii_digit_def digits_value_def digit_value_def list_get_def

lemmas f64_simps = parse_f64_def parse_f64_unsigned_def parse_exponent_def f_decimal_def to_lower_def
  to_lower_char_def round_f64_def bit_len.simps

definition example_text :: string where
  "example_text = ''BO_ 5 A: 1 X'' @ CHR 0x0A # ''SG_ s : 0|8@1+ (1,0) [0|1] X''"

definition example_signal :: dbc_signal where
  "example_signal = \<lparr>sg_name = ''s'', sg_start_bit = 0, sg_length = 8, sg_byte_order = LittleEndian,
     sg_value_type = UnsignedValue, sg_factor = Fin False 1 0, sg_offset = Fin False 0 0, sg_min = Fin False 0 0,
     sg_max = Fin False 1 0, sg_unit = [], sg_multiplex = Plain, sg_value_table = Map.empty\<rparr>"

definition example_message :: dbc_message where
  "example_message = \<lparr>bo_id = 5, bo_extended = False, bo_name = ''A'', bo_dlc = 1, bo_signals = []\<rparr>"

lemma example_parse_message: "parse_message ''BO_ 5 A: 1 X'' n = Inr example_message"
  by (simp add: parse_message_def text_simps u32_of_nat_def u32_max_def example_message_def)

lemma example_parse_layout: "parse_layout bad ''0|8@1+'' = Inr (0, 8, LittleEndian, UnsignedValue)"
  by (simp add: parse_layout_def text_simps)

lemma example_parse_f64: "parse_f64 ''1'' = Some (Fin False 1 0)" "parse_f64 ''0'' = Some (Fin False 0 0)"
  by (simp_all add: text_simps f64_simps)

lemma example_parse_signal: "parse_signal ''SG_ s : 0|8@1+ (1,0) [0|1] X'' n = Inr example_signal"
  by (simp add: parse_signal_def text_simps parse_multiplex_def example_parse_layout [unfolded text_simps]
      parse_factor_offset_def parse_min_max_def parse_pair_def between_def parse_quoted_def
      example_parse_f64 [simplified] example_signal_def)

lemma example_lines: "str_lines example_text = [''BO_ 5 A: 1 X'', ''SG_ s : 0|8@1+ (1,0) [0|1] X'']"
  by (simp add: example_text_def str_lines_def)

lemma example_parse:
  "dbc_parse example_text = Inr [(5, False) \<mapsto> example_message\<lparr>bo_signals := [example_signal]\<rparr>]"
proof -
  have 1: "parse_line n ''BO_ 5 A: 1 X'' ([], []) = Inr ([example_message], [])" for n
    using example_parse_message [of n] by (simp add: parse_line_def trim_def trim_start_def trim_end_def is_ws_def char_code_def split_whitespace_def)
  have 2: "parse_line n ''SG_ s : 0|8@1+ (1,0) [0|1] X'' ([example_message], [])
      = Inr ([example_message\<lparr>bo_signals := [example_signal]\<rparr>], [])" for n
    using example_parse_signal [of n]
    by (simp add: parse_line_def trim_def trim_start_def trim_end_def is_ws_def char_code_def split_whitespace_def example_message_def)
  have "bo_id example_message = 5 \<and> \<not> bo_extended example_message" by (simp add: example_message_def)
  with 1 2 show ?thesis by (simp add: dbc_parse_def example_lines del: One_nat_def)
qed

section \<open>Properties\<close>

text \<open>C16. Signal extraction is slicing: for every payload, start bit, width and byte order,
  \<^verbatim>\<open>extract_raw\<close> returns nothing exactly when the field leaves the payload (or is not 1 to 64
  bits wide), and otherwise the field of the payload read as one little-endian, respectively
  big-endian, number; a signed signal is the two's complement value of that field.\<close>

theorem signal_extraction_correct:
  "extract_raw d start len order = (if fits d start len order then Some (signal_bits d start len order) else None)
   \<and> (fits d start len order \<longrightarrow>
        unat (signal_bits d start len order)
          = (case order of LittleEndian \<Rightarrow> le_int d div 2 ^ start | BigEndian \<Rightarrow> be_int d div 2 ^ (8 * length d - stream_pos start - len)) mod 2 ^ len
        \<and> signed_value (signal_bits d start len order) len SignedValue
          = twos_complement (unat (signal_bits d start len order)) len)"
proof (intro conjI impI)
  assume f: "fits d start len order"
  then have l: "1 \<le> len" "len \<le> 64" by (simp_all add: fits_def)
  show "unat (signal_bits d start len order)
      = (case order of LittleEndian \<Rightarrow> le_int d div 2 ^ start | BigEndian \<Rightarrow> be_int d div 2 ^ (8 * length d - stream_pos start - len)) mod 2 ^ len"
    using l by (simp add: signal_bits_def unat_slice_of split: byte_order.split)
  show "signed_value (signal_bits d start len order) len SignedValue
      = twos_complement (unat (signal_bits d start len order)) len"
    using l unat_signal_bits_less by (intro signed_value_twos_complement) simp_all
qed (rule extract_raw_eq)

theorem signal_extraction_correct_witness:
  "extract_raw [0x12, 0x34] 3 8 BigEndian = Some (signal_bits [0x12, 0x34] 3 8 BigEndian)
   \<and> unat (signal_bits [0x12, 0x34] 3 8 BigEndian) = 0x23"
proof -
  have f: "fits [0x12, 0x34] 3 8 BigEndian" by (simp add: fits_def stream_pos_def)
  have "be_int [0x12, 0x34] = 0x1234" by (simp add: be_int_def)
  with signal_extraction_correct [of "[0x12, 0x34]" 3 8 BigEndian] f show ?thesis by (simp add: stream_pos_def)
qed

text \<open>The parser fails closed: a database it accepts maps every key to the message of that
  id, every message has a masked 29-bit id, at most 64 bytes and distinct signal names, and
  every signal has 1 to 64 bits and finite scaling, so decoding a frame meets the requirements
  of the bit extraction whatever the payload.\<close>

theorem parsed_database_wellformed:
  assumes "dbc_parse text = Inr db" "dbc_lookup db i ext = Some m"
  shows "bo_id m = i \<and> bo_extended m = ext \<and> bo_dlc m \<le> 64 \<and> bo_id m AND 0x1FFFFFFF = bo_id m
    \<and> distinct (map sg_name (bo_signals m))
    \<and> (\<forall>s\<in>set (bo_signals m). 1 \<le> sg_length s \<and> sg_length s \<le> 64
         \<and> f_is_finite (sg_factor s) \<and> f_is_finite (sg_offset s))"
  using dbc_parse_ok [OF assms(1)] assms(2)
  by (auto simp: database_ok_def message_ok_def signal_ok_def dbc_lookup_def)

theorem parsed_database_wellformed_witness:
  "distinct (map sg_name (bo_signals (example_message\<lparr>bo_signals := [example_signal]\<rparr>)))
   \<and> bo_id example_message = 5"
  using parsed_database_wellformed [OF example_parse, of 5 False "example_message\<lparr>bo_signals := [example_signal]\<rparr>"]
  by (simp add: dbc_lookup_def)

end
