(* ===== verification/Capture.thy ===== *)
theory Capture
  imports F64
begin

unbundle bit_operations_syntax

text \<open>
  The capture importers, \<^verbatim>\<open>crates/hf-automotive/src/capture.rs\<close>: candump logs, Vector ASCII traces,
  CRTD logs and GVRET exports read line by line into normalized CAN frames. The four line loops
  share their shape (skip the line, add a frame, or stop with an error naming the line), which is
  the interface \<open>line_importer\<close>; it is interpreted on every format. The reference of the candump
  reader is the writer of that log format. Timestamps are \<^verbatim>\<open>u64\<close> values kept as naturals.
\<close>

section \<open>Frames\<close>

datatype direction = Rx | Tx

datatype frame_kind = KData | KRemote | KError

record frame_record =
  fr_timestamp :: nat
  fr_channel :: string
  fr_id :: u32
  fr_extended :: bool
  fr_fd :: bool
  fr_kind :: frame_kind
  fr_data :: "u8 list"
  fr_direction :: "direction option"

datatype capture_format = Candump | VectorAsc | Crtd | GvretCsv

record import_error =
  ie_format :: string
  ie_line :: nat
  ie_reason :: string

definition import_err :: "string \<Rightarrow> nat \<Rightarrow> string \<Rightarrow> import_error" where
  "import_err fmt n reason = \<lparr>ie_format = fmt, ie_line = n, ie_reason = reason\<rparr>"

section \<open>Numbers\<close>

text \<open>\<^verbatim>\<open>str::as_bytes\<close>: the UTF-8 encoding of code points below 256.\<close>

definition utf8_char :: "char \<Rightarrow> u8 list" where
  "utf8_char c = (let n = char_code c in
     if n < 128 then [of_nat n] else [of_nat (192 + n div 64), of_nat (128 + n mod 64)])"

definition utf8_bytes :: "string \<Rightarrow> u8 list" where
  "utf8_bytes s = concat (map utf8_char s)"

text \<open>\<^verbatim>\<open>char::to_digit\<close> and \<^verbatim>\<open>from_str_radix\<close> of an unsigned integer with maximum \<open>m\<close>.\<close>

definition to_digit :: "nat \<Rightarrow> char \<Rightarrow> nat option" where
  "to_digit radix c =
     (let n = char_code c;
          d = (if 48 \<le> n \<and> n \<le> 57 then Some (n - 48)
               else if 97 \<le> n \<and> n \<le> 122 then Some (n - 87)
               else if 65 \<le> n \<and> n \<le> 90 then Some (n - 55) else None)
      in case d of Some v \<Rightarrow> if v < radix then Some v else None | None \<Rightarrow> None)"

fun radix_value :: "nat \<Rightarrow> nat \<Rightarrow> string \<Rightarrow> nat option" where
  "radix_value radix acc [] = Some acc"
| "radix_value radix acc (c # cs) =
     (case to_digit radix c of None \<Rightarrow> None | Some d \<Rightarrow> radix_value radix (acc * radix + d) cs)"

definition from_str_radix :: "nat \<Rightarrow> nat \<Rightarrow> string \<Rightarrow> nat option" where
  "from_str_radix m radix s =
     (let ds = (case s of [] \<Rightarrow> s | c # cs \<Rightarrow> if c = CHR ''+'' then cs else s) in
      if ds = [] then None
      else case radix_value radix 0 ds of Some v \<Rightarrow> if v \<le> m then Some v else None | None \<Rightarrow> None)"

definition u32_from_radix :: "nat \<Rightarrow> string \<Rightarrow> u32 option" where
  "u32_from_radix radix s = map_option of_nat (from_str_radix u32_max radix s)"

definition u8_from_radix :: "nat \<Rightarrow> string \<Rightarrow> u8 option" where
  "u8_from_radix radix s = map_option of_nat (from_str_radix 255 radix s)"

definition hex_nibble :: "u8 \<Rightarrow> u8 option" where
  "hex_nibble b =
     (if 48 \<le> b \<and> b \<le> 57 then Some (b - 48)
      else if 97 \<le> b \<and> b \<le> 102 then Some (b - 97 + 10)
      else if 65 \<le> b \<and> b \<le> 70 then Some (b - 65 + 10)
      else None)"

text \<open>\<^verbatim>\<open>chunks_exact(2)\<close> with the byte of each pair; an odd rest is dropped.\<close>

fun hex_pairs :: "u8 list \<Rightarrow> u8 list option" where
  "hex_pairs (a # b # rest) =
     Option.bind (hex_nibble a) (\<lambda>high. Option.bind (hex_nibble b) (\<lambda>low.
       map_option ((#) (push_bit 4 high OR low)) (hex_pairs rest)))"
| "hex_pairs _ = Some []"

definition hex_bytes :: "string \<Rightarrow> u8 list option" where
  "hex_bytes text0 =
     (let t = trim text0 in
      if \<not> 2 dvd utf8_len t then None else hex_pairs (utf8_bytes t))"

definition seconds_to_micros :: "string \<Rightarrow> nat option" where
  "seconds_to_micros t =
     (let (secs0, frac) = (case split_once (CHR ''.'') t of Some p \<Rightarrow> p | None \<Rightarrow> (t, [])) in
      Option.bind (parse_unsigned u64_max secs0) (\<lambda>secs.
        if \<not> list_all is_ascii_digit frac then None
        else
          let digits = take 6 frac;
              micros_digits = digits @ replicate (6 - length digits) (CHR ''0'')
          in Option.bind (parse_unsigned u64_max micros_digits) (\<lambda>micros.
            if secs * 1000000 \<le> u64_max \<and> secs * 1000000 + micros \<le> u64_max
            then Some (secs * 1000000 + micros) else None)))"

definition maximum_id :: "bool \<Rightarrow> u32" where
  "maximum_id extended = (if extended then 0x1FFFFFFF else 0x7FF)"

text \<open>A loop that pushes one value per element and stops at the first error.\<close>

fun push_all :: "('a \<Rightarrow> ('e, 'b) result) \<Rightarrow> 'a list \<Rightarrow> ('e, 'b list) result" where
  "push_all f [] = Inr []"
| "push_all f (x # xs) = bind_result (f x) (\<lambda>y. bind_result (push_all f xs) (\<lambda>ys. Inr (y # ys)))"

section \<open>Candump\<close>

definition parse_candump_frame :: "string \<Rightarrow> (u32 \<times> bool \<times> bool \<times> frame_kind \<times> u8 list) option" where
  "parse_candump_frame frame =
     Option.bind (split_once (CHR ''#'') frame) (\<lambda>(id_str, rest).
     if id_str = [] \<or> utf8_len id_str > 8 then None
     else Option.bind (u32_from_radix 16 id_str) (\<lambda>raw_id.
       let extended = (utf8_len id_str = 8);
           ident = raw_id AND 0x1FFFFFFF
       in case strip_prefix ''#'' rest of
            Some fd_rest \<Rightarrow>
              (case utf8_bytes fd_rest of
                 [] \<Rightarrow> None
               | b # _ \<Rightarrow> Option.bind (hex_nibble b) (\<lambda>_.
                   Option.bind (hex_bytes (tl fd_rest)) (\<lambda>data.
                     if length data > 64 then None else Some (ident, extended, True, KData, data))))
          | None \<Rightarrow>
              (case strip_prefix ''R'' rest of
                 Some remote \<Rightarrow>
                   if remote = [] then Some (ident, extended, False, KRemote, [])
                   else Option.bind (parse_unsigned 255 remote) (\<lambda>dlc.
                     if dlc > 8 then None else Some (ident, extended, False, KRemote, []))
               | None \<Rightarrow>
                   (let kind = (if extended \<and> raw_id AND 0x20000000 \<noteq> 0 then KError else KData) in
                    Option.bind (hex_bytes rest) (\<lambda>data.
                      if length data > 8 then None else Some (ident, extended, False, kind, data))))))"

text \<open>\<^verbatim>\<open>strip_prefix\<close> and \<^verbatim>\<open>strip_suffix\<close> of one parenthesis each, then the timestamp.\<close>

definition candump_timestamp :: "string \<Rightarrow> nat option" where
  "candump_timestamp tok =
     Option.bind (strip_prefix ''('' tok) (\<lambda>t.
       if ends_with '')'' t then seconds_to_micros (butlast t) else None)"

type_synonym 's line_step = "'s \<Rightarrow> nat \<Rightarrow> string \<Rightarrow> (import_error, 's \<times> frame_record option) result"

text \<open>One round of each line loop: what the body does with the line numbered \<open>n\<close>, \<open>None\<close> for
  \<^verbatim>\<open>continue\<close>; the first component is the state the loop carries (the radix of a Vector trace).\<close>

definition candump_line :: "unit line_step" where
  "candump_line u n raw =
     (let line = trim raw in
      if line = [] then Inr (u, None)
      else
        let toks = split_whitespace line in
        if length toks < 3 then Inl (import_err ''candump'' n ''expected `(ts) iface id#data`'')
        else
          bind_result (ok_or (import_err ''candump'' n ''invalid timestamp'') (candump_timestamp (toks ! 0))) (\<lambda>ts.
          bind_result (ok_or (import_err ''candump'' n ''invalid frame body'') (parse_candump_frame (toks ! 2)))
            (\<lambda>(ident, extended, fd, kind, data).
              Inr (u, Some \<lparr>fr_timestamp = ts, fr_channel = toks ! 1, fr_id = ident, fr_extended = extended,
                fr_fd = fd, fr_kind = kind, fr_data = data, fr_direction = None\<rparr>))))"

text \<open>The loop over \<^verbatim>\<open>text.lines().enumerate()\<close>.\<close>

fun import_lines :: "'s line_step \<Rightarrow> 's \<Rightarrow> nat \<Rightarrow> string list \<Rightarrow> (import_error, frame_record list) result" where
  "import_lines step s n [] = Inr []"
| "import_lines step s n (l # ls) = bind_result (step s n l) (\<lambda>(s', f).
     bind_result (import_lines step s' (Suc n) ls) (\<lambda>out.
       Inr (case f of None \<Rightarrow> out | Some fr \<Rightarrow> fr # out)))"

definition parse_candump :: "string \<Rightarrow> (import_error, frame_record list) result" where
  "parse_candump t = import_lines candump_line () 1 (str_lines t)"

section \<open>Vector ASCII\<close>

definition strip_extended_suffix :: "string \<Rightarrow> string \<times> bool" where
  "strip_extended_suffix tok =
     (if tok \<noteq> [] \<and> (last tok = CHR ''x'' \<or> last tok = CHR ''X'') then (butlast tok, True) else (tok, False))"

definition asc_payload :: "nat \<Rightarrow> nat \<Rightarrow> string list \<Rightarrow> nat \<Rightarrow> (import_error, frame_kind \<times> u8 list) result" where
  "asc_payload radix n toks dlc =
     (if eq_ignore_ascii_case (toks ! 4) ''r'' then Inr (KRemote, [])
      else if length toks < 6 + dlc then Inl (import_err ''vector-asc'' n ''fewer data bytes than declared dlc'')
      else bind_result
        (push_all (\<lambda>tok. ok_or (import_err ''vector-asc'' n ''invalid data byte'') (u8_from_radix radix tok))
          (take dlc (drop 6 toks))) (\<lambda>bytes. Inr (KData, bytes)))"

definition asc_frame :: "nat \<Rightarrow> nat \<Rightarrow> string list \<Rightarrow> direction \<Rightarrow> (import_error, frame_record) result" where
  "asc_frame radix n toks dir =
     (let bad = import_err ''vector-asc'' n in
      bind_result (ok_or (bad ''invalid timestamp'') (seconds_to_micros (toks ! 0))) (\<lambda>ts.
      let (id_text, extended) = strip_extended_suffix (toks ! 2) in
      bind_result (ok_or (bad ''invalid id'') (u32_from_radix radix id_text)) (\<lambda>ident.
      if ident > maximum_id extended then Inl (bad ''id exceeds the declared frame format'')
      else
        bind_result (ok_or (bad ''invalid dlc'') (parse_unsigned u64_max (toks ! 5))) (\<lambda>dlc.
        if dlc > 8 then Inl (bad ''classic CAN dlc exceeds 8'')
        else
          bind_result (asc_payload radix n toks dlc) (\<lambda>(kind, data).
            Inr \<lparr>fr_timestamp = ts, fr_channel = toks ! 1, fr_id = ident, fr_extended = extended,
              fr_fd = False, fr_kind = kind, fr_data = data, fr_direction = Some dir\<rparr>)))))"

definition asc_line :: "nat line_step" where
  "asc_line radix n raw =
     (let line = trim raw in
      if line = [] then Inr (radix, None)
      else
        let lower = to_ascii_lowercase line in
        if starts_with ''base'' lower then Inr (if str_contains ''dec'' lower then 10 else radix, None)
        else
          let toks = split_whitespace line in
          if length toks < 6 then Inr (radix, None)
          else if parse_f64 (toks ! 0) = None then Inr (radix, None)
          else if eq_ignore_ascii_case (toks ! 1) ''canfd'' \<or> eq_ignore_ascii_case (toks ! 2) ''errorframe''
          then Inr (radix, None)
          else if toks ! 3 = ''Rx'' then bind_result (asc_frame radix n toks Rx) (\<lambda>f. Inr (radix, Some f))
          else if toks ! 3 = ''Tx'' then bind_result (asc_frame radix n toks Tx) (\<lambda>f. Inr (radix, Some f))
          else Inr (radix, None))"

definition parse_asc :: "string \<Rightarrow> (import_error, frame_record list) result" where
  "parse_asc t = import_lines asc_line 16 1 (str_lines t)"

section \<open>CRTD\<close>

definition crtd_frame :: "nat \<Rightarrow> string list \<Rightarrow> nat \<Rightarrow> direction \<Rightarrow> bool \<Rightarrow> string \<Rightarrow> (import_error, frame_record) result" where
  "crtd_frame n toks ts dir extended bus =
     (let bad = import_err ''crtd'' n in
      if length toks < 3 then Inl (bad ''missing arbitration id'')
      else
        bind_result (ok_or (bad ''invalid id'') (u32_from_radix 16 (toks ! 2))) (\<lambda>raw_id.
        bind_result (push_all (\<lambda>tok. ok_or (bad ''invalid data byte'') (u8_from_radix 16 tok)) (drop 3 toks)) (\<lambda>data.
        if length data > 8 then Inl (bad ''classic CAN payload exceeds 8 bytes'')
        else Inr \<lparr>fr_timestamp = ts, fr_channel = (if bus = [] then ''1'' else bus), fr_id = raw_id AND 0x1FFFFFFF,
               fr_extended = extended, fr_fd = False, fr_kind = KData, fr_data = data, fr_direction = Some dir\<rparr>)))"

definition crtd_line :: "unit line_step" where
  "crtd_line u n raw =
     (let line = trim raw in
      if line = [] then Inr (u, None)
      else
        let toks = split_whitespace line in
        if length toks < 2 then Inr (u, None)
        else
          bind_result (ok_or (import_err ''crtd'' n ''invalid timestamp'') (seconds_to_micros (toks ! 0))) (\<lambda>ts.
          let type_body = dropWhile is_ascii_digit (toks ! 1);
              bus = takeWhile is_ascii_digit (toks ! 1);
              dir = (case type_body of [] \<Rightarrow> None
                     | c # _ \<Rightarrow> if c = CHR ''R'' then Some Rx else if c = CHR ''T'' then Some Tx else None);
              extended = ends_with ''29'' type_body
          in case dir of
               None \<Rightarrow> Inr (u, None)
             | Some d \<Rightarrow>
                 if \<not> ends_with ''11'' type_body \<and> \<not> extended then Inr (u, None)
                 else bind_result (crtd_frame n toks ts d extended bus) (\<lambda>f. Inr (u, Some f))))"

definition parse_crtd :: "string \<Rightarrow> (import_error, frame_record list) result" where
  "parse_crtd t = import_lines crtd_line () 1 (str_lines t)"

section \<open>GVRET\<close>

definition gvret_byte :: "nat \<Rightarrow> string \<Rightarrow> (import_error, u8) result" where
  "gvret_byte n col =
     (if col = [] then Inl (import_err ''gvret-csv'' n ''missing data byte'')
      else ok_or (import_err ''gvret-csv'' n ''invalid data byte'') (u8_from_radix 16 col))"

definition gvret_extended :: "nat \<Rightarrow> string \<Rightarrow> (import_error, bool) result" where
  "gvret_extended n col =
     (let l = to_ascii_lowercase col in
      if l = ''true'' \<or> l = ''1'' then Inr True
      else if l = ''false'' \<or> l = ''0'' then Inr False
      else Inl (import_err ''gvret-csv'' n ''invalid extended flag''))"

definition gvret_frame :: "nat \<Rightarrow> string list \<Rightarrow> (import_error, frame_record) result" where
  "gvret_frame n cols =
     (let bad = import_err ''gvret-csv'' n in
      if length cols < 5 then Inl (bad ''expected at least 5 columns'')
      else
        bind_result (ok_or (bad ''invalid timestamp'')
          (if str_contains ''.'' (cols ! 0) then seconds_to_micros (cols ! 0) else parse_unsigned u64_max (cols ! 0))) (\<lambda>ts.
        bind_result (gvret_extended n (cols ! 2)) (\<lambda>extended.
        bind_result (ok_or (bad ''invalid id'') (u32_from_radix 16 (cols ! 1))) (\<lambda>ident.
        if ident > maximum_id extended then Inl (bad ''id exceeds the declared frame format'')
        else
          bind_result (ok_or (bad ''invalid length'') (parse_unsigned u64_max (cols ! 4))) (\<lambda>len.
          if len > 8 then Inl (bad ''classic CAN payload exceeds 8 bytes'')
          else if length cols < 5 + len then Inl (bad ''fewer data bytes than declared length'')
          else
            bind_result (push_all (gvret_byte n) (take len (drop 5 cols))) (\<lambda>data.
              Inr \<lparr>fr_timestamp = ts, fr_channel = cols ! 3, fr_id = ident, fr_extended = extended,
                fr_fd = False, fr_kind = KData, fr_data = data, fr_direction = None\<rparr>))))))"

definition gvret_line :: "unit line_step" where
  "gvret_line u n raw =
     (let line = trim raw in
      if line = [] then Inr (u, None)
      else if starts_with ''Time Stamp'' line then Inr (u, None)
      else bind_result (gvret_frame n (map trim (split_char (CHR '','') line))) (\<lambda>f. Inr (u, Some f)))"

definition parse_gvret_csv :: "string \<Rightarrow> (import_error, frame_record list) result" where
  "parse_gvret_csv t = import_lines gvret_line () 1 (str_lines t)"

definition capture_parse :: "capture_format \<Rightarrow> string \<Rightarrow> (import_error, frame_record list) result" where
  "capture_parse fmt t = (case fmt of
     Candump \<Rightarrow> parse_candump t
   | VectorAsc \<Rightarrow> parse_asc t
   | Crtd \<Rightarrow> parse_crtd t
   | GvretCsv \<Rightarrow> parse_gvret_csv t)"

section \<open>The import loop\<close>

text \<open>What a line reader promises: the frames it adds satisfy the format's well-formedness, and its
  error names the format and the line it was given.\<close>

locale line_importer =
  fixes step :: "'s line_step"
    and ok :: "frame_record \<Rightarrow> bool"
    and fmt :: string
  assumes step_frame: "step s n l = Inr (s', Some f) \<Longrightarrow> ok f"
    and step_error: "step s n l = Inl e \<Longrightarrow> ie_line e = n \<and> ie_format e = fmt"
begin

lemma import_frames_ok: "import_lines step s n ls = Inr fs \<Longrightarrow> list_all ok fs \<and> length fs \<le> length ls"
proof (induction ls arbitrary: s n fs)
  case (Cons l ls)
  then obtain s' f out where st: "step s n l = Inr (s', f)" and out: "import_lines step s' (Suc n) ls = Inr out"
    and fs: "fs = (case f of None \<Rightarrow> out | Some fr \<Rightarrow> fr # out)"
    by (auto simp: bind_result_eq_Inr)
  with Cons.IH [OF out] show ?case by (cases f) (auto dest: step_frame)
qed simp

lemma import_error_located:
  "import_lines step s n ls = Inl e \<Longrightarrow>
     n \<le> ie_line e \<and> ie_line e < n + length ls \<and> ie_format e = fmt
     \<and> is_ok (import_lines step s n (take (ie_line e - n) ls))
     \<and> import_lines step s n (take (Suc (ie_line e - n)) ls @ later) = Inl e"
proof (induction ls arbitrary: s n)
  case (Cons l ls)
  show ?case
  proof (cases "step s n l")
    case (Inl x)
    with Cons.prems step_error [OF Inl] show ?thesis by simp
  next
    case (Inr r)
    obtain s' f where r: "r = (s', f)" by (cases r)
    with Cons.prems Inr have tl_err: "import_lines step s' (Suc n) ls = Inl e"
      by (cases "import_lines step s' (Suc n) ls") auto
    note ih = Cons.IH [OF tl_err]
    obtain k where k: "ie_line e = Suc n + k" using ih le_Suc_ex by blast
    with ih Inr r show ?thesis by (auto simp: is_ok_iff)
  qed
qed simp

end

section \<open>Well-formed frames\<close>

text \<open>What each format guarantees of a frame: a 64-bit timestamp, an id of the declared width (the
  candump and CRTD readers only mask it to 29 bits), the payload limit of classic or FD frames,
  empty remote frames, and a direction exactly where the format records one.\<close>

definition frame_ok :: "capture_format \<Rightarrow> frame_record \<Rightarrow> bool" where
  "frame_ok fmt f \<longleftrightarrow> fr_timestamp f \<le> u64_max
     \<and> fr_id f \<le> (if fmt \<in> {VectorAsc, GvretCsv} then maximum_id (fr_extended f) else 0x1FFFFFFF)
     \<and> length (fr_data f) \<le> (if fr_fd f then 64 else 8)
     \<and> (fr_kind f = KRemote \<longrightarrow> fr_data f = [])
     \<and> (fr_kind f = KError \<longrightarrow> fr_extended f)
     \<and> (fr_fd f \<longrightarrow> fmt = Candump \<and> fr_kind f = KData)
     \<and> (fr_direction f = None \<longleftrightarrow> fmt \<in> {Candump, GvretCsv})"

definition format_name :: "capture_format \<Rightarrow> string" where
  "format_name fmt = (case fmt of Candump \<Rightarrow> ''candump'' | VectorAsc \<Rightarrow> ''vector-asc'' | Crtd \<Rightarrow> ''crtd''
     | GvretCsv \<Rightarrow> ''gvret-csv'')"

lemma mask_id: "(w :: u32) AND 0x1FFFFFFF \<le> 0x1FFFFFFF"
  by (rule word_and_le1)

lemma seconds_bounded: "seconds_to_micros t = Some ts \<Longrightarrow> ts \<le> u64_max"
  by (auto simp: seconds_to_micros_def Let_def split: prod.splits bind_splits if_splits)

lemma parse_unsigned_bounded: "parse_unsigned m s = Some v \<Longrightarrow> v \<le> m"
  by (auto simp: parse_unsigned_def Let_def split: if_splits)

lemma candump_timestamp_bounded: "candump_timestamp t = Some ts \<Longrightarrow> ts \<le> u64_max"
  by (auto simp: candump_timestamp_def intro: seconds_bounded split: bind_splits if_splits)

lemma push_all_length: "push_all f xs = Inr ys \<Longrightarrow> length ys = length xs"
  by (induction xs arbitrary: ys) (auto simp: bind_result_eq_Inr)

lemma push_all_Inl: "push_all f xs = Inl e \<Longrightarrow> \<exists>x\<in>set xs. f x = Inl e"
  by (induction xs) (auto simp: bind_result_def split: sum.splits)

lemma ie_fields [simp]: "ie_line (import_err fmt n r) = n" "ie_format (import_err fmt n r) = fmt"
  by (simp_all add: import_err_def)

lemma bind_result_eq_Inl: "bind_result r f = Inl e \<longleftrightarrow> r = Inl e \<or> (\<exists>x. r = Inr x \<and> f x = Inl e)"
  by (cases r) simp_all

lemmas step_splits = if_splits option.splits prod.splits

lemma candump_frame_shape:
  assumes "parse_candump_frame t = Some (ident, extended, fd, kind, data)"
  shows "ident \<le> 0x1FFFFFFF \<and> length data \<le> (if fd then 64 else 8) \<and> (kind = KRemote \<longrightarrow> data = [])
    \<and> (kind = KError \<longrightarrow> extended) \<and> (fd \<longrightarrow> kind = KData)"
  using assms
  by (auto simp: parse_candump_frame_def Let_def mask_id split: bind_splits step_splits list.splits)

lemma candump_line_ok: "candump_line u n l = Inr (u', Some f) \<Longrightarrow> frame_ok Candump f"
  by (auto simp: candump_line_def Let_def bind_result_eq_Inr frame_ok_def dest: candump_timestamp_bounded
      candump_frame_shape split: if_splits)

lemma candump_line_error: "candump_line u n l = Inl e \<Longrightarrow> ie_line e = n \<and> ie_format e = ''candump''"
  by (auto simp: candump_line_def Let_def bind_result_eq_Inl split: if_splits)

lemma asc_payload_shape:
  assumes "asc_payload radix n toks dlc = Inr (kind, data)" "dlc \<le> 8"
  shows "length data \<le> 8 \<and> (kind = KRemote \<longrightarrow> data = []) \<and> kind \<noteq> KError"
  using assms by (auto simp: asc_payload_def bind_result_eq_Inr dest: push_all_length split: if_splits)

lemma asc_frame_ok: "asc_frame radix n toks dir = Inr f \<Longrightarrow> frame_ok VectorAsc f"
  by (cases "strip_extended_suffix (toks ! 2)")
    (auto simp: asc_frame_def Let_def bind_result_eq_Inr frame_ok_def not_less dest: seconds_bounded
      asc_payload_shape split: if_splits)

lemma asc_payload_error: "asc_payload radix n toks dlc = Inl e \<Longrightarrow> ie_line e = n \<and> ie_format e = ''vector-asc''"
  by (auto simp: asc_payload_def bind_result_eq_Inl dest!: push_all_Inl split: if_splits)

lemma asc_frame_error: "asc_frame radix n toks dir = Inl e \<Longrightarrow> ie_line e = n \<and> ie_format e = ''vector-asc''"
  by (cases "strip_extended_suffix (toks ! 2)")
    (auto simp: asc_frame_def Let_def bind_result_eq_Inl dest: asc_payload_error split: if_splits)

lemma asc_line_ok: "asc_line r n l = Inr (r', Some f) \<Longrightarrow> frame_ok VectorAsc f"
  by (auto simp: asc_line_def Let_def bind_result_eq_Inr dest: asc_frame_ok split: if_splits)

lemma asc_line_error: "asc_line r n l = Inl e \<Longrightarrow> ie_line e = n \<and> ie_format e = ''vector-asc''"
  by (auto simp: asc_line_def Let_def bind_result_eq_Inl dest: asc_frame_error split: if_splits)

lemma crtd_frame_ok: "crtd_frame n toks ts dir extended bus = Inr f \<Longrightarrow> ts \<le> u64_max \<Longrightarrow> frame_ok Crtd f"
  by (auto simp: crtd_frame_def Let_def bind_result_eq_Inr frame_ok_def mask_id split: if_splits)

lemma crtd_frame_error: "crtd_frame n toks ts dir extended bus = Inl e \<Longrightarrow> ie_line e = n \<and> ie_format e = ''crtd''"
  by (auto simp: crtd_frame_def Let_def bind_result_eq_Inl dest!: push_all_Inl split: if_splits)

lemma crtd_line_ok: "crtd_line u n l = Inr (u', Some f) \<Longrightarrow> frame_ok Crtd f"
  by (auto simp: crtd_line_def Let_def bind_result_eq_Inr dest: crtd_frame_ok seconds_bounded split: if_splits option.splits)

lemma crtd_line_error: "crtd_line u n l = Inl e \<Longrightarrow> ie_line e = n \<and> ie_format e = ''crtd''"
  by (auto simp: crtd_line_def Let_def bind_result_eq_Inl dest: crtd_frame_error split: if_splits option.splits)

lemma gvret_frame_ok: "gvret_frame n cols = Inr f \<Longrightarrow> frame_ok GvretCsv f"
  by (auto simp: gvret_frame_def Let_def bind_result_eq_Inr frame_ok_def not_less dest!: push_all_length
      dest: seconds_bounded parse_unsigned_bounded split: if_splits)

lemma gvret_byte_error: "gvret_byte n col = Inl e \<Longrightarrow> ie_line e = n \<and> ie_format e = ''gvret-csv''"
  by (auto simp: gvret_byte_def split: if_splits)

lemma gvret_extended_error: "gvret_extended n col = Inl e \<Longrightarrow> ie_line e = n \<and> ie_format e = ''gvret-csv''"
  by (auto simp: gvret_extended_def Let_def split: if_splits)

lemma gvret_frame_error: "gvret_frame n cols = Inl e \<Longrightarrow> ie_line e = n \<and> ie_format e = ''gvret-csv''"
  by (auto simp: gvret_frame_def Let_def bind_result_eq_Inl dest: gvret_extended_error gvret_byte_error
      dest!: push_all_Inl split: if_split_asm)

lemma gvret_line_ok: "gvret_line u n l = Inr (u', Some f) \<Longrightarrow> frame_ok GvretCsv f"
  by (auto simp: gvret_line_def Let_def bind_result_eq_Inr dest: gvret_frame_ok split: if_splits)

lemma gvret_line_error: "gvret_line u n l = Inl e \<Longrightarrow> ie_line e = n \<and> ie_format e = ''gvret-csv''"
  by (auto simp: gvret_line_def Let_def bind_result_eq_Inl dest: gvret_frame_error split: if_splits)

interpretation candump: line_importer candump_line "frame_ok Candump" "''candump''"
  by unfold_locales (blast dest: candump_line_ok candump_line_error)+

interpretation asc: line_importer asc_line "frame_ok VectorAsc" "''vector-asc''"
  by unfold_locales (blast dest: asc_line_ok asc_line_error)+

interpretation crtd: line_importer crtd_line "frame_ok Crtd" "''crtd''"
  by unfold_locales (blast dest: crtd_line_ok crtd_line_error)+

interpretation gvret: line_importer gvret_line "frame_ok GvretCsv" "''gvret-csv''"
  by unfold_locales (blast dest: gvret_line_ok gvret_line_error)+

section \<open>Import properties\<close>

text \<open>The equations that read a small capture.\<close>

lemmas capture_eval = capture_parse_def parse_candump_def parse_gvret_csv_def str_lines_def candump_line_def
  gvret_line_def gvret_frame_def gvret_extended_def gvret_byte_def trim_def trim_start_def trim_end_def is_ws_def
  split_whitespace_def split_char_def candump_timestamp_def strip_prefix_def ends_with_def seconds_to_micros_def
  split_once_def parse_unsigned_def digits_value_def digit_value_def char_code_def is_ascii_digit_def u64_max_def
  u32_max_def to_ascii_lowercase_def ascii_lower_char_def u32_from_radix_def u8_from_radix_def from_str_radix_def
  to_digit_def maximum_id_def

text \<open>Whatever text is imported, every frame handed to the analysis is well formed: its timestamp
  fits 64 bits, its id fits 29 bits (and 11 bits for a standard frame of a Vector or GVRET trace),
  a classic payload has at most 8 bytes and an FD payload at most 64, a remote frame is empty, only
  extended frames are error frames, and a direction is present exactly in the formats that record
  one; no line gives more than one frame.\<close>

theorem imported_frames_wellformed:
  assumes "capture_parse fmt t = Inr frames"
  shows "list_all (frame_ok fmt) frames \<and> length frames \<le> length (str_lines t)"
  using assms
  by (cases fmt) (auto simp: capture_parse_def parse_candump_def parse_asc_def parse_crtd_def parse_gvret_csv_def
      dest: candump.import_frames_ok asc.import_frames_ok crtd.import_frames_ok gvret.import_frames_ok)

theorem imported_frames_wellformed_witness:
  "list_all (frame_ok GvretCsv) [\<lparr>fr_timestamp = 5, fr_channel = ''0'', fr_id = 0x7E8, fr_extended = False, fr_fd = False,
     fr_kind = KData, fr_data = [0xA1], fr_direction = None\<rparr>]"
proof -
  have "capture_parse GvretCsv ''5,7E8,false,0,1,A1'' = Inr [\<lparr>fr_timestamp = 5, fr_channel = ''0'', fr_id = 0x7E8,
      fr_extended = False, fr_fd = False, fr_kind = KData, fr_data = [0xA1], fr_direction = None\<rparr>]"
    by (simp add: capture_eval)
  from imported_frames_wellformed [OF this] show ?thesis by simp
qed

text \<open>The line reader of a format, from the state its loop starts in.\<close>

definition import_with :: "capture_format \<Rightarrow> string list \<Rightarrow> (import_error, frame_record list) result" where
  "import_with fmt ls = (case fmt of
     Candump \<Rightarrow> import_lines candump_line () 1 ls
   | VectorAsc \<Rightarrow> import_lines asc_line 16 1 ls
   | Crtd \<Rightarrow> import_lines crtd_line () 1 ls
   | GvretCsv \<Rightarrow> import_lines gvret_line () 1 ls)"

lemma capture_parse_lines: "capture_parse fmt t = import_with fmt (str_lines t)"
  by (cases fmt) (simp_all add: capture_parse_def import_with_def parse_candump_def parse_asc_def parse_crtd_def
      parse_gvret_csv_def)

text \<open>An import fails closed at the first malformed line: the error names the format and a line
  of the text, the lines before it import without error, and any capture that begins with the
  lines up to it is refused with the same error, whatever follows.\<close>

theorem import_fails_closed:
  assumes "capture_parse fmt t = Inl e"
  shows "ie_format e = format_name fmt \<and> 1 \<le> ie_line e \<and> ie_line e \<le> length (str_lines t)
    \<and> is_ok (import_with fmt (take (ie_line e - 1) (str_lines t)))
    \<and> import_with fmt (take (ie_line e) (str_lines t) @ later) = Inl e"
  using assms candump.import_error_located [of "()" 1 "str_lines t" e later]
    asc.import_error_located [of 16 1 "str_lines t" e later]
    crtd.import_error_located [of "()" 1 "str_lines t" e later]
    gvret.import_error_located [of "()" 1 "str_lines t" e later]
  by (cases fmt) (auto simp: capture_parse_lines import_with_def format_name_def)

theorem import_fails_closed_witness:
  "ie_line (import_err ''candump'' 2 ''expected `(ts) iface id#data`'') \<le> length (str_lines (CHR 0x0A # ''x''))"
proof -
  have "capture_parse Candump (CHR 0x0A # ''x'') = Inl (import_err ''candump'' 2 ''expected `(ts) iface id#data`'')"
    by (simp add: capture_eval numeral_2_eq_2)
  from import_fails_closed [OF this] show ?thesis by blast
qed

text \<open>An id of a standard frame is not checked against 11 bits in a candump log.\<close>

lemma candump_standard_id_unchecked:
  "parse_candump_frame ''FFF#'' = Some (0xFFF, False, False, KData, [])"
  by (simp add: parse_candump_frame_def capture_eval utf8_len_def hex_bytes_def utf8_bytes_def)

end
