(* ===== verification/Candump_Log.thy ===== *)
theory Candump_Log
  imports Capture
begin

unbundle bit_operations_syntax

text \<open>
  The reference of the candump reader (\<^verbatim>\<open>parse_candump\<close> in \<^verbatim>\<open>crates/hf-automotive/src/capture.rs\<close>): a
  writer of the \<^verbatim>\<open>candump -l\<close> log format, and the proof that the reader inverts it.
\<close>

section \<open>The writer\<close>

definition hex_digit :: "nat \<Rightarrow> char" where
  "hex_digit d = char_of (if d < 10 then 48 + d else 55 + d)"

fun hex_fixed :: "nat \<Rightarrow> nat \<Rightarrow> string" where
  "hex_fixed 0 n = []"
| "hex_fixed (Suc k) n = hex_fixed k (n div 16) @ [hex_digit (n mod 16)]"

fun dec_fixed :: "nat \<Rightarrow> nat \<Rightarrow> string" where
  "dec_fixed 0 n = []"
| "dec_fixed (Suc k) n = dec_fixed k (n div 10) @ [char_of (48 + n mod 10)]"

definition hex_data :: "u8 list \<Rightarrow> string" where
  "hex_data bs = concat (map (\<lambda>b. hex_fixed 2 (unat b)) bs)"

definition candump_id :: "frame_record \<Rightarrow> string" where
  "candump_id f =
     (if fr_extended f then hex_fixed 8 (unat (fr_id f) + (if fr_kind f = KError then 0x20000000 else 0))
      else hex_fixed 3 (unat (fr_id f)))"

definition candump_body :: "frame_record \<Rightarrow> string" where
  "candump_body f = candump_id f @ CHR ''#'' #
     (if fr_fd f then ''#0'' @ hex_data (fr_data f)
      else if fr_kind f = KRemote then ''R'' else hex_data (fr_data f))"

definition candump_stamp :: "nat \<Rightarrow> string" where
  "candump_stamp ts = CHR ''('' # nat_str (ts div 1000000) @ CHR ''.'' # dec_fixed 6 (ts mod 1000000) @ [CHR '')'']"

definition candump_entry :: "frame_record \<Rightarrow> string" where
  "candump_entry f = candump_stamp (fr_timestamp f) @ CHR '' '' # fr_channel f @ CHR '' '' # candump_body f"

definition candump_log :: "frame_record list \<Rightarrow> string" where
  "candump_log fs = concat (map (\<lambda>f. candump_entry f @ [CHR 0x0A]) fs)"

text \<open>The frames such a log can carry: well formed, with an id of the width of the frame format, on an
  interface whose name has no blank.\<close>

definition candump_writable :: "frame_record \<Rightarrow> bool" where
  "candump_writable f \<longleftrightarrow> frame_ok Candump f \<and> fr_id f \<le> maximum_id (fr_extended f)
     \<and> fr_channel f \<noteq> [] \<and> list_all (\<lambda>c. \<not> is_ws c) (fr_channel f)"

section \<open>Digits\<close>

lemma nibble_cases: "(d :: nat) < 16 \<Longrightarrow> d \<in> {0, 1, 2, 3, 4, 5, 6, 7, 8, 9, 10, 11, 12, 13, 14, 15}"
  by simp arith

lemma to_digit_hex: "d < 16 \<Longrightarrow> to_digit 16 (hex_digit d) = Some d"
  by (simp add: to_digit_def hex_digit_def char_code_char_of)

lemma hex_digit_plain: "d < 16 \<Longrightarrow> is_ascii_hexdigit (hex_digit d)"
  by (auto simp: hex_digit_def is_ascii_hexdigit_def is_ascii_digit_def char_code_char_of)

lemma hexdigit_not:
  assumes "is_ascii_hexdigit c"
  shows "c \<noteq> CHR ''#''" "c \<noteq> CHR ''+''" "c \<noteq> CHR ''R''" "\<not> is_ws c" "char_code c < 128"
  using assms
  by (auto simp: is_ascii_hexdigit_def is_ascii_digit_def is_ws_def Let_def char_code_def)

lemma hex_fixed_plain: "list_all is_ascii_hexdigit (hex_fixed k n)"
  by (induction k arbitrary: n) (simp_all add: hex_digit_plain)

lemma hex_fixed_length [simp]: "length (hex_fixed k n) = k"
  by (induction k arbitrary: n) simp_all

lemma radix_value_append:
  "radix_value r acc (a @ b) = Option.bind (radix_value r acc a) (\<lambda>v. radix_value r v b)"
  by (induction a arbitrary: acc) (simp_all split: option.split)

lemma radix_value_hex: "n < 16 ^ k \<Longrightarrow> radix_value 16 acc (hex_fixed k n) = Some (acc * 16 ^ k + n)"
proof (induction k arbitrary: n)
  case (Suc k)
  then have "n div 16 < 16 ^ k" by (simp add: less_mult_imp_div_less)
  then have "radix_value 16 acc (hex_fixed (Suc k) n) = Some ((acc * 16 ^ k + n div 16) * 16 + n mod 16)"
    by (simp add: radix_value_append Suc.IH to_digit_hex)
  also have "(acc * 16 ^ k + n div 16) * 16 + n mod 16 = acc * 16 ^ Suc k + n" by (simp add: algebra_simps)
  finally show ?case .
qed simp

lemma from_str_radix_hex:
  assumes "n < 16 ^ k" "0 < k" "n \<le> m"
  shows "from_str_radix m 16 (hex_fixed k n) = Some n"
proof -
  obtain c cs where s: "hex_fixed k n = c # cs" using assms(2) by (metis hex_fixed_length length_greater_0_conv neq_Nil_conv)
  with hex_fixed_plain [of k n] have "c \<noteq> CHR ''+''" by (auto dest: hexdigit_not)
  with s radix_value_hex [OF assms(1), of 0] assms(3) show ?thesis by (simp add: from_str_radix_def)
qed

lemma utf8_len_ascii: "list_all (\<lambda>c. char_code c < 128) s \<Longrightarrow> utf8_len s = length s"
  by (induction s) (auto simp: utf8_len_def char_code_def)

lemma utf8_bytes_ascii: "list_all (\<lambda>c. char_code c < 128) s \<Longrightarrow> utf8_bytes s = map (\<lambda>c. of_nat (char_code c)) s"
  by (induction s) (auto simp: utf8_bytes_def utf8_char_def)

lemma hex_ascii: "list_all is_ascii_hexdigit s \<Longrightarrow> list_all (\<lambda>c. char_code c < 128) s"
  by (auto simp: list_all_iff dest: hexdigit_not)

lemma hex_nibble_digit: "d < 16 \<Longrightarrow> hex_nibble (of_nat (char_code (hex_digit d))) = Some (of_nat d)"
  by (drule nibble_cases) (auto simp: hex_nibble_def hex_digit_def char_code_char_of)

lemma u8_less: "unat (b :: u8) < 256"
  using unsigned_less [of b, where ?'a = nat] by simp

lemma nibbles_join: "push_bit 4 (of_nat (unat b div 16)) OR of_nat (unat b mod 16) = (b :: u8)"
proof -
  have "(of_nat (unat b div 16) :: u8) = drop_bit 4 b"
    using unat_div [of b 16] u8_less [of b]
    by (simp add: drop_bit_eq_div word_unat_eq_iff unat_of_nat take_bit_nat_eq_self less_imp_diff_less div_le_dividend [THEN le_less_trans])
  moreover have "(of_nat (unat b mod 16) :: u8) = take_bit 4 b"
    by (rule word_unat_eq_iff [THEN iffD2])
      (simp add: unat_of_nat unsigned_take_bit_eq take_bit_eq_mod mod_mod_cancel unat_mod)
  ultimately show ?thesis
    by (simp only:) (auto intro!: bit_word_eqI simp: bit_or_iff bit_push_bit_iff bit_drop_bit_eq bit_take_bit_iff)
qed

lemma hex_pairs_data: "hex_pairs (map (\<lambda>c. of_nat (char_code c)) (hex_data bs)) = Some bs"
proof (induction bs)
  case (Cons b bs)
  have "unat b div 16 < 16" using u8_less [of b] by (simp add: less_mult_imp_div_less)
  then have "hex_data (b # bs) = hex_digit (unat b div 16) # hex_digit (unat b mod 16) # hex_data bs"
    by (simp add: hex_data_def numeral_2_eq_2)
  with Cons \<open>unat b div 16 < 16\<close> show ?case by (simp add: hex_nibble_digit nibbles_join)
qed (simp add: hex_data_def)

lemma hex_data_plain: "list_all is_ascii_hexdigit (hex_data bs)"
  by (auto simp: hex_data_def list_all_iff) (metis hex_fixed_plain list_all_iff)

lemma hex_data_length: "length (hex_data bs) = 2 * length bs"
  by (induction bs) (simp_all add: hex_data_def)

section \<open>Blanks and lines\<close>

lemma trim_id:
  assumes "s \<noteq> []" "\<not> is_ws (hd s)" "\<not> is_ws (last s)"
  shows "trim s = s"
proof -
  obtain c cs where "s = c # cs" using assms(1) by (cases s) auto
  moreover obtain ds d where "s = ds @ [d]" using assms(1) by (cases s rule: rev_cases) auto
  ultimately show ?thesis using assms
    by (metis dropWhile.simps(2) hd_rev last_snoc list.sel(1) rev_eq_Cons_iff rev_rev_ident trim_def trim_end_def trim_start_def
        rev.simps(2) append_Nil)
qed

lemma trim_plain: "list_all (\<lambda>c. \<not> is_ws c) s \<Longrightarrow> trim s = s"
  by (cases "s = []") (simp_all add: trim_id list_all_iff, simp add: trim_def trim_end_def trim_start_def)

lemma words_from_word:
  "list_all (\<lambda>c. \<not> is_ws c) w \<Longrightarrow> rev acc @ w \<noteq> [] \<Longrightarrow> is_ws x \<Longrightarrow>
     words_from acc (w @ x # s) = (rev acc @ w) # words_from [] s"
  by (induction w arbitrary: acc) auto

lemma words_from_end:
  "list_all (\<lambda>c. \<not> is_ws c) w \<Longrightarrow> rev acc @ w \<noteq> [] \<Longrightarrow> words_from acc w = [rev acc @ w]"
  by (induction w arbitrary: acc) auto

lemma split_three:
  assumes "a \<noteq> []" "b \<noteq> []" "c \<noteq> []"
    and "list_all (\<lambda>c. \<not> is_ws c) a" "list_all (\<lambda>c. \<not> is_ws c) b" "list_all (\<lambda>c. \<not> is_ws c) c"
  shows "split_whitespace (a @ CHR '' '' # b @ CHR '' '' # c) = [a, b, c]"
proof -
  have blank: "is_ws (CHR '' '')" by (simp add: is_ws_def)
  show ?thesis using assms
    by (simp add: split_whitespace_def words_from_word [OF _ _ blank] words_from_end)
qed

lemma lines_from_line:
  "CHR 0x0A \<notin> set l \<Longrightarrow> l \<noteq> [] \<Longrightarrow> last l \<noteq> CHR 0x0D \<Longrightarrow>
     lines_from acc (l @ CHR 0x0A # s) = (rev acc @ l) # lines_from [] s"
proof (induction l arbitrary: acc)
  case (Cons c l)
  then show ?case by (cases "l = []") auto
qed simp

lemma str_lines_terminated:
  assumes "list_all (\<lambda>l. CHR 0x0A \<notin> set l \<and> l \<noteq> [] \<and> last l \<noteq> CHR 0x0D) ls"
  shows "str_lines (concat (map (\<lambda>l. l @ [CHR 0x0A]) ls)) = ls"
  using assms unfolding str_lines_def by (induction ls) (simp_all add: lines_from_line)

section \<open>Timestamps\<close>

lemma dec_fixed_digits: "list_all is_ascii_digit (dec_fixed k n) \<and> length (dec_fixed k n) = k"
  by (induction k arbitrary: n) (simp_all add: is_ascii_digit_digit)

lemma dec_fixed_value: "n < 10 ^ k \<Longrightarrow> digits_value (dec_fixed k n) = n"
proof (induction k arbitrary: n)
  case (Suc k)
  then have "n div 10 < 10 ^ k" by (simp add: less_mult_imp_div_less)
  with Suc.IH show ?case by (simp add: digits_value_snoc digit_value_def char_code_char_of)
qed (simp add: digits_value_def)

lemma parse_digits:
  assumes "list_all is_ascii_digit s" "s \<noteq> []" "digits_value s \<le> m"
  shows "parse_unsigned m s = Some (digits_value s)"
proof -
  obtain c cs where "s = c # cs" using assms(2) by (cases s) auto
  with assms show ?thesis by (auto simp: parse_unsigned_def dest: plus_not_digit)
qed

lemma digit_not_dot: "is_ascii_digit c \<Longrightarrow> c \<noteq> CHR ''.''"
  by (auto simp: is_ascii_digit_def char_code_def)

lemma split_once_at: "c \<notin> set a \<Longrightarrow> split_once c (a @ c # b) = Some (a, b)"
  by (simp add: split_once_def takeWhile_append dropWhile_append)

lemma seconds_of_stamp:
  assumes "ts \<le> u64_max"
  shows "seconds_to_micros (nat_str (ts div 1000000) @ CHR ''.'' # dec_fixed 6 (ts mod 1000000)) = Some ts"
proof -
  let ?s = "ts div 1000000" and ?u = "ts mod 1000000"
  have "CHR ''.'' \<notin> set (nat_str ?s)" using nat_str_digits [of ?s] by (auto simp: list_all_iff dest: digit_not_dot)
  moreover have "?s \<le> u64_max" using assms by (rule order_trans [OF div_le_dividend])
  moreover have "parse_unsigned u64_max (dec_fixed 6 ?u) = Some ?u"
    using parse_digits [of "dec_fixed 6 ?u" u64_max] dec_fixed_digits [of 6 ?u] dec_fixed_value [of ?u 6]
    by (fastforce simp: u64_max_def)
  moreover have "?s * 1000000 + ?u = ts" by simp
  moreover have "?s * 1000000 \<le> u64_max" using assms by (rule order_trans [OF div_times_less_eq_dividend])
  ultimately show ?thesis
    using assms dec_fixed_digits [of 6 ?u]
    by (simp add: seconds_to_micros_def split_once_at parse_nat_str)
qed

lemma stamp_read: "ts \<le> u64_max \<Longrightarrow> candump_timestamp (candump_stamp ts) = Some ts"
  by (simp add: candump_timestamp_def candump_stamp_def strip_prefix_def ends_with_def butlast_append seconds_of_stamp)

section \<open>Frame bodies\<close>

lemma hex_data_read: "hex_bytes (hex_data bs) = Some bs"
proof -
  note plain = hex_data_plain [of bs]
  have "trim (hex_data bs) = hex_data bs" using plain by (intro trim_plain) (auto simp: list_all_iff dest: hexdigit_not)
  with plain show ?thesis
    by (simp add: hex_bytes_def utf8_len_ascii [OF hex_ascii] utf8_bytes_ascii [OF hex_ascii] hex_data_length hex_pairs_data)
qed

text \<open>The printed id is read back, with the error bit in front of an extended id.\<close>

lemma id_width: "fr_id f \<le> maximum_id (fr_extended f) \<Longrightarrow> unat (fr_id f) < (if fr_extended f then 2 ^ 29 else 2 ^ 11)"
  by (auto simp: maximum_id_def word_le_nat_alt split: if_splits)

lemma error_bit:
  assumes "unat (w :: u32) < 2 ^ 29"
  shows "of_nat (unat w + 0x20000000) AND (0x1FFFFFFF :: u32) = w"
    and "of_nat (unat w + 0x20000000) AND (0x20000000 :: u32) \<noteq> 0"
    and "w AND 0x1FFFFFFF = w" and "w AND 0x20000000 = 0"
proof -
  have tb: "take_bit 29 w = w"
    using assms by (simp add: word_unat_eq_iff unsigned_take_bit_eq take_bit_nat_eq_self)
  have m: "(0x1FFFFFFF :: u32) = mask 29" by (simp add: mask_eq_exp_minus_1)
  have b: "(0x20000000 :: u32) = push_bit 29 1" by simp
  show low: "w AND 0x1FFFFFFF = w" by (simp only: m take_bit_eq_mask [symmetric] tb)
  have nobit: "\<not> bit w 29" by (metis bit_take_bit_iff less_irrefl tb)
  then show none: "w AND 0x20000000 = 0"
    by (intro bit_word_eqI) (auto simp: b bit_and_iff bit_push_bit_iff bit_1_iff dest!: antisym simp del: push_bit_of_1 push_bit_of_Suc_0)
  have sum: "(of_nat (unat w + 0x20000000) :: u32) = w OR 0x20000000"
    using disjunctive_add_eq_or [OF none] by simp
  show "of_nat (unat w + 0x20000000) AND (0x1FFFFFFF :: u32) = w"
    unfolding sum by (simp add: bit.conj_disj_distrib2 low)
  show "of_nat (unat w + 0x20000000) AND (0x20000000 :: u32) \<noteq> 0"
    unfolding sum by (simp add: bit.conj_disj_distrib2 none)
qed

lemma from_hex_word: "unat v < 16 ^ k \<Longrightarrow> 0 < k \<Longrightarrow> u32_from_radix 16 (hex_fixed k (unat v)) = Some v"
  using from_str_radix_hex [of "unat v" k u32_max] unsigned_less [of v, where ?'a = nat]
  by (simp add: u32_from_radix_def u32_max_def)

text \<open>The raw id of the log: with the error bit on an error frame.\<close>

definition raw_id :: "frame_record \<Rightarrow> u32" where
  "raw_id f = (if fr_kind f = KError then of_nat (unat (fr_id f) + 0x20000000) else fr_id f)"

lemma id_read:
  assumes "candump_writable f"
  shows "u32_from_radix 16 (candump_id f) = Some (raw_id f)"
    and "raw_id f AND 0x1FFFFFFF = fr_id f"
    and "raw_id f AND 0x20000000 \<noteq> 0 \<longleftrightarrow> fr_kind f = KError"
    and "utf8_len (candump_id f) = (if fr_extended f then 8 else 3)"
    and "list_all is_ascii_hexdigit (candump_id f)"
proof -
  have ok: "fr_id f \<le> maximum_id (fr_extended f)" "fr_kind f = KError \<longrightarrow> fr_extended f"
    using assms by (auto simp: candump_writable_def frame_ok_def)
  note w = id_width [OF ok(1)]
  then have w29: "unat (fr_id f) < 2 ^ 29" by (simp split: if_splits)
  show plain: "list_all is_ascii_hexdigit (candump_id f)" by (simp add: candump_id_def hex_fixed_plain)
  show "utf8_len (candump_id f) = (if fr_extended f then 8 else 3)"
    using utf8_len_ascii [OF hex_ascii [OF plain]] by (simp add: candump_id_def)
  show "raw_id f AND 0x1FFFFFFF = fr_id f" "raw_id f AND 0x20000000 \<noteq> 0 \<longleftrightarrow> fr_kind f = KError"
    using error_bit [OF w29] by (simp_all add: raw_id_def)
  have "unat (of_nat (unat (fr_id f) + 0x20000000) :: u32) = unat (fr_id f) + 0x20000000"
    using w29 by (intro unat_of_nat [THEN trans] take_bit_nat_eq_self) simp
  then have "candump_id f = hex_fixed (if fr_extended f then 8 else 3) (unat (raw_id f))"
      "unat (raw_id f) < 16 ^ (if fr_extended f then 8 else 3)"
    using w ok(2) by (auto simp: candump_id_def raw_id_def split: if_splits)
  then show "u32_from_radix 16 (candump_id f) = Some (raw_id f)"
    by (simp add: from_hex_word)
qed

lemma strip_hex: "list_all is_ascii_hexdigit s \<Longrightarrow> strip_prefix ''#'' s = None \<and> strip_prefix ''R'' s = None"
  by (cases s) (auto simp: strip_prefix_def dest: hexdigit_not)

lemma zero_flag: "utf8_bytes (CHR ''0'' # s) = 48 # utf8_bytes s" "hex_nibble 48 = Some 0"
  by (simp_all add: utf8_bytes_def utf8_char_def char_code_def hex_nibble_def)

lemma body_read:
  assumes "candump_writable f"
  shows "parse_candump_frame (candump_body f) = Some (fr_id f, fr_extended f, fr_fd f, fr_kind f, fr_data f)"
proof -
  note rd = id_read [OF assms]
  have fr: "length (fr_data f) \<le> (if fr_fd f then 64 else 8)" "fr_kind f = KRemote \<longrightarrow> fr_data f = []"
      "fr_fd f \<longrightarrow> fr_kind f = KData" "fr_kind f = KError \<longrightarrow> fr_extended f"
    using assms by (auto simp: candump_writable_def frame_ok_def)
  have "CHR ''#'' \<notin> set (candump_id f)" using rd(5) by (auto simp: list_all_iff dest: hexdigit_not)
  then have sp: "split_once (CHR ''#'') (candump_body f) = Some (candump_id f,
      if fr_fd f then ''#0'' @ hex_data (fr_data f) else if fr_kind f = KRemote then ''R'' else hex_data (fr_data f))"
    unfolding candump_body_def by (rule split_once_at)
  have ne: "candump_id f \<noteq> []" "\<not> utf8_len (candump_id f) > 8" using rd(4) by (auto simp: utf8_len_def split: if_splits)
  consider "fr_fd f" | "\<not> fr_fd f" "fr_kind f = KRemote" | "\<not> fr_fd f" "fr_kind f \<noteq> KRemote" by blast
  then show ?thesis
  proof cases
    case 1
    with fr show ?thesis
      by (simp add: parse_candump_frame_def sp ne rd strip_prefix_def zero_flag hex_data_read)
  next
    case 2
    with fr show ?thesis by (simp add: parse_candump_frame_def sp ne rd strip_prefix_def)
  next
    case 3
    then have "fr_kind f = KError \<and> fr_extended f \<or> fr_kind f = KData" using fr(4) by (cases "fr_kind f") auto
    with 3 fr show ?thesis
      by (auto simp: parse_candump_frame_def sp ne rd strip_hex [OF hex_data_plain] hex_data_read)
  qed
qed

section \<open>Log entries\<close>

lemma digit_not_ws: "is_ascii_digit c \<Longrightarrow> \<not> is_ws c"
  by (auto simp: is_ascii_digit_def is_ws_def Let_def char_code_def)

lemma stamp_no_ws: "list_all (\<lambda>c. \<not> is_ws c) (candump_stamp ts)"
  using nat_str_digits [of "ts div 1000000"] dec_fixed_digits [of 6 "ts mod 1000000"]
  by (auto simp: candump_stamp_def list_all_iff digit_not_ws) (simp_all add: is_ws_def)

lemma hex_no_ws: "list_all is_ascii_hexdigit s \<Longrightarrow> list_all (\<lambda>c. \<not> is_ws c) s"
  by (auto simp: list_all_iff dest: hexdigit_not)

lemma body_no_ws: "list_all (\<lambda>c. \<not> is_ws c) (candump_body f)"
proof -
  have "list_all (\<lambda>c. \<not> is_ws c) (candump_id f)" "list_all (\<lambda>c. \<not> is_ws c) (hex_data (fr_data f))"
    by (simp_all add: candump_id_def hex_no_ws hex_fixed_plain hex_data_plain)
  then show ?thesis by (simp add: candump_body_def is_ws_def)
qed

lemma entry_shape:
  assumes "candump_writable f"
  shows "trim (candump_entry f) = candump_entry f" "candump_entry f \<noteq> []"
    "split_whitespace (candump_entry f) = [candump_stamp (fr_timestamp f), fr_channel f, candump_body f]"
    "CHR 0x0A \<notin> set (candump_entry f)" "last (candump_entry f) \<noteq> CHR 0x0D"
proof -
  let ?s = "candump_stamp (fr_timestamp f)" and ?b = "candump_body f"
  have ch: "fr_channel f \<noteq> []" "list_all (\<lambda>c. \<not> is_ws c) (fr_channel f)"
    using assms by (auto simp: candump_writable_def)
  have ne: "?s \<noteq> []" "?b \<noteq> []" by (simp_all add: candump_stamp_def candump_body_def)
  have ends: "hd (candump_entry f) = hd ?s" "last (candump_entry f) = last ?b"
    using ne by (simp_all add: candump_entry_def)
  have nows: "\<not> is_ws (hd ?s)" "\<not> is_ws (last ?b)"
    using ne stamp_no_ws [of "fr_timestamp f"] body_no_ws [of f] by (auto simp: list_all_iff)
  show "candump_entry f \<noteq> []" by (simp add: candump_entry_def)
  then show "trim (candump_entry f) = candump_entry f" using nows by (intro trim_id) (simp_all add: ends)
  show "split_whitespace (candump_entry f) = [?s, fr_channel f, ?b]"
    unfolding candump_entry_def by (rule split_three [OF ne(1) ch(1) ne(2) stamp_no_ws ch(2) body_no_ws])
  have nl: "is_ws (CHR 0x0A)" "is_ws (CHR 0x0D)" by (simp_all add: is_ws_def)
  show "CHR 0x0A \<notin> set (candump_entry f)"
    using nl(1) ch(2) stamp_no_ws [of "fr_timestamp f"] body_no_ws [of f] by (auto simp: candump_entry_def list_all_iff)
  show "last (candump_entry f) \<noteq> CHR 0x0D" using nl(2) nows(2) ends(2) by metis
qed

lemma entry_read: "candump_writable f \<Longrightarrow> candump_line u n (candump_entry f) = Inr (u, Some f)"
  by (simp add: candump_line_def entry_shape stamp_read body_read candump_writable_def frame_ok_def)

lemma entries_read: "list_all candump_writable fs \<Longrightarrow> import_lines candump_line u n (map candump_entry fs) = Inr fs"
  by (induction fs arbitrary: n) (simp_all add: entry_read)

text \<open>The candump reader inverts the log format: whatever frames are logged (standard, extended,
  remote, error or FD, any payload, any interface name without blanks, any 64-bit microsecond
  timestamp), reading the log gives back exactly those frames, in order.\<close>

theorem candump_roundtrip:
  assumes "list_all candump_writable frames"
  shows "capture_parse Candump (candump_log frames) = Inr frames"
proof -
  have "candump_log frames = concat (map (\<lambda>l. l @ [CHR 0x0A]) (map candump_entry frames))"
    by (simp add: candump_log_def comp_def)
  moreover have "list_all (\<lambda>l. CHR 0x0A \<notin> set l \<and> l \<noteq> [] \<and> last l \<noteq> CHR 0x0D) (map candump_entry frames)"
    using assms by (auto simp: list_all_iff entry_shape)
  ultimately have "str_lines (candump_log frames) = map candump_entry frames"
    by (simp only: str_lines_terminated)
  then show ?thesis by (simp add: capture_parse_def parse_candump_def entries_read [OF assms])
qed

lemma fixed_numeral:
  "hex_fixed (numeral k) n = hex_fixed (pred_numeral k) (n div 16) @ [hex_digit (n mod 16)]"
  "dec_fixed (numeral k) n = dec_fixed (pred_numeral k) (n div 10) @ [char_of (48 + n mod 10)]"
  by (simp_all only: numeral_eq_Suc [of k] hex_fixed.simps dec_fixed.simps)

theorem candump_roundtrip_witness:
  "capture_parse Candump (''(1.000002) can0 123#AB'' @ CHR 0x0A # ''(2.000000) can0 1FFFFFFF##0'' @ [CHR 0x0A]) =
     Inr [\<lparr>fr_timestamp = 1000002, fr_channel = ''can0'', fr_id = 0x123, fr_extended = False, fr_fd = False,
            fr_kind = KData, fr_data = [0xAB], fr_direction = None\<rparr>,
          \<lparr>fr_timestamp = 2000000, fr_channel = ''can0'', fr_id = 0x1FFFFFFF, fr_extended = True, fr_fd = True,
            fr_kind = KData, fr_data = [], fr_direction = None\<rparr>]"
  using candump_roundtrip [of "[\<lparr>fr_timestamp = 1000002, fr_channel = ''can0'', fr_id = 0x123, fr_extended = False,
      fr_fd = False, fr_kind = KData, fr_data = [0xAB], fr_direction = None\<rparr>, \<lparr>fr_timestamp = 2000000,
      fr_channel = ''can0'', fr_id = 0x1FFFFFFF, fr_extended = True, fr_fd = True, fr_kind = KData, fr_data = [],
      fr_direction = None\<rparr>]"]
  by (simp add: candump_writable_def frame_ok_def maximum_id_def u64_max_def is_ws_def candump_log_def candump_entry_def
      candump_stamp_def candump_body_def candump_id_def hex_data_def hex_digit_def nat_str.simps fixed_numeral char_of_def bit_0)

end
