(* ===== verification/Ordered_Map.thy ===== *)
theory Ordered_Map
  imports Main
begin

text \<open>
  The \<^verbatim>\<open>BTreeMap\<close> of the Rust standard library as the list of its entries in key order, with the entry
  interface (\<^verbatim>\<open>entry(k).or_default()\<close> followed by an update) and the fold that groups a sequence by
  key. The entries of such a map are determined by its lookup.
\<close>

section \<open>Entries in key order\<close>

fun om_alter :: "'k::linorder \<Rightarrow> ('v option \<Rightarrow> 'v) \<Rightarrow> ('k \<times> 'v) list \<Rightarrow> ('k \<times> 'v) list" where
  "om_alter k g [] = [(k, g None)]"
| "om_alter k g ((a, v) # m) =
     (if k < a then (k, g None) # (a, v) # m
      else if k = a then (a, g (Some v)) # m
      else (a, v) # om_alter k g m)"

definition om_ok :: "('k::linorder \<times> 'v) list \<Rightarrow> bool" where
  "om_ok m \<longleftrightarrow> sorted_wrt (<) (map fst m)"

lemma om_ok_Nil [simp]: "om_ok []"
  by (simp add: om_ok_def)

lemma om_ok_Cons: "om_ok ((a, v) # m) \<longleftrightarrow> (\<forall>b\<in>fst ` set m. a < b) \<and> om_ok m"
  by (auto simp: om_ok_def)

lemma om_alter_keys [simp]: "fst ` set (om_alter k g m) = insert k (fst ` set m)"
  by (induction k g m rule: om_alter.induct) auto

lemma om_alter_ok [simp]: "om_ok m \<Longrightarrow> om_ok (om_alter k g m)"
proof (induction k g m rule: om_alter.induct)
  case (2 k g a v m)
  then show ?case by (cases k a rule: linorder_cases) (auto simp: om_ok_Cons)
qed (simp add: om_ok_Cons)

lemma om_below: "om_ok ((a, v) # m) \<Longrightarrow> k \<le> a \<Longrightarrow> map_of m k = None"
  by (fastforce simp: om_ok_Cons map_of_eq_None_iff)

lemma om_get: "om_ok m \<Longrightarrow> map_of (om_alter k g m) = (map_of m)(k \<mapsto> g (map_of m k))"
proof (induction k g m rule: om_alter.induct)
  case (2 k g a v m)
  then show ?case
    using om_below [OF 2(2)] by (cases k a rule: linorder_cases) (auto simp: om_ok_Cons)
qed simp

lemma om_mem: "om_ok m \<Longrightarrow> (k, v) \<in> set m \<longleftrightarrow> map_of m k = Some v"
  by (simp add: om_ok_def strict_sorted_iff)

text \<open>The entries are determined by the lookup: in key order, each with its value.\<close>

lemma om_entries: "om_ok m \<Longrightarrow> m = map (\<lambda>k. (k, the (map_of m k))) (sorted_list_of_set (fst ` set m))"
proof -
  assume "om_ok m"
  then have "sorted (map fst m)" "distinct (map fst m)" by (simp_all add: om_ok_def strict_sorted_iff)
  moreover from this have "sorted_list_of_set (fst ` set m) = map fst m"
    using sorted_list_of_set.idem_if_sorted_distinct [of "map fst m"] by simp
  ultimately show ?thesis by (auto intro!: map_idI [symmetric])
qed

section \<open>Grouping\<close>

definition om_push :: "'k::linorder \<Rightarrow> 'v \<Rightarrow> ('k \<times> 'v list) list \<Rightarrow> ('k \<times> 'v list) list" where
  "om_push k v m = om_alter k (\<lambda>old. (case old of None \<Rightarrow> [] | Some vs \<Rightarrow> vs) @ [v]) m"

definition om_group :: "('a \<Rightarrow> 'k::linorder) \<Rightarrow> ('a \<Rightarrow> 'v) \<Rightarrow> 'a list \<Rightarrow> ('k \<times> 'v list) list" where
  "om_group key val xs = foldl (\<lambda>m x. om_push (key x) (val x) m) [] xs"

lemma om_group_snoc: "om_group key val (xs @ [x]) = om_push (key x) (val x) (om_group key val xs)"
  by (simp add: om_group_def)

lemma om_group_ok [simp]: "om_ok (om_group key val xs)"
  by (induction xs rule: rev_induct) (simp_all add: om_group_snoc om_push_def, simp add: om_group_def)

lemma om_group_keys [simp]: "fst ` set (om_group key val xs) = key ` set xs"
  by (induction xs rule: rev_induct) (simp_all add: om_group_snoc om_push_def, simp add: om_group_def)

lemma om_group_get:
  "map_of (om_group key val xs) k =
     (if k \<in> key ` set xs then Some (map val (filter (\<lambda>x. key x = k) xs)) else None)"
proof (induction xs rule: rev_induct)
  case Nil
  show ?case by (simp add: om_group_def)
next
  case (snoc x xs)
  then show ?case by (auto simp: om_group_snoc om_push_def om_get filter_empty_conv) (metis imageI)
qed

lemma om_group_entries:
  "om_group key val xs =
     map (\<lambda>k. (k, map val (filter (\<lambda>x. key x = k) xs))) (sorted_list_of_set (key ` set xs))"
proof -
  have "om_group key val xs = map (\<lambda>k. (k, the (map_of (om_group key val xs) k))) (sorted_list_of_set (key ` set xs))"
    using om_entries [OF om_group_ok, of key val xs] by simp
  also have "\<dots> = map (\<lambda>k. (k, map val (filter (\<lambda>x. key x = k) xs))) (sorted_list_of_set (key ` set xs))"
    by (intro map_cong) (auto simp: om_group_get)
  finally show ?thesis .
qed

end
