(* ===== verification/Capture_Analysis.thy ===== *)
theory Capture_Analysis
  imports Capture Isotp Ordered_Map "HOL-Library.Product_Lexorder" "HOL-Library.List_Lexorder"
    "HOL-Library.Char_ord" "HOL-Library.Option_ord"
begin

unbundle bit_operations_syntax

text \<open>
  Offline analysis of a capture, \<^verbatim>\<open>crates/hf-automotive/src/analysis.rs\<close>: bus statistics, per-byte
  change maps, the comparison of two captures and the summary of UDS states over reassembled
  ISO-TP streams. Maps are kept in key order as in the source; the derived orders of the keys are
  instances of \<^verbatim>\<open>linorder\<close>. Sets (\<^verbatim>\<open>BTreeSet\<close>) are listed in order when they are returned.
\<close>

section \<open>Keys and their order\<close>

datatype frame_identity = FrameIdentity (fi_id: u32) (fi_extended: bool)

instantiation frame_identity :: linorder
begin

definition less_eq_frame_identity :: "frame_identity \<Rightarrow> frame_identity \<Rightarrow> bool" where
  "a \<le> b \<longleftrightarrow> (fi_id a, fi_extended a) \<le> (fi_id b, fi_extended b)"

definition less_frame_identity :: "frame_identity \<Rightarrow> frame_identity \<Rightarrow> bool" where
  "a < b \<longleftrightarrow> (fi_id a, fi_extended a) < (fi_id b, fi_extended b)"

instance
  by standard (auto simp: less_eq_frame_identity_def less_frame_identity_def intro: frame_identity.expand)

end

instantiation direction :: linorder
begin

definition less_eq_direction :: "direction \<Rightarrow> direction \<Rightarrow> bool" where
  "a \<le> b \<longleftrightarrow> a = Rx \<or> b = Tx"

definition less_direction :: "direction \<Rightarrow> direction \<Rightarrow> bool" where
  "a < b \<longleftrightarrow> a = Rx \<and> b = Tx"

instance
  by standard (auto simp: less_eq_direction_def less_direction_def intro: direction.exhaust)

end

datatype uds_stream = UdsStream (us_channel: string) (us_identity: frame_identity) (us_direction: "direction option")

instantiation uds_stream :: linorder
begin

definition less_eq_uds_stream :: "uds_stream \<Rightarrow> uds_stream \<Rightarrow> bool" where
  "a \<le> b \<longleftrightarrow> (us_channel a, us_identity a, us_direction a) \<le> (us_channel b, us_identity b, us_direction b)"

definition less_uds_stream :: "uds_stream \<Rightarrow> uds_stream \<Rightarrow> bool" where
  "a < b \<longleftrightarrow> (us_channel a, us_identity a, us_direction a) < (us_channel b, us_identity b, us_direction b)"

instance
  by standard (auto simp: less_eq_uds_stream_def less_uds_stream_def intro: uds_stream.expand)

end

datatype uds_state =
    UdsRequest u8 "u8 option"
  | UdsPositive u8 "u8 option"
  | UdsNegative u8 u8
  | UdsOther u8

text \<open>The derived order of the states: by variant, then by fields.\<close>

fun uds_rank :: "uds_state \<Rightarrow> nat \<times> u8 \<times> u8 option" where
  "uds_rank (UdsRequest s f) = (0, s, f)"
| "uds_rank (UdsPositive s f) = (1, s, f)"
| "uds_rank (UdsNegative s c) = (2, s, Some c)"
| "uds_rank (UdsOther s) = (3, s, None)"

lemma uds_rank_inj: "uds_rank a = uds_rank b \<Longrightarrow> a = b"
  by (cases a; cases b) auto

instantiation uds_state :: linorder
begin

definition less_eq_uds_state :: "uds_state \<Rightarrow> uds_state \<Rightarrow> bool" where
  "a \<le> b \<longleftrightarrow> uds_rank a \<le> uds_rank b"

definition less_uds_state :: "uds_state \<Rightarrow> uds_state \<Rightarrow> bool" where
  "a < b \<longleftrightarrow> uds_rank a < uds_rank b"

instance
  by standard (auto simp: less_eq_uds_state_def less_uds_state_def intro: uds_rank_inj)

end

section \<open>Bus statistics\<close>

definition identity_of :: "frame_record \<Rightarrow> frame_identity" where
  "identity_of f = FrameIdentity (fr_id f) (fr_extended f)"

record id_stats =
  is_identity :: frame_identity
  is_count :: nat
  is_avg_period :: "nat option"

record bus_statistics =
  bs_frame_count :: nat
  bs_unique_ids :: nat
  bs_first :: nat
  bs_last :: nat
  bs_duration :: nat
  bs_rate :: f64
  bs_per_id :: "id_stats list"

definition average_period :: "nat list \<Rightarrow> nat option" where
  "average_period stamps =
     (if length stamps < 2 then None
      else Some ((last stamps - hd stamps) div (length stamps - 1)))"

definition stats_step ::
  "nat \<times> nat \<times> (frame_identity \<times> nat list) list \<Rightarrow> frame_record \<Rightarrow> nat \<times> nat \<times> (frame_identity \<times> nat list) list" where
  "stats_step s f = (case s of (first, final, stamps) \<Rightarrow>
     (min first (fr_timestamp f), max final (fr_timestamp f), om_push (identity_of f) (fr_timestamp f) stamps))"

definition bus_stats :: "frame_record list \<Rightarrow> bus_statistics" where
  "bus_stats frames =
     (if frames = []
      then \<lparr>bs_frame_count = 0, bs_unique_ids = 0, bs_first = 0, bs_last = 0, bs_duration = 0, bs_rate = f_zero, bs_per_id = []\<rparr>
      else
        let (first, final, timestamps) = foldl stats_step (u64_max, 0, []) frames;
            duration = final - first;
            rate = (if duration = 0 then f_zero
                    else f_div (f_of_nat (length frames)) (f_div (f_of_nat duration) (f_of_nat 1000000)));
            per_id = map (\<lambda>(ident, stamps). let stamps = sort stamps in
              \<lparr>is_identity = ident, is_count = length stamps, is_avg_period = average_period stamps\<rparr>) timestamps
        in \<lparr>bs_frame_count = length frames, bs_unique_ids = length per_id, bs_first = first, bs_last = final,
            bs_duration = duration, bs_rate = rate, bs_per_id = per_id\<rparr>)"

section \<open>Change maps\<close>

record change_map =
  cm_identity :: frame_identity
  cm_observations :: nat
  cm_byte_changed :: "bool list"
  cm_distinct_values :: "nat list"

definition bytes_at :: "nat \<Rightarrow> u8 list list \<Rightarrow> u8 list" where
  "bytes_at position observations = List.map_filter (\<lambda>payload. list_get payload position) observations"

definition change_map_of :: "frame_identity \<times> u8 list list \<Rightarrow> change_map" where
  "change_map_of e = (case e of (ident, observations) \<Rightarrow>
     let width = foldl max 0 (map length observations) in
     \<lparr>cm_identity = ident, cm_observations = length observations,
      cm_byte_changed = map (\<lambda>p. card (set (bytes_at p observations)) > 1 \<or> length (bytes_at p observations) \<noteq> length observations) [0..<width],
      cm_distinct_values = map (\<lambda>p. card (set (bytes_at p observations))) [0..<width]\<rparr>)"

definition change_maps :: "frame_record list \<Rightarrow> change_map list" where
  "change_maps frames = map change_map_of (om_group identity_of fr_data frames)"

section \<open>Comparison of captures\<close>

record capture_diff =
  cd_only_in_first :: "frame_identity list"
  cd_only_in_second :: "frame_identity list"
  cd_changed :: "frame_identity list"

definition payload_sets :: "frame_record list \<Rightarrow> (frame_identity \<times> u8 list set) list" where
  "payload_sets frames =
     foldl (\<lambda>m f. om_alter (identity_of f) (\<lambda>old. insert (fr_data f) (case old of None \<Rightarrow> {} | Some s \<Rightarrow> s)) m) [] frames"

definition capture_diff_of :: "frame_record list \<Rightarrow> frame_record list \<Rightarrow> capture_diff" where
  "capture_diff_of first second =
     (let a = payload_sets first; b = payload_sets second in
      \<lparr>cd_only_in_first = map fst (filter (\<lambda>(i, _). map_of b i = None) a),
       cd_only_in_second = filter (\<lambda>i. map_of a i = None) (map fst b),
       cd_changed = map fst (filter (\<lambda>(i, s). case map_of b i of None \<Rightarrow> False | Some other \<Rightarrow> other \<noteq> s) a)\<rparr>)"

section \<open>UDS states\<close>

definition classify_uds_state :: "u8 list \<Rightarrow> uds_state option" where
  "classify_uds_state payload = (case payload of
     [] \<Rightarrow> None
   | service # rest \<Rightarrow>
       if service = 0x7F then
         (case rest of rejected # code # _ \<Rightarrow> Some (UdsNegative rejected code) | _ \<Rightarrow> Some (UdsOther service))
       else if 0x40 \<le> service \<and> service < 0x7F then Some (UdsPositive (service - 0x40) (list_get rest 0))
       else if service < 0x40 then Some (UdsRequest service (list_get rest 0))
       else Some (UdsOther service))"

record uds_tracker =
  ut_receivers :: "(uds_stream \<times> reassembler) list"
  ut_previous :: "(uds_stream \<times> uds_state) list"
  ut_states :: "(uds_stream \<times> uds_state) set"
  ut_transitions :: "((uds_stream \<times> uds_state \<times> uds_state) \<times> nat) list"
  ut_completed :: nat
  ut_malformed :: nat

record uds_state_observation =
  uo_stream :: uds_stream
  uo_state :: uds_state

record uds_state_transition =
  ux_stream :: uds_stream
  ux_from :: uds_state
  ux_to :: uds_state
  ux_count :: nat

record uds_analysis =
  ua_completed :: nat
  ua_malformed :: nat
  ua_unique_states :: "uds_state_observation list"
  ua_transitions :: "uds_state_transition list"

definition stream_of :: "frame_record \<Rightarrow> uds_stream" where
  "stream_of f = UdsStream (fr_channel f) (identity_of f) (fr_direction f)"

definition receiver_of :: "(uds_stream \<times> reassembler) list \<Rightarrow> uds_stream \<Rightarrow> reassembler" where
  "receiver_of rs s = (case map_of rs s of Some r \<Rightarrow> r | None \<Rightarrow> reassembler_new AddrNormal)"

text \<open>The body of the \<^verbatim>\<open>Ok(Some(pdu))\<close> arm.\<close>

definition uds_observe :: "uds_stream \<Rightarrow> u8 list \<Rightarrow> uds_tracker \<Rightarrow> uds_tracker" where
  "uds_observe stream payload t =
     (let t1 = t\<lparr>ut_completed := ut_completed t + 1\<rparr> in
      case classify_uds_state payload of
        None \<Rightarrow> t1
      | Some state \<Rightarrow>
          (let t2 = t1\<lparr>ut_states := insert (stream, state) (ut_states t1),
                       ut_previous := om_alter stream (\<lambda>_. state) (ut_previous t1)\<rparr>
           in case map_of (ut_previous t1) stream of
                None \<Rightarrow> t2
              | Some from \<Rightarrow> t2\<lparr>ut_transitions := om_alter (stream, from, state)
                  (\<lambda>old. (case old of None \<Rightarrow> 0 | Some n \<Rightarrow> n) + 1) (ut_transitions t2)\<rparr>))"

definition uds_step :: "uds_tracker \<Rightarrow> frame_record \<Rightarrow> uds_tracker" where
  "uds_step t f =
     (if fr_kind f \<noteq> KData \<or> fr_data f = [] then t
      else
        let stream = stream_of f;
            (r, result) = push_frame (receiver_of (ut_receivers t) stream) (fr_data f);
            t1 = t\<lparr>ut_receivers := om_alter stream (\<lambda>_. r) (ut_receivers t)\<rparr>
        in case result of
             Inr (Some (Pdu payload)) \<Rightarrow> uds_observe stream payload t1
           | Inr None \<Rightarrow> t1
           | Inl _ \<Rightarrow> t1\<lparr>ut_malformed := ut_malformed t1 + 1\<rparr>)"

definition uds_tracker_new :: uds_tracker where
  "uds_tracker_new = \<lparr>ut_receivers = [], ut_previous = [], ut_states = {}, ut_transitions = [], ut_completed = 0, ut_malformed = 0\<rparr>"

definition uds_state_analysis :: "frame_record list \<Rightarrow> uds_analysis" where
  "uds_state_analysis frames =
     (let t = foldl uds_step uds_tracker_new frames in
      \<lparr>ua_completed = ut_completed t, ua_malformed = ut_malformed t,
       ua_unique_states = map (\<lambda>(stream, state). \<lparr>uo_stream = stream, uo_state = state\<rparr>) (sorted_list_of_set (ut_states t)),
       ua_transitions = map (\<lambda>((stream, from, to), n). \<lparr>ux_stream = stream, ux_from = from, ux_to = to, ux_count = n\<rparr>)
         (ut_transitions t)\<rparr>)"

section \<open>Statistics, changes and differences, exactly\<close>

lemma stats_fold:
  "foldl stats_step (a, b, m) frames =
     (foldl min a (map fr_timestamp frames), foldl max b (map fr_timestamp frames),
      foldl (\<lambda>m f. om_push (identity_of f) (fr_timestamp f) m) m frames)"
  by (induction frames arbitrary: a b m) (simp_all add: stats_step_def)

lemma foldl_min: "foldl min a xs = Min (insert (a :: nat) (set xs))"
  by (induction xs arbitrary: a) (simp_all, metis Min_insert Min_singleton finite_set insert_not_empty min.assoc finite_insert)

lemma foldl_max: "foldl max a xs = Max (insert (a :: nat) (set xs))"
  by (induction xs arbitrary: a) (simp_all, metis Max_insert Max_singleton finite_set insert_not_empty max.assoc finite_insert)

lemma hd_sort: "xs \<noteq> [] \<Longrightarrow> hd (sort xs) = Min (set xs)"
proof -
  assume "xs \<noteq> []"
  then obtain y ys where s: "sort xs = y # ys" by (cases "sort xs") (auto dest: arg_cong [of _ _ length])
  then have "sorted (y # ys)" "set (y # ys) = set xs" by (metis sorted_sort, metis set_sort)
  then show ?thesis using s by (auto intro!: Min_eqI [symmetric])
qed

lemma last_sort: "xs \<noteq> [] \<Longrightarrow> last (sort xs) = Max (set xs)"
proof -
  assume "xs \<noteq> []"
  then obtain ys y where s: "sort xs = ys @ [y]" by (cases "sort xs" rule: rev_cases) (auto dest: arg_cong [of _ _ length])
  then have "sorted (ys @ [y])" "set (ys @ [y]) = set xs" by (metis sorted_sort, metis set_sort)
  then show ?thesis using s by (auto simp: sorted_append intro!: Max_eqI [symmetric])
qed

text \<open>The mean period of a list of timestamps, independent of their order.\<close>

definition mean_period :: "nat list \<Rightarrow> nat option" where
  "mean_period stamps = (if length stamps < 2 then None
     else Some ((Max (set stamps) - Min (set stamps)) div (length stamps - 1)))"

lemma average_period_sort: "average_period (sort stamps) = mean_period stamps"
  by (cases "stamps = []") (simp_all add: average_period_def mean_period_def hd_sort last_sort)

lemma group_counts:
  "finite S \<Longrightarrow> key ` set xs \<subseteq> S \<Longrightarrow> (\<Sum>k\<in>S. length (filter (\<lambda>x. key x = k) xs)) = length xs"
proof (induction xs)
  case (Cons x xs)
  have "(\<Sum>k\<in>S. length (filter (\<lambda>y. key y = k) (x # xs)))
      = (\<Sum>k\<in>S. (if k = key x then 1 else 0) + length (filter (\<lambda>y. key y = k) xs))"
    by (intro sum.cong) auto
  with Cons show ?case by (simp add: sum.distrib)
qed simp

lemma sum_list_keys: "finite S \<Longrightarrow> sum_list (map g (sorted_list_of_set S)) = (\<Sum>k\<in>S. g k)"
  by (metis sum_list_distinct_conv_sum_set distinct_sorted_list_of_set set_sorted_list_of_set)

text \<open>The bus statistics are exact: the span runs from the earliest to the latest timestamp, the
  breakdown lists every arbitration identity once, in order (standard and extended frames with
  equal numeric ids kept apart), with its number of frames and the mean distance of its frames
  whatever order they were captured in, and the counts add up to all frames.\<close>

theorem bus_stats_exact:
  assumes "frames \<noteq> []" "list_all (\<lambda>f. fr_timestamp f \<le> u64_max) frames"
  shows "bs_frame_count (bus_stats frames) = length frames
    \<and> bs_first (bus_stats frames) = Min (fr_timestamp ` set frames)
    \<and> bs_last (bus_stats frames) = Max (fr_timestamp ` set frames)
    \<and> bs_duration (bus_stats frames) + bs_first (bus_stats frames) = bs_last (bus_stats frames)
    \<and> bs_per_id (bus_stats frames) =
        map (\<lambda>i. let stamps = map fr_timestamp (filter (\<lambda>f. identity_of f = i) frames) in
          \<lparr>is_identity = i, is_count = length stamps, is_avg_period = mean_period stamps\<rparr>)
        (sorted_list_of_set (identity_of ` set frames))
    \<and> bs_unique_ids (bus_stats frames) = card (identity_of ` set frames)
    \<and> sum_list (map is_count (bs_per_id (bus_stats frames))) = length frames"
proof -
  let ?ts = "fr_timestamp ` set frames"
  have ne: "finite ?ts" "?ts \<noteq> {}" using assms(1) by auto
  have "Min ?ts \<le> fr_timestamp (hd frames)" "fr_timestamp (hd frames) \<le> u64_max"
    using assms ne(1) hd_in_set [OF assms(1)] by (auto simp: list_all_iff)
  then have "Min ?ts \<le> u64_max" by (rule le_trans)
  then have mn: "Min (insert u64_max ?ts) = Min ?ts" and mx: "Max (insert 0 ?ts) = Max ?ts"
    using ne by (simp_all add: Min_insert Max_insert)
  have le: "Min ?ts \<le> Max ?ts" using ne by simp
  have loop: "foldl stats_step (u64_max, 0, []) frames = (Min ?ts, Max ?ts, om_group identity_of fr_timestamp frames)"
    using mn mx by (simp add: stats_fold foldl_min foldl_max om_group_def)
  have per: "bs_per_id (bus_stats frames) =
      map (\<lambda>i. let stamps = map fr_timestamp (filter (\<lambda>f. identity_of f = i) frames) in
          \<lparr>is_identity = i, is_count = length stamps, is_avg_period = mean_period stamps\<rparr>)
        (sorted_list_of_set (identity_of ` set frames))"
    using assms(1) by (simp add: bus_stats_def loop om_group_entries average_period_sort comp_def Let_def)
  have "sum_list (map is_count (bs_per_id (bus_stats frames))) = length frames"
    unfolding per by (simp add: comp_def Let_def sum_list_keys group_counts)
  with per assms(1) le show ?thesis
    by (simp add: bus_stats_def loop om_group_entries Let_def)
qed

theorem bus_stats_exact_witness:
  "bs_last (bus_stats [\<lparr>fr_timestamp = 7, fr_channel = [], fr_id = 1, fr_extended = False, fr_fd = False, fr_kind = KData,
     fr_data = [], fr_direction = None\<rparr>]) = 7"
  using bus_stats_exact [of "[\<lparr>fr_timestamp = 7, fr_channel = [], fr_id = 1, fr_extended = False, fr_fd = False,
      fr_kind = KData, fr_data = [], fr_direction = None\<rparr>]"]
  by (simp add: u64_max_def)

lemma foldl_max_length: "foldl max 0 (map length xs) = Max (insert 0 (length ` set xs))"
  by (simp add: foldl_max)

lemma bytes_at_set: "set (bytes_at p os) = {b. \<exists>d\<in>set os. list_get d p = Some b}"
  by (auto simp: bytes_at_def map_filter_def image_iff) force

lemma bytes_at_Nil [simp]: "bytes_at p [] = []"
  by (simp add: bytes_at_def map_filter_simps)

lemma bytes_at_Cons [simp]:
  "bytes_at p (d # os) = (case list_get d p of None \<Rightarrow> bytes_at p os | Some b \<Rightarrow> b # bytes_at p os)"
  by (simp add: bytes_at_def map_filter_simps split: option.splits)

lemma bytes_at_le: "length (bytes_at p os) \<le> length os"
  by (induction os) (auto split: option.splits)

lemma bytes_at_length: "length (bytes_at p os) = length os \<longleftrightarrow> (\<forall>d\<in>set os. list_get d p \<noteq> None)"
proof (induction os)
  case (Cons d os)
  with bytes_at_le [of p os] show ?case by (auto split: option.splits)
qed simp

lemma width_positions: "p < foldl max 0 (map length os) \<longleftrightarrow> (\<exists>d\<in>set os. p < length d)"
  by (simp add: foldl_max_length Max_gr_iff)

lemma bytes_at_all:
  "\<forall>d\<in>set os. list_get d p \<noteq> None \<Longrightarrow> set (bytes_at p os) = (\<lambda>d. the (list_get d p)) ` set os"
  by (induction os) auto

lemma byte_varies:
  assumes "p < foldl max 0 (map length os)"
  shows "(card (set (bytes_at p os)) > 1 \<or> length (bytes_at p os) \<noteq> length os)
    \<longleftrightarrow> (\<exists>d\<in>set os. \<exists>e\<in>set os. list_get d p \<noteq> list_get e p)"
proof -
  obtain d where d: "d \<in> set os" "p < length d" using assms by (auto simp: width_positions)
  have one: "card (set (bytes_at p os)) > 1 \<longleftrightarrow> \<not> (\<forall>b\<in>set (bytes_at p os). \<forall>c\<in>set (bytes_at p os). b = c)"
    using card_le_Suc0_iff_eq [of "set (bytes_at p os)"] by auto
  show ?thesis
  proof (cases "\<forall>e\<in>set os. list_get e p \<noteq> None")
    case True
    then have "card (set (bytes_at p os)) > 1 \<longleftrightarrow> (\<exists>d\<in>set os. \<exists>e\<in>set os. list_get d p \<noteq> list_get e p)"
      unfolding one unfolding bytes_at_all [OF True] using True by simp (metis option.sel)
    with True show ?thesis by (simp add: bytes_at_length)
  next
    case False
    then obtain e where e: "e \<in> set os" "list_get e p = None" by auto
    moreover have "list_get d p \<noteq> None" using d by (simp add: list_get_def)
    ultimately have "\<exists>d\<in>set os. \<exists>e\<in>set os. list_get d p \<noteq> list_get e p" using d by metis
    with False show ?thesis by (simp add: bytes_at_length)
  qed
qed

text \<open>The change maps point at exactly the bytes that vary: a position of an identity is marked
  changed if and only if two captured frames of that identity disagree there (in value, or because
  one of them is too short), the number of distinct values is that of the bytes seen there, and
  no frame of the identity has a byte beyond the positions listed.\<close>

theorem change_maps_exact:
  assumes "m \<in> set (change_maps frames)"
  defines "payloads \<equiv> map fr_data (filter (\<lambda>f. identity_of f = cm_identity m) frames)"
  shows "cm_observations m = length payloads \<and> payloads \<noteq> []
    \<and> (p < length (cm_byte_changed m) \<longrightarrow>
        (cm_byte_changed m ! p \<longleftrightarrow> (\<exists>d\<in>set payloads. \<exists>e\<in>set payloads. list_get d p \<noteq> list_get e p))
        \<and> cm_distinct_values m ! p = card {b. \<exists>d\<in>set payloads. list_get d p = Some b})
    \<and> (length (cm_byte_changed m) \<le> p \<longrightarrow> (\<forall>d\<in>set payloads. list_get d p = None))"
proof -
  obtain i where i: "i \<in> identity_of ` set frames"
    and m: "m = change_map_of (i, map fr_data (filter (\<lambda>f. identity_of f = i) frames))"
    using assms(1) by (auto simp: change_maps_def om_group_entries)
  have "cm_identity m = i" by (simp add: m change_map_of_def Let_def)
  then have mp: "m = change_map_of (i, payloads)" unfolding payloads_def using m by simp
  then have len: "length (cm_byte_changed m) = foldl max 0 (map length payloads)"
    by (simp add: change_map_of_def Let_def)
  have "cm_byte_changed m ! p \<longleftrightarrow> (\<exists>d\<in>set payloads. \<exists>e\<in>set payloads. list_get d p \<noteq> list_get e p)"
    "cm_distinct_values m ! p = card {b. \<exists>d\<in>set payloads. list_get d p = Some b}"
    if "p < length (cm_byte_changed m)"
    using that byte_varies [of p payloads] unfolding len
    by (simp_all add: mp change_map_of_def Let_def bytes_at_set)
  moreover have "list_get d p = None" if "length (cm_byte_changed m) \<le> p" "d \<in> set payloads" for d
    using that width_positions [of p payloads] unfolding len by (auto simp: list_get_def not_less [symmetric])
  moreover have "payloads \<noteq> []" using i \<open>cm_identity m = i\<close> by (auto simp: payloads_def filter_empty_conv)
  moreover have "cm_observations m = length payloads" by (simp add: mp change_map_of_def Let_def)
  ultimately show ?thesis by blast
qed

definition sample_frame :: "u8 list \<Rightarrow> frame_record" where
  "sample_frame d = \<lparr>fr_timestamp = 0, fr_channel = ''can0'', fr_id = 1, fr_extended = False, fr_fd = False,
     fr_kind = KData, fr_data = d, fr_direction = None\<rparr>"

theorem change_maps_exact_witness:
  "card {b. \<exists>d\<in>{[1], [2 :: u8]}. list_get d 0 = Some b} = 2"
proof -
  have "\<lparr>cm_identity = FrameIdentity 1 False, cm_observations = 2, cm_byte_changed = [True], cm_distinct_values = [2]\<rparr>
      \<in> set (change_maps [sample_frame [1], sample_frame [2]])"
    by (simp add: change_maps_def om_group_def om_push_def change_map_of_def identity_of_def sample_frame_def list_get_def)
  from change_maps_exact [OF this, of 0] show ?thesis
    by (simp add: sample_frame_def identity_of_def)
qed

lemma payload_sets_ok [simp]: "om_ok (payload_sets frames)"
  by (induction frames rule: rev_induct) (simp_all add: payload_sets_def)

lemma payload_sets_keys [simp]: "fst ` set (payload_sets frames) = identity_of ` set frames"
  by (induction frames rule: rev_induct) (simp_all add: payload_sets_def)

text \<open>The payloads seen for an identity.\<close>

definition payloads_of :: "frame_record list \<Rightarrow> frame_identity \<Rightarrow> u8 list set" where
  "payloads_of frames i = fr_data ` {f \<in> set frames. identity_of f = i}"

lemma payloads_of_snoc:
  "payloads_of (frames @ [f]) i = (if i = identity_of f then insert (fr_data f) (payloads_of frames i) else payloads_of frames i)"
  by (auto simp: payloads_of_def)

lemma payloads_of_none: "i \<notin> identity_of ` set frames \<Longrightarrow> payloads_of frames i = {}"
  by (auto simp: payloads_of_def)

lemma payload_sets_get:
  "map_of (payload_sets frames) i = (if i \<in> identity_of ` set frames then Some (payloads_of frames i) else None)"
proof (induction frames rule: rev_induct)
  case Nil
  show ?case by (simp add: payload_sets_def)
next
  case (snoc f frames)
  have "payload_sets (frames @ [f]) = om_alter (identity_of f)
      (\<lambda>old. insert (fr_data f) (case old of None \<Rightarrow> {} | Some s \<Rightarrow> s)) (payload_sets frames)"
    by (simp add: payload_sets_def)
  with snoc show ?case
    by (cases "i = identity_of f"; cases "identity_of f \<in> identity_of ` set frames")
      (simp_all add: om_get payloads_of_snoc payloads_of_none)
qed

lemma payload_sets_entries:
  "payload_sets frames = map (\<lambda>i. (i, payloads_of frames i)) (sorted_list_of_set (identity_of ` set frames))"
  using om_entries [OF payload_sets_ok, of frames] by (auto simp: payload_sets_get intro: map_cong)

lemma filter_sorted_set: "finite S \<Longrightarrow> filter P (sorted_list_of_set S) = sorted_list_of_set {x \<in> S. P x}"
  by (rule sorted_distinct_set_unique) (auto intro: sorted_wrt_filter)

text \<open>The comparison of two captures is exact: the identities only in one of them, and those in
  both whose sets of payloads differ, each list in order and without repetition.\<close>

theorem capture_diff_exact:
  "capture_diff_of a b =
     \<lparr>cd_only_in_first = sorted_list_of_set (identity_of ` set a - identity_of ` set b),
      cd_only_in_second = sorted_list_of_set (identity_of ` set b - identity_of ` set a),
      cd_changed = sorted_list_of_set {i \<in> identity_of ` set a \<inter> identity_of ` set b. payloads_of a i \<noteq> payloads_of b i}\<rparr>"
proof -
  have first: "map fst (filter (\<lambda>(i, _). map_of (payload_sets b) i = None) (payload_sets a))
      = sorted_list_of_set (identity_of ` set a - identity_of ` set b)"
    unfolding payload_sets_get
    by (simp add: payload_sets_entries filter_map comp_def filter_sorted_set) (rule arg_cong [where f = sorted_list_of_set], auto)
  have second: "filter (\<lambda>i. map_of (payload_sets a) i = None) (map fst (payload_sets b))
      = sorted_list_of_set (identity_of ` set b - identity_of ` set a)"
    unfolding payload_sets_get
    by (simp add: payload_sets_entries filter_map comp_def filter_sorted_set) (rule arg_cong [where f = sorted_list_of_set], auto)
  have "{i \<in> identity_of ` set a. case (if i \<in> identity_of ` set b then Some (payloads_of b i) else None) of
        None \<Rightarrow> False | Some other \<Rightarrow> other \<noteq> payloads_of a i}
      = {i \<in> identity_of ` set a \<inter> identity_of ` set b. payloads_of a i \<noteq> payloads_of b i}" by auto
  then have "map fst (filter (\<lambda>(i, s). case map_of (payload_sets b) i of None \<Rightarrow> False | Some other \<Rightarrow> other \<noteq> s) (payload_sets a))
      = sorted_list_of_set {i \<in> identity_of ` set a \<inter> identity_of ` set b. payloads_of a i \<noteq> payloads_of b i}"
    unfolding payload_sets_get by (simp add: payload_sets_entries filter_map comp_def filter_sorted_set)
  with first second show ?thesis by (simp add: capture_diff_of_def Let_def)
qed

section \<open>The UDS summary, stream by stream\<close>

text \<open>The reference: the frames of one stream go through the best-effort driver of the reassembler on
  their own, and the states are those of its messages.\<close>

definition on_stream :: "uds_stream \<Rightarrow> frame_record \<Rightarrow> bool" where
  "on_stream s f \<longleftrightarrow> fr_kind f = KData \<and> fr_data f \<noteq> [] \<and> stream_of f = s"

definition stream_frames :: "uds_stream \<Rightarrow> frame_record list \<Rightarrow> u8 list list" where
  "stream_frames s frames = map fr_data (filter (on_stream s) frames)"

definition stream_messages :: "uds_stream \<Rightarrow> frame_record list \<Rightarrow> pdu list" where
  "stream_messages s frames = reassemble_all (stream_frames s frames) AddrNormal"

definition stream_states :: "uds_stream \<Rightarrow> frame_record list \<Rightarrow> uds_state list" where
  "stream_states s frames = List.map_filter (\<lambda>p. case p of Pdu d \<Rightarrow> classify_uds_state d) (stream_messages s frames)"

definition pair_count :: "uds_state \<Rightarrow> uds_state \<Rightarrow> uds_state list \<Rightarrow> nat" where
  "pair_count a b xs = length (filter (\<lambda>q. q = (a, b)) (zip xs (tl xs)))"

lemma pair_count_snoc:
  "pair_count a b (xs @ [y]) = pair_count a b xs + (if xs \<noteq> [] \<and> last xs = a \<and> y = b then 1 else 0)"
proof -
  have "zip (xs @ [y]) (tl (xs @ [y])) = zip xs (tl xs) @ (if xs = [] then [] else [(last xs, y)])"
  proof (induction xs)
    case (Cons x xs)
    then show ?case by (cases xs) simp_all
  qed simp
  then show ?thesis by (auto simp: pair_count_def)
qed

lemma pair_count_short [simp]: "pair_count a b [] = 0" "pair_count a b [x] = 0"
  by (simp_all add: pair_count_def)

lemma push_error_resets: "push_frame r f = (r', Inl e) \<Longrightarrow> r' = reassembler_new (ra_addressing r)"
  by (auto simp: push_frame_def Let_def reset_is_new single_frame_def first_frame_def consecutive_frame_def
      bind_result_def ok_or_def reassembler_finish_def split: if_splits sum.splits option.splits prod.splits)

text \<open>The state of the driver on one stream.\<close>

definition stream_run :: "uds_stream \<Rightarrow> frame_record list \<Rightarrow> reassembler \<times> pdu list" where
  "stream_run s frames = foldl reassemble_step (reassembler_new AddrNormal, []) (stream_frames s frames)"

lemma stream_messages_run: "stream_messages s frames = snd (stream_run s frames)"
  by (simp add: stream_messages_def stream_run_def reassemble_all_def)

lemma stream_run_snoc:
  "stream_run s (frames @ [f]) = (if on_stream s f then reassemble_step (stream_run s frames) (fr_data f) else stream_run s frames)"
  by (simp add: stream_run_def stream_frames_def)

lemma stream_run_step:
  assumes "on_stream s f" "push_frame (fst (stream_run s frames)) (fr_data f) = (r, res)"
  shows "fst (stream_run s (frames @ [f])) = r"
    and "stream_messages s (frames @ [f]) = stream_messages s frames @ (case res of Inr (Some p) \<Rightarrow> [p] | _ \<Rightarrow> [])"
  using assms push_error_resets [of "fst (stream_run s frames)" "fr_data f" r]
  by (auto simp: stream_messages_run stream_run_snoc reassemble_step_def reset_is_new reassembler_new_def
      split: prod.splits sum.splits option.splits)

lemma stream_states_snoc:
  "stream_messages s (frames @ [f]) = stream_messages s frames @ ms \<Longrightarrow>
   stream_states s (frames @ [f]) = stream_states s frames @ List.map_filter (\<lambda>p. case p of Pdu d \<Rightarrow> classify_uds_state d) ms"
  by (simp add: stream_states_def map_filter_def)

lemma off_stream:
  assumes "\<not> on_stream s f"
  shows "stream_run s (frames @ [f]) = stream_run s frames" "stream_states s (frames @ [f]) = stream_states s frames"
    "stream_messages s (frames @ [f]) = stream_messages s frames"
  using assms by (simp_all add: stream_run_snoc stream_states_def stream_messages_run)

text \<open>The tracker agrees with the driver of every stream.\<close>

definition tracks :: "frame_record list \<Rightarrow> uds_tracker \<Rightarrow> bool" where
  "tracks frames t \<longleftrightarrow> om_ok (ut_receivers t) \<and> om_ok (ut_previous t) \<and> om_ok (ut_transitions t)
     \<and> (\<forall>s. receiver_of (ut_receivers t) s = fst (stream_run s frames))
     \<and> (\<forall>s. map_of (ut_previous t) s = (if stream_states s frames = [] then None else Some (last (stream_states s frames))))
     \<and> ut_states t = {(s, x). x \<in> set (stream_states s frames)}
     \<and> (\<forall>s a b. map_of (ut_transitions t) (s, a, b) =
          (let n = pair_count a b (stream_states s frames) in if n = 0 then None else Some n))"

lemma tracks_new: "tracks [] uds_tracker_new"
  by (simp add: tracks_def uds_tracker_new_def receiver_of_def stream_run_def stream_frames_def stream_states_def
      stream_messages_def reassemble_all_def pair_count_def map_filter_simps)

text \<open>Nothing observable changes on a stream: only its receiver moves.\<close>

lemma tracks_receiver:
  assumes "tracks frames t" "on_stream s f" "push_frame (fst (stream_run s frames)) (fr_data f) = (r, res)"
    and "stream_states s (frames @ [f]) = stream_states s frames"
  shows "tracks (frames @ [f]) (t\<lparr>ut_receivers := om_alter s (\<lambda>_. r) (ut_receivers t)\<rparr>)"
proof -
  have st: "stream_states u (frames @ [f]) = stream_states u frames" for u
    using assms(2,4) by (cases "u = s") (auto simp: on_stream_def intro: off_stream)
  have run: "fst (stream_run u (frames @ [f])) = (if u = s then r else fst (stream_run u frames))" for u
    using stream_run_step(1) [OF assms(2,3)] assms(2) by (auto simp: on_stream_def off_stream)
  show ?thesis
    using assms(1) unfolding tracks_def by (simp add: st run receiver_of_def om_get)
qed

lemma tracks_observe:
  assumes "tracks frames t" "on_stream s f" "push_frame (fst (stream_run s frames)) (fr_data f) = (r, Inr (Some (Pdu d)))"
  shows "tracks (frames @ [f]) (uds_observe s d (t\<lparr>ut_receivers := om_alter s (\<lambda>_. r) (ut_receivers t)\<rparr>))"
proof -
  note ms = stream_run_step(2) [OF assms(2,3)]
  show ?thesis
  proof (cases "classify_uds_state d")
    case None
    then have "stream_states s (frames @ [f]) = stream_states s frames"
      using stream_states_snoc [OF ms] by (simp add: map_filter_simps)
    from tracks_receiver [OF assms this] show ?thesis by (simp add: uds_observe_def None tracks_def)
  next
    case (Some x)
    have st: "stream_states u (frames @ [f]) = (if u = s then stream_states s frames @ [x] else stream_states u frames)" for u
      using stream_states_snoc [OF ms] assms(2) Some by (auto simp: on_stream_def map_filter_simps off_stream)
    have run: "fst (stream_run u (frames @ [f])) = (if u = s then r else fst (stream_run u frames))" for u
      using stream_run_step(1) [OF assms(2,3)] assms(2) by (auto simp: on_stream_def off_stream)
    show ?thesis
      using assms(1) unfolding tracks_def
      by (cases "stream_states s frames = []")
        (auto simp: uds_observe_def Some Let_def st run receiver_of_def om_get pair_count_snoc split: if_splits)
  qed
qed

lemma tracks_step: "tracks frames t \<Longrightarrow> tracks (frames @ [f]) (uds_step t f)"
proof (cases "fr_kind f \<noteq> KData \<or> fr_data f = []")
  case True
  assume "tracks frames t"
  with True show ?thesis by (auto simp: uds_step_def tracks_def on_stream_def off_stream)
next
  case False
  assume t: "tracks frames t"
  let ?s = "stream_of f"
  have on: "on_stream ?s f" using False by (simp add: on_stream_def)
  obtain r res where push: "push_frame (fst (stream_run ?s frames)) (fr_data f) = (r, res)" by fastforce
  have rec: "receiver_of (ut_receivers t) ?s = fst (stream_run ?s frames)" using t by (simp add: tracks_def)
  show ?thesis
  proof (cases "\<exists>d. res = Inr (Some (Pdu d))")
    case True
    then show ?thesis using tracks_observe [OF t on] push False by (auto simp: uds_step_def rec Let_def)
  next
    case no: False
    then have "stream_states ?s (frames @ [f]) = stream_states ?s frames"
      using stream_states_snoc [OF stream_run_step(2) [OF on push]]
      by (auto simp: map_filter_simps split: sum.splits option.splits pdu.splits)
    from tracks_receiver [OF t on push this] no show ?thesis
      using False by (auto simp: uds_step_def rec push tracks_def Let_def split: sum.splits option.splits pdu.splits)
  qed
qed

lemma tracks_run: "tracks frames (foldl uds_step uds_tracker_new frames)"
  by (induction frames rule: rev_induct) (simp_all add: tracks_new tracks_step)

lemma uds_observe_completed: "ut_completed (uds_observe s d t) = ut_completed t + 1"
  by (simp add: uds_observe_def Let_def split: option.splits)

lemma completed_run:
  "finite S \<Longrightarrow> stream_of ` set frames \<subseteq> S \<Longrightarrow>
     ut_completed (foldl uds_step uds_tracker_new frames) = (\<Sum>s\<in>S. length (stream_messages s frames))"
proof (induction frames rule: rev_induct)
  case Nil
  show ?case by (simp add: uds_tracker_new_def stream_messages_def stream_frames_def reassemble_all_def)
next
  case (snoc f frames)
  let ?t = "foldl uds_step uds_tracker_new frames" and ?s = "stream_of f"
  have ih: "ut_completed ?t = (\<Sum>s\<in>S. length (stream_messages s frames))" using snoc by simp
  show ?case
  proof (cases "on_stream ?s f")
    case False
    then have skip: "uds_step ?t f = ?t" by (auto simp: uds_step_def on_stream_def)
    have "\<not> on_stream s f" for s using False by (auto simp: on_stream_def)
    then show ?thesis using ih by (simp add: skip off_stream)
  next
    case on: True
    obtain r res where push: "push_frame (fst (stream_run ?s frames)) (fr_data f) = (r, res)" by fastforce
    have rec: "receiver_of (ut_receivers ?t) ?s = fst (stream_run ?s frames)" using tracks_run [of frames] by (simp add: tracks_def)
    let ?k = "case res of Inr (Some p) \<Rightarrow> 1 | _ \<Rightarrow> (0 :: nat)"
    have "ut_completed (uds_step ?t f) = ut_completed ?t + ?k"
      using on by (auto simp: uds_step_def on_stream_def rec push Let_def uds_observe_completed
          split: sum.splits option.splits pdu.splits)
    moreover have "length (stream_messages s (frames @ [f])) = length (stream_messages s frames) + (if s = ?s then ?k else 0)" for s
      using stream_run_step(2) [OF on push] on
      by (auto simp: on_stream_def off_stream split: sum.splits option.splits)
    moreover have "(\<Sum>s\<in>S. if s = ?s then ?k else 0) = ?k" using snoc.prems by simp
    ultimately show ?thesis using ih by (simp add: sum.distrib)
  qed
qed

text \<open>The UDS summary treats every stream (channel, identity, direction) as if it were alone: its
  states are those of the messages the reassembler's own driver recovers from that stream's
  frames, its transitions count exactly the consecutive pairs of these states, and the completed
  messages are those of all streams together, however the streams are interleaved and whatever
  malformed frames other streams carry.\<close>

theorem uds_analysis_by_stream:
  "ua_unique_states (uds_state_analysis frames) =
     map (\<lambda>(s, x). \<lparr>uo_stream = s, uo_state = x\<rparr>) (sorted_list_of_set {(s, x). x \<in> set (stream_states s frames)})
   \<and> sorted_wrt (<) (map (\<lambda>t. (ux_stream t, ux_from t, ux_to t)) (ua_transitions (uds_state_analysis frames)))
   \<and> (\<lparr>ux_stream = s, ux_from = a, ux_to = b, ux_count = n\<rparr> \<in> set (ua_transitions (uds_state_analysis frames))
        \<longleftrightarrow> n = pair_count a b (stream_states s frames) \<and> 0 < n)
   \<and> ua_completed (uds_state_analysis frames) = (\<Sum>s\<in>stream_of ` set frames. length (stream_messages s frames))"
proof -
  let ?t = "foldl uds_step uds_tracker_new frames"
  note t = tracks_run [of frames, unfolded tracks_def]
  have "((s, a, b), n) \<in> set (ut_transitions ?t) \<longleftrightarrow> map_of (ut_transitions ?t) (s, a, b) = Some n"
    using t by (intro om_mem) simp
  also have "\<dots> \<longleftrightarrow> n = pair_count a b (stream_states s frames) \<and> 0 < n" using t by (auto simp: Let_def)
  finally have mem: "((s, a, b), n) \<in> set (ut_transitions ?t) \<longleftrightarrow> n = pair_count a b (stream_states s frames) \<and> 0 < n" .
  have keys: "map (\<lambda>t. (ux_stream t, ux_from t, ux_to t)) (ua_transitions (uds_state_analysis frames)) = map fst (ut_transitions ?t)"
    by (auto simp: uds_state_analysis_def Let_def)
  have "sorted_wrt (<) (map fst (ut_transitions ?t))" using t by (simp add: om_ok_def)
  moreover have "\<lparr>ux_stream = s, ux_from = a, ux_to = b, ux_count = n\<rparr> \<in> set (ua_transitions (uds_state_analysis frames))
      \<longleftrightarrow> ((s, a, b), n) \<in> set (ut_transitions ?t)"
    by (force simp: uds_state_analysis_def Let_def image_iff)
  ultimately show ?thesis
    unfolding keys using t mem completed_run [of "stream_of ` set frames" frames]
    by (simp add: uds_state_analysis_def Let_def)
qed

lemma finite_observations: "finite (ut_states (foldl uds_step uds_tracker_new frames))"
proof -
  have "finite (ut_states (uds_step t f))" if "finite (ut_states t)" for t f
    using that by (auto simp: uds_step_def uds_observe_def Let_def split: prod.splits sum.splits option.splits pdu.splits)
  then show ?thesis by (induction frames rule: rev_induct) (simp_all add: uds_tracker_new_def)
qed

text \<open>Diagnostic traffic is recovered end to end: if, flow control apart, the data frames of a stream
  are the ISO-TP segments of messages of 1 to 4095 bytes, then whatever else the capture holds, the
  states reported for the stream are exactly the classifications of these messages.\<close>

theorem uds_messages_recovered:
  assumes "list_all (\<lambda>p. 0 < length p \<and> length p < 4096) ps"
    and "filter (\<lambda>d. \<not> is_flow_control AddrNormal d) (stream_frames s frames) = concat (map segment ps)"
  shows "\<lparr>uo_stream = s, uo_state = x\<rparr> \<in> set (ua_unique_states (uds_state_analysis frames)) \<longleftrightarrow> (\<exists>p\<in>set ps. classify_uds_state p = Some x)"
proof -
  have "\<forall>p\<in>set ps. 0 < length p \<and> length p < 4096" using assms(1) by (simp add: list_all_iff)
  moreover have "addressed AddrNormal 0 = (\<lambda>d. d)" by (simp add: addressed_def fun_eq_iff)
  ultimately have "stream_messages s frames = map Pdu ps"
    using segments_reassemble [of ps "reassembler_new AddrNormal" AddrNormal "[]" 0] assms(2)
      reassemble_filter [of "(reassembler_new AddrNormal, [])" AddrNormal "stream_frames s frames"]
    by (simp add: stream_messages_def reassemble_all_def reassembler_new_def)
  then have "set (stream_states s frames) = {x. \<exists>p\<in>set ps. classify_uds_state p = Some x}"
    by (auto simp: stream_states_def map_filter_def image_iff) force
  moreover have "\<lparr>uo_stream = s, uo_state = x\<rparr> \<in> set (ua_unique_states (uds_state_analysis frames)) \<longleftrightarrow> x \<in> set (stream_states s frames)"
    using tracks_run [of frames] finite_observations [of frames]
    by (auto simp: uds_state_analysis_def Let_def tracks_def image_iff)
  ultimately show ?thesis by blast
qed

theorem uds_messages_recovered_witness:
  "\<lparr>uo_stream = UdsStream ''can0'' (FrameIdentity 0x7E0 False) None, uo_state = UdsRequest 0x22 (Some 0xF1)\<rparr>
     \<in> set (ua_unique_states (uds_state_analysis
        [\<lparr>fr_timestamp = 0, fr_channel = ''can0'', fr_id = 0x7E0, fr_extended = False, fr_fd = False, fr_kind = KData,
          fr_data = [3, 0x22, 0xF1, 0x90], fr_direction = None\<rparr>]))"
  using uds_messages_recovered [of "[[0x22, 0xF1, 0x90]]" "UdsStream ''can0'' (FrameIdentity 0x7E0 False) None"
      "[\<lparr>fr_timestamp = 0, fr_channel = ''can0'', fr_id = 0x7E0, fr_extended = False, fr_fd = False, fr_kind = KData,
        fr_data = [3, 0x22, 0xF1, 0x90], fr_direction = None\<rparr>]" "UdsRequest 0x22 (Some 0xF1)"]
  by (simp add: stream_frames_def on_stream_def stream_of_def identity_of_def is_flow_control_def pci_offset_def
      segment_def classify_uds_state_def list_get_def)

end
