(* ===== verification/Schedule_Store.thy ===== *)
theory Schedule_Store
  imports Json
begin

text \<open>
  Schedules, their registry and the trigger evaluation of \<^verbatim>\<open>crates/hf-scheduler/src\<close>:
  \<^verbatim>\<open>config.rs\<close> (policies), \<^verbatim>\<open>store.rs\<close>, \<^verbatim>\<open>interval.rs\<close>, \<^verbatim>\<open>cron.rs\<close>, \<^verbatim>\<open>onetime.rs\<close> and
  \<^verbatim>\<open>trigger.rs\<close>. A \<^verbatim>\<open>DateTime<Utc>\<close> and a \<^verbatim>\<open>Duration\<close> are integers, in nanoseconds. The calendar
  arithmetic of \<^verbatim>\<open>chrono\<close> and the cron evaluation of \<^verbatim>\<open>croner\<close> and \<^verbatim>\<open>chrono-tz\<close> are third-party code:
  one record of functions, an argument of every operation that uses them, with what the
  scheduler relies on stated as \<open>chrono_laws\<close> and \<open>croner_laws\<close>.
\<close>

section \<open>The calendar and cron libraries\<close>

type_synonym time = int
type_synonym duration = int

text \<open>\<^verbatim>\<open>DateTime::checked_add_signed\<close>, \<^verbatim>\<open>Duration::try_seconds\<close>, \<^verbatim>\<open>num_seconds\<close> and \<^verbatim>\<open>num_minutes\<close>; the
  5-field \<^verbatim>\<open>CronParser::parse\<close>, \<^verbatim>\<open>find_next_occurrence(_, false)\<close> and \<^verbatim>\<open>is_time_matching\<close> in UTC
  (\<open>None\<close>) or in a timezone, and \<^verbatim>\<open>str::parse::<chrono_tz::Tz>\<close>.\<close>

record ('c, 'z) time_lib =
  tl_add :: "time \<Rightarrow> duration \<Rightarrow> time option"
  tl_seconds :: "int \<Rightarrow> duration option"
  tl_num_seconds :: "duration \<Rightarrow> int"
  tl_num_minutes :: "duration \<Rightarrow> int"
  tl_cron_parse :: "string \<Rightarrow> 'c option"
  tl_cron_next :: "'c \<Rightarrow> 'z option \<Rightarrow> time \<Rightarrow> time option"
  tl_cron_match :: "'c \<Rightarrow> 'z option \<Rightarrow> time \<Rightarrow> bool"
  tl_tz :: "string \<Rightarrow> 'z option"

definition nanos :: int where
  "nanos = 1000000000"

text \<open>Integer division of \<^verbatim>\<open>i64\<close>, towards zero.\<close>

definition quot :: "int \<Rightarrow> int \<Rightarrow> int" where
  "quot a b = sgn a * sgn b * (\<bar>a\<bar> div \<bar>b\<bar>)"

definition max_duration_secs :: int where
  "max_duration_secs = i64_max div 1000"

text \<open>The documented behaviour of \<^verbatim>\<open>chrono\<close>: addition succeeds exactly inside the calendar
  \<open>[lo, hi]\<close>, seconds are representable up to \<^verbatim>\<open>i64::MAX\<close> milliseconds, \<^verbatim>\<open>num_seconds\<close> and
  \<^verbatim>\<open>num_minutes\<close> drop the fraction, and the difference of two times of the calendar is a representable duration.\<close>

definition chrono_laws :: "('c, 'z) time_lib \<Rightarrow> time \<Rightarrow> time \<Rightarrow> bool" where
  "chrono_laws lib lo hi \<longleftrightarrow>
     tl_add lib = (\<lambda>t d. if lo \<le> t + d \<and> t + d \<le> hi then Some (t + d) else None)
     \<and> tl_seconds lib = (\<lambda>s. if \<bar>s\<bar> \<le> max_duration_secs then Some (s * nanos) else None)
     \<and> tl_num_seconds lib = (\<lambda>d. quot d nanos)
     \<and> tl_num_minutes lib = (\<lambda>d. quot d (60 * nanos))
     \<and> hi - lo \<le> max_duration_secs * nanos"

text \<open>The documented behaviour of an exclusive search in \<^verbatim>\<open>croner\<close>: the next occurrence is later and
  matches the pattern, and the occurrences of a 5-field pattern are at least a minute apart.\<close>

definition croner_laws :: "('c, 'z) time_lib \<Rightarrow> bool" where
  "croner_laws lib \<longleftrightarrow> (\<forall>c z t u. tl_cron_next lib c z t = Some u \<longrightarrow>
     t < u \<and> tl_cron_match lib c z u \<and> (tl_cron_match lib c z t \<longrightarrow> t + 60 * nanos \<le> u))"

section \<open>Policies and schedules\<close>

datatype missed_policy = CatchUp | Skip | Backfill

datatype concurrency_policy = AllowConcurrent | SkipIfRunning | QueueTrigger | CancelPrevious

datatype event_filter = EventFilter string string

datatype trigger_config =
    CronTrigger string string
  | IntervalTrigger nat
  | EventTrigger string nat "event_filter option"
  | OneTimeTrigger time

datatype trigger_type = TypeCron | TypeInterval | TypeEvent | TypeOneTime

record schedule_policies =
  sp_missed :: "missed_policy option"
  sp_concurrency :: "concurrency_policy option"
  sp_max_per_hour :: nat

definition policies_default :: schedule_policies where
  "policies_default = \<lparr>sp_missed = None, sp_concurrency = None, sp_max_per_hour = 0\<rparr>"

definition resolve_defaults :: "schedule_policies \<Rightarrow> missed_policy \<Rightarrow> concurrency_policy \<Rightarrow> schedule_policies" where
  "resolve_defaults p m c = p\<lparr>
     sp_missed := Some (case sp_missed p of Some x \<Rightarrow> x | None \<Rightarrow> m),
     sp_concurrency := Some (case sp_concurrency p of Some x \<Rightarrow> x | None \<Rightarrow> c)\<rparr>"

definition effective_missed_policy :: "schedule_policies \<Rightarrow> missed_policy" where
  "effective_missed_policy p = (case sp_missed p of Some m \<Rightarrow> m | None \<Rightarrow> Skip)"

definition effective_concurrency_policy :: "schedule_policies \<Rightarrow> concurrency_policy" where
  "effective_concurrency_policy p = (case sp_concurrency p of Some c \<Rightarrow> c | None \<Rightarrow> SkipIfRunning)"

text \<open>Compact recovery batches (\<^verbatim>\<open>recovery.rs\<close>), which schedules carry as checkpoints.\<close>

datatype recovery_cadence = FixedCadence duration | CronCadence string string

record recovery_batch =
  rb_schedule :: string
  rb_first :: time
  rb_cadence :: recovery_cadence
  rb_count :: nat
  rb_type :: trigger_type

record recovery_checkpoint =
  rc_batch :: recovery_batch
  rc_last_fire :: time

record schedule =
  sc_id :: string
  sc_name :: string
  sc_enabled :: bool
  sc_trigger :: trigger_config
  sc_workflow :: string
  sc_parameters :: json
  sc_policies :: schedule_policies
  sc_description :: string
  sc_tags :: "string list"
  sc_created_at :: time
  sc_updated_at :: time
  sc_last_fire :: "time option"
  sc_recovery_pending :: "recovery_checkpoint option"

definition schedule_new :: "time \<Rightarrow> string \<Rightarrow> string \<Rightarrow> trigger_config \<Rightarrow> string \<Rightarrow> schedule" where
  "schedule_new now i name tr workflow = \<lparr>sc_id = i, sc_name = name, sc_enabled = True, sc_trigger = tr, sc_workflow = workflow,
     sc_parameters = JObject [], sc_policies = policies_default, sc_description = [], sc_tags = [],
     sc_created_at = now, sc_updated_at = now, sc_last_fire = None, sc_recovery_pending = None\<rparr>"

section \<open>The registry\<close>

type_synonym schedule_store = "schedule list"

definition store_register :: "schedule \<Rightarrow> schedule_store \<Rightarrow> schedule_store" where
  "store_register s st = filter (\<lambda>x. sc_id x \<noteq> sc_id s) st @ [s]"

text \<open>\<^verbatim>\<open>iter_mut().find\<close> followed by an assignment: the first schedule of the id changes.\<close>

fun modify_first :: "string \<Rightarrow> (schedule \<Rightarrow> schedule) \<Rightarrow> schedule_store \<Rightarrow> schedule_store" where
  "modify_first i f [] = []"
| "modify_first i f (s # st) = (if sc_id s = i then f s # st else s # modify_first i f st)"

definition store_get :: "string \<Rightarrow> schedule_store \<Rightarrow> schedule option" where
  "store_get i st = find (\<lambda>s. sc_id s = i) st"

definition store_update :: "schedule \<Rightarrow> schedule_store \<Rightarrow> schedule_store \<times> bool" where
  "store_update s st = (if store_get (sc_id s) st = None then (st, False)
     else (modify_first (sc_id s) (\<lambda>_. s) st, True))"

definition list_enabled :: "schedule_store \<Rightarrow> schedule list" where
  "list_enabled st = filter sc_enabled st"

definition list_by_tag :: "string \<Rightarrow> schedule_store \<Rightarrow> schedule list" where
  "list_by_tag tag st = filter (\<lambda>s. list_ex (\<lambda>t. t = tag) (sc_tags s)) st"

definition is_cron :: "trigger_config \<Rightarrow> bool" where
  "is_cron t = (case t of CronTrigger _ _ \<Rightarrow> True | _ \<Rightarrow> False)"

definition is_one_time :: "trigger_config \<Rightarrow> bool" where
  "is_one_time t = (case t of OneTimeTrigger _ \<Rightarrow> True | _ \<Rightarrow> False)"

definition enable_schedule :: "time \<Rightarrow> bool \<Rightarrow> schedule \<Rightarrow> schedule" where
  "enable_schedule now en s =
     (let s' = (if en \<and> \<not> sc_enabled s \<and> is_cron (sc_trigger s) then s\<lparr>sc_last_fire := Some now\<rparr> else s)
      in s'\<lparr>sc_enabled := en, sc_updated_at := now\<rparr>)"

definition set_enabled :: "time \<Rightarrow> string \<Rightarrow> bool \<Rightarrow> schedule_store \<Rightarrow> schedule_store \<times> bool" where
  "set_enabled now i en st = (if store_get i st = None then (st, False)
     else (modify_first i (enable_schedule now en) st, True))"

definition store_remove :: "string \<Rightarrow> schedule_store \<Rightarrow> schedule_store \<times> bool" where
  "store_remove i st = (let st' = filter (\<lambda>s. sc_id s \<noteq> i) st in (st', length st' < length st))"

definition advance_last_fire :: "time \<Rightarrow> schedule \<Rightarrow> schedule" where
  "advance_last_fire t s =
     (if (case sc_last_fire s of None \<Rightarrow> True | Some c \<Rightarrow> t > c) then s\<lparr>sc_last_fire := Some t\<rparr> else s)"

definition update_last_fire :: "string \<Rightarrow> time \<Rightarrow> schedule_store \<Rightarrow> schedule_store" where
  "update_last_fire i t st = modify_first i (advance_last_fire t) st"

section \<open>Trigger evaluation\<close>

definition interval_duration :: "('c, 'z) time_lib \<Rightarrow> nat \<Rightarrow> duration option" where
  "interval_duration lib secs =
     (if secs = 0 then None else Option.bind (try_i64 (int secs)) (tl_seconds lib))"

definition interval_next_fire :: "('c, 'z) time_lib \<Rightarrow> nat \<Rightarrow> time \<Rightarrow> time option" where
  "interval_next_fire lib secs after = Option.bind (interval_duration lib secs) (tl_add lib after)"

definition interval_validate :: "('c, 'z) time_lib \<Rightarrow> time \<Rightarrow> nat \<Rightarrow> (string, unit) result" where
  "interval_validate lib now secs =
     (if interval_next_fire lib secs now = None
      then Inl ''interval must be positive and fit the supported calendar'' else Inr ())"

definition cron_tz :: "('c, 'z) time_lib \<Rightarrow> string \<Rightarrow> 'z option" where
  "cron_tz lib tz = (let name = trim tz in if name = [] \<or> to_lower name = ''utc'' then None else tl_tz lib name)"

definition cron_is_valid :: "('c, 'z) time_lib \<Rightarrow> string \<Rightarrow> bool" where
  "cron_is_valid lib expr = (tl_cron_parse lib expr \<noteq> None)"

definition is_timezone_valid :: "('c, 'z) time_lib \<Rightarrow> string \<Rightarrow> bool" where
  "is_timezone_valid lib tz = (let name = trim tz in name = [] \<or> to_lower name = ''utc'' \<or> tl_tz lib name \<noteq> None)"

definition cron_next_fire :: "('c, 'z) time_lib \<Rightarrow> string \<Rightarrow> string \<Rightarrow> time \<Rightarrow> time option" where
  "cron_next_fire lib expr tz after =
     Option.bind (tl_cron_parse lib expr) (\<lambda>c. tl_cron_next lib c (cron_tz lib tz) after)"

definition cron_matches :: "('c, 'z) time_lib \<Rightarrow> string \<Rightarrow> string \<Rightarrow> time \<Rightarrow> bool" where
  "cron_matches lib expr tz t = (case tl_cron_parse lib expr of
     None \<Rightarrow> False | Some c \<Rightarrow> tl_cron_match lib c (cron_tz lib tz) t)"

definition one_time_should_fire :: "time \<Rightarrow> bool \<Rightarrow> time \<Rightarrow> bool" where
  "one_time_should_fire at fired now \<longleftrightarrow> \<not> fired \<and> now \<ge> at"

record fired_trigger =
  ft_cascade_depth :: nat
  ft_schedule :: string
  ft_fired_at :: time
  ft_type :: trigger_type
  ft_is_recovery :: bool
  ft_event_payload :: "json option"

definition trigger_type_of :: "schedule \<Rightarrow> trigger_type" where
  "trigger_type_of s = (case sc_trigger s of
     CronTrigger _ _ \<Rightarrow> TypeCron | IntervalTrigger _ \<Rightarrow> TypeInterval
   | OneTimeTrigger _ \<Rightarrow> TypeOneTime | EventTrigger _ _ _ \<Rightarrow> TypeEvent)"

definition due_by :: "time \<Rightarrow> time option \<Rightarrow> bool" where
  "due_by now next = (case next of None \<Rightarrow> False | Some t \<Rightarrow> t \<le> now)"

definition should_fire :: "('c, 'z) time_lib \<Rightarrow> schedule \<Rightarrow> time \<Rightarrow> bool" where
  "should_fire lib s now = (case sc_trigger s of
     CronTrigger expr tz \<Rightarrow>
       due_by now (cron_next_fire lib expr tz (case sc_last_fire s of Some t \<Rightarrow> t | None \<Rightarrow> sc_created_at s))
   | IntervalTrigger secs \<Rightarrow>
       (case sc_last_fire s of
          Some prev \<Rightarrow> due_by now (interval_next_fire lib secs prev)
        | None \<Rightarrow> interval_next_fire lib secs now \<noteq> None)
   | OneTimeTrigger at \<Rightarrow> sc_last_fire s = None \<and> one_time_should_fire at False now
   | EventTrigger _ _ _ \<Rightarrow> False)"

definition evaluate_trigger :: "('c, 'z) time_lib \<Rightarrow> schedule \<Rightarrow> time \<Rightarrow> fired_trigger option" where
  "evaluate_trigger lib s now =
     (if \<not> sc_enabled s then None
      else if should_fire lib s now
      then Some \<lparr>ft_cascade_depth = 0, ft_schedule = sc_id s, ft_fired_at = now, ft_type = trigger_type_of s,
                 ft_is_recovery = False, ft_event_payload = None\<rparr>
      else None)"

definition evaluate_all :: "('c, 'z) time_lib \<Rightarrow> schedule list \<Rightarrow> time \<Rightarrow> fired_trigger list" where
  "evaluate_all lib ss now = List.map_filter (\<lambda>s. evaluate_trigger lib s now) ss"

section \<open>The registry is a keyed store\<close>

lemma find_without: "find (\<lambda>s. sc_id s = k) (filter (\<lambda>s. sc_id s \<noteq> i) st) = (if k = i then None else find (\<lambda>s. sc_id s = k) st)"
  by (induction st) auto

lemma find_snoc: "find P (xs @ [x]) = (case find P xs of Some y \<Rightarrow> Some y | None \<Rightarrow> if P x then Some x else None)"
  by (induction xs) auto

lemma store_get_register: "store_get k (store_register s st) = (if k = sc_id s then Some s else store_get k st)"
  by (auto simp: store_get_def store_register_def find_snoc find_without split: option.split)

lemma store_get_remove: "store_get k (fst (store_remove i st)) = (if k = i then None else store_get k st)"
  by (auto simp: store_get_def store_remove_def Let_def find_without)

lemma store_get_id: "store_get k st = Some s \<Longrightarrow> sc_id s = k"
  by (auto simp: store_get_def dest: find_Some_iff_first)

interpretation registry: keyed_store store_get store_register "\<lambda>i st. fst (store_remove i st)" sc_id
  by unfold_locales (simp_all add: store_get_register store_get_remove store_get_id)

text \<open>An update of the first schedule of an id, as a lookup sees it.\<close>

lemma store_get_modify:
  assumes "\<And>s. sc_id (f s) = sc_id s"
  shows "store_get k (modify_first i f st) = (if k = i then map_option f (store_get i st) else store_get k st)"
  by (induction st) (auto simp: store_get_def assms)

lemma store_get_advance:
  "store_get k (update_last_fire i t st) = (if k = i then map_option (advance_last_fire t) (store_get i st) else store_get k st)"
  unfolding update_last_fire_def by (rule store_get_modify) (simp add: advance_last_fire_def)

lemma advance_last_fire_max:
  "sc_last_fire (advance_last_fire t s) = Some (case sc_last_fire s of None \<Rightarrow> t | Some c \<Rightarrow> max t c)"
  by (auto simp: advance_last_fire_def split: option.split)

end
