(* ===== verification/Schedule_Recovery.thy ===== *)
theory Schedule_Recovery
  imports Schedule_Store
begin

text \<open>
  Recovery of missed schedule fires after a restart, \<^verbatim>\<open>crates/hf-scheduler/src/recovery.rs\<close>, with
  the parts of \<^verbatim>\<open>manager.rs\<close> that consume its plan: the preparation of the registry in
  \<^verbatim>\<open>SchedulerManager::start\<close>, the lazy expansion of a batch in \<^verbatim>\<open>submit_recovery\<close>, the completion of
  a batch and the view of the registry a tick evaluates. The reference is the list of due times
  obtained by iterating the trigger's own next fire time.
\<close>

section \<open>Plans\<close>

record recovery_advance =
  rv_schedule :: string
  rv_last_fire :: time

record recovery_plan =
  rp_batches :: "recovery_batch list"
  rp_advances :: "recovery_advance list"
  rp_caught_up :: "string list"
  rp_skipped :: "string list"
  rp_backfilled :: "(string \<times> nat) list"

definition plan_empty :: recovery_plan where
  "plan_empty = \<lparr>rp_batches = [], rp_advances = [], rp_caught_up = [], rp_skipped = [], rp_backfilled = []\<rparr>"

definition trigger_count :: "recovery_plan \<Rightarrow> nat" where
  "trigger_count p = foldl (\<lambda>total b. sat_add_u64 total (rb_count b)) 0 (rp_batches p)"

definition batch_single :: "schedule \<Rightarrow> time \<Rightarrow> recovery_batch" where
  "batch_single s at = \<lparr>rb_schedule = sc_id s, rb_first = at, rb_cadence = FixedCadence 0, rb_count = 1,
     rb_type = trigger_type_of s\<rparr>"

definition batch_next_fire :: "('c, 'z) time_lib \<Rightarrow> recovery_batch \<Rightarrow> time \<Rightarrow> time option" where
  "batch_next_fire lib b after = (case rb_cadence b of
     FixedCadence d \<Rightarrow> tl_add lib after d
   | CronCadence expr tz \<Rightarrow> cron_next_fire lib expr tz after)"

definition add_intervals :: "('c, 'z) time_lib \<Rightarrow> time \<Rightarrow> duration \<Rightarrow> nat \<Rightarrow> time option" where
  "add_intervals lib start interval count =
     Option.bind (try_i64 (int count)) (\<lambda>c.
     Option.bind (checked_mul_i64 (tl_num_seconds lib interval) c) (\<lambda>s.
     Option.bind (tl_seconds lib s) (tl_add lib start)))"

text \<open>The loop that counts missed cron occurrences.\<close>

function cron_missed :: "(time \<Rightarrow> time option) \<Rightarrow> time \<Rightarrow> time \<Rightarrow> nat \<Rightarrow> nat \<times> time" where
  "cron_missed nf now latest count = (case nf latest of
     None \<Rightarrow> (count, latest)
   | Some t \<Rightarrow> if t \<le> latest \<or> t > now then (count, latest) else cron_missed nf now t (sat_add_u64 count 1))"
  by pat_completeness auto
termination
  by (relation "measure (\<lambda>(nf, now, latest, count). nat (now - latest))") auto

declare cron_missed.simps [simp del]

definition missed_occurrences ::
  "('c, 'z) time_lib \<Rightarrow> schedule \<Rightarrow> time \<Rightarrow> time \<Rightarrow> (time \<times> recovery_cadence \<times> nat \<times> time) option" where
  "missed_occurrences lib s last_fire now = (case sc_trigger s of
     IntervalTrigger secs \<Rightarrow>
       Option.bind (interval_duration lib secs) (\<lambda>interval.
       if interval \<le> 0 then None
       else
         let elapsed = now - last_fire in
         if elapsed < interval then None
         else
           let q = quot (tl_num_seconds lib elapsed) (tl_num_seconds lib interval) in
           if q \<le> 0 then None
           else
             Option.bind (tl_add lib last_fire interval) (\<lambda>first.
             Option.bind (add_intervals lib last_fire interval (nat q)) (\<lambda>latest.
             Some (first, FixedCadence interval, nat q, latest))))
   | CronTrigger expr tz \<Rightarrow>
       Option.bind (cron_next_fire lib expr tz last_fire) (\<lambda>first.
       if first > now then None
       else
         let (count, latest) = cron_missed (cron_next_fire lib expr tz) now first 1
         in Some (first, CronCadence expr tz, count, latest))
   | _ \<Rightarrow> None)"

definition advance_to :: "schedule \<Rightarrow> time \<Rightarrow> recovery_plan \<Rightarrow> recovery_plan" where
  "advance_to s t p = p\<lparr>rp_advances := rp_advances p @ [\<lparr>rv_schedule = sc_id s, rv_last_fire = t\<rparr>]\<rparr>"

definition plan_never_fired :: "('c, 'z) time_lib \<Rightarrow> time \<Rightarrow> schedule \<Rightarrow> recovery_plan \<Rightarrow> recovery_plan" where
  "plan_never_fired lib now s p =
     (let once = advance_to s now (p\<lparr>rp_batches := rp_batches p @ [batch_single s now],
                                     rp_caught_up := rp_caught_up p @ [sc_id s]\<rparr>)
      in case sc_trigger s of
           EventTrigger _ _ _ \<Rightarrow> p
         | IntervalTrigger secs \<Rightarrow> if interval_next_fire lib secs now = None then p else once
         | OneTimeTrigger at \<Rightarrow>
             if at > now then p
             else if effective_missed_policy (sc_policies s) = Skip
             then advance_to s now (p\<lparr>rp_skipped := rp_skipped p @ [sc_id s]\<rparr>)
             else once
         | CronTrigger _ _ \<Rightarrow> once)"

definition plan_missed ::
  "time \<Rightarrow> schedule \<Rightarrow> time \<times> recovery_cadence \<times> nat \<times> time \<Rightarrow> recovery_plan \<Rightarrow> recovery_plan" where
  "plan_missed now s missed p = (case missed of (first, cadence, count, latest) \<Rightarrow>
     (case effective_missed_policy (sc_policies s) of
        Skip \<Rightarrow> advance_to s latest (p\<lparr>rp_skipped := rp_skipped p @ [sc_id s]\<rparr>)
      | CatchUp \<Rightarrow> advance_to s now (p\<lparr>rp_batches := rp_batches p @ [batch_single s now],
                                       rp_caught_up := rp_caught_up p @ [sc_id s]\<rparr>)
      | Backfill \<Rightarrow> advance_to s latest (p\<lparr>
          rp_batches := rp_batches p @ [\<lparr>rb_schedule = sc_id s, rb_first = first, rb_cadence = cadence,
                                         rb_count = count, rb_type = trigger_type_of s\<rparr>],
          rp_backfilled := rp_backfilled p @ [(sc_id s, count)]\<rparr>)))"

text \<open>The cursor a schedule is evaluated from; a cron schedule that never fired starts at its creation.\<close>

definition cursor_of :: "schedule \<Rightarrow> time option" where
  "cursor_of s = (case sc_last_fire s of
     Some t \<Rightarrow> Some t | None \<Rightarrow> if is_cron (sc_trigger s) then Some (sc_created_at s) else None)"

definition plan_schedule :: "('c, 'z) time_lib \<Rightarrow> time \<Rightarrow> recovery_plan \<Rightarrow> schedule \<Rightarrow> recovery_plan" where
  "plan_schedule lib now p s =
     (if \<not> sc_enabled s \<and> sc_recovery_pending s = None then p
      else case sc_recovery_pending s of
        Some c \<Rightarrow> advance_to s (rc_last_fire c) (p\<lparr>rp_batches := rp_batches p @ [rc_batch c]\<rparr>)
      | None \<Rightarrow>
          (case cursor_of s of
             None \<Rightarrow> plan_never_fired lib now s p
           | Some last_fire \<Rightarrow>
               (case missed_occurrences lib s last_fire now of
                  None \<Rightarrow> p
                | Some missed \<Rightarrow> plan_missed now s missed p)))"

definition recover_missed :: "('c, 'z) time_lib \<Rightarrow> schedule_store \<Rightarrow> time \<Rightarrow> recovery_plan" where
  "recover_missed lib st now = foldl (plan_schedule lib now) plan_empty st"

section \<open>Dispatching a plan\<close>

definition trigger_at :: "recovery_batch \<Rightarrow> time \<Rightarrow> fired_trigger" where
  "trigger_at b at = \<lparr>ft_cascade_depth = 0, ft_schedule = rb_schedule b, ft_fired_at = at, ft_type = rb_type b,
     ft_is_recovery = True, ft_event_payload = None\<rparr>"

text \<open>The triggers \<^verbatim>\<open>submit_recovery\<close> sends for a batch while the scheduler is armed, and whether it
  reached the end of the batch.\<close>

fun submit_from :: "('c, 'z) time_lib \<Rightarrow> recovery_batch \<Rightarrow> time \<Rightarrow> nat \<Rightarrow> fired_trigger list \<times> bool" where
  "submit_from lib b at 0 = ([], True)"
| "submit_from lib b at (Suc n) =
     (if n = 0 then ([trigger_at b at], True)
      else case batch_next_fire lib b at of
        None \<Rightarrow> ([trigger_at b at], False)
      | Some t \<Rightarrow> (case submit_from lib b t n of (ts, ok) \<Rightarrow> (trigger_at b at # ts, ok)))"

definition submit_batch :: "('c, 'z) time_lib \<Rightarrow> recovery_batch \<Rightarrow> fired_trigger list \<times> bool" where
  "submit_batch lib b = submit_from lib b (rb_first b) (rb_count b)"

text \<open>Preparation of the registry: one-time schedules are left to their receipts, cursors without
  work advance at once, and schedules with a batch carry it as a checkpoint.\<close>

definition without_ids :: "string list \<Rightarrow> recovery_plan \<Rightarrow> recovery_plan" where
  "without_ids ids p = p\<lparr>
     rp_batches := filter (\<lambda>b. rb_schedule b \<notin> set ids) (rp_batches p),
     rp_advances := filter (\<lambda>a. rv_schedule a \<notin> set ids) (rp_advances p),
     rp_caught_up := filter (\<lambda>i. i \<notin> set ids) (rp_caught_up p),
     rp_skipped := filter (\<lambda>i. i \<notin> set ids) (rp_skipped p),
     rp_backfilled := filter (\<lambda>(i, _). i \<notin> set ids) (rp_backfilled p)\<rparr>"

definition apply_advance :: "schedule_store \<Rightarrow> recovery_advance \<Rightarrow> schedule_store" where
  "apply_advance st a = update_last_fire (rv_schedule a) (rv_last_fire a) st"

definition mark_batch :: "recovery_advance list \<Rightarrow> schedule_store \<Rightarrow> recovery_batch \<Rightarrow> schedule_store" where
  "mark_batch held st b = (case store_get (rb_schedule b) st of
     None \<Rightarrow> st
   | Some s \<Rightarrow>
       (case find (\<lambda>a. rv_schedule a = rb_schedule b) held of
          None \<Rightarrow> st
        | Some a \<Rightarrow> fst (store_update
            (s\<lparr>sc_recovery_pending := Some \<lparr>rc_batch = b, rc_last_fire = rv_last_fire a\<rparr>\<rparr>) st)))"

definition prepare_recovery ::
  "('c, 'z) time_lib \<Rightarrow> time \<Rightarrow> schedule_store \<Rightarrow> recovery_plan \<times> recovery_advance list \<times> schedule_store" where
  "prepare_recovery lib now st =
     (let one_time = map sc_id (filter (\<lambda>s. is_one_time (sc_trigger s)) (list_enabled st));
          plan = without_ids one_time (recover_missed lib st now);
          held_ids = map rb_schedule (rp_batches plan);
          held = filter (\<lambda>a. rv_schedule a \<in> set held_ids) (rp_advances plan);
          skipped = filter (\<lambda>a. rv_schedule a \<notin> set held_ids) (rp_advances plan);
          st1 = foldl apply_advance st skipped;
          st2 = foldl (mark_batch held) st1 (rp_batches plan)
      in (plan\<lparr>rp_advances := []\<rparr>, held, st2))"

text \<open>What a tick evaluates: enabled schedules that are not held, from the end of their checkpoint.\<close>

definition covered :: "schedule \<Rightarrow> schedule" where
  "covered s = (case sc_recovery_pending s of
     None \<Rightarrow> s
   | Some c \<Rightarrow> s\<lparr>sc_last_fire := Some (case sc_last_fire s of
       None \<Rightarrow> rc_last_fire c | Some t \<Rightarrow> max t (rc_last_fire c))\<rparr>)"

definition tick :: "('c, 'z) time_lib \<Rightarrow> string list \<Rightarrow> schedule_store \<Rightarrow> time \<Rightarrow> fired_trigger list" where
  "tick lib held st now = evaluate_all lib (map covered (filter (\<lambda>s. sc_id s \<notin> set held) (list_enabled st))) now"

section \<open>Checkpoints\<close>

definition matches_identity :: "('c, 'z) time_lib \<Rightarrow> recovery_checkpoint \<Rightarrow> schedule \<Rightarrow> bool" where
  "matches_identity lib c s =
     (let b = rc_batch c in
      rb_schedule b = sc_id s \<and>
      (case (sc_trigger s, rb_cadence b, rb_type b) of
         (IntervalTrigger secs, FixedCadence d, TypeInterval) \<Rightarrow>
           (d = 0 \<and> rb_count b = 1) \<or> interval_duration lib secs = Some d
       | (CronTrigger expr tz, CronCadence e z, TypeCron) \<Rightarrow> expr = e \<and> tz = z
       | (CronTrigger _ _, FixedCadence d, TypeCron) \<Rightarrow> d = 0 \<and> rb_count b = 1
       | _ \<Rightarrow> False))"

text \<open>The walk over the cron occurrences of a checkpoint: \<open>n\<close> further ones, ending at \<open>end\<close>.\<close>

fun cron_walk :: "(time \<Rightarrow> time option) \<Rightarrow> time \<Rightarrow> time \<Rightarrow> nat \<Rightarrow> bool" where
  "cron_walk nf stop at 0 = (at = stop)"
| "cron_walk nf stop at (Suc n) = (case nf at of
     None \<Rightarrow> False
   | Some t \<Rightarrow> if t \<le> at \<or> t > stop then False else cron_walk nf stop t n)"

definition matches_schedule :: "('c, 'z) time_lib \<Rightarrow> recovery_checkpoint \<Rightarrow> schedule \<Rightarrow> bool" where
  "matches_schedule lib c s =
     (let b = rc_batch c in
      if \<not> matches_identity lib c s \<or> rb_count b = 0 \<or> rb_first b > rc_last_fire c then False
      else case (sc_trigger s, rb_cadence b, rb_type b) of
         (IntervalTrigger secs, FixedCadence d, TypeInterval) \<Rightarrow>
           if rb_count b = 1 \<and> d = 0 then rb_first b = rc_last_fire c
           else interval_duration lib secs = Some d
                \<and> add_intervals lib (rb_first b) d (rb_count b - 1) = Some (rc_last_fire c)
       | (CronTrigger expr tz, CronCadence e z, TypeCron) \<Rightarrow>
           expr = e \<and> tz = z
           \<and> cron_is_valid lib expr \<and> cron_matches lib expr tz (rb_first b)
           \<and> (let minutes = tl_num_minutes lib (rc_last_fire c - rb_first b) in
               minutes \<ge> 0 \<and> rb_count b \<le> sat_add_u64 (nat minutes) 1)
           \<and> cron_walk (cron_next_fire lib expr tz) (rc_last_fire c) (rb_first b) (rb_count b - 1)
       | (CronTrigger _ _, FixedCadence d, TypeCron) \<Rightarrow>
           rb_count b = 1 \<and> d = 0 \<and> rb_first b = rc_last_fire c
       | _ \<Rightarrow> False)"

text \<open>The end of a batch: its checkpoint is dropped and the cursor moves to the end of the batch.\<close>

definition complete_batch :: "recovery_checkpoint \<Rightarrow> recovery_advance \<Rightarrow> schedule_store \<Rightarrow> schedule_store" where
  "complete_batch c a st = (case store_get (rv_schedule a) st of
     None \<Rightarrow> st
   | Some s \<Rightarrow>
       if sc_recovery_pending s \<noteq> Some c then st
       else fst (store_update (s\<lparr>
         sc_last_fire := Some (case sc_last_fire s of None \<Rightarrow> rv_last_fire a | Some t \<Rightarrow> max t (rv_last_fire a)),
         sc_recovery_pending := None\<rparr>) st))"

section \<open>Due times\<close>

text \<open>The reference: the occurrences after a cursor, up to now, by iterating the next fire time.\<close>

function due_times :: "(time \<Rightarrow> time option) \<Rightarrow> time \<Rightarrow> time \<Rightarrow> time list" where
  "due_times nf now at = (case nf at of
     None \<Rightarrow> [] | Some t \<Rightarrow> if t \<le> at \<or> t > now then [] else t # due_times nf now t)"
  by pat_completeness auto
termination
  by (relation "measure (\<lambda>(nf, now, at). nat (now - at))") auto

declare due_times.simps [simp del]

definition trigger_next :: "('c, 'z) time_lib \<Rightarrow> schedule \<Rightarrow> time \<Rightarrow> time option" where
  "trigger_next lib s = (case sc_trigger s of
     CronTrigger expr tz \<Rightarrow> cron_next_fire lib expr tz
   | IntervalTrigger secs \<Rightarrow> interval_next_fire lib secs
   | _ \<Rightarrow> (\<lambda>_. None))"

lemma due_times_Cons:
  "due_times nf now at = t # ts \<Longrightarrow> nf at = Some t \<and> at < t \<and> t \<le> now \<and> ts = due_times nf now t"
  by (subst (asm) due_times.simps) (simp split: option.splits if_splits)

lemma due_times_none: "due_times nf now at = [] \<longleftrightarrow> (\<forall>t. nf at = Some t \<longrightarrow> t \<le> at \<or> now < t)"
  by (subst due_times.simps) (auto split: option.splits)

text \<open>Induction along the due times.\<close>

lemma due_induct [case_names stop step]:
  assumes "\<And>at. due_times nf now at = [] \<Longrightarrow> P at"
    and "\<And>at t. nf at = Some t \<Longrightarrow> at < t \<Longrightarrow> t \<le> now \<Longrightarrow> due_times nf now at = t # due_times nf now t \<Longrightarrow> P t \<Longrightarrow> P at"
  shows "P at"
proof (induction nf \<equiv> nf now \<equiv> now at rule: due_times.induct)
  case (1 at)
  show ?case
  proof (cases "due_times nf now at")
    case (Cons t ts)
    note c = due_times_Cons [OF Cons]
    with Cons have "due_times nf now at = t # due_times nf now t" by simp
    with c 1 [of t] show ?thesis by (intro assms(2) [of at t]) auto
  qed (rule assms(1))
qed

lemma due_times_later: "t \<in> set (due_times nf now at) \<Longrightarrow> at < t \<and> t \<le> now"
  by (induction at rule: due_induct [of nf now]) auto

lemma due_last_ge: "at \<le> List.last (at # due_times nf now at)"
  by (induction at rule: due_induct [of nf now]) auto

lemma due_times_last: "due_times nf now (List.last (at # due_times nf now at)) = []"
  by (induction at rule: due_induct [of nf now]) simp_all

lemma cron_missed_due:
  "count + length (due_times nf now latest) \<le> u64_max \<Longrightarrow>
     cron_missed nf now latest count
       = (count + length (due_times nf now latest), List.last (latest # due_times nf now latest))"
proof (induction latest arbitrary: count rule: due_induct [of nf now])
  case (stop at)
  then show ?case by (subst cron_missed.simps) (auto simp: due_times_none split: option.split)
next
  case (step at t)
  then have "sat_add_u64 count 1 = Suc count" by (simp add: sat_add_u64_def)
  with step show ?case by (subst cron_missed.simps) simp
qed

text \<open>A batch whose own next fire time is \<open>nf\<close> is sent as its first time and the due times after it.\<close>

lemma submit_due:
  assumes "batch_next_fire lib b = nf"
  shows "submit_from lib b at (Suc (length (due_times nf now at))) = (map (trigger_at b) (at # due_times nf now at), True)"
  by (induction at rule: due_induct [of nf now]) (simp_all add: assms)

lemma cron_walk_due:
  "cron_walk nf (List.last (at # due_times nf now at)) at (length (due_times nf now at))"
proof (induction at rule: due_induct [of nf now])
  case (step at t)
  with due_last_ge [of t nf now] show ?case by simp
qed simp

section \<open>Missed occurrences are the due times\<close>

lemma nanos_pos: "0 < nanos"
  by (simp add: nanos_def)

lemma quot_pos: "0 \<le> a \<Longrightarrow> 0 < b \<Longrightarrow> quot a b = a div b"
  by (auto simp: quot_def sgn_if)

lemma max_duration_secs_le: "max_duration_secs \<le> i64_max"
  by (simp add: max_duration_secs_def i64_max_def)

lemma interval_duration_eq:
  assumes "chrono_laws lib lo hi"
  shows "interval_duration lib secs
    = (if secs \<noteq> 0 \<and> int secs \<le> max_duration_secs then Some (int secs * nanos) else None)"
proof -
  have "in_i64 (int secs)" if "int secs \<le> max_duration_secs"
    using that max_duration_secs_le by (simp add: in_i64_def i64_min_def)
  with assms show ?thesis by (auto simp: interval_duration_def chrono_laws_def try_i64_def)
qed

lemma interval_next_fire_eq:
  assumes "chrono_laws lib lo hi" "secs \<noteq> 0" "int secs \<le> max_duration_secs"
  shows "interval_next_fire lib secs = (\<lambda>t. if lo \<le> t + int secs * nanos \<and> t + int secs * nanos \<le> hi
    then Some (t + int secs * nanos) else None)"
  using assms by (auto simp: interval_next_fire_def interval_duration_eq [OF assms(1)] chrono_laws_def)

lemma due_fixed:
  assumes "nf = (\<lambda>t. if lo \<le> t + d \<and> t + d \<le> hi then Some (t + d) else None)" "0 < d" "now \<le> hi" "lo \<le> at"
  shows "length (due_times nf now at) = nat ((now - at) div d)
    \<and> List.last (at # due_times nf now at) = at + int (length (due_times nf now at)) * d"
  using assms(4)
proof (induction at rule: due_induct [of nf now])
  case (stop at)
  then have "now < at + d" using assms(1-3) by (auto simp: due_times_none split: if_splits)
  then have "(now - at) div d \<le> (d - 1) div d" using assms(2) by (intro zdiv_mono1) simp_all
  also have "(d - 1) div d = 0" using assms(2) by (simp add: div_pos_pos_trivial)
  finally have "(now - at) div d \<le> 0" .
  with stop show ?case by simp
next
  case (step at t)
  then have t: "t = at + d" using assms(1) by (simp split: if_splits)
  have "(now - at) div d = (now - t) div d + 1" using assms(2) t by (simp add: div_add_self2 [symmetric])
  moreover have "0 \<le> (now - t) div d" using step assms(2) by (simp add: pos_imp_zdiv_nonneg_iff)
  ultimately have "nat ((now - at) div d) = Suc (nat ((now - t) div d))" by simp
  with step t assms(2) show ?case by (simp add: algebra_simps)
qed

definition cadence_of :: "schedule \<Rightarrow> recovery_cadence" where
  "cadence_of s = (case sc_trigger s of
     IntervalTrigger secs \<Rightarrow> FixedCadence (int secs * nanos)
   | CronTrigger expr tz \<Rightarrow> CronCadence expr tz
   | _ \<Rightarrow> FixedCadence 0)"

definition missed_reference :: "schedule \<Rightarrow> time list \<Rightarrow> (time \<times> recovery_cadence \<times> nat \<times> time) option" where
  "missed_reference s due = (case due of
     [] \<Rightarrow> None | t # ts \<Rightarrow> Some (t, cadence_of s, Suc (length ts), List.last (t # ts)))"

lemma add_intervals_eq:
  assumes laws: "chrono_laws lib lo hi" and n: "0 < secs" "lo \<le> start" "start + int n * (int secs * nanos) \<le> hi"
  shows "add_intervals lib start (int secs * nanos) n = Some (start + int n * (int secs * nanos))"
proof -
  have "int n * int secs * nanos \<le> max_duration_secs * nanos" using laws n by (simp add: chrono_laws_def mult.assoc)
  then have le: "int secs * int n \<le> max_duration_secs" using nanos_pos by (simp add: mult.commute)
  moreover have "int n \<le> int secs * int n" using n(1) mult_right_mono [of 1 "int secs" "int n"] by simp
  ultimately have i: "in_i64 (int n)" "in_i64 (int secs * int n)"
    using max_duration_secs_le unfolding in_i64_def i64_min_def by linarith+
  have num: "tl_num_seconds lib (int secs * nanos) = int secs"
    using laws nanos_pos by (simp add: chrono_laws_def quot_pos)
  have "tl_add lib start (int secs * int n * nanos) = Some (start + int secs * int n * nanos)"
    using laws n nanos_pos by (auto simp: chrono_laws_def algebra_simps intro: order_trans)
  moreover have "tl_seconds lib (int secs * int n) = Some (int secs * int n * nanos)"
    using laws le by (simp add: chrono_laws_def)
  moreover have "int n * (int secs * nanos) = int secs * int n * nanos" by simp
  ultimately show ?thesis
    using i by (simp only: add_intervals_def try_i64_def checked_mul_i64_def num) simp
qed

lemma missed_interval:
  assumes laws: "chrono_laws lib lo hi" and t: "sc_trigger s = IntervalTrigger secs"
    and b: "lo \<le> t0" "now \<le> hi" "t0 \<le> hi" "lo \<le> now"
  shows "missed_occurrences lib s t0 now = missed_reference s (due_times (trigger_next lib s) now t0)"
proof (cases "secs \<noteq> 0 \<and> int secs \<le> max_duration_secs")
  case False
  then have "interval_next_fire lib secs t0 = None" "interval_duration lib secs = None"
    using interval_duration_eq [OF laws, of secs] by (simp_all only: interval_next_fire_def if_False Option.bind.bind_lzero)
  then show ?thesis
    by (simp add: missed_occurrences_def t trigger_next_def missed_reference_def due_times.simps [of _ now t0])
next
  case True
  let ?d = "int secs * nanos" and ?nf = "interval_next_fire lib secs" and ?due = "due_times (interval_next_fire lib secs) now t0"
  have d: "0 < ?d" using True nanos_pos by simp
  note nf = interval_next_fire_eq [OF laws conjunct1 [OF True] conjunct2 [OF True]]
  have due: "length ?due = nat ((now - t0) div ?d)" "List.last (t0 # ?due) = t0 + int (length ?due) * ?d"
    using due_fixed [OF nf d b(2,1)] by simp_all
  show ?thesis
  proof (cases "now - t0 < ?d")
    case short: True
    then have "?due = []" using b by (auto simp: due_times_none nf)
    with short show ?thesis
      using True d by (simp add: missed_occurrences_def t trigger_next_def missed_reference_def interval_duration_eq [OF laws])
  next
    case False
    then have el: "0 \<le> now - t0" "?d \<le> now - t0" using d by linarith+
    have q: "quot (tl_num_seconds lib (now - t0)) (tl_num_seconds lib ?d) = (now - t0) div ?d"
      using laws True el(1) nanos_pos by (simp add: chrono_laws_def quot_pos zdiv_zmult2_eq mult.commute pos_imp_zdiv_nonneg_iff)
    have pos: "0 < (now - t0) div ?d" using el d by (simp add: pos_imp_zdiv_pos_iff)
    have le: "(now - t0) div ?d * ?d \<le> now - t0" using d by (simp add: minus_mod_eq_div_mult [symmetric])
    define n where "n = nat ((now - t0) div ?d)"
    have n: "0 < n" "int n * ?d \<le> now - t0" "int n = (now - t0) div ?d" using pos le by (simp_all add: n_def)
    have latest: "add_intervals lib t0 ?d n = Some (t0 + int n * ?d)"
      using True b n by (intro add_intervals_eq [OF laws]) simp_all
    have "?nf t0 = Some (t0 + ?d)" using el b d by (simp add: nf)
    then have first: "?due = (t0 + ?d) # due_times ?nf now (t0 + ?d)" "tl_add lib t0 ?d = Some (t0 + ?d)"
      using el b d laws by (simp_all add: due_times.simps [of ?nf now t0] chrono_laws_def)
    have "missed_occurrences lib s t0 now = Some (t0 + ?d, FixedCadence ?d, n, t0 + int n * ?d)"
      using True d False q pos latest first(2) by (simp add: missed_occurrences_def t interval_duration_eq [OF laws] n_def Let_def)
    moreover have "Suc (length (due_times ?nf now (t0 + ?d))) = n" "List.last ?due = t0 + int n * ?d"
      using due first(1) n by (simp_all add: n_def)
    ultimately show ?thesis using first(1) by (simp add: trigger_next_def t missed_reference_def cadence_of_def)
  qed
qed

lemma cron_next_later:
  assumes "croner_laws lib" "cron_next_fire lib expr tz t = Some u"
  shows "t < u" "cron_matches lib expr tz u" "cron_matches lib expr tz t \<Longrightarrow> t + 60 * nanos \<le> u"
  using assms unfolding croner_laws_def cron_next_fire_def cron_matches_def
  by (fastforce simp: bind_eq_Some_conv)+

text \<open>Cron occurrences are at least a minute apart, so a batch never has more of them than minutes.\<close>

lemma cron_due_spacing:
  assumes "croner_laws lib" "cron_matches lib expr tz at"
  shows "int (length (due_times (cron_next_fire lib expr tz) now at)) * (60 * nanos)
    \<le> List.last (at # due_times (cron_next_fire lib expr tz) now at) - at"
  using assms(2)
proof (induction at rule: due_induct [of "cron_next_fire lib expr tz" now])
  case (step at t)
  note later = cron_next_later [OF assms(1) step(1)]
  with step show ?case by (simp add: algebra_simps)
qed simp

lemma cron_due_bound:
  assumes "chrono_laws lib lo hi" "croner_laws lib" "cron_matches lib expr tz at" "lo \<le> at" "now \<le> hi"
  shows "Suc (length (due_times (cron_next_fire lib expr tz) now at)) \<le> u64_max"
proof -
  let ?due = "due_times (cron_next_fire lib expr tz) now at"
  show ?thesis
  proof (cases "?due = []")
    case False
    then have "List.last ?due \<le> now" using due_times_later [OF last_in_set] by blast
    then have "int (length ?due) * (60 * nanos) \<le> max_duration_secs * nanos"
      using cron_due_spacing [OF assms(2,3), of now] assms(1,4,5) False by (simp add: chrono_laws_def)
    then have "int (length ?due) * 60 \<le> max_duration_secs" using nanos_pos by (simp add: mult.assoc [symmetric])
    then show ?thesis by (simp add: max_duration_secs_def i64_max_def u64_max_def)
  qed (simp add: u64_max_def)
qed

lemma missed_cron:
  assumes laws: "chrono_laws lib lo hi" "croner_laws lib" and t: "sc_trigger s = CronTrigger expr tz"
    and b: "lo \<le> t0" "now \<le> hi"
  shows "missed_occurrences lib s t0 now = missed_reference s (due_times (trigger_next lib s) now t0)"
proof -
  let ?nf = "cron_next_fire lib expr tz"
  show ?thesis
  proof (cases "due_times ?nf now t0")
    case Nil
    then have "\<forall>u. ?nf t0 = Some u \<longrightarrow> now < u"
      using cron_next_later(1) [OF laws(2), of expr tz t0] by (force simp: due_times_none)
    with Nil show ?thesis
      by (cases "?nf t0") (auto simp: missed_occurrences_def t trigger_next_def missed_reference_def)
  next
    case (Cons u us)
    note c = due_times_Cons [OF Cons]
    have "Suc (length (due_times ?nf now u)) \<le> u64_max"
      using cron_next_later(2) [OF laws(2)] c b by (intro cron_due_bound [OF laws]) auto
    then have "cron_missed ?nf now u 1 = (Suc (length us), List.last (u # us))"
      using cron_missed_due [of 1 ?nf now u] c by simp
    with c Cons show ?thesis
      by (simp add: missed_occurrences_def t trigger_next_def missed_reference_def cadence_of_def)
  qed
qed

definition in_calendar :: "time \<Rightarrow> time \<Rightarrow> schedule \<Rightarrow> bool" where
  "in_calendar lo hi s \<longleftrightarrow> lo \<le> sc_created_at s \<and> sc_created_at s \<le> hi
     \<and> (\<forall>t. sc_last_fire s = Some t \<longrightarrow> lo \<le> t \<and> t \<le> hi)"

lemma missed_due:
  assumes "chrono_laws lib lo hi" "croner_laws lib" "lo \<le> t0" "t0 \<le> hi" "lo \<le> now" "now \<le> hi"
  shows "missed_occurrences lib s t0 now = missed_reference s (due_times (trigger_next lib s) now t0)"
proof (cases "sc_trigger s")
  case (CronTrigger expr tz)
  then show ?thesis using assms by (intro missed_cron) auto
next
  case (IntervalTrigger secs)
  then show ?thesis using assms by (intro missed_interval) auto
qed (simp_all add: missed_occurrences_def trigger_next_def missed_reference_def due_times.simps [of "\<lambda>_. None" now t0])

section \<open>The plan of a registry\<close>

text \<open>Every schedule contributes on its own; the plan is the concatenation of the contributions.\<close>

lemma advance_to_simps [simp]:
  "rp_batches (advance_to s t p) = rp_batches p"
  "rp_advances (advance_to s t p) = rp_advances p @ [\<lparr>rv_schedule = sc_id s, rv_last_fire = t\<rparr>]"
  by (simp_all add: advance_to_def)

lemma plan_never_fired_appends:
  "rp_batches (plan_never_fired lib now s p) = rp_batches p @ rp_batches (plan_never_fired lib now s plan_empty)"
  "rp_advances (plan_never_fired lib now s p) = rp_advances p @ rp_advances (plan_never_fired lib now s plan_empty)"
  by (simp_all add: plan_never_fired_def plan_empty_def Let_def split: trigger_config.split)

lemma plan_missed_appends:
  "rp_batches (plan_missed now s m p) = rp_batches p @ rp_batches (plan_missed now s m plan_empty)"
  "rp_advances (plan_missed now s m p) = rp_advances p @ rp_advances (plan_missed now s m plan_empty)"
  by (simp_all add: plan_missed_def plan_empty_def split: prod.split missed_policy.split)

lemma plan_schedule_appends:
  "rp_batches (plan_schedule lib now p s) = rp_batches p @ rp_batches (plan_schedule lib now plan_empty s)"
  "rp_advances (plan_schedule lib now p s) = rp_advances p @ rp_advances (plan_schedule lib now plan_empty s)"
  by (simp_all add: plan_schedule_def plan_missed_appends [of _ _ _ p] plan_never_fired_appends [of _ _ _ p] split: option.split)
    (simp_all add: plan_empty_def)

lemma plan_empty_simps [simp]: "rp_batches plan_empty = []" "rp_advances plan_empty = []"
  by (simp_all add: plan_empty_def)

lemma foldl_plan:
  "rp_batches (foldl (plan_schedule lib now) p st) = rp_batches p @ concat (map (\<lambda>s. rp_batches (plan_schedule lib now plan_empty s)) st)
   \<and> rp_advances (foldl (plan_schedule lib now) p st) = rp_advances p @ concat (map (\<lambda>s. rp_advances (plan_schedule lib now plan_empty s)) st)"
proof (induction st arbitrary: p)
  case (Cons s st)
  show ?case using Cons.IH [of "plan_schedule lib now p s"] plan_schedule_appends [of lib now p s] by simp
qed simp

lemma recover_missed_concat:
  "rp_batches (recover_missed lib st now) = concat (map (\<lambda>s. rp_batches (recover_missed lib [s] now)) st)"
  "rp_advances (recover_missed lib st now) = concat (map (\<lambda>s. rp_advances (recover_missed lib [s] now)) st)"
  using foldl_plan [of lib now plan_empty st] by (simp_all add: recover_missed_def)

text \<open>The contribution of a recurring schedule with a cursor, from its due times.\<close>

definition due_of :: "('c, 'z) time_lib \<Rightarrow> schedule \<Rightarrow> time \<Rightarrow> time list" where
  "due_of lib s now = (case cursor_of s of None \<Rightarrow> [] | Some t \<Rightarrow> due_times (trigger_next lib s) now t)"

definition backfill_batch :: "schedule \<Rightarrow> time list \<Rightarrow> recovery_batch" where
  "backfill_batch s due = \<lparr>rb_schedule = sc_id s, rb_first = hd due, rb_cadence = cadence_of s,
     rb_count = length due, rb_type = trigger_type_of s\<rparr>"

lemma cursor_in_calendar: "in_calendar lo hi s \<Longrightarrow> cursor_of s = Some t \<Longrightarrow> lo \<le> t \<and> t \<le> hi"
  by (auto simp: in_calendar_def cursor_of_def split: option.splits if_splits)

lemma contribution:
  assumes "chrono_laws lib lo hi" "croner_laws lib" "in_calendar lo hi s" "lo \<le> now" "now \<le> hi"
    and "sc_enabled s" "sc_recovery_pending s = None" "cursor_of s = Some t0"
  shows "recover_missed lib [s] now = (case due_of lib s now of
      [] \<Rightarrow> plan_empty
    | t # ts \<Rightarrow> plan_missed now s (t, cadence_of s, Suc (length ts), List.last (t # ts)) plan_empty)"
proof -
  have "missed_occurrences lib s t0 now = missed_reference s (due_of lib s now)"
    using missed_due [OF assms(1,2)] cursor_in_calendar [OF assms(3,8)] assms(4,5,8) by (simp add: due_of_def)
  with assms show ?thesis
    by (simp add: recover_missed_def plan_schedule_def missed_reference_def split: list.split)
qed

lemma cadence_next:
  assumes "chrono_laws lib lo hi" "rb_cadence b = cadence_of s" "due_times (trigger_next lib s) now t0 \<noteq> []"
  shows "batch_next_fire lib b = trigger_next lib s"
proof (cases "sc_trigger s")
  case (IntervalTrigger secs)
  obtain t ts where "due_times (interval_next_fire lib secs) now t0 = t # ts"
    using assms(3) IntervalTrigger by (cases "due_times (interval_next_fire lib secs) now t0") (auto simp: trigger_next_def)
  then have "interval_next_fire lib secs t0 \<noteq> None" using due_times_Cons by fastforce
  then have "interval_duration lib secs = Some (int secs * nanos)"
    by (auto simp: interval_next_fire_def interval_duration_eq [OF assms(1)] split: if_splits)
  with assms IntervalTrigger show ?thesis
    by (auto simp: batch_next_fire_def cadence_of_def trigger_next_def interval_next_fire_def)
next
  case (CronTrigger expr tz)
  with assms show ?thesis by (auto simp: batch_next_fire_def cadence_of_def trigger_next_def)
qed (use assms(3) in \<open>auto simp: trigger_next_def due_times.simps [of "\<lambda>_. None" now t0]\<close>)

lemma submit_backfill:
  assumes "chrono_laws lib lo hi" "due_of lib s now = t # ts"
  shows "submit_batch lib (backfill_batch s (t # ts)) = (map (trigger_at (backfill_batch s (t # ts))) (t # ts), True)"
proof -
  obtain t0 where t0: "cursor_of s = Some t0" "due_times (trigger_next lib s) now t0 = t # ts"
    using assms(2) by (auto simp: due_of_def split: option.splits)
  then have "ts = due_times (trigger_next lib s) now t" by (auto dest: due_times_Cons)
  moreover have "batch_next_fire lib (backfill_batch s (t # ts)) = trigger_next lib s"
    using t0(2) by (intro cadence_next [OF assms(1), of _ s now t0]) (simp_all add: backfill_batch_def)
  ultimately show ?thesis
    using submit_due [of lib "backfill_batch s (t # ts)" "trigger_next lib s" t now]
    by (simp add: submit_batch_def backfill_batch_def)
qed

section \<open>Recovery exhausts what is due\<close>

lemma trigger_next_later:
  assumes "chrono_laws lib lo hi" "croner_laws lib" "trigger_next lib s t = Some u"
  shows "t < u"
proof (cases "sc_trigger s")
  case (IntervalTrigger secs)
  with assms show ?thesis
    using nanos_pos interval_duration_eq [OF assms(1), of secs]
    by (auto simp: trigger_next_def interval_next_fire_def chrono_laws_def split: if_splits)
next
  case (CronTrigger expr tz)
  with assms cron_next_later(1) [OF assms(2)] show ?thesis by (auto simp: trigger_next_def)
qed (use assms(3) in \<open>auto simp: trigger_next_def\<close>)

lemma due_now: "chrono_laws lib lo hi \<Longrightarrow> croner_laws lib \<Longrightarrow> due_times (trigger_next lib s) now now = []"
  using trigger_next_later by (fastforce simp: due_times_none)

lemma should_fire_due:
  assumes "chrono_laws lib lo hi" "croner_laws lib" "cursor_of s = Some t0"
  shows "should_fire lib s now \<longleftrightarrow> due_of lib s now \<noteq> []"
proof -
  have "due_by now (trigger_next lib s t0) \<longleftrightarrow> due_times (trigger_next lib s) now t0 \<noteq> []"
    using trigger_next_later [OF assms(1,2), of s t0] by (fastforce simp: due_times_none due_by_def split: option.splits)
  with assms(3) show ?thesis
    by (auto simp: should_fire_def due_of_def trigger_next_def cursor_of_def is_cron_def due_by_def
        split: trigger_config.splits option.splits if_splits)
qed

definition advanced :: "recovery_advance list \<Rightarrow> schedule \<Rightarrow> schedule" where
  "advanced as s = foldl (\<lambda>s a. if rv_schedule a = sc_id s then advance_last_fire (rv_last_fire a) s else s) s as"

lemma advance_last_fire_keeps [simp]:
  "sc_id (advance_last_fire t s) = sc_id s" "sc_trigger (advance_last_fire t s) = sc_trigger s"
  "sc_enabled (advance_last_fire t s) = sc_enabled s" "sc_recovery_pending (advance_last_fire t s) = sc_recovery_pending s"
  by (simp_all add: advance_last_fire_def)

lemma modify_first_distinct:
  assumes "distinct (map sc_id st)"
  shows "modify_first i f st = map (\<lambda>s. if sc_id s = i then f s else s) st"
  using assms
proof (induction st)
  case (Cons s st)
  moreover have "map (\<lambda>x. if sc_id x = sc_id s then f x else x) st = st"
    using Cons.prems by (intro map_idI) (metis distinct.simps(2) image_eqI list.simps(9) set_map)
  ultimately show ?case by (cases "sc_id s = i") auto
qed simp

lemma apply_advances_map:
  "distinct (map sc_id st) \<Longrightarrow> foldl apply_advance st as = map (advanced as) st"
proof (induction as arbitrary: st)
  case Nil
  then show ?case by (simp add: advanced_def map_idI)
next
  case (Cons a as)
  let ?g = "\<lambda>s. if rv_schedule a = sc_id s then advance_last_fire (rv_last_fire a) s else s"
  have "apply_advance st a = map ?g st"
    using Cons.prems by (simp add: apply_advance_def update_last_fire_def modify_first_distinct eq_commute)
  moreover have "map sc_id (map ?g st) = map sc_id st" by simp
  then have "foldl apply_advance (map ?g st) as = map (advanced as) (map ?g st)"
    using Cons.prems by (intro Cons.IH) metis
  moreover have "advanced (a # as) = (\<lambda>s. advanced as (?g s))" by (rule ext) (simp add: advanced_def)
  ultimately show ?case by (simp add: comp_def)
qed

lemma advanced_filter: "advanced as s = advanced (filter (\<lambda>a. rv_schedule a = sc_id s) as) s"
proof (induction as arbitrary: s)
  case (Cons a as)
  show ?case using Cons.IH [of s] Cons.IH [of "advance_last_fire (rv_last_fire a) s"] by (simp add: advanced_def)
qed simp

lemma contribution_ids: "a \<in> set (rp_advances (recover_missed lib [s] now)) \<Longrightarrow> rv_schedule a = sc_id s"
  by (auto simp: recover_missed_def plan_schedule_def plan_never_fired_def plan_missed_def Let_def
      split: if_splits option.splits trigger_config.splits prod.splits missed_policy.splits)

lemma filter_contributions:
  assumes "distinct (map sc_id st)" "s \<in> set st"
  shows "filter (\<lambda>a. rv_schedule a = sc_id s) (rp_advances (recover_missed lib st now)) = rp_advances (recover_missed lib [s] now)"
proof -
  have own: "filter (\<lambda>a. rv_schedule a = sc_id s) (rp_advances (recover_missed lib [x] now))
      = (if sc_id x = sc_id s then rp_advances (recover_missed lib [x] now) else [])" for x
    using contribution_ids [of _ lib x now] by (auto intro!: filter_True simp: filter_empty_conv)
  have "concat (map (\<lambda>x. if sc_id x = sc_id s then f x else []) st) = f s" for f :: "schedule \<Rightarrow> recovery_advance list"
    using assms
  proof (induction st)
    case (Cons x xs)
    have "concat (map (\<lambda>x. if sc_id x = sc_id s then f x else []) xs) = []" if "sc_id s \<notin> sc_id ` set xs"
      using that by (auto simp: image_iff)
    with Cons show ?case by (cases "x = s") auto
  qed simp
  from this [of "\<lambda>x. rp_advances (recover_missed lib [x] now)"] show ?thesis
    by (simp add: recover_missed_concat(2) [of lib st now] filter_concat comp_def own)
qed

lemma advanced_one:
  "advanced [\<lparr>rv_schedule = sc_id s, rv_last_fire = t\<rparr>] s = advance_last_fire t s"
  by (simp add: advanced_def)

lemma cursor_advanced:
  assumes "cursor_of s = Some t0" "t0 \<le> t"
  shows "cursor_of (advance_last_fire t s) = Some t"
  using assms by (auto simp: cursor_of_def advance_last_fire_max max_def split: option.splits if_splits)

lemma exhausted:
  assumes laws: "chrono_laws lib lo hi" "croner_laws lib" and c: "in_calendar lo hi s" "lo \<le> now" "now \<le> hi"
    and p: "sc_recovery_pending s = None"
  shows "evaluate_trigger lib (advanced (rp_advances (recover_missed lib [s] now)) s) now = None"
proof (cases "sc_enabled s")
  case False
  with p have "recover_missed lib [s] now = plan_empty" by (simp add: recover_missed_def plan_schedule_def)
  with False show ?thesis by (simp add: evaluate_trigger_def advanced_def)
next
  case en: True
  show ?thesis
  proof (cases "cursor_of s")
    case None
    then have l: "sc_last_fire s = None" by (auto simp: cursor_of_def split: option.splits)
    have due: "\<not> due_by now (interval_next_fire lib secs now)" if "sc_trigger s = IntervalTrigger secs" for secs
      using that trigger_next_later [OF laws, of s now]
      by (cases "interval_next_fire lib secs now") (auto simp: due_by_def trigger_next_def)
    from None l due en p show ?thesis
      by (auto simp: recover_missed_def plan_schedule_def plan_never_fired_def Let_def advanced_one advanced_def
          evaluate_trigger_def should_fire_def one_time_should_fire_def cursor_of_def is_cron_def advance_last_fire_max
          split: trigger_config.splits option.splits if_splits)
  next
    case (Some t0)
    note con = contribution [OF laws c en p Some]
    show ?thesis
    proof (cases "due_of lib s now")
      case Nil
      with con should_fire_due [OF laws Some, of now] show ?thesis by (simp add: advanced_def evaluate_trigger_def)
    next
      case (Cons t ts)
      then have due: "due_times (trigger_next lib s) now t0 = t # ts" by (simp add: due_of_def Some)
      define l where "l = (if effective_missed_policy (sc_policies s) = CatchUp then now else List.last (t # ts))"
      have "rp_advances (recover_missed lib [s] now) = [\<lparr>rv_schedule = sc_id s, rv_last_fire = l\<rparr>]"
        using con Cons by (simp add: plan_missed_def l_def split: missed_policy.split)
      then have adv: "advanced (rp_advances (recover_missed lib [s] now)) s = advance_last_fire l s" by (simp add: advanced_one)
      have lastin: "List.last (t # ts) \<in> set (due_times (trigger_next lib s) now t0)" by (simp only: due) (rule last_in_set, simp)
      then have "t0 < l" using due_times_later [OF lastin] by (auto simp: l_def)
      then have "cursor_of (advance_last_fire l s) = Some l" by (intro cursor_advanced [OF Some]) simp
      moreover have "due_times (trigger_next lib s) now l = []"
        using due_times_last [of "trigger_next lib s" now t0] due_now [OF laws] by (simp add: l_def due)
      moreover have "trigger_next lib (advance_last_fire l s) = trigger_next lib s" by (simp add: trigger_next_def)
      ultimately have "\<not> should_fire lib (advance_last_fire l s) now"
        by (simp add: should_fire_due [OF laws, of _ l] due_of_def)
      with adv show ?thesis by (simp add: evaluate_trigger_def)
    qed
  qed
qed

section \<open>Checkpoints are valid\<close>

lemma matches_single:
  assumes "is_cron (sc_trigger s) \<or> (\<exists>secs. sc_trigger s = IntervalTrigger secs)"
  shows "matches_schedule lib \<lparr>rc_batch = batch_single s now, rc_last_fire = now\<rparr> s"
  using assms by (auto simp: matches_schedule_def matches_identity_def batch_single_def trigger_type_of_def is_cron_def
      split: trigger_config.splits)

lemma matches_backfill_interval:
  assumes laws: "chrono_laws lib lo hi" and t: "sc_trigger s = IntervalTrigger secs" and b: "lo \<le> t0" "now \<le> hi"
    and due: "due_times (trigger_next lib s) now t0 = t # ts"
  shows "matches_schedule lib \<lparr>rc_batch = backfill_batch s (t # ts), rc_last_fire = List.last (t # ts)\<rparr> s"
proof -
  let ?d = "int secs * nanos" and ?nf = "interval_next_fire lib secs"
  have due': "due_times ?nf now t0 = t # ts" using due t by (simp add: trigger_next_def)
  note c = due_times_Cons [OF due']
  have secs: "secs \<noteq> 0" "int secs \<le> max_duration_secs"
    using c by (auto simp: interval_next_fire_def interval_duration_eq [OF laws] split: if_splits)
  have d: "0 < ?d" using secs nanos_pos by simp
  have "length (t # ts) = length (due_times ?nf now t0)" by (simp only: due')
  note fixed = due_fixed [OF interval_next_fire_eq [OF laws secs] d b(2), of t0]
  have first: "t = t0 + ?d" using c by (simp add: interval_next_fire_eq [OF laws secs] split: if_splits)
  have last: "List.last (t # ts) = t + int (length ts) * ?d"
    using fixed b(1) due' first by (simp add: algebra_simps)
  have "List.last (t # ts) \<in> set (due_times ?nf now t0)" by (simp only: due') (rule last_in_set, simp)
  then have le: "List.last (t # ts) \<le> hi" using due_times_later b(2) by fastforce
  have "add_intervals lib t ?d (length ts) = Some (List.last (t # ts))"
    unfolding last using le secs b(1) d first unfolding last by (intro add_intervals_eq [OF laws]) simp_all
  moreover have "t \<le> List.last (t # ts)" using due_last_ge [of t ?nf now] c by simp
  moreover have "interval_duration lib secs = Some ?d" using secs by (simp add: interval_duration_eq [OF laws])
  ultimately show ?thesis
    using t d by (cases "ts = []") (simp_all add: matches_schedule_def matches_identity_def backfill_batch_def cadence_of_def trigger_type_of_def)
qed

lemma matches_backfill_cron:
  assumes laws: "chrono_laws lib lo hi" "croner_laws lib" and t: "sc_trigger s = CronTrigger expr tz" and b: "lo \<le> t0" "now \<le> hi"
    and due: "due_times (trigger_next lib s) now t0 = t # ts"
  shows "matches_schedule lib \<lparr>rc_batch = backfill_batch s (t # ts), rc_last_fire = List.last (t # ts)\<rparr> s"
proof -
  let ?nf = "cron_next_fire lib expr tz"
  have due': "due_times ?nf now t0 = t # ts" using due t by (simp add: trigger_next_def)
  have c: "?nf t0 = Some t" "t0 < t" "t \<le> now" and ts: "due_times ?nf now t = ts" using due_times_Cons [OF due'] by simp_all
  have m: "cron_matches lib expr tz t" by (rule cron_next_later(2) [OF laws(2) c(1)])
  have valid: "cron_is_valid lib expr" using m by (auto simp: cron_matches_def cron_is_valid_def split: option.splits)
  have ge: "t \<le> List.last (t # ts)" using due_last_ge [of t ?nf now] ts by simp
  have "int (length ts) * (60 * nanos) \<le> List.last (t # ts) - t" using cron_due_spacing [OF laws(2) m, of now] ts by simp
  then have "int (length ts) * (60 * nanos) div (60 * nanos) \<le> (List.last (t # ts) - t) div (60 * nanos)"
    using nanos_pos by (intro zdiv_mono1) simp_all
  then have minutes: "int (length ts) \<le> tl_num_minutes lib (List.last (t # ts) - t)"
    using laws(1) ge nanos_pos by (simp add: chrono_laws_def quot_pos)
  have "Suc (length ts) \<le> u64_max" using cron_due_bound [OF laws m, of now] c b ts by simp
  with minutes have "Suc (length ts) \<le> sat_add_u64 (nat (tl_num_minutes lib (List.last (t # ts) - t))) 1"
    by (simp add: sat_add_u64_def nat_le_iff le_nat_iff)
  moreover have "0 \<le> tl_num_minutes lib (List.last (t # ts) - t)" using minutes by linarith
  moreover have "cron_walk ?nf (List.last (t # ts)) t (length ts)" using cron_walk_due [of ?nf t now] ts by simp
  ultimately show ?thesis
    using t m valid ge
    by (simp add: matches_schedule_def matches_identity_def backfill_batch_def cadence_of_def trigger_type_of_def Let_def
        del: last.simps)
qed

lemma contribution_checkpoint:
  assumes laws: "chrono_laws lib lo hi" "croner_laws lib" and c: "in_calendar lo hi s" "lo \<le> now" "now \<le> hi"
    and ok: "\<forall>cp. sc_recovery_pending s = Some cp \<longrightarrow> matches_schedule lib cp s"
    and one: "\<not> (sc_enabled s \<and> is_one_time (sc_trigger s))"
    and b: "b \<in> set (rp_batches (recover_missed lib [s] now))" and a: "a \<in> set (rp_advances (recover_missed lib [s] now))"
  shows "matches_schedule lib \<lparr>rc_batch = b, rc_last_fire = rv_last_fire a\<rparr> s"
proof (cases "sc_recovery_pending s")
  case (Some cp)
  with a b have "b = rc_batch cp" "rv_last_fire a = rc_last_fire cp" by (auto simp: recover_missed_def plan_schedule_def)
  then show ?thesis using ok Some by (cases cp) simp
next
  case None
  then have en: "sc_enabled s" using b by (auto simp: recover_missed_def plan_schedule_def split: if_splits)
  show ?thesis
  proof (cases "cursor_of s")
    case n: None
    then have "b = batch_single s now \<and> rv_last_fire a = now \<and> (\<exists>secs. sc_trigger s = IntervalTrigger secs)"
      using a b None en one
      by (auto simp: recover_missed_def plan_schedule_def plan_never_fired_def cursor_of_def is_cron_def is_one_time_def Let_def
          split: trigger_config.splits if_splits option.splits)
    then show ?thesis by (auto intro: matches_single)
  next
    case (Some t0)
    then obtain t ts where due: "due_times (trigger_next lib s) now t0 = t # ts"
      and p: "recover_missed lib [s] now = plan_missed now s (t, cadence_of s, Suc (length ts), List.last (t # ts)) plan_empty"
      using contribution [OF laws c en None Some] b by (auto simp: due_of_def split: list.splits)
    have t0: "lo \<le> t0" using cursor_in_calendar [OF c(1) Some] by simp
    have tr: "is_cron (sc_trigger s) \<or> (\<exists>secs. sc_trigger s = IntervalTrigger secs)"
      using due by (cases "sc_trigger s") (auto simp: trigger_next_def is_cron_def due_times.simps [of "\<lambda>_. None" now t0])
    have bf: "matches_schedule lib \<lparr>rc_batch = backfill_batch s (t # ts), rc_last_fire = List.last (t # ts)\<rparr> s"
      using matches_backfill_interval [OF laws(1) _ t0 c(3) due] matches_backfill_cron [OF laws _ t0 c(3) due] tr
      by (auto simp: is_cron_def split: trigger_config.splits)
    show ?thesis
      using a b p bf matches_single [OF tr]
      by (auto simp: plan_missed_def backfill_batch_def simp del: last.simps split: missed_policy.splits)
  qed
qed

text \<open>Preparation only touches cursors and checkpoints.\<close>

definition identities :: "schedule_store \<Rightarrow> (string \<times> trigger_config) list" where
  "identities st = map (\<lambda>s. (sc_id s, sc_trigger s)) st"

lemma modify_first_identities:
  "(\<And>x. x \<in> set st \<Longrightarrow> sc_id x = i \<Longrightarrow> sc_id (f x) = sc_id x \<and> sc_trigger (f x) = sc_trigger x) \<Longrightarrow>
     identities (modify_first i f st) = identities st"
  by (induction st) (auto simp: identities_def)

lemma identities_ids: "identities st' = identities st \<Longrightarrow> map sc_id st' = map sc_id st"
  unfolding identities_def by (metis (no_types, lifting) fst_conv list.map_comp comp_def map_eq_conv)

definition checkpoints_ok :: "('c, 'z) time_lib \<Rightarrow> schedule_store \<Rightarrow> bool" where
  "checkpoints_ok lib st \<longleftrightarrow> (\<forall>s\<in>set st. \<forall>cp. sc_recovery_pending s = Some cp \<longrightarrow> matches_schedule lib cp s)"

lemma matches_schedule_cong:
  "sc_id s' = sc_id s \<Longrightarrow> sc_trigger s' = sc_trigger s \<Longrightarrow> matches_schedule lib cp s' = matches_schedule lib cp s"
  by (simp add: matches_schedule_def matches_identity_def)

lemma set_modify_first: "x \<in> set (modify_first i f st) \<Longrightarrow> x \<in> set st \<or> (\<exists>y\<in>set st. sc_id y = i \<and> x = f y)"
  by (induction st) (auto split: if_splits)

lemma matches_schedule_advance: "matches_schedule lib cp (advance_last_fire t s) = matches_schedule lib cp s"
  by (rule matches_schedule_cong) simp_all

lemma apply_advance_keeps:
  "identities (apply_advance st a) = identities st" "checkpoints_ok lib st \<Longrightarrow> checkpoints_ok lib (apply_advance st a)"
proof -
  show "identities (apply_advance st a) = identities st"
    unfolding apply_advance_def update_last_fire_def by (rule modify_first_identities) simp
  show "checkpoints_ok lib (apply_advance st a)" if "checkpoints_ok lib st"
    using that unfolding apply_advance_def update_last_fire_def checkpoints_ok_def
    by (auto simp: matches_schedule_advance dest!: set_modify_first)
qed

lemma apply_advances_keep:
  "checkpoints_ok lib st \<Longrightarrow>
     identities (foldl apply_advance st as) = identities st \<and> checkpoints_ok lib (foldl apply_advance st as)"
  by (induction as arbitrary: st) (simp_all add: apply_advance_keeps)

lemma identities_trigger:
  assumes "identities st' = identities st" "distinct (map sc_id st)" "s' \<in> set st'" "s \<in> set st" "sc_id s' = sc_id s"
  shows "sc_trigger s' = sc_trigger s"
proof -
  have "(sc_id s', sc_trigger s') \<in> set (identities st)" unfolding assms(1) [symmetric] using assms(3) by (simp add: identities_def)
  then obtain y where "y \<in> set st" "sc_id y = sc_id s'" "sc_trigger y = sc_trigger s'" by (auto simp: identities_def)
  with assms(2,4,5) show ?thesis by (metis distinct_map inj_on_def)
qed

lemma mark_batch_keeps:
  assumes "distinct (map sc_id st0)" "identities st = identities st0" "checkpoints_ok lib st"
    and "\<And>a. find (\<lambda>a. rv_schedule a = rb_schedule b) held = Some a \<Longrightarrow>
      \<exists>s0\<in>set st0. sc_id s0 = rb_schedule b \<and> matches_schedule lib \<lparr>rc_batch = b, rc_last_fire = rv_last_fire a\<rparr> s0"
  shows "identities (mark_batch held st b) = identities st0 \<and> checkpoints_ok lib (mark_batch held st b)"
proof (cases "store_get (rb_schedule b) st")
  case None
  with assms show ?thesis by (simp add: mark_batch_def)
next
  case (Some s)
  show ?thesis
  proof (cases "find (\<lambda>a. rv_schedule a = rb_schedule b) held")
    case None
    with Some assms show ?thesis by (simp add: mark_batch_def)
  next
    case (Some a)
    then obtain s0 where s0: "s0 \<in> set st0" "sc_id s0 = rb_schedule b"
      and m: "matches_schedule lib \<lparr>rc_batch = b, rc_last_fire = rv_last_fire a\<rparr> s0" using assms(4) by blast
    let ?new = "s\<lparr>sc_recovery_pending := Some \<lparr>rc_batch = b, rc_last_fire = rv_last_fire a\<rparr>\<rparr>"
    have s: "s \<in> set st" "sc_id s = rb_schedule b" "store_get (sc_id ?new) st = Some s"
      using \<open>store_get (rb_schedule b) st = Some s\<close> registry.lookup_key [of "rb_schedule b" st s]
      by (auto simp: store_get_def dest: find_Some_iff_first)
    have tr: "sc_trigger x = sc_trigger s0" if "x \<in> set st" "sc_id x = sc_id s" for x
      using identities_trigger [OF assms(2,1) that(1) s0(1)] that s0(2) s(2) by simp
    have eq: "mark_batch held st b = modify_first (sc_id s) (\<lambda>_. ?new) st"
      using \<open>store_get (rb_schedule b) st = Some s\<close> Some s(3) by (simp add: mark_batch_def store_update_def)
    have "matches_schedule lib \<lparr>rc_batch = b, rc_last_fire = rv_last_fire a\<rparr> ?new"
      using m tr [OF s(1) refl] s0(2) s(2) by (simp add: matches_schedule_cong [of ?new s0])
    then have "checkpoints_ok lib (mark_batch held st b)"
      using assms(3) unfolding eq checkpoints_ok_def by (auto dest!: set_modify_first)
    moreover have "identities (mark_batch held st b) = identities st0"
      unfolding eq assms(2) [symmetric] using tr s(1) by (intro modify_first_identities) auto
    ultimately show ?thesis by simp
  qed
qed

lemma mark_batches_keep:
  assumes "distinct (map sc_id st0)" "identities st = identities st0" "checkpoints_ok lib st"
    and "\<And>b a. b \<in> set bs \<Longrightarrow> find (\<lambda>a. rv_schedule a = rb_schedule b) held = Some a \<Longrightarrow>
      \<exists>s0\<in>set st0. sc_id s0 = rb_schedule b \<and> matches_schedule lib \<lparr>rc_batch = b, rc_last_fire = rv_last_fire a\<rparr> s0"
  shows "checkpoints_ok lib (foldl (mark_batch held) st bs)"
  using assms(2-4)
proof (induction bs arbitrary: st)
  case (Cons b bs)
  have "identities (mark_batch held st b) = identities st0 \<and> checkpoints_ok lib (mark_batch held st b)"
    by (rule mark_batch_keeps [OF assms(1) Cons.prems(1,2)]) (rule Cons.prems(3), simp)
  with Cons show ?case by simp
qed simp

lemma matches_schedule_id: "matches_schedule lib cp s \<Longrightarrow> rb_schedule (rc_batch cp) = sc_id s"
  unfolding matches_schedule_def matches_identity_def Let_def by meson

lemma contribution_batch_id:
  assumes "\<forall>cp. sc_recovery_pending s = Some cp \<longrightarrow> matches_schedule lib cp s"
    and "b \<in> set (rp_batches (recover_missed lib [s] now))"
  shows "rb_schedule b = sc_id s"
  using assms
  by (auto simp: recover_missed_def plan_schedule_def plan_never_fired_def plan_missed_def batch_single_def Let_def
      dest: matches_schedule_id
      split: if_splits option.splits trigger_config.splits prod.splits missed_policy.splits)

section \<open>The first tick after preparation\<close>

lemma contribution_shape:
  fixes lib now s
  defines "p \<equiv> recover_missed lib [s] now"
  assumes "sc_recovery_pending s = None"
  shows "(rp_advances p = [] \<and> rp_batches p = []) \<or>
    (\<exists>t. rp_advances p = [\<lparr>rv_schedule = sc_id s, rv_last_fire = t\<rparr>]
       \<and> (rp_batches p = [] \<or> (\<exists>b. rp_batches p = [b] \<and> rb_schedule b = sc_id s)))"
  unfolding p_def using assms(2)
  by (auto simp: recover_missed_def plan_schedule_def plan_never_fired_def plan_missed_def batch_single_def Let_def
      split: option.split trigger_config.split prod.split missed_policy.split)

text \<open>What marking does to the schedule of an id: the checkpoint ends where the held cursor does.\<close>

definition marked_from :: "recovery_advance list \<Rightarrow> recovery_batch list \<Rightarrow> schedule \<Rightarrow> schedule \<Rightarrow> bool" where
  "marked_from held bs s s' \<longleftrightarrow> (\<exists>p. s' = s\<lparr>sc_recovery_pending := p\<rparr> \<and>
     (if sc_id s \<in> rb_schedule ` set bs \<and> find (\<lambda>a. rv_schedule a = sc_id s) held \<noteq> None
      then map_option rc_last_fire p = map_option rv_last_fire (find (\<lambda>a. rv_schedule a = sc_id s) held)
      else p = sc_recovery_pending s))"

lemma mark_batch_get:
  "store_get k (mark_batch held st b) = (if k = rb_schedule b
     then (case find (\<lambda>a. rv_schedule a = k) held of
             None \<Rightarrow> store_get k st
           | Some a \<Rightarrow> map_option (\<lambda>s. s\<lparr>sc_recovery_pending := Some \<lparr>rc_batch = b, rc_last_fire = rv_last_fire a\<rparr>\<rparr>) (store_get k st))
     else store_get k st)"
proof -
  have put: "store_get j (modify_first i (\<lambda>_. x) st) = (if j = i \<and> store_get i st \<noteq> None then Some x else store_get j st)"
    if "sc_id x = i" for i j x using that by (induction st) (auto simp: store_get_def)
  show ?thesis
    using registry.lookup_key [of "rb_schedule b" st]
    by (auto simp: mark_batch_def store_update_def put split: option.split)
qed

lemma mark_batches_get:
  assumes "store_get k st = Some s"
  shows "\<exists>s'. store_get k (foldl (mark_batch held) st bs) = Some s' \<and> marked_from held bs s s'"
proof (induction bs rule: rev_induct)
  case Nil
  with assms show ?case by (auto simp: marked_from_def)
next
  case (snoc b bs)
  have k: "sc_id s = k" using registry.lookup_key [OF assms] .
  obtain s' where s': "store_get k (foldl (mark_batch held) st bs) = Some s'" "marked_from held bs s s'" using snoc by blast
  show ?case
  proof (cases "k = rb_schedule b \<and> find (\<lambda>a. rv_schedule a = k) held \<noteq> None")
    case True
    then obtain a where "find (\<lambda>a. rv_schedule a = k) held = Some a" by blast
    with s' True k show ?thesis by (auto simp: mark_batch_get marked_from_def)
  next
    case False
    with s' k show ?thesis by (auto simp: mark_batch_get marked_from_def split: option.splits)
  qed
qed

lemma ids_modify_first: "(\<And>x. sc_id x = i \<Longrightarrow> sc_id (f x) = i) \<Longrightarrow> map sc_id (modify_first i f st) = map sc_id st"
  by (induction st) auto

lemma ids_mark_batch: "map sc_id (mark_batch held st b) = map sc_id st"
  using registry.lookup_key [of "rb_schedule b" st]
  by (auto simp: mark_batch_def store_update_def intro!: ids_modify_first split: option.split)

lemma ids_mark_batches: "map sc_id (foldl (mark_batch held) st bs) = map sc_id st"
  by (induction bs arbitrary: st) (simp_all add: ids_mark_batch)

lemma store_get_member: "distinct (map sc_id st) \<Longrightarrow> s \<in> set st \<Longrightarrow> store_get (sc_id s) st = Some s"
  by (induction st) (auto simp: store_get_def image_iff)

lemma advanced_id [simp]: "sc_id (advanced as s) = sc_id s"
  by (induction as arbitrary: s) (simp_all add: advanced_def)

lemma evaluate_trigger_cong:
  "sc_id s' = sc_id s \<Longrightarrow> sc_enabled s' = sc_enabled s \<Longrightarrow> sc_trigger s' = sc_trigger s \<Longrightarrow> sc_created_at s' = sc_created_at s \<Longrightarrow>
     sc_last_fire s' = sc_last_fire s \<Longrightarrow> evaluate_trigger lib s' now = evaluate_trigger lib s now"
  by (simp only: evaluate_trigger_def should_fire_def trigger_type_of_def)

lemma find_filter_hd: "find P xs = (case filter P xs of [] \<Rightarrow> None | x # _ \<Rightarrow> Some x)"
  by (induction xs) auto

lemma covered_marked:
  assumes "sc_recovery_pending s = None" "filter (\<lambda>a. rv_schedule a = sc_id s) (held @ sk) = as"
    and "as = [] \<or> (\<exists>a. as = [a])"
    and "filter (\<lambda>a. rv_schedule a = sc_id s) (if sc_id s \<in> rb_schedule ` set bs then sk else held) = []"
    and "marked_from held bs (advanced sk s) s'"
  shows "evaluate_trigger lib (covered s') now = evaluate_trigger lib (advanced as s) now"
proof -
  have keep: "sc_recovery_pending (advanced xs s) = sc_recovery_pending s" "sc_enabled (advanced xs s) = sc_enabled s"
    "sc_trigger (advanced xs s) = sc_trigger s" "sc_created_at (advanced xs s) = sc_created_at s" for xs
    by (induction xs arbitrary: s) (simp_all add: advanced_def advance_last_fire_def)
  show ?thesis
  proof (cases "sc_id s \<in> rb_schedule ` set bs")
    case False
    then have "filter (\<lambda>a. rv_schedule a = sc_id s) sk = as" using assms(2,4) by simp
    then have "advanced sk s = advanced as s" using advanced_filter [of sk s] by simp
    with assms(5,1) keep(1) [of sk] False show ?thesis by (auto simp: marked_from_def covered_def)
  next
    case True
    then have h: "filter (\<lambda>a. rv_schedule a = sc_id s) held = as" "advanced sk s = s"
      using assms(2,4) advanced_filter [of sk s] by (simp_all add: advanced_def)
    from assms(3) show ?thesis
    proof
      assume "as = []"
      with h assms(1,5) show ?thesis
        by (auto simp: marked_from_def find_filter_hd covered_def advanced_def intro!: evaluate_trigger_cong)
    next
      assume "\<exists>a. as = [a]"
      then obtain a where a: "as = [a]" by blast
      then have "a \<in> set (filter (\<lambda>a. rv_schedule a = sc_id s) held)" using h(1) by simp
      then have r: "rv_schedule a = sc_id s" by simp
      obtain q where s': "s' = s\<lparr>sc_recovery_pending := Some q\<rparr>" "rc_last_fire q = rv_last_fire a"
        using assms(5) h a True by (auto simp: marked_from_def find_filter_hd)
      have "advanced as s = advance_last_fire (rv_last_fire a) s" using a r by (simp add: advanced_def)
      moreover have "sc_created_at (advance_last_fire t s) = sc_created_at s" for t by (simp add: advance_last_fire_def)
      ultimately show ?thesis
        using s' by (intro evaluate_trigger_cong) (auto simp: covered_def advance_last_fire_max max.commute split: option.split)
    qed
  qed
qed

lemma filter_without_ids:
  "i \<notin> set ids \<Longrightarrow> filter (\<lambda>a. rv_schedule a \<notin> set ids \<and> rv_schedule a = i) as = filter (\<lambda>a. rv_schedule a = i) as"
  by (induction as) auto

lemma filter_split:
  "filter (\<lambda>a. rv_schedule a = i) (filter (\<lambda>a. rv_schedule a \<in> K) as @ filter (\<lambda>a. rv_schedule a \<notin> K) as) = filter (\<lambda>a. rv_schedule a = i) as"
  "filter (\<lambda>a. rv_schedule a = i) (if i \<in> K then filter (\<lambda>a. rv_schedule a \<notin> K) as else filter (\<lambda>a. rv_schedule a \<in> K) as) = []"
  by (induction as) auto

lemma quiet_after_preparation:
  assumes laws: "chrono_laws lib lo hi" "croner_laws lib" and c: "lo \<le> now" "now \<le> hi" and d: "distinct (map sc_id st)"
    and st: "\<forall>s\<in>set st. in_calendar lo hi s \<and> sc_recovery_pending s = None"
    and p: "prepare_recovery lib now st = (plan, held, st')"
    and s': "s' \<in> set st'" "evaluate_trigger lib (covered s') now = Some f"
  shows "ft_type f = TypeOneTime"
proof (rule ccontr)
  assume nt: "ft_type f \<noteq> TypeOneTime"
  define ids where "ids = map sc_id (filter (\<lambda>s. is_one_time (sc_trigger s)) (list_enabled st))"
  define q where "q = without_ids ids (recover_missed lib st now)"
  define hs where "hs = filter (\<lambda>a. rv_schedule a \<in> set (map rb_schedule (rp_batches q))) (rp_advances q)"
  define sk where "sk = filter (\<lambda>a. rv_schedule a \<notin> set (map rb_schedule (rp_batches q))) (rp_advances q)"
  have eq: "st' = foldl (mark_batch hs) (map (advanced sk) st) (rp_batches q)"
    using p unfolding prepare_recovery_def Let_def ids_def q_def hs_def sk_def apply_advances_map [OF d, symmetric] by blast
  have dm: "distinct (map sc_id (map (advanced sk) st))" using d by (simp add: comp_def)
  have ids': "map sc_id st' = map sc_id st" unfolding eq by (simp add: ids_mark_batches comp_def)
  then obtain s where s: "s \<in> set st" "sc_id s = sc_id s'" using s'(1) by (metis (no_types, lifting) image_iff set_map)
  have "store_get (sc_id s) (map (advanced sk) st) = Some (advanced sk s)"
    using store_get_member [OF dm, of "advanced sk s"] s(1) by simp
  then obtain x where "store_get (sc_id s) st' = Some x" "marked_from hs (rp_batches q) (advanced sk s) x"
    using mark_batches_get [of "sc_id s" "map (advanced sk) st" "advanced sk s" hs "rp_batches q"] unfolding eq by blast
  moreover have "store_get (sc_id s') st' = Some s'" using store_get_member [of st' s'] s'(1) d ids' by simp
  ultimately have m: "marked_from hs (rp_batches q) (advanced sk s) s'" using s(2) by simp
  obtain r where "s' = (advanced sk s)\<lparr>sc_recovery_pending := r\<rparr>" using m by (auto simp: marked_from_def)
  moreover have "sc_enabled (advanced xs s) = sc_enabled s" "sc_trigger (advanced xs s) = sc_trigger s" for xs
    by (induction xs arbitrary: s) (simp_all add: advanced_def)
  ultimately have "sc_enabled s" "\<not> is_one_time (sc_trigger s)" using s'(2) nt
    by (auto simp: evaluate_trigger_def trigger_type_of_def covered_def is_one_time_def split: if_splits option.splits trigger_config.splits)
  then have n: "sc_id s \<notin> set ids" using s(1) d by (auto simp: ids_def list_enabled_def distinct_map inj_on_def)
  let ?as = "rp_advances (recover_missed lib [s] now)"
  have as: "filter (\<lambda>a. rv_schedule a = sc_id s) (rp_advances q) = ?as"
    using filter_contributions [OF d s(1), of lib now] n by (simp add: q_def without_ids_def filter_without_ids)
  have "evaluate_trigger lib (covered s') now = evaluate_trigger lib (advanced ?as s) now"
  proof (rule covered_marked [OF _ _ _ _ m])
    show "filter (\<lambda>a. rv_schedule a = sc_id s) (hs @ sk) = ?as" unfolding hs_def sk_def filter_split(1) by (rule as)
    show "filter (\<lambda>a. rv_schedule a = sc_id s) (if sc_id s \<in> rb_schedule ` set (rp_batches q) then sk else hs) = []"
      unfolding hs_def sk_def set_map by (rule filter_split(2))
    show "sc_recovery_pending s = None" using st s(1) by simp
    then show "?as = [] \<or> (\<exists>a. ?as = [a])" using contribution_shape [of s lib now] by blast
  qed
  also have "\<dots> = None" using st s(1) by (intro exhausted [OF laws _ c]) simp_all
  finally show False using s'(2) by simp
qed

section \<open>An instance of the libraries\<close>

text \<open>A calendar from the epoch on and the pattern that fires every minute.\<close>

definition minute :: int where
  "minute = 60 * nanos"

definition minute_lib :: "(unit, unit) time_lib" where
  "minute_lib = \<lparr>
     tl_add = (\<lambda>t d. if 0 \<le> t + d \<and> t + d \<le> 10 ^ 18 then Some (t + d) else None),
     tl_seconds = (\<lambda>s. if \<bar>s\<bar> \<le> max_duration_secs then Some (s * nanos) else None),
     tl_num_seconds = (\<lambda>d. quot d nanos), tl_num_minutes = (\<lambda>d. quot d (60 * nanos)),
     tl_cron_parse = (\<lambda>_. Some ()), tl_cron_next = (\<lambda>_ _ t. Some ((t div minute + 1) * minute)),
     tl_cron_match = (\<lambda>_ _ t. t mod minute = 0), tl_tz = (\<lambda>_. None)\<rparr>"

lemma minute_lib_chrono: "chrono_laws minute_lib 0 (10 ^ 18)"
  by (simp add: chrono_laws_def minute_lib_def max_duration_secs_def i64_max_def nanos_def)

lemma minute_lib_croner: "croner_laws minute_lib"
proof -
  have m: "0 < minute" by (simp add: minute_def nanos_def)
  have e: "(t div minute + 1) * minute = t - t mod minute + minute" for t
    by (simp only: distrib_right minus_mod_eq_div_mult mult_1)
  have "t < (t div minute + 1) * minute" for t unfolding e using pos_mod_bound [OF m, of t] by simp
  moreover have "t + 60 * nanos \<le> (t div minute + 1) * minute" if "t mod minute = 0" for t
    unfolding e using that by (simp add: minute_def)
  ultimately show ?thesis by (simp add: croner_laws_def minute_lib_def)
qed

definition sample_interval :: schedule where
  "sample_interval = (schedule_new 0 ''s'' ''n'' (IntervalTrigger 60) ''w'')
     \<lparr>sc_last_fire := Some 0, sc_policies := \<lparr>sp_missed = Some Backfill, sp_concurrency = None, sp_max_per_hour = 0\<rparr>\<rparr>"

lemma sample_interval_simps [simp]:
  "sc_trigger sample_interval = IntervalTrigger 60" "sc_last_fire sample_interval = Some 0"
  "sc_enabled sample_interval" "sc_recovery_pending sample_interval = None" "sc_id sample_interval = ''s''"
  "effective_missed_policy (sc_policies sample_interval) = Backfill" "sc_created_at sample_interval = 0"
  by (simp_all add: sample_interval_def schedule_new_def effective_missed_policy_def)

lemma sample_in_calendar: "in_calendar 0 (10 ^ 18) sample_interval"
  by (simp add: in_calendar_def)

lemma sample_next: "trigger_next minute_lib sample_interval
    = (\<lambda>t. if 0 \<le> t + minute \<and> t + minute \<le> 10 ^ 18 then Some (t + minute) else None)"
  using interval_next_fire_eq [OF minute_lib_chrono, of 60]
  by (simp add: trigger_next_def max_duration_secs_def i64_max_def minute_def cong: if_cong)

lemma sample_due: "due_of minute_lib sample_interval (150 * nanos) = [minute, 2 * minute]"
proof -
  have "due_times (trigger_next minute_lib sample_interval) (150 * nanos) 0 = [minute, 2 * minute]"
    by (subst due_times.simps, simp add: sample_next minute_def nanos_def,
        subst due_times.simps, simp add: minute_def nanos_def, subst due_times.simps, simp add: minute_def nanos_def)
  then show ?thesis by (simp add: due_of_def cursor_of_def)
qed

section \<open>Properties\<close>



text \<open>No missed occurrence is handled twice: once the cursor advances of the plan are applied, no
  schedule of the registry is due at the time the plan was made; and after the preparation at
  startup the first tick, whatever is still held, fires nothing at that time but one-time
  schedules (which recovery leaves to their durable receipts).\<close>

theorem recovery_exhausts_due:
  assumes "chrono_laws lib lo hi" "croner_laws lib" "lo \<le> now" "now \<le> hi" "distinct (map sc_id st)"
    and "\<forall>s\<in>set st. in_calendar lo hi s \<and> sc_recovery_pending s = None"
    and "prepare_recovery lib now st = (plan, held, st')"
  shows "evaluate_all lib (foldl apply_advance st (rp_advances (recover_missed lib st now))) now = []
    \<and> (\<forall>f\<in>set (tick lib h st' now). ft_type f = TypeOneTime)"
proof
  let ?as = "rp_advances (recover_missed lib st now)"
  have "evaluate_trigger lib (advanced ?as s) now = None" if "s \<in> set st" for s
    using exhausted [OF assms(1,2), of s now] that assms(3-6) advanced_filter [of ?as s]
      filter_contributions [OF assms(5) that, of lib now] by simp
  then show "evaluate_all lib (foldl apply_advance st ?as) now = []"
    by (simp add: apply_advances_map [OF assms(5)] evaluate_all_def List.map_filter_def filter_empty_conv)
  show "\<forall>f\<in>set (tick lib h st' now). ft_type f = TypeOneTime"
    using quiet_after_preparation [OF assms] by (auto simp: tick_def evaluate_all_def List.map_filter_def list_enabled_def)
qed

theorem recovery_exhausts_due_witness:
  "evaluate_all minute_lib [sample_interval] (150 * nanos) \<noteq> []
   \<and> evaluate_all minute_lib (foldl apply_advance [sample_interval]
        (rp_advances (recover_missed minute_lib [sample_interval] (150 * nanos)))) (150 * nanos) = []"
proof -
  obtain plan held st' where p: "prepare_recovery minute_lib (150 * nanos) [sample_interval] = (plan, held, st')"
    by (cases "prepare_recovery minute_lib (150 * nanos) [sample_interval]") auto
  have "cursor_of sample_interval = Some 0" by (simp add: cursor_of_def)
  then have "should_fire minute_lib sample_interval (150 * nanos)"
    using should_fire_due [OF minute_lib_chrono minute_lib_croner, of sample_interval 0] by (simp add: sample_due)
  then show ?thesis
    using recovery_exhausts_due [OF minute_lib_chrono minute_lib_croner _ _ _ _ p] sample_in_calendar
    by (simp add: nanos_def evaluate_all_def evaluate_trigger_def List.map_filter_def)
qed

text \<open>Interrupted recovery resumes: if every checkpoint in the registry is valid, then after the
  preparation at startup every checkpoint (those kept from the previous run and those newly
  written) passes the validation that loading a persisted schedule applies, so a restart in the
  middle of a recovery neither rejects nor alters the remaining batch.\<close>

theorem checkpoints_survive_restart:
  assumes "chrono_laws lib lo hi" "croner_laws lib" "lo \<le> now" "now \<le> hi" "distinct (map sc_id st)"
    and "\<forall>s\<in>set st. in_calendar lo hi s"
    and "\<forall>s\<in>set st. \<forall>cp. sc_recovery_pending s = Some cp \<longrightarrow> matches_schedule lib cp s"
    and "prepare_recovery lib now st = (plan, held, st')"
  shows "\<forall>s\<in>set st'. \<forall>cp. sc_recovery_pending s = Some cp \<longrightarrow> matches_schedule lib cp s"
proof -
  define ids where "ids = map sc_id (filter (\<lambda>s. is_one_time (sc_trigger s)) (list_enabled st))"
  define p where "p = without_ids ids (recover_missed lib st now)"
  define hs where "hs = filter (\<lambda>a. rv_schedule a \<in> set (map rb_schedule (rp_batches p))) (rp_advances p)"
  define sk where "sk = filter (\<lambda>a. rv_schedule a \<notin> set (map rb_schedule (rp_batches p))) (rp_advances p)"
  have st': "st' = foldl (mark_batch hs) (foldl apply_advance st sk) (rp_batches p)"
    using assms(8) unfolding prepare_recovery_def Let_def ids_def p_def hs_def sk_def by blast
  have "identities (foldl apply_advance st sk) = identities st \<and> checkpoints_ok lib (foldl apply_advance st sk)"
    using assms(7) apply_advances_keep [of lib st sk] by (simp add: checkpoints_ok_def)
  moreover have "\<exists>s0\<in>set st. sc_id s0 = rb_schedule b \<and> matches_schedule lib \<lparr>rc_batch = b, rc_last_fire = rv_last_fire a\<rparr> s0"
    if b: "b \<in> set (rp_batches p)" and f: "find (\<lambda>a. rv_schedule a = rb_schedule b) hs = Some a" for a b
  proof -
    obtain s0 where s0: "s0 \<in> set st" "b \<in> set (rp_batches (recover_missed lib [s0] now))" and n: "rb_schedule b \<notin> set ids"
      using b by (auto simp: p_def without_ids_def recover_missed_concat(1) [of lib st now])
    have i0: "rb_schedule b = sc_id s0" using assms(7) s0 by (intro contribution_batch_id) auto
    have a: "rv_schedule a = rb_schedule b" "a \<in> set (rp_advances (recover_missed lib st now))"
      using find_Some_iff_first [OF f] by (auto simp: hs_def p_def without_ids_def)
    then have "a \<in> set (rp_advances (recover_missed lib [s0] now))"
      unfolding filter_contributions [OF assms(5) s0(1), of lib now, symmetric] using i0 by simp
    moreover have "\<not> (sc_enabled s0 \<and> is_one_time (sc_trigger s0))" using n i0 s0(1) by (auto simp: ids_def list_enabled_def)
    ultimately show ?thesis
      using s0 i0 assms by (intro bexI [of _ s0] conjI contribution_checkpoint [OF assms(1,2)]) auto
  qed
  ultimately show ?thesis
    using mark_batches_keep [OF assms(5), of "foldl apply_advance st sk" lib "rp_batches p" hs]
    unfolding st' checkpoints_ok_def by blast
qed

theorem checkpoints_survive_restart_witness:
  "list_all (\<lambda>s. case sc_recovery_pending s of None \<Rightarrow> True | Some cp \<Rightarrow> matches_schedule minute_lib cp s)
     (snd (snd (prepare_recovery minute_lib (150 * nanos) [sample_interval])))"
proof -
  obtain plan held st' where p: "prepare_recovery minute_lib (150 * nanos) [sample_interval] = (plan, held, st')"
    by (cases "prepare_recovery minute_lib (150 * nanos) [sample_interval]") auto
  from checkpoints_survive_restart [OF minute_lib_chrono minute_lib_croner _ _ _ _ _ p] sample_in_calendar p show ?thesis
    by (auto simp: list_all_iff nanos_def split: option.split)
qed

end
