(* ===== verification/Schedule_Params.thy ===== *)
theory Schedule_Params
  imports Schedule_Store
begin

text \<open>
  The parameters of a scheduled workflow and the payload filters of event schedules:
  \<^verbatim>\<open>params.rs\<close> and \<^verbatim>\<open>event.rs\<close> of \<^verbatim>\<open>crates/hf-scheduler/src\<close>. The printers of \<^verbatim>\<open>chrono\<close> and \<^verbatim>\<open>serde_json\<close>
  and the glob matcher of \<^verbatim>\<open>globset\<close> are third-party code: a record of functions, an argument of the
  operations that call them.
\<close>

section \<open>Printers and globs\<close>

text \<open>\<^verbatim>\<open>DateTime::to_rfc3339\<close>, the string \<^verbatim>\<open>serde\<close> writes for a \<^verbatim>\<open>DateTime\<close>, \<^verbatim>\<open>Number::to_string\<close>, and \<^verbatim>\<open>GlobBuilder::build\<close> with \<^verbatim>\<open>is_match\<close> (\<open>None\<close> for
  an invalid pattern).\<close>

record text_lib =
  tx_rfc3339 :: "time \<Rightarrow> string"
  tx_serde_time :: "time \<Rightarrow> string"
  tx_number :: "json_number \<Rightarrow> string"
  tx_glob :: "string \<Rightarrow> (string \<Rightarrow> bool) option"

section \<open>Resolution of parameters\<close>

record resolution_context =
  cx_time :: time
  cx_type :: trigger_type
  cx_sequence :: nat
  cx_payload :: "json option"

datatype resolve_error = UnknownExpression string | EventFieldNotFound string

text \<open>The text of a \<^verbatim>\<open>TriggerType\<close> (\<^verbatim>\<open>Display\<close>).\<close>

fun trigger_type_str :: "trigger_type \<Rightarrow> string" where
  "trigger_type_str TypeCron = ''cron''"
| "trigger_type_str TypeInterval = ''interval''"
| "trigger_type_str TypeEvent = ''event''"
| "trigger_type_str TypeOneTime = ''onetime''"

text \<open>Objects merge member by member, anything else is replaced.\<close>

fun merge_values :: "json \<Rightarrow> json \<Rightarrow> json"
  and merge_members :: "(string \<times> json) list \<Rightarrow> (string \<times> json) list \<Rightarrow> (string \<times> json) list" where
  "merge_values (JObject base) (JObject overlay) = JObject (merge_members base overlay)"
| "merge_values base overlay = overlay"
| "merge_members merged [] = merged"
| "merge_members merged ((k, v) # overlay) =
     merge_members (obj_insert k (case map_of merged k of Some existing \<Rightarrow> merge_values existing v | None \<Rightarrow> v) merged) overlay"

fun json_step :: "json option \<Rightarrow> string \<Rightarrow> json option" where
  "json_step (Some (JObject kvs)) k = map_of kvs k"
| "json_step _ k = None"

definition resolve_json_path :: "json \<Rightarrow> string \<Rightarrow> json option" where
  "resolve_json_path v path = foldl json_step (Some v) (split_char (CHR ''.'') path)"

definition is_template :: "string \<Rightarrow> bool" where
  "is_template s \<longleftrightarrow> (let trimmed = trim s in starts_with ''{{'' trimmed \<and> ends_with ''}}'' trimmed)"

definition template_expr :: "string \<Rightarrow> string" where
  "template_expr s = (let trimmed = trim s in trim (drop 2 (take (length trimmed - 2) trimmed)))"

definition try_resolve_expression ::
  "text_lib \<Rightarrow> resolution_context \<Rightarrow> string \<Rightarrow> (resolve_error, json option) result" where
  "try_resolve_expression lib ctx s =
     (if \<not> is_template s then Inr None
      else let e = template_expr s in
        if e = ''trigger.time'' then Inr (Some (JString (tx_rfc3339 lib (cx_time ctx))))
        else if e = ''trigger.type'' then Inr (Some (JString (trigger_type_str (cx_type ctx))))
        else if e = ''execution.sequence'' then Inr (Some (JNumber (PosInt (cx_sequence ctx))))
        else (case strip_prefix ''event.payload.'' e of
            Some field \<Rightarrow>
              (case Option.bind (cx_payload ctx) (\<lambda>p. resolve_json_path p field) of
                 Some v \<Rightarrow> Inr (Some v) | None \<Rightarrow> Inl (EventFieldNotFound field))
          | None \<Rightarrow> Inl (UnknownExpression e)))"

fun resolve_expressions :: "text_lib \<Rightarrow> resolution_context \<Rightarrow> json \<Rightarrow> (resolve_error, json) result"
  and resolve_members ::
    "text_lib \<Rightarrow> resolution_context \<Rightarrow> (string \<times> json) list \<Rightarrow> (resolve_error, (string \<times> json) list) result"
  and resolve_elements :: "text_lib \<Rightarrow> resolution_context \<Rightarrow> json list \<Rightarrow> (resolve_error, json list) result" where
  "resolve_expressions lib ctx (JString s) =
     bind_result (try_resolve_expression lib ctx s)
       (\<lambda>r. Inr (case r of Some v \<Rightarrow> v | None \<Rightarrow> JString s))"
| "resolve_expressions lib ctx (JObject kvs) = bind_result (resolve_members lib ctx kvs) (\<lambda>kvs'. Inr (JObject kvs'))"
| "resolve_expressions lib ctx (JArray vs) = bind_result (resolve_elements lib ctx vs) (\<lambda>vs'. Inr (JArray vs'))"
| "resolve_expressions lib ctx v = Inr v"
| "resolve_members lib ctx [] = Inr []"
| "resolve_members lib ctx ((k, v) # kvs) =
     bind_result (resolve_expressions lib ctx v) (\<lambda>v'.
       bind_result (resolve_members lib ctx kvs) (\<lambda>kvs'. Inr ((k, v') # kvs')))"
| "resolve_elements lib ctx [] = Inr []"
| "resolve_elements lib ctx (v # vs) =
     bind_result (resolve_expressions lib ctx v) (\<lambda>v'.
       bind_result (resolve_elements lib ctx vs) (\<lambda>vs'. Inr (v' # vs')))"

definition resolve_parameters ::
  "text_lib \<Rightarrow> json \<Rightarrow> json \<Rightarrow> resolution_context \<Rightarrow> (resolve_error, json) result" where
  "resolve_parameters lib defaults static_values ctx =
     resolve_expressions lib ctx (merge_values defaults static_values)"

section \<open>Payload filters\<close>

fun scalar_text :: "text_lib \<Rightarrow> json \<Rightarrow> string option" where
  "scalar_text lib (JString s) = Some s"
| "scalar_text lib (JNumber n) = Some (tx_number lib n)"
| "scalar_text lib (JBool b) = Some (if b then ''true'' else ''false'')"
| "scalar_text lib _ = None"

fun filter_matches :: "text_lib \<Rightarrow> event_filter \<Rightarrow> json option \<Rightarrow> bool" where
  "filter_matches lib (EventFilter field pat) payload =
     (let root = JObject [(''payload'', case payload of Some p \<Rightarrow> p | None \<Rightarrow> JNull)] in
      case Option.bind (resolve_json_path root field) (scalar_text lib) of
        None \<Rightarrow> False
      | Some t \<Rightarrow> (case tx_glob lib pat of Some matches \<Rightarrow> matches t | None \<Rightarrow> False))"

section \<open>Templates of a schedule never reach its workflow\<close>

text \<open>The strings of a value, in order.\<close>

fun json_strings :: "json \<Rightarrow> string list"
  and member_strings :: "(string \<times> json) list \<Rightarrow> string list"
  and element_strings :: "json list \<Rightarrow> string list" where
  "json_strings (JString s) = [s]"
| "json_strings (JObject kvs) = member_strings kvs"
| "json_strings (JArray vs) = element_strings vs"
| "json_strings _ = []"
| "member_strings [] = []"
| "member_strings (kv # kvs) = json_strings (snd kv) @ member_strings kvs"
| "element_strings [] = []"
| "element_strings (v # vs) = json_strings v @ element_strings vs"

text \<open>A template is long enough to be sliced: its delimiters do not overlap.\<close>

lemma template_length: "is_template s \<Longrightarrow> 4 \<le> length (trim s)"
proof -
  assume t: "is_template s"
  define u where "u = trim s"
  from t have "starts_with ''{{'' u" "ends_with ''}}'' u" by (simp_all add: is_template_def u_def Let_def)
  then obtain a where a: "u = CHR ''{'' # CHR ''{'' # a" and e: "ends_with ''}}'' u"
    by (cases u; cases "tl u") auto
  then obtain b where b: "rev u = CHR ''}'' # CHR ''}'' # b"
    by (cases "rev u"; cases "tl (rev u)") (auto simp: ends_with_def)
  have "length u \<noteq> 2" using a b by (cases a) auto
  moreover have "length u \<noteq> 3" using a b by (cases a) auto
  moreover have "2 \<le> length u" using a by simp
  ultimately show ?thesis by (simp add: u_def)
qed

lemma member_strings_map_of: "map_of kvs k = Some v \<Longrightarrow> set (json_strings v) \<subseteq> set (member_strings kvs)"
  by (induction kvs) (auto split: if_splits)

lemma json_step_strings: "json_step w k = Some v \<Longrightarrow> \<exists>u. w = Some u \<and> set (json_strings v) \<subseteq> set (json_strings u)"
  by (cases "(w, k)" rule: json_step.cases) (auto dest: member_strings_map_of)

lemma foldl_json_step_strings:
  "foldl json_step w ks = Some v \<Longrightarrow> \<exists>u. w = Some u \<and> set (json_strings v) \<subseteq> set (json_strings u)"
proof (induction ks arbitrary: w)
  case (Cons k ks)
  from Cons.prems Cons.IH obtain u where "json_step w k = Some u" "set (json_strings v) \<subseteq> set (json_strings u)"
    by auto
  with json_step_strings [of w k u] show ?case by fastforce
qed simp

lemma resolve_json_path_strings:
  "resolve_json_path p path = Some v \<Longrightarrow> set (json_strings v) \<subseteq> set (json_strings p)"
  unfolding resolve_json_path_def by (drule foldl_json_step_strings) auto

lemma type_str_not_template: "\<not> is_template (trigger_type_str t)"
  by (cases t) (simp_all add: is_template_def trim_def trim_start_def trim_end_def is_ws_def Let_def)

text \<open>Where a template of a resolved value comes from: the payload of the event.\<close>

definition from_payload :: "resolution_context \<Rightarrow> string \<Rightarrow> bool" where
  "from_payload ctx s \<longleftrightarrow> (\<exists>p. cx_payload ctx = Some p \<and> s \<in> set (json_strings p))"

definition template_free :: "resolution_context \<Rightarrow> string list \<Rightarrow> bool" where
  "template_free ctx ss \<longleftrightarrow> list_all (\<lambda>s. is_template s \<longrightarrow> from_payload ctx s) ss"

lemma template_free_append [simp]: "template_free ctx (xs @ ys) \<longleftrightarrow> template_free ctx xs \<and> template_free ctx ys"
  by (simp add: template_free_def)

lemma template_free_Nil [simp]: "template_free ctx []"
  by (simp add: template_free_def)

lemma try_resolve_template_free:
  assumes "try_resolve_expression lib ctx s = Inr r" "\<not> is_template (tx_rfc3339 lib (cx_time ctx))"
  shows "template_free ctx (json_strings (case r of Some v \<Rightarrow> v | None \<Rightarrow> JString s))"
  using assms type_str_not_template [of "cx_type ctx"]
  by (auto simp: try_resolve_expression_def template_free_def from_payload_def list_all_iff Let_def
      split: if_splits option.splits bind_splits dest: resolve_json_path_strings)

lemma resolve_template_free:
  assumes "\<not> is_template (tx_rfc3339 lib (cx_time ctx))"
  shows "resolve_expressions lib ctx v = Inr w \<Longrightarrow> template_free ctx (json_strings w)"
    and "resolve_members lib ctx kvs = Inr kvs' \<Longrightarrow> template_free ctx (member_strings kvs')"
    and "resolve_elements lib ctx vs = Inr vs' \<Longrightarrow> template_free ctx (element_strings vs')"
  using assms
  by (induction lib ctx v and lib ctx kvs and lib ctx vs arbitrary: w and kvs' and vs'
      rule: resolve_expressions_resolve_members_resolve_elements.induct)
    (auto simp: bind_result_eq_Inr dest: try_resolve_template_free)

text \<open>Resolution fails exactly when some string of the value is an expression that does not resolve.\<close>

lemma resolve_ok_iff:
  "is_ok (resolve_expressions lib ctx v) \<longleftrightarrow> list_all (\<lambda>s. is_ok (try_resolve_expression lib ctx s)) (json_strings v)"
  "is_ok (resolve_members lib ctx kvs) \<longleftrightarrow> list_all (\<lambda>s. is_ok (try_resolve_expression lib ctx s)) (member_strings kvs)"
  "is_ok (resolve_elements lib ctx vs) \<longleftrightarrow> list_all (\<lambda>s. is_ok (try_resolve_expression lib ctx s)) (element_strings vs)"
  by (induction lib ctx v and lib ctx kvs and lib ctx vs
      rule: resolve_expressions_resolve_members_resolve_elements.induct)
    (auto simp: is_ok_iff bind_result_eq_Inr)

text \<open>A value without expressions is left alone.\<close>

lemma resolve_literal:
  "list_all (\<lambda>s. \<not> is_template s) (json_strings v) \<Longrightarrow> resolve_expressions lib ctx v = Inr v"
  "list_all (\<lambda>s. \<not> is_template s) (member_strings kvs) \<Longrightarrow> resolve_members lib ctx kvs = Inr kvs"
  "list_all (\<lambda>s. \<not> is_template s) (element_strings vs) \<Longrightarrow> resolve_elements lib ctx vs = Inr vs"
  by (induction lib ctx v and lib ctx kvs and lib ctx vs
      rule: resolve_expressions_resolve_members_resolve_elements.induct)
    (auto simp: try_resolve_expression_def)

text \<open>A member of a merged object: the overlay wins, objects below it merge, the rest stays.\<close>

lemma merge_members_lookup:
  "distinct (map fst overlay) \<Longrightarrow> map_of (merge_members base overlay) k =
     (case map_of overlay k of
        None \<Rightarrow> map_of base k
      | Some v \<Rightarrow> Some (case map_of base k of Some existing \<Rightarrow> merge_values existing v | None \<Rightarrow> v))"
proof (induction overlay arbitrary: base)
  case (Cons kv overlay)
  then have "map_of overlay (fst kv) = None" by (simp add: map_of_eq_None_iff)
  with Cons show ?case by (cases kv) (auto split: option.split)
qed simp

lemma obj_insert_new: "map_of kvs k = None \<Longrightarrow> obj_insert k v kvs = kvs @ [(k, v)]"
  by (induction kvs) (auto split: if_splits)

lemma merge_members_new:
  "distinct (map fst (base @ overlay)) \<Longrightarrow> merge_members base overlay = base @ overlay"
proof (induction overlay arbitrary: base)
  case (Cons kv overlay)
  then have "map_of base (fst kv) = None" by (auto simp: map_of_eq_None_iff)
  with Cons show ?case by (cases kv) (simp add: obj_insert_new)
qed simp

lemma merge_into_empty: "distinct (map fst overlay) \<Longrightarrow> merge_values (JObject []) (JObject overlay) = JObject overlay"
  by (simp add: merge_members_new)

text \<open>An error of the resolution is the error of one of the strings.\<close>

lemma resolve_error_source:
  "resolve_expressions lib ctx v = Inl e \<Longrightarrow> list_ex (\<lambda>s. try_resolve_expression lib ctx s = Inl e) (json_strings v)"
  "resolve_members lib ctx kvs = Inl e \<Longrightarrow> list_ex (\<lambda>s. try_resolve_expression lib ctx s = Inl e) (member_strings kvs)"
  "resolve_elements lib ctx vs = Inl e \<Longrightarrow> list_ex (\<lambda>s. try_resolve_expression lib ctx s = Inl e) (element_strings vs)"
  by (induction lib ctx v and lib ctx kvs and lib ctx vs
      rule: resolve_expressions_resolve_members_resolve_elements.induct)
    (auto simp: bind_result_def split: sum.splits)

text \<open>The parameters a workflow is started with: when an expression of the schedule's object of
  parameters (its keys distinct, the defaults empty as in the dispatcher) does not resolve, the
  resolution fails with the error of such an expression; otherwise every string of the resolved
  parameters that still looks like an expression is a string of the event's payload, so no template
  of the schedule reaches the workflow and a payload is never evaluated.\<close>

theorem parameters_resolved:
  assumes "distinct (map fst kvs)" "\<not> is_template (tx_rfc3339 lib (cx_time ctx))"
  shows "case resolve_parameters lib (JObject []) (JObject kvs) ctx of
      Inl e \<Rightarrow> list_ex (\<lambda>s. try_resolve_expression lib ctx s = Inl e) (member_strings kvs)
    | Inr w \<Rightarrow> list_all (\<lambda>s. is_ok (try_resolve_expression lib ctx s)) (member_strings kvs)
        \<and> template_free ctx (json_strings w)"
proof (cases "resolve_parameters lib (JObject []) (JObject kvs) ctx")
  case (Inl e)
  then have "resolve_expressions lib ctx (JObject kvs) = Inl e"
    by (simp only: resolve_parameters_def merge_into_empty [OF assms(1)])
  from resolve_error_source(1) [OF this] Inl show ?thesis by simp
next
  case (Inr w)
  then have r: "resolve_expressions lib ctx (JObject kvs) = Inr w"
    by (simp only: resolve_parameters_def merge_into_empty [OF assms(1)])
  with resolve_ok_iff(1) [of lib ctx "JObject kvs"] resolve_template_free(1) [OF assms(2) r] Inr
  show ?thesis by (simp del: resolve_expressions.simps)
qed

text \<open>A schedule that forwards a field of its event: the field is inserted as it is, although it
  reads like an expression.\<close>

definition plain_text_lib :: text_lib where
  "plain_text_lib = \<lparr>tx_rfc3339 = (\<lambda>t. ''2026-03-11T09:00:00+00:00''), tx_serde_time = (\<lambda>t. ''2026-03-11T09:00:00Z''), tx_number = (\<lambda>n. ''3''),
     tx_glob = (\<lambda>p. Some (\<lambda>t. p = t))\<rparr>"

definition sample_context :: resolution_context where
  "sample_context = \<lparr>cx_time = 0, cx_type = TypeEvent, cx_sequence = 42,
     cx_payload = Some (JObject [(''path'', JString ''{{ trigger.time }}'')])\<rparr>"

theorem parameters_resolved_witness:
  "resolve_parameters plain_text_lib (JObject []) (JObject [(''p'', JString ''{{ event.payload.path }}'')]) sample_context
     = Inr (JObject [(''p'', JString ''{{ trigger.time }}'')])
   \<and> template_free sample_context (json_strings (JObject [(''p'', JString ''{{ trigger.time }}'')]))"
proof -
  have r: "resolve_parameters plain_text_lib (JObject []) (JObject [(''p'', JString ''{{ event.payload.path }}'')]) sample_context
     = Inr (JObject [(''p'', JString ''{{ trigger.time }}'')])"
    by code_simp
  have "\<not> is_template (tx_rfc3339 plain_text_lib (cx_time sample_context))" by code_simp
  from parameters_resolved [OF _ this, of "[(''p'', JString ''{{ event.payload.path }}'')]"] r
  show ?thesis by simp
qed

end
