(* ===== verification/Event_Bridge.thy ===== *)
theory Event_Bridge
  imports Schedule_Params
begin

text \<open>
  The event bridge (\<^verbatim>\<open>crates/hf-scheduler/src/event_bridge.rs\<close>) and \<^verbatim>\<open>SchedulerManager::emit_event\<close> of
  \<^verbatim>\<open>manager.rs\<close>: an event is matched against the enabled event schedules (type, provenance, payload
  filter, debounce) and the triggers it prepares are sent to the queue of the executor loop. How many
  sends the queue takes before its receiver is gone is an argument of a step.
\<close>

section \<open>Events and the bridge\<close>

record incoming_event =
  ie_cascade_depth :: nat
  ie_event_type :: string
  ie_payload :: "json option"
  ie_timestamp :: time
  ie_source :: "string option"

text \<open>The time of the last event sent, per schedule.\<close>

type_synonym event_bridge = "string \<rightharpoonup> time"

definition debounced :: "('c, 'z) time_lib \<Rightarrow> event_bridge \<Rightarrow> incoming_event \<Rightarrow> string \<Rightarrow> nat \<Rightarrow> bool" where
  "debounced cal bridge ev i secs \<longleftrightarrow> 0 < secs \<and>
     (case bridge i of
        None \<Rightarrow> False
      | Some prev \<Rightarrow> tl_num_seconds cal (ie_timestamp ev - prev)
          < (case try_i64 (int secs) of Some x \<Rightarrow> x | None \<Rightarrow> i64_max))"

definition prepare_trigger ::
  "('c, 'z) time_lib \<Rightarrow> text_lib \<Rightarrow> event_bridge \<Rightarrow> incoming_event \<Rightarrow> schedule \<Rightarrow> fired_trigger option" where
  "prepare_trigger cal lib bridge ev s = (case sc_trigger s of
     EventTrigger ty secs filt \<Rightarrow>
       if ty \<noteq> ie_event_type ev then None
       else if ie_source ev = Some (sc_id s) then None
       else if (case filt of Some f \<Rightarrow> \<not> filter_matches lib f (ie_payload ev) | None \<Rightarrow> False) then None
       else if debounced cal bridge ev (sc_id s) secs then None
       else Some \<lparr>
         ft_cascade_depth = (if ie_source ev \<noteq> None then sat_add_u64 (ie_cascade_depth ev) 1 else ie_cascade_depth ev),
         ft_schedule = sc_id s, ft_fired_at = ie_timestamp ev, ft_type = TypeEvent, ft_is_recovery = False,
         ft_event_payload = ie_payload ev\<rparr>
   | _ \<Rightarrow> None)"

definition prepare_triggers ::
  "('c, 'z) time_lib \<Rightarrow> text_lib \<Rightarrow> event_bridge \<Rightarrow> incoming_event \<Rightarrow> schedule_store \<Rightarrow> fired_trigger list" where
  "prepare_triggers cal lib bridge ev st = List.map_filter (prepare_trigger cal lib bridge ev) (list_enabled st)"

text \<open>Only a successful send consumes a debounce window. \<open>room\<close> sends succeed: a receiver that is gone
  does not come back. The triggers sent are an output of the step, beside the matched ids.\<close>

fun send_triggers ::
  "incoming_event \<Rightarrow> nat \<Rightarrow> fired_trigger list \<Rightarrow> event_bridge \<Rightarrow> event_bridge \<times> string list \<times> fired_trigger list" where
  "send_triggers ev room [] bridge = (bridge, [], [])"
| "send_triggers ev 0 (t # ts) bridge = send_triggers ev 0 ts bridge"
| "send_triggers ev (Suc room) (t # ts) bridge =
     (let (b, matched, sent) = send_triggers ev room ts (bridge(ft_schedule t \<mapsto> ie_timestamp ev))
      in (b, ft_schedule t # matched, t # sent))"

text \<open>One call of \<^verbatim>\<open>emit_event\<close>: the registry and the queue it finds are part of the call.\<close>

record emission =
  em_event :: incoming_event
  em_running :: bool
  em_room :: nat
  em_store :: schedule_store

definition emit_event ::
  "('c, 'z) time_lib \<Rightarrow> text_lib \<Rightarrow> event_bridge \<Rightarrow> emission \<Rightarrow> event_bridge \<times> string list \<times> fired_trigger list" where
  "emit_event cal lib bridge em =
     (if \<not> em_running em then (bridge, [], [])
      else send_triggers (em_event em) (em_room em)
             (prepare_triggers cal lib bridge (em_event em) (em_store em)) bridge)"

section \<open>What a trigger says about its event\<close>

lemma prepare_triggerD:
  assumes "prepare_trigger cal lib bridge ev s = Some t"
  shows "ft_schedule t = sc_id s" "ft_fired_at t = ie_timestamp ev" "ie_source ev \<noteq> Some (sc_id s)"
    "\<exists>secs filt. sc_trigger s = EventTrigger (ie_event_type ev) secs filt \<and> \<not> debounced cal bridge ev (sc_id s) secs"
    "ft_cascade_depth t = (if ie_source ev \<noteq> None then sat_add_u64 (ie_cascade_depth ev) 1 else ie_cascade_depth ev)"
  using assms by (auto simp: prepare_trigger_def split: trigger_config.splits if_splits)

lemma prepare_triggers_mem:
  "t \<in> set (prepare_triggers cal lib bridge ev st) \<longleftrightarrow>
     (\<exists>s\<in>set st. sc_enabled s \<and> prepare_trigger cal lib bridge ev s = Some t)"
  by (force simp: prepare_triggers_def list_enabled_def map_filter_def)

text \<open>A schedule never reacts to an event of its own execution.\<close>

lemma no_self_fire: "t \<in> set (prepare_triggers cal lib bridge ev st) \<Longrightarrow> ie_source ev \<noteq> Some (ft_schedule t)"
  using prepare_triggerD(1,3) by (metis prepare_triggers_mem)

lemma prepare_triggers_ids:
  "map ft_schedule (prepare_triggers cal lib bridge ev st) =
     map sc_id (filter (\<lambda>s. sc_enabled s \<and> prepare_trigger cal lib bridge ev s \<noteq> None) st)"
  by (induction st) (auto simp: prepare_triggers_def list_enabled_def map_filter_def dest: prepare_triggerD)

lemma prepare_triggers_distinct: "distinct (map sc_id st) \<Longrightarrow> distinct (map ft_schedule (prepare_triggers cal lib bridge ev st))"
  by (simp add: prepare_triggers_ids distinct_map_filter)

section \<open>Sending\<close>

lemma send_triggers_outcome:
  "fst (snd (send_triggers ev room ts bridge)) = map ft_schedule (take room ts)
   \<and> snd (snd (send_triggers ev room ts bridge)) = take room ts
   \<and> fst (send_triggers ev room ts bridge) i =
     (if i \<in> ft_schedule ` set (take room ts) then Some (ie_timestamp ev) else bridge i)"
proof (induction ts arbitrary: room bridge)
  case (Cons t ts)
  show ?case
  proof (cases room)
    case 0
    with Cons [of 0 bridge] show ?thesis by simp
  next
    case (Suc n)
    define upd where "upd = bridge(ft_schedule t \<mapsto> ie_timestamp ev)"
    have "upd i = (if i = ft_schedule t then Some (ie_timestamp ev) else bridge i)" by (simp add: upd_def)
    with Cons [of n upd] Suc show ?thesis by (auto simp: split_beta Let_def upd_def [symmetric])
  qed
qed simp

lemmas send_triggers_matched = send_triggers_outcome [THEN conjunct1]
lemmas send_triggers_sent = send_triggers_outcome [THEN conjunct2, THEN conjunct1]
lemmas send_triggers_bridge = send_triggers_outcome [THEN conjunct2, THEN conjunct2]

lemma filter_distinct_key:
  "distinct (map f xs) \<Longrightarrow> filter (\<lambda>x. f x = k) xs = (case find (\<lambda>x. f x = k) xs of None \<Rightarrow> [] | Some x \<Rightarrow> [x])"
proof (induction xs)
  case (Cons a xs)
  show ?case
  proof (cases "f a = k")
    case True
    with Cons.prems have "filter (\<lambda>x. f x = k) xs = []" by (simp add: filter_empty_conv image_iff) metis
    with True show ?thesis by simp
  next
    case False
    with Cons show ?thesis by simp
  qed
qed simp

section \<open>Debounce\<close>

text \<open>The times of the triggers sent to a schedule, over a sequence of emissions.\<close>

definition fire_times :: "string \<Rightarrow> (string list \<times> fired_trigger list) list \<Rightarrow> time list" where
  "fire_times i outs = map ft_fired_at (filter (\<lambda>t. ft_schedule t = i) (concat (map snd outs)))"

definition debounce_of :: "string \<Rightarrow> nat \<Rightarrow> schedule_store \<Rightarrow> bool" where
  "debounce_of i secs st \<longleftrightarrow> distinct (map sc_id st) \<and>
     list_all (\<lambda>s. sc_id s = i \<longrightarrow> (case sc_trigger s of EventTrigger _ d _ \<Rightarrow> d = secs | _ \<Rightarrow> True)) st"

lemma quot_seconds_ge: "0 < k \<Longrightarrow> k \<le> quot d nanos \<Longrightarrow> k * nanos \<le> d"
proof -
  assume k: "0 < k" "k \<le> quot d nanos"
  then have "0 < d" by (auto simp: quot_def nanos_def sgn_if split: if_splits)
  then have "quot d nanos = d div nanos" by (simp add: quot_def nanos_def)
  moreover have "d div nanos * nanos \<le> d" using div_mult_mod_eq [of d nanos] pos_mod_sign [of nanos d] by (simp add: nanos_def)
  moreover have "k * nanos \<le> d div nanos * nanos" using k calculation(1) by (simp add: nanos_def)
  ultimately show ?thesis by linarith
qed

lemma not_debounced_apart:
  assumes "chrono_laws cal lo hi" "0 < secs" "int secs \<le> i64_max" "bridge i = Some prev" "\<not> debounced cal bridge ev i secs"
  shows "prev + int secs * nanos \<le> ie_timestamp ev"
proof -
  have "try_i64 (int secs) = Some (int secs)" using assms(3) by (simp add: in_i64_def i64_min_def)
  with assms have "int secs \<le> quot (ie_timestamp ev - prev) nanos"
    by (auto simp: debounced_def chrono_laws_def split: option.splits)
  from quot_seconds_ge [OF _ this] assms(2) show ?thesis by simp
qed

text \<open>One emission: at most one trigger for a schedule, a debounce window after the last one.\<close>

lemma emit_event_times:
  assumes laws: "chrono_laws cal lo hi" "0 < secs" "int secs \<le> i64_max" and st: "debounce_of i secs (em_store em)"
    and r: "emit_event cal lib bridge em = (b, out)"
  shows "fire_times i [out] = [] \<and> b i = bridge i
    \<or> (\<exists>t. fire_times i [out] = [t] \<and> b i = Some t
         \<and> (case bridge i of Some prev \<Rightarrow> prev + int secs * nanos \<le> t | None \<Rightarrow> True))"
proof (cases "em_running em")
  case True
  let ?p = "prepare_triggers cal lib bridge (em_event em) (em_store em)" and ?n = "em_room em"
  have d: "distinct (map ft_schedule (take ?n ?p))"
    using st prepare_triggers_distinct [of "em_store em" cal lib bridge "em_event em"]
    by (simp add: debounce_of_def take_map [symmetric])
  have out: "out = (map ft_schedule (take ?n ?p), take ?n ?p)" and b: "b = fst (send_triggers (em_event em) ?n ?p bridge)"
    using r True send_triggers_sent [of "em_event em" ?n ?p bridge] send_triggers_matched [of "em_event em" ?n ?p bridge]
    by (auto simp: emit_event_def prod_eq_iff)
  show ?thesis
  proof (cases "find (\<lambda>t. ft_schedule t = i) (take ?n ?p)")
    case None
    then have "i \<notin> ft_schedule ` set (take ?n ?p)" by (auto simp: find_None_iff)
    then show ?thesis using None by (simp add: out b fire_times_def filter_distinct_key [OF d] send_triggers_bridge)
  next
    case (Some t)
    then have t: "t \<in> set (take ?n ?p)" "ft_schedule t = i" by (auto dest: find_Some_iff_first)
    then have "t \<in> set ?p" by (meson in_set_takeD)
    then obtain s where s: "s \<in> set (em_store em)" "prepare_trigger cal lib bridge (em_event em) s = Some t"
      by (auto simp: prepare_triggers_mem)
    from prepare_triggerD [OF s(2)] t(2) obtain dsecs filt where
      "sc_id s = i" "ft_fired_at t = ie_timestamp (em_event em)"
      "sc_trigger s = EventTrigger (ie_event_type (em_event em)) dsecs filt"
      "\<not> debounced cal bridge (em_event em) i dsecs" by auto
    moreover from this s(1) st have "dsecs = secs" by (auto simp: debounce_of_def list_all_iff)
    moreover have "i \<in> ft_schedule ` set (take ?n ?p)" using t by blast
    ultimately show ?thesis using Some not_debounced_apart [OF laws, of bridge i _ "em_event em"]
      by (simp add: out b fire_times_def filter_distinct_key [OF d] send_triggers_bridge split: option.split)
  qed
qed (use r in \<open>auto simp: emit_event_def fire_times_def\<close>)

text \<open>Over any sequence of emitted events, whatever the registry (ids distinct, a debounce of
  \<open>secs\<close> seconds for the schedule whenever it is an event schedule), the queue and the order of the
  timestamps, the triggers a schedule receives are at least \<open>secs\<close> seconds apart.\<close>

theorem debounce_separates_triggers:
  assumes "chrono_laws cal lo hi" "0 < secs" "int secs \<le> i64_max" "list_all (\<lambda>em. debounce_of i secs (em_store em)) ems"
  shows "sorted_wrt (\<lambda>t u. t + int secs * nanos \<le> u) (fire_times i (snd (run_outputs (emit_event cal lib) bridge ems)))"
proof -
  let ?R = "\<lambda>t u. t + int secs * nanos \<le> u"
  have trans: "?R a b \<Longrightarrow> ?R b c \<Longrightarrow> ?R a c" for a b c using assms(2) by (simp add: nanos_def)
  have "sorted_wrt ?R (fire_times i (snd (run_outputs (emit_event cal lib) bridge ems)))
    \<and> (\<forall>prev. bridge i = Some prev \<longrightarrow> (\<forall>u\<in>set (fire_times i (snd (run_outputs (emit_event cal lib) bridge ems))). ?R prev u))"
    using assms(4)
  proof (induction ems arbitrary: bridge)
    case Nil
    then show ?case by (simp add: fire_times_def)
  next
    case (Cons em ems)
    obtain b out where e: "emit_event cal lib bridge em = (b, out)" by (rule prod.exhaust)
    define rest where "rest = fire_times i (snd (run_outputs (emit_event cal lib) b ems))"
    have ft: "fire_times i (snd (run_outputs (emit_event cal lib) bridge (em # ems))) = fire_times i [out] @ rest"
      using e by (simp add: rest_def fire_times_def split_beta)
    from Cons have ih: "sorted_wrt ?R rest" "\<And>prev. b i = Some prev \<Longrightarrow> \<forall>u\<in>set rest. ?R prev u"
      by (simp_all add: rest_def)
    from Cons.prems have "debounce_of i secs (em_store em)" by simp
    from emit_event_times [OF assms(1-3) this e] show ?case
    proof (elim disjE exE conjE)
      assume "fire_times i [out] = []" "b i = bridge i"
      with ih show ?thesis unfolding ft by simp
    next
      fix t assume t: "fire_times i [out] = [t]" "b i = Some t"
        "case bridge i of Some prev \<Rightarrow> ?R prev t | None \<Rightarrow> True"
      from ih(2) [OF t(2)] have "\<forall>u\<in>set rest. ?R t u" .
      with ih(1) t show ?thesis unfolding ft by (cases "bridge i") (auto intro: trans)
    qed
  qed
  then show ?thesis ..
qed

text \<open>Three events, the second two seconds and the third ten seconds after the first, on a schedule
  with a debounce of five seconds.\<close>

definition plain_calendar :: "(unit, unit) time_lib" where
  "plain_calendar = \<lparr>tl_add = (\<lambda>t d. if 0 \<le> t + d \<and> t + d \<le> 10 ^ 18 then Some (t + d) else None),
     tl_seconds = (\<lambda>s. if \<bar>s\<bar> \<le> max_duration_secs then Some (s * nanos) else None),
     tl_num_seconds = (\<lambda>d. quot d nanos), tl_num_minutes = (\<lambda>d. quot d (60 * nanos)),
     tl_cron_parse = (\<lambda>e. None), tl_cron_next = (\<lambda>c z t. None), tl_cron_match = (\<lambda>c z t. False), tl_tz = (\<lambda>n. None)\<rparr>"

lemma plain_calendar_laws: "chrono_laws plain_calendar 0 (10 ^ 18)"
  by (simp add: chrono_laws_def plain_calendar_def max_duration_secs_def i64_max_def nanos_def)

definition crash_store :: schedule_store where
  "crash_store = [schedule_new 0 ''s1'' ''s1'' (EventTrigger ''crash.found'' 5 None) ''wf'']"

definition crash_at :: "time \<Rightarrow> emission" where
  "crash_at t = \<lparr>em_event = \<lparr>ie_cascade_depth = 0, ie_event_type = ''crash.found'', ie_payload = None, ie_timestamp = t,
     ie_source = Some ''s2''\<rparr>, em_running = True, em_room = 1, em_store = crash_store\<rparr>"

theorem debounce_separates_triggers_witness:
  "let times = fire_times ''s1'' (snd (run_outputs (emit_event plain_calendar plain_text_lib) Map.empty
       [crash_at 0, crash_at 2000000000, crash_at 10000000000]))
   in times = [0, 10000000000] \<and> sorted_wrt (\<lambda>t u. t + int 5 * nanos \<le> u) times"
proof -
  have "list_all (\<lambda>em. debounce_of ''s1'' 5 (em_store em)) [crash_at 0, crash_at 2000000000, crash_at 10000000000]"
    by (simp add: debounce_of_def crash_at_def crash_store_def schedule_new_def)
  from debounce_separates_triggers [OF plain_calendar_laws _ _ this, of plain_text_lib Map.empty]
  show ?thesis
    by (simp add: Let_def crash_at_def crash_store_def schedule_new_def emit_event_def prepare_triggers_def list_enabled_def
        map_filter_def prepare_trigger_def debounced_def plain_calendar_def fire_times_def quot_def nanos_def
        try_i64_def in_i64_def i64_min_def i64_max_def)
qed

end
