(* ===== verification/Execution_Store.thy ===== *)
theory Execution_Store
  imports Schedule_Params
begin

text \<open>
  The execution history of the scheduler (\<^verbatim>\<open>crates/hf-scheduler/src/executor.rs\<close>): the records of
  executions with their retention, the starts remembered for the hourly limit, and the executor that
  completes an execution at once when no dispatcher is installed. \<^verbatim>\<open>Utc::now()\<close> is an argument.
\<close>

section \<open>Records\<close>

datatype execution_status = ExecPending | ExecRunning | ExecCompleted | ExecFailed | ExecSkipped | ExecCancelled

fun execution_status_str :: "execution_status \<Rightarrow> string" where
  "execution_status_str ExecPending = ''pending''"
| "execution_status_str ExecRunning = ''running''"
| "execution_status_str ExecCompleted = ''completed''"
| "execution_status_str ExecFailed = ''failed''"
| "execution_status_str ExecSkipped = ''skipped''"
| "execution_status_str ExecCancelled = ''cancelled''"

record schedule_execution =
  se_id :: string
  se_schedule :: string
  se_triggered_at :: time
  se_started_at :: "time option"
  se_completed_at :: "time option"
  se_status :: execution_status
  se_workflow_execution :: "string option"
  se_request :: json
  se_response :: json
  se_error :: "string option"

definition is_active :: "execution_status \<Rightarrow> bool" where
  "is_active s \<longleftrightarrow> s = ExecPending \<or> s = ExecRunning"

section \<open>The store\<close>

text \<open>An absent entry of the starts is the empty list.\<close>

record execution_store =
  xs_records :: "schedule_execution list"
  xs_max_per_schedule :: nat
  xs_recent_starts :: "string \<Rightarrow> (string \<times> time) list"

definition with_retention :: "nat \<Rightarrow> execution_store" where
  "with_retention n = \<lparr>xs_records = [], xs_max_per_schedule = n, xs_recent_starts = (\<lambda>_. [])\<rparr>"

definition hour :: duration where
  "hour = 3600 * nanos"

definition remember_start :: "time \<Rightarrow> schedule_execution \<Rightarrow> execution_store \<Rightarrow> execution_store" where
  "remember_start now e st =
     (if se_status e = ExecSkipped then st
      else case se_started_at e of
        None \<Rightarrow> st
      | Some t \<Rightarrow>
          let kept = filter (\<lambda>(_, u). now - hour \<le> u) (xs_recent_starts st (se_schedule e));
              starts = (if list_ex (\<lambda>(i, _). i = se_id e) kept then kept else kept @ [(se_id e, t)])
          in st\<lparr>xs_recent_starts := (xs_recent_starts st)(se_schedule e := starts)\<rparr>)"

text \<open>A stable insertion sort stands for \<^verbatim>\<open>sort_by\<close> and \<^verbatim>\<open>sort_by_key\<close>.\<close>

fun insert_by :: "('a \<Rightarrow> 'a \<Rightarrow> bool) \<Rightarrow> 'a \<Rightarrow> 'a list \<Rightarrow> 'a list" where
  "insert_by le x [] = [x]"
| "insert_by le x (y # ys) = (if le x y then x # y # ys else y # insert_by le x ys)"

definition sort_by :: "('a \<Rightarrow> 'a \<Rightarrow> bool) \<Rightarrow> 'a list \<Rightarrow> 'a list" where
  "sort_by le xs = foldr (insert_by le) xs []"

definition newest_first :: "schedule_execution \<Rightarrow> schedule_execution \<Rightarrow> bool" where
  "newest_first a b \<longleftrightarrow> se_triggered_at b < se_triggered_at a
     \<or> (se_triggered_at a = se_triggered_at b \<and> str_le (se_id b) (se_id a))"

definition active_count :: "string \<Rightarrow> execution_store \<Rightarrow> nat" where
  "active_count s st = length (filter (\<lambda>e. se_schedule e = s \<and> is_active (se_status e)) (xs_records st))"

definition terminal_records :: "string \<Rightarrow> execution_store \<Rightarrow> schedule_execution list" where
  "terminal_records s st = filter (\<lambda>e. se_schedule e = s \<and> \<not> is_active (se_status e)) (xs_records st)"

definition retained_ids :: "string \<Rightarrow> execution_store \<Rightarrow> string list" where
  "retained_ids s st =
     map se_id (take (xs_max_per_schedule st - active_count s st) (sort_by newest_first (terminal_records s st)))"

definition enforce_retention :: "string \<Rightarrow> execution_store \<Rightarrow> execution_store" where
  "enforce_retention s st =
     (if xs_max_per_schedule st = 0 then st
      else st\<lparr>xs_records := filter (\<lambda>e. se_schedule e \<noteq> s \<or> is_active (se_status e) \<or> se_id e \<in> set (retained_ids s st))
             (xs_records st)\<rparr>)"

definition record_execution :: "time \<Rightarrow> schedule_execution \<Rightarrow> execution_store \<Rightarrow> execution_store" where
  "record_execution now e st =
     (let st1 = remember_start now e st
      in enforce_retention (se_schedule e) (st1\<lparr>xs_records := xs_records st1 @ [e]\<rparr>))"

definition get_execution :: "string \<Rightarrow> execution_store \<Rightarrow> schedule_execution option" where
  "get_execution i st = find (\<lambda>e. se_id e = i) (xs_records st)"

fun update_first :: "string \<Rightarrow> (schedule_execution \<Rightarrow> schedule_execution) \<Rightarrow> schedule_execution list \<Rightarrow> schedule_execution list" where
  "update_first i f [] = []"
| "update_first i f (e # es) = (if se_id e = i then f e # es else e # update_first i f es)"

definition update_and_get ::
  "time \<Rightarrow> string \<Rightarrow> (schedule_execution \<Rightarrow> schedule_execution) \<Rightarrow> execution_store \<Rightarrow> execution_store \<times> schedule_execution option" where
  "update_and_get now i f st = (case get_execution i st of
     None \<Rightarrow> (st, None)
   | Some e \<Rightarrow>
       let e' = f e;
           st1 = st\<lparr>xs_records := update_first i f (xs_records st)\<rparr>;
           st2 = (if se_started_at e = None then remember_start now e' st1 else st1)
       in (enforce_retention (se_schedule e') st2, Some e'))"

definition get_history :: "string \<Rightarrow> execution_store \<Rightarrow> schedule_execution list" where
  "get_history s st = sort_by (\<lambda>a b. se_triggered_at b \<le> se_triggered_at a) (filter (\<lambda>e. se_schedule e = s) (xs_records st))"

definition list_recent :: "nat \<Rightarrow> execution_store \<Rightarrow> schedule_execution list" where
  "list_recent n st = take n (sort_by (\<lambda>a b. se_triggered_at b \<le> se_triggered_at a) (xs_records st))"

definition started_since :: "string \<Rightarrow> time \<Rightarrow> execution_store \<Rightarrow> nat" where
  "started_since s since st = length (filter (\<lambda>(_, t). since \<le> t) (xs_recent_starts st s))"

definition pending_count :: "string \<Rightarrow> execution_store \<Rightarrow> nat" where
  "pending_count s st = length (filter (\<lambda>e. se_schedule e = s \<and> se_status e = ExecPending) (xs_records st))"

definition pending_records :: "execution_store \<Rightarrow> schedule_execution list" where
  "pending_records st = filter (\<lambda>e. se_status e = ExecPending) (xs_records st)"

section \<open>The executor without a dispatcher\<close>

type_synonym sequences = "string \<rightharpoonup> nat"

definition next_sequence_for :: "string \<Rightarrow> sequences \<Rightarrow> sequences \<times> nat" where
  "next_sequence_for s m = (let n = (case m s of Some k \<Rightarrow> k | None \<Rightarrow> 0) + 1 in (m(s \<mapsto> n), n))"

text \<open>The serialized trigger of a schedule (\<^verbatim>\<open>serde\<close>, tagged by \<^verbatim>\<open>type\<close>).\<close>

fun trigger_json :: "text_lib \<Rightarrow> trigger_config \<Rightarrow> json" where
  "trigger_json lib (CronTrigger e tz) =
     JObject [(''type'', JString ''cron''), (''expression'', JString e), (''timezone'', JString tz)]"
| "trigger_json lib (IntervalTrigger n) = JObject [(''type'', JString ''interval''), (''interval_secs'', JNumber (PosInt n))]"
| "trigger_json lib (EventTrigger ty d None) =
     JObject [(''type'', JString ''event''), (''event_type'', JString ty), (''debounce_secs'', JNumber (PosInt d))]"
| "trigger_json lib (EventTrigger ty d (Some (EventFilter fld pat))) =
     JObject [(''type'', JString ''event''), (''event_type'', JString ty), (''debounce_secs'', JNumber (PosInt d)),
       (''filter'', JObject [(''field'', JString fld), (''pattern'', JString pat)])]"
| "trigger_json lib (OneTimeTrigger at) = JObject [(''type'', JString ''one_time''), (''at'', JString (tx_serde_time lib at))]"

definition trigger_execution_at ::
  "text_lib \<Rightarrow> time \<Rightarrow> schedule \<Rightarrow> time \<Rightarrow> sequences \<Rightarrow> schedule_store \<Rightarrow> execution_store
    \<Rightarrow> sequences \<times> schedule_store \<times> execution_store \<times> schedule_execution" where
  "trigger_execution_at lib clock s now m st xs =
     (let (m', n) = next_sequence_for (sc_id s) m;
          i = ''exec-'' @ sc_id s @ ''-'' @ nat_str n;
          e = \<lparr>se_id = i, se_schedule = sc_id s, se_triggered_at = now, se_started_at = Some now, se_completed_at = Some now,
               se_status = ExecCompleted, se_workflow_execution = Some (''workflow-'' @ i),
               se_request = JObject [(''schedule_id'', JString (sc_id s)), (''schedule_name'', JString (sc_name s)),
                 (''workflow_id'', JString (sc_workflow s)), (''trigger'', trigger_json lib (sc_trigger s)),
                 (''parameter_values'', sc_parameters s), (''execution_sequence'', JNumber (PosInt n)),
                 (''trigger_time'', JString (tx_rfc3339 lib now))],
               se_response = JObject [(''status'', JString ''completed''),
                 (''message'', JString ''Workflow execution completed (instant-completion fallback)''),
                 (''workflow_execution_id'', JString (''workflow-'' @ i))],
               se_error = None\<rparr>
      in (m', update_last_fire (sc_id s) now st, record_execution clock e xs, e))"

section \<open>Retention\<close>

lemma set_insert_by [simp]: "set (insert_by le x xs) = insert x (set xs)"
  by (induction xs) auto

lemma length_insert_by [simp]: "length (insert_by le x xs) = Suc (length xs)"
  by (induction xs) auto

lemma sort_by_simps: "sort_by le [] = []" "sort_by le (x # xs) = insert_by le x (sort_by le xs)"
  by (simp_all add: sort_by_def)

lemma set_sort_by [simp]: "set (sort_by le xs) = set xs"
  by (induction xs) (auto simp: sort_by_simps)

lemma length_sort_by [simp]: "length (sort_by le xs) = length xs"
  by (induction xs) (auto simp: sort_by_simps)

lemma distinct_insert_by: "distinct (map f (insert_by le x xs)) \<longleftrightarrow> distinct (map f (x # xs))"
  by (induction xs) auto

lemma distinct_sort_by: "distinct (map f (sort_by le xs)) \<longleftrightarrow> distinct (map f xs)"
  by (induction xs) (auto simp: sort_by_simps distinct_insert_by)

lemma sorted_insert_by:
  assumes "\<And>x y. le x y \<or> le y x" "\<And>x y z. le x y \<Longrightarrow> le y z \<Longrightarrow> le x z"
  shows "sorted_wrt le xs \<Longrightarrow> sorted_wrt le (insert_by le x xs)"
proof (induction xs)
  case (Cons y ys)
  then have "\<forall>z\<in>set ys. le y z" "sorted_wrt le (insert_by le x ys)" by simp_all
  with Cons.prems show ?case using assms(1) [of x y] assms(2) [of x y] by (cases "le x y") auto
qed simp

lemma sorted_sort_by:
  assumes "\<And>x y. le x y \<or> le y x" "\<And>x y z. le x y \<Longrightarrow> le y z \<Longrightarrow> le x z"
  shows "sorted_wrt le (sort_by le xs)"
  by (induction xs) (auto simp: sort_by_simps intro: sorted_insert_by [OF assms])

lemma char_code_eq [simp]: "char_code c = char_code d \<longleftrightarrow> c = d"
  by (simp add: char_code_def)

lemma str_le_total: "str_le a b \<or> str_le b a"
proof (induction a b rule: str_le.induct)
  case (3 c cs d ds)
  then show ?case using char_code_eq [of c d] by (cases "char_code c" "char_code d" rule: linorder_cases) auto
qed auto

lemma str_le_trans: "str_le a b \<Longrightarrow> str_le b c \<Longrightarrow> str_le a c"
proof (induction a b arbitrary: c rule: str_le.induct)
  case (3 x xs y ys)
  then show ?case by (cases c) auto
qed auto

lemma newest_first_total: "newest_first x y \<or> newest_first y x"
  using str_le_total [of "se_id x" "se_id y"] by (auto simp: newest_first_def)

lemma newest_first_trans: "newest_first x y \<Longrightarrow> newest_first y z \<Longrightarrow> newest_first x z"
  by (auto simp: newest_first_def intro: str_le_trans)

lemma pending_enforce [simp]: "pending_count k (enforce_retention s st) = pending_count k st"
  by (auto simp: pending_count_def enforce_retention_def is_active_def intro!: arg_cong [where f = length] filter_cong)

lemma starts_enforce [simp]: "xs_recent_starts (enforce_retention s st) = xs_recent_starts st"
  by (simp add: enforce_retention_def)

lemma records_enforce: "set (xs_records (enforce_retention s st)) \<subseteq> set (xs_records st)"
  by (auto simp: enforce_retention_def)

lemma active_kept_enforce:
  "e \<in> set (xs_records st) \<Longrightarrow> is_active (se_status e) \<Longrightarrow> e \<in> set (xs_records (enforce_retention s st))"
  by (simp add: enforce_retention_def)

lemma distinct_enforce: "distinct (map se_id (xs_records st)) \<Longrightarrow> distinct (map se_id (xs_records (enforce_retention s st)))"
  by (simp add: enforce_retention_def distinct_map_filter)

lemma remember_records [simp]: "xs_records (remember_start now e st) = xs_records st"
  by (simp add: remember_start_def Let_def split: option.split)

lemma retained_terminal:
  assumes "distinct (map se_id (xs_records st))" "e \<in> set (xs_records st)" "se_schedule e = s" "\<not> is_active (se_status e)"
    "se_id e \<in> set (retained_ids s st)"
  shows "e \<in> set (take (xs_max_per_schedule st - active_count s st) (sort_by newest_first (terminal_records s st)))"
proof -
  let ?t = "take (xs_max_per_schedule st - active_count s st) (sort_by newest_first (terminal_records s st))"
  from assms(5) obtain x where x: "x \<in> set ?t" "se_id x = se_id e" by (auto simp: retained_ids_def)
  then have "x \<in> set (terminal_records s st)" using in_set_takeD set_sort_by by metis
  then have "x \<in> set (xs_records st)" by (simp add: terminal_records_def)
  with assms(1,2) x(2) have "x = e" by (simp add: distinct_map inj_on_def)
  with x(1) show ?thesis by simp
qed

definition records_of :: "string \<Rightarrow> execution_store \<Rightarrow> schedule_execution list" where
  "records_of s st = filter (\<lambda>e. se_schedule e = s) (xs_records st)"

lemma records_of_retained:
  assumes d: "distinct (map se_id (xs_records st))" and m: "0 < xs_max_per_schedule st"
  shows "length (records_of s (enforce_retention s st)) \<le> max (xs_max_per_schedule st) (active_count s st)"
proof -
  let ?n = "xs_max_per_schedule st - active_count s st"
  define kept where "kept = records_of s (enforce_retention s st)"
  define t where "t = filter (\<lambda>e. \<not> is_active (se_status e)) kept"
  have k: "kept = filter (\<lambda>e. se_schedule e = s \<and> (is_active (se_status e) \<or> se_id e \<in> set (retained_ids s st))) (xs_records st)"
    using m by (simp add: kept_def records_of_def enforce_retention_def) (auto intro: filter_cong)
  have "set t \<subseteq> set (take ?n (sort_by newest_first (terminal_records s st)))"
    using retained_terminal [OF d] by (auto simp: t_def k)
  then have "card (set t) \<le> card (set (take ?n (sort_by newest_first (terminal_records s st))))"
    by (simp add: card_mono)
  also have "\<dots> \<le> ?n" by (rule order.trans [OF card_length]) simp
  finally have "card (set t) \<le> ?n" .
  moreover have "distinct t" using d by (simp add: t_def k distinct_map)
  ultimately have "length t \<le> ?n" by (simp add: distinct_card)
  moreover have "length (filter (\<lambda>e. is_active (se_status e)) kept) = active_count s st"
    by (auto simp: k active_count_def intro!: arg_cong [where f = length] filter_cong)
  moreover have "length kept = length (filter (\<lambda>e. is_active (se_status e)) kept) + length t"
    by (simp add: t_def sum_length_filter_compl)
  ultimately show ?thesis by (simp add: kept_def)
qed

lemma sorted_take_drop: "sorted_wrt R xs \<Longrightarrow> x \<in> set (take n xs) \<Longrightarrow> y \<in> set xs \<Longrightarrow> y \<notin> set (take n xs) \<Longrightarrow> R x y"
  using sorted_wrt_append [of R "take n xs" "drop n xs"] by (metis Un_iff append_take_drop_id set_append)

text \<open>After a retention pass over a schedule with a limit, no more records of it are left than the
  limit or the number of its unfinished executions; every unfinished execution is left; and the
  finished executions that are left are at least as new as the ones that were dropped.\<close>

theorem retention_keeps_newest:
  assumes d: "distinct (map se_id (xs_records st))" and m: "0 < xs_max_per_schedule st"
  shows "length (records_of s (enforce_retention s st)) \<le> max (xs_max_per_schedule st) (active_count s st)
    \<and> (\<forall>e. e \<in> set (records_of s st) \<and> is_active (se_status e) \<longrightarrow> e \<in> set (records_of s (enforce_retention s st)))
    \<and> (\<forall>e x. e \<in> set (records_of s (enforce_retention s st)) \<and> \<not> is_active (se_status e)
         \<and> x \<in> set (records_of s st) \<and> x \<notin> set (records_of s (enforce_retention s st)) \<longrightarrow> newest_first e x)"
proof (intro conjI allI impI)
  show "length (records_of s (enforce_retention s st)) \<le> max (xs_max_per_schedule st) (active_count s st)"
    by (rule records_of_retained [OF assms])
next
  fix e assume "e \<in> set (records_of s st) \<and> is_active (se_status e)"
  then show "e \<in> set (records_of s (enforce_retention s st))" by (simp add: records_of_def active_kept_enforce)
next
  let ?n = "xs_max_per_schedule st - active_count s st" and ?ts = "sort_by newest_first (terminal_records s st)"
  fix e x assume h: "e \<in> set (records_of s (enforce_retention s st)) \<and> \<not> is_active (se_status e)
    \<and> x \<in> set (records_of s st) \<and> x \<notin> set (records_of s (enforce_retention s st))"
  with m have "e \<in> set (take ?n ?ts)"
    by (auto simp: records_of_def enforce_retention_def intro!: retained_terminal [OF d])
  moreover from h m have "x \<in> set ?ts" "x \<notin> set (take ?n ?ts)"
    by (auto simp: records_of_def enforce_retention_def terminal_records_def retained_ids_def)
  ultimately show "newest_first e x"
    using sorted_take_drop [OF sorted_sort_by [of newest_first, OF newest_first_total]] newest_first_trans by blast
qed

definition sample_record :: "string \<Rightarrow> time \<Rightarrow> execution_status \<Rightarrow> schedule_execution" where
  "sample_record i t stat = \<lparr>se_id = i, se_schedule = ''s1'', se_triggered_at = t, se_started_at = None, se_completed_at = None,
     se_status = stat, se_workflow_execution = None, se_request = JNull, se_response = JNull, se_error = None\<rparr>"

theorem retention_keeps_newest_witness:
  "let st = (with_retention 2)\<lparr>xs_records := [sample_record ''a'' 1 ExecCompleted, sample_record ''b'' 3 ExecFailed,
        sample_record ''c'' 2 ExecPending, sample_record ''d'' 4 ExecSkipped]\<rparr>
   in records_of ''s1'' (enforce_retention ''s1'' st) = [sample_record ''c'' 2 ExecPending, sample_record ''d'' 4 ExecSkipped]
      \<and> length (records_of ''s1'' (enforce_retention ''s1'' st)) \<le> max (xs_max_per_schedule st) (active_count ''s1'' st)"
proof -
  let ?st = "(with_retention 2)\<lparr>xs_records := [sample_record ''a'' 1 ExecCompleted, sample_record ''b'' 3 ExecFailed,
        sample_record ''c'' 2 ExecPending, sample_record ''d'' 4 ExecSkipped]\<rparr>"
  have "records_of ''s1'' (enforce_retention ''s1'' ?st) = [sample_record ''c'' 2 ExecPending, sample_record ''d'' 4 ExecSkipped]"
    by (simp add: records_of_def enforce_retention_def with_retention_def retained_ids_def active_count_def
        terminal_records_def sort_by_simps newest_first_def sample_record_def is_active_def)
  moreover have "distinct (map se_id (xs_records ?st))" "0 < xs_max_per_schedule ?st"
    by (simp_all add: with_retention_def sample_record_def)
  ultimately show ?thesis using retention_keeps_newest [of ?st "''s1''"] by (simp add: Let_def)
qed

section \<open>Effect of the operations on the counts of the hourly limit\<close>

lemma pending_remember [simp]: "pending_count k (remember_start now e st) = pending_count k st"
  by (simp add: pending_count_def)

definition pending_of :: "string \<Rightarrow> schedule_execution \<Rightarrow> nat" where
  "pending_of k e = (if se_schedule e = k \<and> se_status e = ExecPending then 1 else 0)"

lemma pending_record: "pending_count k (record_execution now e st) = pending_count k st + pending_of k e"
  by (simp add: record_execution_def Let_def) (simp add: pending_count_def pending_of_def)

lemma starts_record: "xs_recent_starts (record_execution now e st) = xs_recent_starts (remember_start now e st)"
  by (simp add: record_execution_def Let_def)

lemma remember_unstarted: "se_started_at e = None \<Longrightarrow> remember_start now e st = st"
  by (simp add: remember_start_def)

lemma get_execution_in: "get_execution i st = Some e \<Longrightarrow> e \<in> set (xs_records st) \<and> se_id e = i"
  unfolding get_execution_def by (auto dest: find_Some_iff_first)

lemma get_execution_unique:
  "distinct (map se_id (xs_records st)) \<Longrightarrow> e \<in> set (xs_records st) \<Longrightarrow> get_execution (se_id e) st = Some e"
proof -
  have "distinct (map se_id es) \<Longrightarrow> e \<in> set es \<Longrightarrow> find (\<lambda>x. se_id x = se_id e) es = Some e" for es
    by (induction es) (auto simp: image_iff)
  then show "distinct (map se_id (xs_records st)) \<Longrightarrow> e \<in> set (xs_records st) \<Longrightarrow> get_execution (se_id e) st = Some e"
    unfolding get_execution_def by blast
qed

text \<open>An update of a record, as the lists of records see it.\<close>

lemma pending_update_first:
  "find (\<lambda>e. se_id e = i) es = Some e \<Longrightarrow>
     length (filter (\<lambda>e. se_schedule e = k \<and> se_status e = ExecPending) (update_first i f es)) + pending_of k e
     = length (filter (\<lambda>e. se_schedule e = k \<and> se_status e = ExecPending) es) + pending_of k (f e)"
  by (induction es) (auto simp: pending_of_def split: if_splits)

lemma ids_update_first: "(\<And>e. se_id (f e) = se_id e) \<Longrightarrow> map se_id (update_first i f es) = map se_id es"
  by (induction es) auto

lemma set_update_first:
  "distinct (map se_id es) \<Longrightarrow> find (\<lambda>e. se_id e = i) es = Some e \<Longrightarrow>
     set (update_first i f es) = insert (f e) (set es - {e})"
proof (induction es)
  case (Cons x es)
  then show ?case by (cases "se_id x = i") (auto dest: find_Some_iff_first simp: image_iff)
qed simp

lemma pending_update:
  "get_execution i st = Some e \<Longrightarrow>
     pending_count k (fst (update_and_get now i f st)) + pending_of k e = pending_count k st + pending_of k (f e)"
  using pending_update_first [of i "xs_records st" e k f]
  by (auto simp: update_and_get_def Let_def get_execution_def) (simp_all add: pending_count_def)

lemma starts_update:
  "get_execution i st = Some e \<Longrightarrow>
     xs_recent_starts (fst (update_and_get now i f st)) =
       (if se_started_at e = None then xs_recent_starts (remember_start now (f e) st) else xs_recent_starts st)"
  by (auto simp: update_and_get_def Let_def remember_start_def split: option.splits)

lemma update_missing: "get_execution i st = None \<Longrightarrow> update_and_get now i f st = (st, None)"
  by (simp add: update_and_get_def)

end
