(* ===== verification/Workflow.thy ===== *)
theory Workflow
  imports Json
begin

text \<open>
  The interface between the scheduler and the workflows it starts, \<^verbatim>\<open>crates/hf-scheduler/src/dispatcher.rs\<close>:
  what a \<^verbatim>\<open>WorkflowDispatcher\<close> answers. The dispatcher of fuzzing campaigns implements it, the scheduler
  records its answers.
\<close>

record dispatch_result =
  dr_success :: bool
  dr_skipped :: bool
  dr_summary :: string
  dr_output :: json
  dr_duration_ms :: nat
  dr_error :: "string option"

datatype dispatch_error = WorkflowNotFound string | ParseError string | ExecutionFailed string | InternalDispatch string

fun dispatch_error_str :: "dispatch_error \<Rightarrow> string" where
  "dispatch_error_str (WorkflowNotFound i) = ''workflow not found: '' @ i"
| "dispatch_error_str (ParseError msg) = ''workflow parse error: '' @ msg"
| "dispatch_error_str (ExecutionFailed msg) = ''execution failed: '' @ msg"
| "dispatch_error_str (InternalDispatch msg) = ''internal dispatcher error: '' @ msg"

end
