(* ===== verification/Schedule_Dispatch.thy ===== *)
theory Schedule_Dispatch
  imports Schedule_Recovery Event_Bridge Execution_Store Workflow
begin

text \<open>
  Admission and dispatch of fired triggers: \<^verbatim>\<open>handle_fired_trigger\<close> of \<^verbatim>\<open>crates/hf-scheduler/src/manager.rs\<close>
  with the functions it calls, and the life of the dispatch tasks it spawns. The admission of a
  trigger holds the admission lock of its schedule and is one step; the start, the end and the
  withdrawal of a task are steps of their own, so the interleavings of a run are sequences of steps.
  The clock, the fresh execution id, the answers of the persistence adapter and of the workflow are
  arguments. One-time triggers leave this path for the receipts of \<^verbatim>\<open>Occurrence_Store\<close>.
\<close>

section \<open>State\<close>

datatype one_time_runtime_status = OneTimeReady | OneTimeConsumed | OneTimeRecoveryRequired string

datatype task_phase = TaskQueued | TaskRunning | TaskFinished

text \<open>A tracked dispatch with the values its task captured: whether it waits for the serial lock of
  its schedule, whether it carries the failure flag of a recovery, and whether its schedule had a
  pending recovery.\<close>

record tracked_dispatch =
  td_execution :: string
  td_schedule :: string
  td_serial :: bool
  td_recovery :: bool
  td_watches_recovery :: bool
  td_depth :: nat
  td_workflow :: string
  td_parameters :: json
  td_phase :: task_phase

record dispatch_state =
  ds_store :: schedule_store
  ds_executions :: execution_store
  ds_sequences :: sequences
  ds_tasks :: "tracked_dispatch list"
  ds_recovery_failed :: "string \<Rightarrow> bool"
  ds_one_time_status :: "string \<rightharpoonup> one_time_runtime_status"
  ds_one_time_block :: "string option"

record ('c, 'z) dispatch_config =
  dc_calendar :: "('c, 'z) time_lib"
  dc_text :: text_lib
  dc_slots :: nat
  dc_max_depth :: nat

text \<open>What one admission reads from outside: the clock, the suffix of a new execution id, whether a
  dispatcher is installed, and the persistence adapter, if any, with its answer to
  \<^verbatim>\<open>executions_started_since\<close> (\<open>None\<close> for an error) and whether its writes succeed.\<close>

record admission_env =
  ae_now :: time
  ae_uuid :: string
  ae_dispatcher :: bool
  ae_persistence :: "(nat option \<times> bool) option"

datatype admission_outcome =
    TriggerDropped
  | RecoveryDenied
  | PolicySkipped string
  | OneTimeBlocked
  | OneTimeTriggered
  | DispatchFailed string
  | PendingParked string
  | Dispatched string
  | FallbackCompleted string

section \<open>Admission\<close>

definition cursor_time :: "fired_trigger \<Rightarrow> time \<Rightarrow> time" where
  "cursor_time f now = (if ft_is_recovery f then ft_fired_at f else max (ft_fired_at f) now)"

definition one_time_trigger_blocked :: "string \<Rightarrow> dispatch_state \<Rightarrow> bool" where
  "one_time_trigger_blocked i st \<longleftrightarrow> ds_one_time_block st \<noteq> None
     \<or> (case ds_one_time_status st i of
          Some OneTimeConsumed \<Rightarrow> True
        | Some (OneTimeRecoveryRequired _) \<Rightarrow> True
        | _ \<Rightarrow> False)"

definition load_unblocked_schedule :: "fired_trigger \<Rightarrow> dispatch_state \<Rightarrow> (schedule \<times> bool) option" where
  "load_unblocked_schedule f st = (case store_get (ft_schedule f) (ds_store st) of
     None \<Rightarrow> None
   | Some s \<Rightarrow>
       let one_time = is_one_time (sc_trigger s) in
       if one_time \<and> one_time_trigger_blocked (sc_id s) st then None else Some (s, one_time))"

definition fail_recovery :: "string \<Rightarrow> dispatch_state \<Rightarrow> dispatch_state" where
  "fail_recovery i st = st\<lparr>ds_recovery_failed := (ds_recovery_failed st)(i := True)\<rparr>"

definition recovery_admission_allowed ::
  "('c, 'z) time_lib \<Rightarrow> schedule \<Rightarrow> fired_trigger \<Rightarrow> recovery_checkpoint option \<Rightarrow> dispatch_state \<Rightarrow> dispatch_state \<times> bool" where
  "recovery_admission_allowed cal s f expected st =
     (if sc_recovery_pending s \<noteq> None \<and> ds_recovery_failed st (sc_id s) then (st, False)
      else if ft_is_recovery f \<and> (sc_recovery_pending s \<noteq> expected
                \<or> (case expected of None \<Rightarrow> True | Some c \<Rightarrow> \<not> matches_identity cal c s))
      then (fail_recovery (sc_id s) st, False)
      else (st, True))"

text \<open>A recovery runs behind \<^verbatim>\<open>RecoveryPersistence\<close>: a failed write raises the failure flag.\<close>

definition note_write :: "admission_env \<Rightarrow> fired_trigger \<Rightarrow> dispatch_state \<Rightarrow> dispatch_state" where
  "note_write env f st = (case ae_persistence env of
     Some (_, False) \<Rightarrow> (if ft_is_recovery f then fail_recovery (ft_schedule f) st else st)
   | _ \<Rightarrow> st)"

definition execution_id :: "admission_env \<Rightarrow> schedule \<Rightarrow> string" where
  "execution_id env s = ''exec-'' @ sc_id s @ ''-'' @ ae_uuid env"

definition schedule_summary :: "text_lib \<Rightarrow> schedule \<Rightarrow> json \<Rightarrow> (string \<times> json) list" where
  "schedule_summary lib s params = [(''schedule_id'', JString (sc_id s)), (''schedule_name'', JString (sc_name s)),
     (''workflow_id'', JString (sc_workflow s)), (''trigger'', trigger_json lib (sc_trigger s)), (''parameter_values'', params)]"

text \<open>The record enters the history and the cursor of the schedule advances.\<close>

definition record_and_advance ::
  "admission_env \<Rightarrow> fired_trigger \<Rightarrow> schedule \<Rightarrow> schedule_execution \<Rightarrow> dispatch_state \<Rightarrow> dispatch_state" where
  "record_and_advance env f s e st = note_write env f
     (st\<lparr>ds_executions := record_execution (ae_now env) e (ds_executions st),
         ds_store := update_last_fire (sc_id s) (cursor_time f (ae_now env)) (ds_store st)\<rparr>)"

definition record_policy_skip ::
  "text_lib \<Rightarrow> admission_env \<Rightarrow> fired_trigger \<Rightarrow> schedule \<Rightarrow> string \<Rightarrow> dispatch_state \<Rightarrow> dispatch_state" where
  "record_policy_skip lib env f s reason st = record_and_advance env f s
     \<lparr>se_id = execution_id env s, se_schedule = sc_id s, se_triggered_at = ft_fired_at f, se_started_at = None,
      se_completed_at = Some (ae_now env), se_status = ExecSkipped, se_workflow_execution = None,
      se_request = JObject (schedule_summary lib s (sc_parameters s) @
        [(''trigger_time'', JString (tx_rfc3339 lib (ft_fired_at f))), (''cascade_depth'', JNumber (PosInt (ft_cascade_depth f))),
         (''is_recovery'', JBool (ft_is_recovery f))]),
      se_response = JObject [(''status'', JString ''skipped''), (''reason'', JString reason)], se_error = None\<rparr> st"

definition record_dispatch_failure ::
  "text_lib \<Rightarrow> admission_env \<Rightarrow> fired_trigger \<Rightarrow> schedule \<Rightarrow> string \<Rightarrow> dispatch_state \<Rightarrow> dispatch_state" where
  "record_dispatch_failure lib env f s msg st = record_and_advance env f s
     \<lparr>se_id = execution_id env s, se_schedule = sc_id s, se_triggered_at = ft_fired_at f, se_started_at = None,
      se_completed_at = Some (ae_now env), se_status = ExecFailed, se_workflow_execution = None,
      se_request = JObject (schedule_summary lib s (sc_parameters s) @
        [(''trigger_time'', JString (tx_rfc3339 lib (ft_fired_at f))), (''cascade_depth'', JNumber (PosInt (ft_cascade_depth f)))]),
      se_response = JObject [(''status'', JString ''failed''), (''error'', JString msg)], se_error = Some msg\<rparr> st"

text \<open>The hourly limit counts the starts of the last hour, in memory or in storage, and the executions
  that wait for their start. \<open>Inl\<close> is a refusal.\<close>

definition admit_hourly_execution ::
  "text_lib \<Rightarrow> admission_env \<Rightarrow> fired_trigger \<Rightarrow> schedule \<Rightarrow> bool \<Rightarrow> dispatch_state \<Rightarrow> dispatch_state \<times> admission_outcome option" where
  "admit_hourly_execution lib env f s one_time st =
     (let limit = sp_max_per_hour (sc_policies s) in
      if limit = 0 then (st, None)
      else
        let live = started_since (sc_id s) (ae_now env - hour) (ds_executions st);
            waiting = pending_count (sc_id s) (ds_executions st)
        in case (case ae_persistence env of None \<Rightarrow> Some 0 | Some (answer, _) \<Rightarrow> answer) of
            None \<Rightarrow>
              if one_time
              then (st\<lparr>ds_one_time_block := Some ''one-time hourly execution history is unavailable''\<rparr>, Some OneTimeBlocked)
              else let reason = ''hourly execution history is unavailable''
                   in (record_policy_skip lib env f s reason st, Some (PolicySkipped reason))
          | Some persisted \<Rightarrow>
              if limit \<le> sat_add_u64 (max live persisted) waiting
              then let reason = ''hourly execution limit reached ('' @ nat_str limit @ '')''
                   in (record_policy_skip lib env f s reason st, Some (PolicySkipped reason))
              else (st, None))"

definition admit_trigger ::
  "('c, 'z) dispatch_config \<Rightarrow> admission_env \<Rightarrow> fired_trigger \<Rightarrow> recovery_checkpoint option \<Rightarrow> dispatch_state
    \<Rightarrow> dispatch_state \<times> (admission_outcome, schedule) result" where
  "admit_trigger cfg env f expected st = (case load_unblocked_schedule f st of
     None \<Rightarrow> ((if ft_is_recovery f then fail_recovery (ft_schedule f) st else st), Inl TriggerDropped)
   | Some (s, one_time) \<Rightarrow>
       (case recovery_admission_allowed (dc_calendar cfg) s f expected st of
          (st1, False) \<Rightarrow> (st1, Inl RecoveryDenied)
        | (st1, True) \<Rightarrow>
            if dc_max_depth cfg < ft_cascade_depth f
            then let reason = ''event cascade depth '' @ nat_str (ft_cascade_depth f) @ '' exceeds limit '' @ nat_str (dc_max_depth cfg)
                 in (record_policy_skip (dc_text cfg) env f s reason st1, Inl (PolicySkipped reason))
            else (case admit_hourly_execution (dc_text cfg) env f s one_time st1 of
                (st2, Some refused) \<Rightarrow> (st2, Inl refused)
              | (st2, None) \<Rightarrow> (st2, if one_time then Inl OneTimeTriggered else Inr s))))"

section \<open>Dispatch\<close>

definition dispatch_policy :: "fired_trigger \<Rightarrow> schedule \<Rightarrow> concurrency_policy" where
  "dispatch_policy f s =
     (if ft_is_recovery f \<and> effective_missed_policy (sc_policies s) = Backfill then QueueTrigger
      else effective_concurrency_policy (sc_policies s))"

definition schedule_has_active_dispatch :: "tracked_dispatch list \<Rightarrow> string \<Rightarrow> bool" where
  "schedule_has_active_dispatch ts i = list_ex (\<lambda>t. td_schedule t = i) (filter (\<lambda>t. td_phase t \<noteq> TaskFinished) ts)"

definition take_active_dispatches :: "tracked_dispatch list \<Rightarrow> string \<Rightarrow> tracked_dispatch list \<times> tracked_dispatch list" where
  "take_active_dispatches ts i =
     (let live = filter (\<lambda>t. td_phase t \<noteq> TaskFinished) ts
      in (filter (\<lambda>t. td_schedule t \<noteq> i) live, filter (\<lambda>t. td_schedule t = i) live))"

definition cancel_record :: "string \<Rightarrow> time \<Rightarrow> schedule_execution \<Rightarrow> schedule_execution" where
  "cancel_record reason now e =
     (if is_active (se_status e)
      then e\<lparr>se_status := ExecCancelled, se_completed_at := Some now, se_error := Some reason,
             se_response := JObject [(''status'', JString ''cancelled''), (''reason'', JString reason)]\<rparr>
      else e)"

definition cancel_execution :: "time \<Rightarrow> execution_store \<Rightarrow> tracked_dispatch \<Rightarrow> execution_store" where
  "cancel_execution now xs t =
     fst (update_and_get now (td_execution t) (cancel_record ''cancelled by newer schedule trigger'' now) xs)"

definition cancel_previous_dispatches :: "admission_env \<Rightarrow> fired_trigger \<Rightarrow> string \<Rightarrow> dispatch_state \<Rightarrow> dispatch_state" where
  "cancel_previous_dispatches env f i st =
     (let (retained, cancelled) = take_active_dispatches (ds_tasks st) i;
          st1 = (if list_ex td_recovery cancelled then fail_recovery i st else st);
          st2 = st1\<lparr>ds_tasks := retained, ds_executions := foldl (cancel_execution (ae_now env)) (ds_executions st1) cancelled\<rparr>
      in if cancelled = [] then st2 else note_write env f st2)"

fun resolve_error_str :: "resolve_error \<Rightarrow> string" where
  "resolve_error_str (UnknownExpression e) = ''unknown parameter expression: '' @ e"
| "resolve_error_str (EventFieldNotFound f) = ''event payload field not found: '' @ f"

definition pending_execution :: "text_lib \<Rightarrow> string \<Rightarrow> schedule \<Rightarrow> fired_trigger \<Rightarrow> json \<Rightarrow> nat \<Rightarrow> schedule_execution" where
  "pending_execution lib i s f params n = \<lparr>se_id = i, se_schedule = sc_id s, se_triggered_at = ft_fired_at f,
     se_started_at = None, se_completed_at = None, se_status = ExecPending, se_workflow_execution = None,
     se_request = JObject (schedule_summary lib s params @
       [(''execution_sequence'', JNumber (PosInt n)), (''trigger_time'', JString (tx_rfc3339 lib (ft_fired_at f))),
        (''cascade_depth'', JNumber (PosInt (ft_cascade_depth f))), (''is_recovery'', JBool (ft_is_recovery f))]),
     se_response = JObject [], se_error = None\<rparr>"

text \<open>From the resolved parameters on: record, cursor, and the task behind the ones of the schedule.\<close>

definition spawn_dispatch ::
  "('c, 'z) dispatch_config \<Rightarrow> admission_env \<Rightarrow> fired_trigger \<Rightarrow> schedule \<Rightarrow> json \<Rightarrow> nat \<Rightarrow> dispatch_state
    \<Rightarrow> dispatch_state \<times> admission_outcome" where
  "spawn_dispatch cfg env f s params n st =
     (let i = execution_id env s;
          st1 = record_and_advance env f s (pending_execution (dc_text cfg) i s f params n) st
      in if sc_recovery_pending s \<noteq> None \<and> ds_recovery_failed st1 (sc_id s) then (st1, PendingParked i)
         else (st1\<lparr>ds_tasks := filter (\<lambda>t. td_phase t \<noteq> TaskFinished) (ds_tasks st1) @
                 [\<lparr>td_execution = i, td_schedule = sc_id s, td_serial = (dispatch_policy f s = QueueTrigger),
                   td_recovery = ft_is_recovery f, td_watches_recovery = (sc_recovery_pending s \<noteq> None),
                   td_depth = ft_cascade_depth f, td_workflow = sc_workflow s, td_parameters = params,
                   td_phase = TaskQueued\<rparr>]\<rparr>, Dispatched i))"

definition dispatch_trigger ::
  "('c, 'z) dispatch_config \<Rightarrow> admission_env \<Rightarrow> fired_trigger \<Rightarrow> schedule \<Rightarrow> dispatch_state
    \<Rightarrow> dispatch_state \<times> admission_outcome" where
  "dispatch_trigger cfg env f s st =
     (let policy = dispatch_policy f s in
      if policy = SkipIfRunning \<and> schedule_has_active_dispatch (ds_tasks st) (sc_id s)
      then let reason = ''previous execution is still running''
           in (record_policy_skip (dc_text cfg) env f s reason st, PolicySkipped reason)
      else
        let st1 = (if policy = CancelPrevious then cancel_previous_dispatches env f (sc_id s) st else st);
            (sequences, n) = next_sequence_for (sc_id s) (ds_sequences st1);
            st2 = st1\<lparr>ds_sequences := sequences\<rparr>;
            ctx = \<lparr>cx_time = ft_fired_at f, cx_type = ft_type f, cx_sequence = n, cx_payload = ft_event_payload f\<rparr>
        in case resolve_parameters (dc_text cfg) (JObject []) (sc_parameters s) ctx of
             Inl err \<Rightarrow>
               let msg = ''parameter resolution failed: '' @ resolve_error_str err
               in (record_dispatch_failure (dc_text cfg) env f s msg st2, DispatchFailed msg)
           | Inr params \<Rightarrow> spawn_dispatch cfg env f s params n st2)"

text \<open>The fallback without a dispatcher completes the execution at once.\<close>

definition with_cascade_fields :: "fired_trigger \<Rightarrow> schedule_execution \<Rightarrow> schedule_execution" where
  "with_cascade_fields f e = (case se_request e of
     JObject kvs \<Rightarrow> e\<lparr>se_request := JObject (obj_insert ''is_recovery'' (JBool (ft_is_recovery f))
                      (obj_insert ''cascade_depth'' (JNumber (PosInt (ft_cascade_depth f))) kvs))\<rparr>
   | _ \<Rightarrow> e)"

definition dispatch_fallback ::
  "text_lib \<Rightarrow> admission_env \<Rightarrow> fired_trigger \<Rightarrow> schedule \<Rightarrow> dispatch_state \<Rightarrow> dispatch_state \<times> admission_outcome" where
  "dispatch_fallback lib env f s st =
     (let (m, store, xs, e) = trigger_execution_at lib (ae_now env) s (cursor_time f (ae_now env)) (ds_sequences st)
                                (ds_store st) (ds_executions st);
          xs' = fst (update_and_get (ae_now env) (se_id e) (with_cascade_fields f) xs)
      in (note_write env f (st\<lparr>ds_sequences := m, ds_store := store, ds_executions := xs'\<rparr>), FallbackCompleted (se_id e)))"

definition handle_fired_trigger ::
  "('c, 'z) dispatch_config \<Rightarrow> admission_env \<Rightarrow> fired_trigger \<Rightarrow> recovery_checkpoint option \<Rightarrow> dispatch_state
    \<Rightarrow> dispatch_state \<times> admission_outcome" where
  "handle_fired_trigger cfg env f expected st = (case admit_trigger cfg env f expected st of
     (st1, Inl refused) \<Rightarrow> (st1, refused)
   | (st1, Inr s) \<Rightarrow>
       if ae_dispatcher env then dispatch_trigger cfg env f s st1 else dispatch_fallback (dc_text cfg) env f s st1)"

text \<open>A trigger of the queue is never a recovery.\<close>

definition handle_queued_trigger ::
  "('c, 'z) dispatch_config \<Rightarrow> admission_env \<Rightarrow> fired_trigger \<Rightarrow> dispatch_state \<Rightarrow> dispatch_state \<times> admission_outcome" where
  "handle_queued_trigger cfg env f st = handle_fired_trigger cfg env (f\<lparr>ft_is_recovery := False\<rparr>) None st"

section \<open>The life of a task\<close>

definition set_phase :: "string \<Rightarrow> task_phase \<Rightarrow> tracked_dispatch list \<Rightarrow> tracked_dispatch list" where
  "set_phase i p ts = map (\<lambda>t. if td_execution t = i then t\<lparr>td_phase := p\<rparr> else t) ts"

definition find_task :: "string \<Rightarrow> tracked_dispatch list \<Rightarrow> tracked_dispatch option" where
  "find_task i ts = find (\<lambda>t. td_execution t = i) ts"

definition running_tasks :: "tracked_dispatch list \<Rightarrow> tracked_dispatch list" where
  "running_tasks ts = filter (\<lambda>t. td_phase t = TaskRunning) ts"

text \<open>The serial lock is fair: a task that queues has it once every earlier queueing task of its
  schedule has ended.\<close>

definition serial_free :: "tracked_dispatch \<Rightarrow> tracked_dispatch list \<Rightarrow> bool" where
  "serial_free t ts \<longleftrightarrow> \<not> td_serial t \<or>
     list_all (\<lambda>u. td_serial u \<and> td_schedule u = td_schedule t \<longrightarrow> td_phase u = TaskFinished)
       (takeWhile (\<lambda>u. td_execution u \<noteq> td_execution t) ts)"

definition recovery_enabled :: "tracked_dispatch \<Rightarrow> dispatch_state \<Rightarrow> bool" where
  "recovery_enabled t st \<longleftrightarrow> \<not> td_recovery t \<or>
     (case store_get (td_schedule t) (ds_store st) of Some s \<Rightarrow> sc_enabled s | None \<Rightarrow> False)"

definition start_record :: "time \<Rightarrow> schedule_execution \<Rightarrow> schedule_execution" where
  "start_record now e = e\<lparr>se_status := ExecRunning, se_started_at := Some now\<rparr>"

text \<open>A task starts once it has its serial lock and an execution permit; \<open>None\<close> while it waits. A write
  that fails behind a recovery withdraws it after its record says running.\<close>

definition start_task :: "('c, 'z) dispatch_config \<Rightarrow> time \<Rightarrow> bool \<Rightarrow> string \<Rightarrow> dispatch_state \<Rightarrow> dispatch_state option" where
  "start_task cfg now write_ok i st = (case find_task i (ds_tasks st) of
     None \<Rightarrow> None
   | Some t \<Rightarrow>
       if td_phase t = TaskQueued \<and> serial_free t (ds_tasks st) \<and> length (running_tasks (ds_tasks st)) < dc_slots cfg
          \<and> recovery_enabled t st \<and> \<not> (td_watches_recovery t \<and> ds_recovery_failed st (td_schedule t))
       then
         let st1 = st\<lparr>ds_executions := fst (update_and_get now i (start_record now) (ds_executions st))\<rparr>;
             st2 = (if td_recovery t \<and> \<not> write_ok then fail_recovery (td_schedule t) st1 else st1);
             p = (if td_watches_recovery t \<and> ds_recovery_failed st2 (td_schedule t) then TaskFinished else TaskRunning)
         in Some (st2\<lparr>ds_tasks := set_phase i p (ds_tasks st2)\<rparr>)
       else None)"

text \<open>A queued task of a recovery that failed, or whose schedule is gone, returns without a start.\<close>

definition withdraw_task :: "string \<Rightarrow> dispatch_state \<Rightarrow> dispatch_state option" where
  "withdraw_task i st = (case find_task i (ds_tasks st) of
     None \<Rightarrow> None
   | Some t \<Rightarrow>
       if td_phase t \<noteq> TaskQueued then None
       else if td_recovery t \<and> store_get (td_schedule t) (ds_store st) = None
       then Some ((fail_recovery (td_schedule t) st)\<lparr>ds_tasks := set_phase i TaskFinished (ds_tasks st)\<rparr>)
       else if td_watches_recovery t \<and> ds_recovery_failed st (td_schedule t)
       then Some (st\<lparr>ds_tasks := set_phase i TaskFinished (ds_tasks st)\<rparr>)
       else None)"

text \<open>The record of an execution after its workflow answered: a result, or an error.\<close>

fun finish_record :: "time \<Rightarrow> nat \<Rightarrow> dispatch_error + dispatch_result \<Rightarrow> schedule_execution \<Rightarrow> schedule_execution" where
  "finish_record now ms (Inr r) e =
     (let (stat, name) = (if dr_skipped r then (ExecSkipped, ''skipped'')
                          else if dr_success r then (ExecCompleted, ''completed'') else (ExecFailed, ''failed''))
      in e\<lparr>se_status := stat, se_completed_at := Some now,
           se_response := JObject [(''status'', JString name), (''summary'', JString (dr_summary r)),
             (''output'', dr_output r), (''duration_ms'', JNumber (PosInt ms))],
           se_error := (if dr_success r then se_error e else dr_error r)\<rparr>)"
| "finish_record now ms (Inl err) e =
     e\<lparr>se_status := ExecFailed, se_completed_at := Some now,
       se_response := JObject [(''status'', JString ''failed''), (''error'', JString (dispatch_error_str err))], se_error := Some (dispatch_error_str err)\<rparr>"

definition finish_task :: "time \<Rightarrow> nat \<Rightarrow> bool \<Rightarrow> dispatch_error + dispatch_result \<Rightarrow> string \<Rightarrow> dispatch_state \<Rightarrow> dispatch_state option" where
  "finish_task now ms write_ok answer i st = (case find_task i (ds_tasks st) of
     None \<Rightarrow> None
   | Some t \<Rightarrow>
       if td_phase t \<noteq> TaskRunning then None
       else
         let st1 = st\<lparr>ds_executions := fst (update_and_get now i (finish_record now ms answer) (ds_executions st)),
                      ds_tasks := set_phase i TaskFinished (ds_tasks st)\<rparr>
         in Some (if td_recovery t \<and> \<not> write_ok then fail_recovery (td_schedule t) st1 else st1))"

text \<open>Shutdown: every tracked task is aborted and its unfinished record closed, then the pending records
  of schedules that are not one-time, whose admission was interrupted before a task was tracked.\<close>

definition stop_reason :: string where
  "stop_reason = ''scheduler stopped before completion''"

definition close_execution :: "time \<Rightarrow> execution_store \<Rightarrow> string \<Rightarrow> execution_store" where
  "close_execution now xs i = (case get_execution i xs of
     None \<Rightarrow> xs
   | Some e \<Rightarrow> if is_active (se_status e) then fst (update_and_get now i (\<lambda>_. cancel_record stop_reason now e) xs) else xs)"

definition request_trigger_type :: "schedule_execution \<Rightarrow> string option" where
  "request_trigger_type e = (case Option.bind (jget ''trigger'' (se_request e)) (jget ''type'') of
     Some (JString t) \<Rightarrow> Some t | _ \<Rightarrow> None)"

definition abandoned_records :: "execution_store \<Rightarrow> schedule_execution list" where
  "abandoned_records xs = filter (\<lambda>e. request_trigger_type e \<in> {Some ''cron'', Some ''interval'', Some ''event''}) (pending_records xs)"

definition stop_dispatches :: "time \<Rightarrow> dispatch_state \<Rightarrow> dispatch_state" where
  "stop_dispatches now st =
     (let unfinished = filter (\<lambda>t. td_phase t \<noteq> TaskFinished) (ds_tasks st);
          xs1 = foldl (close_execution now) (ds_executions st) (map td_execution unfinished);
          xs2 = foldl (close_execution now) xs1 (map se_id (abandoned_records xs1))
      in st\<lparr>ds_tasks := [], ds_executions := xs2\<rparr>)"

section \<open>Runs\<close>

datatype dispatch_event =
    HandleTrigger admission_env fired_trigger "recovery_checkpoint option"
  | StartTask time bool string
  | FinishTask time nat bool "dispatch_error + dispatch_result" string
  | WithdrawTask string
  | ChangeRegistry schedule_store
  | StopScheduler time

fun dispatch_step :: "('c, 'z) dispatch_config \<Rightarrow> dispatch_state \<Rightarrow> dispatch_event \<Rightarrow> dispatch_state option" where
  "dispatch_step cfg st (HandleTrigger env f expected) = Some (fst (handle_fired_trigger cfg env f expected st))"
| "dispatch_step cfg st (StartTask now ok i) = start_task cfg now ok i st"
| "dispatch_step cfg st (FinishTask now ms ok answer i) = finish_task now ms ok answer i st"
| "dispatch_step cfg st (WithdrawTask i) = withdraw_task i st"
| "dispatch_step cfg st (ChangeRegistry store) = Some (st\<lparr>ds_store := store\<rparr>)"
| "dispatch_step cfg st (StopScheduler now) = Some (stop_dispatches now st)"

fun event_time :: "time \<Rightarrow> dispatch_event \<Rightarrow> time" where
  "event_time t (HandleTrigger env f expected) = ae_now env"
| "event_time t (StartTask now ok i) = now"
| "event_time t (FinishTask now ms ok answer i) = now"
| "event_time t (StopScheduler now) = now"
| "event_time t _ = t"

text \<open>The starts of a run: schedule, execution and time.\<close>

type_synonym start_log = "(string \<times> string \<times> time) list"

fun starts_of :: "dispatch_state \<Rightarrow> dispatch_event \<Rightarrow> start_log" where
  "starts_of st (StartTask now ok i) = (case find_task i (ds_tasks st) of Some t \<Rightarrow> [(td_schedule t, i, now)] | None \<Rightarrow> [])"
| "starts_of st _ = []"

text \<open>A generated id is new: no record, task or earlier start has it.\<close>

definition used_ids :: "dispatch_state \<Rightarrow> start_log \<Rightarrow> string set" where
  "used_ids st log = set (map se_id (xs_records (ds_executions st))) \<union> set (map td_execution (ds_tasks st)) \<union> set (map (fst \<circ> snd) log)"

fun event_fresh :: "dispatch_state \<Rightarrow> start_log \<Rightarrow> dispatch_event \<Rightarrow> bool" where
  "event_fresh st log (HandleTrigger env f expected) \<longleftrightarrow> ae_dispatcher env \<and>
     (case store_get (ft_schedule f) (ds_store st) of Some s \<Rightarrow> execution_id env s \<notin> used_ids st log | None \<Rightarrow> True)"
| "event_fresh st log _ \<longleftrightarrow> True"

definition dispatch_initial :: "schedule_store \<Rightarrow> nat \<Rightarrow> dispatch_state" where
  "dispatch_initial store keep = \<lparr>ds_store = store, ds_executions = with_retention keep, ds_sequences = Map.empty, ds_tasks = [],
     ds_recovery_failed = (\<lambda>_. False), ds_one_time_status = Map.empty, ds_one_time_block = None\<rparr>"

text \<open>The runs of a scheduler with its dispatcher installed whose events satisfy \<open>ok\<close>: the state, the
  clock and the starts so far. The clock does not go back.\<close>

inductive dispatch_run ::
  "('c, 'z) dispatch_config \<Rightarrow> (dispatch_state \<Rightarrow> dispatch_event \<Rightarrow> bool) \<Rightarrow> dispatch_state \<Rightarrow> time \<Rightarrow> start_log \<Rightarrow> bool"
  for cfg :: "('c, 'z) dispatch_config" and ok :: "dispatch_state \<Rightarrow> dispatch_event \<Rightarrow> bool" where
  run_start: "dispatch_run cfg ok (dispatch_initial store keep) t []"
| run_step: "dispatch_run cfg ok st t log \<Longrightarrow> ok st e \<Longrightarrow> event_fresh st log e \<Longrightarrow> t \<le> event_time t e \<Longrightarrow>
    dispatch_step cfg st e = Some st' \<Longrightarrow> dispatch_run cfg ok st' (event_time t e) (log @ starts_of st e)"

section \<open>The parts of a step\<close>

text \<open>Every step acts on the executions and tasks through a few changes: a record that has not started
  enters, the record of a task is updated, tasks leave or one queued task enters.\<close>

lemma note_write_parts [simp]:
  "ds_executions (note_write env f st) = ds_executions st" "ds_tasks (note_write env f st) = ds_tasks st"
  "ds_store (note_write env f st) = ds_store st"
  by (auto simp: note_write_def fail_recovery_def split: option.split prod.split bool.split)

lemma fail_recovery_parts [simp]:
  "ds_executions (fail_recovery i st) = ds_executions st" "ds_tasks (fail_recovery i st) = ds_tasks st"
  "ds_store (fail_recovery i st) = ds_store st"
  by (simp_all add: fail_recovery_def)

lemma record_and_advance_parts [simp]:
  "ds_executions (record_and_advance env f s e st) = record_execution (ae_now env) e (ds_executions st)"
  "ds_tasks (record_and_advance env f s e st) = ds_tasks st"
  by (simp_all add: record_and_advance_def)

lemma recovery_admission_parts [simp]:
  "ds_executions (fst (recovery_admission_allowed cal s f expected st)) = ds_executions st"
  "ds_tasks (fst (recovery_admission_allowed cal s f expected st)) = ds_tasks st"
  by (auto simp: recovery_admission_allowed_def)

text \<open>A record that an admission writes: its id is the new one and it has not started.\<close>

definition new_record :: "admission_env \<Rightarrow> schedule \<Rightarrow> schedule_execution \<Rightarrow> bool" where
  "new_record env s e \<longleftrightarrow> se_id e = execution_id env s \<and> se_schedule e = sc_id s \<and> se_started_at e = None"

lemma record_policy_skip_parts:
  "\<exists>e. new_record env s e \<and> se_status e = ExecSkipped
     \<and> ds_executions (record_policy_skip lib env f s reason st) = record_execution (ae_now env) e (ds_executions st)
     \<and> ds_tasks (record_policy_skip lib env f s reason st) = ds_tasks st"
  unfolding record_policy_skip_def record_and_advance_parts by (rule exI, intro conjI, (rule refl)?) (simp_all add: new_record_def)

section \<open>Closing records\<close>

text \<open>A change of the history that only closes records whose ids are in \<open>ids\<close>: starts stay, no record
  starts to wait, and the other unfinished records stay.\<close>

definition closes_records :: "string set \<Rightarrow> execution_store \<Rightarrow> execution_store \<Rightarrow> bool" where
  "closes_records ids xs xs' \<longleftrightarrow> (distinct (map se_id (xs_records xs)) \<longrightarrow>
     distinct (map se_id (xs_records xs')) \<and> se_id ` set (xs_records xs') \<subseteq> se_id ` set (xs_records xs)
     \<and> xs_recent_starts xs' = xs_recent_starts xs \<and> (\<forall>k. pending_count k xs' \<le> pending_count k xs)
     \<and> (\<forall>e\<in>set (xs_records xs). is_active (se_status e) \<and> se_id e \<notin> ids \<longrightarrow> e \<in> set (xs_records xs')))"

lemma closes_refl: "closes_records ids xs xs"
  by (simp add: closes_records_def)

lemma closesD:
  assumes "closes_records ids xs xs'" "distinct (map se_id (xs_records xs))"
  shows "distinct (map se_id (xs_records xs'))" "se_id ` set (xs_records xs') \<subseteq> se_id ` set (xs_records xs)"
    "xs_recent_starts xs' = xs_recent_starts xs" "pending_count k xs' \<le> pending_count k xs"
    "e \<in> set (xs_records xs) \<Longrightarrow> is_active (se_status e) \<Longrightarrow> se_id e \<notin> ids \<Longrightarrow> e \<in> set (xs_records xs')"
  using assms by (simp_all add: closes_records_def)

lemma closes_trans: "closes_records a xs ys \<Longrightarrow> closes_records b ys zs \<Longrightarrow> closes_records (a \<union> b) xs zs"
  unfolding closes_records_def [of "a \<union> b"] using closesD [of a xs ys] closesD [of b ys zs]
  by (intro impI conjI allI ballI) (simp_all, (blast intro: order_trans)+)

lemma closes_mono: "closes_records a xs ys \<Longrightarrow> a \<subseteq> b \<Longrightarrow> closes_records b xs ys"
  unfolding closes_records_def by blast

lemma closes_foldl: "(\<And>xs x. closes_records {g x} xs (f xs x)) \<Longrightarrow> closes_records (g ` set ys) xs (foldl f xs ys)"
proof (induction ys arbitrary: xs)
  case (Cons y ys)
  then have "closes_records ({g y} \<union> g ` set ys) xs (foldl f (f xs y) ys)" by (intro closes_trans) auto
  then show ?case by simp
qed (simp add: closes_refl)

text \<open>The records after an update that keeps the id of its record.\<close>

lemma update_records:
  fixes now :: time
  assumes "get_execution i xs = Some e" "se_id (f e) = i" "distinct (map se_id (xs_records xs))"
  defines "xs' \<equiv> fst (update_and_get now i f xs)"
  shows "distinct (map se_id (xs_records xs'))" "se_id ` set (xs_records xs') \<subseteq> se_id ` set (xs_records xs)"
    "x \<in> set (xs_records xs) \<Longrightarrow> is_active (se_status x) \<Longrightarrow> se_id x \<noteq> i \<Longrightarrow> x \<in> set (xs_records xs')"
    "set (xs_records xs') \<subseteq> insert (f e) (set (xs_records xs) - {e})"
proof -
  have e: "e \<in> set (xs_records xs)" "se_id e = i" using assms(1) get_execution_in by blast+
  define xs1 where "xs1 = xs\<lparr>xs_records := update_first i f (xs_records xs)\<rparr>"
  have s1: "set (xs_records xs1) = insert (f e) (set (xs_records xs) - {e})"
    using set_update_first [OF assms(3), of i e f] assms(1) by (simp add: xs1_def get_execution_def)
  have "find (\<lambda>x. se_id x = i) es = Some e \<Longrightarrow> map se_id (update_first i f es) = map se_id es" for es
    using assms(2) by (induction es) (auto split: if_splits)
  then have ids: "map se_id (xs_records xs1) = map se_id (xs_records xs)"
    using assms(1) by (simp add: xs1_def get_execution_def)
  have rec: "xs_records xs' =
      xs_records (enforce_retention (se_schedule (f e)) (if se_started_at e = None then remember_start now (f e) xs1 else xs1))"
    using assms(1) by (simp add: update_and_get_def xs1_def xs'_def Let_def)
  then show "distinct (map se_id (xs_records xs'))" using assms(3) ids by (auto intro!: distinct_enforce)
  have sub: "set (xs_records xs') \<subseteq> set (xs_records xs1)"
    using records_enforce [of "se_schedule (f e)" "if se_started_at e = None then remember_start now (f e) xs1 else xs1"]
    by (cases "se_started_at e") (simp_all add: rec)
  then show "se_id ` set (xs_records xs') \<subseteq> se_id ` set (xs_records xs)" using ids by (metis image_mono list.set_map)
  show "x \<in> set (xs_records xs) \<Longrightarrow> is_active (se_status x) \<Longrightarrow> se_id x \<noteq> i \<Longrightarrow> x \<in> set (xs_records xs')"
    using s1 e by (auto simp: rec intro!: active_kept_enforce)
  show "set (xs_records xs') \<subseteq> insert (f e) (set (xs_records xs) - {e})" using sub by (simp only: s1)
qed

text \<open>An update that keeps identity and start and does not make its record wait.\<close>

lemma closes_update:
  assumes "get_execution i xs = Some e" "se_id (f e) = i" "se_schedule (f e) = se_schedule e"
    "se_started_at (f e) = se_started_at e" "se_status (f e) = ExecPending \<Longrightarrow> se_status e = ExecPending"
  shows "closes_records {i} xs (fst (update_and_get now i f xs))"
proof -
  have "xs_recent_starts (fst (update_and_get now i f xs)) = xs_recent_starts xs"
    using starts_update [OF assms(1)] assms(4) by (simp add: remember_unstarted)
  moreover have "pending_count k (fst (update_and_get now i f xs)) \<le> pending_count k xs" for k
    using pending_update [OF assms(1), of k now f] assms(3,5) by (auto simp: pending_of_def split: if_splits)
  ultimately show ?thesis using update_records [where f = f, OF assms(1,2)] by (simp add: closes_records_def)
qed

lemma cancel_record_parts [simp]:
  "se_id (cancel_record r now e) = se_id e" "se_schedule (cancel_record r now e) = se_schedule e"
  "se_started_at (cancel_record r now e) = se_started_at e"
  "se_status (cancel_record r now e) = (if is_active (se_status e) then ExecCancelled else se_status e)"
  by (simp_all add: cancel_record_def)

lemma finish_record_parts [simp]:
  "se_id (finish_record now ms a e) = se_id e" "se_schedule (finish_record now ms a e) = se_schedule e"
  "se_started_at (finish_record now ms a e) = se_started_at e" "se_status (finish_record now ms a e) \<noteq> ExecPending"
  by (cases a; auto)+

lemma closes_cancel: "closes_records {td_execution t} xs (cancel_execution now xs t)"
proof (cases "get_execution (td_execution t) xs")
  case None
  then show ?thesis by (simp add: cancel_execution_def update_missing closes_refl)
next
  case (Some e)
  then show ?thesis unfolding cancel_execution_def
    by (rule closes_update) (use Some get_execution_in in \<open>auto simp: is_active_def split: if_splits\<close>)
qed

lemma closes_finish: "closes_records {i} xs (fst (update_and_get now i (finish_record now ms a) xs))"
proof (cases "get_execution i xs")
  case None
  then show ?thesis by (simp add: update_missing closes_refl)
next
  case (Some e)
  then show ?thesis by (rule closes_update) (use Some get_execution_in in \<open>auto\<close>)
qed

lemma closes_close: "closes_records {i} xs (close_execution now xs i)"
proof (cases "get_execution i xs")
  case None
  then show ?thesis by (simp add: close_execution_def closes_refl)
next
  case (Some e)
  have "closes_records {i} xs (fst (update_and_get now i (\<lambda>_. cancel_record stop_reason now e) xs))"
    using Some by (rule closes_update) (use Some get_execution_in in \<open>auto simp: is_active_def split: if_splits\<close>)
  then show ?thesis using Some by (simp add: close_execution_def closes_refl)
qed

lemma cancel_previous_parts:
  defines "mine \<equiv> \<lambda>st i. filter (\<lambda>t. td_phase t \<noteq> TaskFinished \<and> td_schedule t = i) (ds_tasks st)"
  shows "closes_records (td_execution ` set (mine st i)) (ds_executions st) (ds_executions (cancel_previous_dispatches env f i st))"
    and "ds_tasks (cancel_previous_dispatches env f i st) = filter (\<lambda>t. td_phase t \<noteq> TaskFinished \<and> td_schedule t \<noteq> i) (ds_tasks st)"
proof -
  have m: "filter (\<lambda>t. td_schedule t = i) (filter (\<lambda>t. td_phase t \<noteq> TaskFinished) (ds_tasks st)) = mine st i"
    by (auto simp: mine_def intro: filter_cong)
  show "closes_records (td_execution ` set (mine st i)) (ds_executions st) (ds_executions (cancel_previous_dispatches env f i st))"
    using closes_foldl [of td_execution "cancel_execution (ae_now env)" "mine st i" "ds_executions st", OF closes_cancel]
    by (auto simp: cancel_previous_dispatches_def take_active_dispatches_def Let_def m simp del: filter_filter)
  show "ds_tasks (cancel_previous_dispatches env f i st) = filter (\<lambda>t. td_phase t \<noteq> TaskFinished \<and> td_schedule t \<noteq> i) (ds_tasks st)"
    by (auto simp: cancel_previous_dispatches_def take_active_dispatches_def Let_def intro!: filter_cong)
qed

section \<open>What an admission does\<close>

lemma admit_hourly_parts:
  assumes "admit_hourly_execution lib env f s one_time st = (st', r)"
  shows "ds_tasks st' = ds_tasks st"
    and "r = None \<Longrightarrow> st' = st \<and> (0 < sp_max_per_hour (sc_policies s) \<longrightarrow>
      sat_add_u64 (started_since (sc_id s) (ae_now env - hour) (ds_executions st)) (pending_count (sc_id s) (ds_executions st))
        < sp_max_per_hour (sc_policies s))"
    and "ds_executions st' = ds_executions st
      \<or> (\<exists>e. new_record env s e \<and> se_status e = ExecSkipped \<and> ds_executions st' = record_execution (ae_now env) e (ds_executions st))"
proof -
  have le: "sat_add_u64 a c \<le> sat_add_u64 (max a b) c" for a b c by (simp add: sat_add_u64_def)
  have skip: "ds_tasks (record_policy_skip lib env f s reason st) = ds_tasks st
      \<and> (\<exists>e. new_record env s e \<and> se_status e = ExecSkipped
           \<and> ds_executions (record_policy_skip lib env f s reason st) = record_execution (ae_now env) e (ds_executions st))" for reason
    using record_policy_skip_parts by blast
  show "ds_tasks st' = ds_tasks st"
    using assms skip by (auto simp: admit_hourly_execution_def Let_def split: if_splits option.splits prod.splits)
  show "r = None \<Longrightarrow> st' = st \<and> (0 < sp_max_per_hour (sc_policies s) \<longrightarrow>
      sat_add_u64 (started_since (sc_id s) (ae_now env - hour) (ds_executions st)) (pending_count (sc_id s) (ds_executions st))
        < sp_max_per_hour (sc_policies s))"
    using assms by (auto simp: admit_hourly_execution_def Let_def not_le split: if_splits option.splits prod.splits
        intro: order.strict_trans1 [OF le])
  show "ds_executions st' = ds_executions st
      \<or> (\<exists>e. new_record env s e \<and> se_status e = ExecSkipped \<and> ds_executions st' = record_execution (ae_now env) e (ds_executions st))"
    using assms skip by (auto simp: admit_hourly_execution_def Let_def split: if_splits option.splits prod.splits)
qed

lemma load_unblockedD: "load_unblocked_schedule f st = Some (s, ot) \<Longrightarrow> store_get (ft_schedule f) (ds_store st) = Some s"
  by (auto simp: load_unblocked_schedule_def Let_def split: option.splits if_splits)

text \<open>A refusal records at most a skip; an acceptance leaves executions and tasks alone, and is within
  the cascade depth and the hourly limit.\<close>

lemma admit_refused:
  assumes "admit_trigger cfg env f expected st = (st', Inl out)"
  shows "ds_tasks st' = ds_tasks st \<and> (ds_executions st' = ds_executions st
    \<or> (\<exists>s e. store_get (ft_schedule f) (ds_store st) = Some s \<and> new_record env s e \<and> se_status e = ExecSkipped
         \<and> ds_executions st' = record_execution (ae_now env) e (ds_executions st)))"
proof (cases "load_unblocked_schedule f st")
  case None
  with assms show ?thesis by (auto simp: admit_trigger_def)
next
  case (Some so)
  obtain s ot where so: "so = (s, ot)" by fastforce
  with Some load_unblockedD have s: "store_get (ft_schedule f) (ds_store st) = Some s" by blast
  obtain st1 allowed where r: "recovery_admission_allowed (dc_calendar cfg) s f expected st = (st1, allowed)" by fastforce
  then have st1: "ds_executions st1 = ds_executions st" "ds_tasks st1 = ds_tasks st"
    using recovery_admission_parts [of "dc_calendar cfg" s f expected st] by simp_all
  obtain st2 h where h: "admit_hourly_execution (dc_text cfg) env f s ot st1 = (st2, h)" by fastforce
  show ?thesis
  proof (cases "allowed \<and> dc_max_depth cfg < ft_cascade_depth f")
    case True
    with assms Some so r record_policy_skip_parts [of env s "dc_text cfg" f _ st1] s st1 show ?thesis
      by (auto simp: admit_trigger_def Let_def)
  next
    case False
    with assms Some so r h s st1 admit_hourly_parts(1,3) [OF h] show ?thesis
      by (auto simp: admit_trigger_def Let_def split: bool.splits option.splits if_splits)
  qed
qed

lemma admit_accepted:
  assumes "admit_trigger cfg env f expected st = (st', Inr s)"
  shows "store_get (ft_schedule f) (ds_store st) = Some s" "ds_executions st' = ds_executions st" "ds_tasks st' = ds_tasks st"
    "ft_cascade_depth f \<le> dc_max_depth cfg"
    "0 < sp_max_per_hour (sc_policies s) \<Longrightarrow>
      sat_add_u64 (started_since (sc_id s) (ae_now env - hour) (ds_executions st)) (pending_count (sc_id s) (ds_executions st))
        < sp_max_per_hour (sc_policies s)"
proof -
  from assms obtain ot where l: "load_unblocked_schedule f st = Some (s, ot)"
    by (auto simp: admit_trigger_def Let_def split: option.splits prod.splits bool.splits if_splits)
  then show "store_get (ft_schedule f) (ds_store st) = Some s" by (rule load_unblockedD)
  obtain st1 allowed where r: "recovery_admission_allowed (dc_calendar cfg) s f expected st = (st1, allowed)" by fastforce
  then have st1: "ds_executions st1 = ds_executions st" "ds_tasks st1 = ds_tasks st"
    using recovery_admission_parts [of "dc_calendar cfg" s f expected st] by simp_all
  from assms l r have h: "admit_hourly_execution (dc_text cfg) env f s ot st1 = (st', None)" and d: "ft_cascade_depth f \<le> dc_max_depth cfg"
    by (auto simp: admit_trigger_def Let_def split: bool.splits if_splits prod.splits option.splits)
  from d show "ft_cascade_depth f \<le> dc_max_depth cfg" .
  from admit_hourly_parts(2) [OF h] st1 show "ds_executions st' = ds_executions st" "ds_tasks st' = ds_tasks st"
    "0 < sp_max_per_hour (sc_policies s) \<Longrightarrow>
      sat_add_u64 (started_since (sc_id s) (ae_now env - hour) (ds_executions st)) (pending_count (sc_id s) (ds_executions st))
        < sp_max_per_hour (sc_policies s)"
    by simp_all
qed

text \<open>The tasks and records an accepted trigger leaves: after a cancellation, if any, one record that
  has not started, and at most one queued task for it.\<close>

definition kept_tasks :: "fired_trigger \<Rightarrow> schedule \<Rightarrow> tracked_dispatch list \<Rightarrow> tracked_dispatch list" where
  "kept_tasks f s ts = (if dispatch_policy f s = CancelPrevious
     then filter (\<lambda>t. td_phase t \<noteq> TaskFinished \<and> td_schedule t \<noteq> sc_id s) ts else ts)"

definition cancelled_ids :: "fired_trigger \<Rightarrow> schedule \<Rightarrow> tracked_dispatch list \<Rightarrow> string set" where
  "cancelled_ids f s ts = (if dispatch_policy f s = CancelPrevious
     then td_execution ` set (filter (\<lambda>t. td_phase t \<noteq> TaskFinished \<and> td_schedule t = sc_id s) ts) else {})"

definition queued_task :: "fired_trigger \<Rightarrow> schedule \<Rightarrow> schedule_execution \<Rightarrow> tracked_dispatch \<Rightarrow> bool" where
  "queued_task f s e t \<longleftrightarrow> td_execution t = se_id e \<and> td_schedule t = sc_id s \<and> td_phase t = TaskQueued
     \<and> td_serial t = (dispatch_policy f s = QueueTrigger) \<and> td_depth t = ft_cascade_depth f"

lemma pending_execution_new [simp]:
  "new_record env s (pending_execution lib (execution_id env s) s f params n)"
  "se_status (pending_execution lib i s f params n) = ExecPending" "se_id (pending_execution lib i s f params n) = i"
  by (simp_all add: new_record_def pending_execution_def)

lemma record_dispatch_failure_parts:
  "\<exists>e. new_record env s e \<and> se_status e = ExecFailed
     \<and> ds_executions (record_dispatch_failure lib env f s msg st) = record_execution (ae_now env) e (ds_executions st)
     \<and> ds_tasks (record_dispatch_failure lib env f s msg st) = ds_tasks st"
  unfolding record_dispatch_failure_def record_and_advance_parts by (rule exI, intro conjI, (rule refl)?) (simp_all add: new_record_def)

lemma spawn_dispatch_parts:
  assumes "spawn_dispatch cfg env f s params n st = (st', out)"
  shows "\<exists>e. new_record env s e \<and> se_status e = ExecPending
     \<and> ds_executions st' = record_execution (ae_now env) e (ds_executions st)
     \<and> (ds_tasks st' = ds_tasks st
        \<or> (\<exists>t. queued_task f s e t \<and> ds_tasks st' = filter (\<lambda>t. td_phase t \<noteq> TaskFinished) (ds_tasks st) @ [t]))"
  using assms
  by (intro exI [of _ "pending_execution (dc_text cfg) (execution_id env s) s f params n"])
    (auto simp: spawn_dispatch_def Let_def queued_task_def split: if_splits)

lemma dispatch_trigger_parts:
  assumes "dispatch_trigger cfg env f s st = (st', out)"
  shows "(dispatch_policy f s = SkipIfRunning \<and> schedule_has_active_dispatch (ds_tasks st) (sc_id s)
      \<and> ds_tasks st' = ds_tasks st
      \<and> (\<exists>e. new_record env s e \<and> se_status e = ExecSkipped \<and> ds_executions st' = record_execution (ae_now env) e (ds_executions st)))
    \<or> (\<exists>xs e. \<not> (dispatch_policy f s = SkipIfRunning \<and> schedule_has_active_dispatch (ds_tasks st) (sc_id s))
         \<and> closes_records (cancelled_ids f s (ds_tasks st)) (ds_executions st) xs \<and> new_record env s e \<and> se_status e \<noteq> ExecRunning
         \<and> ds_executions st' = record_execution (ae_now env) e xs
         \<and> (ds_tasks st' = kept_tasks f s (ds_tasks st)
            \<or> (\<exists>t. queued_task f s e t \<and> se_status e = ExecPending
                 \<and> ds_tasks st' = filter (\<lambda>t. td_phase t \<noteq> TaskFinished) (kept_tasks f s (ds_tasks st)) @ [t])))"
proof (cases "dispatch_policy f s = SkipIfRunning \<and> schedule_has_active_dispatch (ds_tasks st) (sc_id s)")
  case True
  with assms record_policy_skip_parts [of env s "dc_text cfg" f _ st] show ?thesis
    by (auto simp: dispatch_trigger_def Let_def)
next
  case False
  define st1 where "st1 = (if dispatch_policy f s = CancelPrevious then cancel_previous_dispatches env f (sc_id s) st else st)"
  have c: "closes_records (cancelled_ids f s (ds_tasks st)) (ds_executions st) (ds_executions st1)" "ds_tasks st1 = kept_tasks f s (ds_tasks st)"
    using cancel_previous_parts [where st = st and i = "sc_id s" and env = env and f = f] by (auto simp: st1_def cancelled_ids_def kept_tasks_def closes_refl)
  define st2 n where "st2 = st1\<lparr>ds_sequences := fst (next_sequence_for (sc_id s) (ds_sequences st1))\<rparr>"
    and "n = snd (next_sequence_for (sc_id s) (ds_sequences st1))"
  have st2: "ds_executions st2 = ds_executions st1" "ds_tasks st2 = ds_tasks st1" by (simp_all add: st2_def)
  define r where "r = resolve_parameters (dc_text cfg) (JObject []) (sc_parameters s)
    \<lparr>cx_time = ft_fired_at f, cx_type = ft_type f, cx_sequence = n, cx_payload = ft_event_payload f\<rparr>"
  have d: "(st', out) = (case r of
      Inl err \<Rightarrow> let msg = ''parameter resolution failed: '' @ resolve_error_str err
        in (record_dispatch_failure (dc_text cfg) env f s msg st2, DispatchFailed msg)
    | Inr params \<Rightarrow> spawn_dispatch cfg env f s params n st2)"
    using assms False
    by (cases r) (simp_all add: dispatch_trigger_def Let_def split_beta st1_def [symmetric] st2_def [symmetric] n_def [symmetric] r_def [symmetric])
  have "\<exists>e. new_record env s e \<and> se_status e \<noteq> ExecRunning \<and> ds_executions st' = record_execution (ae_now env) e (ds_executions st1)
     \<and> (ds_tasks st' = ds_tasks st1
        \<or> (\<exists>t. queued_task f s e t \<and> se_status e = ExecPending \<and> ds_tasks st' = filter (\<lambda>t. td_phase t \<noteq> TaskFinished) (ds_tasks st1) @ [t]))"
  proof (cases r)
    case (Inl err)
    with d record_dispatch_failure_parts [of env s "dc_text cfg" f _ st2] st2 show ?thesis by (auto simp: Let_def) force
  next
    case (Inr params)
    with d have "spawn_dispatch cfg env f s params n st2 = (st', out)" by simp
    from spawn_dispatch_parts [OF this] st2 show ?thesis by auto
  qed
  with False c show ?thesis by auto
qed

end
