(* ===== verification/Dispatch_Runs.thy ===== *)
theory Dispatch_Runs
  imports Schedule_Dispatch
begin

text \<open>
  What the runs of the dispatcher of triggers keep: the hourly limit of a schedule over every window,
  the concurrency policy and the execution permits, and the bound on cascades of events.
\<close>

section \<open>The history of a run\<close>

definition log_since :: "string \<Rightarrow> time \<Rightarrow> start_log \<Rightarrow> (string \<times> time) list" where
  "log_since s w log = map snd (filter (\<lambda>(k, _, u). k = s \<and> w \<le> u) log)"

definition log_ids :: "start_log \<Rightarrow> string set" where
  "log_ids log = set (map (fst \<circ> snd) log)"

text \<open>A queued task has a pending record that has not started.\<close>

definition queued_ok :: "execution_store \<Rightarrow> start_log \<Rightarrow> tracked_dispatch \<Rightarrow> bool" where
  "queued_ok xs log t \<longleftrightarrow> (td_phase t = TaskQueued \<longrightarrow> td_execution t \<notin> log_ids log \<and>
     (\<exists>e\<in>set (xs_records xs). se_id e = td_execution t \<and> se_schedule e = td_schedule t \<and> se_status e = ExecPending \<and> se_started_at e = None))"

text \<open>Ids are unique, queued tasks have their records, and the remembered starts are the starts of the
  run as far as an hour back.\<close>

definition history_inv :: "execution_store \<Rightarrow> tracked_dispatch list \<Rightarrow> start_log \<Rightarrow> time \<Rightarrow> bool" where
  "history_inv xs ts log now \<longleftrightarrow> distinct (map se_id (xs_records xs)) \<and> distinct (map td_execution ts)
     \<and> (\<forall>t\<in>set ts. queued_ok xs log t)
     \<and> (\<forall>s w. now - hour \<le> w \<longrightarrow> filter (\<lambda>(_, u). w \<le> u) (xs_recent_starts xs s) = log_since s w log)
     \<and> (\<forall>s. fst ` set (xs_recent_starts xs s) \<subseteq> log_ids log) \<and> (\<forall>(_, _, u)\<in>set log. u \<le> now)"

lemma history_initial: "history_inv (with_retention keep) [] [] now"
  by (simp add: history_inv_def with_retention_def log_since_def)

lemma history_later: "history_inv xs ts log now \<Longrightarrow> now \<le> now' \<Longrightarrow> history_inv xs ts log now'"
  by (fastforce simp: history_inv_def)

lemma history_closes:
  assumes "history_inv xs ts log now" "closes_records ids xs xs'" "distinct (map td_execution ts')"
    "\<And>t. t \<in> set ts' \<Longrightarrow> td_phase t = TaskQueued \<Longrightarrow> t \<in> set ts \<and> td_execution t \<notin> ids"
  shows "history_inv xs' ts' log now"
proof -
  from assms(1) have d: "distinct (map se_id (xs_records xs))" by (simp add: history_inv_def)
  have "queued_ok xs' log t" if t: "t \<in> set ts'" for t
  proof (cases "td_phase t = TaskQueued")
    case True
    with assms(4) [OF t] assms(1) have "queued_ok xs log t" "td_execution t \<notin> ids" by (auto simp: history_inv_def)
    with True closesD(5) [OF assms(2) d] show ?thesis by (fastforce simp: queued_ok_def is_active_def)
  qed (simp add: queued_ok_def)
  with assms(1,3) closesD(1,3) [OF assms(2) d] show ?thesis by (simp add: history_inv_def)
qed

text \<open>A new record that has not started.\<close>

lemma record_execution_records:
  "set (xs_records (record_execution now e xs)) \<subseteq> insert e (set (xs_records xs))"
  "x \<in> insert e (set (xs_records xs)) \<Longrightarrow> is_active (se_status x) \<Longrightarrow> x \<in> set (xs_records (record_execution now e xs))"
  "distinct (map se_id (xs_records xs)) \<Longrightarrow> se_id e \<notin> se_id ` set (xs_records xs) \<Longrightarrow>
     distinct (map se_id (xs_records (record_execution now e xs)))"
proof -
  let ?y = "(remember_start now e xs)\<lparr>xs_records := xs_records xs @ [e]\<rparr>"
  have r: "record_execution now e xs = enforce_retention (se_schedule e) ?y" by (simp add: record_execution_def Let_def)
  show "set (xs_records (record_execution now e xs)) \<subseteq> insert e (set (xs_records xs))"
    unfolding r using records_enforce [of "se_schedule e" ?y] by simp
  show "x \<in> insert e (set (xs_records xs)) \<Longrightarrow> is_active (se_status x) \<Longrightarrow> x \<in> set (xs_records (record_execution now e xs))"
    unfolding r by (rule active_kept_enforce) auto
  show "distinct (map se_id (xs_records xs)) \<Longrightarrow> se_id e \<notin> se_id ` set (xs_records xs) \<Longrightarrow>
     distinct (map se_id (xs_records (record_execution now e xs)))"
    unfolding r by (rule distinct_enforce) simp
qed

lemma history_record:
  assumes "history_inv xs ts log now" "se_id e \<notin> se_id ` set (xs_records xs)" "se_started_at e = None"
  shows "history_inv (record_execution clock e xs) ts log now"
proof -
  have "queued_ok (record_execution clock e xs) log t" if "queued_ok xs log t" for t
    using that record_execution_records(2) [of _ e xs clock] by (fastforce simp: queued_ok_def is_active_def)
  moreover have "xs_recent_starts (record_execution clock e xs) = xs_recent_starts xs"
    using assms(3) by (simp add: starts_record remember_unstarted)
  ultimately show ?thesis
    using assms record_execution_records(3) [of xs e clock] by (simp add: history_inv_def)
qed

lemma history_queue:
  assumes "history_inv xs ts log now" "se_id e \<notin> se_id ` set (xs_records xs)" "new_record env s e" "se_status e = ExecPending"
    "queued_task f s e t" "se_id e \<notin> td_execution ` set ts" "se_id e \<notin> log_ids log"
  shows "history_inv (record_execution clock e xs) (filter P ts @ [t]) log now"
proof -
  have "queued_ok (record_execution clock e xs) log t"
    using assms(3-5,7) record_execution_records(2) [of e e xs clock] by (fastforce simp: queued_ok_def new_record_def queued_task_def is_active_def)
  moreover have "history_inv (record_execution clock e xs) ts log now"
    using history_record [OF assms(1,2)] assms(3) by (simp add: new_record_def)
  ultimately show ?thesis using assms(5,6) by (auto simp: history_inv_def queued_task_def distinct_map_filter)
qed

section \<open>The start of a task\<close>

lemma start_recorded:
  assumes h: "history_inv xs ts log now0" and t: "t \<in> set ts" "td_phase t = TaskQueued" and now: "now0 \<le> now"
  defines "xs' \<equiv> fst (update_and_get now (td_execution t) (start_record now) xs)"
  obtains e where "get_execution (td_execution t) xs = Some e" "se_schedule e = td_schedule t" "se_status e = ExecPending"
    "se_started_at e = None"
    "xs_recent_starts xs' = (xs_recent_starts xs)(td_schedule t :=
       filter (\<lambda>(_, u). now - hour \<le> u) (xs_recent_starts xs (td_schedule t)) @ [(td_execution t, now)])"
proof -
  from h t obtain e where e: "e \<in> set (xs_records xs)" "se_id e = td_execution t" "se_schedule e = td_schedule t"
      "se_status e = ExecPending" "se_started_at e = None" and n: "td_execution t \<notin> log_ids log"
    by (auto simp: history_inv_def queued_ok_def)
  have g: "get_execution (td_execution t) xs = Some e"
    using h e(1,2) get_execution_unique [of xs e] by (simp add: history_inv_def)
  have "fst ` set (xs_recent_starts xs (td_schedule t)) \<subseteq> log_ids log" using h by (simp add: history_inv_def)
  with n have "\<not> list_ex (\<lambda>(i, _). i = td_execution t) (filter (\<lambda>(_, u). now - hour \<le> u) (xs_recent_starts xs (td_schedule t)))"
    by (force simp: list_ex_iff)
  then have "xs_recent_starts xs' = (xs_recent_starts xs)(td_schedule t :=
       filter (\<lambda>(_, u). now - hour \<le> u) (xs_recent_starts xs (td_schedule t)) @ [(td_execution t, now)])"
    unfolding xs'_def starts_update [OF g] using e by (simp add: remember_start_def start_record_def Let_def)
  with g e that show ?thesis by blast
qed

lemma log_since_append: "log_since s w (log @ [(k, i, u)]) = log_since s w log @ (if k = s \<and> w \<le> u then [(i, u)] else [])"
  by (simp add: log_since_def)

lemma filter_later: "(w :: time) \<le> w' \<Longrightarrow> filter (\<lambda>(_, u). w' \<le> u) (filter (\<lambda>(_, u). w \<le> u) ys) = filter (\<lambda>(_, u). w' \<le> u) ys"
  by (auto intro: filter_cong)

lemma history_start:
  assumes h: "history_inv xs ts log now0" and t: "t \<in> set ts" "td_phase t = TaskQueued" and now: "now0 \<le> now" and p: "p \<noteq> TaskQueued"
  shows "history_inv (fst (update_and_get now (td_execution t) (start_record now) xs)) (set_phase (td_execution t) p ts)
    (log @ [(td_schedule t, td_execution t, now)]) now"
    (is "history_inv ?xs ?ts ?log now")
proof -
  from h have d: "distinct (map se_id (xs_records xs))" "distinct (map td_execution ts)" by (simp_all add: history_inv_def)
  obtain e where g: "get_execution (td_execution t) xs = Some e"
    and st: "xs_recent_starts ?xs = (xs_recent_starts xs)(td_schedule t :=
       filter (\<lambda>(_, u). now - hour \<le> u) (xs_recent_starts xs (td_schedule t)) @ [(td_execution t, now)])"
    using start_recorded [OF h t now] by metis
  have f: "se_id (start_record now e) = td_execution t" using get_execution_in [OF g] by (simp add: start_record_def)
  have ids: "map td_execution ?ts = map td_execution ts" by (simp add: set_phase_def)
  have q: "queued_ok ?xs ?log u" if u: "u \<in> set ?ts" for u
  proof (cases "td_phase u = TaskQueued")
    case True
    with u p have u': "u \<in> set ts" "td_execution u \<noteq> td_execution t" by (auto simp: set_phase_def split: if_splits)
    then have "queued_ok xs log u" using h by (simp add: history_inv_def)
    with True u'(2) update_records(3) [where f = "start_record now", OF g f d(1)] show ?thesis by (fastforce simp: queued_ok_def log_ids_def is_active_def)
  qed (simp add: queued_ok_def)
  have w: "filter (\<lambda>(_, u). w \<le> u) (xs_recent_starts ?xs s) = log_since s w ?log" if "now - hour \<le> w" for s w
  proof -
    have "filter (\<lambda>(_, u). w \<le> u) (xs_recent_starts xs s) = log_since s w log" using h now that by (simp add: history_inv_def)
    then show ?thesis by (auto simp: st log_since_append filter_later [OF that] simp del: filter_filter)
  qed
  have "fst ` set (xs_recent_starts ?xs s) \<subseteq> log_ids ?log" for s
  proof -
    have "fst ` set (xs_recent_starts xs s) \<subseteq> log_ids log" using h by (simp add: history_inv_def)
    then show ?thesis by (auto simp: st log_ids_def)
  qed
  moreover have "\<forall>(_, _, u)\<in>set ?log. u \<le> now" using h now by (fastforce simp: history_inv_def)
  ultimately show ?thesis using update_records(1) [where f = "start_record now", OF g f d(1)] d(2) q w by (simp add: history_inv_def ids)
qed

section \<open>The count of the hourly limit\<close>

definition hourly_ok :: "string \<Rightarrow> nat \<Rightarrow> execution_store \<Rightarrow> time \<Rightarrow> bool" where
  "hourly_ok i m xs now \<longleftrightarrow> started_since i (now - hour) xs + pending_count i xs \<le> m"

lemma started_since_mono: "w \<le> w' \<Longrightarrow> started_since i w' xs \<le> started_since i w xs"
  unfolding started_since_def by (subst filter_later [symmetric, of w w']) (simp_all del: filter_filter)

lemma hourly_later: "hourly_ok i m xs now \<Longrightarrow> now \<le> now' \<Longrightarrow> hourly_ok i m xs now'"
  using started_since_mono [of "now - hour" "now' - hour" i xs] by (simp add: hourly_ok_def)

lemma hourly_closes:
  "hourly_ok i m xs now \<Longrightarrow> closes_records ids xs xs' \<Longrightarrow> distinct (map se_id (xs_records xs)) \<Longrightarrow> hourly_ok i m xs' now"
  using closesD(3) [of ids xs xs'] closesD(4) [of ids xs xs' i] by (auto simp: hourly_ok_def started_since_def)

lemma hourly_record:
  assumes "started_since i (now - hour) xs + pending_count i xs + pending_of i e \<le> m" "se_started_at e = None"
  shows "hourly_ok i m (record_execution clock e xs) now"
  using assms by (simp add: hourly_ok_def pending_record started_since_def starts_record remember_unstarted)

lemma hourly_start:
  assumes h: "history_inv xs ts log now0" and t: "t \<in> set ts" "td_phase t = TaskQueued" and now: "now0 \<le> now"
    and o: "hourly_ok i m xs now"
  shows "hourly_ok i m (fst (update_and_get now (td_execution t) (start_record now) xs)) now"
proof -
  obtain e where e: "get_execution (td_execution t) xs = Some e" "se_schedule e = td_schedule t" "se_status e = ExecPending"
      "xs_recent_starts (fst (update_and_get now (td_execution t) (start_record now) xs)) = (xs_recent_starts xs)(td_schedule t :=
       filter (\<lambda>(_, u). now - hour \<le> u) (xs_recent_starts xs (td_schedule t)) @ [(td_execution t, now)])"
    using start_recorded [OF h t now] by metis
  have "pending_of i (start_record now e) = 0" by (simp add: pending_of_def start_record_def)
  moreover have "pending_of i e = (if td_schedule t = i then 1 else 0)" using e by (simp add: pending_of_def)
  ultimately show ?thesis
    using o pending_update [OF e(1), of i now "start_record now"]
    by (simp add: hourly_ok_def started_since_def e(4) hour_def nanos_def filter_later split: if_splits)
qed

section \<open>Steps keep the history and the count\<close>

lemma find_task_in: "find_task i ts = Some t \<Longrightarrow> t \<in> set ts \<and> td_execution t = i"
  unfolding find_task_def by (auto dest: find_Some_iff_first)

lemma kept_tasks_subset: "set (kept_tasks f s ts) \<subseteq> set ts"
  by (auto simp: kept_tasks_def)

lemma kept_not_cancelled:
  "distinct (map td_execution ts) \<Longrightarrow> t \<in> set (kept_tasks f s ts) \<Longrightarrow> td_execution t \<notin> cancelled_ids f s ts"
  by (auto simp: kept_tasks_def cancelled_ids_def distinct_map inj_on_def split: if_splits)

text \<open>An admission, as the executions and tasks see it: nothing, or one record that has not started,
  after a cancellation if the policy asks for one, and at most one queued task for it. A record that
  waits was within the hourly limit; a queued task respects the policy.\<close>

definition admission_effect ::
  "admission_env \<Rightarrow> fired_trigger \<Rightarrow> dispatch_state \<Rightarrow> dispatch_state \<Rightarrow> schedule \<Rightarrow> execution_store \<Rightarrow> schedule_execution
    \<Rightarrow> tracked_dispatch list \<Rightarrow> bool" where
  "admission_effect env f st st' s xs e kept \<longleftrightarrow>
     store_get (ft_schedule f) (ds_store st) = Some s \<and> new_record env s e
     \<and> ds_executions st' = record_execution (ae_now env) e xs
     \<and> (\<exists>ids. closes_records ids (ds_executions st) xs \<and> (kept = ds_tasks st \<and> ids = {} \<or>
            kept = kept_tasks f s (ds_tasks st) \<and> ids = cancelled_ids f s (ds_tasks st)))
     \<and> (se_status e = ExecPending \<and> 0 < sp_max_per_hour (sc_policies s) \<longrightarrow>
          sat_add_u64 (started_since (sc_id s) (ae_now env - hour) (ds_executions st)) (pending_count (sc_id s) (ds_executions st))
            < sp_max_per_hour (sc_policies s))
     \<and> (ds_tasks st' = kept
        \<or> (\<exists>t. queued_task f s e t \<and> se_status e = ExecPending \<and> kept = kept_tasks f s (ds_tasks st)
             \<and> \<not> (dispatch_policy f s = SkipIfRunning \<and> schedule_has_active_dispatch (ds_tasks st) (sc_id s))
             \<and> ds_tasks st' = filter (\<lambda>t. td_phase t \<noteq> TaskFinished) kept @ [t]))"

lemma handle_effect:
  assumes r: "handle_fired_trigger cfg env f expected st = (st', out)" and "ae_dispatcher env"
  shows "ds_executions st' = ds_executions st \<and> ds_tasks st' = ds_tasks st
    \<or> (\<exists>s xs e kept. admission_effect env f st st' s xs e kept)"
proof -
  obtain st1 a where a: "admit_trigger cfg env f expected st = (st1, a)" by fastforce
  show ?thesis
  proof (cases a)
    case (Inl refused)
    with a r have st': "st' = st1" by (simp add: handle_fired_trigger_def)
    from admit_refused [OF a [unfolded Inl]] show ?thesis
      by (fastforce simp: st' admission_effect_def closes_refl)
  next
    case (Inr s)
    note acc = admit_accepted [OF a [unfolded Inr]]
    from r a Inr assms(2) have d: "dispatch_trigger cfg env f s st1 = (st', out)" by (simp add: handle_fired_trigger_def)
    show ?thesis using dispatch_trigger_parts [OF d]
    proof (elim disjE exE conjE)
      fix e assume "ds_tasks st' = ds_tasks st1" "new_record env s e" "se_status e = ExecSkipped"
        "ds_executions st' = record_execution (ae_now env) e (ds_executions st1)"
      then have "admission_effect env f st st' s (ds_executions st) e (ds_tasks st)"
        using acc(1-3) by (auto simp: admission_effect_def closes_refl)
      then show ?thesis by blast
    next
      fix xs e assume "closes_records (cancelled_ids f s (ds_tasks st1)) (ds_executions st1) xs" "new_record env s e"
        "ds_executions st' = record_execution (ae_now env) e xs" "ds_tasks st' = kept_tasks f s (ds_tasks st1)"
      then have "admission_effect env f st st' s xs e (kept_tasks f s (ds_tasks st))"
        using acc by (auto simp: admission_effect_def)
      then show ?thesis by blast
    next
      fix xs e t assume "closes_records (cancelled_ids f s (ds_tasks st1)) (ds_executions st1) xs" "new_record env s e"
        "ds_executions st' = record_execution (ae_now env) e xs" "queued_task f s e t" "se_status e = ExecPending"
        "ds_tasks st' = filter (\<lambda>t. td_phase t \<noteq> TaskFinished) (kept_tasks f s (ds_tasks st1)) @ [t]"
        "\<not> (dispatch_policy f s = SkipIfRunning \<and> schedule_has_active_dispatch (ds_tasks st1) (sc_id s))"
      then have "admission_effect env f st st' s xs e (kept_tasks f s (ds_tasks st))"
        using acc by (auto simp: admission_effect_def)
      then show ?thesis by blast
    qed
  qed
qed

lemma handle_history:
  assumes h: "history_inv (ds_executions st) (ds_tasks st) log now0" and fresh: "event_fresh st log (HandleTrigger env f expected)"
    and now: "now0 \<le> ae_now env" and eff: "admission_effect env f st st' s xs e kept"
  shows "history_inv (ds_executions st') (ds_tasks st') log (ae_now env)"
proof -
  have h1: "history_inv (ds_executions st) (ds_tasks st) log (ae_now env)" using history_later [OF h now] .
  have dt: "distinct (map td_execution (ds_tasks st))" and dx: "distinct (map se_id (xs_records (ds_executions st)))"
    using h by (simp_all add: history_inv_def)
  from eff obtain ids where c: "closes_records ids (ds_executions st) xs" and k: "kept = ds_tasks st \<and> ids = {} \<or>
      kept = kept_tasks f s (ds_tasks st) \<and> ids = cancelled_ids f s (ds_tasks st)"
    and e: "new_record env s e" "store_get (ft_schedule f) (ds_store st) = Some s"
    by (auto simp: admission_effect_def)
  have new: "se_id e \<notin> used_ids st log" "se_started_at e = None" using fresh e by (simp_all add: new_record_def)
  have sub: "set kept \<subseteq> set (ds_tasks st)" "distinct (map td_execution kept)" using k kept_tasks_subset [of f s "ds_tasks st"] dt
    by (auto simp: kept_tasks_def distinct_map_filter)
  have "history_inv xs kept log (ae_now env)"
    using history_closes [OF h1 c sub(2)] k sub(1) kept_not_cancelled [OF dt] by blast
  moreover have "se_id e \<notin> se_id ` set (xs_records xs)" using closesD(2) [OF c dx] new(1) by (auto simp: used_ids_def)
  moreover have "se_id e \<notin> td_execution ` set kept" "se_id e \<notin> log_ids log" using new(1) sub(1) by (auto simp: used_ids_def log_ids_def)
  ultimately show ?thesis
    using eff e(1) new(2) history_record [of xs kept log "ae_now env" e] history_queue [of xs kept log "ae_now env" e env s f]
    by (auto simp: admission_effect_def)
qed

lemma handle_hourly:
  assumes h: "history_inv (ds_executions st) (ds_tasks st) log now0" and o: "hourly_ok i m (ds_executions st) (ae_now env)"
    and lim: "ft_schedule f = i \<Longrightarrow> sp_max_per_hour (sc_policies s) = m" and m: "0 < m" "m \<le> u32_max"
    and eff: "admission_effect env f st st' s xs e kept"
  shows "hourly_ok i m (ds_executions st') (ae_now env)"
proof -
  from eff obtain ids where c: "closes_records ids (ds_executions st) xs" and e: "new_record env s e" "store_get (ft_schedule f) (ds_store st) = Some s"
    and x: "ds_executions st' = record_execution (ae_now env) e xs"
    by (auto simp: admission_effect_def)
  have dx: "distinct (map se_id (xs_records (ds_executions st)))" using h by (simp add: history_inv_def)
  have s: "sc_id s = ft_schedule f" using store_get_id [OF e(2)] .
  have le: "started_since i (ae_now env - hour) xs + pending_count i xs \<le>
      started_since i (ae_now env - hour) (ds_executions st) + pending_count i (ds_executions st)"
    using closesD(3) [OF c dx] closesD(4) [OF c dx, of i] by (simp add: started_since_def)
  have "started_since i (ae_now env - hour) xs + pending_count i xs + pending_of i e \<le> m"
  proof (cases "pending_of i e = 0")
    case True
    with le o show ?thesis by (simp add: hourly_ok_def)
  next
    case False
    then have p: "pending_of i e = 1" "se_status e = ExecPending" "sc_id s = i"
      using e(1) by (auto simp: pending_of_def new_record_def split: if_splits)
    with eff lim s m have "sat_add_u64 (started_since i (ae_now env - hour) (ds_executions st)) (pending_count i (ds_executions st)) < m"
      by (auto simp: admission_effect_def)
    with m le p show ?thesis by (auto simp: sat_add_u64_def u32_max_def u64_max_def min_def split: if_splits)
  qed
  then show ?thesis unfolding x using e(1) by (intro hourly_record) (simp_all add: new_record_def)
qed

lemma closes_stop: "\<exists>ids. closes_records ids (ds_executions st) (ds_executions (stop_dispatches now st))"
proof -
  have "closes_records (set is) xs (foldl (close_execution now) xs is)" for "is" xs
    using closes_foldl [of "\<lambda>i. i" "close_execution now" "is" xs, OF closes_close] by simp
  from closes_trans [OF this this]
  have "closes_records (set as \<union> set bs) xs (foldl (close_execution now) (foldl (close_execution now) xs as) bs)" for as bs xs .
  then show ?thesis unfolding stop_dispatches_def Let_def by (auto simp del: foldl_append)
qed

text \<open>After a shutdown no task is tracked, and no execution of a schedule that is not one-time waits.\<close>

lemma close_active:
  assumes d: "distinct (map se_id (xs_records xs))" and e: "e \<in> set (xs_records (close_execution now xs i))" "is_active (se_status e)"
  shows "e \<in> set (xs_records xs) \<and> se_id e \<noteq> i"
proof (cases "get_execution i xs")
  case None
  then have "\<forall>x\<in>set (xs_records xs). se_id x \<noteq> i" by (simp add: get_execution_def find_None_iff)
  with None e show ?thesis by (auto simp: close_execution_def)
next
  case (Some x)
  then have x: "se_id x = i" "x \<in> set (xs_records xs)" using get_execution_in by blast+
  have uniq: "y \<in> set (xs_records xs) \<Longrightarrow> se_id y = i \<Longrightarrow> y = x" for y using d x by (simp add: distinct_map inj_on_def)
  show ?thesis
  proof (cases "is_active (se_status x)")
    case True
    then have "e \<in> insert (cancel_record stop_reason now x) (set (xs_records xs) - {x})"
      using e(1) Some x update_records(4) [where f = "\<lambda>_. cancel_record stop_reason now x", OF Some _ d] by (auto simp: close_execution_def)
    with e(2) True uniq show ?thesis by (auto simp: is_active_def)
  next
    case False
    with e Some uniq show ?thesis by (auto simp: close_execution_def)
  qed
qed

lemma close_all_active:
  "distinct (map se_id (xs_records xs)) \<Longrightarrow> e \<in> set (xs_records (foldl (close_execution now) xs is)) \<Longrightarrow> is_active (se_status e) \<Longrightarrow>
     e \<in> set (xs_records xs) \<and> se_id e \<notin> set is"
proof (induction "is" arbitrary: xs)
  case (Cons i "is")
  have "distinct (map se_id (xs_records (close_execution now xs i)))" using closesD(1) [OF closes_close Cons.prems(1)] .
  with Cons close_active [OF Cons.prems(1) _ Cons.prems(3)] show ?case by fastforce
qed simp

lemma stop_reconciles:
  assumes "distinct (map se_id (xs_records (ds_executions st)))" "e \<in> set (xs_records (ds_executions (stop_dispatches now st)))"
    "se_status e = ExecPending"
  shows "request_trigger_type e \<notin> {Some ''cron'', Some ''interval'', Some ''event''}" "ds_tasks (stop_dispatches now st) = []"
proof -
  let ?us = "map td_execution (filter (\<lambda>t. td_phase t \<noteq> TaskFinished) (ds_tasks st))"
  define xs where "xs = foldl (close_execution now) (ds_executions st) ?us"
  have "closes_records (set ?us) (ds_executions st) xs"
    using closes_foldl [of "\<lambda>i. i" "close_execution now" ?us "ds_executions st", OF closes_close] by (simp add: xs_def)
  then have d: "distinct (map se_id (xs_records xs))" using assms(1) by (rule closesD(1))
  have "e \<in> set (xs_records (foldl (close_execution now) xs (map se_id (abandoned_records xs))))"
    using assms(2) by (simp add: stop_dispatches_def Let_def xs_def)
  from close_all_active [OF d this] assms(3)
  show "request_trigger_type e \<notin> {Some ''cron'', Some ''interval'', Some ''event''}"
    by (auto simp: is_active_def abandoned_records_def pending_records_def)
  show "ds_tasks (stop_dispatches now st) = []" by (simp add: stop_dispatches_def Let_def)
qed

text \<open>The other steps: a start, or a change that closes records and queues nothing.\<close>

lemma start_taskD:
  assumes "start_task cfg now ok i st = Some st'"
  obtains t p where "find_task i (ds_tasks st) = Some t" "td_phase t = TaskQueued" "p \<noteq> TaskQueued" "serial_free t (ds_tasks st)"
    "length (running_tasks (ds_tasks st)) < dc_slots cfg"
    "ds_executions st' = fst (update_and_get now i (start_record now) (ds_executions st))" "ds_tasks st' = set_phase i p (ds_tasks st)"
proof -
  from assms obtain t where t: "find_task i (ds_tasks st) = Some t" by (auto simp: start_task_def split: option.splits)
  with assms have g: "td_phase t = TaskQueued" "serial_free t (ds_tasks st)" "length (running_tasks (ds_tasks st)) < dc_slots cfg"
    by (auto simp: start_task_def split: if_splits)
  have x: "ds_executions st' = fst (update_and_get now i (start_record now) (ds_executions st))"
    using assms t by (auto simp: start_task_def Let_def split: if_splits)
  have "ds_tasks st' = set_phase i TaskFinished (ds_tasks st) \<or> ds_tasks st' = set_phase i TaskRunning (ds_tasks st)"
    using assms t by (auto simp: start_task_def Let_def split: if_splits)
  then show ?thesis
  proof
    assume "ds_tasks st' = set_phase i TaskFinished (ds_tasks st)"
    with that [OF t g(1) _ g(2,3) x] show ?thesis by blast
  next
    assume "ds_tasks st' = set_phase i TaskRunning (ds_tasks st)"
    with that [OF t g(1) _ g(2,3) x] show ?thesis by blast
  qed
qed

lemma other_step_closes:
  assumes "dispatch_step cfg st e = Some st'" "\<nexists>env f x. e = HandleTrigger env f x" "\<nexists>now ok i. e = StartTask now ok i"
  shows "(\<exists>ids. closes_records ids (ds_executions st) (ds_executions st')
      \<and> (\<forall>t\<in>set (ds_tasks st'). td_phase t = TaskQueued \<longrightarrow> t \<in> set (ds_tasks st) \<and> td_execution t \<notin> ids))
    \<and> (ds_tasks st' = ds_tasks st \<or> ds_tasks st' = [] \<or> (\<exists>i. ds_tasks st' = set_phase i TaskFinished (ds_tasks st)))"
proof (cases e)
  case (FinishTask now ms ok answer i)
  then have t: "ds_tasks st' = set_phase i TaskFinished (ds_tasks st)"
    and x: "ds_executions st' = fst (update_and_get now i (finish_record now ms answer) (ds_executions st))"
    using assms(1) by (auto simp: finish_task_def Let_def split: option.splits if_splits)
  have "\<forall>t\<in>set (ds_tasks st'). td_phase t = TaskQueued \<longrightarrow> t \<in> set (ds_tasks st) \<and> td_execution t \<notin> {i}"
    by (auto simp: t set_phase_def split: if_splits)
  then show ?thesis using t closes_finish [of i "ds_executions st" now ms answer] by (auto simp: x)
next
  case (WithdrawTask i)
  then have t: "ds_tasks st' = set_phase i TaskFinished (ds_tasks st)" and x: "ds_executions st' = ds_executions st"
    using assms(1) by (auto simp: withdraw_task_def split: option.splits if_splits)
  have "\<forall>t\<in>set (ds_tasks st'). td_phase t = TaskQueued \<longrightarrow> t \<in> set (ds_tasks st) \<and> td_execution t \<notin> {}"
    by (auto simp: t set_phase_def split: if_splits)
  then show ?thesis using t closes_refl [of "{}" "ds_executions st"] unfolding x by blast
next
  case (ChangeRegistry store)
  then have "ds_tasks st' = ds_tasks st" "ds_executions st' = ds_executions st" using assms(1) by auto
  then show ?thesis using closes_refl [of "{}" "ds_executions st"] by (metis empty_iff)
next
  case (StopScheduler now)
  then have "st' = stop_dispatches now st" using assms(1) by simp
  moreover have "ds_tasks (stop_dispatches now st) = []" by (simp add: stop_dispatches_def Let_def)
  ultimately show ?thesis using closes_stop [of st now] by simp
qed (use assms(2,3) in simp_all)

lemma set_phase_distinct [simp]: "map td_execution (set_phase i p ts) = map td_execution ts"
  by (simp add: set_phase_def)

lemma step_history:
  assumes h: "history_inv (ds_executions st) (ds_tasks st) log now" and fresh: "event_fresh st log e" and now: "now \<le> event_time now e"
    and s: "dispatch_step cfg st e = Some st'"
  shows "history_inv (ds_executions st') (ds_tasks st') (log @ starts_of st e) (event_time now e)"
proof (cases "(\<exists>env f x. e = HandleTrigger env f x) \<or> (\<exists>t ok i. e = StartTask t ok i)")
  case True
  then show ?thesis
  proof (elim disjE exE)
    fix env f x assume e: "e = HandleTrigger env f x"
    obtain out where r: "handle_fired_trigger cfg env f x st = (st', out)" using s e by (cases "handle_fired_trigger cfg env f x st") auto
    from handle_effect [OF r] fresh e show ?thesis
      using history_later [OF h now] handle_history [OF h fresh [unfolded e]] now by auto
  next
    fix u ok i assume e: "e = StartTask u ok i"
    with s have "start_task cfg u ok i st = Some st'" by simp
    then show ?thesis
    proof (rule start_taskD)
      fix t p assume t: "find_task i (ds_tasks st) = Some t" "td_phase t = TaskQueued" "p \<noteq> TaskQueued"
        "ds_executions st' = fst (update_and_get u i (start_record u) (ds_executions st))" "ds_tasks st' = set_phase i p (ds_tasks st)"
      from find_task_in [OF t(1)] have i: "t \<in> set (ds_tasks st)" "td_execution t = i" by simp_all
      from history_start [OF h i(1) t(2) _ t(3), of u] now e t i show ?thesis by simp
    qed
  qed
next
  case False
  then obtain ids where c: "closes_records ids (ds_executions st) (ds_executions st')"
    and q: "\<forall>t\<in>set (ds_tasks st'). td_phase t = TaskQueued \<longrightarrow> t \<in> set (ds_tasks st) \<and> td_execution t \<notin> ids"
    and t: "ds_tasks st' = ds_tasks st \<or> ds_tasks st' = [] \<or> (\<exists>i. ds_tasks st' = set_phase i TaskFinished (ds_tasks st))"
    using other_step_closes [OF s] by blast
  have "distinct (map td_execution (ds_tasks st'))" using h t by (auto simp: history_inv_def)
  with history_closes [OF history_later [OF h now] c] q have "history_inv (ds_executions st') (ds_tasks st') log (event_time now e)" by blast
  moreover have "starts_of st e = []" using False by (cases e) auto
  ultimately show ?thesis by simp
qed

lemma run_history: "dispatch_run cfg ok st now log \<Longrightarrow> history_inv (ds_executions st) (ds_tasks st) log now"
proof (induction rule: dispatch_run.induct)
  case (run_start store keep t)
  then show ?case by (simp add: dispatch_initial_def history_initial)
next
  case (run_step st t log e st')
  then show ?case by (intro step_history)
qed

section \<open>The hourly limit\<close>

text \<open>Whatever changes in the registry, triggers of the schedule \<open>i\<close> are handled under the limit \<open>m\<close>.\<close>

fun limit_fixed :: "string \<Rightarrow> nat \<Rightarrow> dispatch_state \<Rightarrow> dispatch_event \<Rightarrow> bool" where
  "limit_fixed i m st (HandleTrigger env f x) \<longleftrightarrow>
     (case store_get (ft_schedule f) (ds_store st) of Some s \<Rightarrow> sc_id s = i \<longrightarrow> sp_max_per_hour (sc_policies s) = m | None \<Rightarrow> True)"
| "limit_fixed i m st _ \<longleftrightarrow> True"

definition starts_within :: "string \<Rightarrow> time \<Rightarrow> time \<Rightarrow> start_log \<Rightarrow> nat" where
  "starts_within i w w' log = length (filter (\<lambda>(k, _, u). k = i \<and> w \<le> u \<and> u \<le> w') log)"

lemma step_hourly:
  assumes h: "history_inv (ds_executions st) (ds_tasks st) log now" and fresh: "event_fresh st log e" and now: "now \<le> event_time now e"
    and s: "dispatch_step cfg st e = Some st'" and o: "hourly_ok i m (ds_executions st) now" and l: "limit_fixed i m st e"
    and m: "0 < m" "m \<le> u32_max"
  shows "hourly_ok i m (ds_executions st') (event_time now e)"
proof (cases "(\<exists>env f x. e = HandleTrigger env f x) \<or> (\<exists>t ok i. e = StartTask t ok i)")
  case True
  then show ?thesis
  proof (elim disjE exE)
    fix env f x assume e: "e = HandleTrigger env f x"
    obtain out where r: "handle_fired_trigger cfg env f x st = (st', out)" using s e by (cases "handle_fired_trigger cfg env f x st") auto
    have o1: "hourly_ok i m (ds_executions st) (ae_now env)" using hourly_later [OF o now] e by simp
    show ?thesis
    proof (cases "ds_executions st' = ds_executions st")
      case False
      with handle_effect [OF r] fresh e obtain sc xs ex kept where eff: "admission_effect env f st st' sc xs ex kept" by auto
      then have "store_get (ft_schedule f) (ds_store st) = Some sc" by (simp add: admission_effect_def)
      with l e store_get_id have "ft_schedule f = i \<Longrightarrow> sp_max_per_hour (sc_policies sc) = m" by fastforce
      from handle_hourly [OF h o1 this m eff] e show ?thesis by simp
    qed (use o1 e in simp)
  next
    fix u ok j assume e: "e = StartTask u ok j"
    with s have "start_task cfg u ok j st = Some st'" by simp
    then show ?thesis
    proof (rule start_taskD)
      fix t p assume t: "find_task j (ds_tasks st) = Some t" "td_phase t = TaskQueued"
        "ds_executions st' = fst (update_and_get u j (start_record u) (ds_executions st))"
      from find_task_in [OF t(1)] have j: "t \<in> set (ds_tasks st)" "td_execution t = j" by simp_all
      from hourly_start [OF h j(1) t(2), of u i m] hourly_later [OF o now] now e t j show ?thesis by simp
    qed
  qed
next
  case False
  then obtain ids where c: "closes_records ids (ds_executions st) (ds_executions st')" using other_step_closes [OF s] by blast
  from h have "distinct (map se_id (xs_records (ds_executions st)))" by (simp add: history_inv_def)
  from hourly_closes [OF hourly_later [OF o now] c this] show ?thesis .
qed

lemma starts_within_recent:
  assumes "history_inv xs ts log now" "hourly_ok i m xs now" "now - hour \<le> w"
  shows "starts_within i w w' log \<le> m"
proof -
  have "starts_within i w w' log \<le> length (log_since i w log)"
    unfolding starts_within_def log_since_def by (induction log) auto
  also have "\<dots> = started_since i w xs" using assms(1,3) by (simp add: history_inv_def started_since_def)
  also have "\<dots> \<le> started_since i (now - hour) xs" using started_since_mono assms(3) by blast
  finally show ?thesis using assms(2) by (simp add: hourly_ok_def)
qed

lemma run_hourly:
  assumes "dispatch_run cfg (limit_fixed i m) st now log" "0 < m" "m \<le> u32_max"
  shows "hourly_ok i m (ds_executions st) now \<and> (\<forall>w. starts_within i w (w + hour) log \<le> m)"
  using assms
proof (induction rule: dispatch_run.induct)
  case (run_start store keep t)
  then show ?case
    by (simp add: dispatch_initial_def hourly_ok_def started_since_def pending_count_def with_retention_def starts_within_def)
next
  case (run_step st t log e st')
  note h = run_history [OF run_step.hyps(1)]
  have h': "history_inv (ds_executions st') (ds_tasks st') (log @ starts_of st e) (event_time t e)"
    by (rule step_history [OF h run_step.hyps(3-5)])
  have o: "hourly_ok i m (ds_executions st') (event_time t e)"
    using step_hourly [OF h run_step.hyps(3-5) _ run_step.hyps(2)] run_step by blast
  have "starts_within i w (w + hour) (log @ starts_of st e) \<le> m" for w
  proof (cases "event_time t e - hour \<le> w")
    case True
    from starts_within_recent [OF h' o True] show ?thesis .
  next
    case False
    then have "starts_within i w (w + hour) (starts_of st e) = 0"
      by (cases e) (auto simp: starts_within_def split: option.splits)
    then have "starts_within i w (w + hour) (log @ starts_of st e) = starts_within i w (w + hour) log"
      by (simp add: starts_within_def)
    with run_step show ?thesis by simp
  qed
  with o show ?case by blast
qed

text \<open>C24. In every run of the scheduler, a schedule whose triggers are handled under a limit of \<open>m\<close>
  executions per hour starts at most \<open>m\<close> executions in any window of an hour, whatever the other
  schedules, the order of starts, ends, cancellations and shutdowns, and the retention of the history.\<close>

theorem hourly_limit_kept:
  assumes "dispatch_run cfg (limit_fixed i m) st now log" "0 < m" "m \<le> u32_max"
  shows "starts_within i w (w + hour) log \<le> m"
  using run_hourly [OF assms] by blast

text \<open>Runs, executed event by event.\<close>

fun dispatch_exec ::
  "('c, 'z) dispatch_config \<Rightarrow> (dispatch_state \<Rightarrow> dispatch_event \<Rightarrow> bool) \<Rightarrow> dispatch_state \<times> time \<times> start_log \<Rightarrow> dispatch_event list
    \<Rightarrow> (dispatch_state \<times> time \<times> start_log) option" where
  "dispatch_exec cfg ok (st, now, log) [] = Some (st, now, log)"
| "dispatch_exec cfg ok (st, now, log) (e # es) =
     (if ok st e \<and> event_fresh st log e \<and> now \<le> event_time now e then
        (case dispatch_step cfg st e of
           None \<Rightarrow> None
         | Some st' \<Rightarrow> dispatch_exec cfg ok (st', event_time now e, log @ starts_of st e) es)
      else None)"

lemma dispatch_exec_run:
  "dispatch_exec cfg ok (st, now, log) es = Some (st', now', log') \<Longrightarrow> dispatch_run cfg ok st now log \<Longrightarrow> dispatch_run cfg ok st' now' log'"
proof (induction es arbitrary: st now log)
  case (Cons e es)
  then show ?case by (auto split: if_splits option.splits intro: run_step)
qed simp

lemmas dispatch_eval = dispatch_initial_def with_retention_def handle_fired_trigger_def admit_trigger_def load_unblocked_schedule_def
  store_get_def recovery_admission_allowed_def admit_hourly_execution_def started_since_def pending_count_def sat_add_u64_def u64_max_def
  dispatch_trigger_def dispatch_policy_def effective_missed_policy_def effective_concurrency_policy_def schedule_has_active_dispatch_def
  next_sequence_for_def resolve_parameters_def spawn_dispatch_def record_and_advance_def record_policy_skip_def record_execution_def
  remember_start_def enforce_retention_def retained_ids_def active_count_def terminal_records_def is_active_def sort_by_simps
  pending_execution_def execution_id_def note_write_def update_last_fire_def advance_last_fire_def cursor_time_def is_one_time_def
  start_task_def find_task_def serial_free_def running_tasks_def recovery_enabled_def set_phase_def update_and_get_def get_execution_def
  start_record_def used_ids_def Let_def hour_def nanos_def

definition sample_dispatch_config :: "(unit, unit) dispatch_config" where
  "sample_dispatch_config = \<lparr>dc_calendar = plain_calendar, dc_text = plain_text_lib, dc_slots = 10, dc_max_depth = 8\<rparr>"

definition limited_schedule :: schedule where
  "limited_schedule = (schedule_new 0 ''s'' ''s'' (IntervalTrigger 60) ''wf'')\<lparr>
     sc_policies := \<lparr>sp_missed = None, sp_concurrency = Some AllowConcurrent, sp_max_per_hour = 1\<rparr>\<rparr>"

definition sample_trigger :: "string \<Rightarrow> time \<Rightarrow> fired_trigger" where
  "sample_trigger i t = \<lparr>ft_cascade_depth = 0, ft_schedule = i, ft_fired_at = t, ft_type = TypeInterval, ft_is_recovery = False,
     ft_event_payload = None\<rparr>"

definition sample_env :: "time \<Rightarrow> string \<Rightarrow> admission_env" where
  "sample_env t u = \<lparr>ae_now = t, ae_uuid = u, ae_dispatcher = True, ae_persistence = None\<rparr>"

definition hourly_events :: "dispatch_event list" where
  "hourly_events = [HandleTrigger (sample_env 1 ''a'') (sample_trigger ''s'' 1) None, StartTask 2 True ''exec-s-a'',
     HandleTrigger (sample_env 3 ''b'') (sample_trigger ''s'' 3) None]"

text \<open>A second trigger within the hour is skipped and recorded.\<close>

theorem hourly_limit_kept_witness:
  "case dispatch_exec sample_dispatch_config (limit_fixed ''s'' 1) (dispatch_initial [limited_schedule] 100, 0, []) hourly_events of
     Some (st, now, log) \<Rightarrow> log = [(''s'', ''exec-s-a'', 2)]
       \<and> map se_status (xs_records (ds_executions st)) = [ExecRunning, ExecSkipped] \<and> starts_within ''s'' 0 (0 + hour) log \<le> 1
   | None \<Rightarrow> False"
proof -
  have "map_option (\<lambda>(st, now, log). (log, map se_status (xs_records (ds_executions st))))
      (dispatch_exec sample_dispatch_config (limit_fixed ''s'' 1) (dispatch_initial [limited_schedule] 100, 0, []) hourly_events)
    = Some ([(''s'', ''exec-s-a'', 2)], [ExecRunning, ExecSkipped])"
    by (simp add: hourly_events_def sample_env_def sample_trigger_def limited_schedule_def schedule_new_def sample_dispatch_config_def dispatch_eval)
  then obtain st now where x: "dispatch_exec sample_dispatch_config (limit_fixed ''s'' 1) (dispatch_initial [limited_schedule] 100, 0, []) hourly_events
      = Some (st, now, [(''s'', ''exec-s-a'', 2)])" "map se_status (xs_records (ds_executions st)) = [ExecRunning, ExecSkipped]"
    by auto
  from hourly_limit_kept [OF dispatch_exec_run [OF x(1) run_start], of 0] x show ?thesis by (simp add: u32_max_def)
qed

section \<open>Concurrency policies and permits\<close>

fun policy_fixed :: "string \<Rightarrow> concurrency_policy \<Rightarrow> dispatch_state \<Rightarrow> dispatch_event \<Rightarrow> bool" where
  "policy_fixed i pol st (HandleTrigger env f x) \<longleftrightarrow>
     (case store_get (ft_schedule f) (ds_store st) of Some s \<Rightarrow> sc_id s = i \<longrightarrow> dispatch_policy f s = pol | None \<Rightarrow> True)"
| "policy_fixed i pol st _ \<longleftrightarrow> True"

definition unfinished_of :: "string \<Rightarrow> tracked_dispatch list \<Rightarrow> tracked_dispatch list" where
  "unfinished_of i ts = filter (\<lambda>t. td_schedule t = i \<and> td_phase t \<noteq> TaskFinished) ts"

text \<open>Behind an unfinished task of the schedule, no other one of it runs.\<close>

definition queue_order :: "string \<Rightarrow> tracked_dispatch list \<Rightarrow> bool" where
  "queue_order i ts \<longleftrightarrow> sorted_wrt (\<lambda>t u. td_schedule t = i \<and> td_schedule u = i \<and> td_phase t \<noteq> TaskFinished \<longrightarrow> td_phase u \<noteq> TaskRunning) ts"

definition policy_inv :: "string \<Rightarrow> concurrency_policy \<Rightarrow> tracked_dispatch list \<Rightarrow> bool" where
  "policy_inv i pol ts \<longleftrightarrow> (case pol of
     AllowConcurrent \<Rightarrow> True
   | QueueTrigger \<Rightarrow> queue_order i ts \<and> list_all (\<lambda>t. td_schedule t = i \<longrightarrow> td_serial t) ts
   | _ \<Rightarrow> length (unfinished_of i ts) \<le> 1)"

lemma length_filter_filter: "length (filter P (filter Q xs)) \<le> length (filter P xs)"
  by (induction xs) auto

lemma policy_filter: "policy_inv i pol ts \<Longrightarrow> policy_inv i pol (filter P ts)"
  using length_filter_filter [of "\<lambda>t. td_schedule t = i \<and> td_phase t \<noteq> TaskFinished" P ts]
  by (cases pol) (auto simp: policy_inv_def unfinished_of_def queue_order_def sorted_wrt_filter list_all_iff simp del: filter_filter)

lemma policy_kept: "policy_inv i pol ts \<Longrightarrow> policy_inv i pol (kept_tasks f s ts)"
  by (simp add: kept_tasks_def policy_filter)

lemma unfinished_finish: "length (unfinished_of i (set_phase x TaskFinished ts)) \<le> length (unfinished_of i ts)"
  by (induction ts) (auto simp: unfinished_of_def set_phase_def)

lemma policy_finish: "policy_inv i pol ts \<Longrightarrow> policy_inv i pol (set_phase x TaskFinished ts)"
proof (cases pol)
  case QueueTrigger
  have "queue_order i ts \<Longrightarrow> queue_order i (set_phase x TaskFinished ts)"
    by (induction ts) (auto simp: queue_order_def set_phase_def)
  moreover have "list_all (\<lambda>t. td_schedule t = i \<longrightarrow> td_serial t) ts \<Longrightarrow>
      list_all (\<lambda>t. td_schedule t = i \<longrightarrow> td_serial t) (set_phase x TaskFinished ts)"
    by (induction ts) (auto simp: set_phase_def)
  moreover assume "policy_inv i pol ts"
  ultimately show ?thesis using QueueTrigger by (simp add: policy_inv_def)
qed (use unfinished_finish [of i x ts] in \<open>auto simp: policy_inv_def\<close>)

lemma set_phase_split:
  assumes "distinct (map td_execution ts)" "find_task x ts = Some t"
  obtains as bs where "ts = as @ t # bs" "takeWhile (\<lambda>u. td_execution u \<noteq> x) ts = as" "set_phase x p ts = as @ t\<lparr>td_phase := p\<rparr> # bs"
proof -
  from find_task_in [OF assms(2)] have t: "t \<in> set ts" "td_execution t = x" by simp_all
  then obtain as bs where ts: "ts = as @ t # bs" by (meson split_list)
  have n: "\<forall>u\<in>set as \<union> set bs. td_execution u \<noteq> x" using assms(1) t(2) by (simp add: ts) (metis UnE image_eqI)
  have "takeWhile (\<lambda>u. td_execution u \<noteq> x) ts = as" using n t(2) unfolding ts by (subst takeWhile_append2) auto
  moreover have "set_phase x p ts = as @ t\<lparr>td_phase := p\<rparr> # bs"
    using n t(2) by (auto simp: ts set_phase_def intro!: map_idI)
  ultimately show ?thesis using ts that by blast
qed

lemma policy_start:
  assumes "distinct (map td_execution ts)" "find_task x ts = Some t" "td_phase t = TaskQueued" "serial_free t ts" "policy_inv i pol ts"
  shows "policy_inv i pol (set_phase x p ts)"
proof -
  obtain as bs where ts: "ts = as @ t # bs" and tw: "takeWhile (\<lambda>u. td_execution u \<noteq> x) ts = as"
    and sp: "set_phase x p ts = as @ t\<lparr>td_phase := p\<rparr> # bs" by (rule set_phase_split [OF assms(1,2)])
  have x: "td_execution t = x" using find_task_in [OF assms(2)] by simp
  have inv: "policy_inv i pol (as @ t # bs)" using assms(5) by (simp add: ts)
  show ?thesis unfolding sp
  proof (cases pol)
    case QueueTrigger
    with inv have "td_schedule t = i \<Longrightarrow> td_serial t" "list_all (\<lambda>u. td_schedule u = i \<longrightarrow> td_serial u) as"
      by (simp_all add: policy_inv_def)
    with assms(4) x tw have "td_schedule t = i \<Longrightarrow> u \<in> set as \<Longrightarrow> td_schedule u = i \<Longrightarrow> td_phase u = TaskFinished" for u
      by (auto simp: serial_free_def list_all_iff)
    with assms(3) inv QueueTrigger show "policy_inv i pol (as @ t\<lparr>td_phase := p\<rparr> # bs)"
      by (auto simp: policy_inv_def queue_order_def sorted_wrt_append)
  qed (use assms(3) inv in \<open>auto simp: policy_inv_def unfinished_of_def split: if_splits\<close>)
qed

lemma policy_queue:
  assumes "policy_inv i pol ts" "queued_task f s e t" "sc_id s = i \<Longrightarrow> dispatch_policy f s = pol"
    "\<not> (dispatch_policy f s = SkipIfRunning \<and> schedule_has_active_dispatch ts (sc_id s))"
  shows "policy_inv i pol (filter (\<lambda>t. td_phase t \<noteq> TaskFinished) (kept_tasks f s ts) @ [t])" (is "policy_inv i pol (?k @ [t])")
proof -
  have k: "policy_inv i pol ?k" using assms(1) by (simp add: policy_filter policy_kept)
  have e: "unfinished_of i ?k = []" if "sc_id s = i" "pol \<noteq> QueueTrigger" "pol \<noteq> AllowConcurrent"
    using that assms(3,4) by (cases pol) (auto simp: kept_tasks_def unfinished_of_def schedule_has_active_dispatch_def list_ex_iff filter_empty_conv)
  show ?thesis
  proof (cases "sc_id s = i")
    case True
    with k e assms(2,3) show ?thesis
      by (cases pol) (auto simp: policy_inv_def unfinished_of_def queued_task_def queue_order_def sorted_wrt_append simp del: filter_filter)
  next
    case False
    with k assms(2) show ?thesis
      by (cases pol) (auto simp: policy_inv_def unfinished_of_def queued_task_def queue_order_def sorted_wrt_append simp del: filter_filter)
  qed
qed

lemma running_filter: "length (running_tasks (filter P ts)) \<le> length (running_tasks ts)"
  unfolding running_tasks_def by (rule length_filter_filter)

lemma running_finish: "length (running_tasks (set_phase x TaskFinished ts)) \<le> length (running_tasks ts)"
  by (induction ts) (auto simp: running_tasks_def set_phase_def)

lemma running_start:
  assumes "distinct (map td_execution ts)" "find_task x ts = Some t"
  shows "length (running_tasks (set_phase x p ts)) \<le> Suc (length (running_tasks ts))"
proof -
  obtain as bs where "ts = as @ t # bs" "set_phase x p ts = as @ t\<lparr>td_phase := p\<rparr> # bs"
    by (rule set_phase_split [OF assms])
  then show ?thesis by (simp add: running_tasks_def)
qed

definition tasks_inv :: "('c, 'z) dispatch_config \<Rightarrow> string \<Rightarrow> concurrency_policy \<Rightarrow> tracked_dispatch list \<Rightarrow> bool" where
  "tasks_inv cfg i pol ts \<longleftrightarrow> length (running_tasks ts) \<le> dc_slots cfg \<and> policy_inv i pol ts"

lemma step_tasks:
  assumes h: "history_inv (ds_executions st) (ds_tasks st) log now" and fresh: "event_fresh st log e"
    and s: "dispatch_step cfg st e = Some st'" and inv: "tasks_inv cfg i pol (ds_tasks st)" and l: "policy_fixed i pol st e"
  shows "tasks_inv cfg i pol (ds_tasks st')"
proof (cases "(\<exists>env f x. e = HandleTrigger env f x) \<or> (\<exists>t ok i. e = StartTask t ok i)")
  case True
  then show ?thesis
  proof (elim disjE exE)
    fix env f x assume e: "e = HandleTrigger env f x"
    obtain out where r: "handle_fired_trigger cfg env f x st = (st', out)" using s e by (cases "handle_fired_trigger cfg env f x st") auto
    show ?thesis
    proof (cases "ds_tasks st' = ds_tasks st")
      case False
      with handle_effect [OF r] fresh e obtain sc xs ex kept where eff: "admission_effect env f st st' sc xs ex kept" by auto
      let ?k = "kept_tasks f sc (ds_tasks st)"
      have k: "length (running_tasks ?k) \<le> dc_slots cfg" "policy_inv i pol ?k"
        using inv running_filter [of _ "ds_tasks st"] by (auto simp: tasks_inv_def kept_tasks_def policy_filter intro: order_trans)
      from eff l e have "sc_id sc = i \<Longrightarrow> dispatch_policy f sc = pol" by (auto simp: admission_effect_def)
      from policy_queue [OF _ _ this] inv
      have q: "policy_inv i pol (filter (\<lambda>t. td_phase t \<noteq> TaskFinished) ?k @ [t])"
        if "queued_task f sc ex t" "\<not> (dispatch_policy f sc = SkipIfRunning \<and> schedule_has_active_dispatch (ds_tasks st) (sc_id sc))" for t
        using that by (simp add: tasks_inv_def)
      have "length (running_tasks (filter (\<lambda>t. td_phase t \<noteq> TaskFinished) ?k @ [t])) \<le> dc_slots cfg"
        if "queued_task f sc ex t" for t
        using that k(1) running_filter [of "\<lambda>t. td_phase t \<noteq> TaskFinished" ?k] by (simp add: running_tasks_def queued_task_def)
      with eff False k q show ?thesis by (auto simp: admission_effect_def tasks_inv_def)
    qed (use inv in simp)
  next
    fix u ok j assume e: "e = StartTask u ok j"
    with s have "start_task cfg u ok j st = Some st'" by simp
    then show ?thesis
    proof (rule start_taskD)
      fix t p assume t: "find_task j (ds_tasks st) = Some t" "td_phase t = TaskQueued" "serial_free t (ds_tasks st)"
        "length (running_tasks (ds_tasks st)) < dc_slots cfg" "ds_tasks st' = set_phase j p (ds_tasks st)"
      have d: "distinct (map td_execution (ds_tasks st))" using h by (simp add: history_inv_def)
      from running_start [OF d t(1), of p] policy_start [OF d t(1-3), of i pol p] inv t(4,5) show ?thesis by (simp add: tasks_inv_def)
    qed
  qed
next
  case False
  then have "ds_tasks st' = ds_tasks st \<or> ds_tasks st' = [] \<or> (\<exists>x. ds_tasks st' = set_phase x TaskFinished (ds_tasks st))"
    using other_step_closes [OF s] by blast
  with inv show ?thesis using policy_filter [of i pol "ds_tasks st" "\<lambda>_. False"]
    by (auto simp: tasks_inv_def policy_finish running_tasks_def [of "[]"] intro: order_trans [OF running_finish])
qed

lemma run_tasks:
  assumes "dispatch_run cfg (policy_fixed i pol) st now log"
  shows "tasks_inv cfg i pol (ds_tasks st)"
  using assms
proof (induction rule: dispatch_run.induct)
  case (run_start store keep t)
  show ?case
    by (cases pol) (simp_all add: dispatch_initial_def tasks_inv_def policy_inv_def running_tasks_def unfinished_of_def queue_order_def)
next
  case (run_step st t log e st')
  from step_tasks [OF run_history [OF run_step.hyps(1)] run_step.hyps(3,5) run_step.IH run_step.hyps(2)] show ?case .
qed

lemma policy_exclusive: "policy_inv i pol ts \<Longrightarrow> pol \<noteq> AllowConcurrent \<Longrightarrow> length (filter (\<lambda>t. td_schedule t = i) (running_tasks ts)) \<le> 1"
proof (cases pol)
  case QueueTrigger
  have "queue_order i ts \<Longrightarrow> length (filter (\<lambda>t. td_schedule t = i) (running_tasks ts)) \<le> 1"
  proof (induction ts)
    case (Cons t ts)
    show ?case
    proof (cases "td_schedule t = i \<and> td_phase t = TaskRunning")
      case True
      with Cons.prems have "filter (\<lambda>t. td_schedule t = i) (running_tasks ts) = []"
        by (auto simp: queue_order_def running_tasks_def filter_empty_conv)
      with True show ?thesis by (simp add: running_tasks_def)
    next
      case False
      with Cons show ?thesis by (auto simp: queue_order_def running_tasks_def)
    qed
  qed (simp add: running_tasks_def)
  then show "policy_inv i pol ts \<Longrightarrow> ?thesis" using QueueTrigger by (simp add: policy_inv_def)
next
  have le: "length (filter (\<lambda>t. td_schedule t = i) (running_tasks ts)) \<le> length (unfinished_of i ts)"
    unfolding running_tasks_def unfinished_of_def by (induction ts) auto
  {
    case SkipIfRunning
    then show "policy_inv i pol ts \<Longrightarrow> ?thesis" using le by (simp add: policy_inv_def)
  next
    case CancelPrevious
    then show "policy_inv i pol ts \<Longrightarrow> ?thesis" using le by (simp add: policy_inv_def)
  }
qed simp

text \<open>C25. In every run of the scheduler, no more dispatched workflows run at once than there are execution
  permits, and a schedule whose triggers are all handled under one policy other than \<^verbatim>\<open>Allow\<close> has at
  most one running workflow at any time: a trigger is skipped, queued or replaces the previous one.\<close>

theorem concurrency_policy_kept:
  assumes "dispatch_run cfg (policy_fixed i pol) st now log" "pol \<noteq> AllowConcurrent"
  shows "length (running_tasks (ds_tasks st)) \<le> dc_slots cfg
    \<and> length (filter (\<lambda>t. td_schedule t = i) (running_tasks (ds_tasks st))) \<le> 1"
  using run_tasks [OF assms(1)] policy_exclusive [OF _ assms(2)] by (simp add: tasks_inv_def)

text \<open>Two queued executions: while the first runs, the second cannot start.\<close>

definition queued_schedule :: schedule where
  "queued_schedule = limited_schedule\<lparr>sc_policies := \<lparr>sp_missed = None, sp_concurrency = Some QueueTrigger, sp_max_per_hour = 0\<rparr>\<rparr>"

definition queue_events :: "dispatch_event list" where
  "queue_events = [HandleTrigger (sample_env 1 ''a'') (sample_trigger ''s'' 1) None,
     HandleTrigger (sample_env 2 ''b'') (sample_trigger ''s'' 2) None, StartTask 3 True ''exec-s-a'']"

theorem concurrency_policy_kept_witness:
  "case dispatch_exec sample_dispatch_config (policy_fixed ''s'' QueueTrigger) (dispatch_initial [queued_schedule] 100, 0, []) queue_events of
     Some (st, now, log) \<Rightarrow> map td_phase (ds_tasks st) = [TaskRunning, TaskQueued] \<and> start_task sample_dispatch_config 4 True ''exec-s-b'' st = None
       \<and> length (filter (\<lambda>t. td_schedule t = ''s'') (running_tasks (ds_tasks st))) \<le> 1
   | None \<Rightarrow> False"
proof -
  have "map_option (\<lambda>(st, now, log). (map td_phase (ds_tasks st), start_task sample_dispatch_config 4 True ''exec-s-b'' st = None))
      (dispatch_exec sample_dispatch_config (policy_fixed ''s'' QueueTrigger) (dispatch_initial [queued_schedule] 100, 0, []) queue_events)
    = Some ([TaskRunning, TaskQueued], True)"
    by (simp add: queue_events_def sample_env_def sample_trigger_def limited_schedule_def queued_schedule_def schedule_new_def
        sample_dispatch_config_def dispatch_eval)
  then obtain st now log where x: "dispatch_exec sample_dispatch_config (policy_fixed ''s'' QueueTrigger)
      (dispatch_initial [queued_schedule] 100, 0, []) queue_events = Some (st, now, log)"
    "map td_phase (ds_tasks st) = [TaskRunning, TaskQueued]" "start_task sample_dispatch_config 4 True ''exec-s-b'' st = None"
    by auto
  from concurrency_policy_kept [OF dispatch_exec_run [OF x(1) run_start]] x show ?thesis by simp
qed

section \<open>Cascades of events\<close>

text \<open>The event that a dispatched execution emits (\<^verbatim>\<open>emit_scheduler_event\<close> inside the scope of its
  dispatch): it names the schedule and carries the depth of the execution.\<close>

definition scoped_event :: "fired_trigger \<Rightarrow> string \<Rightarrow> json option \<Rightarrow> time \<Rightarrow> incoming_event" where
  "scoped_event f ty payload t =
     \<lparr>ie_cascade_depth = ft_cascade_depth f, ie_event_type = ty, ie_payload = payload, ie_timestamp = t, ie_source = Some (ft_schedule f)\<rparr>"

text \<open>A cascade, newest first: every trigger was dispatched, and each one after the first was prepared
  from an event of the execution before it, in whatever state of the bridge, the registry and the
  dispatcher.\<close>

inductive cascade :: "('c, 'z) dispatch_config \<Rightarrow> fired_trigger list \<Rightarrow> bool" for cfg :: "('c, 'z) dispatch_config" where
  cascade_root: "handle_fired_trigger cfg env f expected st = (st', Dispatched i) \<Longrightarrow> cascade cfg [f]"
| cascade_link: "cascade cfg (f # fs) \<Longrightarrow>
    g \<in> set (prepare_triggers (dc_calendar cfg) (dc_text cfg) bridge (scoped_event f ty payload t) registry) \<Longrightarrow>
    handle_queued_trigger cfg env g st = (st', Dispatched i) \<Longrightarrow> cascade cfg (g # f # fs)"

inductive_cases cascade_NilE: "cascade cfg []"

lemma dispatched_depth:
  "handle_fired_trigger cfg env f expected st = (st', Dispatched i) \<Longrightarrow> ft_cascade_depth f \<le> dc_max_depth cfg"
proof (cases "admit_trigger cfg env f expected st")
  case (Pair st1 a)
  have no_record: "admit_hourly_execution lib env f s ot s1 \<noteq> (s2, Some (Dispatched i))" for lib s ot s1 s2
    by (auto simp: admit_hourly_execution_def Let_def split: option.splits prod.splits)
  assume r: "handle_fired_trigger cfg env f expected st = (st', Dispatched i)"
  have "a \<noteq> Inl (Dispatched i)"
    using Pair no_record by (auto simp: admit_trigger_def Let_def split: option.splits prod.splits bool.splits if_splits)
  with r Pair obtain s where "a = Inr s" by (cases a) (auto simp: handle_fired_trigger_def)
  with Pair show ?thesis using admit_accepted(4) by blast
qed

lemma queued_depth:
  "handle_queued_trigger cfg env f st = (st', Dispatched i) \<Longrightarrow> ft_cascade_depth f \<le> dc_max_depth cfg"
  unfolding handle_queued_trigger_def by (drule dispatched_depth) simp

lemma cascade_depth:
  "cascade cfg fs \<Longrightarrow> dc_max_depth cfg < u64_max \<Longrightarrow>
     fs \<noteq> [] \<and> length fs \<le> Suc (ft_cascade_depth (hd fs)) \<and> ft_cascade_depth (hd fs) \<le> dc_max_depth cfg
     \<and> sorted_wrt (\<lambda>g f. ft_cascade_depth f < ft_cascade_depth g) fs \<and> successively (\<lambda>g f. ft_schedule g \<noteq> ft_schedule f) fs"
proof (induction rule: cascade.induct)
  case (cascade_root env f expected st st' i)
  then show ?case using dispatched_depth by fastforce
next
  case (cascade_link f fs g bridge ty payload t registry env st st' i)
  from cascade_link.hyps(2) obtain s where
    s: "prepare_trigger (dc_calendar cfg) (dc_text cfg) bridge (scoped_event f ty payload t) s = Some g"
    by (auto simp: prepare_triggers_mem)
  from prepare_triggerD [OF s] have g: "ft_cascade_depth g = sat_add_u64 (ft_cascade_depth f) 1" "ft_schedule g \<noteq> ft_schedule f"
    by (auto simp: scoped_event_def)
  with cascade_link.IH cascade_link.prems have "ft_cascade_depth g = Suc (ft_cascade_depth f)" by (simp add: sat_add_u64_def)
  with g(2) cascade_link.IH [OF cascade_link.prems] queued_depth [OF cascade_link.hyps(3)] show ?case by auto
qed

text \<open>C26. A chain of executions in which each one is triggered by an event of the one before it has at
  most \<^verbatim>\<open>max_event_cascade_depth\<close> links: it stops, whatever the schedules listen to, their filters and
  debounce windows. No schedule of the chain is triggered by its own execution.\<close>

theorem cascades_stop:
  assumes "cascade cfg fs" "dc_max_depth cfg \<le> u32_max"
  shows "length fs \<le> Suc (dc_max_depth cfg) \<and> successively (\<lambda>g f. ft_schedule g \<noteq> ft_schedule f) fs"
  using cascade_depth [OF assms(1)] assms(2) by (auto simp: u32_max_def u64_max_def)

text \<open>A chain of two: an interval schedule, and a schedule that listens to the end of its runs.\<close>

definition chain_store :: schedule_store where
  "chain_store = [schedule_new 0 ''s1'' ''s1'' (IntervalTrigger 60) ''wf'',
     schedule_new 0 ''s2'' ''s2'' (EventTrigger ''run.completed'' 0 None) ''wf'']"

definition chain_trigger :: fired_trigger where
  "chain_trigger = \<lparr>ft_cascade_depth = 1, ft_schedule = ''s2'', ft_fired_at = 2, ft_type = TypeEvent, ft_is_recovery = False,
     ft_event_payload = None\<rparr>"

theorem cascades_stop_witness:
  "cascade sample_dispatch_config [chain_trigger, sample_trigger ''s1'' 1] \<and> length [chain_trigger, sample_trigger ''s1'' 1] \<le> Suc (dc_max_depth sample_dispatch_config)"
proof -
  have r: "snd (handle_fired_trigger sample_dispatch_config (sample_env 1 ''a'') (sample_trigger ''s1'' 1) None (dispatch_initial chain_store 100))
      = Dispatched ''exec-s1-a''"
    by (simp add: chain_store_def sample_env_def sample_trigger_def schedule_new_def policies_default_def sample_dispatch_config_def dispatch_eval)
  have q: "snd (handle_queued_trigger sample_dispatch_config (sample_env 2 ''b'') chain_trigger (dispatch_initial chain_store 100))
      = Dispatched ''exec-s2-b''"
    by (simp add: chain_store_def sample_env_def chain_trigger_def schedule_new_def policies_default_def sample_dispatch_config_def
        handle_queued_trigger_def dispatch_eval)
  have p: "chain_trigger \<in> set (prepare_triggers (dc_calendar sample_dispatch_config) (dc_text sample_dispatch_config) Map.empty
      (scoped_event (sample_trigger ''s1'' 1) ''run.completed'' None 2) chain_store)"
    by (simp add: chain_store_def chain_trigger_def scoped_event_def sample_trigger_def schedule_new_def prepare_triggers_mem
        prepare_trigger_def debounced_def sat_add_u64_def u64_max_def)
  from r obtain st1 where "handle_fired_trigger sample_dispatch_config (sample_env 1 ''a'') (sample_trigger ''s1'' 1) None
      (dispatch_initial chain_store 100) = (st1, Dispatched ''exec-s1-a'')" by (metis prod.collapse)
  then have "cascade sample_dispatch_config [sample_trigger ''s1'' 1]" by (rule cascade_root)
  moreover from q obtain st2 where "handle_queued_trigger sample_dispatch_config (sample_env 2 ''b'') chain_trigger
      (dispatch_initial chain_store 100) = (st2, Dispatched ''exec-s2-b'')" by (metis prod.collapse)
  ultimately have "cascade sample_dispatch_config [chain_trigger, sample_trigger ''s1'' 1]" using p by (intro cascade_link)
  with cascades_stop [of sample_dispatch_config] show ?thesis by (simp add: sample_dispatch_config_def u32_max_def)
qed

end
