(* ===== verification/Occurrence_Store.thy ===== *)
theory Occurrence_Store
  imports Budget_Store Text "HOL-Library.List_Lexorder" "HOL-Library.Char_ord" "HOL-Library.Product_Lexorder"
begin

text \<open>
  Durable receipts of one-time schedules: the lifecycle of \<^verbatim>\<open>crates/hf-scheduler/src/occurrence.rs\<close>
  and its store, \<^verbatim>\<open>crates/hf-storage/src/schedule_occurrence_store.rs\<close> and
  \<^verbatim>\<open>schedule_execution_store.rs\<close> with the execution history operations of \<^verbatim>\<open>store.rs\<close>, over the
  tables of \<^verbatim>\<open>migrations/0004\<close> and \<^verbatim>\<open>0023\<close>. As in the budget store each operation is one
  transaction: a function from the database to the database and a result, with the database
  unchanged when the transaction is not committed; scheduler instances that share the file are
  sequences of operations with different owner ids. Texts are as the table has them, so a state
  is a string. \<^verbatim>\<open>julianday\<close> of SQLite is a parameter into any linear order, with \<open>None\<close> for
  \<^verbatim>\<open>NULL\<close>; timestamps the table fills in by itself are left out. In \<^verbatim>\<open>INSERT ... ON
  CONFLICT(schedule_id) DO NOTHING\<close> the named constraint is checked before the others, as SQLite
  does.
\<close>

section \<open>The lifecycle\<close>

datatype one_time_state = OReserved | ORunning | OCompleted | OFailed | OCancelled

definition state_str :: "one_time_state \<Rightarrow> string" where
  "state_str s = (case s of OReserved \<Rightarrow> ''reserved'' | ORunning \<Rightarrow> ''running'' | OCompleted \<Rightarrow> ''completed''
     | OFailed \<Rightarrow> ''failed'' | OCancelled \<Rightarrow> ''cancelled'')"

datatype occurrence_validation_error = EmptyIdentity | InvalidLeaseShape | RecoveryDetailTooLarge | UnknownState string

definition state_from_str :: "string \<Rightarrow> (occurrence_validation_error, one_time_state) result" where
  "state_from_str v =
     (if v = ''reserved'' then Inr OReserved else if v = ''running'' then Inr ORunning
      else if v = ''completed'' then Inr OCompleted else if v = ''failed'' then Inr OFailed
      else if v = ''cancelled'' then Inr OCancelled else Inl (UnknownState v))"

record one_time_occurrence =
  ot_id :: string
  ot_schedule :: string
  ot_execution :: string
  ot_triggered_at :: int
  ot_state :: one_time_state
  ot_owner :: string
  ot_lease :: "int option"
  ot_detail :: "string option"

fun transition_allowed :: "one_time_state \<Rightarrow> one_time_state \<Rightarrow> bool" where
  "transition_allowed OReserved to \<longleftrightarrow> to = ORunning \<or> to = OCancelled"
| "transition_allowed ORunning to \<longleftrightarrow> to = OCompleted \<or> to = OFailed \<or> to = OCancelled"
| "transition_allowed _ to \<longleftrightarrow> False"

definition terminal_state :: "one_time_state \<Rightarrow> bool" where
  "terminal_state s \<longleftrightarrow> s = OCompleted \<or> s = OFailed \<or> s = OCancelled"

definition occurrence_terminal :: "one_time_occurrence \<Rightarrow> bool" where
  "occurrence_terminal oc = terminal_state (ot_state oc)"

definition recovery_eligible :: "one_time_occurrence \<Rightarrow> int \<Rightarrow> bool" where
  "recovery_eligible oc now \<longleftrightarrow> \<not> occurrence_terminal oc \<and> (case ot_lease oc of None \<Rightarrow> False | Some l \<Rightarrow> l \<le> now)"

definition max_recovery_detail_bytes :: nat where
  "max_recovery_detail_bytes = 4096"

definition bounded_recovery_detail :: "string \<Rightarrow> (occurrence_validation_error, string) result" where
  "bounded_recovery_detail d = (if utf8_len d > max_recovery_detail_bytes then Inl RecoveryDetailTooLarge else Inr d)"

definition occurrence_validate :: "one_time_occurrence \<Rightarrow> (occurrence_validation_error, unit) result" where
  "occurrence_validate oc =
     (if ot_id oc = [] \<or> ot_schedule oc = [] \<or> ot_execution oc = [] \<or> ot_owner oc = [] then Inl EmptyIdentity
      else if occurrence_terminal oc \<noteq> (ot_lease oc = None) then Inl InvalidLeaseShape
      else case ot_detail oc of
        None \<Rightarrow> Inr ()
      | Some d \<Rightarrow> bind_result (bounded_recovery_detail d) (\<lambda>_. Inr ()))"

section \<open>Tables\<close>

record occurrence_row =
  oc_id :: string
  oc_schedule :: string
  oc_execution :: string
  oc_triggered_at :: string
  oc_state :: string
  oc_owner :: string
  oc_lease :: "string option"
  oc_detail :: "string option"

record execution_row =
  ex_id :: string
  ex_schedule :: string
  ex_triggered_at :: string
  ex_status :: string
  ex_data :: string

record schedule_db =
  sd_occurrences :: "occurrence_row list"
  sd_executions :: "execution_row list"

definition schedule_db_empty :: schedule_db where
  "schedule_db_empty = \<lparr>sd_occurrences = [], sd_executions = []\<rparr>"

text \<open>A receipt as it is read: the row joined with the status and data of its execution.\<close>

record occurrence_record =
  rec_row :: occurrence_row
  rec_status :: "string option"
  rec_data :: "string option"

record new_occurrence =
  no_id :: string
  no_schedule :: string
  no_execution :: string
  no_triggered_at :: string
  no_owner :: string
  no_lease :: string
  no_status :: string
  no_data :: string

datatype reservation = Reserved occurrence_record | Existing occurrence_record

record occurrence_transition =
  tr_id :: string
  tr_schedule :: string
  tr_execution :: string
  tr_owner :: string
  tr_from :: string
  tr_to :: string
  tr_lease :: "string option"
  tr_detail :: "string option"
  tr_status :: string
  tr_data :: string

datatype transition_result =
    Applied occurrence_record | Idempotent occurrence_record | TransitionConflict occurrence_record | TransitionMissing

datatype acknowledgement =
    Acknowledged occurrence_record | AlreadyCancelled occurrence_record | AckConflict occurrence_record | AckMissing

section \<open>Reading\<close>

definition open_states :: "string list" where
  "open_states = [''reserved'', ''running'']"

definition closed_states :: "string list" where
  "closed_states = [''completed'', ''failed'', ''cancelled'']"

definition lease_matches_state :: "string \<Rightarrow> string option \<Rightarrow> bool" where
  "lease_matches_state st lease =
     (if st \<in> set open_states then lease \<noteq> None else if st \<in> set closed_states then lease = None else False)"

definition detail_is_bounded :: "string option \<Rightarrow> bool" where
  "detail_is_bounded d = (case d of None \<Rightarrow> True | Some v \<Rightarrow> utf8_len v \<le> 4096)"

definition find_execution :: "schedule_db \<Rightarrow> string \<Rightarrow> execution_row option" where
  "find_execution db i = find (\<lambda>e. ex_id e = i) (sd_executions db)"

definition row_valid :: "occurrence_row \<Rightarrow> bool" where
  "row_valid r \<longleftrightarrow> oc_id r \<noteq> [] \<and> oc_schedule r \<noteq> [] \<and> oc_execution r \<noteq> [] \<and> oc_owner r \<noteq> []
     \<and> lease_matches_state (oc_state r) (oc_lease r) \<and> detail_is_bounded (oc_detail r)"

definition record_from_row :: "schedule_db \<Rightarrow> occurrence_row \<Rightarrow> (storage_error, occurrence_record) result" where
  "record_from_row db r =
     (if row_valid r
      then Inr \<lparr>rec_row = r, rec_status = map_option ex_status (find_execution db (oc_execution r)),
                rec_data = map_option ex_data (find_execution db (oc_execution r))\<rparr>
      else Inl (InvalidData ''invalid stored one-time occurrence''))"

definition load_by_schedule :: "schedule_db \<Rightarrow> string \<Rightarrow> (storage_error, occurrence_record) result" where
  "load_by_schedule db s =
     bind_result (ok_or RowNotFound (find (\<lambda>r. oc_schedule r = s) (sd_occurrences db))) (record_from_row db)"

definition load_by_id :: "schedule_db \<Rightarrow> string \<Rightarrow> (storage_error, occurrence_record option) result" where
  "load_by_id db i = (case find (\<lambda>r. oc_id r = i) (sd_occurrences db) of
     None \<Rightarrow> Inr None
   | Some r \<Rightarrow> bind_result (record_from_row db r) (\<lambda>x. Inr (Some x)))"

definition schedule_occurrence :: "schedule_db \<Rightarrow> string \<Rightarrow> (storage_error, occurrence_record option) result" where
  "schedule_occurrence db i = load_by_id db i"

section \<open>Operations on receipts\<close>

definition reserve_schedule_occurrence ::
  "schedule_db \<Rightarrow> new_occurrence \<Rightarrow> schedule_db \<times> (storage_error, reservation) result" where
  "reserve_schedule_occurrence db n =
     (if no_id n = [] \<or> no_schedule n = [] \<or> no_execution n = [] \<or> no_owner n = [] \<or> no_status n \<noteq> ''pending''
      then (db, Inl (InvalidData ''invalid one-time occurrence reservation''))
      else if no_schedule n \<in> set (map oc_schedule (sd_occurrences db))
      then (db, bind_result (load_by_schedule db (no_schedule n)) (\<lambda>r. Inr (Existing r)))
      else if no_id n \<in> set (map oc_id (sd_occurrences db)) \<or> no_execution n \<in> set (map oc_execution (sd_occurrences db))
              \<or> no_execution n \<in> set (map ex_id (sd_executions db))
      then (db, Inl ConstraintViolation)
      else
        let db' = db\<lparr>
              sd_occurrences := sd_occurrences db @ [\<lparr>oc_id = no_id n, oc_schedule = no_schedule n, oc_execution = no_execution n,
                oc_triggered_at = no_triggered_at n, oc_state = ''reserved'', oc_owner = no_owner n,
                oc_lease = Some (no_lease n), oc_detail = None\<rparr>],
              sd_executions := sd_executions db @ [\<lparr>ex_id = no_execution n, ex_schedule = no_schedule n,
                ex_triggered_at = no_triggered_at n, ex_status = no_status n, ex_data = no_data n\<rparr>]\<rparr>
        in (db', bind_result (schedule_occurrence db' (no_id n)) (\<lambda>x.
              bind_result (ok_or (InvalidData ''reserved occurrence is missing'') x) (\<lambda>r. Inr (Reserved r)))))"

definition allowed_edge :: "string \<Rightarrow> string \<Rightarrow> bool" where
  "allowed_edge f t \<longleftrightarrow> (f = ''reserved'' \<and> t \<in> set [''running'', ''cancelled''])
     \<or> (f = ''running'' \<and> t \<in> set [''completed'', ''failed'', ''cancelled''])"

definition is_exact_terminal_repeat :: "occurrence_record \<Rightarrow> occurrence_transition \<Rightarrow> bool" where
  "is_exact_terminal_repeat x t \<longleftrightarrow>
     (let r = rec_row x in
      tr_to t \<in> set closed_states \<and> oc_id r = tr_id t \<and> oc_schedule r = tr_schedule t \<and> oc_execution r = tr_execution t
      \<and> oc_owner r = tr_owner t \<and> oc_state r = tr_to t \<and> oc_lease r = tr_lease t \<and> oc_detail r = tr_detail t)
     \<and> (case (rec_status x, rec_data x) of
          (Some st, Some d) \<Rightarrow> st = tr_status t \<and> d = tr_data t
        | (None, None) \<Rightarrow> True
        | _ \<Rightarrow> False)"

definition transition_matches :: "occurrence_transition \<Rightarrow> occurrence_row \<Rightarrow> bool" where
  "transition_matches t r \<longleftrightarrow> oc_id r = tr_id t \<and> oc_schedule r = tr_schedule t \<and> oc_execution r = tr_execution t
     \<and> oc_owner r = tr_owner t \<and> oc_state r = tr_from t"

definition apply_transition :: "occurrence_transition \<Rightarrow> occurrence_row \<Rightarrow> occurrence_row" where
  "apply_transition t r = r\<lparr>oc_state := tr_to t, oc_lease := tr_lease t, oc_detail := tr_detail t\<rparr>"

definition update_rows :: "(occurrence_row \<Rightarrow> bool) \<Rightarrow> (occurrence_row \<Rightarrow> occurrence_row) \<Rightarrow> schedule_db \<Rightarrow> schedule_db" where
  "update_rows p f db = db\<lparr>sd_occurrences := map (\<lambda>r. if p r then f r else r) (sd_occurrences db)\<rparr>"

definition rows_affected :: "(occurrence_row \<Rightarrow> bool) \<Rightarrow> schedule_db \<Rightarrow> nat" where
  "rows_affected p db = length (filter p (sd_occurrences db))"

definition set_execution :: "string \<Rightarrow> string \<Rightarrow> string \<Rightarrow> schedule_db \<Rightarrow> schedule_db" where
  "set_execution i status d db = db\<lparr>sd_executions :=
     map (\<lambda>e. if ex_id e = i then e\<lparr>ex_status := status, ex_data := d\<rparr> else e) (sd_executions db)\<rparr>"

definition executions_affected :: "string \<Rightarrow> schedule_db \<Rightarrow> nat" where
  "executions_affected i db = length (filter (\<lambda>e. ex_id e = i) (sd_executions db))"

definition require_occurrence_execution :: "nat \<Rightarrow> (storage_error, unit) result" where
  "require_occurrence_execution n = (if n = 1 then Inr () else Inl (InvalidData ''occurrence execution is missing''))"

text \<open>A transaction that fails before its commit leaves the database as it was.\<close>

definition committed :: "schedule_db \<Rightarrow> schedule_db \<Rightarrow> (storage_error, 'a) result \<Rightarrow> schedule_db \<times> (storage_error, 'a) result" where
  "committed db db' res = (case res of Inl e \<Rightarrow> (db, Inl e) | Inr x \<Rightarrow> (db', Inr x))"

definition transition_schedule_occurrence ::
  "schedule_db \<Rightarrow> occurrence_transition \<Rightarrow> schedule_db \<times> (storage_error, transition_result) result" where
  "transition_schedule_occurrence db t =
     (if \<not> allowed_edge (tr_from t) (tr_to t)
      then (db, bind_result (schedule_occurrence db (tr_id t)) (\<lambda>c. Inr (case c of
              None \<Rightarrow> TransitionMissing | Some r \<Rightarrow> TransitionConflict r)))
      else if tr_id t = [] \<or> tr_schedule t = [] \<or> tr_execution t = [] \<or> tr_owner t = [] \<or> tr_status t \<noteq> tr_to t
              \<or> \<not> lease_matches_state (tr_to t) (tr_lease t) \<or> \<not> detail_is_bounded (tr_detail t)
      then (db, Inl (InvalidData ''invalid one-time occurrence transition''))
      else if rows_affected (transition_matches t) db = 0
      then (db, bind_result (load_by_id db (tr_id t)) (\<lambda>c. Inr (case c of
              Some r \<Rightarrow> if is_exact_terminal_repeat r t then Idempotent r else TransitionConflict r
            | None \<Rightarrow> TransitionMissing)))
      else
        let db1 = update_rows (transition_matches t) (apply_transition t) db;
            db2 = set_execution (tr_execution t) (tr_status t) (tr_data t) db1
        in committed db db2
             (bind_result (require_occurrence_execution (executions_affected (tr_execution t) db1)) (\<lambda>_.
              bind_result (load_by_id db2 (tr_id t)) (\<lambda>x.
              bind_result (ok_or (InvalidData ''transitioned occurrence is missing'') x) (\<lambda>r. Inr (Applied r))))))"

definition owned_open :: "string \<Rightarrow> string \<Rightarrow> occurrence_row \<Rightarrow> bool" where
  "owned_open i owner r \<longleftrightarrow> oc_id r = i \<and> oc_owner r = owner \<and> oc_state r \<in> set open_states"

definition renew_schedule_occurrence_lease ::
  "schedule_db \<Rightarrow> string \<Rightarrow> string \<Rightarrow> string \<Rightarrow> schedule_db \<times> (storage_error, bool) result" where
  "renew_schedule_occurrence_lease db i owner lease =
     (if i = [] \<or> owner = [] \<or> lease = [] then (db, Inl (InvalidData ''invalid one-time occurrence lease renewal''))
      else (update_rows (owned_open i owner) (\<lambda>r. r\<lparr>oc_lease := Some lease\<rparr>) db,
            Inr (rows_affected (owned_open i owner) db = 1)))"

definition release_schedule_occurrence_lease ::
  "schedule_db \<Rightarrow> string \<Rightarrow> string \<Rightarrow> string \<Rightarrow> string \<Rightarrow> schedule_db \<times> (storage_error, bool) result" where
  "release_schedule_occurrence_lease db i owner released_at detail =
     (if i = [] \<or> owner = [] \<or> released_at = [] \<or> \<not> detail_is_bounded (Some detail)
      then (db, Inl (InvalidData ''invalid one-time occurrence lease release''))
      else (update_rows (owned_open i owner) (\<lambda>r. r\<lparr>oc_lease := Some released_at, oc_detail := Some detail\<rparr>) db,
            Inr (rows_affected (owned_open i owner) db = 1)))"

text \<open>\<^verbatim>\<open>julianday(lease_expires_at) <= julianday(?)\<close>; a comparison with \<^verbatim>\<open>NULL\<close> does not select the row.\<close>

definition expired_open :: "(string \<Rightarrow> 'd :: linorder option) \<Rightarrow> string \<Rightarrow> string \<Rightarrow> occurrence_row \<Rightarrow> bool" where
  "expired_open jd i at r \<longleftrightarrow> oc_id r = i \<and> oc_state r \<in> set open_states
     \<and> (case (Option.bind (oc_lease r) jd, jd at) of (Some l, Some a) \<Rightarrow> l \<le> a | _ \<Rightarrow> False)"

definition acknowledge_schedule_occurrence ::
  "(string \<Rightarrow> 'd :: linorder option) \<Rightarrow> schedule_db \<Rightarrow> string \<Rightarrow> string \<Rightarrow> string \<Rightarrow> string \<Rightarrow> string
     \<Rightarrow> schedule_db \<times> (storage_error, acknowledgement) result" where
  "acknowledge_schedule_occurrence jd db i at detail status d =
     (if i = [] \<or> at = [] \<or> status \<noteq> ''cancelled'' \<or> \<not> detail_is_bounded (Some detail)
      then (db, Inl (InvalidData ''invalid one-time occurrence acknowledgement''))
      else case find (expired_open jd i at) (sd_occurrences db) of
        None \<Rightarrow> (db, bind_result (load_by_id db i) (\<lambda>c. Inr (case c of
            Some r \<Rightarrow> if oc_state (rec_row r) = ''cancelled'' then AlreadyCancelled r else AckConflict r
          | None \<Rightarrow> AckMissing)))
      | Some row \<Rightarrow>
          let db1 = update_rows (expired_open jd i at) (\<lambda>r. r\<lparr>oc_state := ''cancelled'', oc_lease := None, oc_detail := Some detail\<rparr>) db;
              db2 = set_execution (oc_execution row) status d db1
          in committed db db2
               (bind_result (require_occurrence_execution (executions_affected (oc_execution row) db1)) (\<lambda>_.
                bind_result (load_by_id db2 i) (\<lambda>x.
                bind_result (ok_or (InvalidData ''acknowledged occurrence is missing'') x) (\<lambda>r. Inr (Acknowledged r))))))"

section \<open>Operations on the execution history\<close>

definition protected_execution :: "schedule_db \<Rightarrow> string \<Rightarrow> bool" where
  "protected_execution db i = list_ex (\<lambda>r. oc_execution r = i \<and> oc_state r \<in> set open_states) (sd_occurrences db)"

definition upsert_schedule_execution :: "schedule_db \<Rightarrow> execution_row \<Rightarrow> schedule_db" where
  "upsert_schedule_execution db e =
     (if ex_id e \<in> set (map ex_id (sd_executions db))
      then db\<lparr>sd_executions := map (\<lambda>x. if ex_id x = ex_id e then e else x) (sd_executions db)\<rparr>
      else db\<lparr>sd_executions := sd_executions db @ [e]\<rparr>)"

definition clear_schedule_executions :: "schedule_db \<Rightarrow> schedule_db \<times> nat" where
  "clear_schedule_executions db =
     (let kept = filter (\<lambda>e. protected_execution db (ex_id e)) (sd_executions db)
      in (db\<lparr>sd_executions := kept\<rparr>, length (sd_executions db) - length kept))"

record execution_snapshot =
  es_id :: string
  es_triggered_at :: string
  es_data :: string

fun clear_records :: "schedule_db \<Rightarrow> execution_snapshot list \<Rightarrow> nat \<Rightarrow> (storage_error, schedule_db \<times> nat) result" where
  "clear_records db [] n = Inr (db, n)"
| "clear_records db (x # xs) n = (case find_execution db (es_id x) of
     None \<Rightarrow> Inl (RecordNotFound ''selected schedule execution'')
   | Some e \<Rightarrow>
       if ex_data e \<noteq> es_data x
       then Inl (InvalidData ''selected schedule execution changed; retry clearing history'')
       else if protected_execution db (es_id x) then clear_records db xs n
       else clear_records (db\<lparr>sd_executions := filter (\<lambda>e. ex_id e \<noteq> es_id x) (sd_executions db)\<rparr>) xs
              (n + executions_affected (es_id x) db))"

definition clear_schedule_execution_records ::
  "schedule_db \<Rightarrow> execution_snapshot list \<Rightarrow> schedule_db \<times> (storage_error, nat) result" where
  "clear_schedule_execution_records db xs = (case clear_records db xs 0 of
     Inl e \<Rightarrow> (db, Inl e) | Inr (db', n) \<Rightarrow> (db', Inr n))"

text \<open>\<open>recent\<close> is the SQL test that the serialized execution started within the last hour.\<close>

definition prune_schedule_executions :: "(string \<Rightarrow> bool) \<Rightarrow> schedule_db \<Rightarrow> string \<Rightarrow> nat \<Rightarrow> schedule_db \<times> nat" where
  "prune_schedule_executions recent db s keep =
     (let newest = map ex_id (take keep (rev (sort_key (\<lambda>e. (ex_triggered_at e, ex_id e))
                     (filter (\<lambda>e. ex_schedule e = s) (sd_executions db)))));
          victim = (\<lambda>e. ex_schedule e = s \<and> ex_status e \<notin> set [''pending'', ''running''] \<and> \<not> recent (ex_data e)
                     \<and> \<not> protected_execution db (ex_id e) \<and> ex_id e \<notin> set newest);
          kept = filter (\<lambda>e. \<not> victim e) (sd_executions db)
      in (db\<lparr>sd_executions := kept\<rparr>, length (sd_executions db) - length kept))"

section \<open>Runs\<close>

datatype occurrence_op =
    OpReserve new_occurrence
  | OpTransition occurrence_transition
  | OpRenew string string string
  | OpRelease string string string string
  | OpAcknowledge string string string string string
  | OpUpsert execution_row
  | OpClear
  | OpClearRecords "execution_snapshot list"
  | OpPrune "string \<Rightarrow> bool" string nat

datatype occurrence_outcome =
    OutReserve "(storage_error, reservation) result"
  | OutTransition "(storage_error, transition_result) result"
  | OutLease "(storage_error, bool) result"
  | OutAcknowledge "(storage_error, acknowledgement) result"
  | OutHistory

fun occurrence_step ::
  "(string \<Rightarrow> 'd :: linorder option) \<Rightarrow> schedule_db \<Rightarrow> occurrence_op \<Rightarrow> schedule_db \<times> occurrence_outcome" where
  "occurrence_step jd db (OpReserve n) = map_prod id OutReserve (reserve_schedule_occurrence db n)"
| "occurrence_step jd db (OpTransition t) = map_prod id OutTransition (transition_schedule_occurrence db t)"
| "occurrence_step jd db (OpRenew i w l) = map_prod id OutLease (renew_schedule_occurrence_lease db i w l)"
| "occurrence_step jd db (OpRelease i w a d) = map_prod id OutLease (release_schedule_occurrence_lease db i w a d)"
| "occurrence_step jd db (OpAcknowledge i a d s x) = map_prod id OutAcknowledge (acknowledge_schedule_occurrence jd db i a d s x)"
| "occurrence_step jd db (OpUpsert e) = (upsert_schedule_execution db e, OutHistory)"
| "occurrence_step jd db OpClear = (fst (clear_schedule_executions db), OutHistory)"
| "occurrence_step jd db (OpClearRecords xs) = (fst (clear_schedule_execution_records db xs), OutHistory)"
| "occurrence_step jd db (OpPrune rc s k) = (fst (prune_schedule_executions rc db s k), OutHistory)"

definition occurrence_run ::
  "(string \<Rightarrow> 'd :: linorder option) \<Rightarrow> schedule_db \<Rightarrow> occurrence_op list \<Rightarrow> schedule_db \<times> occurrence_outcome list" where
  "occurrence_run jd db ops = run_outputs (occurrence_step jd) db ops"

section \<open>The two transition tables agree\<close>

lemma state_str_roundtrip: "state_from_str (state_str s) = Inr s"
  by (cases s) (simp_all add: state_str_def state_from_str_def)

lemma transition_tables_agree: "allowed_edge (state_str f) (state_str t) = transition_allowed f t"
  by (cases f; cases t) (simp_all add: state_str_def allowed_edge_def)

section \<open>The invariant of the tables\<close>

definition is_open :: "occurrence_row \<Rightarrow> bool" where
  "is_open r \<longleftrightarrow> oc_state r \<in> set open_states"

definition row_key :: "occurrence_row \<Rightarrow> string \<times> string \<times> string \<times> string" where
  "row_key r = (oc_id r, oc_schedule r, oc_execution r, oc_owner r)"

definition occurrences_ok :: "schedule_db \<Rightarrow> bool" where
  "occurrences_ok db \<longleftrightarrow>
     distinct (map oc_id (sd_occurrences db)) \<and> distinct (map oc_schedule (sd_occurrences db))
     \<and> distinct (map oc_execution (sd_occurrences db)) \<and> distinct (map ex_id (sd_executions db))
     \<and> (\<forall>r\<in>set (sd_occurrences db). row_valid r \<and> (is_open r \<longrightarrow> oc_execution r \<in> set (map ex_id (sd_executions db))))"

lemma occurrences_ok_empty: "occurrences_ok schedule_db_empty"
  by (simp add: occurrences_ok_def schedule_db_empty_def)

lemma map_update_rows:
  assumes "\<And>r. r \<in> set (sd_occurrences db) \<Longrightarrow> p r \<Longrightarrow> g (f r) = g r"
  shows "map g (sd_occurrences (update_rows p f db)) = map g (sd_occurrences db)"
  using assms by (auto simp: update_rows_def)

lemma update_rows_ok:
  assumes "occurrences_ok db"
    and "\<And>r. r \<in> set (sd_occurrences db) \<Longrightarrow> p r \<Longrightarrow> row_key (f r) = row_key r \<and> row_valid (f r) \<and> (is_open (f r) \<longrightarrow> is_open r)"
  shows "occurrences_ok (update_rows p f db)"
proof -
  have "map g (sd_occurrences (update_rows p f db)) = map g (sd_occurrences db)" if "g \<in> {oc_id, oc_schedule, oc_execution}" for g
    using that assms(2) by (intro map_update_rows) (auto simp: row_key_def)
  moreover have "sd_executions (update_rows p f db) = sd_executions db" by (simp add: update_rows_def)
  moreover have "row_valid r \<and> (is_open r \<longrightarrow> oc_execution r \<in> set (map ex_id (sd_executions db)))"
    if "r \<in> set (sd_occurrences (update_rows p f db))" for r
    using that assms unfolding occurrences_ok_def by (fastforce simp: update_rows_def row_key_def split: if_splits)
  ultimately show ?thesis using assms(1) unfolding occurrences_ok_def by simp
qed

lemma set_execution_ids: "map ex_id (sd_executions (set_execution i st d db)) = map ex_id (sd_executions db)"
  by (simp add: set_execution_def)

lemma set_execution_ok: "occurrences_ok db \<Longrightarrow> occurrences_ok (set_execution i st d db)"
  unfolding occurrences_ok_def set_execution_ids by (simp add: set_execution_def)

lemma keep_executions_ok:
  assumes "occurrences_ok db" "\<And>e. e \<in> set (sd_executions db) \<Longrightarrow> protected_execution db (ex_id e) \<Longrightarrow> q e"
  shows "occurrences_ok (db\<lparr>sd_executions := filter q (sd_executions db)\<rparr>)"
proof -
  have "oc_execution r \<in> ex_id ` {e \<in> set (sd_executions db). q e}" if "r \<in> set (sd_occurrences db)" "is_open r" for r
  proof -
    have "oc_execution r \<in> ex_id ` set (sd_executions db)" using assms(1) that by (simp add: occurrences_ok_def)
    then obtain e where e: "e \<in> set (sd_executions db)" "ex_id e = oc_execution r" by force
    have "protected_execution db (ex_id e)" using that e by (auto simp: protected_execution_def is_open_def list_ex_iff)
    with e assms(2) have "e \<in> {e \<in> set (sd_executions db). q e}" by simp
    with e(2) show ?thesis by force
  qed
  with assms(1) show ?thesis by (simp add: occurrences_ok_def distinct_map_filter)
qed

section \<open>Every operation keeps the invariant\<close>

definition reserved_db :: "schedule_db \<Rightarrow> new_occurrence \<Rightarrow> schedule_db" where
  "reserved_db db n = db\<lparr>
     sd_occurrences := sd_occurrences db @ [\<lparr>oc_id = no_id n, oc_schedule = no_schedule n, oc_execution = no_execution n,
       oc_triggered_at = no_triggered_at n, oc_state = ''reserved'', oc_owner = no_owner n,
       oc_lease = Some (no_lease n), oc_detail = None\<rparr>],
     sd_executions := sd_executions db @ [\<lparr>ex_id = no_execution n, ex_schedule = no_schedule n,
       ex_triggered_at = no_triggered_at n, ex_status = no_status n, ex_data = no_data n\<rparr>]\<rparr>"

definition reservable :: "schedule_db \<Rightarrow> new_occurrence \<Rightarrow> bool" where
  "reservable db n \<longleftrightarrow> no_id n \<noteq> [] \<and> no_schedule n \<noteq> [] \<and> no_execution n \<noteq> [] \<and> no_owner n \<noteq> []
     \<and> no_schedule n \<notin> set (map oc_schedule (sd_occurrences db)) \<and> no_id n \<notin> set (map oc_id (sd_occurrences db))
     \<and> no_execution n \<notin> set (map oc_execution (sd_occurrences db)) \<and> no_execution n \<notin> set (map ex_id (sd_executions db))"

lemma reserved_db_ok:
  assumes "occurrences_ok db" "reservable db n"
  shows "occurrences_ok (reserved_db db n)"
proof -
  let ?r = "\<lparr>oc_id = no_id n, oc_schedule = no_schedule n, oc_execution = no_execution n,
       oc_triggered_at = no_triggered_at n, oc_state = ''reserved'', oc_owner = no_owner n,
       oc_lease = Some (no_lease n), oc_detail = None\<rparr>"
  have "row_valid ?r"
    using assms(2) by (simp add: reservable_def row_valid_def lease_matches_state_def open_states_def detail_is_bounded_def)
  with assms show ?thesis unfolding occurrences_ok_def reserved_db_def reservable_def by simp
qed

lemma reserve_cases:
  "fst (reserve_schedule_occurrence db n) = db \<and> (\<nexists>r. snd (reserve_schedule_occurrence db n) = Inr (Reserved r))
   \<or> reservable db n \<and> fst (reserve_schedule_occurrence db n) = reserved_db db n
      \<and> snd (reserve_schedule_occurrence db n)
         = bind_result (schedule_occurrence (reserved_db db n) (no_id n)) (\<lambda>x.
             bind_result (ok_or (InvalidData ''reserved occurrence is missing'') x) (\<lambda>r. Inr (Reserved r)))"
  unfolding reserve_schedule_occurrence_def reservable_def reserved_db_def Let_def
  by (auto simp: bind_result_eq_Inr)

lemma reserve_ok: "occurrences_ok db \<Longrightarrow> occurrences_ok (fst (reserve_schedule_occurrence db n))"
  using reserve_cases [of db n] reserved_db_ok by metis

lemma committed_ok: "occurrences_ok db \<Longrightarrow> occurrences_ok db' \<Longrightarrow> occurrences_ok (fst (committed db db' res))"
  by (simp add: committed_def split: sum.split)

lemma allowed_edge_open: "allowed_edge f t \<Longrightarrow> f \<in> set open_states"
  by (auto simp: allowed_edge_def open_states_def)

lemma apply_transition_row:
  assumes "row_valid r" "transition_matches t r" "allowed_edge (tr_from t) (tr_to t)"
    and "lease_matches_state (tr_to t) (tr_lease t)" "detail_is_bounded (tr_detail t)"
  shows "row_key (apply_transition t r) = row_key r \<and> row_valid (apply_transition t r) \<and> is_open r"
  using assms allowed_edge_open [OF assms(3)]
  by (auto simp: row_key_def apply_transition_def row_valid_def transition_matches_def is_open_def)

lemma transition_ok:
  assumes "occurrences_ok db"
  shows "occurrences_ok (fst (transition_schedule_occurrence db t))"
proof -
  let ?db2 = "set_execution (tr_execution t) (tr_status t) (tr_data t) (update_rows (transition_matches t) (apply_transition t) db)"
  have "occurrences_ok ?db2"
    if "allowed_edge (tr_from t) (tr_to t)" "lease_matches_state (tr_to t) (tr_lease t)" "detail_is_bounded (tr_detail t)"
    using assms apply_transition_row [OF _ _ that]
    by (intro set_execution_ok update_rows_ok) (auto simp: occurrences_ok_def)
  then show ?thesis
    using assms by (auto simp: transition_schedule_occurrence_def Let_def intro!: committed_ok)
qed

lemma lease_ok:
  assumes "occurrences_ok db" "\<And>r. row_valid r \<Longrightarrow> is_open r \<Longrightarrow> row_key (f r) = row_key r \<and> row_valid (f r)"
  shows "occurrences_ok (update_rows (owned_open i w) f db)"
  using assms by (intro update_rows_ok) (auto simp: occurrences_ok_def owned_open_def is_open_def)

lemma renew_ok: "occurrences_ok db \<Longrightarrow> occurrences_ok (fst (renew_schedule_occurrence_lease db i w l))"
  by (auto simp: renew_schedule_occurrence_lease_def intro!: lease_ok)
    (auto simp: row_key_def row_valid_def lease_matches_state_def is_open_def)

lemma release_ok: "occurrences_ok db \<Longrightarrow> occurrences_ok (fst (release_schedule_occurrence_lease db i w a d))"
  by (auto simp: release_schedule_occurrence_lease_def intro!: lease_ok)
    (auto simp: row_key_def row_valid_def lease_matches_state_def is_open_def)

definition cancel_row :: "string \<Rightarrow> occurrence_row \<Rightarrow> occurrence_row" where
  "cancel_row d r = r\<lparr>oc_state := ''cancelled'', oc_lease := None, oc_detail := Some d\<rparr>"

lemma cancel_row_props:
  assumes "row_valid r" "detail_is_bounded (Some d)"
  shows "row_key (cancel_row d r) = row_key r \<and> row_valid (cancel_row d r) \<and> \<not> is_open (cancel_row d r)"
  using assms by (auto simp: cancel_row_def row_key_def row_valid_def lease_matches_state_def is_open_def open_states_def closed_states_def)

lemma acknowledge_ok:
  assumes "occurrences_ok db"
  shows "occurrences_ok (fst (acknowledge_schedule_occurrence jd db i a d s x))"
proof -
  have "occurrences_ok (set_execution ex s x (update_rows (expired_open jd i a) (cancel_row d) db))"
    if "detail_is_bounded (Some d)" for ex
    using assms cancel_row_props [OF _ that] by (intro set_execution_ok update_rows_ok) (auto simp: occurrences_ok_def)
  then show ?thesis
    using assms unfolding cancel_row_def [abs_def]
    by (auto simp: acknowledge_schedule_occurrence_def Let_def intro!: committed_ok split: option.split)
qed

lemma upsert_ok:
  assumes "occurrences_ok db"
  shows "occurrences_ok (upsert_schedule_execution db e)"
proof (cases "ex_id e \<in> set (map ex_id (sd_executions db))")
  case True
  then have "map ex_id (sd_executions (upsert_schedule_execution db e)) = map ex_id (sd_executions db)"
    "sd_occurrences (upsert_schedule_execution db e) = sd_occurrences db" by (simp_all add: upsert_schedule_execution_def)
  with assms show ?thesis unfolding occurrences_ok_def by (simp only:) blast
next
  case False
  with assms show ?thesis by (auto simp: upsert_schedule_execution_def occurrences_ok_def)
qed

lemma clear_records_ok:
  "occurrences_ok db \<Longrightarrow> clear_records db xs n = Inr (db', m) \<Longrightarrow> occurrences_ok db'"
proof (induction xs arbitrary: db n)
  case (Cons x xs)
  have "occurrences_ok (db\<lparr>sd_executions := filter (\<lambda>e. ex_id e \<noteq> es_id x) (sd_executions db)\<rparr>)"
    if "\<not> protected_execution db (es_id x)" using Cons.prems(1) that by (intro keep_executions_ok) auto
  with Cons show ?case by (auto split: option.splits if_splits)
qed simp

lemma occurrence_step_ok: "occurrences_ok db \<Longrightarrow> occurrences_ok (fst (occurrence_step jd db op))"
proof (cases op)
  case (OpClearRecords xs)
  assume "occurrences_ok db"
  with OpClearRecords show ?thesis
    by (auto simp: clear_schedule_execution_records_def dest: clear_records_ok split: sum.split)
qed (auto simp: reserve_ok transition_ok renew_ok release_ok acknowledge_ok upsert_ok clear_schedule_executions_def
    prune_schedule_executions_def Let_def intro!: keep_executions_ok)

section \<open>What transitions and acknowledgements do\<close>

lemma find_distinct: "distinct (map g xs) \<Longrightarrow> x \<in> set xs \<Longrightarrow> find (\<lambda>y. g y = g x) xs = Some x"
  by (induction xs) (auto simp: image_iff)

lemma find_map_keep: "(\<And>x. x \<in> set xs \<Longrightarrow> g (h x) = g x) \<Longrightarrow> find (\<lambda>y. g y = k) (map h xs) = map_option h (find (\<lambda>y. g y = k) xs)"
  by (induction xs) auto

lemma executions_one:
  assumes "distinct (map ex_id (sd_executions db))" "i \<in> set (map ex_id (sd_executions db))"
  shows "executions_affected i db = 1"
proof -
  have "distinct (map ex_id xs) \<Longrightarrow> length (filter (\<lambda>e. ex_id e = i) xs) = (if i \<in> set (map ex_id xs) then 1 else 0)" for xs
    by (induction xs) auto
  from this [OF assms(1)] assms(2) show ?thesis by (simp add: executions_affected_def)
qed

lemma find_set_execution:
  "find_execution (set_execution i st d db) j
     = map_option (\<lambda>e. if j = i then e\<lparr>ex_status := st, ex_data := d\<rparr> else e) (find_execution db j)"
proof -
  have "find (\<lambda>e. ex_id e = j) (map (\<lambda>e. if ex_id e = i then e\<lparr>ex_status := st, ex_data := d\<rparr> else e) xs)
      = map_option (\<lambda>e. if j = i then e\<lparr>ex_status := st, ex_data := d\<rparr> else e) (find (\<lambda>e. ex_id e = j) xs)" for xs
    by (induction xs) auto
  then show ?thesis by (simp add: find_execution_def set_execution_def)
qed

text \<open>A guarded write on one receipt and its execution, as transition and acknowledgement do it.\<close>

definition paired_write ::
  "(occurrence_row \<Rightarrow> bool) \<Rightarrow> (occurrence_row \<Rightarrow> occurrence_row) \<Rightarrow> string \<Rightarrow> string \<Rightarrow> string \<Rightarrow> schedule_db \<Rightarrow> schedule_db" where
  "paired_write p f i st d db = set_execution i st d (update_rows p f db)"

lemma paired_write_rows:
  "sd_occurrences (paired_write p f i st d db) = map (\<lambda>r. if p r then f r else r) (sd_occurrences db)"
  by (simp add: paired_write_def set_execution_def update_rows_def)

lemma paired_write_reads:
  assumes ok: "occurrences_ok db" and r: "r \<in> set (sd_occurrences db)" "p r" "is_open r"
    and f: "row_key (f r) = row_key r" "row_valid (f r)" and p: "\<And>x. p x \<Longrightarrow> oc_id x = oc_id r"
  shows "require_occurrence_execution (executions_affected (oc_execution r) (update_rows p f db)) = Inr ()
    \<and> load_by_id (paired_write p f (oc_execution r) st d db) (oc_id r)
        = Inr (Some \<lparr>rec_row = f r, rec_status = Some st, rec_data = Some d\<rparr>)"
proof -
  have ids: "distinct (map oc_id (sd_occurrences db))" "distinct (map ex_id (sd_executions db))"
    and ex: "oc_execution r \<in> set (map ex_id (sd_executions db))"
    using ok r by (simp_all add: occurrences_ok_def)
  have one: "executions_affected (oc_execution r) (update_rows p f db) = 1"
    using executions_one [OF ids(2) ex] by (simp add: executions_affected_def update_rows_def)
  have only: "x = r" if "x \<in> set (sd_occurrences db)" "p x" for x
    using p [OF that(2)] that(1) r(1) ids(1) by (metis distinct_map inj_onD)
  have eq: "map (\<lambda>x. if p x then f x else x) (sd_occurrences db) = map (\<lambda>x. if x = r then f x else x) (sd_occurrences db)"
    by (rule map_cong [OF refl]) (metis only r(2))
  have keep: "oc_id (if x = r then f x else x) = oc_id x" for x using f(1) by (simp add: row_key_def)
  have find: "find (\<lambda>x. oc_id x = oc_id r) (map (\<lambda>x. if x = r then f x else x) (sd_occurrences db)) = Some (f r)"
    using find_map_keep [of _ oc_id "\<lambda>x. if x = r then f x else x", OF keep] find_distinct [OF ids(1) r(1)] by simp
  obtain e where e: "find_execution db (oc_execution r) = Some e" "ex_id e = oc_execution r"
    using ex ids(2) find_distinct [OF ids(2)] unfolding find_execution_def by (auto simp: image_iff)
  have "find_execution (update_rows p f db) = find_execution db" by (rule ext) (simp add: find_execution_def update_rows_def)
  then have "find_execution (paired_write p f (oc_execution r) st d db) (oc_execution (f r)) = Some (e\<lparr>ex_status := st, ex_data := d\<rparr>)"
    using e f(1) by (simp add: paired_write_def find_set_execution row_key_def)
  then have "load_by_id (paired_write p f (oc_execution r) st d db) (oc_id r)
      = Inr (Some \<lparr>rec_row = f r, rec_status = Some st, rec_data = Some d\<rparr>)"
    unfolding load_by_id_def paired_write_rows eq find using f(2) by (simp add: record_from_row_def)
  with one show ?thesis by (simp add: require_occurrence_execution_def)
qed

definition request_ok :: "occurrence_transition \<Rightarrow> bool" where
  "request_ok t \<longleftrightarrow> allowed_edge (tr_from t) (tr_to t) \<and> tr_id t \<noteq> [] \<and> tr_schedule t \<noteq> [] \<and> tr_execution t \<noteq> []
     \<and> tr_owner t \<noteq> [] \<and> tr_status t = tr_to t \<and> lease_matches_state (tr_to t) (tr_lease t) \<and> detail_is_bounded (tr_detail t)"

definition transitioned_db :: "schedule_db \<Rightarrow> occurrence_transition \<Rightarrow> schedule_db" where
  "transitioned_db db t = paired_write (transition_matches t) (apply_transition t) (tr_execution t) (tr_status t) (tr_data t) db"

lemma transition_applied:
  assumes "occurrences_ok db" "r \<in> set (sd_occurrences db)" "transition_matches t r" "request_ok t"
  shows "transition_schedule_occurrence db t = (transitioned_db db t,
     Inr (Applied \<lparr>rec_row = apply_transition t r, rec_status = Some (tr_status t), rec_data = Some (tr_data t)\<rparr>))"
proof -
  have v: "row_valid r" using assms(1,2) by (simp add: occurrences_ok_def)
  have a: "row_key (apply_transition t r) = row_key r" "row_valid (apply_transition t r)" "is_open r"
    using apply_transition_row [OF v assms(3)] assms(4) by (simp_all add: request_ok_def)
  have k: "oc_id r = tr_id t" "oc_execution r = tr_execution t" using assms(3) by (simp_all add: transition_matches_def)
  have same: "oc_id x = oc_id r" if "transition_matches t x" for x using that k by (simp add: transition_matches_def)
  note reads = paired_write_reads [where p = "transition_matches t" and f = "apply_transition t",
      OF assms(1,2,3) a(3) a(1,2) same, of "tr_status t" "tr_data t"]
  have "rows_affected (transition_matches t) db \<noteq> 0"
    using assms(2,3) by (auto simp: rows_affected_def filter_empty_conv)
  with reads assms(4) k show ?thesis
    by (simp add: transition_schedule_occurrence_def request_ok_def transitioned_db_def paired_write_def committed_def Let_def)
qed

lemma transition_refused:
  assumes "\<not> (request_ok t \<and> (\<exists>r\<in>set (sd_occurrences db). transition_matches t r))"
  shows "fst (transition_schedule_occurrence db t) = db \<and> snd (transition_schedule_occurrence db t) \<noteq> Inr (Applied x)"
proof -
  have "rows_affected (transition_matches t) db = 0" if "request_ok t"
    using assms that by (auto simp: rows_affected_def filter_empty_conv)
  then show ?thesis
    by (auto simp: transition_schedule_occurrence_def request_ok_def bind_result_eq_Inr committed_def Let_def
        split: option.splits if_splits)
qed

definition acknowledged_db ::
  "(string \<Rightarrow> 'd :: linorder option) \<Rightarrow> schedule_db \<Rightarrow> occurrence_row \<Rightarrow> string \<Rightarrow> string \<Rightarrow> string \<Rightarrow> string \<Rightarrow> schedule_db" where
  "acknowledged_db jd db r a d s x = paired_write (expired_open jd (oc_id r) a) (cancel_row d) (oc_execution r) s x db"

lemma acknowledge_applied:
  assumes "occurrences_ok db" "r \<in> set (sd_occurrences db)" "expired_open jd i a r"
    and "i \<noteq> []" "a \<noteq> []" "s = ''cancelled''" "detail_is_bounded (Some d)"
  shows "acknowledge_schedule_occurrence jd db i a d s x = (acknowledged_db jd db r a d s x,
     Inr (Acknowledged \<lparr>rec_row = cancel_row d r, rec_status = Some s, rec_data = Some x\<rparr>))"
proof -
  have v: "row_valid r" using assms(1,2) by (simp add: occurrences_ok_def)
  note c = cancel_row_props [OF v assms(7)]
  have k: "oc_id r = i" "is_open r" using assms(3) by (simp_all add: expired_open_def is_open_def)
  have same: "oc_id y = oc_id r" if "expired_open jd i a y" for y using that k by (simp add: expired_open_def)
  note reads = paired_write_reads [where p = "expired_open jd i a" and f = "cancel_row d",
      OF assms(1,2,3) k(2) conjunct1 [OF c] conjunct1 [OF conjunct2 [OF c]] same, of s x]
  have "find (expired_open jd i a) (sd_occurrences db) \<noteq> None" using assms(2,3) by (auto simp: find_None_iff)
  then obtain q where q: "find (expired_open jd i a) (sd_occurrences db) = Some q" by blast
  then have "q \<in> set (sd_occurrences db)" "oc_id q = oc_id r"
    using find_Some_iff_first [OF q] same by blast+
  then have "q = r" using assms(1,2) unfolding occurrences_ok_def by (metis distinct_map inj_onD)
  with q reads assms(4-7) k show ?thesis
    by (simp add: acknowledge_schedule_occurrence_def acknowledged_db_def paired_write_def committed_def Let_def
        cancel_row_def [abs_def])
qed

lemma acknowledge_refused:
  assumes "\<not> (i \<noteq> [] \<and> a \<noteq> [] \<and> s = ''cancelled'' \<and> detail_is_bounded (Some d) \<and> (\<exists>r\<in>set (sd_occurrences db). expired_open jd i a r))"
  shows "fst (acknowledge_schedule_occurrence jd db i a d s x) = db
    \<and> snd (acknowledge_schedule_occurrence jd db i a d s x) \<noteq> Inr (Acknowledged y)"
proof -
  have "find (expired_open jd i a) (sd_occurrences db) = None"
    if "i \<noteq> []" "a \<noteq> []" "s = ''cancelled''" "detail_is_bounded (Some d)" using assms that by (auto simp: find_None_iff)
  then show ?thesis
    by (auto simp: acknowledge_schedule_occurrence_def bind_result_eq_Inr split: option.splits if_splits)
qed

section \<open>The rank of a schedule\<close>

text \<open>How far the receipt of a schedule has come: no receipt, reserved, running, finished.\<close>

definition state_rank :: "string \<Rightarrow> nat" where
  "state_rank s = (if s = ''reserved'' then 1 else if s = ''running'' then 2 else 3)"

definition occurrence_rank :: "string \<Rightarrow> schedule_db \<Rightarrow> nat" where
  "occurrence_rank sid db = (case find (\<lambda>r. oc_schedule r = sid) (sd_occurrences db) of
     None \<Rightarrow> 0 | Some r \<Rightarrow> state_rank (oc_state r))"

lemma rank_of_row:
  "occurrences_ok db \<Longrightarrow> r \<in> set (sd_occurrences db) \<Longrightarrow> occurrence_rank (oc_schedule r) db = state_rank (oc_state r)"
  using find_distinct [of oc_schedule "sd_occurrences db" r] by (simp add: occurrence_rank_def occurrences_ok_def)

lemma rank_map_rows:
  assumes "sd_occurrences db' = map (\<lambda>r. if p r then f r else r) (sd_occurrences db)"
    and "\<And>r. r \<in> set (sd_occurrences db) \<Longrightarrow> p r \<Longrightarrow> oc_schedule (f r) = oc_schedule r \<and> state_rank (oc_state r) \<le> state_rank (oc_state (f r))"
  shows "occurrence_rank sid db \<le> occurrence_rank sid db'"
proof -
  have "find (\<lambda>r. oc_schedule r = sid) (sd_occurrences db') = map_option (\<lambda>r. if p r then f r else r) (find (\<lambda>r. oc_schedule r = sid) (sd_occurrences db))"
    unfolding assms(1) by (rule find_map_keep) (simp add: assms(2))
  then show ?thesis
    using assms(2) by (auto simp: occurrence_rank_def dest: find_Some_iff_first split: option.split)
qed

lemma allowed_edge_rank: "allowed_edge f t \<Longrightarrow> state_rank f < state_rank t"
  by (auto simp: allowed_edge_def state_rank_def)

lemma transitioned_rank:
  assumes "request_ok t"
  shows "occurrence_rank sid db \<le> occurrence_rank sid (transitioned_db db t)"
  using allowed_edge_rank [of "tr_from t" "tr_to t"] assms
  by (intro rank_map_rows [of _ "transition_matches t" "apply_transition t"])
    (auto simp: transitioned_db_def paired_write_rows apply_transition_def transition_matches_def request_ok_def)

lemma acknowledged_rank: "occurrence_rank sid db \<le> occurrence_rank sid (acknowledged_db jd db r a d s x)"
  by (intro rank_map_rows [of _ "expired_open jd (oc_id r) a" "cancel_row d"])
    (auto simp: acknowledged_db_def paired_write_rows cancel_row_def state_rank_def)

lemma find_append_rows: "find P (xs @ ys) = (case find P xs of Some y \<Rightarrow> Some y | None \<Rightarrow> find P ys)"
  by (induction xs) auto

lemma reserved_rank: "occurrence_rank sid db \<le> occurrence_rank sid (reserved_db db n)"
  by (simp add: occurrence_rank_def reserved_db_def find_append_rows split: option.split)

lemma lease_rank:
  assumes "\<And>r. oc_schedule (f r) = oc_schedule r \<and> oc_state (f r) = oc_state r"
  shows "occurrence_rank sid db \<le> occurrence_rank sid (update_rows p f db)"
  using assms by (intro rank_map_rows [of _ p f]) (simp_all add: update_rows_def)

lemma history_rows:
  "sd_occurrences (upsert_schedule_execution db e) = sd_occurrences db"
  "sd_occurrences (fst (clear_schedule_executions db)) = sd_occurrences db"
  "sd_occurrences (fst (clear_schedule_execution_records db xs)) = sd_occurrences db"
  "sd_occurrences (fst (prune_schedule_executions rc db sid k)) = sd_occurrences db"
proof -
  have "clear_records db xs n = Inr (db', m) \<Longrightarrow> sd_occurrences db' = sd_occurrences db" for n db' m
    by (induction db xs n rule: clear_records.induct) (auto split: option.splits if_splits)
  then show "sd_occurrences (fst (clear_schedule_execution_records db xs)) = sd_occurrences db"
    by (simp add: clear_schedule_execution_records_def split: sum.split prod.split)
qed (simp_all add: upsert_schedule_execution_def clear_schedule_executions_def prune_schedule_executions_def Let_def)

lemma occurrence_step_rank:
  assumes "occurrences_ok db"
  shows "occurrence_rank sid db \<le> occurrence_rank sid (fst (occurrence_step jd db op))"
proof (cases op)
  case (OpReserve n)
  then show ?thesis using reserve_cases [of db n] reserved_rank [of sid db n] by auto
next
  case (OpTransition t)
  then show ?thesis
    using transition_refused [of t db] transition_applied [OF assms, of _ t] transitioned_rank [of t sid db]
    by (cases "request_ok t \<and> (\<exists>r\<in>set (sd_occurrences db). transition_matches t r)") auto
next
  case (OpAcknowledge i a d s x)
  then show ?thesis
    using acknowledge_refused [of i a s d db jd x] acknowledge_applied [OF assms, of _ jd i a s d x] acknowledged_rank [of sid db jd _ a d s x]
    by (cases "i \<noteq> [] \<and> a \<noteq> [] \<and> s = ''cancelled'' \<and> detail_is_bounded (Some d) \<and> (\<exists>r\<in>set (sd_occurrences db). expired_open jd i a r)") auto
next
  case (OpRenew i w l)
  then show ?thesis by (simp add: renew_schedule_occurrence_lease_def lease_rank)
next
  case (OpRelease i w a d)
  then show ?thesis by (simp add: release_schedule_occurrence_lease_def lease_rank)
qed (simp_all add: occurrence_rank_def history_rows)

interpretation receipts: ranked_machine "occurrence_step jd" occurrences_ok occurrence_rank for jd
  by unfold_locales (rule occurrence_step_ok occurrence_step_rank; assumption)+

section \<open>Events of a schedule in a run\<close>

text \<open>A caller learns that it owns the receipt, that it may start the execution, and that the
  receipt is closed.\<close>

fun wins :: "string \<Rightarrow> occurrence_outcome \<Rightarrow> bool" where
  "wins sid (OutReserve (Inr (Reserved r))) \<longleftrightarrow> oc_schedule (rec_row r) = sid"
| "wins sid _ \<longleftrightarrow> False"

fun starts :: "string \<Rightarrow> occurrence_outcome \<Rightarrow> bool" where
  "starts sid (OutTransition (Inr (Applied r))) \<longleftrightarrow> oc_schedule (rec_row r) = sid \<and> oc_state (rec_row r) = ''running''"
| "starts sid _ \<longleftrightarrow> False"

fun closes :: "string \<Rightarrow> occurrence_outcome \<Rightarrow> bool" where
  "closes sid (OutTransition (Inr (Applied r))) \<longleftrightarrow> oc_schedule (rec_row r) = sid \<and> oc_state (rec_row r) \<noteq> ''running''"
| "closes sid (OutAcknowledge (Inr (Acknowledged r))) \<longleftrightarrow> oc_schedule (rec_row r) = sid"
| "closes sid _ \<longleftrightarrow> False"

lemma outcome_kinds:
  "wins sid (snd (occurrence_step jd db op)) \<Longrightarrow> \<exists>n r. op = OpReserve n \<and> snd (reserve_schedule_occurrence db n) = Inr (Reserved r) \<and> oc_schedule (rec_row r) = sid"
  "starts sid (snd (occurrence_step jd db op)) \<Longrightarrow> \<exists>t r. op = OpTransition t \<and> snd (transition_schedule_occurrence db t) = Inr (Applied r)
     \<and> oc_schedule (rec_row r) = sid \<and> oc_state (rec_row r) = ''running''"
  "closes sid (snd (occurrence_step jd db op)) \<Longrightarrow>
     (\<exists>t r. op = OpTransition t \<and> snd (transition_schedule_occurrence db t) = Inr (Applied r) \<and> oc_schedule (rec_row r) = sid \<and> oc_state (rec_row r) \<noteq> ''running'')
     \<or> (\<exists>i a d s x r. op = OpAcknowledge i a d s x \<and> snd (acknowledge_schedule_occurrence jd db i a d s x) = Inr (Acknowledged r) \<and> oc_schedule (rec_row r) = sid)"
proof -
  show "wins sid (snd (occurrence_step jd db op)) \<Longrightarrow> \<exists>n r. op = OpReserve n \<and> snd (reserve_schedule_occurrence db n) = Inr (Reserved r) \<and> oc_schedule (rec_row r) = sid"
    by (cases op) (auto elim!: wins.elims)
  show "starts sid (snd (occurrence_step jd db op)) \<Longrightarrow> \<exists>t r. op = OpTransition t \<and> snd (transition_schedule_occurrence db t) = Inr (Applied r)
     \<and> oc_schedule (rec_row r) = sid \<and> oc_state (rec_row r) = ''running''"
    by (cases op) (auto elim!: starts.elims)
  show "closes sid (snd (occurrence_step jd db op)) \<Longrightarrow>
     (\<exists>t r. op = OpTransition t \<and> snd (transition_schedule_occurrence db t) = Inr (Applied r) \<and> oc_schedule (rec_row r) = sid \<and> oc_state (rec_row r) \<noteq> ''running'')
     \<or> (\<exists>i a d s x r. op = OpAcknowledge i a d s x \<and> snd (acknowledge_schedule_occurrence jd db i a d s x) = Inr (Acknowledged r) \<and> oc_schedule (rec_row r) = sid)"
    by (cases op) (auto elim!: closes.elims)
qed

lemma reserved_row:
  assumes "occurrences_ok db" "snd (reserve_schedule_occurrence db n) = Inr (Reserved r)"
  shows "fst (reserve_schedule_occurrence db n) = reserved_db db n \<and> reservable db n \<and> oc_schedule (rec_row r) = no_schedule n"
proof -
  have c: "reservable db n" "fst (reserve_schedule_occurrence db n) = reserved_db db n"
    "snd (reserve_schedule_occurrence db n) = bind_result (schedule_occurrence (reserved_db db n) (no_id n)) (\<lambda>x.
       bind_result (ok_or (InvalidData ''reserved occurrence is missing'') x) (\<lambda>r. Inr (Reserved r)))"
    using reserve_cases [of db n] assms(2) by auto
  then have "schedule_occurrence (reserved_db db n) (no_id n) = Inr (Some r)" using assms(2) unfolding c(3) by (auto simp: bind_result_eq_Inr)
  moreover have "find (\<lambda>r. oc_id r = no_id n) (sd_occurrences db) = None"
    using c(1) by (force simp: reservable_def find_None_iff)
  ultimately show ?thesis
    using c by (auto simp: schedule_occurrence_def load_by_id_def reserved_db_def find_append_rows record_from_row_def bind_result_def split: if_splits)
qed

lemma wins_crosses:
  assumes "occurrences_ok db" "wins sid (snd (occurrence_step jd db op))"
  shows "occurrence_rank sid db < 1 \<and> 1 \<le> occurrence_rank sid (fst (occurrence_step jd db op))"
proof -
  obtain n r where n: "op = OpReserve n" "snd (reserve_schedule_occurrence db n) = Inr (Reserved r)" "oc_schedule (rec_row r) = sid"
    using outcome_kinds(1) [OF assms(2)] by blast
  with reserved_row [OF assms(1) n(2)] have "fst (occurrence_step jd db op) = reserved_db db n" "reservable db n" "sid = no_schedule n"
    by simp_all
  moreover from this have "find (\<lambda>r. oc_schedule r = sid) (sd_occurrences db) = None" by (force simp: reservable_def find_None_iff)
  ultimately show ?thesis by (simp add: occurrence_rank_def reserved_db_def find_append_rows state_rank_def)
qed

lemma applied_crosses:
  assumes "occurrences_ok db" "snd (transition_schedule_occurrence db t) = Inr (Applied r)" "oc_schedule (rec_row r) = sid"
  shows "occurrence_rank sid db = state_rank (tr_from t) \<and> occurrence_rank sid (fst (transition_schedule_occurrence db t)) = state_rank (oc_state (rec_row r))
    \<and> oc_state (rec_row r) = tr_to t \<and> allowed_edge (tr_from t) (tr_to t)"
proof -
  obtain q where q: "request_ok t" "q \<in> set (sd_occurrences db)" "transition_matches t q"
    using transition_refused [of t db r] assms(2) by blast
  note app = transition_applied [OF assms(1) q(2,3,1)]
  then have r: "rec_row r = apply_transition t q" using assms(2) by auto
  have s: "oc_schedule q = sid" using assms(3) r by (simp add: apply_transition_def)
  have "rec_row r \<in> set (sd_occurrences (transitioned_db db t))"
    using q r by (auto simp: transitioned_db_def paired_write_rows image_iff)
  moreover have "occurrences_ok (transitioned_db db t)" using transition_ok [OF assms(1), of t] app by simp
  ultimately have "occurrence_rank sid (transitioned_db db t) = state_rank (oc_state (rec_row r))" using rank_of_row assms(3) by metis
  moreover have "occurrence_rank sid db = state_rank (tr_from t)"
    using rank_of_row [OF assms(1) q(2)] s q(3) by (simp add: transition_matches_def)
  ultimately show ?thesis using app r q(1) by (simp add: apply_transition_def request_ok_def)
qed

lemma acknowledged_crosses:
  assumes "occurrences_ok db" "snd (acknowledge_schedule_occurrence jd db i a d s x) = Inr (Acknowledged r)" "oc_schedule (rec_row r) = sid"
  shows "occurrence_rank sid db < 3 \<and> 3 \<le> occurrence_rank sid (fst (acknowledge_schedule_occurrence jd db i a d s x))"
proof -
  obtain q where q: "q \<in> set (sd_occurrences db)" "expired_open jd i a q" and v: "i \<noteq> []" "a \<noteq> []" "s = ''cancelled''" "detail_is_bounded (Some d)"
    using acknowledge_refused [of i a s d db jd x r] assms(2) by blast
  note app = acknowledge_applied [OF assms(1) q v, of x]
  then have r: "rec_row r = cancel_row d q" using assms(2) by auto
  have s: "oc_schedule q = sid" using assms(3) r by (simp add: cancel_row_def)
  have "rec_row r \<in> set (sd_occurrences (acknowledged_db jd db q a d s x))"
    using q r by (auto simp: acknowledged_db_def paired_write_rows image_iff expired_open_def)
  moreover have "occurrences_ok (acknowledged_db jd db q a d s x)" using acknowledge_ok [OF assms(1), of jd i a d s x] app by simp
  ultimately have "occurrence_rank sid (acknowledged_db jd db q a d s x) = state_rank (oc_state (rec_row r))" using rank_of_row assms(3) by metis
  moreover have "occurrence_rank sid db < 3"
    using rank_of_row [OF assms(1) q(1)] s q(2) by (auto simp: expired_open_def open_states_def state_rank_def)
  ultimately show ?thesis using app r by (simp add: cancel_row_def state_rank_def)
qed

section \<open>Closed receipts\<close>

lemma closed_not_open: "oc_state r \<in> set closed_states \<Longrightarrow> oc_state r \<notin> set open_states"
  by (auto simp: closed_states_def open_states_def)

lemma closed_kept_step:
  assumes "occurrences_ok db" "r \<in> set (sd_occurrences db)" "oc_state r \<in> set closed_states"
  shows "r \<in> set (sd_occurrences (fst (occurrence_step jd db op)))"
proof -
  note no = closed_not_open [OF assms(3)]
  have keep: "r \<in> set (map (\<lambda>x. if p x then f x else x) (sd_occurrences db))" if "\<not> p r" for p f
    using assms(2) that by (auto simp: image_iff)
  show ?thesis
  proof (cases op)
    case (OpReserve n)
    then show ?thesis using reserve_cases [of db n] assms(2) by (auto simp: reserved_db_def)
  next
    case (OpTransition t)
    have "\<not> transition_matches t r" if "request_ok t"
      using that no allowed_edge_open [of "tr_from t" "tr_to t"] by (auto simp: transition_matches_def request_ok_def)
    then show ?thesis
      using OpTransition assms(2) keep [of "transition_matches t" "apply_transition t"] transition_refused [of t db] transition_applied [OF assms(1), of _ t]
      by (cases "request_ok t \<and> (\<exists>r\<in>set (sd_occurrences db). transition_matches t r)") (auto simp: transitioned_db_def paired_write_rows)
  next
    case (OpAcknowledge i a d s x)
    have "\<not> expired_open jd j a r" for j using no by (simp add: expired_open_def)
    then show ?thesis
      using OpAcknowledge assms(2) keep [of "expired_open jd _ a" "cancel_row d"] acknowledge_refused [of i a s d db jd x]
        acknowledge_applied [OF assms(1), of _ jd i a s d x]
      by (cases "i \<noteq> [] \<and> a \<noteq> [] \<and> s = ''cancelled'' \<and> detail_is_bounded (Some d) \<and> (\<exists>r\<in>set (sd_occurrences db). expired_open jd i a r)")
        (auto simp: acknowledged_db_def paired_write_rows)
  next
    case (OpRenew i w l)
    then show ?thesis using keep [of "owned_open i w"] no assms(2)
      by (auto simp: renew_schedule_occurrence_lease_def update_rows_def owned_open_def)
  next
    case (OpRelease i w a d)
    then show ?thesis using keep [of "owned_open i w"] no assms(2)
      by (auto simp: release_schedule_occurrence_lease_def update_rows_def owned_open_def)
  qed (simp_all add: history_rows assms(2))
qed

lemma closed_kept_run:
  assumes "occurrences_ok db" "r \<in> set (sd_occurrences db)" "oc_state r \<in> set closed_states"
  shows "r \<in> set (sd_occurrences (fst (occurrence_run jd db ops)))"
  using assms(1,2)
proof (induction ops arbitrary: db)
  case (Cons op ops)
  have "r \<in> set (sd_occurrences (fst (run_outputs (occurrence_step jd) (fst (occurrence_step jd db op)) ops)))"
    using Cons.IH [OF occurrence_step_ok [OF Cons.prems(1)] closed_kept_step [OF Cons.prems assms(3)]] by (simp add: occurrence_run_def)
  then show ?case by (simp only: occurrence_run_def fst_run_outputs_Cons)
qed (simp add: occurrence_run_def)

lemma find_cleared:
  "find_execution (fst (clear_schedule_executions db)) i = (if protected_execution db i then find_execution db i else None)"
proof -
  have "find (\<lambda>e. ex_id e = i) (filter (\<lambda>e. protected_execution db (ex_id e)) xs)
      = (if protected_execution db i then find (\<lambda>e. ex_id e = i) xs else None)" for xs
    by (induction xs) auto
  from this [of "sd_executions db"] show ?thesis by (simp add: find_execution_def clear_schedule_executions_def Let_def split: if_splits)
qed

lemma retry_idempotent:
  assumes "occurrences_ok db" "r \<in> set (sd_occurrences db)" "request_ok t" "tr_to t \<in> set closed_states"
    and r: "oc_id r = tr_id t" "oc_schedule r = tr_schedule t" "oc_execution r = tr_execution t" "oc_owner r = tr_owner t"
      "oc_state r = tr_to t" "oc_lease r = tr_lease t" "oc_detail r = tr_detail t"
    and e: "case find_execution db (oc_execution r) of None \<Rightarrow> True | Some e \<Rightarrow> ex_status e = tr_status t \<and> ex_data e = tr_data t"
  shows "\<exists>y. transition_schedule_occurrence db t = (db, Inr (Idempotent y))"
proof -
  have no: "\<not> transition_matches t q" if "q \<in> set (sd_occurrences db)" for q
  proof
    assume m: "transition_matches t q"
    then have "q = r" using that assms(1,2) r(1) unfolding occurrences_ok_def transition_matches_def by (metis distinct_map inj_onD)
    with m r(5) assms(3) allowed_edge_rank [of "tr_from t" "tr_to t"] show False by (auto simp: transition_matches_def request_ok_def)
  qed
  have f: "find (\<lambda>q. oc_id q = tr_id t) (sd_occurrences db) = Some r"
    using find_distinct [of oc_id "sd_occurrences db" r] assms(1,2) r(1) by (simp add: occurrences_ok_def)
  have "row_valid r" using assms(1,2) by (simp add: occurrences_ok_def)
  moreover have "rows_affected (transition_matches t) db = 0" using no by (simp add: rows_affected_def filter_empty_conv)
  ultimately show ?thesis
    using assms(3,4) f r e
    by (auto simp: transition_schedule_occurrence_def request_ok_def load_by_id_def record_from_row_def is_exact_terminal_repeat_def
        split: option.splits)
qed

section \<open>A worked run\<close>

definition sample_new :: "string \<Rightarrow> new_occurrence" where
  "sample_new owner = \<lparr>no_id = ''o1'', no_schedule = ''s1'', no_execution = ''e1'', no_triggered_at = ''t'',
     no_owner = owner, no_lease = ''l'', no_status = ''pending'', no_data = ''d''\<rparr>"

definition sample_transition :: "string \<Rightarrow> string \<Rightarrow> string option \<Rightarrow> occurrence_transition" where
  "sample_transition f t lease = \<lparr>tr_id = ''o1'', tr_schedule = ''s1'', tr_execution = ''e1'', tr_owner = ''w'',
     tr_from = f, tr_to = t, tr_lease = lease, tr_detail = None, tr_status = t, tr_data = ''d''\<rparr>"

definition sample_row :: "string \<Rightarrow> string option \<Rightarrow> occurrence_row" where
  "sample_row st lease = \<lparr>oc_id = ''o1'', oc_schedule = ''s1'', oc_execution = ''e1'', oc_triggered_at = ''t'', oc_state = st,
     oc_owner = ''w'', oc_lease = lease, oc_detail = None\<rparr>"

lemmas occurrence_eval = reserve_schedule_occurrence_def transition_schedule_occurrence_def sample_new_def sample_transition_def
  sample_row_def schedule_db_empty_def schedule_occurrence_def load_by_id_def record_from_row_def row_valid_def lease_matches_state_def
  open_states_def closed_states_def detail_is_bounded_def find_execution_def allowed_edge_def rows_affected_def transition_matches_def
  update_rows_def apply_transition_def set_execution_def executions_affected_def require_occurrence_execution_def committed_def

lemma sample_reserved:
  "sd_occurrences (fst (occurrence_run jd schedule_db_empty [OpReserve (sample_new ''w'')])) = [sample_row ''reserved'' (Some ''l'')]"
  by (simp add: occurrence_run_def occurrence_eval)

lemma sample_request: "request_ok (sample_transition ''reserved'' ''running'' (Some ''l''))"
  "request_ok (sample_transition ''running'' ''completed'' None)"
  by (simp_all add: request_ok_def occurrence_eval)

section \<open>Properties\<close>

text \<open>C17. A one-time schedule is dispatched at most once: whatever operations any number of scheduler
  instances perform on the shared database, in any order and with retries, crashes between
  operations and history maintenance in between, for each schedule at most one reservation is
  won, at most one transition to running is applied, and at most one outcome closes the receipt.\<close>

theorem one_time_dispatched_once:
  "length (filter (wins sid) (snd (occurrence_run jd schedule_db_empty ops))) \<le> 1
   \<and> length (filter (starts sid) (snd (occurrence_run jd schedule_db_empty ops))) \<le> 1
   \<and> length (filter (closes sid) (snd (occurrence_run jd schedule_db_empty ops))) \<le> 1"
proof -
  have starts: "occurrence_rank sid db < 2 \<and> 2 \<le> occurrence_rank sid (fst (occurrence_step jd db op))"
    if "occurrences_ok db" "starts sid (snd (occurrence_step jd db op))" for db op
    using outcome_kinds(2) [OF that(2)] applied_crosses [OF that(1)] allowed_edge_rank by (fastforce simp: state_rank_def)
  have closes: "occurrence_rank sid db < 3 \<and> 3 \<le> occurrence_rank sid (fst (occurrence_step jd db op))"
    if "occurrences_ok db" "closes sid (snd (occurrence_step jd db op))" for db op
    using outcome_kinds(3) [OF that(2)]
  proof (elim disjE exE conjE)
    fix t r
    assume a: "op = OpTransition t" "snd (transition_schedule_occurrence db t) = Inr (Applied r)" "oc_schedule (rec_row r) = sid"
      "oc_state (rec_row r) \<noteq> ''running''"
    then show ?thesis using applied_crosses [OF that(1) a(2,3)] by (auto simp: allowed_edge_def state_rank_def)
  next
    fix i a d s x r
    assume a: "op = OpAcknowledge i a d s x" "snd (acknowledge_schedule_occurrence jd db i a d s x) = Inr (Acknowledged r)"
      "oc_schedule (rec_row r) = sid"
    then show ?thesis using acknowledged_crosses [OF that(1) a(2,3)] by simp
  qed
  have "length (filter P (snd (occurrence_run jd schedule_db_empty ops))) \<le> 1"
    if "\<And>db op. occurrences_ok db \<Longrightarrow> P (snd (occurrence_step jd db op)) \<Longrightarrow>
      occurrence_rank sid db < n \<and> n \<le> occurrence_rank sid (fst (occurrence_step jd db op))" for P n
    using receipts.crossing_once [OF that occurrences_ok_empty, of P ops]
    by (auto simp: occurrence_run_def split: if_splits)
  from this [OF wins_crosses] this [OF starts] this [OF closes] show ?thesis by blast
qed

text \<open>The owner can always make progress: in every reachable database, a well-formed transition
  along an allowed edge by the owner of the receipt is applied, together with its execution (the
  history maintenance never removes the execution of an open receipt), and the stored receipt is
  the requested one.\<close>

theorem owner_transition_applies:
  assumes "db = fst (occurrence_run jd schedule_db_empty ops)" "r \<in> set (sd_occurrences db)"
    and "transition_matches t r" "request_ok t"
  shows "snd (transition_schedule_occurrence db t)
      = Inr (Applied \<lparr>rec_row = apply_transition t r, rec_status = Some (tr_status t), rec_data = Some (tr_data t)\<rparr>)
    \<and> apply_transition t r \<in> set (sd_occurrences (fst (transition_schedule_occurrence db t)))"
proof -
  have "occurrences_ok db" unfolding assms(1) occurrence_run_def by (rule receipts.run_inv [OF occurrences_ok_empty])
  from transition_applied [OF this assms(2-4)] assms(2,3) show ?thesis
    by (auto simp: transitioned_db_def paired_write_rows image_iff)
qed

theorem owner_transition_applies_witness:
  "sample_row ''running'' (Some ''l'') \<in> set (sd_occurrences (fst (transition_schedule_occurrence
     (fst (occurrence_run (\<lambda>_. Some (0 :: nat)) schedule_db_empty [OpReserve (sample_new ''w'')]))
     (sample_transition ''reserved'' ''running'' (Some ''l'')))))"
proof -
  let ?t = "sample_transition ''reserved'' ''running'' (Some ''l'')" and ?r = "sample_row ''reserved'' (Some ''l'')"
  have m: "transition_matches ?t ?r" "apply_transition ?t ?r = sample_row ''running'' (Some ''l'')" by (simp_all add: occurrence_eval)
  have r: "?r \<in> set (sd_occurrences (fst (occurrence_run (\<lambda>_. Some (0 :: nat)) schedule_db_empty [OpReserve (sample_new ''w'')])))"
    by (simp add: sample_reserved)
  from owner_transition_applies [OF refl r m(1) sample_request(1)] m(2) show ?thesis by simp
qed

text \<open>Closing a receipt is final and retry-safe: once a transition to a terminal state is applied,
  no later operation of anyone changes the receipt, and repeating the request (the caller may not
  have seen the answer) reports it as already done without a write, also after the execution
  history was cleared.\<close>

theorem closed_receipt_final:
  assumes "db = fst (occurrence_run jd schedule_db_empty ops)" "tr_to t \<in> set closed_states"
    and "transition_schedule_occurrence db t = (db1, Inr (Applied x))"
  shows "rec_row x \<in> set (sd_occurrences (fst (occurrence_run jd db1 ops')))
    \<and> (\<exists>y. transition_schedule_occurrence db1 t = (db1, Inr (Idempotent y)))
    \<and> (\<exists>y. transition_schedule_occurrence (fst (clear_schedule_executions db1)) t
          = (fst (clear_schedule_executions db1), Inr (Idempotent y)))"
proof -
  have ok: "occurrences_ok db" unfolding assms(1) occurrence_run_def by (rule receipts.run_inv [OF occurrences_ok_empty])
  obtain q where q: "request_ok t" "q \<in> set (sd_occurrences db)" "transition_matches t q"
    using transition_refused [of t db x] assms(3) by auto
  note app = transition_applied [OF ok q(2,3,1)]
  have x: "x = \<lparr>rec_row = apply_transition t q, rec_status = Some (tr_status t), rec_data = Some (tr_data t)\<rparr>" and db1: "db1 = transitioned_db db t"
    using app assms(3) by auto
  have ok1: "occurrences_ok db1" using transition_ok [OF ok, of t] assms(3) by simp
  have ok2: "occurrences_ok (fst (clear_schedule_executions db1))" using occurrence_step_ok [OF ok1, of jd OpClear] by simp
  have row: "apply_transition t q \<in> set (sd_occurrences db1)" using q by (auto simp: db1 transitioned_db_def paired_write_rows image_iff)
  have ex: "case find_execution db1 (tr_execution t) of None \<Rightarrow> True | Some e \<Rightarrow> ex_status e = tr_status t \<and> ex_data e = tr_data t"
    by (auto simp: db1 transitioned_db_def paired_write_def find_set_execution split: option.split)
  have ex2: "case find_execution (fst (clear_schedule_executions db1)) (tr_execution t) of
      None \<Rightarrow> True | Some e \<Rightarrow> ex_status e = tr_status t \<and> ex_data e = tr_data t"
    using ex ok1 by (auto simp: find_cleared split: option.splits)
  note fields = q(3) [unfolded transition_matches_def]
  have "\<exists>y. transition_schedule_occurrence d t = (d, Inr (Idempotent y))"
    if "occurrences_ok d" "apply_transition t q \<in> set (sd_occurrences d)"
      "case find_execution d (tr_execution t) of None \<Rightarrow> True | Some e \<Rightarrow> ex_status e = tr_status t \<and> ex_data e = tr_data t" for d
    using that fields by (intro retry_idempotent [OF that(1,2) q(1) assms(2)]) (simp_all add: apply_transition_def)
  moreover have "rec_row x \<in> set (sd_occurrences (fst (occurrence_run jd db1 ops')))"
    using closed_kept_run [OF ok1 row] assms(2) by (simp add: x apply_transition_def)
  ultimately show ?thesis using ok1 ok2 row ex ex2 by (simp add: history_rows)
qed

theorem closed_receipt_final_witness:
  "\<exists>y. transition_schedule_occurrence
     (fst (occurrence_run (\<lambda>_. Some (0 :: nat)) schedule_db_empty [OpReserve (sample_new ''w''),
        OpTransition (sample_transition ''reserved'' ''running'' (Some ''l'')), OpTransition (sample_transition ''running'' ''completed'' None)]))
     (sample_transition ''running'' ''completed'' None)
   = (fst (occurrence_run (\<lambda>_. Some (0 :: nat)) schedule_db_empty [OpReserve (sample_new ''w''),
        OpTransition (sample_transition ''reserved'' ''running'' (Some ''l'')), OpTransition (sample_transition ''running'' ''completed'' None)]),
      Inr (Idempotent y))"
proof -
  let ?jd = "\<lambda>_. Some (0 :: nat)" and ?t = "sample_transition ''running'' ''completed'' None"
  let ?db = "fst (occurrence_run ?jd schedule_db_empty [OpReserve (sample_new ''w''), OpTransition (sample_transition ''reserved'' ''running'' (Some ''l''))])"
  have c: "tr_to ?t \<in> set closed_states" by (simp add: occurrence_eval)
  obtain db1 res where r: "transition_schedule_occurrence ?db ?t = (db1, res)" by fastforce
  then obtain x where "res = Inr (Applied x)" by (simp add: occurrence_run_def occurrence_eval) blast
  then have "\<exists>y. transition_schedule_occurrence db1 ?t = (db1, Inr (Idempotent y))"
    using closed_receipt_final [OF refl c, of ?jd _ db1 x "[]"] r by blast
  moreover have "fst (occurrence_run ?jd schedule_db_empty [OpReserve (sample_new ''w''),
      OpTransition (sample_transition ''reserved'' ''running'' (Some ''l'')), OpTransition ?t]) = db1"
    using r by (simp add: occurrence_run_def fst_run_outputs_Cons del: run_outputs.simps(2))
  ultimately show ?thesis by simp
qed

end
