(* ===== verification/Engine_Kind.thy ===== *)
theory Engine_Kind
  imports Text "HOL-Library.List_Lexorder" "HOL-Library.Char_ord" "HOL-Library.Product_Lexorder"
begin

text \<open>
  The engine and language vocabulary of \<^verbatim>\<open>crates/hf-core/src/engine.rs\<close>, \<^verbatim>\<open>target.rs\<close>,
  \<^verbatim>\<open>retired_engine.rs\<close> and \<^verbatim>\<open>error.rs\<close>: engine kinds, target languages, their canonical names,
  the parsers every entry point uses, the capability tables and the classified errors of the
  service. The lemmas give the round trip between names and values, which the campaign
  dispatcher relies on when it stores a name and parses it on a later fire.
\<close>

section \<open>Classified errors\<close>

datatype classified_error =
    ProviderFailure string | SandboxFailure string | EngineFailure string | HarnessFailure string
  | StorageFailure string | ValidationFailure string | TimeoutFailure | InternalFailure string

fun classified_display :: "classified_error \<Rightarrow> string" where
  "classified_display (ProviderFailure m) = ''provider error: '' @ m"
| "classified_display (SandboxFailure m) = ''sandbox error: '' @ m"
| "classified_display (EngineFailure m) = ''engine error: '' @ m"
| "classified_display (HarnessFailure m) = ''harness error: '' @ m"
| "classified_display (StorageFailure m) = ''storage error: '' @ m"
| "classified_display (ValidationFailure m) = ''validation error: '' @ m"
| "classified_display TimeoutFailure = ''timeout''"
| "classified_display (InternalFailure m) = ''internal: '' @ m"

text \<open>The stages of a harness revision (\<^verbatim>\<open>harness.rs\<close>).\<close>

datatype harness_status = HarnessDrafted | HarnessCompiled | HarnessSmokePassed | HarnessPromoted | HarnessFailed

section \<open>Languages\<close>

datatype target_language = LangC | LangCpp | LangRust | LangGo | LangPython

fun language_str :: "target_language \<Rightarrow> string" where
  "language_str LangC = ''c''"
| "language_str LangCpp = ''cpp''"
| "language_str LangRust = ''rust''"
| "language_str LangGo = ''go''"
| "language_str LangPython = ''python''"

fun extensions :: "target_language \<Rightarrow> string list" where
  "extensions LangC = [''c'', ''h'']"
| "extensions LangCpp = [''cc'', ''cpp'', ''cxx'', ''hpp'', ''hh'']"
| "extensions LangRust = [''rs'']"
| "extensions LangGo = [''go'']"
| "extensions LangPython = [''py'']"

fun harness_filename :: "target_language \<Rightarrow> string" where
  "harness_filename LangC = ''harness.c''"
| "harness_filename LangCpp = ''harness.cc''"
| "harness_filename LangRust = ''harness.rs''"
| "harness_filename LangGo = ''harness.go''"
| "harness_filename LangPython = ''harness.py''"

definition libfuzzer_compatible :: "target_language \<Rightarrow> bool" where
  "libfuzzer_compatible l \<longleftrightarrow> l = LangC \<or> l = LangCpp \<or> l = LangRust"

definition harnessable_languages :: "target_language list" where
  "harnessable_languages = [LangC, LangCpp, LangRust]"

definition harnessable :: "target_language \<Rightarrow> bool" where
  "harnessable l \<longleftrightarrow> l = LangC \<or> l = LangCpp \<or> l = LangRust"

definition harnessable_ids :: string where
  "harnessable_ids = str_join '', '' (map language_str harnessable_languages)"

definition language_from_str :: "string \<Rightarrow> (string, target_language) result" where
  "language_from_str s = (let v = to_ascii_lowercase (trim s) in
     if v = ''c'' then Inr LangC
     else if v = ''cpp'' \<or> v = ''c++'' \<or> v = ''cxx'' then Inr LangCpp
     else if v = ''rust'' \<or> v = ''rs'' then Inr LangRust
     else if v = ''go'' \<or> v = ''golang'' then Inr LangGo
     else if v = ''python'' \<or> v = ''py'' then Inr LangPython
     else Inl (''unknown target language '' @ quoted v @ '' (expected one of: c, cpp, rust, go, python)''))"

section \<open>Engines\<close>

datatype engine_kind = AflPlusPlus | Honggfuzz | LibFuzzer | Syzkaller | GoNative

definition engine_all :: "engine_kind list" where
  "engine_all = [LibFuzzer, AflPlusPlus, Honggfuzz, Syzkaller]"

fun engine_str :: "engine_kind \<Rightarrow> string" where
  "engine_str AflPlusPlus = ''afl++''"
| "engine_str Honggfuzz = ''honggfuzz''"
| "engine_str LibFuzzer = ''libfuzzer''"
| "engine_str Syzkaller = ''syzkaller''"
| "engine_str GoNative = ''go-native''"

definition advertised_ids :: string where
  "advertised_ids = str_join '', '' (sort (map engine_str engine_all))"

record engine_capabilities =
  cap_live_stats :: bool
  cap_coverage :: bool
  cap_minimization :: bool
  cap_corpus_directory :: bool

fun capabilities :: "engine_kind \<Rightarrow> engine_capabilities" where
  "capabilities AflPlusPlus = \<lparr>cap_live_stats = True, cap_coverage = True, cap_minimization = True, cap_corpus_directory = True\<rparr>"
| "capabilities Honggfuzz = \<lparr>cap_live_stats = True, cap_coverage = False, cap_minimization = False, cap_corpus_directory = True\<rparr>"
| "capabilities LibFuzzer = \<lparr>cap_live_stats = True, cap_coverage = True, cap_minimization = True, cap_corpus_directory = False\<rparr>"
| "capabilities Syzkaller = \<lparr>cap_live_stats = True, cap_coverage = True, cap_minimization = False, cap_corpus_directory = False\<rparr>"
| "capabilities GoNative = \<lparr>cap_live_stats = True, cap_coverage = True, cap_minimization = False, cap_corpus_directory = True\<rparr>"

fun supports_language :: "engine_kind \<Rightarrow> target_language \<Rightarrow> bool" where
  "supports_language AflPlusPlus l \<longleftrightarrow> l = LangC \<or> l = LangCpp"
| "supports_language Honggfuzz l \<longleftrightarrow> l = LangC \<or> l = LangCpp"
| "supports_language LibFuzzer l \<longleftrightarrow> libfuzzer_compatible l"
| "supports_language Syzkaller l \<longleftrightarrow> False"
| "supports_language GoNative l \<longleftrightarrow> l = LangGo"

definition retired_engine_ids :: "string list" where
  "retired_engine_ids = [''clusterfuzzlite'', ''cfl'', ''cflite'']"

definition is_retired_engine_id :: "string \<Rightarrow> bool" where
  "is_retired_engine_id v = list_ex (eq_ignore_ascii_case (trim v)) retired_engine_ids"

definition engine_from_str :: "string \<Rightarrow> (string, engine_kind) result" where
  "engine_from_str s = (let t = trim s; v = to_ascii_lowercase t in
     if is_retired_engine_id t
     then Inl (''fuzzing engine '' @ quoted t @ '' has been retired; choose one of: '' @ advertised_ids)
     else if v = ''afl++'' \<or> v = ''aflplusplus'' \<or> v = ''afl'' then Inr AflPlusPlus
     else if v = ''honggfuzz'' \<or> v = ''hfuzz'' then Inr Honggfuzz
     else if v = ''libfuzzer'' \<or> v = ''libfuzz'' \<or> v = ''lf'' then Inr LibFuzzer
     else if v = ''syzkaller'' \<or> v = ''syz'' then Inr Syzkaller
     else if v = ''go-native'' \<or> v = ''gonative'' \<or> v = ''go'' then Inr GoNative
     else Inl (''unknown fuzzing engine '' @ quoted v @ '' (expected one of: '' @ advertised_ids @ '')''))"

lemma language_roundtrip: "language_from_str (language_str l) = Inr l"
  by (cases l; hypsubst_thin; code_simp)

lemma engine_roundtrip: "engine_from_str (engine_str k) = Inr k"
  by (cases k; hypsubst_thin; code_simp)

text \<open>The predicate and the list of harnessable languages agree, and each has an engine.\<close>

lemma harnessable_set: "harnessable l \<longleftrightarrow> l \<in> set harnessable_languages"
  by (auto simp: harnessable_def harnessable_languages_def)

lemma harnessable_has_engine: "harnessable l \<Longrightarrow> supports_language LibFuzzer l"
  by (simp add: harnessable_def libfuzzer_compatible_def)

lemma retired_never_parses: "is_retired_engine_id (trim s) \<Longrightarrow> \<exists>e. engine_from_str s = Inl e"
  by (simp add: engine_from_str_def Let_def)

end
