(* ===== verification/Campaign_Allocation.thy ===== *)
theory Campaign_Allocation
  imports Engine_Kind
begin

text \<open>
  Reviewed, finite allocations of scheduled fuzzing, \<^verbatim>\<open>crates/hf-service/src/campaign_allocation.rs\<close>,
  \<^verbatim>\<open>campaign_allocation/storage.rs\<close>, the comparison of retained runs it rests on
  (\<^verbatim>\<open>run_comparison.rs\<close>) and the service entry points of \<^verbatim>\<open>container/campaign_allocation.rs\<close>.

  An allocation is one file per project, replaced atomically while an in-process mutex and an
  advisory file lock are held, so every operation is a function from the store to the store and
  a result. What the file system does is an argument: the lock may be taken, a write may fail
  before the file is replaced, or fail to sync after it. \<^verbatim>\<open>serde_json\<close> and SHA-256 are third-party:
  the digest of a proposal, the digest of a source and the size of the encoded file are
  functions the operations take; new UUIDs and the clock are arguments (an en dash in a message is written as a hyphen). The unlocked read at the
  start of a reservation sees a store of its own, because another process may write in between.
\<close>

section \<open>Data\<close>

type_synonym uuid = string

record allocation_candidate =
  ac_target :: string
  ac_dispatch_target :: string
  ac_engine :: string
  ac_language :: string
  ac_target_id :: uuid
  ac_harness_id :: uuid
  ac_source_sha256 :: string

record allocation_evidence =
  ae_run_id :: string
  ae_started_at :: string
  ae_comparison_key :: string
  ae_binary_rev :: string
  ae_edges :: nat

record allocation_entry =
  en_candidate :: allocation_candidate
  en_weight :: nat
  en_max_runs :: nat
  en_reason :: string
  en_evidence :: "allocation_evidence list"

record allocation_proposal =
  ap_schema_version :: nat
  ap_id :: uuid
  ap_project :: string
  ap_created_at :: string
  ap_max_runs :: nat
  ap_max_total_secs :: nat
  ap_per_run_secs :: nat
  ap_unallocated_secs :: nat
  ap_entries :: "allocation_entry list"

datatype allocation_status = AllocDraft | AllocApproved | AllocRevoked

record allocation_grant =
  ag_id :: uuid
  ag_plan_id :: uuid
  ag_schedule_id :: string
  ag_created_at :: string
  ag_candidate :: allocation_candidate
  ag_duration_secs :: nat

record allocation_view =
  av_proposal :: allocation_proposal
  av_digest :: string
  av_status :: allocation_status
  av_reviewed_at :: "string option"
  av_reservations :: "allocation_grant list"

definition invalid :: "string \<Rightarrow> classified_error" where
  "invalid m = ValidationFailure m"

section \<open>Comparing retained runs\<close>

text \<open>The columns of a retained run that the comparison reads.\<close>

record run_history_item =
  rh_id :: string
  rh_target_id :: "uuid option"
  rh_kind :: string
  rh_engine :: string
  rh_status :: string
  rh_started_at :: string
  rh_comparison_key :: "string option"
  rh_edges :: "nat option"
  rh_harness_rev :: "string option"
  rh_binary_rev :: "string option"

datatype run_comparison_reason =
    Comparable | UnfinishedCampaign | MissingSetup | DifferentSetup | MissingExecutable | DifferentExecutable | MissingCoverage

definition hex_digest :: "string option \<Rightarrow> string option" where
  "hex_digest v = Option.bind v (\<lambda>s. if utf8_len s = 64 \<and> list_all is_ascii_hexdigit s then Some s else None)"

definition digest_changed :: "string option \<Rightarrow> string option \<Rightarrow> bool option" where
  "digest_changed a b = (case (hex_digest a, hex_digest b) of (Some x, Some y) \<Rightarrow> Some (x \<noteq> y) | _ \<Rightarrow> None)"

definition setup_key :: "run_history_item \<Rightarrow> string option" where
  "setup_key r = Option.bind (rh_comparison_key r) (\<lambda>k. if k = [] then None else Some k)"

definition setup_matches :: "run_history_item \<Rightarrow> run_history_item \<Rightarrow> bool option" where
  "setup_matches a b = (case (setup_key a, setup_key b) of (Some x, Some y) \<Rightarrow> Some (x = y) | _ \<Rightarrow> None)"

definition comparison_reason :: "run_history_item \<Rightarrow> run_history_item \<Rightarrow> run_comparison_reason" where
  "comparison_reason a b =
     (if rh_kind a \<noteq> ''Campaign'' \<or> rh_kind b \<noteq> ''Campaign'' \<or> rh_status a \<noteq> ''Done'' \<or> rh_status b \<noteq> ''Done''
      then UnfinishedCampaign
      else case setup_matches a b of
        None \<Rightarrow> MissingSetup
      | Some False \<Rightarrow> DifferentSetup
      | Some True \<Rightarrow>
          (case digest_changed (rh_binary_rev a) (rh_binary_rev b) of
             None \<Rightarrow> MissingExecutable
           | Some True \<Rightarrow> DifferentExecutable
           | Some False \<Rightarrow> if rh_edges a = None \<or> rh_edges b = None then MissingCoverage else Comparable))"

record run_comparison_assessment =
  ca_baseline :: string
  ca_result :: string
  ca_comparable :: bool
  ca_reason :: run_comparison_reason
  ca_setup_matches :: "bool option"
  ca_harness_changed :: "bool option"
  ca_binary_changed :: "bool option"
  ca_edge_delta :: "int option"

text \<open>The exact signed difference, before it is printed in decimal.\<close>

definition assess :: "run_history_item \<Rightarrow> run_history_item \<Rightarrow> run_comparison_assessment" where
  "assess a b = (let reason = comparison_reason a b; comparable = (reason = Comparable) in
     \<lparr>ca_baseline = rh_id a, ca_result = rh_id b, ca_comparable = comparable, ca_reason = reason,
      ca_setup_matches = setup_matches a b,
      ca_harness_changed = digest_changed (rh_harness_rev a) (rh_harness_rev b),
      ca_binary_changed = digest_changed (rh_binary_rev a) (rh_binary_rev b),
      ca_edge_delta = (if comparable then
         (case (rh_edges a, rh_edges b) of (Some x, Some y) \<Rightarrow> Some (int y - int x) | _ \<Rightarrow> None) else None)\<rparr>)"

section \<open>Proposals\<close>

text \<open>A stable sort in descending order.\<close>

definition sort_desc :: "('a \<Rightarrow> 'k :: linorder) \<Rightarrow> 'a list \<Rightarrow> 'a list" where
  "sort_desc f xs = rev (sort_key f (rev xs))"

definition evidence_of :: "run_history_item \<Rightarrow> allocation_evidence option" where
  "evidence_of r = (case (rh_comparison_key r, rh_binary_rev r, rh_edges r) of
     (Some k, Some b, Some e) \<Rightarrow>
       Some \<lparr>ae_run_id = rh_id r, ae_started_at = rh_started_at r, ae_comparison_key = k, ae_binary_rev = b, ae_edges = e\<rparr>
   | _ \<Rightarrow> None)"

definition matches_candidate :: "allocation_candidate \<Rightarrow> run_history_item \<Rightarrow> bool" where
  "matches_candidate c r \<longleftrightarrow> rh_target_id r = Some (ac_target_id c) \<and> comparison_reason r r = Comparable
     \<and> (case engine_from_str (rh_engine r) of Inl _ \<Rightarrow> False | Inr k \<Rightarrow> engine_str k = ac_engine c)
     \<and> rh_harness_rev r = Some (ac_source_sha256 c)"

definition comparable_evidence :: "allocation_candidate \<Rightarrow> run_history_item list \<Rightarrow> allocation_evidence list" where
  "comparable_evidence c history =
     (let runs = sort_desc (\<lambda>r. (rh_started_at r, rh_id r)) (filter (matches_candidate c) history) in
      case runs of
        [] \<Rightarrow> []
      | latest # _ \<Rightarrow> rev (List.map_filter evidence_of (take 2 (filter (\<lambda>r. comparison_reason r latest = Comparable) runs))))"

definition proposal_entry :: "run_history_item list \<Rightarrow> allocation_candidate \<Rightarrow> allocation_entry" where
  "proposal_entry history c =
     (let evidence = comparable_evidence c history;
          growing = (length evidence = 2 \<and> ae_edges (evidence ! 1) > ae_edges (evidence ! 0)) in
      \<lparr>en_candidate = c, en_weight = (if growing then 2 else 1), en_max_runs = 1,
       en_reason = (if growing then ''Recent comparable runs gained edges''
                    else if length evidence = 2 then ''Comparable runs did not gain edges; minimum service retained''
                    else ''Two comparable retained runs are unavailable; equal service''),
       en_evidence = evidence\<rparr>)"

text \<open>\<^verbatim>\<open>enumerate\<close>, \<^verbatim>\<open>flat_map\<close> and \<^verbatim>\<open>repeat_n\<close>; \<^verbatim>\<open>cycle\<close> and \<^verbatim>\<open>take\<close> on a non-empty list.\<close>

definition weight_cycle :: "allocation_entry list \<Rightarrow> nat list" where
  "weight_cycle es = concat (map (\<lambda>i. replicate (en_weight (es ! i)) i) [0..<length es])"

definition cycle_take :: "nat \<Rightarrow> 'a list \<Rightarrow> 'a list" where
  "cycle_take n xs = map (\<lambda>k. xs ! (k mod length xs)) [0..<n]"

definition add_run :: "allocation_entry list \<Rightarrow> nat \<Rightarrow> allocation_entry list" where
  "add_run es i = es[i := (es ! i)\<lparr>en_max_runs := en_max_runs (es ! i) + 1\<rparr>]"

definition same_slot :: "allocation_candidate \<Rightarrow> allocation_candidate \<Rightarrow> bool" where
  "same_slot a b \<longleftrightarrow> ac_target a = ac_target b \<and> ac_engine a = ac_engine b"

fun repeated_slot :: "allocation_candidate list \<Rightarrow> bool" where
  "repeated_slot (a # b # cs) \<longleftrightarrow> same_slot a b \<or> repeated_slot (b # cs)"
| "repeated_slot _ \<longleftrightarrow> False"

definition max_allocation_secs :: nat where
  "max_allocation_secs = 31536000"

definition make_proposal ::
  "uuid \<Rightarrow> string \<Rightarrow> string \<Rightarrow> allocation_candidate list \<Rightarrow> run_history_item list \<Rightarrow> nat \<Rightarrow> nat
     \<Rightarrow> (classified_error, allocation_proposal) result" where
  "make_proposal new_id now project candidates history max_runs max_total_secs =
     (if candidates = [] \<or> length candidates > 64 \<or> max_runs < length candidates \<or> max_runs > 10000
         \<or> max_total_secs < max_runs \<or> max_total_secs > max_allocation_secs
      then Inl (invalid ''select 1-64 targets, reserve at least one run each (at most 10000), and supply 1-31536000 fuzz seconds with at least one second per run'')
      else
        let cs = sort_key (\<lambda>c. (ac_target c, ac_engine c)) candidates in
        if repeated_slot cs then Inl (invalid ''an allocation may select each target/engine only once'')
        else
          let entries = map (proposal_entry history) cs;
              entries' = foldl add_run entries (cycle_take (max_runs - length entries) (weight_cycle entries)) in
          Inr \<lparr>ap_schema_version = 1, ap_id = new_id, ap_project = project, ap_created_at = now,
               ap_max_runs = max_runs, ap_max_total_secs = max_total_secs,
               ap_per_run_secs = max_total_secs div max_runs, ap_unallocated_secs = max_total_secs mod max_runs,
               ap_entries = entries'\<rparr>)"

section \<open>The store\<close>

record allocation_store =
  as_project :: string
  as_current :: "allocation_view option"
  as_archive :: "(uuid \<times> allocation_view) list"

text \<open>The third-party functions: the digest of an encoded proposal, and the bytes of an encoded file.\<close>

record allocation_codec =
  cd_digest :: "allocation_proposal \<Rightarrow> string"
  cd_size :: "allocation_view \<Rightarrow> nat"

datatype write_outcome = Written | NotWritten string | WrittenUnsynced string

definition state_error :: "string \<Rightarrow> classified_error" where
  "state_error m = StorageFailure (''allocation state: '' @ m)"

definition hex_sha256 :: "string \<Rightarrow> bool" where
  "hex_sha256 s \<longleftrightarrow> utf8_len s = 64 \<and> list_all is_ascii_hexdigit s"

definition grants_for :: "allocation_candidate \<Rightarrow> allocation_grant list \<Rightarrow> allocation_grant list" where
  "grants_for c gs = filter (\<lambda>g. ag_candidate g = c) gs"

definition accounting_ok :: "allocation_codec \<Rightarrow> string \<Rightarrow> allocation_view \<Rightarrow> bool" where
  "accounting_ok cd project v =
     (let p = av_proposal v in
      \<not> (ap_schema_version p \<noteq> 1 \<or> ap_project p \<noteq> project \<or> ap_entries p = [] \<or> length (ap_entries p) > 64
         \<or> ap_max_runs p = 0 \<or> ap_max_runs p > 10000 \<or> ap_per_run_secs p = 0 \<or> ap_max_total_secs p > max_allocation_secs
         \<or> ap_max_total_secs p div ap_max_runs p \<noteq> ap_per_run_secs p
         \<or> ap_max_total_secs p mod ap_max_runs p \<noteq> ap_unallocated_secs p
         \<or> cd_digest cd p \<noteq> av_digest v \<or> length (av_reservations v) > ap_max_runs p
         \<or> sum_list (map en_max_runs (ap_entries p)) \<noteq> ap_max_runs p))"

definition entry_ok :: "allocation_view \<Rightarrow> allocation_entry \<Rightarrow> bool" where
  "entry_ok v e = (\<not> (en_max_runs e = 0 \<or> length (en_evidence e) > 2 \<or> \<not> (1 \<le> en_weight e \<and> en_weight e \<le> 2)
     \<or> \<not> hex_sha256 (ac_source_sha256 (en_candidate e))
     \<or> length (grants_for (en_candidate e) (av_reservations v)) > en_max_runs e))"

definition grant_ok :: "allocation_proposal \<Rightarrow> allocation_grant \<Rightarrow> bool" where
  "grant_ok p g = (\<not> (ag_plan_id g \<noteq> ap_id p \<or> ag_duration_secs g = 0 \<or> ag_duration_secs g > ap_per_run_secs p
     \<or> \<not> list_ex (\<lambda>e. en_candidate e = ag_candidate g) (ap_entries p)))"

definition validate :: "allocation_codec \<Rightarrow> string \<Rightarrow> allocation_view \<Rightarrow> (classified_error, unit) result" where
  "validate cd project v =
     (if \<not> accounting_ok cd project v then Inl (invalid ''invalid retained allocation proposal or accounting'')
      else if \<not> (distinct (map (ac_harness_id \<circ> en_candidate) (ap_entries (av_proposal v)))
                 \<and> list_all (entry_ok v) (ap_entries (av_proposal v)))
      then Inl (invalid ''invalid retained allocation entry'')
      else if \<not> (distinct (map ag_id (av_reservations v)) \<and> list_all (grant_ok (av_proposal v)) (av_reservations v))
      then Inl (invalid ''invalid retained allocation reservation'')
      else Inr ())"

definition max_state_bytes :: nat where
  "max_state_bytes = 16 * 1024 * 1024"

definition read_state :: "allocation_codec \<Rightarrow> allocation_store \<Rightarrow> (classified_error, allocation_view option) result" where
  "read_state cd st = (case as_current st of
     None \<Rightarrow> Inr None
   | Some v \<Rightarrow>
       if cd_size cd v > max_state_bytes then Inl (invalid ''allocation state exceeds its size limit'')
       else bind_result (validate cd (as_project st) v) (\<lambda>_. Inr (Some v)))"

text \<open>\<^verbatim>\<open>atomic_write_json\<close>: the file is replaced or kept; a failed sync is reported after the replacement.\<close>

definition write_state :: "write_outcome \<Rightarrow> allocation_view \<Rightarrow> allocation_store \<Rightarrow> allocation_store \<times> (classified_error, unit) result" where
  "write_state w v st = (case w of
     Written \<Rightarrow> (st\<lparr>as_current := Some v\<rparr>, Inr ())
   | NotWritten m \<Rightarrow> (st, Inl (state_error m))
   | WrittenUnsynced m \<Rightarrow> (st\<lparr>as_current := Some v\<rparr>, Inl (state_error m)))"

definition archive_state :: "write_outcome \<Rightarrow> allocation_view \<Rightarrow> allocation_store \<Rightarrow> allocation_store \<times> (classified_error, unit) result" where
  "archive_state w v st =
     (let st' = st\<lparr>as_archive := (ap_id (av_proposal v), v) # as_archive st\<rparr> in case w of
     Written \<Rightarrow> (st', Inr ())
   | NotWritten m \<Rightarrow> (st, Inl (state_error m))
   | WrittenUnsynced m \<Rightarrow> (st', Inl (state_error m)))"

text \<open>What the file system answers during one operation: the lock (\<open>Some m\<close> when it is not taken)
  and the writes of the archive and of the current state.\<close>

record allocation_io =
  io_lock :: "classified_error option"
  io_archive :: write_outcome
  io_write :: write_outcome

type_synonym 'a alloc_result = "allocation_store \<times> (classified_error, 'a) result"

definition retire_previous :: "allocation_io \<Rightarrow> allocation_view option \<Rightarrow> allocation_store \<Rightarrow> unit alloc_result" where
  "retire_previous io prev st = (case prev of
     None \<Rightarrow> (st, Inr ())
   | Some v \<Rightarrow> if av_status v \<noteq> AllocRevoked
               then (st, Inl (invalid ''revoke the current allocation before proposing another''))
               else archive_state (io_archive io) v st)"

definition propose :: "allocation_codec \<Rightarrow> allocation_io \<Rightarrow> allocation_proposal \<Rightarrow> allocation_store \<Rightarrow> allocation_view alloc_result" where
  "propose cd io p st = (case io_lock io of
     Some e \<Rightarrow> (st, Inl e)
   | None \<Rightarrow> (case read_state cd st of
       Inl e \<Rightarrow> (st, Inl e)
     | Inr prev \<Rightarrow>
         (case retire_previous io prev st of
            (st1, Inl e) \<Rightarrow> (st1, Inl e)
          | (st1, Inr _) \<Rightarrow>
              let view = \<lparr>av_proposal = p, av_digest = cd_digest cd p, av_status = AllocDraft,
                          av_reviewed_at = None, av_reservations = []\<rparr> in
              (case validate cd (as_project st1) view of
                 Inl e \<Rightarrow> (st1, Inl e)
               | Inr _ \<Rightarrow> (case write_state (io_write io) view st1 of
                    (st2, Inl e) \<Rightarrow> (st2, Inl e)
                  | (st2, Inr _) \<Rightarrow> (st2, Inr view))))))"

definition review :: "allocation_codec \<Rightarrow> allocation_io \<Rightarrow> string \<Rightarrow> uuid \<Rightarrow> string \<Rightarrow> bool \<Rightarrow> allocation_store \<Rightarrow> allocation_view alloc_result" where
  "review cd io now pid digest approve st = (case io_lock io of
     Some e \<Rightarrow> (st, Inl e)
   | None \<Rightarrow> (case read_state cd st of
       Inl e \<Rightarrow> (st, Inl e)
     | Inr None \<Rightarrow> (st, Inl (invalid ''no project allocation exists''))
     | Inr (Some v) \<Rightarrow>
         if ap_id (av_proposal v) \<noteq> pid \<or> av_digest v \<noteq> digest
         then (st, Inl (invalid ''allocation changed; reload and review the exact proposal''))
         else if approve \<and> av_status v \<noteq> AllocDraft
         then (st, Inl (invalid ''only a draft allocation can be approved''))
         else
           let v' = v\<lparr>av_status := (if approve then AllocApproved else AllocRevoked), av_reviewed_at := Some now\<rparr> in
           (case write_state (io_write io) v' st of
              (st2, Inl e) \<Rightarrow> (st2, Inl e)
            | (st2, Inr _) \<Rightarrow> (st2, Inr v'))))"

definition rotation :: "nat \<Rightarrow> 'a list \<Rightarrow> 'a list" where
  "rotation count xs = map (\<lambda>offset. xs ! ((count + offset) mod length xs)) [0..<length xs]"

definition has_allowance :: "allocation_candidate list \<Rightarrow> allocation_view \<Rightarrow> allocation_entry \<Rightarrow> bool" where
  "has_allowance candidates v e \<longleftrightarrow> en_candidate e \<in> set candidates
     \<and> length (grants_for (en_candidate e) (av_reservations v)) < en_max_runs e"

text \<open>The decision under the lock. \<open>enabled\<close> is the build feature \<^verbatim>\<open>campaign-allocation\<close>.\<close>

definition reserve_locked ::
  "allocation_codec \<Rightarrow> bool \<Rightarrow> allocation_io \<Rightarrow> uuid \<Rightarrow> string \<Rightarrow> string \<Rightarrow> allocation_candidate list \<Rightarrow> nat
     \<Rightarrow> allocation_store \<Rightarrow> allocation_grant option alloc_result" where
  "reserve_locked cd enabled io new_id now schedule candidates requested st = (case read_state cd st of
     Inl e \<Rightarrow> (st, Inl e)
   | Inr None \<Rightarrow> (st, Inl (invalid ''allocation disappeared during admission''))
   | Inr (Some v) \<Rightarrow>
       if \<not> enabled then (st, Inl (invalid ''project has an allocation but campaign-allocation is disabled''))
       else if av_status v \<noteq> AllocApproved then (st, Inl (invalid ''project allocation is not approved''))
       else if schedule = [] \<or> utf8_len schedule > 1024 \<or> requested = 0
       then (st, Inl (invalid ''allocation reservation needs a schedule and positive duration''))
       else (case find (has_allowance candidates v) (rotation (length (av_reservations v)) (ap_entries (av_proposal v))) of
           None \<Rightarrow> (st, Inl (invalid ''no allocation allowance for this schedule's current promoted harnesses; quota may be exhausted or approval stale''))
         | Some e \<Rightarrow>
             let g = \<lparr>ag_id = new_id, ag_plan_id = ap_id (av_proposal v), ag_schedule_id = schedule,
                      ag_created_at = now, ag_candidate = en_candidate e,
                      ag_duration_secs = min requested (ap_per_run_secs (av_proposal v))\<rparr> in
             (case write_state (io_write io) (v\<lparr>av_reservations := av_reservations v @ [g]\<rparr>) st of
                (st2, Inl e) \<Rightarrow> (st2, Inl e)
              | (st2, Inr _) \<Rightarrow> (st2, Inr (Some g)))))"

text \<open>\<open>seen\<close> is the store of the unlocked read.\<close>

definition reserve ::
  "allocation_codec \<Rightarrow> bool \<Rightarrow> allocation_io \<Rightarrow> uuid \<Rightarrow> string \<Rightarrow> string \<Rightarrow> allocation_candidate list \<Rightarrow> nat
     \<Rightarrow> allocation_store \<Rightarrow> allocation_store \<Rightarrow> allocation_grant option alloc_result" where
  "reserve cd enabled io new_id now schedule candidates requested seen st = (case read_state cd seen of
     Inl e \<Rightarrow> (st, Inl e)
   | Inr None \<Rightarrow> (st, Inr None)
   | Inr (Some _) \<Rightarrow> (case io_lock io of
       Some e \<Rightarrow> (st, Inl e)
     | None \<Rightarrow> reserve_locked cd enabled io new_id now schedule candidates requested st))"

section \<open>Execution under a grant\<close>

record granted_harness =
  gh_id :: uuid
  gh_target_id :: uuid
  gh_engine :: engine_kind
  gh_source :: string

record grant_execution =
  ge_candidate :: allocation_candidate
  ge_duration_secs :: nat
  ge_attempted :: bool

definition with_grant :: "allocation_grant \<Rightarrow> grant_execution" where
  "with_grant g = \<lparr>ge_candidate = ag_candidate g, ge_duration_secs = ag_duration_secs g, ge_attempted = False\<rparr>"

text \<open>\<open>None\<close> is a run outside every allocation scope; \<open>sha\<close> is SHA-256 in hexadecimal.\<close>

definition verify_granted_harness ::
  "(string \<Rightarrow> string) \<Rightarrow> granted_harness \<Rightarrow> nat \<Rightarrow> grant_execution option \<Rightarrow> grant_execution option \<times> (classified_error, unit) result" where
  "verify_granted_harness sha h duration scope = (case scope of
     None \<Rightarrow> (None, Inr ())
   | Some x \<Rightarrow>
       let c = ge_candidate x in
       if ac_harness_id c \<noteq> gh_id h \<or> ac_target_id c \<noteq> gh_target_id h \<or> ac_engine c \<noteq> engine_str (gh_engine h)
          \<or> ac_source_sha256 c \<noteq> sha (gh_source h)
       then (Some x, Inl (invalid ''active harness changed since allocation approval; review a new allocation''))
       else if duration > ge_duration_secs x then (Some x, Inl (invalid ''run exceeds allocation duration''))
       else (Some (x\<lparr>ge_attempted := True\<rparr>),
             if ge_attempted x then Inl (invalid ''allocation grant was already attempted'') else Inr ()))"

section \<open>Service entry points\<close>

text \<open>Gathering the promoted harnesses of a project and its run history reads the database and the
  workspaces: here they are results the entry points receive.\<close>

definition propose_allocation ::
  "allocation_codec \<Rightarrow> allocation_io \<Rightarrow> uuid \<Rightarrow> string \<Rightarrow> string \<Rightarrow> uuid list
     \<Rightarrow> (classified_error, allocation_candidate list) result \<Rightarrow> (classified_error, run_history_item list) result
     \<Rightarrow> nat \<Rightarrow> nat \<Rightarrow> allocation_store \<Rightarrow> allocation_view alloc_result" where
  "propose_allocation cd io new_id now project harness_ids all_candidates history max_runs max_total_secs st =
     (if harness_ids = [] \<or> length harness_ids > 64 then (st, Inl (invalid ''select 1-64 promoted harnesses''))
      else if \<not> distinct harness_ids then (st, Inl (invalid ''duplicate allocation harness selection''))
      else
        let chosen = bind_result all_candidates (\<lambda>cs.
              let candidates = filter (\<lambda>c. ac_harness_id c \<in> set harness_ids) cs in
              if length candidates \<noteq> length harness_ids
              then Inl (invalid ''selected harness is missing, belongs to another project, or is no longer active and promoted'')
              else Inr candidates);
            proposal = bind_result chosen (\<lambda>cs. bind_result history (\<lambda>h.
              make_proposal new_id now project cs h max_runs max_total_secs)) in
        (case proposal of Inl e \<Rightarrow> (st, Inl e) | Inr p \<Rightarrow> propose cd io p st))"

definition review_allocation ::
  "allocation_codec \<Rightarrow> bool \<Rightarrow> allocation_io \<Rightarrow> string \<Rightarrow> uuid \<Rightarrow> string \<Rightarrow> bool \<Rightarrow> allocation_store \<Rightarrow> allocation_view alloc_result" where
  "review_allocation cd enabled io now pid digest approve st =
     (if approve \<and> \<not> enabled then (st, Inl (invalid ''campaign-allocation is disabled''))
      else review cd io now pid digest approve st)"

text \<open>\<open>seen\<close> and \<open>seen'\<close> are the stores of the two unlocked reads; \<open>resolve\<close> is the lookup of a target
  selector; the engine narrows only a campaign pinned to one target.\<close>

definition admit_scheduled_allocation ::
  "allocation_codec \<Rightarrow> bool \<Rightarrow> allocation_io \<Rightarrow> uuid \<Rightarrow> string \<Rightarrow> (string \<Rightarrow> (classified_error, uuid) result)
     \<Rightarrow> (classified_error, allocation_candidate list) result \<Rightarrow> string option \<Rightarrow> engine_kind option \<Rightarrow> string \<Rightarrow> nat
     \<Rightarrow> allocation_store \<Rightarrow> allocation_store \<Rightarrow> allocation_store \<Rightarrow> allocation_grant option alloc_result" where
  "admit_scheduled_allocation cd enabled io new_id now resolve all_candidates target engine schedule requested seen seen' st =
     (case read_state cd seen of
        Inl e \<Rightarrow> (st, Inl e)
      | Inr None \<Rightarrow> (st, Inr None)
      | Inr (Some v) \<Rightarrow>
          if av_status v \<noteq> AllocApproved then (st, Inl (invalid ''project allocation is not approved''))
          else
            let target_id = (case target of
                  None \<Rightarrow> Inr None
                | Some s \<Rightarrow> if s = [] then Inr None else bind_result (resolve s) (\<lambda>i. Inr (Some i)));
                candidates = bind_result target_id (\<lambda>tid. bind_result all_candidates (\<lambda>cs.
                  Inr (filter (\<lambda>c. (case tid of None \<Rightarrow> True | Some i \<Rightarrow> i = ac_target_id c)
                     \<and> (case engine of None \<Rightarrow> True | Some k \<Rightarrow> engine_str k = ac_engine c)) cs))) in
            (case candidates of
               Inl e \<Rightarrow> (st, Inl e)
             | Inr cs \<Rightarrow> reserve cd enabled io new_id now schedule cs requested seen' st))"

section \<open>Apportionment\<close>

text \<open>The share of entry \<open>i\<close> when \<open>n\<close> runs are dealt out in rounds of the weights \<open>ws\<close>.\<close>

definition weighted_share :: "nat \<Rightarrow> nat list \<Rightarrow> nat \<Rightarrow> nat" where
  "weighted_share n ws i =
     n div sum_list ws * (ws ! i) + min (ws ! i) (n mod sum_list ws - sum_list (take i ws))"

lemma cycle_take_rounds:
  assumes "xs \<noteq> []"
  shows "cycle_take n xs = concat (replicate (n div length xs) xs) @ take (n mod length xs) xs"
proof (induction n rule: less_induct)
  case (less n)
  let ?l = "length xs"
  have l: "0 < ?l" using assms by simp
  show ?case
  proof (cases "n < ?l")
    case True
    then show ?thesis by (auto simp: cycle_take_def intro!: nth_equalityI)
  next
    case False
    have "cycle_take n xs = map (\<lambda>k. xs ! (k mod ?l)) ([0..<?l] @ [?l..<n])"
      unfolding cycle_take_def using False upt_add_eq_append [of 0 ?l "n - ?l"] by simp
    also have "map (\<lambda>k. xs ! (k mod ?l)) [0..<?l] = xs" by (auto intro!: nth_equalityI)
    moreover have "map (\<lambda>k. xs ! (k mod ?l)) [?l..<n] = cycle_take (n - ?l) xs"
      using False by (auto simp: cycle_take_def intro!: nth_equalityI)
    ultimately have "cycle_take n xs = xs @ cycle_take (n - ?l) xs" by simp
    moreover have "n div ?l = Suc ((n - ?l) div ?l)" "n mod ?l = (n - ?l) mod ?l"
      using False l by (simp_all add: le_div_geq le_mod_geq)
    moreover have "n - ?l < n" using False l by linarith
    ultimately show ?thesis using less.IH [of "n - ?l"] by simp
  qed
qed

lemma count_list_concat_replicate: "count_list (concat (replicate m xs)) x = m * count_list xs x"
  by (induction m) simp_all

lemma count_list_replicate: "count_list (replicate m x) y = (if x = y then m else 0)"
  by (induction m) auto

text \<open>Blocks \<open>replicate (ws ! i) (b + i)\<close> one after the other.\<close>

definition blocks :: "nat \<Rightarrow> nat list \<Rightarrow> nat list" where
  "blocks b ws = concat (map (\<lambda>i. replicate (ws ! i) (b + i)) [0..<length ws])"

lemma blocks_Cons: "blocks b (w # ws) = replicate w b @ blocks (Suc b) ws"
proof -
  have "[0..<length (w # ws)] = 0 # map Suc [0..<length ws]" by (simp only: list.size add_Suc_right add_0_right map_Suc_upt upt_conv_Cons [OF zero_less_Suc])
  then show ?thesis by (simp only: blocks_def list.map concat.simps map_map) (simp add: comp_def)
qed

lemma blocks_length: "length (blocks b ws) = sum_list ws"
  by (induction ws arbitrary: b) (simp_all add: blocks_Cons, simp add: blocks_def)

lemma blocks_below: "x \<in> set (blocks b ws) \<Longrightarrow> b \<le> x \<and> x < b + length ws"
  by (auto simp: blocks_def)

lemma blocks_count: "i < length ws \<Longrightarrow> count_list (take m (blocks b ws)) (b + i) = min (ws ! i) (m - sum_list (take i ws))"
proof (induction ws arbitrary: b i m)
  case (Cons w ws)
  show ?case
  proof (cases i)
    case 0
    have "b \<notin> set (take (m - w) (blocks (Suc b) ws))" using blocks_below [of b "Suc b" ws] by (auto dest: in_set_takeD)
    then show ?thesis using 0 by (simp add: blocks_Cons count_list_replicate min.commute)
  next
    case (Suc j)
    then have "count_list (take (m - w) (blocks (Suc b) ws)) (Suc b + j) = min (ws ! j) (m - w - sum_list (take j ws))"
      using Cons.IH [of j "m - w" "Suc b"] Cons.prems by simp
    then show ?thesis using Suc by (simp add: blocks_Cons count_list_replicate diff_diff_left)
  qed
qed simp

lemma weight_cycle_blocks: "weight_cycle es = blocks 0 (map en_weight es)"
  unfolding weight_cycle_def blocks_def by (rule arg_cong [where f = concat]) simp

text \<open>Dealing runs adds to each entry the number of its turns.\<close>

lemma add_run_length [simp]: "length (add_run es i) = length es"
  by (simp add: add_run_def)

lemma foldl_add_run_length [simp]: "length (foldl add_run es is) = length es"
  by (induction "is" arbitrary: es) simp_all

lemma foldl_add_run_nth:
  "j < length es \<Longrightarrow> foldl add_run es is ! j = (es ! j)\<lparr>en_max_runs := en_max_runs (es ! j) + count_list is j\<rparr>"
proof (induction "is" arbitrary: es)
  case (Cons i "is")
  then have "foldl add_run (add_run es i) is ! j
      = (add_run es i ! j)\<lparr>en_max_runs := en_max_runs (add_run es i ! j) + count_list is j\<rparr>" by simp
  moreover have "add_run es i ! j = (es ! j)\<lparr>en_max_runs := en_max_runs (es ! j) + (if i = j then 1 else 0)\<rparr>"
    using Cons.prems by (simp add: add_run_def nth_list_update)
  ultimately show ?case by simp
qed simp

lemma dealt_share:
  assumes "i < length es" "list_all (\<lambda>e. 0 < en_weight e) es"
  shows "count_list (cycle_take n (weight_cycle es)) i = weighted_share n (map en_weight es) i"
proof -
  let ?ws = "map en_weight es" let ?b = "blocks 0 ?ws"
  have "en_weight (es ! i) \<le> sum_list ?ws" using assms(1) by (auto intro!: member_le_sum_list)
  moreover have "0 < en_weight (es ! i)" using assms by (auto simp: list_all_length)
  ultimately have "0 < length ?b" by (simp only: blocks_length)
  then have "?b \<noteq> []" by (simp only: length_greater_0_conv not_False_eq_True)
  then have ne: "?b \<noteq> []" by blast
  have full: "count_list ?b i = en_weight (es ! i)"
  proof -
    have "sum_list (take i ?ws) + en_weight (es ! i) \<le> sum_list ?ws"
      using assms(1) id_take_nth_drop [of i ?ws] by (metis add.assoc le_add1 length_map nth_map sum_list.Cons sum_list.append)
    then show ?thesis using blocks_count [of i ?ws "sum_list ?ws" 0] assms(1) by (simp add: blocks_length)
  qed
  have "count_list (take (n mod sum_list ?ws) ?b) i = min (en_weight (es ! i)) (n mod sum_list ?ws - sum_list (take i ?ws))"
    using blocks_count [of i ?ws _ 0] assms(1) by simp
  then show ?thesis
    using assms(1) full cycle_take_rounds [OF ne, of n]
    by (simp add: weight_cycle_blocks weighted_share_def blocks_length count_list_concat_replicate)
qed

lemma sum_dealt:
  "(\<forall>i\<in>set is. i < length es) \<Longrightarrow>
     sum_list (map en_max_runs (foldl add_run es is)) = sum_list (map en_max_runs es) + length is"
proof (induction "is" arbitrary: es)
  case (Cons i "is")
  have "map en_max_runs (add_run es i) = (map en_max_runs es)[i := en_max_runs (es ! i) + 1]"
    by (simp add: add_run_def map_update)
  moreover have "sum_list ((map en_max_runs es)[i := en_max_runs (es ! i) + 1]) = sum_list (map en_max_runs es) + 1"
    using Cons.prems by (simp add: sum_list_update)
  ultimately show ?case using Cons by simp
qed simp

lemma proposal_entry_simps [simp]:
  "en_candidate (proposal_entry h c) = c" "en_max_runs (proposal_entry h c) = 1"
  "en_weight (proposal_entry h c) = (if length (comparable_evidence c h) = 2
      \<and> ae_edges (comparable_evidence c h ! 1) > ae_edges (comparable_evidence c h ! 0) then 2 else 1)"
  "en_evidence (proposal_entry h c) = comparable_evidence c h"
  by (simp_all add: proposal_entry_def Let_def)

lemma make_proposal_shape:
  assumes "make_proposal i now pr cs h runs secs = Inr p"
  obtains es where "es = map (proposal_entry h) (sort_key (\<lambda>c. (ac_target c, ac_engine c)) cs)"
    "ap_entries p = foldl add_run es (cycle_take (runs - length es) (weight_cycle es))"
    "es \<noteq> []" "length es = length cs" "length es \<le> 64" "length es \<le> runs" "runs \<le> 10000" "runs \<le> secs"
    "secs \<le> max_allocation_secs" "\<not> repeated_slot (map en_candidate es)"
    "ap_schema_version p = 1" "ap_id p = i" "ap_project p = pr" "ap_max_runs p = runs" "ap_max_total_secs p = secs"
    "ap_per_run_secs p = secs div runs" "ap_unallocated_secs p = secs mod runs"
proof (rule that)
  let ?es = "map (proposal_entry h) (sort_key (\<lambda>c. (ac_target c, ac_engine c)) cs)"
  show "?es = ?es" ..
  note d = assms [unfolded make_proposal_def Let_def]
  show "?es \<noteq> []" "length ?es = length cs" "length ?es \<le> 64" "length ?es \<le> runs" "runs \<le> 10000" "runs \<le> secs"
    "secs \<le> max_allocation_secs" using d by (auto split: if_splits simp flip: length_greater_0_conv)
  show "\<not> repeated_slot (map en_candidate ?es)" using d by (auto simp: comp_def split: if_splits)
  show "ap_entries p = foldl add_run ?es (cycle_take (runs - length ?es) (weight_cycle ?es))"
    "ap_schema_version p = 1" "ap_id p = i" "ap_project p = pr" "ap_max_runs p = runs" "ap_max_total_secs p = secs"
    "ap_per_run_secs p = secs div runs" "ap_unallocated_secs p = secs mod runs"
    using d by (auto split: if_splits)
qed

lemma entries_weighted: "list_all (\<lambda>e. 0 < en_weight e) (map (proposal_entry h) cs)"
  by (simp add: list_all_length)

lemma weight_cycle_in:
  assumes "es \<noteq> []" "list_all (\<lambda>e. 0 < en_weight e) es" "i \<in> set (cycle_take n (weight_cycle es))"
  shows "i < length es"
proof -
  obtain e es' where es: "es = e # es'" using assms(1) by (cases es) auto
  have "0 < en_weight e" using assms(2) es by simp
  then have ne: "weight_cycle es \<noteq> []" using es by (auto simp: weight_cycle_blocks blocks_Cons)
  obtain k where "i = weight_cycle es ! (k mod length (weight_cycle es))"
    using assms(3) by (auto simp: cycle_take_def)
  then have "i \<in> set (weight_cycle es)" using ne by simp
  then show ?thesis by (auto simp: weight_cycle_def)
qed

text \<open>C20. An accepted allocation request reserves exactly \<^verbatim>\<open>max_runs\<close> runs: the entries are the
  selected harnesses in the order of target and engine, each gets one guaranteed run, and the
  remaining runs are dealt out in rounds of the weights, 2 for a target whose last two comparable
  runs gained edges and 1 for every other, so that entry \<open>i\<close> has the closed form
  \<open>1 + weighted_share\<close>; the time of all runs and the unallocated remainder add up to the requested seconds.\<close>

theorem allocation_apportioned:
  assumes "make_proposal i now pr cs h runs secs = Inr p"
  shows "map en_candidate (ap_entries p) = sort_key (\<lambda>c. (ac_target c, ac_engine c)) cs
    \<and> sum_list (map en_max_runs (ap_entries p)) = runs
    \<and> (\<forall>k<length cs. en_max_runs (ap_entries p ! k) = 1 + weighted_share (runs - length cs) (map en_weight (ap_entries p)) k
        \<and> (en_weight (ap_entries p ! k) = 2 \<longleftrightarrow> (\<exists>a b. comparable_evidence (en_candidate (ap_entries p ! k)) h = [a, b] \<and> ae_edges a < ae_edges b))
        \<and> (en_weight (ap_entries p ! k) = 1 \<or> en_weight (ap_entries p ! k) = 2))
    \<and> 0 < ap_per_run_secs p \<and> runs * ap_per_run_secs p + ap_unallocated_secs p = secs"
proof -
  from assms obtain es where es: "es = map (proposal_entry h) (sort_key (\<lambda>c. (ac_target c, ac_engine c)) cs)"
    and pe: "ap_entries p = foldl add_run es (cycle_take (runs - length es) (weight_cycle es))"
    and ne: "es \<noteq> []" and len: "length es = length cs" and le: "length es \<le> runs" and rs: "runs \<le> secs"
    and per: "ap_per_run_secs p = secs div runs" "ap_unallocated_secs p = secs mod runs"
    by (rule make_proposal_shape)
  let ?turns = "cycle_take (runs - length es) (weight_cycle es)"
  have w: "list_all (\<lambda>e. 0 < en_weight e) es" unfolding es by (rule entries_weighted)
  have nth: "ap_entries p ! k = (es ! k)\<lparr>en_max_runs := 1 + count_list ?turns k\<rparr>" if "k < length es" for k
    unfolding pe foldl_add_run_nth [OF that] using that by (simp add: es)
  have lp: "length (ap_entries p) = length es" unfolding pe by simp
  have ws: "map en_weight (ap_entries p) = map en_weight es" by (rule nth_equalityI) (simp_all add: lp nth)
  have cands: "map en_candidate (ap_entries p) = sort_key (\<lambda>c. (ac_target c, ac_engine c)) cs"
  proof -
    have "map en_candidate (ap_entries p) = map en_candidate es" by (rule nth_equalityI) (simp_all add: lp nth)
    then show ?thesis by (simp add: es comp_def)
  qed
  have sum: "sum_list (map en_max_runs (ap_entries p)) = runs"
  proof -
    have "sum_list (map en_max_runs es) = length es" by (simp add: es comp_def sum_list_triv)
    moreover have "\<forall>i\<in>set ?turns. i < length es" using weight_cycle_in [OF ne w] by blast
    ultimately show ?thesis using le unfolding pe by (simp add: sum_dealt) (simp add: cycle_take_def)
  qed
  have each: "en_max_runs (ap_entries p ! k) = 1 + weighted_share (runs - length cs) (map en_weight (ap_entries p)) k
        \<and> (en_weight (ap_entries p ! k) = 2 \<longleftrightarrow> (\<exists>a b. comparable_evidence (en_candidate (ap_entries p ! k)) h = [a, b] \<and> ae_edges a < ae_edges b))
        \<and> (en_weight (ap_entries p ! k) = 1 \<or> en_weight (ap_entries p ! k) = 2)" if "k < length cs" for k
  proof -
    have k: "k < length es" using that len by simp
    have "en_max_runs (ap_entries p ! k) = 1 + weighted_share (runs - length cs) (map en_weight (ap_entries p)) k"
      using k dealt_share [OF k w] by (simp add: nth ws len)
    moreover have "ap_entries p ! k = (proposal_entry h (en_candidate (es ! k)))\<lparr>en_max_runs := 1 + count_list ?turns k\<rparr>"
      using nth [OF k] k by (simp add: es)
    ultimately show ?thesis by (auto simp: length_Suc_conv numeral_2_eq_2)
  qed
  have "0 < runs" using ne le by (cases es) auto
  then have "0 < ap_per_run_secs p" "runs * ap_per_run_secs p + ap_unallocated_secs p = secs"
    using rs per by (simp_all add: div_greater_zero_iff)
  with cands sum each show ?thesis by blast
qed

section \<open>The store as a state machine\<close>

datatype alloc_event =
    ProposeEvent allocation_io allocation_proposal
  | ReviewEvent allocation_io string uuid string bool
  | ReserveEvent bool allocation_io uuid string string "allocation_candidate list" nat allocation_store

fun alloc_step :: "allocation_codec \<Rightarrow> allocation_store \<Rightarrow> alloc_event \<Rightarrow> allocation_store" where
  "alloc_step cd st (ProposeEvent io p) = fst (propose cd io p st)"
| "alloc_step cd st (ReviewEvent io now pid digest approve) = fst (review cd io now pid digest approve st)"
| "alloc_step cd st (ReserveEvent enabled io new_id now schedule cs requested seen) =
     fst (reserve cd enabled io new_id now schedule cs requested seen st)"

definition alloc_run :: "allocation_codec \<Rightarrow> allocation_store \<Rightarrow> alloc_event list \<Rightarrow> allocation_store" where
  "alloc_run cd st es = foldl (alloc_step cd) st es"

lemma alloc_run_simps [simp]:
  "alloc_run cd st [] = st" "alloc_run cd st (e # es) = alloc_run cd (alloc_step cd st e) es"
  "alloc_run cd st (es @ es') = alloc_run cd (alloc_run cd st es) es'"
  by (simp_all add: alloc_run_def)

text \<open>What the validation keeps, apart from the uniqueness of the grant ids.\<close>

definition wf_view :: "allocation_codec \<Rightarrow> string \<Rightarrow> allocation_view \<Rightarrow> bool" where
  "wf_view cd project v \<longleftrightarrow> accounting_ok cd project v
     \<and> distinct (map (ac_harness_id \<circ> en_candidate) (ap_entries (av_proposal v)))
     \<and> list_all (entry_ok v) (ap_entries (av_proposal v))
     \<and> list_all (grant_ok (av_proposal v)) (av_reservations v)"

lemma validate_iff: "validate cd project v = Inr u \<longleftrightarrow> wf_view cd project v \<and> distinct (map ag_id (av_reservations v))"
  by (auto simp: validate_def wf_view_def)

lemma read_state_Some: "read_state cd st = Inr (Some v) \<longleftrightarrow>
    as_current st = Some v \<and> cd_size cd v \<le> max_state_bytes \<and> wf_view cd (as_project st) v \<and> distinct (map ag_id (av_reservations v))"
  by (auto simp: read_state_def bind_result_eq_Inr validate_iff split: option.splits if_splits)

lemma read_state_None: "read_state cd st = Inr None \<longleftrightarrow> as_current st = None"
  by (auto simp: read_state_def bind_result_def split: option.splits sum.splits)

text \<open>The effect of each operation: it keeps the current plan, or replaces it by one of three successors.\<close>

definition fresh_view :: "allocation_codec \<Rightarrow> allocation_proposal \<Rightarrow> allocation_view" where
  "fresh_view cd p = \<lparr>av_proposal = p, av_digest = cd_digest cd p, av_status = AllocDraft, av_reviewed_at = None, av_reservations = []\<rparr>"

definition reviewed_view :: "string \<Rightarrow> bool \<Rightarrow> allocation_view \<Rightarrow> allocation_view" where
  "reviewed_view now approve v = v\<lparr>av_status := (if approve then AllocApproved else AllocRevoked), av_reviewed_at := Some now\<rparr>"

definition next_grant :: "uuid \<Rightarrow> string \<Rightarrow> string \<Rightarrow> nat \<Rightarrow> allocation_view \<Rightarrow> allocation_entry \<Rightarrow> allocation_grant" where
  "next_grant new_id now schedule requested v e = \<lparr>ag_id = new_id, ag_plan_id = ap_id (av_proposal v), ag_schedule_id = schedule,
      ag_created_at = now, ag_candidate = en_candidate e, ag_duration_secs = min requested (ap_per_run_secs (av_proposal v))\<rparr>"

definition granted_view :: "allocation_grant \<Rightarrow> allocation_view \<Rightarrow> allocation_view" where
  "granted_view g v = v\<lparr>av_reservations := av_reservations v @ [g]\<rparr>"

lemma write_stateD:
  "write_state w v st = (st', r) \<Longrightarrow>
     as_project st' = as_project st \<and> (as_current st' = as_current st \<or> as_current st' = Some v)
     \<and> (is_ok r \<longrightarrow> as_current st' = Some v)"
  by (cases w) (auto simp: write_state_def)

lemma archive_stateD:
  "archive_state w v st = (st', r) \<Longrightarrow> as_project st' = as_project st \<and> as_current st' = as_current st"
  by (cases w) (auto simp: archive_state_def)

lemma retire_previousD:
  "retire_previous io prev st = (st', r) \<Longrightarrow> as_project st' = as_project st \<and> as_current st' = as_current st
     \<and> (is_ok r \<longrightarrow> (\<forall>v. prev = Some v \<longrightarrow> av_status v = AllocRevoked))"
  by (auto simp: retire_previous_def split: option.splits if_splits dest: archive_stateD)

lemma propose_effect:
  assumes "as_current (fst (propose cd io p st)) \<noteq> as_current st"
  shows "as_current (fst (propose cd io p st)) = Some (fresh_view cd p)
    \<and> validate cd (as_project st) (fresh_view cd p) = Inr ()
    \<and> (\<forall>v. as_current st = Some v \<longrightarrow> av_status v = AllocRevoked)"
proof -
  obtain prev where rd: "read_state cd st = Inr prev" "io_lock io = None"
    using assms by (auto simp: propose_def split: option.splits sum.splits)
  obtain st1 res where ar: "retire_previous io prev st = (st1, res)" by fastforce
  have keep: "as_current st1 = as_current st" "as_project st1 = as_project st" using retire_previousD [OF ar] by auto
  have eq: "propose cd io p st = (case res of Inl e \<Rightarrow> (st1, Inl e)
      | Inr _ \<Rightarrow> (case validate cd (as_project st1) (fresh_view cd p) of
                 Inl e \<Rightarrow> (st1, Inl e)
               | Inr _ \<Rightarrow> (case write_state (io_write io) (fresh_view cd p) st1 of
                    (st2, Inl e) \<Rightarrow> (st2, Inl e)
                  | (st2, Inr _) \<Rightarrow> (st2, Inr (fresh_view cd p)))))"
    using rd ar unfolding propose_def fresh_view_def Let_def by (simp split: sum.split)
  obtain u u' where ok: "res = Inr u" "validate cd (as_project st1) (fresh_view cd p) = Inr u'"
    using assms eq keep by (auto split: sum.splits)
  have cur: "as_current (fst (propose cd io p st)) = Some (fresh_view cd p)"
    using assms eq ok keep by (auto split: prod.splits sum.splits dest!: write_stateD)
  have rev: "\<forall>v. as_current st = Some v \<longrightarrow> av_status v = AllocRevoked"
  proof (intro allI impI)
    fix v assume "as_current st = Some v"
    then have "prev = Some v" using rd(1) read_state_None [of cd st] read_state_Some [of cd st] by (cases prev) auto
    with retire_previousD [OF ar] ok(1) show "av_status v = AllocRevoked" by simp
  qed
  show ?thesis using cur ok(2) rev keep by simp
qed

lemma propose_project [simp]: "as_project (fst (propose cd io p st)) = as_project st"
  by (auto simp: propose_def Let_def split: option.split sum.split prod.split dest!: write_stateD retire_previousD)

lemma review_effect:
  assumes "as_current (fst (review cd io now pid digest approve st)) \<noteq> as_current st"
  obtains v where "as_current st = Some v" "wf_view cd (as_project st) v" "distinct (map ag_id (av_reservations v))"
    "ap_id (av_proposal v) = pid" "av_digest v = digest" "approve \<longrightarrow> av_status v = AllocDraft"
    "as_current (fst (review cd io now pid digest approve st)) = Some (reviewed_view now approve v)"
proof -
  from assms obtain v where rd: "io_lock io = None" "read_state cd st = Inr (Some v)" "ap_id (av_proposal v) = pid" "av_digest v = digest"
    "approve \<longrightarrow> av_status v = AllocDraft"
    by (auto simp: review_def split: option.splits sum.splits if_splits)
  obtain st2 r where w: "write_state (io_write io) (reviewed_view now approve v) st = (st2, r)" by fastforce
  have "fst (review cd io now pid digest approve st) = st2"
    using rd w by (simp add: review_def reviewed_view_def Let_def split: sum.split)
  with assms write_stateD [OF w] have "as_current (fst (review cd io now pid digest approve st)) = Some (reviewed_view now approve v)" by auto
  with rd show ?thesis by (auto simp: read_state_Some intro: that)
qed

lemma review_project [simp]: "as_project (fst (review cd io now pid digest approve st)) = as_project st"
  by (auto simp: review_def Let_def split: option.split sum.split prod.split dest!: write_stateD)

lemma reserve_locked_effect:
  assumes "as_current (fst (reserve_locked cd enabled io new_id now schedule cs requested st)) \<noteq> as_current st
    \<or> snd (reserve_locked cd enabled io new_id now schedule cs requested st) = Inr (Some g')"
  obtains v e where "as_current st = Some v" "cd_size cd v \<le> max_state_bytes" "wf_view cd (as_project st) v" "distinct (map ag_id (av_reservations v))"
    "av_status v = AllocApproved" "requested \<noteq> 0"
    "find (has_allowance cs v) (rotation (length (av_reservations v)) (ap_entries (av_proposal v))) = Some e"
    "as_current (fst (reserve_locked cd enabled io new_id now schedule cs requested st)) = Some (granted_view (next_grant new_id now schedule requested v e) v)"
    "snd (reserve_locked cd enabled io new_id now schedule cs requested st) = Inr (Some g') \<longrightarrow> g' = next_grant new_id now schedule requested v e"
proof -
  from assms obtain v e where rd: "read_state cd st = Inr (Some v)" "enabled" "av_status v = AllocApproved"
    "\<not> (schedule = [] \<or> utf8_len schedule > 1024 \<or> requested = 0)"
    "find (has_allowance cs v) (rotation (length (av_reservations v)) (ap_entries (av_proposal v))) = Some e"
    by (auto simp: reserve_locked_def Let_def split: option.splits sum.splits if_splits)
  obtain st2 r where w: "write_state (io_write io) (granted_view (next_grant new_id now schedule requested v e) v) st = (st2, r)" by fastforce
  have eq: "reserve_locked cd enabled io new_id now schedule cs requested st =
      (st2, case r of Inl e \<Rightarrow> Inl e | Inr _ \<Rightarrow> Inr (Some (next_grant new_id now schedule requested v e)))"
    using rd w by (simp add: reserve_locked_def granted_view_def next_grant_def Let_def split: sum.split)
  have cur: "as_current st2 = Some (granted_view (next_grant new_id now schedule requested v e) v)"
    using assms write_stateD [OF w] unfolding eq by (cases r) auto
  have res: "snd (reserve_locked cd enabled io new_id now schedule cs requested st) = Inr (Some g') \<longrightarrow> g' = next_grant new_id now schedule requested v e"
    unfolding eq by (auto split: sum.splits)
  show ?thesis using rd cur res eq by (auto simp: read_state_Some intro!: that)
qed

lemma alloc_reserve_cases: "reserve cd enabled io new_id now schedule cs requested seen st =
    reserve_locked cd enabled io new_id now schedule cs requested st
  \<or> (\<exists>r. reserve cd enabled io new_id now schedule cs requested seen st = (st, r) \<and> (\<forall>g. r \<noteq> Inr (Some g)))"
  by (auto simp: reserve_def split: option.splits sum.splits)

lemma reserve_locked_project: "as_project (fst (reserve_locked cd enabled io new_id now schedule cs requested st)) = as_project st"
  by (auto simp: reserve_locked_def Let_def split: option.split sum.split prod.split dest!: write_stateD)

lemma reserve_project [simp]: "as_project (fst (reserve cd enabled io new_id now schedule cs requested seen st)) = as_project st"
  using alloc_reserve_cases [of cd enabled io new_id now schedule cs requested seen st] reserve_locked_project by auto

lemma alloc_step_project [simp]: "as_project (alloc_step cd st e) = as_project st"
  by (cases e) simp_all

lemma alloc_run_project [simp]: "as_project (alloc_run cd st es) = as_project st"
  by (induction es arbitrary: st) simp_all

section \<open>Accounting of grants\<close>

lemma count_one: "distinct (map f xs) \<Longrightarrow> c \<in> f ` set xs \<Longrightarrow> (\<Sum>x\<leftarrow>xs. if f x = c then 1 else 0 :: nat) = 1"
proof (induction xs)
  case (Cons x xs)
  show ?case
  proof (cases "f x = c")
    case True
    then have "\<forall>y\<in>set xs. f y \<noteq> c" using Cons.prems(1) by (auto simp: image_iff)
    then have "(\<Sum>x\<leftarrow>xs. if f x = c then 1 else 0 :: nat) = 0" by (induction xs) auto
    with True show ?thesis by simp
  next
    case False
    with Cons show ?thesis by auto
  qed
qed simp

text \<open>Every grant belongs to exactly one entry.\<close>

lemma grants_partition:
  assumes "distinct (map en_candidate es)" "\<forall>g\<in>set gs. ag_candidate g \<in> en_candidate ` set es"
  shows "length gs = (\<Sum>e\<leftarrow>es. length (grants_for (en_candidate e) gs))"
  using assms(2)
proof (induction gs)
  case Nil
  show ?case by (simp add: grants_for_def sum_list_triv)
next
  case (Cons g gs)
  have "(\<Sum>e\<leftarrow>es. length (grants_for (en_candidate e) (g # gs)))
      = (\<Sum>e\<leftarrow>es. (if en_candidate e = ag_candidate g then 1 else 0) + length (grants_for (en_candidate e) gs))"
    by (rule arg_cong [where f = sum_list], rule map_cong) (auto simp: grants_for_def)
  also have "\<dots> = 1 + (\<Sum>e\<leftarrow>es. length (grants_for (en_candidate e) gs))"
    using count_one [OF assms(1), of "ag_candidate g"] Cons.prems by (simp add: sum_list_addf)
  finally show ?case using Cons by simp
qed

lemma sum_list_less:
  "(\<And>x. x \<in> set xs \<Longrightarrow> f x \<le> (g x :: nat)) \<Longrightarrow> y \<in> set xs \<Longrightarrow> f y < g y \<Longrightarrow> sum_list (map f xs) < sum_list (map g xs)"
proof (induction xs)
  case (Cons x xs)
  show ?case
  proof (cases "y = x")
    case True
    have "sum_list (map f xs) \<le> sum_list (map g xs)" using Cons.prems(1) by (intro sum_list_mono) simp
    with True Cons.prems(3) show ?thesis by simp
  next
    case False
    then have "sum_list (map f xs) < sum_list (map g xs)" using Cons by simp
    with Cons.prems(1) [of x] show ?thesis by simp
  qed
qed simp

lemma rotation_set: "set (rotation n xs) = set xs"
proof -
  have "(\<lambda>k. (n + k) mod length xs) ` {0..<length xs} = {0..<length xs}"
  proof (cases "xs = []")
    case False
    then have l: "0 < length xs" by simp
    have "\<exists>k\<in>{0..<length xs}. j = (n + k) mod length xs" if "j < length xs" for j
    proof
      have "n mod length xs < length xs" "n = length xs * (n div length xs) + n mod length xs" using l by simp_all
      then have "n + (j + (length xs - n mod length xs)) = j + length xs * (n div length xs + 1)"
        unfolding distrib_left mult_1_right by linarith
      then have "(n + (j + (length xs - n mod length xs))) mod length xs = j" using that by (simp only: mod_mult_self2 mod_less)
      then show "j = (n + (j + (length xs - n mod length xs)) mod length xs) mod length xs" by (simp add: mod_add_right_eq)
    qed (use l in simp)
    then show ?thesis using l by (auto simp: image_iff)
  qed simp
  then have "(\<lambda>k. xs ! ((n + k) mod length xs)) ` {0..<length xs} = (!) xs ` {0..<length xs}"
    by (metis image_image)
  then show ?thesis by (simp add: rotation_def nth_image flip: atLeastLessThan_upt)
qed

lemma wf_viewD:
  assumes "wf_view cd pr v"
  shows "distinct (map en_candidate (ap_entries (av_proposal v)))"
    and "length (av_reservations v) = (\<Sum>e\<leftarrow>ap_entries (av_proposal v). length (grants_for (en_candidate e) (av_reservations v)))"
    and "sum_list (map en_max_runs (ap_entries (av_proposal v))) = ap_max_runs (av_proposal v)"
    and "e \<in> set (ap_entries (av_proposal v)) \<Longrightarrow> length (grants_for (en_candidate e) (av_reservations v)) \<le> en_max_runs e"
proof -
  have d: "distinct (map ac_harness_id (map en_candidate (ap_entries (av_proposal v))))" using assms by (simp add: wf_view_def)
  then show c: "distinct (map en_candidate (ap_entries (av_proposal v)))" using distinct_map by blast
  have "\<forall>g\<in>set (av_reservations v). ag_candidate g \<in> en_candidate ` set (ap_entries (av_proposal v))"
    using assms unfolding wf_view_def list_all_iff grant_ok_def list_ex_iff by (metis image_eqI)
  with c show "length (av_reservations v) = (\<Sum>e\<leftarrow>ap_entries (av_proposal v). length (grants_for (en_candidate e) (av_reservations v)))"
    by (rule grants_partition)
  show "sum_list (map en_max_runs (ap_entries (av_proposal v))) = ap_max_runs (av_proposal v)"
    using assms by (simp add: wf_view_def accounting_ok_def Let_def)
  show "e \<in> set (ap_entries (av_proposal v)) \<Longrightarrow> length (grants_for (en_candidate e) (av_reservations v)) \<le> en_max_runs e"
    using assms by (auto simp: wf_view_def list_all_iff entry_ok_def)
qed

lemma wf_granted:
  assumes wf: "wf_view cd pr v" and e: "e \<in> set (ap_entries (av_proposal v))" and al: "has_allowance cs v e" and rq: "requested \<noteq> 0"
  shows "wf_view cd pr (granted_view (next_grant new_id now schedule requested v e) v)"
proof -
  let ?g = "next_grant new_id now schedule requested v e" and ?es = "ap_entries (av_proposal v)"
  have lt: "length (grants_for (en_candidate e) (av_reservations v)) < en_max_runs e" using al by (simp add: has_allowance_def)
  have per: "0 < ap_per_run_secs (av_proposal v)" using wf by (simp add: wf_view_def accounting_ok_def Let_def)
  have "(\<Sum>e\<leftarrow>?es. length (grants_for (en_candidate e) (av_reservations v))) < (\<Sum>e\<leftarrow>?es. en_max_runs e)"
    using wf_viewD(4) [OF wf] e lt by (rule sum_list_less)
  then have room: "length (av_reservations v) < ap_max_runs (av_proposal v)"
    using wf_viewD(2,3) [OF wf] by simp
  have acc: "accounting_ok cd pr (granted_view ?g v)"
    using wf room by (simp add: wf_view_def accounting_ok_def granted_view_def Let_def)
  have "entry_ok (granted_view ?g v) x" if "x \<in> set ?es" for x
  proof (cases "en_candidate x = en_candidate e")
    case True
    then have "x = e" using wf_viewD(1) [OF wf] that e by (metis distinct_map inj_onD)
    with wf that lt show ?thesis
      by (auto simp: wf_view_def list_all_iff entry_ok_def granted_view_def grants_for_def next_grant_def)
  next
    case False
    with wf that show ?thesis
      by (auto simp: wf_view_def list_all_iff entry_ok_def granted_view_def grants_for_def next_grant_def)
  qed
  moreover have "grant_ok (av_proposal v) ?g"
    using e rq per by (auto simp: grant_ok_def next_grant_def list_ex_iff)
  ultimately show ?thesis using wf acc by (simp add: wf_view_def granted_view_def list_all_iff)
qed

lemma find_allowance: "find (has_allowance cs v) (rotation n es) = Some e \<Longrightarrow> e \<in> set es \<and> has_allowance cs v e"
  using find_Some_iff_first [of "has_allowance cs v" "rotation n es" e] rotation_set [of n es] by auto

lemma wf_reviewed: "wf_view cd pr v \<Longrightarrow> wf_view cd pr (reviewed_view now approve v)"
  by (simp add: wf_view_def reviewed_view_def accounting_ok_def entry_ok_def list_all_iff)

text \<open>The invariant of the store: the current plan is well formed, and a draft has no grants.\<close>

definition alloc_inv :: "allocation_codec \<Rightarrow> allocation_store \<Rightarrow> bool" where
  "alloc_inv cd st = (case as_current st of None \<Rightarrow> True
     | Some v \<Rightarrow> wf_view cd (as_project st) v \<and> (av_status v = AllocDraft \<longrightarrow> av_reservations v = []))"

lemma alloc_inv_keep: "as_current st' = as_current st \<Longrightarrow> as_project st' = as_project st \<Longrightarrow> alloc_inv cd st' = alloc_inv cd st"
  by (simp add: alloc_inv_def split: option.split)

lemma alloc_reserve_inv:
  assumes "alloc_inv cd st"
  shows "alloc_inv cd (fst (reserve cd enabled io new_id now schedule cs requested seen st))"
proof (cases "as_current (fst (reserve_locked cd enabled io new_id now schedule cs requested st)) = as_current st")
  case True
  then have "alloc_inv cd (fst (reserve_locked cd enabled io new_id now schedule cs requested st))"
    using assms alloc_inv_keep [OF True reserve_locked_project] by simp
  then show ?thesis using alloc_reserve_cases [of cd enabled io new_id now schedule cs requested seen st] assms by auto
next
  case False
  obtain v e where v: "as_current st = Some v" "cd_size cd v \<le> max_state_bytes" "wf_view cd (as_project st) v" "distinct (map ag_id (av_reservations v))"
    "av_status v = AllocApproved" "requested \<noteq> 0"
    "find (has_allowance cs v) (rotation (length (av_reservations v)) (ap_entries (av_proposal v))) = Some e"
    "as_current (fst (reserve_locked cd enabled io new_id now schedule cs requested st)) = Some (granted_view (next_grant new_id now schedule requested v e) v)"
    by (rule reserve_locked_effect [OF disjI1 [OF False]])
  have "wf_view cd (as_project st) (granted_view (next_grant new_id now schedule requested v e) v)"
    using wf_granted [OF v(3) _ _ v(6)] find_allowance [OF v(7)] by blast
  then have "alloc_inv cd (fst (reserve_locked cd enabled io new_id now schedule cs requested st))"
    using v(5,8) by (simp add: alloc_inv_def reserve_locked_project) (simp add: granted_view_def)
  then show ?thesis using alloc_reserve_cases [of cd enabled io new_id now schedule cs requested seen st] assms by auto
qed

lemma alloc_step_inv:
  assumes "alloc_inv cd st"
  shows "alloc_inv cd (alloc_step cd st e)"
proof (cases e)
  case (ProposeEvent io p)
  show ?thesis
  proof (cases "as_current (fst (propose cd io p st)) = as_current st")
    case True
    from assms ProposeEvent show ?thesis by (simp add: alloc_inv_keep [OF True propose_project])
  next
    case False
    from propose_effect [OF this] ProposeEvent show ?thesis by (simp add: alloc_inv_def validate_iff) (simp add: fresh_view_def)
  qed
next
  case (ReviewEvent io now pid digest approve)
  show ?thesis
  proof (cases "as_current (fst (review cd io now pid digest approve st)) = as_current st")
    case True
    from assms ReviewEvent show ?thesis by (simp add: alloc_inv_keep [OF True review_project])
  next
    case False
    then show ?thesis by (rule review_effect) (simp add: ReviewEvent alloc_inv_def wf_reviewed, simp add: reviewed_view_def)
  qed
qed (simp add: assms alloc_reserve_inv)

interpretation alloc_machine: invariant_machine "alloc_step cd" "alloc_inv cd" for cd
  by unfold_locales (rule alloc_step_inv)

section \<open>Properties of the store\<close>

lemma reviewed_view_simps [simp]:
  "av_proposal (reviewed_view now a v) = av_proposal v" "av_reservations (reviewed_view now a v) = av_reservations v"
  "av_digest (reviewed_view now a v) = av_digest v" "av_status (reviewed_view now a v) = (if a then AllocApproved else AllocRevoked)"
  by (simp_all add: reviewed_view_def)

lemma granted_view_simps [simp]:
  "av_proposal (granted_view g v) = av_proposal v" "av_reservations (granted_view g v) = av_reservations v @ [g]"
  "av_status (granted_view g v) = av_status v" "av_digest (granted_view g v) = av_digest v"
  by (simp_all add: granted_view_def)

lemma fresh_view_simps [simp]:
  "av_proposal (fresh_view cd p) = p" "av_reservations (fresh_view cd p) = []" "av_status (fresh_view cd p) = AllocDraft"
  by (simp_all add: fresh_view_def)

lemma reserve_effect:
  assumes "as_current (fst (reserve cd enabled io new_id now schedule cs requested seen st)) \<noteq> as_current st"
  obtains v e where "as_current st = Some v" "av_status v = AllocApproved" "e \<in> set (ap_entries (av_proposal v))"
    "has_allowance cs v e" "distinct (map ag_id (av_reservations v))"
    "as_current (fst (reserve cd enabled io new_id now schedule cs requested seen st))
       = Some (granted_view (next_grant new_id now schedule requested v e) v)"
proof -
  have eq: "reserve cd enabled io new_id now schedule cs requested seen st = reserve_locked cd enabled io new_id now schedule cs requested st"
    using assms alloc_reserve_cases [of cd enabled io new_id now schedule cs requested seen st] by auto
  obtain v e where "as_current st = Some v" "av_status v = AllocApproved" "distinct (map ag_id (av_reservations v))"
    "find (has_allowance cs v) (rotation (length (av_reservations v)) (ap_entries (av_proposal v))) = Some e"
    "as_current (fst (reserve_locked cd enabled io new_id now schedule cs requested st)) = Some (granted_view (next_grant new_id now schedule requested v e) v)"
    by (rule reserve_locked_effect [OF disjI1 [OF assms [unfolded eq]]])
  note v = this
  show ?thesis using find_allowance [OF v(4)] v(1-3,5) eq by (intro that [of v e]) simp_all
qed

lemma reserve_step_effect:
  assumes "as_current (alloc_step cd s (ReserveEvent enabled io new_id now schedule cs requested seen)) \<noteq> as_current s"
  shows "\<exists>w x. as_current s = Some w \<and> av_status w = AllocApproved
    \<and> as_current (alloc_step cd s (ReserveEvent enabled io new_id now schedule cs requested seen))
        = Some (granted_view (next_grant new_id now schedule requested w x) w)"
  using assms unfolding alloc_step.simps by (rule reserve_effect) blast

text \<open>The approval of the stored plan: some event reviewed exactly this plan, by its id and the digest
  of its content, while it was a draft without grants, and it was not reviewed again since.\<close>

definition approved_in :: "allocation_codec \<Rightarrow> allocation_store \<Rightarrow> alloc_event list \<Rightarrow> allocation_proposal \<Rightarrow> bool" where
  "approved_in cd st es p \<longleftrightarrow> (\<exists>es1 io now es2 v1.
     es = es1 @ ReviewEvent io now (ap_id p) (cd_digest cd p) True # es2
     \<and> as_current (alloc_run cd st es1) = Some v1 \<and> av_proposal v1 = p \<and> av_status v1 = AllocDraft \<and> av_reservations v1 = [])"

lemma approved_in_snoc: "approved_in cd st es p \<Longrightarrow> approved_in cd st (es @ [e]) p"
  unfolding approved_in_def by (metis append.assoc append_Cons)

lemma approval_traced:
  assumes "as_current st = None" "as_current (alloc_run cd st es) = Some v" "av_status v = AllocApproved \<or> av_reservations v \<noteq> []"
  shows "approved_in cd st es (av_proposal v)"
  using assms(2,3)
proof (induction es arbitrary: v rule: rev_induct)
  case Nil
  with assms(1) show ?case by simp
next
  case (snoc e es)
  let ?s = "alloc_run cd st es"
  have inv: "alloc_inv cd ?s" unfolding alloc_run_def
    by (rule alloc_machine.run_inv) (simp add: alloc_inv_def assms(1))
  show ?case
  proof (cases "as_current (alloc_step cd ?s e) = as_current ?s")
    case True
    then show ?thesis using snoc by (auto intro!: approved_in_snoc)
  next
    case changed: False
    show ?thesis
    proof (cases e)
      case (ProposeEvent io p)
      then show ?thesis using propose_effect [of cd io p ?s] changed snoc.prems by auto
    next
      case (ReviewEvent io now pid digest approve)
      then obtain w where w: "as_current ?s = Some w" "wf_view cd (as_project ?s) w" "ap_id (av_proposal w) = pid" "av_digest w = digest"
        "approve \<longrightarrow> av_status w = AllocDraft"
        "as_current (alloc_step cd ?s e) = Some (reviewed_view now approve w)"
        using changed review_effect [of cd io now pid digest approve ?s] by auto
      show ?thesis
      proof (cases approve)
        case True
        have d: "cd_digest cd (av_proposal w) = digest" using w(2,4) by (simp add: wf_view_def accounting_ok_def Let_def)
        have "av_reservations w = []" using inv w True by (simp add: alloc_inv_def)
        moreover have "es @ [e] = es @ ReviewEvent io now (ap_id (av_proposal w)) (cd_digest cd (av_proposal w)) True # []"
          using ReviewEvent w(3) d True by simp
        ultimately have "approved_in cd st (es @ [e]) (av_proposal w)" using w(1,5) True unfolding approved_in_def by blast
        then show ?thesis using snoc.prems(1) w(6) by auto
      next
        case False
        then have "av_reservations w \<noteq> []" using snoc.prems w(6) by auto
        then show ?thesis using snoc.IH [OF w(1)] snoc.prems(1) w(6) by (auto simp: approved_in_snoc)
      qed
    next
      case (ReserveEvent enabled io new_id now schedule cs requested seen)
      then obtain w x where "as_current ?s = Some w" "av_status w = AllocApproved"
        "as_current (alloc_step cd ?s e) = Some (granted_view (next_grant new_id now schedule requested w x) w)"
        using reserve_step_effect changed by metis
      then show ?thesis using snoc.IH [of w] snoc.prems(1) by (auto simp: approved_in_snoc)
    qed
  qed
qed

text \<open>C19. However proposals, reviews and reservations of any processes interleave, with locks that are
  busy and writes that fail or are not synced, the current plan stays inside what was reviewed: its
  grants number at most \<^verbatim>\<open>max_runs\<close>, each entry's at most its share, every grant is for an
  entry of the plan and for 1 to \<^verbatim>\<open>per_run_secs\<close> seconds, all grants together request at most
  \<^verbatim>\<open>max_total_secs\<close>, and a plan has grants only if an earlier review approved exactly this plan, by
  its id and the digest of its content, while it was still a draft.\<close>

theorem allocation_within_review:
  assumes "as_current st = None" "as_current (alloc_run cd st es) = Some v"
  shows "length (av_reservations v) \<le> ap_max_runs (av_proposal v)
    \<and> list_all (\<lambda>e. length (grants_for (en_candidate e) (av_reservations v)) \<le> en_max_runs e) (ap_entries (av_proposal v))
    \<and> list_all (\<lambda>g. 0 < ag_duration_secs g \<and> ag_duration_secs g \<le> ap_per_run_secs (av_proposal v)
         \<and> ag_candidate g \<in> en_candidate ` set (ap_entries (av_proposal v))) (av_reservations v)
    \<and> (\<Sum>g\<leftarrow>av_reservations v. ag_duration_secs g) \<le> ap_max_total_secs (av_proposal v)
    \<and> (av_reservations v = [] \<or> approved_in cd st es (av_proposal v))"
proof -
  let ?p = "av_proposal v"
  have "alloc_inv cd (alloc_run cd st es)" unfolding alloc_run_def
    by (rule alloc_machine.run_inv) (simp add: alloc_inv_def assms(1))
  then have wf: "wf_view cd (as_project st) v" using assms(2) by (simp add: alloc_inv_def)
  then have acc: "length (av_reservations v) \<le> ap_max_runs ?p" "ap_max_total_secs ?p div ap_max_runs ?p = ap_per_run_secs ?p"
    by (simp_all add: wf_view_def accounting_ok_def Let_def)
  have grants: "list_all (\<lambda>g. 0 < ag_duration_secs g \<and> ag_duration_secs g \<le> ap_per_run_secs ?p
      \<and> ag_candidate g \<in> en_candidate ` set (ap_entries ?p)) (av_reservations v)"
    using wf unfolding wf_view_def list_all_iff grant_ok_def list_ex_iff by (metis bot_nat_0.not_eq_extremum image_eqI not_le)
  then have "(\<Sum>g\<leftarrow>av_reservations v. ag_duration_secs g) \<le> (\<Sum>g\<leftarrow>av_reservations v. ap_per_run_secs ?p)"
    by (intro sum_list_mono) (simp add: list_all_iff)
  also have "\<dots> \<le> ap_max_runs ?p * (ap_max_total_secs ?p div ap_max_runs ?p)" using acc by (simp add: sum_list_triv)
  also have "\<dots> \<le> ap_max_total_secs ?p" by simp
  finally show ?thesis using acc(1) grants wf_viewD(4) [OF wf] approval_traced [OF assms] by (auto simp: list_all_iff)
qed

fun grant_ids :: "alloc_event list \<Rightarrow> uuid list" where
  "grant_ids [] = []"
| "grant_ids (ReserveEvent enabled io new_id now schedule cs requested seen # es) = new_id # grant_ids es"
| "grant_ids (_ # es) = grant_ids es"

lemma grant_ids_append [simp]: "grant_ids (es @ es') = grant_ids es @ grant_ids es'"
  by (induction es rule: grant_ids.induct) simp_all

lemma stored_ids:
  assumes "as_current st = None" "distinct (grant_ids es)" "as_current (alloc_run cd st es) = Some v"
  shows "distinct (map ag_id (av_reservations v)) \<and> set (map ag_id (av_reservations v)) \<subseteq> set (grant_ids es)"
  using assms(2,3)
proof (induction es arbitrary: v rule: rev_induct)
  case Nil
  with assms(1) show ?case by simp
next
  case (snoc e es)
  let ?s = "alloc_run cd st es"
  show ?case
  proof (cases "as_current (alloc_step cd ?s e) = as_current ?s")
    case True
    then show ?thesis using snoc by auto
  next
    case changed: False
    show ?thesis
    proof (cases e)
      case (ProposeEvent io p)
      then show ?thesis using propose_effect [of cd io p ?s] changed snoc.prems by auto
    next
      case (ReviewEvent io now pid digest approve)
      then obtain w where "as_current ?s = Some w" "as_current (alloc_step cd ?s e) = Some (reviewed_view now approve w)"
        using changed review_effect [of cd io now pid digest approve ?s] by auto
      then show ?thesis using snoc by auto
    next
      case (ReserveEvent enabled io new_id now schedule cs requested seen)
      then obtain w x where "as_current ?s = Some w"
        "as_current (alloc_step cd ?s e) = Some (granted_view (next_grant new_id now schedule requested w x) w)"
        using reserve_step_effect changed by metis
      then show ?thesis using snoc ReserveEvent by (fastforce simp: next_grant_def)
    qed
  qed
qed

text \<open>C21. No operation writes a state that the reader refuses, as long as the generated grant ids do not
  collide: after any events on a new project, reading returns the current plan, validated, and fails
  only when the encoded file is larger than 16 MiB.\<close>

theorem allocation_state_readable:
  assumes "as_current st = None" "distinct (grant_ids es)"
  shows "read_state cd (alloc_run cd st es) = (case as_current (alloc_run cd st es) of
      Some v \<Rightarrow> if cd_size cd v > max_state_bytes then Inl (invalid ''allocation state exceeds its size limit'') else Inr (Some v)
    | None \<Rightarrow> Inr None)"
proof (cases "as_current (alloc_run cd st es)")
  case None
  then show ?thesis by (simp add: read_state_def)
next
  case (Some v)
  have "alloc_inv cd (alloc_run cd st es)" unfolding alloc_run_def
    by (rule alloc_machine.run_inv) (simp add: alloc_inv_def assms(1))
  then have "wf_view cd (as_project st) v" using Some by (simp add: alloc_inv_def)
  moreover have "distinct (map ag_id (av_reservations v))" using stored_ids [OF assms Some] by simp
  ultimately have "validate cd (as_project st) v = Inr ()" by (simp add: validate_iff)
  then show ?thesis using Some by (simp add: read_state_def)
qed

text \<open>The writer does not apply the size limit of the reader: a state above it can be neither read,
  reviewed (not even revoked), reserved from nor replaced.\<close>

theorem oversized_allocation_wedged:
  assumes "as_current st = Some v" "cd_size cd v > max_state_bytes"
  shows "\<exists>e1 e2 e3 e4. propose cd io p st = (st, Inl e1) \<and> review cd io now pid digest False st = (st, Inl e2)
    \<and> reserve cd enabled io new_id now schedule cs requested st st = (st, Inl e3) \<and> read_state cd st = Inl e4"
  using assms by (cases "io_lock io") (auto simp: propose_def review_def reserve_def read_state_def)

text \<open>Admission is exact: on a readable, approved plan with the lock and the write available, a
  reservation of a schedule for a positive time succeeds exactly when a harness it offers has unused
  runs; offering every harness of the plan it succeeds exactly while fewer than \<^verbatim>\<open>max_runs\<close> grants
  were issued, so no reserved run is ever out of reach.\<close>

theorem reservation_exact:
  assumes "read_state cd st = Inr (Some v)" "av_status v = AllocApproved" "io_lock io = None" "io_write io = Written"
    "schedule \<noteq> []" "utf8_len schedule \<le> 1024" "requested \<noteq> 0"
  shows "((\<exists>g. snd (reserve cd True io new_id now schedule cs requested st st) = Inr (Some g))
      \<longleftrightarrow> (\<exists>e\<in>set (ap_entries (av_proposal v)). en_candidate e \<in> set cs
             \<and> length (grants_for (en_candidate e) (av_reservations v)) < en_max_runs e))
    \<and> (en_candidate ` set (ap_entries (av_proposal v)) \<subseteq> set cs \<longrightarrow>
        ((\<exists>g. snd (reserve cd True io new_id now schedule cs requested st st) = Inr (Some g))
          \<longleftrightarrow> length (av_reservations v) < ap_max_runs (av_proposal v)))"
proof -
  let ?es = "ap_entries (av_proposal v)"
  have wf: "wf_view cd (as_project st) v" using assms(1) by (simp add: read_state_Some)
  have "(\<exists>g. snd (reserve cd True io new_id now schedule cs requested st st) = Inr (Some g))
      \<longleftrightarrow> find (has_allowance cs v) (rotation (length (av_reservations v)) ?es) \<noteq> None"
    using assms by (auto simp: reserve_def reserve_locked_def write_state_def Let_def split: option.split)
  also have "\<dots> \<longleftrightarrow> (\<exists>e\<in>set ?es. has_allowance cs v e)" by (auto simp: find_None_iff rotation_set)
  finally have main: "(\<exists>g. snd (reserve cd True io new_id now schedule cs requested st st) = Inr (Some g))
      \<longleftrightarrow> (\<exists>e\<in>set ?es. has_allowance cs v e)" .
  have "(\<exists>e\<in>set ?es. length (grants_for (en_candidate e) (av_reservations v)) < en_max_runs e)
      \<longleftrightarrow> length (av_reservations v) < ap_max_runs (av_proposal v)"
  proof
    assume "\<exists>e\<in>set ?es. length (grants_for (en_candidate e) (av_reservations v)) < en_max_runs e"
    then have "(\<Sum>e\<leftarrow>?es. length (grants_for (en_candidate e) (av_reservations v))) < (\<Sum>e\<leftarrow>?es. en_max_runs e)"
      using sum_list_less [of ?es "\<lambda>e. length (grants_for (en_candidate e) (av_reservations v))" en_max_runs] wf_viewD(4) [OF wf] by blast
    then show "length (av_reservations v) < ap_max_runs (av_proposal v)" using wf_viewD(2,3) [OF wf] by simp
  next
    assume "length (av_reservations v) < ap_max_runs (av_proposal v)"
    then have "\<not> (\<Sum>e\<leftarrow>?es. en_max_runs e) \<le> (\<Sum>e\<leftarrow>?es. length (grants_for (en_candidate e) (av_reservations v)))"
      using wf_viewD(2,3) [OF wf] by simp
    then show "\<exists>e\<in>set ?es. length (grants_for (en_candidate e) (av_reservations v)) < en_max_runs e"
      using sum_list_mono [of ?es en_max_runs] by (meson not_le)
  qed
  with main show ?thesis by (auto simp: has_allowance_def)
qed

text \<open>Runs under one grant: a sequence of checks made while the grant's scope is active.\<close>

fun granted_runs :: "(string \<Rightarrow> string) \<Rightarrow> grant_execution \<Rightarrow> (granted_harness \<times> nat) list \<Rightarrow> (granted_harness \<times> nat) list" where
  "granted_runs sha x [] = []"
| "granted_runs sha x ((h, d) # rs) = (case verify_granted_harness sha h d (Some x) of
     (Some x', Inr _) \<Rightarrow> (h, d) # granted_runs sha x' rs
   | (Some x', Inl _) \<Rightarrow> granted_runs sha x' rs
   | (None, _) \<Rightarrow> [])"

lemma granted_runs_attempted: "ge_attempted x \<Longrightarrow> granted_runs sha x rs = []"
proof (induction rs arbitrary: x)
  case (Cons r rs)
  then show ?case by (cases r) (simp add: verify_granted_harness_def Let_def)
qed simp

lemma grant_executes_once:
  "length (granted_runs sha (with_grant g) rs) \<le> 1
   \<and> list_all (\<lambda>(h, d). gh_id h = ac_harness_id (ag_candidate g) \<and> sha (gh_source h) = ac_source_sha256 (ag_candidate g)
        \<and> d \<le> ag_duration_secs g) (granted_runs sha (with_grant g) rs)"
proof (induction rs)
  case (Cons r rs)
  obtain h d where r: "r = (h, d)" by fastforce
  show ?case
  proof (cases "snd (verify_granted_harness sha h d (Some (with_grant g)))")
    case (Inr u)
    then have v: "verify_granted_harness sha h d (Some (with_grant g)) = (Some ((with_grant g)\<lparr>ge_attempted := True\<rparr>), Inr ())"
      "ac_harness_id (ag_candidate g) = gh_id h" "ac_source_sha256 (ag_candidate g) = sha (gh_source h)" "d \<le> ag_duration_secs g"
      by (auto simp: verify_granted_harness_def with_grant_def Let_def split: if_splits)
    then show ?thesis by (simp add: r granted_runs_attempted)
  next
    case (Inl e)
    then have "verify_granted_harness sha h d (Some (with_grant g)) = (Some (with_grant g), Inl e)"
      by (auto simp: verify_granted_harness_def with_grant_def Let_def split: if_splits)
    then show ?thesis using Cons r by simp
  qed
qed simp

section \<open>Concrete instances\<close>

definition ex_sha :: string where
  "ex_sha = replicate 64 (CHR ''a'')"

definition ex_candidate :: "string \<Rightarrow> allocation_candidate" where
  "ex_candidate t = \<lparr>ac_target = t, ac_dispatch_target = t, ac_engine = ''libfuzzer'', ac_language = ''c'',
     ac_target_id = t, ac_harness_id = t, ac_source_sha256 = ex_sha\<rparr>"

definition ex_run_item :: "string \<Rightarrow> nat \<Rightarrow> run_history_item" where
  "ex_run_item i e = \<lparr>rh_id = i, rh_target_id = Some ''b'', rh_kind = ''Campaign'', rh_engine = ''libfuzzer'',
      rh_status = ''Done'', rh_started_at = i, rh_comparison_key = Some ''k'', rh_edges = Some e,
      rh_harness_rev = Some ex_sha, rh_binary_rev = Some ex_sha\<rparr>"

definition ex_evidence :: "string \<Rightarrow> nat \<Rightarrow> allocation_evidence" where
  "ex_evidence i e = \<lparr>ae_run_id = i, ae_started_at = i, ae_comparison_key = ''k'', ae_binary_rev = ex_sha, ae_edges = e\<rparr>"

definition ex_entry :: "string \<Rightarrow> nat \<Rightarrow> nat \<Rightarrow> string \<Rightarrow> allocation_evidence list \<Rightarrow> allocation_entry" where
  "ex_entry t w m why ev = \<lparr>en_candidate = ex_candidate t, en_weight = w, en_max_runs = m, en_reason = why, en_evidence = ev\<rparr>"

definition ex_proposal :: allocation_proposal where
  "ex_proposal = \<lparr>ap_schema_version = 1, ap_id = ''plan'', ap_project = ''proj'', ap_created_at = ''now'',
     ap_max_runs = 5, ap_max_total_secs = 17, ap_per_run_secs = 3, ap_unallocated_secs = 2,
     ap_entries = [ex_entry ''a'' 1 2 ''Two comparable retained runs are unavailable; equal service'' [],
                   ex_entry ''b'' 2 3 ''Recent comparable runs gained edges'' [ex_evidence ''1'' 100, ex_evidence ''2'' 140]]\<rparr>"

definition ex_codec :: allocation_codec where
  "ex_codec = \<lparr>cd_digest = (\<lambda>p. ''d''), cd_size = (\<lambda>v. 1000)\<rparr>"

definition ex_io :: allocation_io where
  "ex_io = \<lparr>io_lock = None, io_archive = Written, io_write = Written\<rparr>"

definition ex_store :: allocation_store where
  "ex_store = \<lparr>as_project = ''proj'', as_current = None, as_archive = []\<rparr>"

lemma ex_sha_hex: "utf8_len ex_sha = 64" "list_all is_ascii_hexdigit ex_sha"
  by (simp_all add: ex_sha_def utf8_len_def list_all_iff is_ascii_hexdigit_def is_ascii_digit_def char_code_def sum_list_replicate)

lemma ex_self_comparable: "comparison_reason (ex_run_item i e) (ex_run_item j f) = Comparable"
  by (simp add: comparison_reason_def ex_run_item_def setup_matches_def setup_key_def digest_changed_def hex_digest_def ex_sha_hex)

lemma ex_matches: "matches_candidate (ex_candidate t) (ex_run_item i e) \<longleftrightarrow> t = ''b''"
proof -
  have "engine_from_str ''libfuzzer'' = Inr LibFuzzer" using engine_roundtrip [of LibFuzzer] by simp
  then show ?thesis using ex_self_comparable [of i e i e] by (auto simp: matches_candidate_def ex_candidate_def ex_run_item_def)
qed

lemma ex_comparable_evidence:
  "comparable_evidence (ex_candidate ''a'') [ex_run_item ''1'' 100, ex_run_item ''2'' 140] = []"
  "comparable_evidence (ex_candidate ''b'') [ex_run_item ''1'' 100, ex_run_item ''2'' 140] = [ex_evidence ''1'' 100, ex_evidence ''2'' 140]"
proof -
  have k: "(\<lambda>r. (rh_started_at r, rh_id r)) (ex_run_item i e) = (i, i)" for i e by (simp add: ex_run_item_def)
  have "sort_desc (\<lambda>r. (rh_started_at r, rh_id r)) [ex_run_item ''1'' 100, ex_run_item ''2'' 140] = [ex_run_item ''2'' 140, ex_run_item ''1'' 100]"
    by (simp add: sort_desc_def k)
  moreover have "evidence_of (ex_run_item i e) = Some (ex_evidence i e)" for i e
    by (simp add: evidence_of_def ex_run_item_def ex_evidence_def)
  ultimately show "comparable_evidence (ex_candidate ''a'') [ex_run_item ''1'' 100, ex_run_item ''2'' 140] = []"
    "comparable_evidence (ex_candidate ''b'') [ex_run_item ''1'' 100, ex_run_item ''2'' 140] = [ex_evidence ''1'' 100, ex_evidence ''2'' 140]"
    by (simp_all add: comparable_evidence_def ex_matches ex_self_comparable map_filter_simps Let_def) (simp add: sort_desc_def)
qed

lemma ex_proposal_made: "make_proposal ''plan'' ''now'' ''proj'' [ex_candidate ''b'', ex_candidate ''a''] [ex_run_item ''1'' 100, ex_run_item ''2'' 140] 5 17 = Inr ex_proposal"
proof -
  have "sort_key (\<lambda>c. (ac_target c, ac_engine c)) [ex_candidate ''b'', ex_candidate ''a''] = [ex_candidate ''a'', ex_candidate ''b'']"
    by (simp add: ex_candidate_def)
  moreover have "proposal_entry [ex_run_item ''1'' 100, ex_run_item ''2'' 140] (ex_candidate ''a'')
      = ex_entry ''a'' 1 1 ''Two comparable retained runs are unavailable; equal service'' []"
    "proposal_entry [ex_run_item ''1'' 100, ex_run_item ''2'' 140] (ex_candidate ''b'')
      = ex_entry ''b'' 2 1 ''Recent comparable runs gained edges'' [ex_evidence ''1'' 100, ex_evidence ''2'' 140]"
    by (simp_all add: proposal_entry_def ex_comparable_evidence ex_entry_def) (simp_all add: ex_evidence_def)
  moreover have "weight_cycle [ex_entry ''a'' 1 1 r [], ex_entry ''b'' 2 1 r' ev] = [0, 1, 1]" for r r' ev
    by (simp add: weight_cycle_def ex_entry_def upt_rec numeral_2_eq_2)
  moreover have "cycle_take 3 [0, 1, 1 :: nat] = [0, 1, 1]" by (simp add: cycle_take_def upt_rec)
  moreover have "\<not> repeated_slot [ex_candidate ''a'', ex_candidate ''b'']" by (simp add: same_slot_def ex_candidate_def)
  ultimately show ?thesis
    by (simp add: make_proposal_def max_allocation_secs_def Let_def ex_proposal_def add_run_def) (simp add: ex_entry_def)
qed

theorem allocation_apportioned_witness:
  "map (\<lambda>e. (ac_harness_id (en_candidate e), en_weight e, en_max_runs e)) (ap_entries ex_proposal) = [(''a'', 1, 2), (''b'', 2, 3)]
   \<and> sum_list (map en_max_runs (ap_entries ex_proposal)) = 5 \<and> 5 * ap_per_run_secs ex_proposal + ap_unallocated_secs ex_proposal = 17"
proof -
  have "map (\<lambda>e. (ac_harness_id (en_candidate e), en_weight e, en_max_runs e)) (ap_entries ex_proposal) = [(''a'', 1, 2), (''b'', 2, 3)]"
    by (simp add: ex_proposal_def ex_entry_def ex_candidate_def)
  then show ?thesis using allocation_apportioned [OF ex_proposal_made] by simp
qed

text \<open>A proposal, its approval and a reservation.\<close>

definition ex_grant :: allocation_grant where
  "ex_grant = \<lparr>ag_id = ''g'', ag_plan_id = ''plan'', ag_schedule_id = ''sched'', ag_created_at = ''t'',
     ag_candidate = ex_candidate ''b'', ag_duration_secs = 3\<rparr>"

definition ex_view :: "allocation_status \<Rightarrow> string option \<Rightarrow> allocation_grant list \<Rightarrow> allocation_view" where
  "ex_view s r gs = \<lparr>av_proposal = ex_proposal, av_digest = ''d'', av_status = s, av_reviewed_at = r, av_reservations = gs\<rparr>"

definition ex_state :: "allocation_view \<Rightarrow> allocation_store" where
  "ex_state v = \<lparr>as_project = ''proj'', as_current = Some v, as_archive = []\<rparr>"

definition ex_events :: "alloc_event list" where
  "ex_events = [ProposeEvent ex_io ex_proposal, ReviewEvent ex_io ''t'' ''plan'' ''d'' True,
     ReserveEvent True ex_io ''g'' ''t'' ''sched'' [ex_candidate ''b''] 9 (ex_state (ex_view AllocDraft None []))]"

lemma ex_distinct_candidates: "ex_candidate ''a'' \<noteq> ex_candidate ''b''" "ex_candidate ''b'' \<noteq> ex_candidate ''a''"
  by (simp_all add: ex_candidate_def)

lemma ex_validate: "gs = [] \<or> gs = [ex_grant] \<Longrightarrow> validate ex_codec ''proj'' (ex_view s r gs) = Inr ()"
  by (auto simp: validate_def accounting_ok_def entry_ok_def grant_ok_def ex_view_def ex_codec_def ex_proposal_def ex_entry_def
      max_allocation_secs_def Let_def grants_for_def hex_sha256_def ex_grant_def ex_distinct_candidates)
    (simp_all add: ex_candidate_def ex_sha_hex)

lemma ex_read: "gs = [] \<or> gs = [ex_grant] \<Longrightarrow> read_state ex_codec (ex_state (ex_view s r gs)) = Inr (Some (ex_view s r gs))"
  by (simp add: read_state_def ex_state_def ex_validate) (simp add: ex_codec_def max_state_bytes_def)

lemma ex_steps:
  "alloc_step ex_codec ex_store (ProposeEvent ex_io ex_proposal) = ex_state (ex_view AllocDraft None [])"
  "alloc_step ex_codec (ex_state (ex_view AllocDraft None [])) (ReviewEvent ex_io ''t'' ''plan'' ''d'' True)
     = ex_state (ex_view AllocApproved (Some ''t'') [])"
  "alloc_step ex_codec (ex_state (ex_view AllocApproved (Some ''t'') []))
     (ReserveEvent True ex_io ''g'' ''t'' ''sched'' [ex_candidate ''b''] 9 (ex_state (ex_view AllocDraft None [])))
     = ex_state (ex_view AllocApproved (Some ''t'') [ex_grant])"
proof -
  have v: "\<lparr>av_proposal = ex_proposal, av_digest = cd_digest ex_codec ex_proposal, av_status = AllocDraft, av_reviewed_at = None, av_reservations = []\<rparr>
      = ex_view AllocDraft None []" by (simp add: ex_view_def ex_codec_def)
  show "alloc_step ex_codec ex_store (ProposeEvent ex_io ex_proposal) = ex_state (ex_view AllocDraft None [])"
    by (simp add: propose_def ex_io_def ex_store_def read_state_def retire_previous_def write_state_def Let_def v ex_validate) (simp add: ex_state_def)
  show "alloc_step ex_codec (ex_state (ex_view AllocDraft None [])) (ReviewEvent ex_io ''t'' ''plan'' ''d'' True)
     = ex_state (ex_view AllocApproved (Some ''t'') [])"
    by (simp add: review_def ex_io_def ex_read write_state_def Let_def) (simp add: ex_state_def ex_view_def ex_proposal_def)
  have "rotation 0 (ap_entries ex_proposal) = ap_entries ex_proposal"
    by (simp add: rotation_def ex_proposal_def upt_rec numeral_2_eq_2)
  moreover have "utf8_len ''sched'' \<le> 1024" by (simp add: utf8_len_def)
  ultimately show "alloc_step ex_codec (ex_state (ex_view AllocApproved (Some ''t'') []))
     (ReserveEvent True ex_io ''g'' ''t'' ''sched'' [ex_candidate ''b''] 9 (ex_state (ex_view AllocDraft None [])))
     = ex_state (ex_view AllocApproved (Some ''t'') [ex_grant])"
    by (simp add: reserve_def reserve_locked_def ex_io_def ex_read write_state_def Let_def)
      (simp add: ex_view_def ex_state_def ex_proposal_def has_allowance_def ex_entry_def ex_distinct_candidates grants_for_def ex_grant_def write_state_def Let_def)
qed

lemma ex_run: "alloc_run ex_codec ex_store ex_events = ex_state (ex_view AllocApproved (Some ''t'') [ex_grant])"
  by (simp add: ex_events_def ex_steps del: alloc_step.simps)

theorem allocation_within_review_witness:
  "alloc_run ex_codec ex_store ex_events = ex_state (ex_view AllocApproved (Some ''t'') [ex_grant])
     \<and> approved_in ex_codec ex_store ex_events ex_proposal \<and> ag_duration_secs ex_grant \<le> ap_max_total_secs ex_proposal"
proof -
  have "as_current (alloc_run ex_codec ex_store ex_events) = Some (ex_view AllocApproved (Some ''t'') [ex_grant])"
    by (simp add: ex_run ex_state_def)
  moreover have "as_current ex_store = None" by (simp add: ex_store_def)
  ultimately show ?thesis using allocation_within_review [of ex_store ex_codec ex_events "ex_view AllocApproved (Some ''t'') [ex_grant]"]
    unfolding ex_run by (simp add: ex_view_def)
qed

theorem allocation_state_readable_witness:
  "read_state ex_codec (alloc_run ex_codec ex_store ex_events) = Inr (Some (ex_view AllocApproved (Some ''t'') [ex_grant]))"
proof -
  have "distinct (grant_ids ex_events)" "as_current ex_store = None" by (simp_all add: ex_events_def ex_store_def)
  then show ?thesis using allocation_state_readable [of ex_store ex_events ex_codec]
    by (simp add: ex_run) (simp add: ex_state_def ex_codec_def max_state_bytes_def)
qed

theorem reservation_exact_witness:
  "(\<exists>g. snd (reserve ex_codec True ex_io ''g2'' ''t'' ''sched'' [ex_candidate ''a'', ex_candidate ''b''] 9
        (alloc_run ex_codec ex_store ex_events) (alloc_run ex_codec ex_store ex_events)) = Inr (Some g))
   \<and> (\<nexists>g. snd (reserve ex_codec True ex_io ''g2'' ''t'' ''sched'' [] 9
        (alloc_run ex_codec ex_store ex_events) (alloc_run ex_codec ex_store ex_events)) = Inr (Some g))"
proof -
  let ?v = "ex_view AllocApproved (Some ''t'') [ex_grant]"
  have "utf8_len ''sched'' \<le> 1024" by (simp add: utf8_len_def)
  then have "io_lock ex_io = None" "io_write ex_io = Written" "''sched'' \<noteq> []" "utf8_len ''sched'' \<le> 1024" "(9 :: nat) \<noteq> 0"
    by (simp_all add: ex_io_def)
  note ex = reservation_exact [OF ex_read [OF disjI2 [OF refl]] _ this, of AllocApproved "Some ''t''" "''g2''" "''t''"]
  have "length (av_reservations ?v) < ap_max_runs (av_proposal ?v)" by (simp add: ex_view_def ex_proposal_def)
  moreover have "en_candidate ` set (ap_entries (av_proposal ?v)) \<subseteq> set [ex_candidate ''a'', ex_candidate ''b'']"
    by (simp add: ex_view_def ex_proposal_def ex_entry_def)
  moreover have "av_status ?v = AllocApproved" by (simp add: ex_view_def)
  ultimately show ?thesis unfolding ex_run using ex [of "[ex_candidate ''a'', ex_candidate ''b'']"] ex [of "[]"] by fastforce
qed

end
