(* ===== verification/Campaign_State.thy ===== *)
theory Campaign_State
  imports Campaign_Allocation
begin

text \<open>
  Runtime state of scheduled campaigns, \<^verbatim>\<open>crates/hf-service/src/campaign_state.rs\<close>: the progress of
  each campaign in a JSON sidecar, the registry of campaigns whose fire is in progress, and the
  concurrency gate. The sidecar is kept twice, in memory and on disk, because a write may fail
  before the file is replaced, or after it was replaced but not synced; memory changes only when the
  write succeeds. The counters are naturals with the wrap-around of \<^verbatim>\<open>u64\<close> and the saturation of
  \<^verbatim>\<open>u32\<close> and \<^verbatim>\<open>u64\<close> written out. The gate is modelled at the level of its atomic loads and its
  compare-and-exchange, as an inductive step relation over any number of threads.
\<close>

section \<open>The sidecar\<close>

record campaign_runtime_state =
  cr_cursor :: nat
  cr_runs_done :: nat
  cr_secs_done :: nat

definition runtime_default :: campaign_runtime_state where
  "runtime_default = \<lparr>cr_cursor = 0, cr_runs_done = 0, cr_secs_done = 0\<rparr>"

record persisted =
  pe_max_concurrent :: nat
  pe_states :: "string \<Rightarrow> campaign_runtime_state option"

definition default_max_concurrent :: nat where
  "default_max_concurrent = 2"

definition persisted_default :: persisted where
  "persisted_default = \<lparr>pe_max_concurrent = default_max_concurrent, pe_states = (\<lambda>_. None)\<rparr>"

datatype state_file_error =
    SfIo string string | SfDecode string | SfEncode string | SfConflict | SfRetired string

text \<open>What is on disk: no file, a file that does not decode, or a value.\<close>

datatype sidecar = NoFile | Unreadable state_file_error | Sidecar persisted

record campaign_state_store =
  cs_disk :: sidecar
  cs_inner :: persisted
  cs_dispatching :: "string list"

definition read_json_file :: "sidecar \<Rightarrow> (state_file_error, persisted option) result" where
  "read_json_file d = (case d of NoFile \<Rightarrow> Inr None | Unreadable e \<Rightarrow> Inl e | Sidecar p \<Rightarrow> Inr (Some p))"

definition try_load :: "sidecar \<Rightarrow> (state_file_error, campaign_state_store) result" where
  "try_load d = bind_result (read_json_file d) (\<lambda>p.
     Inr \<lparr>cs_disk = d, cs_inner = (case p of None \<Rightarrow> persisted_default | Some q \<Rightarrow> q), cs_dispatching = []\<rparr>)"

text \<open>The registry of dispatching campaigns: an insertion of a present id is refused; the permit's
  \<^verbatim>\<open>Drop\<close> removes it.\<close>

definition try_dispatch :: "string \<Rightarrow> campaign_state_store \<Rightarrow> campaign_state_store option" where
  "try_dispatch i st = (if i \<in> set (cs_dispatching st) then None else Some (st\<lparr>cs_dispatching := i # cs_dispatching st\<rparr>))"

definition drop_dispatch :: "string \<Rightarrow> campaign_state_store \<Rightarrow> campaign_state_store" where
  "drop_dispatch i st = st\<lparr>cs_dispatching := removeAll i (cs_dispatching st)\<rparr>"

definition snapshot :: "string \<Rightarrow> campaign_state_store \<Rightarrow> campaign_runtime_state" where
  "snapshot i st = (case pe_states (cs_inner st) i of None \<Rightarrow> runtime_default | Some s \<Rightarrow> s)"

text \<open>\<^verbatim>\<open>atomic_write_json\<close> of a candidate, then the candidate becomes the state in memory.\<close>

definition write_candidate :: "write_outcome \<Rightarrow> persisted \<Rightarrow> campaign_state_store \<Rightarrow> campaign_state_store \<times> (state_file_error, unit) result" where
  "write_candidate w p st = (case w of
     Written \<Rightarrow> (st\<lparr>cs_disk := Sidecar p, cs_inner := p\<rparr>, Inr ())
   | NotWritten m \<Rightarrow> (st, Inl (SfIo ''replace'' m))
   | WrittenUnsynced m \<Rightarrow> (st\<lparr>cs_disk := Sidecar p\<rparr>, Inl (SfIo ''sync parent directory for'' m)))"

definition charge :: "nat \<Rightarrow> nat \<Rightarrow> campaign_runtime_state \<Rightarrow> campaign_runtime_state" where
  "charge iterations secs s =
     \<lparr>cr_cursor = (cr_cursor s + 1) mod 2 ^ 64,
      cr_runs_done = min u32_max (cr_runs_done s + min u32_max iterations),
      cr_secs_done = sat_add_u64 (cr_secs_done s) secs\<rparr>"

definition record_success ::
  "write_outcome \<Rightarrow> string \<Rightarrow> nat \<Rightarrow> nat \<Rightarrow> campaign_state_store \<Rightarrow> campaign_state_store \<times> (state_file_error, campaign_runtime_state) result" where
  "record_success w i iterations secs st =
     (let s = charge iterations secs (snapshot i st);
          candidate = (cs_inner st)\<lparr>pe_states := (pe_states (cs_inner st))(i \<mapsto> s)\<rparr> in
      case write_candidate w candidate st of (st', r) \<Rightarrow> (st', bind_result r (\<lambda>_. Inr s)))"

definition advance_cursor ::
  "write_outcome \<Rightarrow> string \<Rightarrow> campaign_state_store \<Rightarrow> campaign_state_store \<times> (state_file_error, campaign_runtime_state) result" where
  "advance_cursor w i st =
     (let s = (snapshot i st)\<lparr>cr_cursor := (cr_cursor (snapshot i st) + 1) mod 2 ^ 64\<rparr>;
          candidate = (cs_inner st)\<lparr>pe_states := (pe_states (cs_inner st))(i \<mapsto> s)\<rparr> in
      case write_candidate w candidate st of (st', r) \<Rightarrow> (st', bind_result r (\<lambda>_. Inr s)))"

definition try_forget :: "write_outcome \<Rightarrow> string \<Rightarrow> campaign_state_store \<Rightarrow> campaign_state_store \<times> (state_file_error, unit) result" where
  "try_forget w i st =
     (if pe_states (cs_inner st) i = None then (st, Inr ())
      else write_candidate w ((cs_inner st)\<lparr>pe_states := (pe_states (cs_inner st))(i := None)\<rparr>) st)"

definition max_concurrent :: "campaign_state_store \<Rightarrow> nat" where
  "max_concurrent st = max (pe_max_concurrent (cs_inner st)) 1"

definition try_set_max_concurrent :: "write_outcome \<Rightarrow> nat \<Rightarrow> campaign_state_store \<Rightarrow> campaign_state_store \<times> (state_file_error, unit) result" where
  "try_set_max_concurrent w n st = write_candidate w ((cs_inner st)\<lparr>pe_max_concurrent := max n 1\<rparr>) st"

subsection \<open>Lemmas\<close>

lemma write_candidateD:
  "write_candidate w p st = (st', r) \<Longrightarrow> cs_dispatching st' = cs_dispatching st
     \<and> (cs_inner st' = cs_inner st \<and> \<not> is_ok r \<or> cs_inner st' = p \<and> cs_disk st' = Sidecar p \<and> r = Inr ())
     \<and> (cs_disk st' = cs_disk st \<or> cs_disk st' = Sidecar p)"
  by (cases w) (auto simp: write_candidate_def)

text \<open>A failed operation leaves the state in memory alone, a successful one is on disk.\<close>

lemma record_success_ok:
  "record_success w i n t st = (st', Inr s) \<Longrightarrow>
     s = charge n t (snapshot i st) \<and> snapshot i st' = s \<and> (\<forall>j. j \<noteq> i \<longrightarrow> snapshot j st' = snapshot j st)
     \<and> cs_disk st' = Sidecar (cs_inner st') \<and> cs_dispatching st' = cs_dispatching st"
  by (auto simp: record_success_def Let_def snapshot_def bind_result_eq_Inr split: prod.splits dest!: write_candidateD)

lemma record_success_err:
  "record_success w i n t st = (st', Inl e) \<Longrightarrow> cs_inner st' = cs_inner st \<and> cs_dispatching st' = cs_dispatching st"
  by (cases w) (auto simp: record_success_def Let_def write_candidate_def)

lemma advance_cursor_ok:
  "advance_cursor w i st = (st', Inr s) \<Longrightarrow>
     s = (snapshot i st)\<lparr>cr_cursor := (cr_cursor (snapshot i st) + 1) mod 2 ^ 64\<rparr> \<and> snapshot i st' = s
     \<and> (\<forall>j. j \<noteq> i \<longrightarrow> snapshot j st' = snapshot j st) \<and> cs_disk st' = Sidecar (cs_inner st') \<and> cs_dispatching st' = cs_dispatching st"
  by (auto simp: advance_cursor_def Let_def snapshot_def bind_result_eq_Inr split: prod.splits dest!: write_candidateD)

lemma advance_cursor_err:
  "advance_cursor w i st = (st', Inl e) \<Longrightarrow> cs_inner st' = cs_inner st \<and> cs_dispatching st' = cs_dispatching st"
  by (cases w) (auto simp: advance_cursor_def Let_def write_candidate_def)

text \<open>What was recorded is there after a restart.\<close>

lemma recorded_survives_restart:
  assumes "record_success w i n t st = (st', Inr s)"
  shows "\<exists>st''. try_load (cs_disk st') = Inr st'' \<and> snapshot i st'' = s \<and> cs_dispatching st'' = []"
  using record_success_ok [OF assms] by (simp add: try_load_def read_json_file_def snapshot_def)

section \<open>The concurrency gate\<close>

text \<open>A thread in \<^verbatim>\<open>try_enter\<close>: about to load \<^verbatim>\<open>running\<close>, after that load, and after the comparison with
  the limit; or refused, or holding a permit. The loop goes back to the load when the exchange fails.\<close>

datatype enter_pc = EnterIdle | EnterLoaded nat | EnterChecked nat | EnterRefused | EnterHolding

record concurrency_gate =
  gt_running :: nat
  gt_limit :: nat
  gt_threads :: "enter_pc list"

definition gate_new :: "nat \<Rightarrow> nat \<Rightarrow> concurrency_gate" where
  "gate_new limit threads = \<lparr>gt_running = 0, gt_limit = max limit 1, gt_threads = replicate threads EnterIdle\<rparr>"

definition gate_in_flight :: "concurrency_gate \<Rightarrow> nat" where
  "gate_in_flight g = gt_running g"

inductive gate_step :: "concurrency_gate \<Rightarrow> concurrency_gate \<Rightarrow> bool" where
  load: "t < length (gt_threads g) \<Longrightarrow> gt_threads g ! t = EnterIdle \<Longrightarrow>
    gate_step g (g\<lparr>gt_threads := (gt_threads g)[t := EnterLoaded (gt_running g)]\<rparr>)"
| full: "t < length (gt_threads g) \<Longrightarrow> gt_threads g ! t = EnterLoaded cur \<Longrightarrow> cur \<ge> gt_limit g \<Longrightarrow>
    gate_step g (g\<lparr>gt_threads := (gt_threads g)[t := EnterRefused]\<rparr>)"
| free: "t < length (gt_threads g) \<Longrightarrow> gt_threads g ! t = EnterLoaded cur \<Longrightarrow> cur < gt_limit g \<Longrightarrow>
    gate_step g (g\<lparr>gt_threads := (gt_threads g)[t := EnterChecked cur]\<rparr>)"
| exchange: "t < length (gt_threads g) \<Longrightarrow> gt_threads g ! t = EnterChecked cur \<Longrightarrow> gt_running g = cur \<Longrightarrow>
    gate_step g (g\<lparr>gt_running := cur + 1, gt_threads := (gt_threads g)[t := EnterHolding]\<rparr>)"
| lost: "t < length (gt_threads g) \<Longrightarrow> gt_threads g ! t = EnterChecked cur \<Longrightarrow> gt_running g \<noteq> cur \<Longrightarrow>
    gate_step g (g\<lparr>gt_threads := (gt_threads g)[t := EnterIdle]\<rparr>)"
| release: "t < length (gt_threads g) \<Longrightarrow> gt_threads g ! t = EnterHolding \<Longrightarrow>
    gate_step g (g\<lparr>gt_running := gt_running g - 1, gt_threads := (gt_threads g)[t := EnterIdle]\<rparr>)"
| again: "t < length (gt_threads g) \<Longrightarrow> gt_threads g ! t = EnterRefused \<Longrightarrow>
    gate_step g (g\<lparr>gt_threads := (gt_threads g)[t := EnterIdle]\<rparr>)"
| resize: "gate_step g (g\<lparr>gt_limit := max n 1\<rparr>)"

inductive_cases gate_stepE: "gate_step g g'"

text \<open>Runs in which every limit that was set is at most \<open>b\<close>.\<close>

inductive gate_reaches :: "nat \<Rightarrow> concurrency_gate \<Rightarrow> concurrency_gate \<Rightarrow> bool" for b where
  refl: "gt_limit g \<le> b \<Longrightarrow> gate_reaches b g g"
| step: "gate_reaches b g g' \<Longrightarrow> gate_step g' g'' \<Longrightarrow> gt_limit g'' \<le> b \<Longrightarrow> gate_reaches b g g''"

definition holders :: "enter_pc list \<Rightarrow> nat" where
  "holders ts = count_list ts EnterHolding"

lemma count_list_update:
  "t < length ts \<Longrightarrow> count_list (ts[t := x]) y = (count_list ts y + (if x = y then 1 else 0)) - (if ts ! t = y then 1 else 0)"
proof (induction ts arbitrary: t)
  case (Cons a ts)
  show ?case
  proof (cases t)
    case (Suc k)
    with Cons have ih: "count_list (ts[k := x]) y = (count_list ts y + (if x = y then 1 else 0)) - (if ts ! k = y then 1 else 0)" by simp
    have "ts ! k = y \<Longrightarrow> 0 < count_list ts y" using Cons.prems Suc by (metis count_list_0_iff length_Cons less_Suc_eq_le not_less_eq nth_mem zero_less_iff_neq_zero Suc_less_eq)
    with ih Suc show ?thesis by auto
  qed auto
qed simp

definition gate_ok :: "nat \<Rightarrow> concurrency_gate \<Rightarrow> bool" where
  "gate_ok b g \<longleftrightarrow> gt_running g = holders (gt_threads g) \<and> gt_running g \<le> b
     \<and> (\<forall>t<length (gt_threads g). \<forall>cur. gt_threads g ! t = EnterChecked cur \<longrightarrow> cur < b)"

lemma holding_counts: "t < length ts \<Longrightarrow> ts ! t = EnterHolding \<Longrightarrow> 0 < holders ts"
  unfolding holders_def by (metis count_list_0_iff nth_mem zero_less_iff_neq_zero)

lemma gate_ok_step: "gate_step g g' \<Longrightarrow> gate_ok b g \<Longrightarrow> gt_limit g \<le> b \<Longrightarrow> gate_ok b g'"
proof (induction rule: gate_step.induct)
  case (exchange t g cur)
  then show ?case by (auto simp: gate_ok_def holders_def count_list_update nth_list_update)
next
  case (release t g)
  then show ?case using holding_counts [of t "gt_threads g"]
    by (auto simp: gate_ok_def holders_def count_list_update nth_list_update)
qed (auto simp: gate_ok_def holders_def count_list_update nth_list_update)

text \<open>However many threads race through the gate, and however its limit is resized, the counter is the
  number of permits held, and it never exceeds the largest limit that was set.\<close>

lemma gate_bounds_permits:
  assumes "gate_reaches b (gate_new limit n) g"
  shows "gate_in_flight g = holders (gt_threads g) \<and> holders (gt_threads g) \<le> b"
proof -
  have "gate_ok b g \<and> gt_limit g \<le> b"
    using assms
  proof (induction "gate_new limit n" g rule: gate_reaches.induct)
    case refl
    have "holders (replicate n EnterIdle) = 0" unfolding holders_def by (induction n) simp_all
    with refl show ?case by (simp add: gate_ok_def gate_new_def)
  next
    case (step g' g'')
    then show ?case using gate_ok_step by blast
  qed
  then show ?thesis by (simp add: gate_ok_def gate_in_flight_def)
qed

end
