(* ===== verification/Campaign_Dispatch.thy ===== *)
theory Campaign_Dispatch
  imports Campaign_State Workflow
begin

text \<open>
  The headless campaign dispatcher, \<^verbatim>\<open>FuzzCampaignDispatcher\<close> of \<^verbatim>\<open>crates/hf-service/src/scheduler.rs\<close>, with
  the campaign loop of \<^verbatim>\<open>container/run.rs\<close>, on the campaign state, the gate and the allocations. One
  fire is two steps, because campaigns run concurrently: \<open>dispatch_begin\<close> takes the permits and decides
  what to run, \<open>dispatch_end\<close> records the outcome and drops the permits. What the rest of the service
  answers during a fire (retired identities, promoted targets, the file system, each fuzz run and its
  triage, the clock) is an argument. Notifications, report drafts and log lines have no effect on this
  state and are left out.
\<close>

section \<open>Parameters and targets\<close>

record campaign_params =
  cp_project :: string
  cp_target :: "string option"
  cp_engine :: string
  cp_lang :: string
  cp_duration_secs :: nat
  cp_max_runs :: "nat option"
  cp_max_total_secs :: "nat option"
  cp_schedule_id :: string

definition default_lang :: string where
  "default_lang = language_str LangC"

definition params_default :: campaign_params where
  "params_default = \<lparr>cp_project = [], cp_target = None, cp_engine = [], cp_lang = default_lang, cp_duration_secs = 0,
     cp_max_runs = None, cp_max_total_secs = None, cp_schedule_id = []\<rparr>"

record schedulable_target =
  sg_target :: string
  sg_engine :: string
  sg_language :: string
  sg_fit_score :: f64

text \<open>Highest fit score first, then target, then engine; scores that do not compare count as equal. The
  sort is stable; for finite scores, which discovery produces, the comparison is a total preorder.\<close>

definition target_before :: "schedulable_target \<Rightarrow> schedulable_target \<Rightarrow> bool" where
  "target_before a b \<longleftrightarrow>
     (if f_less (sg_fit_score b) (sg_fit_score a) then True
      else if f_less (sg_fit_score a) (sg_fit_score b) then False
      else (sg_target a, sg_engine a) \<le> (sg_target b, sg_engine b))"

fun insert_target :: "schedulable_target \<Rightarrow> schedulable_target list \<Rightarrow> schedulable_target list" where
  "insert_target x [] = [x]"
| "insert_target x (y # ys) = (if target_before x y then x # y # ys else y # insert_target x ys)"

definition priority_order :: "schedulable_target list \<Rightarrow> schedulable_target list" where
  "priority_order ts = foldr insert_target ts []"

definition rotate_targets :: "schedulable_target list \<Rightarrow> nat \<Rightarrow> schedulable_target option" where
  "rotate_targets ordered cursor = (if ordered = [] then None else Some (ordered ! (cursor mod length ordered)))"

definition run_budget_reason :: "campaign_runtime_state \<Rightarrow> campaign_params \<Rightarrow> string option" where
  "run_budget_reason s p = (case cp_max_runs p of
     Some m \<Rightarrow> if cr_runs_done s \<ge> m then Some (''budget reached: '' @ nat_str m @ '' run(s) completed'') else None
   | None \<Rightarrow> None)"

definition time_budget_reason :: "campaign_runtime_state \<Rightarrow> campaign_params \<Rightarrow> string option" where
  "time_budget_reason s p = (case cp_max_total_secs p of
     Some m \<Rightarrow> if cr_secs_done s \<ge> m
       then Some (''budget reached: '' @ nat_str (cr_secs_done s) @ ''s of the '' @ nat_str m @ ''s fuzzing budget spent'') else None
   | None \<Rightarrow> None)"

definition budget_skip_reason :: "campaign_runtime_state \<Rightarrow> campaign_params \<Rightarrow> string option" where
  "budget_skip_reason s p = (case run_budget_reason s p of Some r \<Rightarrow> Some r | None \<Rightarrow> time_budget_reason s p)"

definition pinned_target :: "campaign_params \<Rightarrow> string option" where
  "pinned_target p = (case cp_target p of Some t \<Rightarrow> if t = [] then None else Some t | None \<Rightarrow> None)"

definition requested_campaign_engine :: "campaign_params \<Rightarrow> (string, engine_kind option) result" where
  "requested_campaign_engine p = (case pinned_target p of
     None \<Rightarrow> Inr None
   | Some _ \<Rightarrow> bind_result (engine_from_str (cp_engine p)) (\<lambda>k. Inr (Some k)))"

definition strip_suffix :: "string \<Rightarrow> string \<Rightarrow> string option" where
  "strip_suffix suffix s = (if ends_with suffix s then Some (take (length s - length suffix) s) else None)"

definition target_matches :: "string \<Rightarrow> string \<Rightarrow> bool" where
  "target_matches candidate requested \<longleftrightarrow> candidate = requested
     \<or> (case strip_suffix requested candidate of Some prefix \<Rightarrow> ends_with ''::'' prefix | None \<Rightarrow> False)"

definition filter_campaign_targets :: "schedulable_target list \<Rightarrow> campaign_params \<Rightarrow> (string, schedulable_target list) result" where
  "filter_campaign_targets all p = bind_result (requested_campaign_engine p) (\<lambda>engine.
     let requested = pinned_target p;
         matched = filter (\<lambda>c. (case requested of None \<Rightarrow> True | Some t \<Rightarrow> target_matches (sg_target c) t)
            \<and> (case engine of None \<Rightarrow> True | Some k \<Rightarrow> sg_engine c = engine_str k)) all in
     Inr (case requested of
        None \<Rightarrow> matched
      | Some t \<Rightarrow> if list_ex (\<lambda>c. sg_target c = t) matched then filter (\<lambda>c. sg_target c = t) matched else matched))"

section \<open>The campaign loop\<close>

datatype command_termination = CommandCompleted | CommandTimedOut | CommandCancelled

datatype stagnation_proposal = NewHarness | CustomMutator | StopFuzzing

text \<open>One iteration as the service answers it: the whole seconds elapsed when it starts, the fuzz run for a
  given duration, and the triage (the number of unique crashes).\<close>

record run_summary =
  rs_termination :: command_termination
  rs_edges :: nat
  rs_hangs :: "nat option"
  rs_stagnation :: "stagnation_proposal option"
  rs_auto_revert :: bool

record campaign_iteration =
  it_elapsed :: nat
  it_run :: "nat \<Rightarrow> (classified_error, run_summary) result"
  it_triage :: "(classified_error, nat) result"

record campaign_run_limits =
  rl_iterations :: nat
  rl_time :: "nat option"

record campaign_progress =
  pg_edges :: nat
  pg_crashes :: nat
  pg_iterations :: nat
  pg_auto_reverts :: nat
  pg_hangs :: "nat option"
  pg_termination :: command_termination
  pg_stagnation :: "stagnation_proposal option"

definition progress_init :: campaign_progress where
  "progress_init = \<lparr>pg_edges = 0, pg_crashes = 0, pg_iterations = 0, pg_auto_reverts = 0, pg_hangs = None,
     pg_termination = CommandCompleted, pg_stagnation = None\<rparr>"

definition absorb_summary :: "run_summary \<Rightarrow> campaign_progress \<Rightarrow> campaign_progress" where
  "absorb_summary r s = s\<lparr>pg_termination := rs_termination r, pg_edges := max (pg_edges s) (rs_edges r),
     pg_hangs := (case rs_hangs r of None \<Rightarrow> pg_hangs s
        | Some v \<Rightarrow> Some (case pg_hangs s of None \<Rightarrow> v | Some acc \<Rightarrow> sat_add_u64 acc v)),
     pg_stagnation := rs_stagnation r,
     pg_auto_reverts := (if rs_auto_revert r then pg_auto_reverts s + 1 else pg_auto_reverts s)\<rparr>"

text \<open>The seconds left for an iteration; \<open>None\<close> ends the loop.\<close>

definition iteration_secs :: "nat option \<Rightarrow> nat \<Rightarrow> nat \<Rightarrow> nat option" where
  "iteration_secs time elapsed duration = (case time of
     None \<Rightarrow> Some duration
   | Some t \<Rightarrow> if t - elapsed = 0 then None else Some (min duration (t - elapsed)))"

function campaign_loop ::
  "campaign_run_limits \<Rightarrow> nat \<Rightarrow> (nat \<Rightarrow> campaign_iteration) \<Rightarrow> campaign_progress \<Rightarrow> (classified_error, campaign_progress) result" where
  "campaign_loop lim duration its s =
     (if \<not> pg_iterations s < rl_iterations lim then Inr s
      else let it = its (pg_iterations s) in
        (case iteration_secs (rl_time lim) (it_elapsed it) duration of
           None \<Rightarrow> Inr s
         | Some secs \<Rightarrow>
             let s1 = s\<lparr>pg_iterations := pg_iterations s + 1\<rparr> in
             (case it_run it secs of
                Inl e \<Rightarrow> Inl e
              | Inr r \<Rightarrow>
                  let s2 = absorb_summary r s1 in
                  if pg_termination s2 = CommandCancelled then Inr s2
                  else (case it_triage it of
                      Inl e \<Rightarrow> Inl e
                    | Inr crashes \<Rightarrow>
                        let s3 = s2\<lparr>pg_crashes := crashes\<rparr> in
                        if crashes > 0 \<or> pg_iterations s3 \<ge> rl_iterations lim then Inr s3
                        else campaign_loop lim duration its s3))))"
  by pat_completeness auto

termination
  by (relation "measure (\<lambda>(lim, duration, its, s). rl_iterations lim - pg_iterations s)") (auto simp: absorb_summary_def)

declare campaign_loop.simps [simp del]

record campaign_outcome =
  co_target :: string
  co_status :: harness_status
  co_crashes :: nat
  co_edges :: nat
  co_iterations :: nat
  co_auto_reverts :: nat
  co_hangs :: "nat option"
  co_termination :: command_termination
  co_refine_attempted :: bool

text \<open>What the service answers before the loop: the resolved run settings (engine and duration), the
  canonical target spelling, the active harness (language and status), the checks of its build inputs and
  the seed generation; and whether the time limit is over after the loop.\<close>

record campaign_setup =
  su_settings :: "(classified_error, engine_kind \<times> nat) result"
  su_target :: "(classified_error, string) result"
  su_harness :: "(classified_error, target_language \<times> harness_status) result"
  su_inputs :: "(classified_error, unit) result"
  su_seeds :: "(classified_error, unit) result"
  su_iterations :: "nat \<Rightarrow> campaign_iteration"
  su_time_over :: bool

definition run_campaign_with_limits ::
  "(target_language \<Rightarrow> string) \<Rightarrow> target_language \<Rightarrow> campaign_run_limits \<Rightarrow> campaign_setup \<Rightarrow> (classified_error, campaign_outcome) result" where
  "run_campaign_with_limits debug lang lim su =
     (if \<not> harnessable lang
      then Inl (ValidationFailure (''harness generation is not yet available for '' @ language_str lang @ '' targets; harnessable languages: '' @ harnessable_ids))
      else bind_result (su_settings su) (\<lambda>(engine, duration).
        bind_result (su_target su) (\<lambda>target.
        bind_result (su_harness su) (\<lambda>(hlang, status).
        if hlang \<noteq> lang \<or> status \<noteq> HarnessPromoted
        then Inl (ValidationFailure (''campaign target '' @ quoted target @ '' needs a smoke-qualified, explicitly promoted '' @ debug lang @ '' harness''))
        else bind_result (su_inputs su) (\<lambda>_. bind_result (su_seeds su) (\<lambda>_.
          bind_result (campaign_loop lim duration (su_iterations su) progress_init) (\<lambda>s.
            Inr \<lparr>co_target = target, co_status = status, co_crashes = pg_crashes s, co_edges = pg_edges s,
                 co_iterations = pg_iterations s, co_auto_reverts = pg_auto_reverts s, co_hangs = pg_hangs s,
                 co_termination = pg_termination s,
                 co_refine_attempted = (\<not> (rl_time lim \<noteq> None \<and> su_time_over su) \<and> pg_crashes s = 0
                   \<and> pg_termination s \<noteq> CommandCancelled \<and> pg_stagnation s = Some NewHarness)\<rparr>)))))))"

lemma absorb_iterations [simp]: "pg_iterations (absorb_summary r s) = pg_iterations s"
  by (simp add: absorb_summary_def)

lemma campaign_loop_bounded:
  "pg_iterations s \<le> rl_iterations lim \<Longrightarrow> campaign_loop lim duration its s = Inr s' \<Longrightarrow>
     pg_iterations s \<le> pg_iterations s' \<and> pg_iterations s' \<le> rl_iterations lim"
proof (induction lim duration its s rule: campaign_loop.induct)
  case (1 lim duration its s)
  show ?case
    using 1(2,3) 1(1) unfolding campaign_loop.simps [of lim duration its s]
    by (fastforce split: if_splits option.splits sum.splits simp: Let_def)
qed

lemma outcome_within_limits:
  assumes "run_campaign_with_limits debug lang lim su = Inr out"
  shows "co_iterations out \<le> rl_iterations lim \<and> co_status out = HarnessPromoted \<and> harnessable lang"
  using assms campaign_loop_bounded [of progress_init lim]
  by (auto simp: run_campaign_with_limits_def bind_result_eq_Inr progress_init_def split: if_splits prod.splits)

section \<open>The dispatcher\<close>

definition skip_result :: "string \<Rightarrow> dispatch_result" where
  "skip_result reason = \<lparr>dr_success = True, dr_skipped = True, dr_summary = ''skipped: '' @ reason,
     dr_output = JObject [(''skipped'', JBool True), (''reason'', JString reason)], dr_duration_ms = 0, dr_error = None\<rparr>"

definition failed_result :: "string \<Rightarrow> nat \<Rightarrow> string \<Rightarrow> dispatch_result" where
  "failed_result summary ms error = \<lparr>dr_success = False, dr_skipped = False, dr_summary = summary, dr_output = JNull,
     dr_duration_ms = ms, dr_error = Some error\<rparr>"

definition budget_note :: "campaign_runtime_state \<Rightarrow> campaign_params \<Rightarrow> string" where
  "budget_note s p = (case cp_max_runs p of
     Some m \<Rightarrow> '' -- '' @ nat_str (cr_runs_done s) @ ''/'' @ nat_str m @ '' runs''
   | None \<Rightarrow> (case cp_max_total_secs p of
       Some m \<Rightarrow> '' -- '' @ nat_str (cr_secs_done s) @ ''/'' @ nat_str m @ ''s''
     | None \<Rightarrow> []))"

text \<open>The shared state: progress, the gate (its counter and limit), the allocation of each project and
  the campaigns asked to pause, newest first.\<close>

record dispatcher =
  dp_state :: campaign_state_store
  dp_running :: nat
  dp_limit :: nat
  dp_allocations :: "string \<Rightarrow> allocation_store"
  dp_paused :: "string list"

text \<open>What one fire receives from the rest of the service before it runs.\<close>

record fire_env =
  fe_identity :: "(string, unit) result"
  fe_codec :: allocation_codec
  fe_enabled :: bool
  fe_io :: allocation_io
  fe_new_id :: uuid
  fe_now :: string
  fe_resolve :: "string \<Rightarrow> (classified_error, uuid) result"
  fe_candidates :: "(classified_error, allocation_candidate list) result"
  fe_seen :: allocation_store
  fe_seen' :: allocation_store
  fe_targets :: "(classified_error, schedulable_target list) result"
  fe_write :: write_outcome

definition resolve_targets :: "fire_env \<Rightarrow> campaign_params \<Rightarrow> (string, schedulable_target list) result" where
  "resolve_targets env p = (case fe_targets env of
     Inl e \<Rightarrow> Inl (classified_display e)
   | Inr all \<Rightarrow> bind_result (filter_campaign_targets all p) (\<lambda>ts. Inr (priority_order ts)))"

definition pause_self :: "string \<Rightarrow> dispatcher \<Rightarrow> dispatcher" where
  "pause_self i d = (if i = [] then d else d\<lparr>dp_paused := i # dp_paused d\<rparr>)"

definition advance_rotation_after_failure :: "write_outcome \<Rightarrow> string \<Rightarrow> dispatcher \<Rightarrow> dispatcher" where
  "advance_rotation_after_failure w i d = d\<lparr>dp_state := fst (advance_cursor w i (dp_state d))\<rparr>"

definition requested_secs :: "campaign_params \<Rightarrow> campaign_runtime_state \<Rightarrow> nat" where
  "requested_secs p s = (case cp_max_total_secs p of
     None \<Rightarrow> cp_duration_secs p | Some m \<Rightarrow> min (cp_duration_secs p) (m - cr_secs_done s))"

definition fire_limits :: "campaign_params \<Rightarrow> campaign_runtime_state \<Rightarrow> allocation_grant option \<Rightarrow> campaign_run_limits" where
  "fire_limits p s grant = \<lparr>
     rl_iterations = (case grant of
        None \<Rightarrow> (case cp_max_runs p of None \<Rightarrow> 3 | Some m \<Rightarrow> min (m - cr_runs_done s) 3)
      | Some _ \<Rightarrow> 1),
     rl_time = map_option (\<lambda>m. m - cr_secs_done s) (cp_max_total_secs p)\<rparr>"

record campaign_fire =
  fi_params :: campaign_params
  fi_state :: campaign_runtime_state
  fi_grant :: "allocation_grant option"
  fi_pick :: schedulable_target
  fi_engine :: engine_kind
  fi_lang :: target_language
  fi_duration_secs :: nat
  fi_limits :: campaign_run_limits

datatype fire_start = Returned "(dispatch_error, dispatch_result) result" | Running campaign_fire

definition grant_target :: "allocation_grant \<Rightarrow> schedulable_target" where
  "grant_target g = \<lparr>sg_target = ac_dispatch_target (ag_candidate g), sg_engine = ac_engine (ag_candidate g),
     sg_language = ac_language (ag_candidate g), sg_fit_score = f_of_nat 1\<rparr>"

text \<open>The choice of a target and its start; \<open>d\<close> is the state without the permits of this fire.\<close>

definition pick_target ::
  "fire_env \<Rightarrow> campaign_params \<Rightarrow> campaign_runtime_state \<Rightarrow> allocation_grant option \<Rightarrow> campaign_state_store \<Rightarrow> dispatcher \<Rightarrow> dispatcher \<times> fire_start" where
  "pick_target env p s grant held d =
     (case (case grant of Some g \<Rightarrow> Inr [grant_target g] | None \<Rightarrow> resolve_targets env p) of
        Inl e \<Rightarrow> (d, Returned (Inr (failed_result ''could not resolve promoted targets'' 0 e)))
      | Inr ts \<Rightarrow> (case rotate_targets ts (cr_cursor s) of
          None \<Rightarrow>
            let hint = (case cp_target p of None \<Rightarrow> ''project has no promoted harness yet''
                  | Some t \<Rightarrow> ''target '' @ quoted t @ '' has no promoted harness'') in
            (d, Returned (Inr (failed_result (''no target to fuzz: '' @ hint) 0 hint)))
        | Some pick \<Rightarrow> (case (engine_from_str (sg_engine pick), language_from_str (sg_language pick)) of
            (Inr engine, Inr lang) \<Rightarrow>
              (d\<lparr>dp_state := held, dp_running := dp_running d + 1\<rparr>,
               Running \<lparr>fi_params = p, fi_state = s, fi_grant = grant, fi_pick = pick, fi_engine = engine, fi_lang = lang,
                 fi_duration_secs = (case grant of None \<Rightarrow> cp_duration_secs p | Some g \<Rightarrow> ag_duration_secs g),
                 fi_limits = fire_limits p s grant\<rparr>)
          | _ \<Rightarrow> (advance_rotation_after_failure (fe_write env) (cp_schedule_id p) d,
                  Returned (Inr (failed_result (''target '' @ quoted (sg_target pick) @ '' has an unparseable engine/lang'') 0
                    (sg_engine pick @ ''/'' @ sg_language pick)))))))"

definition dispatch_begin :: "fire_env \<Rightarrow> campaign_params \<Rightarrow> dispatcher \<Rightarrow> dispatcher \<times> fire_start" where
  "dispatch_begin env p d = (case fe_identity env of
     Inl m \<Rightarrow> (d, Returned (Inl (ExecutionFailed m)))
   | Inr _ \<Rightarrow> (case try_dispatch (cp_schedule_id p) (dp_state d) of
       None \<Rightarrow> (d, Returned (Inr (skip_result ''this campaign already has work in progress'')))
     | Some held \<Rightarrow>
         let s = snapshot (cp_schedule_id p) held in
         (case budget_skip_reason s p of
            Some reason \<Rightarrow> (pause_self (cp_schedule_id p) d, Returned (Inr (skip_result reason)))
          | None \<Rightarrow>
              if dp_running d \<ge> dp_limit d
              then (d, Returned (Inr (skip_result (''max concurrent campaigns reached ('' @ nat_str (dp_limit d) @ '')''))))
              else (case requested_campaign_engine p of
                  Inl e \<Rightarrow> (d, Returned (Inr (skip_result e)))
                | Inr engine \<Rightarrow>
                    (case admit_scheduled_allocation (fe_codec env) (fe_enabled env) (fe_io env) (fe_new_id env) (fe_now env)
                            (fe_resolve env) (fe_candidates env) (cp_target p) engine (cp_schedule_id p) (requested_secs p s)
                            (fe_seen env) (fe_seen' env) (dp_allocations d (cp_project p)) of
                       (al, r) \<Rightarrow>
                         let d1 = d\<lparr>dp_allocations := (dp_allocations d)(cp_project p := al)\<rparr> in
                         (case r of
                            Inl e \<Rightarrow> (d1, Returned (Inr (skip_result (classified_display e))))
                          | Inr grant \<Rightarrow> pick_target env p s grant held d1))))))"

fun termination_json :: "command_termination \<Rightarrow> json" where
  "termination_json CommandCompleted = JString ''completed''"
| "termination_json CommandTimedOut = JString ''timed_out''"
| "termination_json CommandCancelled = JString ''cancelled''"

definition jnat :: "nat \<Rightarrow> json" where
  "jnat n = JNumber (PosInt n)"

definition success_result :: "campaign_params \<Rightarrow> campaign_runtime_state \<Rightarrow> campaign_outcome \<Rightarrow> nat \<Rightarrow> dispatch_result" where
  "success_result p s out ms = \<lparr>dr_success = True, dr_skipped = False,
     dr_summary = nat_str (co_crashes out) @ '' crash(es), '' @ nat_str (co_edges out) @ '' edges over '' @ nat_str (co_iterations out)
       @ '' iteration(s) on '' @ co_target out
       @ (if co_auto_reverts out > 0 then '', '' @ nat_str (co_auto_reverts out) @ '' auto-revert(s)'' else [])
       @ budget_note s p,
     dr_output = JObject [(''target'', JString (co_target out)), (''crashes'', jnat (co_crashes out)), (''edges'', jnat (co_edges out)),
       (''iterations'', jnat (co_iterations out)), (''auto_reverts'', jnat (co_auto_reverts out)),
       (''termination'', termination_json (co_termination out)), (''runs_done'', jnat (cr_runs_done s))],
     dr_duration_ms = ms, dr_error = None\<rparr>"

definition cancelled_result :: "campaign_outcome \<Rightarrow> nat \<Rightarrow> dispatch_result" where
  "cancelled_result out ms = \<lparr>dr_success = False, dr_skipped = False, dr_summary = ''campaign cancelled on '' @ co_target out,
     dr_output = JObject [(''target'', JString (co_target out)), (''edges'', jnat (co_edges out)),
       (''iterations'', jnat (co_iterations out)), (''termination'', termination_json (co_termination out))],
     dr_duration_ms = ms, dr_error = Some ''campaign cancelled''\<rparr>"

text \<open>Dropping the permits of a fire.\<close>

definition release_fire :: "string \<Rightarrow> dispatcher \<Rightarrow> dispatcher" where
  "release_fire i d = d\<lparr>dp_state := drop_dispatch i (dp_state d), dp_running := dp_running d - 1\<rparr>"

text \<open>The end of a fire: \<open>result\<close> is the campaign's, \<open>elapsed\<close> its time in milliseconds; \<open>msg\<close> prints a
  state-file error.\<close>

definition dispatch_end ::
  "(state_file_error \<Rightarrow> string) \<Rightarrow> write_outcome \<Rightarrow> campaign_fire \<Rightarrow> (classified_error, campaign_outcome) result \<Rightarrow> nat
     \<Rightarrow> dispatcher \<Rightarrow> dispatcher \<times> (dispatch_error, dispatch_result) result" where
  "dispatch_end msg w f result elapsed d =
     (let i = cp_schedule_id (fi_params f); ms = min u64_max elapsed;
          (d1, r) = (case result of
             Inr out \<Rightarrow>
               if co_termination out = CommandCancelled then (d, Inr (cancelled_result out ms))
               else (case record_success w i (co_iterations out) (elapsed div 1000) (dp_state d) of
                   (st, Inl e) \<Rightarrow> (d\<lparr>dp_state := st\<rparr>,
                      Inl (InternalDispatch (''campaign completed but progress could not be persisted: '' @ msg e)))
                 | (st, Inr s) \<Rightarrow> (d\<lparr>dp_state := st\<rparr>, Inr (success_result (fi_params f) s out ms)))
           | Inl e \<Rightarrow> (advance_rotation_after_failure w i d,
                Inr (failed_result (''campaign failed on '' @ sg_target (fi_pick f)) ms (classified_display e))))
      in (release_fire i d1, r))"

text \<open>Service start: the sidecar is loaded and the gate takes its limit; resizing the gate persists first.\<close>

definition dispatcher_start :: "(string \<Rightarrow> allocation_store) \<Rightarrow> sidecar \<Rightarrow> (state_file_error, dispatcher) result" where
  "dispatcher_start allocations disk = bind_result (try_load disk) (\<lambda>st.
     Inr \<lparr>dp_state = st, dp_running = 0, dp_limit = max (max_concurrent st) 1, dp_allocations = allocations, dp_paused = []\<rparr>)"

definition set_max_concurrent :: "write_outcome \<Rightarrow> nat \<Rightarrow> dispatcher \<Rightarrow> dispatcher \<times> (state_file_error, unit) result" where
  "set_max_concurrent w n d = (case try_set_max_concurrent w n (dp_state d) of
     (st, Inl e) \<Rightarrow> (d\<lparr>dp_state := st\<rparr>, Inl e)
   | (st, Inr _) \<Rightarrow> (d\<lparr>dp_state := st, dp_limit := max (max_concurrent st) 1\<rparr>, Inr ()))"

section \<open>Concurrent campaigns\<close>

record campaign_system =
  sy_disp :: dispatcher
  sy_fires :: "campaign_fire list"

datatype campaign_event =
    BeginFire fire_env campaign_params
  | EndFire nat campaign_setup nat write_outcome
  | ForgetCampaign write_outcome string
  | ResizeGate write_outcome nat
  | RestartService

definition fire_id :: "campaign_fire \<Rightarrow> string" where
  "fire_id f = cp_schedule_id (fi_params f)"

definition drop_nth :: "nat \<Rightarrow> 'a list \<Rightarrow> 'a list" where
  "drop_nth k xs = take k xs @ drop (Suc k) xs"

definition sys_step ::
  "(state_file_error \<Rightarrow> string) \<Rightarrow> (target_language \<Rightarrow> string) \<Rightarrow> campaign_system \<Rightarrow> campaign_event \<Rightarrow> campaign_system" where
  "sys_step msg debug sys e = (case e of
     BeginFire env p \<Rightarrow> (case dispatch_begin env p (sy_disp sys) of
         (d, Returned _) \<Rightarrow> sys\<lparr>sy_disp := d\<rparr>
       | (d, Running f) \<Rightarrow> sys\<lparr>sy_disp := d, sy_fires := f # sy_fires sys\<rparr>)
   | EndFire k su elapsed w \<Rightarrow>
       if k < length (sy_fires sys)
       then let f = sy_fires sys ! k in
            sys\<lparr>sy_disp := fst (dispatch_end msg w f (run_campaign_with_limits debug (fi_lang f) (fi_limits f) su) elapsed (sy_disp sys)),
                sy_fires := drop_nth k (sy_fires sys)\<rparr>
       else sys
   | ForgetCampaign w i \<Rightarrow> sys\<lparr>sy_disp := (sy_disp sys)\<lparr>dp_state := fst (try_forget w i (dp_state (sy_disp sys)))\<rparr>\<rparr>
   | ResizeGate w n \<Rightarrow> sys\<lparr>sy_disp := fst (set_max_concurrent w n (sy_disp sys))\<rparr>
   | RestartService \<Rightarrow> (case dispatcher_start (dp_allocations (sy_disp sys)) (cs_disk (dp_state (sy_disp sys))) of
         Inl _ \<Rightarrow> sys
       | Inr d \<Rightarrow> \<lparr>sy_disp = d, sy_fires = []\<rparr>))"

definition sys_run ::
  "(state_file_error \<Rightarrow> string) \<Rightarrow> (target_language \<Rightarrow> string) \<Rightarrow> campaign_system \<Rightarrow> campaign_event list \<Rightarrow> campaign_system" where
  "sys_run msg debug sys es = foldl (sys_step msg debug) sys es"

subsection \<open>Runs charged to a campaign\<close>

definition persisted_runs :: "string \<Rightarrow> persisted \<Rightarrow> nat" where
  "persisted_runs i p = (case pe_states p i of None \<Rightarrow> 0 | Some s \<Rightarrow> cr_runs_done s)"

definition disk_runs :: "string \<Rightarrow> sidecar \<Rightarrow> nat" where
  "disk_runs i d = (case d of Sidecar p \<Rightarrow> persisted_runs i p | _ \<Rightarrow> 0)"

definition runs_ok :: "string \<Rightarrow> nat \<Rightarrow> campaign_state_store \<Rightarrow> bool" where
  "runs_ok i m st \<longleftrightarrow> persisted_runs i (cs_inner st) \<le> m \<and> disk_runs i (cs_disk st) \<le> m"

lemma snapshot_runs: "cr_runs_done (snapshot i st) = persisted_runs i (cs_inner st)"
  by (simp add: snapshot_def persisted_runs_def runtime_default_def split: option.split)

lemma write_candidate_runs:
  assumes "write_candidate w p st = (st', r)" "runs_ok i m st" "persisted_runs i p \<le> m"
  shows "runs_ok i m st'"
  using assms by (cases w) (auto simp: write_candidate_def runs_ok_def disk_runs_def)

lemma charged_runs: "cr_runs_done (charge n t s) \<le> cr_runs_done s + n"
  by (simp add: charge_def)

lemma updated_runs:
  "persisted_runs i (p\<lparr>pe_states := (pe_states p)(j \<mapsto> s)\<rparr>) = (if i = j then cr_runs_done s else persisted_runs i p)"
  by (simp add: persisted_runs_def)

lemma record_success_runs:
  assumes "record_success w j n t st = (st', r)" "runs_ok i m st" "j = i \<longrightarrow> persisted_runs i (cs_inner st) + n \<le> m"
  shows "runs_ok i m st' \<and> cs_dispatching st' = cs_dispatching st \<and> (j \<noteq> i \<longrightarrow> persisted_runs i (cs_inner st') = persisted_runs i (cs_inner st))"
proof -
  let ?s = "charge n t (snapshot j st)"
  let ?p = "(cs_inner st)\<lparr>pe_states := (pe_states (cs_inner st))(j \<mapsto> ?s)\<rparr>"
  obtain r' where w: "write_candidate w ?p st = (st', r')"
    using assms(1) by (auto simp: record_success_def Let_def split: prod.splits)
  have p: "persisted_runs i ?p \<le> m" "j \<noteq> i \<longrightarrow> persisted_runs i ?p = persisted_runs i (cs_inner st)"
    using assms(2,3) charged_runs [of n t "snapshot j st"] unfolding updated_runs by (auto simp: runs_ok_def snapshot_runs)
  show ?thesis using write_candidate_runs [OF w assms(2) p(1)] write_candidateD [OF w] p(2) by auto
qed

lemma advance_cursor_runs:
  assumes "advance_cursor w j st = (st', r)" "runs_ok i m st"
  shows "runs_ok i m st' \<and> cs_dispatching st' = cs_dispatching st \<and> persisted_runs i (cs_inner st') = persisted_runs i (cs_inner st)"
proof -
  let ?s = "(snapshot j st)\<lparr>cr_cursor := (cr_cursor (snapshot j st) + 1) mod 2 ^ 64\<rparr>"
  let ?p = "(cs_inner st)\<lparr>pe_states := (pe_states (cs_inner st))(j \<mapsto> ?s)\<rparr>"
  obtain r' where w: "write_candidate w ?p st = (st', r')"
    using assms(1) by (auto simp: advance_cursor_def Let_def split: prod.splits)
  have p: "persisted_runs i ?p = persisted_runs i (cs_inner st)" unfolding updated_runs by (simp add: snapshot_runs)
  then have le: "persisted_runs i ?p \<le> m" using assms(2) by (simp add: runs_ok_def)
  show ?thesis using write_candidate_runs [OF w assms(2) le] write_candidateD [OF w] p by auto
qed

lemma try_forget_runs:
  assumes "try_forget w j st = (st', r)" "runs_ok i m st"
  shows "runs_ok i m st' \<and> cs_dispatching st' = cs_dispatching st \<and> persisted_runs i (cs_inner st') \<le> persisted_runs i (cs_inner st)"
proof (cases "pe_states (cs_inner st) j = None")
  case True
  then show ?thesis using assms by (simp add: try_forget_def)
next
  case False
  let ?p = "(cs_inner st)\<lparr>pe_states := (pe_states (cs_inner st))(j := None)\<rparr>"
  have w: "write_candidate w ?p st = (st', r)" using assms(1) False by (simp add: try_forget_def)
  have p: "persisted_runs i ?p \<le> persisted_runs i (cs_inner st)" by (simp add: persisted_runs_def)
  then have le: "persisted_runs i ?p \<le> m" using assms(2) by (simp add: runs_ok_def)
  show ?thesis using write_candidate_runs [OF w assms(2) le] write_candidateD [OF w] p by auto
qed

lemma set_max_runs:
  assumes "try_set_max_concurrent w n st = (st', r)" "runs_ok i m st"
  shows "runs_ok i m st' \<and> cs_dispatching st' = cs_dispatching st \<and> persisted_runs i (cs_inner st') = persisted_runs i (cs_inner st)"
proof -
  let ?p = "(cs_inner st)\<lparr>pe_max_concurrent := max n 1\<rparr>"
  have w: "write_candidate w ?p st = (st', r)" using assms(1) by (simp add: try_set_max_concurrent_def)
  have p: "persisted_runs i ?p = persisted_runs i (cs_inner st)" by (simp add: persisted_runs_def)
  then have le: "persisted_runs i ?p \<le> m" using assms(2) by (simp add: runs_ok_def)
  show ?thesis using write_candidate_runs [OF w assms(2) le] write_candidateD [OF w] p by auto
qed

subsection \<open>Beginning and ending a fire\<close>

lemma pick_target_running:
  assumes "pick_target env p s grant held d = (d', Running f)"
  shows "fi_params f = p \<and> fi_state f = s \<and> fi_grant f = grant \<and> fi_limits f = fire_limits p s grant
    \<and> dp_state d' = held \<and> dp_running d' = dp_running d + 1
    \<and> (\<exists>ts. (case grant of Some g \<Rightarrow> Inr [grant_target g] | None \<Rightarrow> resolve_targets env p) = Inr ts
         \<and> rotate_targets ts (cr_cursor s) = Some (fi_pick f))"
  using assms by (auto simp: pick_target_def Let_def split: option.splits sum.splits prod.splits)

lemma pick_target_returned:
  assumes "pick_target env p s grant held d = (d', Returned r)"
  shows "dp_running d' = dp_running d \<and> (dp_state d' = dp_state d \<or> dp_state d' = fst (advance_cursor (fe_write env) (cp_schedule_id p) (dp_state d)))"
  using assms by (auto simp: pick_target_def advance_rotation_after_failure_def Let_def split: option.splits sum.splits prod.splits)

lemma dispatch_begin_running:
  assumes "dispatch_begin env p d = (d', Running f)"
  shows "cp_schedule_id p \<notin> set (cs_dispatching (dp_state d)) \<and> fi_params f = p
    \<and> fi_state f = snapshot (cp_schedule_id p) (dp_state d) \<and> budget_skip_reason (fi_state f) p = None
    \<and> dp_running d < dp_limit d \<and> dp_running d' = dp_running d + 1
    \<and> dp_state d' = (dp_state d)\<lparr>cs_dispatching := cp_schedule_id p # cs_dispatching (dp_state d)\<rparr>
    \<and> fi_limits f = fire_limits p (fi_state f) (fi_grant f)"
proof -
  obtain held where h: "try_dispatch (cp_schedule_id p) (dp_state d) = Some held"
    using assms by (auto simp: dispatch_begin_def split: sum.splits option.splits)
  then have held: "held = (dp_state d)\<lparr>cs_dispatching := cp_schedule_id p # cs_dispatching (dp_state d)\<rparr>"
    "cp_schedule_id p \<notin> set (cs_dispatching (dp_state d))"
    by (auto simp: try_dispatch_def split: if_splits)
  have "snapshot i held = snapshot i (dp_state d)" for i by (simp add: snapshot_def held(1))
  with assms h held show ?thesis
    by (auto simp: dispatch_begin_def Let_def split: sum.splits option.splits if_splits prod.splits dest!: pick_target_running)
qed

lemma dispatch_begin_returned:
  assumes "dispatch_begin env p d = (d', Returned r)"
  shows "dp_running d' = dp_running d \<and> (dp_state d' = dp_state d \<or> dp_state d' = fst (advance_cursor (fe_write env) (cp_schedule_id p) (dp_state d)))"
  using assms
  by (auto simp: dispatch_begin_def Let_def pause_self_def split: sum.splits option.splits if_splits prod.splits dest!: pick_target_returned)

lemma fire_within_budget:
  assumes "budget_skip_reason s p = None" "cp_max_runs p = Some m"
  shows "cr_runs_done s + rl_iterations (fire_limits p s grant) \<le> m"
  using assms by (auto simp: budget_skip_reason_def run_budget_reason_def fire_limits_def split: if_splits option.splits)

lemma dispatch_end_runs:
  assumes "runs_ok i m (dp_state d)" "fire_id f = i \<longrightarrow> persisted_runs i (cs_inner (dp_state d)) + rl_iterations (fi_limits f) \<le> m"
    and d'_def: "d' = fst (dispatch_end msg w f (run_campaign_with_limits debug (fi_lang f) (fi_limits f) su) elapsed d)"
  shows "runs_ok i m (dp_state d') \<and> cs_dispatching (dp_state d') = removeAll (fire_id f) (cs_dispatching (dp_state d))
    \<and> dp_running d' = dp_running d - 1
    \<and> (fire_id f \<noteq> i \<longrightarrow> persisted_runs i (cs_inner (dp_state d')) = persisted_runs i (cs_inner (dp_state d)))"
proof -
  have drop: "runs_ok i m (drop_dispatch j st) = runs_ok i m st" "cs_inner (drop_dispatch j st) = cs_inner st" for j st
    by (simp_all add: drop_dispatch_def runs_ok_def)
  show ?thesis
  proof (cases "run_campaign_with_limits debug (fi_lang f) (fi_limits f) su")
    case (Inl e)
    obtain st r where a: "advance_cursor w (fire_id f) (dp_state d) = (st, r)" by fastforce
    have "d' = release_fire (fire_id f) (d\<lparr>dp_state := st\<rparr>)"
      using a unfolding d'_def Inl by (simp add: dispatch_end_def advance_rotation_after_failure_def fire_id_def Let_def)
    then show ?thesis using advance_cursor_runs [OF a assms(1)] by (simp add: release_fire_def drop) (simp add: drop_dispatch_def)
  next
    case (Inr out)
    show ?thesis
    proof (cases "co_termination out = CommandCancelled")
      case True
      then have "d' = release_fire (fire_id f) d" unfolding d'_def Inr by (simp add: dispatch_end_def fire_id_def Let_def)
      then show ?thesis using assms(1) by (simp add: release_fire_def drop) (simp add: drop_dispatch_def)
    next
      case False
      obtain st r where a: "record_success w (fire_id f) (co_iterations out) (elapsed div 1000) (dp_state d) = (st, r)" by fastforce
      have "d' = release_fire (fire_id f) (d\<lparr>dp_state := st\<rparr>)"
        using a False unfolding d'_def Inr by (cases r) (simp_all add: dispatch_end_def fire_id_def Let_def)
      moreover have "fire_id f = i \<longrightarrow> persisted_runs i (cs_inner (dp_state d)) + co_iterations out \<le> m"
        using assms(2) outcome_within_limits [OF Inr] by auto
      ultimately show ?thesis using record_success_runs [OF a assms(1)] by (simp add: release_fire_def drop) (simp add: drop_dispatch_def)
    qed
  qed
qed

subsection \<open>The invariant\<close>

definition sys_inv :: "string \<Rightarrow> nat \<Rightarrow> campaign_system \<Rightarrow> bool" where
  "sys_inv i m sys \<longleftrightarrow> runs_ok i m (dp_state (sy_disp sys))
     \<and> distinct (map fire_id (sy_fires sys)) \<and> set (map fire_id (sy_fires sys)) \<subseteq> set (cs_dispatching (dp_state (sy_disp sys)))
     \<and> dp_running (sy_disp sys) = length (sy_fires sys)
     \<and> (\<forall>f\<in>set (sy_fires sys). fire_id f = i \<longrightarrow>
          persisted_runs i (cs_inner (dp_state (sy_disp sys))) + rl_iterations (fi_limits f) \<le> m)"

text \<open>Every fire of campaign \<open>i\<close> is dispatched with the run budget \<open>m\<close>.\<close>

fun budgeted_event :: "string \<Rightarrow> nat \<Rightarrow> campaign_event \<Rightarrow> bool" where
  "budgeted_event i m (BeginFire env p) \<longleftrightarrow> cp_schedule_id p = i \<longrightarrow> cp_max_runs p = Some m"
| "budgeted_event i m _ \<longleftrightarrow> True"

lemma drop_nth_map: "map h (drop_nth k xs) = drop_nth k (map h xs)"
  by (simp add: drop_nth_def take_map drop_map)

lemma drop_nth_distinct:
  assumes "distinct xs" "k < length xs"
  shows "distinct (drop_nth k xs) \<and> set (drop_nth k xs) = set xs - {xs ! k}"
proof -
  have eq: "xs = take k xs @ xs ! k # drop (Suc k) xs" using assms(2) by (rule id_take_nth_drop)
  then have "distinct (take k xs @ xs ! k # drop (Suc k) xs)" using assms(1) by metis
  moreover have "set xs = insert (xs ! k) (set (take k xs) \<union> set (drop (Suc k) xs))" by (subst eq) auto
  ultimately show ?thesis by (auto simp: drop_nth_def)
qed

lemma begin_inv:
  assumes inv: "sys_inv i m sys" and b: "cp_schedule_id p = i \<longrightarrow> cp_max_runs p = Some m"
  shows "sys_inv i m (sys_step msg debug sys (BeginFire env p))"
proof -
  let ?d = "sy_disp sys"
  obtain d' r where db: "dispatch_begin env p ?d = (d', r)" by fastforce
  show ?thesis
  proof (cases r)
    case (Returned x)
    obtain st y where a: "advance_cursor (fe_write env) (cp_schedule_id p) (dp_state ?d) = (st, y)" by fastforce
    have "dp_running d' = dp_running ?d" "dp_state d' = dp_state ?d \<or> dp_state d' = st"
      using dispatch_begin_returned [OF db [unfolded Returned]] a by auto
    then show ?thesis using inv db Returned advance_cursor_runs [OF a, of i m] by (auto simp: sys_step_def sys_inv_def)
  next
    case (Running f)
    note run = dispatch_begin_running [OF db [unfolded Running]]
    have "fire_id f = i \<longrightarrow> persisted_runs i (cs_inner (dp_state ?d)) + rl_iterations (fi_limits f) \<le> m"
      using run b fire_within_budget [of "fi_state f" p m "fi_grant f"] by (auto simp: fire_id_def snapshot_runs)
    moreover have "runs_ok i m (dp_state d') = runs_ok i m (dp_state ?d)" "cs_inner (dp_state d') = cs_inner (dp_state ?d)"
      using run by (simp_all add: runs_ok_def)
    ultimately show ?thesis using inv db Running run by (auto simp: sys_step_def sys_inv_def fire_id_def)
  qed
qed

lemma end_inv:
  assumes inv: "sys_inv i m sys"
  shows "sys_inv i m (sys_step msg debug sys (EndFire k su elapsed w))"
proof (cases "k < length (sy_fires sys)")
  case True
  let ?f = "sy_fires sys ! k" and ?d = "sy_disp sys"
  define d' where "d' = fst (dispatch_end msg w ?f (run_campaign_with_limits debug (fi_lang ?f) (fi_limits ?f) su) elapsed ?d)"
  have step: "sys_step msg debug sys (EndFire k su elapsed w) = sys\<lparr>sy_disp := d', sy_fires := drop_nth k (sy_fires sys)\<rparr>"
    using True by (simp add: sys_step_def d'_def Let_def)
  have f: "fire_id ?f = i \<longrightarrow> persisted_runs i (cs_inner (dp_state ?d)) + rl_iterations (fi_limits ?f) \<le> m"
    using inv True by (auto simp: sys_inv_def)
  have e: "runs_ok i m (dp_state d') \<and> cs_dispatching (dp_state d') = removeAll (fire_id ?f) (cs_dispatching (dp_state ?d))
    \<and> dp_running d' = dp_running ?d - 1
    \<and> (fire_id ?f \<noteq> i \<longrightarrow> persisted_runs i (cs_inner (dp_state d')) = persisted_runs i (cs_inner (dp_state ?d)))"
    using inv by (intro dispatch_end_runs [OF _ f d'_def]) (simp add: sys_inv_def)
  have ids: "distinct (map fire_id (drop_nth k (sy_fires sys)))"
    "set (map fire_id (drop_nth k (sy_fires sys))) = set (map fire_id (sy_fires sys)) - {fire_id ?f}"
    using drop_nth_distinct [of "map fire_id (sy_fires sys)" k] inv True by (simp_all add: drop_nth_map sys_inv_def)
  have len: "length (drop_nth k (sy_fires sys)) = length (sy_fires sys) - 1" using True by (simp add: drop_nth_def)
  have others: "\<forall>g\<in>set (drop_nth k (sy_fires sys)). g \<in> set (sy_fires sys) \<and> fire_id g \<noteq> fire_id ?f"
  proof
    fix g assume g: "g \<in> set (drop_nth k (sy_fires sys))"
    then have "fire_id g \<in> set (map fire_id (drop_nth k (sy_fires sys)))" by simp
    then have "fire_id g \<noteq> fire_id ?f" unfolding ids(2) by simp
    moreover have "g \<in> set (sy_fires sys)" using g unfolding drop_nth_def set_append by (blast dest: in_set_takeD in_set_dropD)
    ultimately show "g \<in> set (sy_fires sys) \<and> fire_id g \<noteq> fire_id ?f" by simp
  qed
  have "\<forall>g\<in>set (drop_nth k (sy_fires sys)). fire_id g = i \<longrightarrow> persisted_runs i (cs_inner (dp_state d')) + rl_iterations (fi_limits g) \<le> m"
  proof (intro ballI impI)
    fix g assume g: "g \<in> set (drop_nth k (sy_fires sys))" "fire_id g = i"
    then have "fire_id ?f \<noteq> i" "g \<in> set (sy_fires sys)" using others by auto
    then show "persisted_runs i (cs_inner (dp_state d')) + rl_iterations (fi_limits g) \<le> m" using e inv g(2) by (simp add: sys_inv_def)
  qed
  moreover have "set (map fire_id (drop_nth k (sy_fires sys))) \<subseteq> set (cs_dispatching (dp_state d'))"
    using ids(2) e inv by (auto simp: sys_inv_def)
  ultimately show ?thesis using e ids(1) len inv by (simp add: step sys_inv_def)
qed (use inv in \<open>simp add: sys_step_def\<close>)

lemma sys_step_inv:
  assumes inv: "sys_inv i m sys" and b: "budgeted_event i m e"
  shows "sys_inv i m (sys_step msg debug sys e)"
proof (cases e)
  case (BeginFire env p)
  then show ?thesis using begin_inv [OF inv] b by simp
next
  case (EndFire k su elapsed w)
  then show ?thesis using end_inv [OF inv] by simp
next
  case (ForgetCampaign w j)
  obtain st r where f: "try_forget w j (dp_state (sy_disp sys)) = (st, r)" by fastforce
  have "runs_ok i m st \<and> cs_dispatching st = cs_dispatching (dp_state (sy_disp sys))
      \<and> persisted_runs i (cs_inner st) \<le> persisted_runs i (cs_inner (dp_state (sy_disp sys)))"
    using try_forget_runs [OF f, of i m] inv by (simp add: sys_inv_def)
  then show ?thesis using inv f ForgetCampaign by (fastforce simp: sys_step_def sys_inv_def)
next
  case (ResizeGate w n)
  obtain st r where f: "try_set_max_concurrent w n (dp_state (sy_disp sys)) = (st, r)" by fastforce
  have "runs_ok i m st \<and> cs_dispatching st = cs_dispatching (dp_state (sy_disp sys))
      \<and> persisted_runs i (cs_inner st) = persisted_runs i (cs_inner (dp_state (sy_disp sys)))"
    using set_max_runs [OF f, of i m] inv by (simp add: sys_inv_def)
  then show ?thesis using inv f ResizeGate by (cases r) (auto simp: sys_step_def sys_inv_def set_max_concurrent_def)
next
  case RestartService
  show ?thesis
  proof (cases "dispatcher_start (dp_allocations (sy_disp sys)) (cs_disk (dp_state (sy_disp sys)))")
    case (Inr d)
    then have "runs_ok i m (dp_state d)" "dp_running d = 0"
      using inv by (auto simp: dispatcher_start_def try_load_def read_json_file_def bind_result_eq_Inr sys_inv_def runs_ok_def
          disk_runs_def persisted_runs_def persisted_default_def split: sidecar.splits option.splits)
    then show ?thesis using Inr RestartService by (simp add: sys_step_def sys_inv_def)
  qed (use inv RestartService in \<open>simp add: sys_step_def\<close>)
qed

interpretation budgeted: invariant_machine "\<lambda>sys e. if budgeted_event i m e then sys_step msg debug sys e else sys" "sys_inv i m"
  for i m msg debug
  by unfold_locales (simp add: sys_step_inv)

lemma sys_run_inv:
  assumes "sys_inv i m sys" "list_all (budgeted_event i m) es"
  shows "sys_inv i m (sys_run msg debug sys es)"
proof -
  have "foldl (sys_step msg debug) sys es = foldl (\<lambda>sys e. if budgeted_event i m e then sys_step msg debug sys e else sys) sys es"
    using assms(2) by (induction es arbitrary: sys) auto
  then show ?thesis using budgeted.run_inv [OF assms(1)] by (simp add: sys_run_def)
qed

text \<open>C22. A campaign with a run budget never shows more completed runs than its budget, in memory and in
  the sidecar that a restart loads: whatever fires of any campaigns overlap, whatever fuzz runs, triage,
  cancellations and failing writes answer, with schedules being removed and recreated, the gate resized and the
  service restarted in between. A campaign has at most one fire in progress, and the gate counts exactly the
  fires in progress.\<close>

theorem campaign_run_budget_kept:
  assumes "dispatcher_start allocations disk = Inr d" "disk_runs i disk \<le> m" "list_all (budgeted_event i m) es"
  shows "let sys = sys_run msg debug \<lparr>sy_disp = d, sy_fires = []\<rparr> es; st = dp_state (sy_disp sys) in
      cr_runs_done (snapshot i st) \<le> m \<and> disk_runs i (cs_disk st) \<le> m
      \<and> length (filter (\<lambda>f. fire_id f = i) (sy_fires sys)) \<le> 1
      \<and> dp_running (sy_disp sys) = length (sy_fires sys)"
proof -
  have "sys_inv i m \<lparr>sy_disp = d, sy_fires = []\<rparr>"
    using assms(1,2) by (auto simp: dispatcher_start_def try_load_def read_json_file_def bind_result_eq_Inr sys_inv_def runs_ok_def
          disk_runs_def persisted_runs_def persisted_default_def split: sidecar.splits option.splits)
  then have inv: "sys_inv i m (sys_run msg debug \<lparr>sy_disp = d, sy_fires = []\<rparr> es)" using assms(3) by (rule sys_run_inv)
  have one: "length (filter (\<lambda>f. fire_id f = i) fs) \<le> 1" if "distinct (map fire_id fs)" for fs
    using that
  proof (induction fs)
    case (Cons f fs)
    have "fire_id f = i \<Longrightarrow> filter (\<lambda>f. fire_id f = i) fs = []" using Cons.prems by (auto simp: filter_empty_conv image_iff)
    with Cons show ?case by auto
  qed simp
  show ?thesis using inv one by (simp add: sys_inv_def runs_ok_def Let_def snapshot_runs)
qed

subsection \<open>Rotation\<close>

text \<open>Fires of one campaign, one after the other, with the targets they run.\<close>

fun fire_sequence ::
  "(state_file_error \<Rightarrow> string) \<Rightarrow> (target_language \<Rightarrow> string) \<Rightarrow> campaign_params
     \<Rightarrow> (fire_env \<times> campaign_setup \<times> nat \<times> write_outcome) list \<Rightarrow> dispatcher \<Rightarrow> schedulable_target list \<times> dispatcher" where
  "fire_sequence msg debug p [] d = ([], d)"
| "fire_sequence msg debug p ((env, su, elapsed, w) # xs) d = (case dispatch_begin env p d of
     (d1, Returned _) \<Rightarrow> fire_sequence msg debug p xs d1
   | (d1, Running f) \<Rightarrow>
       (case fire_sequence msg debug p xs
              (fst (dispatch_end msg w f (run_campaign_with_limits debug (fi_lang f) (fi_limits f) su) elapsed d1)) of
          (picks, d2) \<Rightarrow> (fi_pick f # picks, d2)))"

definition cursor_of_campaign :: "campaign_params \<Rightarrow> dispatcher \<Rightarrow> nat" where
  "cursor_of_campaign p d = cr_cursor (snapshot (cp_schedule_id p) (dp_state d))"

text \<open>A fire without an allocation, over the promoted targets \<open>ts\<close>, that is not cancelled and whose progress
  is written.\<close>

definition plain_fire ::
  "(target_language \<Rightarrow> string) \<Rightarrow> campaign_params \<Rightarrow> schedulable_target list \<Rightarrow> fire_env \<times> campaign_setup \<times> nat \<times> write_outcome \<Rightarrow> bool" where
  "plain_fire debug p ts x = (case x of (env, su, elapsed, w) \<Rightarrow>
     as_current (fe_seen env) = None \<and> resolve_targets env p = Inr ts \<and> w = Written
     \<and> (\<forall>lang lim out. run_campaign_with_limits debug lang lim su = Inr out \<longrightarrow> co_termination out \<noteq> CommandCancelled))"

lemma fire_sequence_length: "fire_sequence msg debug p xs d = (picks, d') \<Longrightarrow> length picks \<le> length xs"
proof (induction msg debug p xs d arbitrary: picks d' rule: fire_sequence.induct)
  case (2 msg debug p env su elapsed w xs d)
  then show ?case by (auto split: prod.splits fire_start.splits) (metis le_SucI)
qed simp

lemma dispatch_begin_pick:
  assumes "dispatch_begin env p d = (d1, Running f)" "as_current (fe_seen env) = None" "resolve_targets env p = Inr ts"
  shows "ts \<noteq> [] \<and> fi_pick f = ts ! (cursor_of_campaign p d mod length ts) \<and> cursor_of_campaign p d1 = cursor_of_campaign p d
    \<and> fire_id f = cp_schedule_id p"
proof -
  have adm: "admit_scheduled_allocation (fe_codec env) (fe_enabled env) (fe_io env) (fe_new_id env) (fe_now env)
      (fe_resolve env) (fe_candidates env) t k i n (fe_seen env) (fe_seen' env) st = (st, Inr None)" for t k i n st
    using assms(2) by (simp add: admit_scheduled_allocation_def read_state_def)
  obtain held d0 where "pick_target env p (snapshot (cp_schedule_id p) held) None held d0 = (d1, Running f)"
    "try_dispatch (cp_schedule_id p) (dp_state d) = Some held"
    using assms(1) by (auto simp: dispatch_begin_def adm Let_def split: sum.splits option.splits if_splits)
  moreover then have "snapshot i held = snapshot i (dp_state d)" for i
    by (auto simp: try_dispatch_def snapshot_def split: if_splits)
  ultimately have pk: "fi_params f = p" "dp_state d1 = held" "rotate_targets ts (cr_cursor (snapshot (cp_schedule_id p) (dp_state d))) = Some (fi_pick f)"
    "snapshot (cp_schedule_id p) held = snapshot (cp_schedule_id p) (dp_state d)"
    using pick_target_running assms(3) by fastforce+
  then show ?thesis by (auto simp: rotate_targets_def cursor_of_campaign_def fire_id_def split: if_splits)
qed

lemma dispatch_end_cursor:
  assumes "fire_id f = cp_schedule_id p"
    "\<forall>lang lim out. run_campaign_with_limits debug lang lim su = Inr out \<longrightarrow> co_termination out \<noteq> CommandCancelled"
  shows "cursor_of_campaign p (fst (dispatch_end msg Written f (run_campaign_with_limits debug (fi_lang f) (fi_limits f) su) elapsed d))
    = (cursor_of_campaign p d + 1) mod 2 ^ 64"
proof -
  have drop: "snapshot i (drop_dispatch j st) = snapshot i st" for i j st by (simp add: drop_dispatch_def snapshot_def)
  show ?thesis
  proof (cases "run_campaign_with_limits debug (fi_lang f) (fi_limits f) su")
    case (Inl e)
    have "snapshot (cp_schedule_id p) (fst (advance_cursor Written (cp_schedule_id p) (dp_state d)))
        = (snapshot (cp_schedule_id p) (dp_state d))\<lparr>cr_cursor := (cursor_of_campaign p d + 1) mod 2 ^ 64\<rparr>"
      by (simp add: advance_cursor_def write_candidate_def Let_def cursor_of_campaign_def) (simp add: snapshot_def)
    then show ?thesis using assms(1) unfolding Inl
      by (simp add: dispatch_end_def advance_rotation_after_failure_def release_fire_def cursor_of_campaign_def drop fire_id_def Let_def)
  next
    case (Inr out)
    then have "co_termination out \<noteq> CommandCancelled" using assms(2) by blast
    moreover obtain st s where r: "record_success Written (cp_schedule_id p) (co_iterations out) (elapsed div 1000) (dp_state d) = (st, Inr s)"
      by (auto simp: record_success_def write_candidate_def Let_def)
    ultimately show ?thesis using assms(1) record_success_ok [OF r] unfolding Inr
      by (simp add: dispatch_end_def release_fire_def cursor_of_campaign_def drop fire_id_def Let_def charge_def)
  qed
qed

lemma fire_sequence_picks:
  assumes "list_all (plain_fire debug p ts) xs" "fire_sequence msg debug p xs d = (picks, d')" "length picks = length xs"
    "cursor_of_campaign p d + length xs \<le> 2 ^ 64"
  shows "\<forall>k<length xs. picks ! k = ts ! ((cursor_of_campaign p d + k) mod length ts)"
  using assms
proof (induction xs arbitrary: d picks d')
  case (Cons x xs)
  obtain env su elapsed w where x: "x = (env, su, elapsed, w)" by (cases x) auto
  have pf: "as_current (fe_seen env) = None" "resolve_targets env p = Inr ts" "w = Written"
    "\<forall>lang lim out. run_campaign_with_limits debug lang lim su = Inr out \<longrightarrow> co_termination out \<noteq> CommandCancelled"
    using Cons.prems(1) x by (auto simp: plain_fire_def)
  obtain d1 r where db: "dispatch_begin env p d = (d1, r)" by fastforce
  show ?case
  proof (cases r)
    case (Returned y)
    then have "fire_sequence msg debug p xs d1 = (picks, d')" using Cons.prems(2) x db by simp
    then show ?thesis using fire_sequence_length Cons.prems(3) by fastforce
  next
    case (Running f)
    let ?d2 = "fst (dispatch_end msg w f (run_campaign_with_limits debug (fi_lang f) (fi_limits f) su) elapsed d1)"
    obtain ps d3 where rest: "fire_sequence msg debug p xs ?d2 = (ps, d3)" by fastforce
    then have pk: "picks = fi_pick f # ps" using Cons.prems(2) x db Running by simp
    note b = dispatch_begin_pick [OF db [unfolded Running] pf(1,2)]
    have c: "cursor_of_campaign p ?d2 = cursor_of_campaign p d + 1" if "xs \<noteq> []"
      using dispatch_end_cursor [of f p debug su] b pf(3,4) Cons.prems(4) that by (cases xs) auto
    have ih: "\<forall>k<length xs. ps ! k = ts ! ((cursor_of_campaign p d + 1 + k) mod length ts)"
    proof (cases "xs = []")
      case False
      then show ?thesis using Cons.IH [OF _ rest] Cons.prems(1,3,4) pk c by (auto simp: x)
    qed simp
    show ?thesis
    proof (intro allI impI)
      fix k assume "k < length (x # xs)"
      then show "picks ! k = ts ! ((cursor_of_campaign p d + k) mod length ts)" using b ih pk by (cases k) auto
    qed
  qed
qed simp

text \<open>C23. The rotation starves no target: when a campaign over \<open>n\<close> promoted targets runs \<open>n\<close> times in a row,
  each fire finishing or failing but not cancelled, the fires run the targets of the priority order one
  after the other from the cursor on, so each of them is fuzzed, however often a target's harness fails to build or run.\<close>

theorem rotation_covers_targets:
  assumes "list_all (plain_fire debug p ts) xs" "fire_sequence msg debug p xs d = (picks, d')"
    "length picks = length xs" "length xs = length ts" "cursor_of_campaign p d + length xs \<le> 2 ^ 64"
  shows "picks = rotation (cursor_of_campaign p d) ts \<and> set picks = set ts"
proof -
  have "picks = rotation (cursor_of_campaign p d) ts"
    using fire_sequence_picks [OF assms(1-3,5)] assms(3,4) by (auto simp: rotation_def intro!: nth_equalityI)
  then show ?thesis by (simp add: rotation_set)
qed

section \<open>Concrete instances\<close>

definition ex_target :: "string \<Rightarrow> schedulable_target" where
  "ex_target t = \<lparr>sg_target = t, sg_engine = ''libfuzzer'', sg_language = ''c'', sg_fit_score = f_zero\<rparr>"

definition ex_params :: campaign_params where
  "ex_params = params_default\<lparr>cp_project := ''proj'', cp_duration_secs := 60, cp_max_runs := Some 2, cp_schedule_id := ''s''\<rparr>"

definition ex_env :: fire_env where
  "ex_env = \<lparr>fe_identity = Inr (), fe_codec = ex_codec, fe_enabled = True, fe_io = ex_io, fe_new_id = ''g'', fe_now = ''t'',
     fe_resolve = (\<lambda>_. Inl TimeoutFailure), fe_candidates = Inr [], fe_seen = ex_store, fe_seen' = ex_store,
     fe_targets = Inr [ex_target ''b'', ex_target ''a''], fe_write = Written\<rparr>"

definition ex_dispatcher :: dispatcher where
  "ex_dispatcher = \<lparr>dp_state = \<lparr>cs_disk = NoFile, cs_inner = persisted_default, cs_dispatching = []\<rparr>, dp_running = 0, dp_limit = 2,
     dp_allocations = (\<lambda>_. ex_store), dp_paused = []\<rparr>"

text \<open>A fire whose first run finds a crash, and one whose harness cannot be prepared.\<close>

definition ex_setup :: campaign_setup where
  "ex_setup = \<lparr>su_settings = Inr (LibFuzzer, 60), su_target = Inr ''a'', su_harness = Inr (LangC, HarnessPromoted), su_inputs = Inr (),
     su_seeds = Inr (),
     su_iterations = (\<lambda>_. \<lparr>it_elapsed = 0,
        it_run = (\<lambda>_. Inr \<lparr>rs_termination = CommandCompleted, rs_edges = 7, rs_hangs = None, rs_stagnation = None, rs_auto_revert = False\<rparr>),
        it_triage = Inr 1\<rparr>),
     su_time_over = False\<rparr>"

definition ex_broken :: campaign_setup where
  "ex_broken = ex_setup\<lparr>su_settings := Inl (HarnessFailure ''build'')\<rparr>"

lemma ex_start: "dispatcher_start (\<lambda>_. ex_store) NoFile = Inr ex_dispatcher"
  by (simp add: dispatcher_start_def try_load_def read_json_file_def ex_dispatcher_def max_concurrent_def persisted_default_def default_max_concurrent_def)

lemma ex_resolve: "resolve_targets ex_env ex_params = Inr [ex_target ''a'', ex_target ''b'']"
  by (simp add: resolve_targets_def ex_env_def ex_params_def params_default_def filter_campaign_targets_def requested_campaign_engine_def
      pinned_target_def priority_order_def target_before_def ex_target_def f_zero_def fin_over_def)

lemma ex_names: "engine_from_str ''libfuzzer'' = Inr LibFuzzer" "language_from_str ''c'' = Inr LangC"
  using engine_roundtrip [of LibFuzzer] language_roundtrip [of LangC] by simp_all

definition ex_fire :: "nat \<Rightarrow> nat \<Rightarrow> campaign_fire" where
  "ex_fire c n = \<lparr>fi_params = ex_params, fi_state = \<lparr>cr_cursor = c, cr_runs_done = n, cr_secs_done = 0\<rparr>, fi_grant = None,
     fi_pick = [ex_target ''a'', ex_target ''b''] ! (c mod 2), fi_engine = LibFuzzer, fi_lang = LangC, fi_duration_secs = 60,
     fi_limits = \<lparr>rl_iterations = 2 - n, rl_time = None\<rparr>\<rparr>"

lemma ex_begin:
  assumes "snapshot ''s'' (dp_state d) = \<lparr>cr_cursor = c, cr_runs_done = n, cr_secs_done = 0\<rparr>" "cs_dispatching (dp_state d) = []"
    "n < 2" "dp_running d < dp_limit d"
  shows "\<exists>d'. dispatch_begin ex_env ex_params d = (d', Running (ex_fire c n))"
proof -
  have adm: "admit_scheduled_allocation ex_codec True ex_io ''g'' ''t'' f c' t k i m ex_store ex_store st = (st, Inr None)" for f c' t k i m st
    by (simp add: admit_scheduled_allocation_def read_state_def ex_store_def)
  have sn: "snapshot ''s'' ((dp_state d)\<lparr>cs_dispatching := xs\<rparr>) = \<lparr>cr_cursor = c, cr_runs_done = n, cr_secs_done = 0\<rparr>" for xs
    using assms(1) by (simp add: snapshot_def)
  have env: "fe_identity ex_env = Inr ()" "fe_codec ex_env = ex_codec" "fe_enabled ex_env" "fe_io ex_env = ex_io" "fe_new_id ex_env = ''g''"
    "fe_now ex_env = ''t''" "fe_seen ex_env = ex_store" "fe_seen' ex_env = ex_store" by (simp_all add: ex_env_def)
  have par: "cp_schedule_id ex_params = ''s''" "cp_max_runs ex_params = Some 2" "cp_max_total_secs ex_params = None" "cp_target ex_params = None"
    "cp_duration_secs ex_params = 60" by (simp_all add: ex_params_def params_default_def)
  have bud: "budget_skip_reason \<lparr>cr_cursor = c, cr_runs_done = n, cr_secs_done = 0\<rparr> ex_params = None"
    using assms(3) by (simp add: budget_skip_reason_def run_budget_reason_def time_budget_reason_def par)
  have lim: "fire_limits ex_params \<lparr>cr_cursor = c, cr_runs_done = n, cr_secs_done = 0\<rparr> None = \<lparr>rl_iterations = 2 - n, rl_time = None\<rparr>"
    by (simp add: fire_limits_def par)
  have eng: "requested_campaign_engine ex_params = Inr None" by (simp add: requested_campaign_engine_def pinned_target_def par)
  have pk: "rotate_targets [ex_target ''a'', ex_target ''b''] c = Some ([ex_target ''a'', ex_target ''b''] ! (c mod 2))"
    by (simp add: rotate_targets_def numeral_2_eq_2)
  have nm: "sg_engine ([ex_target ''a'', ex_target ''b''] ! (c mod 2)) = ''libfuzzer''" "sg_language ([ex_target ''a'', ex_target ''b''] ! (c mod 2)) = ''c''"
    using mod_less_divisor [of 2 c] by (auto simp: ex_target_def less_2_cases_iff nth_Cons')
  show ?thesis
    using assms(2,4) by (simp add: dispatch_begin_def env par try_dispatch_def sn bud eng adm pick_target_def ex_resolve pk nm ex_names lim ex_fire_def Let_def)
qed

lemma ex_campaign:
  "n < 2 \<Longrightarrow> run_campaign_with_limits debug LangC \<lparr>rl_iterations = 2 - n, rl_time = None\<rparr> ex_setup
     = Inr \<lparr>co_target = ''a'', co_status = HarnessPromoted, co_crashes = 1, co_edges = 7, co_iterations = 1, co_auto_reverts = 0,
            co_hangs = None, co_termination = CommandCompleted, co_refine_attempted = False\<rparr>"
  by (simp add: run_campaign_with_limits_def ex_setup_def harnessable_def campaign_loop.simps progress_init_def iteration_secs_def
      absorb_summary_def)

theorem campaign_run_budget_kept_witness:
  "\<exists>sys. sys = sys_run (\<lambda>_. []) (\<lambda>_. []) \<lparr>sy_disp = ex_dispatcher, sy_fires = []\<rparr> [BeginFire ex_env ex_params, EndFire 0 ex_setup 61000 Written]
     \<and> snapshot ''s'' (dp_state (sy_disp sys)) = \<lparr>cr_cursor = 1, cr_runs_done = 1, cr_secs_done = 61\<rparr>
     \<and> disk_runs ''s'' (cs_disk (dp_state (sy_disp sys))) \<le> 2 \<and> dp_running (sy_disp sys) = length (sy_fires sys)"
proof -
  let ?es = "[BeginFire ex_env ex_params, EndFire 0 ex_setup 61000 Written]"
  let ?sys = "sys_run (\<lambda>_. []) (\<lambda>_. []) \<lparr>sy_disp = ex_dispatcher, sy_fires = []\<rparr> ?es"
  have "list_all (budgeted_event ''s'' 2) ?es" by (simp add: ex_params_def)
  then have inv: "let sys = ?sys; st = dp_state (sy_disp sys) in cr_runs_done (snapshot ''s'' st) \<le> 2 \<and> disk_runs ''s'' (cs_disk st) \<le> 2
      \<and> length (filter (\<lambda>f. fire_id f = ''s'') (sy_fires sys)) \<le> 1 \<and> dp_running (sy_disp sys) = length (sy_fires sys)"
    by (intro campaign_run_budget_kept [OF ex_start]) (simp_all add: disk_runs_def)
  have "snapshot ''s'' (dp_state ex_dispatcher) = \<lparr>cr_cursor = 0, cr_runs_done = 0, cr_secs_done = 0\<rparr>"
    by (simp add: snapshot_def ex_dispatcher_def persisted_default_def runtime_default_def)
  from ex_begin [OF this] obtain d' where b: "dispatch_begin ex_env ex_params ex_dispatcher = (d', Running (ex_fire 0 0))"
    by (auto simp: ex_dispatcher_def)
  have "snapshot ''s'' (dp_state d') = \<lparr>cr_cursor = 0, cr_runs_done = 0, cr_secs_done = 0\<rparr>"
    using dispatch_begin_running [OF b] by (simp add: snapshot_def ex_dispatcher_def persisted_default_def runtime_default_def)
  moreover have "run_campaign_with_limits (\<lambda>_. []) (fi_lang (ex_fire 0 0)) (fi_limits (ex_fire 0 0)) ex_setup
      = Inr \<lparr>co_target = ''a'', co_status = HarnessPromoted, co_crashes = 1, co_edges = 7, co_iterations = 1, co_auto_reverts = 0,
            co_hangs = None, co_termination = CommandCompleted, co_refine_attempted = False\<rparr>"
    using ex_campaign [of 0] by (simp add: ex_fire_def)
  moreover have "cp_schedule_id (fi_params (ex_fire 0 0)) = ''s''" by (simp add: ex_fire_def ex_params_def)
  ultimately have "snapshot ''s'' (dp_state (sy_disp ?sys)) = \<lparr>cr_cursor = 1, cr_runs_done = 1, cr_secs_done = 61\<rparr>"
    using b by (simp add: sys_run_def sys_step_def dispatch_end_def record_success_def write_candidate_def release_fire_def drop_dispatch_def Let_def)
      (simp add: snapshot_def charge_def sat_add_u64_def u64_max_def u32_max_def)
  with inv show ?thesis by (simp add: Let_def)
qed

theorem rotation_covers_targets_witness:
  "\<exists>picks d'. fire_sequence (\<lambda>_. []) (\<lambda>_. []) ex_params [(ex_env, ex_broken, 5, Written), (ex_env, ex_broken, 5, Written)] ex_dispatcher = (picks, d')
     \<and> set picks = {ex_target ''a'', ex_target ''b''}"
proof -
  let ?x = "(ex_env, ex_broken, 5, Written)"
  have never: "run_campaign_with_limits debug lang lim ex_broken \<noteq> Inr out" for debug lang lim out
    by (simp add: run_campaign_with_limits_def ex_broken_def)
  then have plain: "list_all (plain_fire (\<lambda>_. []) ex_params [ex_target ''a'', ex_target ''b'']) [?x, ?x]"
    by (simp add: plain_fire_def ex_resolve) (simp add: ex_env_def ex_store_def)
  have s0: "snapshot ''s'' (dp_state ex_dispatcher) = \<lparr>cr_cursor = 0, cr_runs_done = 0, cr_secs_done = 0\<rparr>"
    by (simp add: snapshot_def ex_dispatcher_def persisted_default_def runtime_default_def)
  from ex_begin [OF s0] obtain d1 where b: "dispatch_begin ex_env ex_params ex_dispatcher = (d1, Running (ex_fire 0 0))"
    by (auto simp: ex_dispatcher_def)
  have d1: "dp_running d1 = 1" "cs_dispatching (dp_state d1) = [''s'']" "cs_inner (dp_state d1) = persisted_default"
    using dispatch_begin_running [OF b] by (simp_all add: ex_dispatcher_def ex_params_def)
  have l1: "dp_limit d1 = 2"
    using b by (auto simp: dispatch_begin_def pick_target_def ex_dispatcher_def Let_def split: sum.splits option.splits if_splits prod.splits)
  obtain e where fail: "run_campaign_with_limits (\<lambda>_. []) (fi_lang (ex_fire 0 0)) (fi_limits (ex_fire 0 0)) ex_broken = Inl e"
    using never [of "\<lambda>_. []"] by (cases "run_campaign_with_limits (\<lambda>_. []) (fi_lang (ex_fire 0 0)) (fi_limits (ex_fire 0 0)) ex_broken") auto
  define d2 where "d2 = fst (dispatch_end (\<lambda>_. []) Written (ex_fire 0 0) (run_campaign_with_limits (\<lambda>_. []) (fi_lang (ex_fire 0 0)) (fi_limits (ex_fire 0 0)) ex_broken) 5 d1)"
  have id0: "cp_schedule_id (fi_params (ex_fire 0 0)) = ''s''" by (simp add: ex_fire_def ex_params_def)
  have d2: "snapshot ''s'' (dp_state d2) = \<lparr>cr_cursor = 1, cr_runs_done = 0, cr_secs_done = 0\<rparr>" "cs_dispatching (dp_state d2) = []" "dp_running d2 < dp_limit d2"
    unfolding d2_def fail using d1 l1 id0
    by (simp_all add: dispatch_end_def advance_rotation_after_failure_def advance_cursor_def write_candidate_def release_fire_def drop_dispatch_def
        snapshot_def persisted_default_def runtime_default_def Let_def)
  from ex_begin [OF d2(1,2) _ d2(3)] obtain d3 where b2: "dispatch_begin ex_env ex_params d2 = (d3, Running (ex_fire 1 0))" by auto
  obtain picks d' where seq: "fire_sequence (\<lambda>_. []) (\<lambda>_. []) ex_params [?x, ?x] ex_dispatcher = (picks, d')" by fastforce
  then have "length picks = 2" using b b2 unfolding fire_sequence.simps d2_def by auto
  then show ?thesis using rotation_covers_targets [OF plain seq] seq s0
    by (auto simp: cursor_of_campaign_def ex_params_def)
qed

end
