(* ===== verification/Work_Order_Store.thy ===== *)
theory Work_Order_Store
  imports Budget_Store Text "HOL-Library.List_Lexorder" "HOL-Library.Char_ord" "HOL-Library.Product_Lexorder"
begin

text \<open>
  Durable harness work orders, \<^verbatim>\<open>crates/hf-storage/src/work_order_store.rs\<close> over the tables of
  \<^verbatim>\<open>migrations/0029_harness_work_orders.sql\<close>: immutable packets, immutable submissions with their
  repair parents, and qualification attempts that move through compile, review and smoke. Each
  operation is one transaction (or one guarded \<^verbatim>\<open>UPDATE\<close>), hence one step; SQLite serializes them.
  The \<^verbatim>\<open>CHECK\<close> constraints that a record could violate are written out; the validity of JSON text is
  SQLite's \<^verbatim>\<open>json_valid\<close>, a parameter. UUIDs are 128-bit words (their text is a fixed-width form in
  the same order), times are nanoseconds, which the stored RFC 3339 text keeps exactly; that text
  is a parameter of the queries that order by it.
\<close>

section \<open>Records\<close>

type_synonym uuid128 = "128 word"
type_synonym timestamp = int

definition max_work_order_submissions :: nat where
  "max_work_order_submissions = 20"

definition max_work_order_rank_attempts :: nat where
  "max_work_order_rank_attempts = 5"

datatype submission_insert_error =
    MissingWorkOrder | MissingParent | ParentWorkOrderMismatch | SubmissionLimitReached | SubmissionStorage storage_error

datatype attempt_stage = StageCompile | StageReview | StageSmoke | StageComplete

definition stage_str :: "attempt_stage \<Rightarrow> string" where
  "stage_str s = (case s of StageCompile \<Rightarrow> ''compile'' | StageReview \<Rightarrow> ''review'' | StageSmoke \<Rightarrow> ''smoke''
     | StageComplete \<Rightarrow> ''complete'')"

definition stage_parse :: "string \<Rightarrow> (storage_error, attempt_stage) result" where
  "stage_parse v =
     (if v = ''compile'' then Inr StageCompile else if v = ''review'' then Inr StageReview
      else if v = ''smoke'' then Inr StageSmoke else if v = ''complete'' then Inr StageComplete
      else Inl (InvalidData (''invalid harness work order attempt stage '' @ quoted v)))"

datatype attempt_status = AttemptRunning | CompileFailed | ReviewFailed | SmokeFailed | SmokePassed | Interrupted

definition status_str :: "attempt_status \<Rightarrow> string" where
  "status_str s = (case s of AttemptRunning \<Rightarrow> ''running'' | CompileFailed \<Rightarrow> ''compile_failed''
     | ReviewFailed \<Rightarrow> ''review_failed'' | SmokeFailed \<Rightarrow> ''smoke_failed'' | SmokePassed \<Rightarrow> ''smoke_passed''
     | Interrupted \<Rightarrow> ''interrupted'')"

definition status_parse :: "string \<Rightarrow> (storage_error, attempt_status) result" where
  "status_parse v =
     (if v = ''running'' then Inr AttemptRunning else if v = ''compile_failed'' then Inr CompileFailed
      else if v = ''review_failed'' then Inr ReviewFailed else if v = ''smoke_failed'' then Inr SmokeFailed
      else if v = ''smoke_passed'' then Inr SmokePassed else if v = ''interrupted'' then Inr Interrupted
      else Inl (InvalidData (''invalid harness work order attempt status '' @ quoted v)))"

record work_order_record =
  wo_id :: string
  wo_target :: uuid128
  wo_project :: string
  wo_schema :: nat
  wo_packet :: string
  wo_created :: timestamp

record submission_record =
  sub_id :: uuid128
  sub_order :: string
  sub_source :: string
  sub_sha :: string
  sub_origin :: string
  sub_parent :: "uuid128 option"
  sub_lint :: string
  sub_submitted :: timestamp

record attempt_record =
  att_id :: uuid128
  att_submission :: uuid128
  att_status :: attempt_status
  att_stage :: attempt_stage
  att_harness :: "uuid128 option"
  att_smoke_run :: "uuid128 option"
  att_result :: "string option"
  att_failure_code :: "string option"
  att_failure_message :: "string option"
  att_started :: timestamp
  att_updated :: timestamp
  att_ended :: "timestamp option"

record attempt_completion =
  ac_expected :: attempt_stage
  ac_status :: attempt_status
  ac_harness :: "uuid128 option"
  ac_smoke_run :: "uuid128 option"
  ac_result :: "string option"
  ac_failure_code :: "string option"
  ac_failure_message :: "string option"
  ac_completed :: timestamp

record work_order_db =
  wd_orders :: "work_order_record list"
  wd_submissions :: "submission_record list"
  wd_attempts :: "attempt_record list"

definition work_order_db_empty :: work_order_db where
  "work_order_db_empty = \<lparr>wd_orders = [], wd_submissions = [], wd_attempts = []\<rparr>"

section \<open>Constraints of the tables\<close>

definition lower_hex :: "string \<Rightarrow> bool" where
  "lower_hex s \<longleftrightarrow> length s = 64 \<and> list_all (\<lambda>c. is_ascii_digit c \<or> (97 \<le> char_code c \<and> char_code c \<le> 102)) s"

definition json_within :: "(string \<Rightarrow> bool) \<Rightarrow> nat \<Rightarrow> string \<Rightarrow> bool" where
  "json_within json_valid n s \<longleftrightarrow> json_valid s \<and> utf8_len s \<le> n"

definition order_checks :: "(string \<Rightarrow> bool) \<Rightarrow> work_order_record \<Rightarrow> bool" where
  "order_checks json_valid r \<longleftrightarrow> lower_hex (wo_id r) \<and> wo_project r \<noteq> [] \<and> wo_schema r = 2
     \<and> json_within json_valid 262144 (wo_packet r)"

definition submission_checks :: "(string \<Rightarrow> bool) \<Rightarrow> submission_record \<Rightarrow> bool" where
  "submission_checks json_valid r \<longleftrightarrow> lower_hex (sub_order r) \<and> 1 \<le> utf8_len (sub_source r) \<and> utf8_len (sub_source r) \<le> 65536
     \<and> lower_hex (sub_sha r) \<and> json_within json_valid 4096 (sub_origin r) \<and> json_within json_valid 65536 (sub_lint r)"

definition attempt_checks :: "(string \<Rightarrow> bool) \<Rightarrow> attempt_record \<Rightarrow> bool" where
  "attempt_checks json_valid r \<longleftrightarrow>
     (case att_result r of None \<Rightarrow> True | Some s \<Rightarrow> json_within json_valid 65536 s)
     \<and> (case att_failure_code r of None \<Rightarrow> True | Some s \<Rightarrow> 1 \<le> utf8_len s \<and> utf8_len s \<le> 128)
     \<and> (case att_failure_message r of None \<Rightarrow> True | Some s \<Rightarrow> 1 \<le> utf8_len s \<and> utf8_len s \<le> 4096)
     \<and> (if att_status r = AttemptRunning then att_stage r \<noteq> StageComplete \<and> att_ended r = None
        else att_stage r = StageComplete \<and> att_ended r \<noteq> None)"

section \<open>Loading\<close>

definition load_work_order :: "work_order_db \<Rightarrow> string \<Rightarrow> work_order_record option" where
  "load_work_order db i = find (\<lambda>r. wo_id r = i) (wd_orders db)"

definition load_submission :: "work_order_db \<Rightarrow> uuid128 \<Rightarrow> submission_record option" where
  "load_submission db i = find (\<lambda>r. sub_id r = i) (wd_submissions db)"

definition load_submission_identity :: "work_order_db \<Rightarrow> submission_record \<Rightarrow> submission_record option" where
  "load_submission_identity db r = find (\<lambda>x. sub_order x = sub_order r \<and> sub_sha x = sub_sha r
     \<and> sub_origin x = sub_origin r \<and> sub_parent x = sub_parent r) (wd_submissions db)"

definition load_attempt :: "work_order_db \<Rightarrow> uuid128 \<Rightarrow> attempt_record option" where
  "load_attempt db i = find (\<lambda>r. att_id r = i) (wd_attempts db)"

definition newest_rows_first :: "(timestamp \<Rightarrow> string) \<Rightarrow> ('a \<Rightarrow> timestamp) \<Rightarrow> ('a \<Rightarrow> 'k::linorder) \<Rightarrow> 'a list \<Rightarrow> 'a list" where
  "newest_rows_first utc_text tm key rows = rev (sort_key (\<lambda>r. (utc_text (tm r), key r)) rows)"

definition list_harness_work_orders :: "(timestamp \<Rightarrow> string) \<Rightarrow> work_order_db \<Rightarrow> string option \<Rightarrow> work_order_record list" where
  "list_harness_work_orders utc_text db project = newest_rows_first utc_text wo_created wo_id
     (case project of Some p \<Rightarrow> filter (\<lambda>r. wo_project r = p) (wd_orders db) | None \<Rightarrow> wd_orders db)"

definition list_harness_work_order_submissions :: "(timestamp \<Rightarrow> string) \<Rightarrow> work_order_db \<Rightarrow> string \<Rightarrow> submission_record list" where
  "list_harness_work_order_submissions utc_text db i =
     newest_rows_first utc_text sub_submitted sub_id (filter (\<lambda>r. sub_order r = i) (wd_submissions db))"

definition list_harness_work_order_attempts :: "(timestamp \<Rightarrow> string) \<Rightarrow> work_order_db \<Rightarrow> uuid128 \<Rightarrow> attempt_record list" where
  "list_harness_work_order_attempts utc_text db i =
     newest_rows_first utc_text att_started att_id (filter (\<lambda>r. att_submission r = i) (wd_attempts db))"

definition list_running_harness_work_order_attempts :: "(timestamp \<Rightarrow> string) \<Rightarrow> work_order_db \<Rightarrow> attempt_record list" where
  "list_running_harness_work_order_attempts utc_text db =
     sort_key (\<lambda>r. (utc_text (att_started r), att_id r)) (filter (\<lambda>r. att_status r = AttemptRunning) (wd_attempts db))"

section \<open>Operations\<close>

definition same_work_order_evidence :: "work_order_record \<Rightarrow> work_order_record \<Rightarrow> bool" where
  "same_work_order_evidence a b \<longleftrightarrow> wo_id a = wo_id b \<and> wo_target a = wo_target b \<and> wo_project a = wo_project b
     \<and> wo_schema a = wo_schema b \<and> wo_packet a = wo_packet b"

definition exact_or_conflict :: "'a \<Rightarrow> 'a \<Rightarrow> string \<Rightarrow> (storage_error, 'a) result" where
  "exact_or_conflict existing incoming message = (if existing = incoming then Inr existing else Inl (InvalidData message))"

definition insert_harness_work_order ::
  "(string \<Rightarrow> bool) \<Rightarrow> work_order_db \<Rightarrow> work_order_record \<Rightarrow> work_order_db \<times> (storage_error, work_order_record) result" where
  "insert_harness_work_order jv db r =
     (if \<not> order_checks jv r then (db, Inl ConstraintViolation)
      else
        let db' = (if load_work_order db (wo_id r) = None then db\<lparr>wd_orders := wd_orders db @ [r]\<rparr> else db)
        in (db', bind_result (ok_or (InvalidData ''work order insert returned no row'') (load_work_order db' (wo_id r)))
              (\<lambda>persisted. if same_work_order_evidence persisted r then Inr persisted
                 else Inl (InvalidData ''work order identifier conflicts''))))"

definition submission_count :: "work_order_db \<Rightarrow> string \<Rightarrow> nat" where
  "submission_count db i = length (filter (\<lambda>r. sub_order r = i) (wd_submissions db))"

definition check_parent :: "work_order_db \<Rightarrow> submission_record \<Rightarrow> (submission_insert_error, unit) result" where
  "check_parent db r = (case sub_parent r of
     None \<Rightarrow> Inr ()
   | Some p \<Rightarrow> (case load_submission db p of
        Some x \<Rightarrow> if sub_order x = sub_order r then Inr () else Inl ParentWorkOrderMismatch
      | None \<Rightarrow> Inl MissingParent))"

definition insert_harness_work_order_submission ::
  "(string \<Rightarrow> bool) \<Rightarrow> work_order_db \<Rightarrow> submission_record \<Rightarrow> work_order_db \<times> (submission_insert_error, submission_record) result" where
  "insert_harness_work_order_submission jv db r = (case load_submission db (sub_id r) of
     Some existing \<Rightarrow>
       (db, case exact_or_conflict existing r ''submission identifier conflicts'' of Inr x \<Rightarrow> Inr x | Inl e \<Rightarrow> Inl (SubmissionStorage e))
   | None \<Rightarrow>
       (case load_submission_identity db r of
          Some existing \<Rightarrow> (db, Inr existing)
        | None \<Rightarrow>
            if load_work_order db (sub_order r) = None then (db, Inl MissingWorkOrder)
            else (case check_parent db r of
                    Inl e \<Rightarrow> (db, Inl e)
                  | Inr _ \<Rightarrow>
                      if submission_count db (sub_order r) \<ge> max_work_order_submissions then (db, Inl SubmissionLimitReached)
                      else if \<not> submission_checks jv r then (db, Inl (SubmissionStorage ConstraintViolation))
                      else (db\<lparr>wd_submissions := wd_submissions db @ [r]\<rparr>, Inr r))))"

definition validate_new_attempt :: "attempt_record \<Rightarrow> (storage_error, unit) result" where
  "validate_new_attempt r =
     (if att_status r \<noteq> AttemptRunning \<or> att_stage r \<noteq> StageCompile \<or> att_harness r \<noteq> None \<or> att_smoke_run r \<noteq> None
         \<or> att_result r \<noteq> None \<or> att_failure_code r \<noteq> None \<or> att_failure_message r \<noteq> None \<or> att_ended r \<noteq> None
         \<or> att_updated r < att_started r
      then Inl (InvalidData ''invalid new harness work order attempt'') else Inr ())"

definition insert_harness_work_order_attempt ::
  "(uuid128 \<Rightarrow> string) \<Rightarrow> work_order_db \<Rightarrow> attempt_record \<Rightarrow> work_order_db \<times> (storage_error, attempt_record) result" where
  "insert_harness_work_order_attempt uuid_text db r = (case validate_new_attempt r of
     Inl e \<Rightarrow> (db, Inl e)
   | Inr _ \<Rightarrow>
       (case load_attempt db (att_id r) of
          Some existing \<Rightarrow> (db, exact_or_conflict existing r ''attempt identifier conflicts'')
        | None \<Rightarrow>
            if load_submission db (att_submission r) = None
            then (db, Inl (RecordNotFound (''submission '' @ uuid_text (att_submission r))))
            else (db\<lparr>wd_attempts := wd_attempts db @ [r]\<rparr>, Inr r)))"

definition valid_stage_transition :: "attempt_stage \<Rightarrow> attempt_stage \<Rightarrow> bool" where
  "valid_stage_transition expected next \<longleftrightarrow>
     (expected = StageCompile \<and> next = StageReview) \<or> (expected = StageReview \<and> next = StageSmoke)"

definition valid_completion :: "attempt_completion \<Rightarrow> bool" where
  "valid_completion c \<longleftrightarrow>
     (ac_expected c = StageCompile \<and> ac_status c = CompileFailed)
     \<or> (ac_expected c = StageReview \<and> ac_status c = ReviewFailed)
     \<or> (ac_expected c = StageSmoke \<and> (ac_status c = SmokeFailed \<or> ac_status c = SmokePassed))"

text \<open>\<^verbatim>\<open>UPDATE ... WHERE id = ? AND ...\<close>: the rows that match, and how many they are.\<close>

definition update_attempts :: "(attempt_record \<Rightarrow> bool) \<Rightarrow> (attempt_record \<Rightarrow> attempt_record) \<Rightarrow> work_order_db \<Rightarrow> work_order_db \<times> nat" where
  "update_attempts P f db =
     (db\<lparr>wd_attempts := map (\<lambda>a. if P a then f a else a) (wd_attempts db)\<rparr>, length (filter P (wd_attempts db)))"

definition coalesce :: "'a option \<Rightarrow> 'a option \<Rightarrow> 'a option" where
  "coalesce a b = (case a of Some x \<Rightarrow> Some x | None \<Rightarrow> b)"

definition at_stage :: "uuid128 \<Rightarrow> attempt_stage \<Rightarrow> attempt_record \<Rightarrow> bool" where
  "at_stage i s a \<longleftrightarrow> att_id a = i \<and> att_status a = AttemptRunning \<and> att_stage a = s"

definition require_one_attempt_row :: "nat \<Rightarrow> string \<Rightarrow> (storage_error, unit) result" where
  "require_one_attempt_row rows message = (if rows = 1 then Inr () else Inl (InvalidData message))"

definition advance_attempt :: "attempt_stage \<Rightarrow> uuid128 option \<Rightarrow> timestamp \<Rightarrow> attempt_record \<Rightarrow> attempt_record" where
  "advance_attempt next h t a = a\<lparr>att_stage := next, att_harness := coalesce (att_harness a) h, att_updated := t\<rparr>"

definition transition_harness_work_order_attempt ::
  "work_order_db \<Rightarrow> uuid128 \<Rightarrow> attempt_stage \<Rightarrow> attempt_stage \<Rightarrow> uuid128 option \<Rightarrow> timestamp
     \<Rightarrow> work_order_db \<times> (storage_error, attempt_record) result" where
  "transition_harness_work_order_attempt db i expected next h t =
     (if \<not> valid_stage_transition expected next
      then (db, Inl (InvalidData ''invalid harness work order attempt stage transition''))
      else
        let (db', rows) = update_attempts (at_stage i expected) (advance_attempt next h t) db
        in (db', bind_result (require_one_attempt_row rows ''attempt stage changed concurrently'') (\<lambda>_.
              ok_or (InvalidData ''transitioned work order attempt is missing'') (load_attempt db' i))))"

definition finish_attempt :: "attempt_completion \<Rightarrow> attempt_record \<Rightarrow> attempt_record" where
  "finish_attempt c a = a\<lparr>att_status := ac_status c, att_stage := StageComplete,
     att_harness := coalesce (att_harness a) (ac_harness c), att_smoke_run := ac_smoke_run c, att_result := ac_result c,
     att_failure_code := ac_failure_code c, att_failure_message := ac_failure_message c,
     att_updated := ac_completed c, att_ended := Some (ac_completed c)\<rparr>"

definition complete_harness_work_order_attempt ::
  "(string \<Rightarrow> bool) \<Rightarrow> work_order_db \<Rightarrow> uuid128 \<Rightarrow> attempt_completion \<Rightarrow> work_order_db \<times> (storage_error, attempt_record) result" where
  "complete_harness_work_order_attempt jv db i c =
     (if \<not> valid_completion c then (db, Inl (InvalidData ''invalid harness work order attempt completion''))
      else if \<exists>a\<in>set (wd_attempts db). at_stage i (ac_expected c) a \<and> \<not> attempt_checks jv (finish_attempt c a)
      then (db, Inl ConstraintViolation)
      else
        let (db', rows) = update_attempts (at_stage i (ac_expected c)) (finish_attempt c) db
        in (db', bind_result (require_one_attempt_row rows ''attempt completion changed concurrently'') (\<lambda>_.
              ok_or (InvalidData ''completed work order attempt is missing'') (load_attempt db' i))))"

definition interrupt_attempt :: "timestamp \<Rightarrow> attempt_record \<Rightarrow> attempt_record" where
  "interrupt_attempt t a = a\<lparr>att_status := Interrupted, att_stage := StageComplete,
     att_failure_code := Some ''attempt_interrupted'',
     att_failure_message := Some ''The application restarted before harness qualification completed.'',
     att_updated := t, att_ended := Some t\<rparr>"

definition recover_harness_work_order_attempt ::
  "work_order_db \<Rightarrow> uuid128 \<Rightarrow> timestamp \<Rightarrow> work_order_db \<times> bool" where
  "recover_harness_work_order_attempt db i t =
     (let (db', rows) = update_attempts (\<lambda>a. att_id a = i \<and> att_status a = AttemptRunning) (interrupt_attempt t) db
      in (db', rows = 1))"

section \<open>Runs\<close>

datatype work_order_op =
    OpOrder work_order_record
  | OpSubmission submission_record
  | OpAttempt attempt_record
  | OpTransition uuid128 attempt_stage attempt_stage "uuid128 option" timestamp
  | OpComplete uuid128 attempt_completion
  | OpRecover uuid128 timestamp

fun work_order_step :: "(string \<Rightarrow> bool) \<Rightarrow> (uuid128 \<Rightarrow> string) \<Rightarrow> work_order_db \<Rightarrow> work_order_op \<Rightarrow> work_order_db" where
  "work_order_step jv ut db (OpOrder r) = fst (insert_harness_work_order jv db r)"
| "work_order_step jv ut db (OpSubmission r) = fst (insert_harness_work_order_submission jv db r)"
| "work_order_step jv ut db (OpAttempt r) = fst (insert_harness_work_order_attempt ut db r)"
| "work_order_step jv ut db (OpTransition i e n h t) = fst (transition_harness_work_order_attempt db i e n h t)"
| "work_order_step jv ut db (OpComplete i c) = fst (complete_harness_work_order_attempt jv db i c)"
| "work_order_step jv ut db (OpRecover i t) = fst (recover_harness_work_order_attempt db i t)"

text \<open>What a step does to the tables: it appends one row, or rewrites the attempts that match.\<close>

datatype table_effect = NoEffect | AddOrder work_order_record | AddSubmission submission_record | AddAttempt attempt_record
  | Rewrite "attempt_record \<Rightarrow> bool" "attempt_record \<Rightarrow> attempt_record"

fun apply_effect :: "table_effect \<Rightarrow> work_order_db \<Rightarrow> work_order_db" where
  "apply_effect NoEffect db = db"
| "apply_effect (AddOrder r) db = db\<lparr>wd_orders := wd_orders db @ [r]\<rparr>"
| "apply_effect (AddSubmission r) db = db\<lparr>wd_submissions := wd_submissions db @ [r]\<rparr>"
| "apply_effect (AddAttempt r) db = db\<lparr>wd_attempts := wd_attempts db @ [r]\<rparr>"
| "apply_effect (Rewrite P f) db = db\<lparr>wd_attempts := map (\<lambda>a. if P a then f a else a) (wd_attempts db)\<rparr>"

text \<open>The rewrites the store performs.\<close>

inductive attempt_move :: "attempt_record \<Rightarrow> attempt_record \<Rightarrow> bool" where
  Advance: "att_status a = AttemptRunning \<Longrightarrow> valid_stage_transition (att_stage a) next \<Longrightarrow> attempt_move a (advance_attempt next h t a)"
| Finish: "att_status a = AttemptRunning \<Longrightarrow> valid_completion c \<Longrightarrow> ac_expected c = att_stage a \<Longrightarrow> attempt_move a (finish_attempt c a)"
| Interrupt: "att_status a = AttemptRunning \<Longrightarrow> attempt_move a (interrupt_attempt t a)"

inductive_cases attempt_moveE: "attempt_move a b"

definition effect_allowed :: "work_order_db \<Rightarrow> table_effect \<Rightarrow> bool" where
  "effect_allowed db e = (case e of
     NoEffect \<Rightarrow> True
   | AddOrder r \<Rightarrow> load_work_order db (wo_id r) = None
   | AddSubmission r \<Rightarrow> load_submission db (sub_id r) = None \<and> load_submission_identity db r = None
       \<and> load_work_order db (sub_order r) \<noteq> None \<and> check_parent db r = Inr ()
       \<and> submission_count db (sub_order r) < max_work_order_submissions
   | AddAttempt r \<Rightarrow> validate_new_attempt r = Inr () \<and> load_attempt db (att_id r) = None
       \<and> load_submission db (att_submission r) \<noteq> None
   | Rewrite P f \<Rightarrow> (\<forall>a. P a \<longrightarrow> attempt_move a (f a)) \<and> (\<exists>i. \<forall>a. P a \<longrightarrow> att_id a = i))"

lemma step_effect: "\<exists>e. effect_allowed db e \<and> work_order_step jv ut db p = apply_effect e db"
proof (cases p)
  case (OpOrder r)
  then show ?thesis
    by (intro exI [of _ "if order_checks jv r \<and> load_work_order db (wo_id r) = None then AddOrder r else NoEffect"])
      (auto simp: effect_allowed_def insert_harness_work_order_def Let_def)
next
  case (OpSubmission r)
  let ?ok = "effect_allowed db (AddSubmission r) \<and> submission_checks jv r"
  have "work_order_step jv ut db p = apply_effect (if ?ok then AddSubmission r else NoEffect) db"
    using OpSubmission by (auto simp: effect_allowed_def insert_harness_work_order_submission_def split: option.splits sum.splits)
  then show ?thesis by (intro exI [of _ "if ?ok then AddSubmission r else NoEffect"]) (simp add: effect_allowed_def)
next
  case (OpAttempt r)
  let ?ok = "effect_allowed db (AddAttempt r)"
  have "work_order_step jv ut db p = apply_effect (if ?ok then AddAttempt r else NoEffect) db"
    using OpAttempt by (auto simp: effect_allowed_def insert_harness_work_order_attempt_def split: option.splits sum.splits)
  then show ?thesis by (intro exI [of _ "if ?ok then AddAttempt r else NoEffect"]) (simp add: effect_allowed_def)
next
  case (OpTransition i e n h t)
  then show ?thesis
    by (intro exI [of _ "if valid_stage_transition e n then Rewrite (at_stage i e) (advance_attempt n h t) else NoEffect"])
      (auto simp: effect_allowed_def transition_harness_work_order_attempt_def update_attempts_def at_stage_def intro: Advance)
next
  case (OpComplete i c)
  let ?e = "if valid_completion c \<and> \<not> (\<exists>a\<in>set (wd_attempts db). at_stage i (ac_expected c) a \<and> \<not> attempt_checks jv (finish_attempt c a))
    then Rewrite (at_stage i (ac_expected c)) (finish_attempt c) else NoEffect"
  have "work_order_step jv ut db p = apply_effect ?e db"
    using OpComplete by (auto simp: complete_harness_work_order_attempt_def update_attempts_def)
  moreover have "effect_allowed db ?e" by (auto simp: effect_allowed_def at_stage_def intro: Finish)
  ultimately show ?thesis by blast
next
  case (OpRecover i t)
  then show ?thesis
    by (intro exI [of _ "Rewrite (\<lambda>a. att_id a = i \<and> att_status a = AttemptRunning) (interrupt_attempt t)"])
      (auto simp: effect_allowed_def recover_harness_work_order_attempt_def update_attempts_def intro: Interrupt)
qed

section \<open>The invariant of the tables\<close>

text \<open>A running attempt carries no outcome; a terminal one is complete and ended when last updated.\<close>

definition qualification_ok :: "attempt_record \<Rightarrow> bool" where
  "qualification_ok a \<longleftrightarrow> (if att_status a = AttemptRunning
     then att_stage a \<noteq> StageComplete \<and> att_ended a = None \<and> att_smoke_run a = None \<and> att_result a = None
       \<and> att_failure_code a = None \<and> att_failure_message a = None
     else att_stage a = StageComplete \<and> att_ended a = Some (att_updated a))"

text \<open>Every repair parent is an earlier submission to the same work order.\<close>

definition ancestry_ok :: "submission_record list \<Rightarrow> bool" where
  "ancestry_ok subs \<longleftrightarrow> (\<forall>k < length subs. \<forall>p. sub_parent (subs ! k) = Some p \<longrightarrow>
     (\<exists>j < k. sub_id (subs ! j) = p \<and> sub_order (subs ! j) = sub_order (subs ! k)))"

definition identity_of_submission :: "submission_record \<Rightarrow> string \<times> string \<times> string \<times> uuid128 option" where
  "identity_of_submission s = (sub_order s, sub_sha s, sub_origin s, sub_parent s)"

definition work_order_db_ok :: "work_order_db \<Rightarrow> bool" where
  "work_order_db_ok db \<longleftrightarrow>
     distinct (map wo_id (wd_orders db)) \<and> distinct (map sub_id (wd_submissions db)) \<and> distinct (map att_id (wd_attempts db))
     \<and> (\<forall>s\<in>set (wd_submissions db). sub_order s \<in> wo_id ` set (wd_orders db))
     \<and> distinct (map identity_of_submission (wd_submissions db))
     \<and> ancestry_ok (wd_submissions db)
     \<and> (\<forall>i. submission_count db i \<le> max_work_order_submissions)
     \<and> (\<forall>a\<in>set (wd_attempts db). att_submission a \<in> sub_id ` set (wd_submissions db) \<and> qualification_ok a)"

lemma load_work_order_None: "load_work_order db i = None \<longleftrightarrow> i \<notin> wo_id ` set (wd_orders db)"
  by (auto simp: load_work_order_def find_None_iff)

lemma load_submission_None: "load_submission db i = None \<longleftrightarrow> i \<notin> sub_id ` set (wd_submissions db)"
  by (auto simp: load_submission_def find_None_iff)

lemma load_attempt_None: "load_attempt db i = None \<longleftrightarrow> i \<notin> att_id ` set (wd_attempts db)"
  by (auto simp: load_attempt_def find_None_iff)

lemma load_identity_None:
  "load_submission_identity db r = None \<longleftrightarrow> identity_of_submission r \<notin> identity_of_submission ` set (wd_submissions db)"
  by (auto simp: load_submission_identity_def find_None_iff identity_of_submission_def image_iff)

lemma ancestry_snoc:
  assumes "ancestry_ok subs" "\<And>p. sub_parent r = Some p \<Longrightarrow> \<exists>s\<in>set subs. sub_id s = p \<and> sub_order s = sub_order r"
  shows "ancestry_ok (subs @ [r])"
  unfolding ancestry_ok_def
proof (intro allI impI)
  fix k p
  assume k: "k < length (subs @ [r])" and p: "sub_parent ((subs @ [r]) ! k) = Some p"
  show "\<exists>j<k. sub_id ((subs @ [r]) ! j) = p \<and> sub_order ((subs @ [r]) ! j) = sub_order ((subs @ [r]) ! k)"
  proof (cases "k < length subs")
    case True
    then obtain j where "j < k" "sub_id (subs ! j) = p" "sub_order (subs ! j) = sub_order (subs ! k)"
      using assms(1) p by (auto simp: ancestry_ok_def nth_append)
    with True show ?thesis by (intro exI [of _ j]) (simp add: nth_append)
  next
    case False
    then have kl: "k = length subs" using k by simp
    then have "sub_parent r = Some p" using p by simp
    then obtain x where "x \<in> set subs" "sub_id x = p" "sub_order x = sub_order r" using assms(2) by blast
    moreover from this obtain j where "j < length subs" "subs ! j = x" by (auto simp: in_set_conv_nth)
    ultimately show ?thesis unfolding kl by (intro exI [of _ j]) (simp add: nth_append)
  qed
qed

lemma check_parent_ok:
  "check_parent db r = Inr () \<Longrightarrow> sub_parent r = Some p \<Longrightarrow>
     \<exists>s\<in>set (wd_submissions db). sub_id s = p \<and> sub_order s = sub_order r"
  by (auto simp: check_parent_def load_submission_def dest: find_Some_iff_first split: option.splits if_splits)

lemma move_ok: "attempt_move a b \<Longrightarrow> qualification_ok a \<Longrightarrow> qualification_ok b \<and> att_id b = att_id a \<and> att_submission b = att_submission a"
  by (auto simp: qualification_ok_def advance_attempt_def finish_attempt_def interrupt_attempt_def valid_stage_transition_def
      valid_completion_def elim!: attempt_moveE)

lemma move_keeps:
  "attempt_move a b \<Longrightarrow> att_id b = att_id a \<and> att_submission b = att_submission a \<and> att_started b = att_started a"
  by (auto simp: advance_attempt_def finish_attempt_def interrupt_attempt_def elim!: attempt_moveE)

lemma effect_keeps_ok:
  assumes "work_order_db_ok db" "effect_allowed db e"
  shows "work_order_db_ok (apply_effect e db)"
proof (cases e)
  case (AddSubmission r)
  then have a: "effect_allowed db (AddSubmission r)" using assms(2) by simp
  have "ancestry_ok (wd_submissions db @ [r])"
    using assms(1) a by (intro ancestry_snoc check_parent_ok) (auto simp: work_order_db_ok_def effect_allowed_def)
  moreover have "submission_count (apply_effect e db) i \<le> max_work_order_submissions" for i
    using assms(1) a AddSubmission by (auto simp: work_order_db_ok_def effect_allowed_def submission_count_def)
  ultimately show ?thesis
    using assms(1) a AddSubmission
    by (auto simp: work_order_db_ok_def effect_allowed_def load_submission_None load_identity_None load_work_order_None)
next
  case (Rewrite P f)
  let ?g = "\<lambda>a. if P a then f a else a"
  have ids: "map att_id (map ?g (wd_attempts db)) = map att_id (wd_attempts db)"
    using assms(2) Rewrite by (auto simp: effect_allowed_def dest: move_keeps)
  have "qualification_ok (?g a) \<and> att_submission (?g a) = att_submission a" if "a \<in> set (wd_attempts db)" for a
    using assms that Rewrite move_ok [of a "f a"] by (auto simp: effect_allowed_def work_order_db_ok_def)
  then have "\<forall>a\<in>set (map ?g (wd_attempts db)). att_submission a \<in> sub_id ` set (wd_submissions db) \<and> qualification_ok a"
    using assms(1) by (fastforce simp: work_order_db_ok_def)
  moreover have "distinct (map att_id (map ?g (wd_attempts db)))" using assms(1) unfolding ids by (simp add: work_order_db_ok_def)
  ultimately show ?thesis
    using assms(1) Rewrite by (simp add: work_order_db_ok_def submission_count_def del: map_map set_map)
qed (use assms in \<open>auto simp: work_order_db_ok_def effect_allowed_def load_work_order_None load_attempt_None
      load_submission_None submission_count_def qualification_ok_def validate_new_attempt_def split: if_splits\<close>)

lemma work_order_step_ok: "work_order_db_ok db \<Longrightarrow> work_order_db_ok (work_order_step jv ut db p)"
  using step_effect [of db jv ut p] effect_keeps_ok by metis

interpretation work_orders: invariant_machine "work_order_step jv ut" work_order_db_ok
  by unfold_locales (rule work_order_step_ok)

lemma work_order_empty_ok: "work_order_db_ok work_order_db_empty"
  by (simp add: work_order_db_ok_def work_order_db_empty_def ancestry_ok_def submission_count_def)

text \<open>C27. Under any sequence of insertions, transitions, completions and recoveries the work order tables
  stay consistent: identifiers and submission identities are unique, every submission belongs to a
  stored order and repairs an earlier submission to the same order (so ancestry never cycles), no
  order has more than 20 submissions, every attempt belongs to a stored submission, a running
  attempt carries no outcome and a terminal one is complete and ended.\<close>

theorem work_order_tables_consistent: "work_order_db_ok (foldl (work_order_step jv ut) work_order_db_empty ops)"
  by (rule work_orders.run_inv [OF work_order_empty_ok])

section \<open>History\<close>

definition stage_rank :: "attempt_stage \<Rightarrow> nat" where
  "stage_rank s = (case s of StageCompile \<Rightarrow> 0 | StageReview \<Rightarrow> 1 | StageSmoke \<Rightarrow> 2 | StageComplete \<Rightarrow> 3)"

text \<open>What may become of a stored attempt: its identity is fixed, a terminal outcome is final, stages
  only advance, and a harness once recorded stays.\<close>

definition evolves :: "attempt_record \<Rightarrow> attempt_record \<Rightarrow> bool" where
  "evolves a b \<longleftrightarrow> att_id b = att_id a \<and> att_submission b = att_submission a \<and> att_started b = att_started a
     \<and> (att_status a \<noteq> AttemptRunning \<longrightarrow> b = a) \<and> stage_rank (att_stage a) \<le> stage_rank (att_stage b)
     \<and> (att_harness a \<noteq> None \<longrightarrow> att_harness b = att_harness a)"

definition extends :: "work_order_db \<Rightarrow> work_order_db \<Rightarrow> bool" where
  "extends db db' \<longleftrightarrow> (\<exists>z. wd_orders db' = wd_orders db @ z) \<and> (\<exists>z. wd_submissions db' = wd_submissions db @ z)
     \<and> (\<exists>as z. wd_attempts db' = as @ z \<and> list_all2 evolves (wd_attempts db) as)"

lemma evolves_refl: "evolves a a"
  by (simp add: evolves_def)

lemma evolves_trans: "evolves a b \<Longrightarrow> evolves b c \<Longrightarrow> evolves a c"
  by (auto simp: evolves_def)

lemma move_evolves: "attempt_move a b \<Longrightarrow> evolves a b"
  by (auto simp: evolves_def advance_attempt_def finish_attempt_def interrupt_attempt_def coalesce_def stage_rank_def
      valid_stage_transition_def split: attempt_stage.splits option.splits elim!: attempt_moveE)

lemma extendsI:
  "wd_orders db' = wd_orders db @ x \<Longrightarrow> wd_submissions db' = wd_submissions db @ y \<Longrightarrow>
   wd_attempts db' = as @ z \<Longrightarrow> list_all2 evolves (wd_attempts db) as \<Longrightarrow> extends db db'"
  by (auto simp: extends_def)

lemma all_evolve: "list_all2 evolves as as"
  by (simp add: list_all2_refl evolves_refl)

lemma effect_extends: "effect_allowed db e \<Longrightarrow> extends db (apply_effect e db)"
proof (cases e)
  case (Rewrite P f)
  assume "effect_allowed db e"
  then have "list_all2 evolves (wd_attempts db) (map (\<lambda>a. if P a then f a else a) (wd_attempts db))"
    using Rewrite by (auto simp: effect_allowed_def list_all2_conv_all_nth evolves_refl intro: move_evolves)
  then show ?thesis using Rewrite by (intro extendsI [where x = "[]" and y = "[]" and z = "[]"]) simp_all
qed (auto intro: extendsI [OF _ _ _ all_evolve])

lemma extends_trans:
  assumes "extends a b" "extends b c"
  shows "extends a c"
proof -
  obtain x z where x: "wd_attempts b = x @ z" "list_all2 evolves (wd_attempts a) x"
    using assms(1) by (auto simp: extends_def)
  obtain y w where y: "wd_attempts c = y @ w" "list_all2 evolves (x @ z) y"
    using assms(2) by (auto simp: extends_def x(1))
  then obtain y1 y2 where "y = y1 @ y2" "list_all2 evolves x y1" by (auto simp: list_all2_append1)
  moreover from this have "list_all2 evolves (wd_attempts a) y1"
    by (intro list_all2_trans [OF evolves_trans x(2)])
  moreover obtain u v where "wd_orders b = wd_orders a @ u" "wd_orders c = wd_orders b @ v"
    using assms by (auto simp: extends_def)
  moreover obtain u' v' where "wd_submissions b = wd_submissions a @ u'" "wd_submissions c = wd_submissions b @ v'"
    using assms by (auto simp: extends_def)
  ultimately show ?thesis using y(1) by (intro extendsI [of c a "u @ v" "u' @ v'" y1 "y2 @ w"]) simp_all
qed

interpretation work_order_history: monotone_machine "work_order_step jv ut" extends
proof
  show "extends db db" for db by (rule extendsI [where x = "[]" and y = "[]" and z = "[]", OF _ _ _ all_evolve]) simp_all
  show "extends a b \<Longrightarrow> extends b c \<Longrightarrow> extends a c" for a b c by (rule extends_trans)
  show "extends db (work_order_step jv ut db p)" for db p
    using step_effect [of db jv ut p] effect_extends by metis
qed

text \<open>Evidence is never rewritten: whatever operations follow, stored work orders and submissions stay
  exactly as they were, in their place; an attempt keeps its identity and start, its stage only
  advances, its recorded harness stays, and once terminal its row never changes again.\<close>

theorem work_order_evidence_immutable: "extends db (foldl (work_order_step jv ut) db ops)"
  by (rule work_order_history.run_below)

section \<open>The life of an attempt\<close>

text \<open>The abstract qualification: absent, in a stage, or done.\<close>

datatype phase = Absent | InStage attempt_stage | Done attempt_status

inductive phase_step :: "phase \<Rightarrow> phase \<Rightarrow> bool" where
  Start: "phase_step Absent (InStage StageCompile)"
| ToReview: "phase_step (InStage StageCompile) (InStage StageReview)"
| ToSmoke: "phase_step (InStage StageReview) (InStage StageSmoke)"
| CompileFails: "phase_step (InStage StageCompile) (Done CompileFailed)"
| ReviewFails: "phase_step (InStage StageReview) (Done ReviewFailed)"
| SmokeFails: "phase_step (InStage StageSmoke) (Done SmokeFailed)"
| SmokePasses: "phase_step (InStage StageSmoke) (Done SmokePassed)"
| Interruption: "s \<noteq> StageComplete \<Longrightarrow> phase_step (InStage s) (Done Interrupted)"

inductive_simps phase_step_simps [simp]: "phase_step (InStage s) q" "phase_step Absent q" "phase_step (Done s) q"

definition phase_of_attempt :: "attempt_record \<Rightarrow> phase" where
  "phase_of_attempt a = (if att_status a = AttemptRunning then InStage (att_stage a) else Done (att_status a))"

definition phase_of :: "work_order_db \<Rightarrow> uuid128 \<Rightarrow> phase" where
  "phase_of db i = (case load_attempt db i of None \<Rightarrow> Absent | Some a \<Rightarrow> phase_of_attempt a)"

lemma move_phase: "attempt_move a b \<Longrightarrow> qualification_ok a \<Longrightarrow> phase_step (phase_of_attempt a) (phase_of_attempt b)"
  by (auto simp: phase_of_attempt_def qualification_ok_def advance_attempt_def finish_attempt_def interrupt_attempt_def
      valid_stage_transition_def valid_completion_def elim!: attempt_moveE)

lemma find_map_same: "(\<And>a. key (g a) = key a) \<Longrightarrow> find (\<lambda>a. key a = i) (map g xs) = map_option g (find (\<lambda>a. key a = i) xs)"
  by (induction xs) auto

lemma find_last_row: "find P (xs @ [x]) = (case find P xs of None \<Rightarrow> if P x then Some x else None | Some y \<Rightarrow> Some y)"
  by (induction xs) auto

lemma effect_phase:
  assumes "work_order_db_ok db" "effect_allowed db e"
  shows "phase_of (apply_effect e db) i = phase_of db i \<or> phase_step (phase_of db i) (phase_of (apply_effect e db) i)"
proof (cases e)
  case (AddAttempt r)
  then have v: "validate_new_attempt r = Inr ()" "load_attempt db (att_id r) = None"
    using assms(2) by (auto simp: effect_allowed_def)
  have "load_attempt (apply_effect e db) i = (if att_id r = i then Some r else load_attempt db i)"
    using AddAttempt v(2) by (auto simp: load_attempt_def find_last_row split: option.splits)
  with v show ?thesis
    by (auto simp: phase_of_def phase_of_attempt_def validate_new_attempt_def split: if_splits)
next
  case (Rewrite P f)
  let ?g = "\<lambda>a. if P a then f a else a"
  have mv: "P a \<Longrightarrow> attempt_move a (f a)" for a using assms(2) Rewrite by (simp add: effect_allowed_def)
  have ld: "load_attempt (apply_effect e db) i = map_option ?g (load_attempt db i)"
    unfolding load_attempt_def Rewrite apply_effect.simps using mv move_keeps
    by (simp add: find_map_same [where key = att_id])
  show ?thesis
  proof (cases "load_attempt db i")
    case (Some a)
    then have "qualification_ok a" using assms(1)
      by (auto simp: load_attempt_def work_order_db_ok_def dest: find_Some_iff_first)
    with Some ld mv [of a] move_phase show ?thesis by (auto simp: phase_of_def)
  qed (simp add: phase_of_def ld)
qed (auto simp: phase_of_def load_attempt_def)

text \<open>C28. Every operation refines the abstract qualification of each attempt: it leaves its phase alone or
  makes one legal step, so an attempt starts in compile, moves only to review and then smoke, fails
  only in the stage it is in, and counts as passed only out of smoke; nothing leaves a final phase.\<close>

theorem attempt_lifecycle_refines:
  "let db = foldl (work_order_step jv ut) work_order_db_empty ops; db' = work_order_step jv ut db p
   in phase_of db' i = phase_of db i \<or> phase_step (phase_of db i) (phase_of db' i)"
proof -
  let ?db = "foldl (work_order_step jv ut) work_order_db_empty ops"
  have "work_order_db_ok ?db" by (rule work_orders.run_inv [OF work_order_empty_ok])
  moreover obtain e where "effect_allowed ?db e" "work_order_step jv ut ?db p = apply_effect e ?db" using step_effect by blast
  ultimately show ?thesis using effect_phase [of ?db e] by (auto simp: Let_def)
qed

lemma codes_roundtrip: "stage_parse (stage_str s) = Inr s" "status_parse (status_str t) = Inr t"
  by (cases s; simp add: stage_parse_def stage_str_def) (cases t; simp add: status_parse_def status_str_def)

end
