(* ===== verification/Diagnostic_Text.thy ===== *)
theory Diagnostic_Text
  imports Text
begin

text \<open>
  The public form of a failure message, \<^verbatim>\<open>sanitize_work_order_diagnostic\<close> and its helpers in
  \<^verbatim>\<open>crates/hf-service/src/harness_work_order.rs\<close>: control characters become blanks, the message is cut
  into tokens, credentials and absolute paths are redacted token by token, and the result is bounded
  in bytes. The source addresses a token by byte offsets that always fall on characters; the model
  uses the position of the character. Text has code points below 256.
\<close>

section \<open>Characters\<close>

definition is_control :: "char \<Rightarrow> bool" where
  "is_control c \<longleftrightarrow> char_code c < 32 \<or> (127 \<le> char_code c \<and> char_code c < 160)"

definition is_ascii_punctuation :: "char \<Rightarrow> bool" where
  "is_ascii_punctuation c \<longleftrightarrow> 33 \<le> char_code c \<and> char_code c \<le> 126 \<and> \<not> is_ascii_alphanumeric c"

definition is_ascii_alphabetic :: "char \<Rightarrow> bool" where
  "is_ascii_alphabetic c \<longleftrightarrow> (65 \<le> char_code c \<and> char_code c \<le> 90) \<or> (97 \<le> char_code c \<and> char_code c \<le> 122)"

text \<open>\<^verbatim>\<open>char::is_alphanumeric\<close>: ASCII, and the letters and numbers of Latin-1.\<close>

definition is_alphanumeric :: "char \<Rightarrow> bool" where
  "is_alphanumeric c \<longleftrightarrow> (let n = char_code c in
     is_ascii_alphanumeric c \<or> n \<in> {170, 178, 179, 181, 185, 186, 188, 189, 190}
     \<or> (192 \<le> n \<and> n \<noteq> 215 \<and> n \<noteq> 247))"

definition trim_end_punct :: "string \<Rightarrow> string" where
  "trim_end_punct s = rev (dropWhile is_ascii_punctuation (rev s))"

definition trim_start_punct :: "string \<Rightarrow> string" where
  "trim_start_punct s = dropWhile is_ascii_punctuation s"

definition trim_ascii_punctuation :: "string \<Rightarrow> string" where
  "trim_ascii_punctuation s = trim_end_punct (trim_start_punct s)"

definition ascii_case_prefix :: "string \<Rightarrow> string \<Rightarrow> bool" where
  "ascii_case_prefix v p \<longleftrightarrow> length p \<le> length v \<and> eq_ignore_ascii_case (take (length p) v) p"

section \<open>Credentials\<close>

definition diagnostic_secret_keys :: "string list" where
  "diagnostic_secret_keys = [''password'', ''secret'', ''token'', ''api_key'', ''api-key'', ''apikey'']"

definition diagnostic_secret_prefixes :: "string list" where
  "diagnostic_secret_prefixes = [''sk-'', ''ghp_'', ''github_pat_'', ''xoxb-'', ''xoxp-'', ''xoxa-'', ''hf_'']"

definition secret_key :: "string \<Rightarrow> bool" where
  "secret_key v \<longleftrightarrow> list_ex (eq_ignore_ascii_case v) diagnostic_secret_keys"

definition secret_key_at :: "string \<Rightarrow> string option" where
  "secret_key_at v = find (ascii_case_prefix v) diagnostic_secret_keys"

definition secret_value_starts :: "string \<Rightarrow> bool" where
  "secret_value_starts v \<longleftrightarrow> list_ex (ascii_case_prefix v) diagnostic_secret_prefixes
     \<or> (utf8_len v > 8 \<and> ascii_case_prefix v ''akia'')"

definition marker_is_complete :: "string \<Rightarrow> nat \<Rightarrow> nat \<Rightarrow> string \<Rightarrow> bool" where
  "marker_is_complete tok i fin marker \<longleftrightarrow> i + length marker = fin \<and> ascii_case_prefix (drop i tok) marker"

text \<open>The position after the first \<^verbatim>\<open>=\<close> or \<^verbatim>\<open>:\<close> that follows the marker across punctuation only.\<close>

fun delimiter_from :: "nat \<Rightarrow> string \<Rightarrow> nat option" where
  "delimiter_from n [] = None"
| "delimiter_from n (c # cs) =
     (if c = CHR ''='' \<or> c = CHR '':'' then Some (Suc n)
      else if \<not> is_ascii_punctuation c then None
      else delimiter_from (Suc n) cs)"

definition assignment_delimiter :: "string \<Rightarrow> nat \<Rightarrow> nat option" where
  "assignment_delimiter v marker = delimiter_from marker (drop marker v)"

definition redacted :: string where
  "redacted = ''<redacted>''"

text \<open>A marker at position \<open>i\<close>: the replacement of the token and the new \<^verbatim>\<open>redact_next\<close>.\<close>

definition redact_key_at :: "string \<Rightarrow> nat \<Rightarrow> nat \<Rightarrow> bool \<Rightarrow> (string \<times> bool) option" where
  "redact_key_at tok i fin next =
     (let suffix = drop i tok in
      case secret_key_at suffix of
        None \<Rightarrow> None
      | Some key \<Rightarrow>
          if marker_is_complete tok i fin key then Some (tok, True)
          else case assignment_delimiter suffix (length key) of
                 None \<Rightarrow> None
               | Some d \<Rightarrow>
                   Some (take i tok @ take d suffix @ redacted,
                     next \<or> drop d suffix = [] \<or> eq_ignore_ascii_case (trim_ascii_punctuation (drop d suffix)) ''bearer''))"

definition redact_authorization_at :: "string \<Rightarrow> nat \<Rightarrow> bool \<Rightarrow> (string \<times> bool) option" where
  "redact_authorization_at tok i next =
     (let suffix = drop i tok in
      if ascii_case_prefix suffix ''authorization'' then
        (case assignment_delimiter suffix (length ''authorization'') of
           None \<Rightarrow> None
         | Some d \<Rightarrow>
             Some (take i tok @ take d suffix @ redacted,
               next \<or> eq_ignore_ascii_case (trim_ascii_punctuation (drop d suffix)) ''bearer''))
      else None)"

definition redact_marker_at :: "string \<Rightarrow> nat \<Rightarrow> nat \<Rightarrow> bool \<Rightarrow> (string \<times> bool) option" where
  "redact_marker_at tok i fin next =
     (if marker_is_complete tok i fin ''bearer'' then Some (take i tok @ ''Bearer'', True)
      else case redact_key_at tok i fin next of
             Some r \<Rightarrow> Some r
           | None \<Rightarrow>
               (case redact_authorization_at tok i next of
                  Some r \<Rightarrow> Some r
                | None \<Rightarrow> if secret_value_starts (drop i tok) then Some (take i tok @ redacted, next) else None))"

text \<open>The loop over the characters of a token; \<open>rest\<close> is what follows position \<open>i\<close>.\<close>

fun scan_markers :: "string \<Rightarrow> nat \<Rightarrow> bool \<Rightarrow> nat \<Rightarrow> string \<Rightarrow> bool \<Rightarrow> (string \<times> bool) option" where
  "scan_markers tok fin start i [] next = None"
| "scan_markers tok fin start i (c # rest) next =
     (case (if start then redact_marker_at tok i fin next else None) of
        Some r \<Rightarrow> Some r
      | None \<Rightarrow> scan_markers tok fin (\<not> is_alphanumeric c) (Suc i) rest next)"

section \<open>Paths\<close>

definition windows_root :: "string \<Rightarrow> bool" where
  "windows_root s \<longleftrightarrow> (case s of a # b # c # _ \<Rightarrow> is_ascii_alphabetic a \<and> b = CHR '':'' \<and> (c = CHR ''/'' \<or> c = CHR 0x5C) | _ \<Rightarrow> False)"

definition word_byte :: "char \<Rightarrow> bool" where
  "word_byte c \<longleftrightarrow> is_ascii_alphanumeric c \<or> c = CHR ''_''"

text \<open>\<open>pre\<close> is what was passed, reversed.\<close>

fun absolute_path_from :: "string \<Rightarrow> string \<Rightarrow> string option" where
  "absolute_path_from pre [] = None"
| "absolute_path_from pre (c # cs) =
     (if (pre = [] \<or> \<not> word_byte (hd pre)) \<and> (c = CHR ''/'' \<or> windows_root (c # cs))
      then Some (rev pre @ ''<redacted-path>'')
      else absolute_path_from (c # pre) cs)"

definition redact_absolute_path :: "string \<Rightarrow> string option" where
  "redact_absolute_path tok = absolute_path_from [] tok"

section \<open>Messages\<close>

definition sanitize_diagnostic_token :: "string \<Rightarrow> bool \<Rightarrow> string \<times> bool" where
  "sanitize_diagnostic_token tok next =
     (if next then (redacted, False)
      else
        let fin = length (trim_end_punct tok);
            normalized = trim_start_punct (take fin tok)
        in if eq_ignore_ascii_case normalized ''bearer'' then (''Bearer'', True)
           else if secret_key normalized then (tok, True)
           else if secret_value_starts normalized then (redacted, next)
           else case scan_markers tok fin True 0 tok next of
                  Some r \<Rightarrow> r
                | None \<Rightarrow> (case redact_absolute_path tok of Some t \<Rightarrow> t | None \<Rightarrow> tok, next))"

fun sanitize_tokens :: "bool \<Rightarrow> string list \<Rightarrow> string list" where
  "sanitize_tokens next [] = []"
| "sanitize_tokens next (t # ts) =
     (case sanitize_diagnostic_token t next of (u, next') \<Rightarrow> u # sanitize_tokens next' ts)"

text \<open>\<^verbatim>\<open>bounded_utf8\<close>: the longest prefix of whole characters within the bound.\<close>

fun take_bytes :: "nat \<Rightarrow> string \<Rightarrow> string" where
  "take_bytes n [] = []"
| "take_bytes n (c # cs) = (if utf8_len [c] \<le> n then c # take_bytes (n - utf8_len [c]) cs else [])"

definition bounded_utf8 :: "string \<Rightarrow> nat \<Rightarrow> string" where
  "bounded_utf8 v n = (if utf8_len v \<le> n then v else take_bytes n v)"

definition blank_controls :: "string \<Rightarrow> string" where
  "blank_controls s = map (\<lambda>c. if is_control c \<and> \<not> is_ws c then CHR '' '' else c) s"

definition sanitize_work_order_diagnostic :: "string \<Rightarrow> nat \<Rightarrow> string" where
  "sanitize_work_order_diagnostic message maximum_bytes =
     trim_end (bounded_utf8 (str_join '' '' (sanitize_tokens False (split_whitespace (blank_controls message)))) maximum_bytes)"

section \<open>Credential values at word starts\<close>

definition secret_at :: "string \<Rightarrow> bool" where
  "secret_at v \<longleftrightarrow> list_ex (ascii_case_prefix v) diagnostic_secret_prefixes"

text \<open>A known credential prefix begins somewhere after a character that is not alphanumeric, or at the
  start when \<open>st\<close>.\<close>

fun exposes :: "bool \<Rightarrow> string \<Rightarrow> bool" where
  "exposes st [] = False"
| "exposes st (c # cs) = (st \<and> secret_at (c # cs) \<or> exposes (\<not> is_alphanumeric c) cs)"

lemma starts_with_iff: "starts_with p s \<longleftrightarrow> take (length p) s = p"
  by (induction p s rule: starts_with.induct) auto

lemma starts_with_extend: "starts_with p x \<Longrightarrow> starts_with p (x @ y)"
  by (induction p x rule: starts_with.induct) auto

lemma starts_with_before: "starts_with p (x @ d # y) \<Longrightarrow> d \<notin> set p \<Longrightarrow> starts_with p x"
  by (induction p x rule: starts_with.induct) auto

lemma lower_idem: "ascii_lower_char (ascii_lower_char c) = ascii_lower_char c"
  by (auto simp: ascii_lower_char_def Let_def char_code_char_of)

lemma to_ascii_lowercase_append [simp]: "to_ascii_lowercase (a @ b) = to_ascii_lowercase a @ to_ascii_lowercase b"
  by (simp add: to_ascii_lowercase_def)

lemma case_prefix_lower:
  "to_ascii_lowercase p = p \<Longrightarrow> ascii_case_prefix v p \<longleftrightarrow> starts_with p (to_ascii_lowercase v)"
  by (auto simp: ascii_case_prefix_def eq_ignore_ascii_case_def starts_with_iff to_ascii_lowercase_def take_map
      dest: arg_cong [of _ _ length])

lemma prefixes_lower: "p \<in> set diagnostic_secret_prefixes \<Longrightarrow> to_ascii_lowercase p = p"
  by (auto simp: diagnostic_secret_prefixes_def to_ascii_lowercase_def ascii_lower_char_def char_code_def)

lemma secret_at_lower: "secret_at v \<longleftrightarrow> (\<exists>p\<in>set diagnostic_secret_prefixes. starts_with p (to_ascii_lowercase v))"
  by (auto simp: secret_at_def list_ex_iff case_prefix_lower prefixes_lower)

text \<open>The separators that redaction and joining insert are in no credential prefix.\<close>

lemma separator_not_in: "p \<in> set diagnostic_secret_prefixes \<Longrightarrow> CHR ''<'' \<notin> set p \<and> CHR '' '' \<notin> set p"
  by (auto simp: diagnostic_secret_prefixes_def)

lemma lower_separator [simp]: "ascii_lower_char (CHR ''<'') = CHR ''<''" "ascii_lower_char (CHR '' '') = CHR '' ''"
  by (simp_all add: ascii_lower_char_def char_code_def)

lemma secret_at_extend: "secret_at x \<Longrightarrow> secret_at (x @ y)"
  by (auto simp: secret_at_lower intro: starts_with_extend)

lemma secret_at_before: "secret_at (x @ d # y) \<Longrightarrow> d = CHR ''<'' \<or> d = CHR '' '' \<Longrightarrow> secret_at x"
  by (auto simp: secret_at_lower to_ascii_lowercase_def) (metis separator_not_in starts_with_before)+

lemma not_secret_separator: "d = CHR ''<'' \<or> d = CHR '' '' \<Longrightarrow> \<not> secret_at (d # y)"
  using secret_at_before [of "[]" d y] by (auto simp: secret_at_def ascii_case_prefix_def diagnostic_secret_prefixes_def)

lemma exposes_mono: "exposes st s \<Longrightarrow> exposes True s"
  by (cases s) auto

lemma exposes_prefix: "exposes st x \<Longrightarrow> exposes st (x @ y)"
  using secret_at_extend by (induction x arbitrary: st) fastforce+

lemma exposes_separated:
  assumes "d = CHR ''<'' \<or> d = CHR '' ''" "\<not> exposes st (x @ z)" "\<not> exposes True y"
  shows "\<not> exposes st (x @ d # y)"
  using assms(2)
proof (induction x arbitrary: st)
  case Nil
  then show ?case using assms(1,3) not_secret_separator [OF assms(1)] exposes_mono by auto
next
  case (Cons c x)
  then show ?case using secret_at_before [of "c # x" d y] secret_at_extend [of "c # x" z] assms(1) by auto
qed

text \<open>ASCII case plays no role.\<close>

lemma alnum_lower: "is_alphanumeric (ascii_lower_char c) = is_alphanumeric c"
  by (auto simp: is_alphanumeric_def ascii_lower_char_def Let_def char_code_char_of is_ascii_alphanumeric_def is_ascii_digit_def)

lemma exposes_lower: "exposes st (to_ascii_lowercase s) = exposes st s"
proof (induction s arbitrary: st)
  case (Cons c s)
  have "to_ascii_lowercase (to_ascii_lowercase v) = to_ascii_lowercase v" for v
    by (simp add: to_ascii_lowercase_def lower_idem)
  then have "secret_at (to_ascii_lowercase (c # s)) = secret_at (c # s)" by (simp only: secret_at_lower)
  with Cons show ?case by (simp add: to_ascii_lowercase_def alnum_lower)
qed (simp add: to_ascii_lowercase_def)

lemma secret_at_letter: "secret_at (c # s) \<Longrightarrow> is_ascii_alphanumeric c"
  by (auto simp: secret_at_def ascii_case_prefix_def eq_ignore_ascii_case_def to_ascii_lowercase_def ascii_lower_char_def
      diagnostic_secret_prefixes_def Let_def is_ascii_alphanumeric_def char_code_def split: if_splits)

lemma exposes_punct: "list_all is_ascii_punctuation p \<Longrightarrow> \<not> exposes True r \<Longrightarrow> \<not> exposes st (p @ r)"
proof (induction p arbitrary: st)
  case Nil
  then show ?case using exposes_mono by auto
next
  case (Cons c p)
  then show ?case using secret_at_letter [of c "p @ r"] by (auto simp: is_ascii_punctuation_def)
qed

text \<open>A marker word exposes nothing, whatever punctuation and harmless text follow it.\<close>

lemmas literal_eval = secret_at_lower diagnostic_secret_prefixes_def to_ascii_lowercase_def ascii_lower_char_def
  char_code_def is_alphanumeric_def is_ascii_alphanumeric_def is_ascii_digit_def Let_def

lemma marker_words:
  "key \<in> set diagnostic_secret_keys \<or> key = ''authorization'' \<Longrightarrow> exposes st (key @ r) \<Longrightarrow> exposes True r"
  by (auto simp: diagnostic_secret_keys_def literal_eval intro: exposes_mono split: if_splits)

lemma exposes_marker:
  assumes "to_ascii_lowercase k = key" "key \<in> set diagnostic_secret_keys \<or> key = ''authorization''"
    and "list_all is_ascii_punctuation p" "\<not> exposes True r"
  shows "\<not> exposes st (k @ p @ r)"
proof
  assume "exposes st (k @ p @ r)"
  then have "exposes st (key @ to_ascii_lowercase (p @ r))"
    using exposes_lower [of st "k @ p @ r"] assms(1) by simp
  then have "exposes True (to_ascii_lowercase (p @ r))" using marker_words assms(2) by blast
  then show False using exposes_lower [of True "p @ r"] exposes_punct [OF assms(3,4)] by simp
qed

lemma exposes_literals [simp]: "\<not> exposes st redacted" "\<not> exposes st ''Bearer''" "\<not> exposes st ''redacted-path>''" "\<not> exposes st ''redacted>''"
  by (auto simp: redacted_def literal_eval)

declare exposes.simps [simp del]

section \<open>Tokens\<close>

lemma delimiter_from_bounds:
  "delimiter_from n s = Some d \<Longrightarrow> n < d \<and> d \<le> n + length s \<and> list_all is_ascii_punctuation (take (d - n) s)"
proof (induction n s rule: delimiter_from.induct)
  case (2 n c cs)
  show ?case
  proof (cases "c = CHR ''='' \<or> c = CHR '':''")
    case True
    then have "is_ascii_punctuation c"
      by (auto simp: is_ascii_punctuation_def is_ascii_alphanumeric_def is_ascii_digit_def char_code_def)
    with True 2 show ?thesis by auto
  next
    case False
    then have p: "is_ascii_punctuation c" and d: "delimiter_from (Suc n) cs = Some d" using 2(2) by (auto split: if_splits)
    have ih: "Suc n < d \<and> d \<le> Suc n + length cs \<and> list_all is_ascii_punctuation (take (d - Suc n) cs)"
      using 2(1) [OF False] p d by simp
    then have "d - n = Suc (d - Suc n)" by linarith
    with ih p show ?thesis by simp
  qed
qed simp

lemma drop_trim_end_punct: "list_all is_ascii_punctuation (drop (length (trim_end_punct s)) s)"
proof -
  have "rev s = takeWhile is_ascii_punctuation (rev s) @ rev (trim_end_punct s)"
    by (simp add: trim_end_punct_def takeWhile_dropWhile_id)
  then have "s = trim_end_punct s @ rev (takeWhile is_ascii_punctuation (rev s))"
    by (metis rev_append rev_rev_ident)
  then have "drop (length (trim_end_punct s)) s = rev (takeWhile is_ascii_punctuation (rev s))"
    by (metis append_eq_conv_conj)
  then show ?thesis by (simp add: list_all_iff) (meson set_takeWhileD)
qed

definition literal_chars :: "char set" where
  "literal_chars = set ''<redacted-path>Bearer''"

text \<open>What a replacement \<open>w\<close> of the rest \<open>r\<close> of a token keeps: it exposes nothing, it starts a
  credential prefix with what precedes it only if the original did, and it is made of the same
  characters and the literals.\<close>

definition safe_for :: "string \<Rightarrow> string \<Rightarrow> bool" where
  "safe_for r w \<longleftrightarrow> (\<forall>st. \<not> exposes st w) \<and> (\<forall>x. secret_at (x @ w) \<longrightarrow> secret_at (x @ r))
     \<and> set w \<subseteq> set r \<union> literal_chars"

lemma safe_for_Cons:
  "safe_for r w \<Longrightarrow> \<not> secret_at (c # r) \<Longrightarrow> safe_for (c # r) (c # w)"
proof -
  assume s: "safe_for r w" and n: "\<not> secret_at (c # r)"
  have "secret_at (x @ c # w) \<longrightarrow> secret_at (x @ c # r)" for x
    using s [unfolded safe_for_def] by (metis append.assoc append_Cons append_Nil)
  moreover from this [of "[]"] have "\<not> secret_at (c # w)" using n by simp
  moreover from this have "\<not> exposes st (c # w)" for st using s by (simp add: safe_for_def exposes.simps)
  moreover have "set (c # w) \<subseteq> set (c # r) \<union> literal_chars"
    using s unfolding safe_for_def by (metis Un_insert_left insert_mono list.simps(15))
  ultimately show ?thesis unfolding safe_for_def by blast
qed

lemma redacted_chars: "set redacted \<subseteq> literal_chars" "set ''Bearer'' \<subseteq> literal_chars" "set ''<redacted-path>'' \<subseteq> literal_chars"
  by (auto simp: redacted_def literal_chars_def)

lemma safe_redacted: "\<not> exposes True (take d r) \<or> d = 0 \<Longrightarrow> safe_for r (take d r @ redacted)"
proof -
  assume e: "\<not> exposes True (take d r) \<or> d = 0"
  have "\<not> exposes st (take d r @ CHR ''<'' # ''redacted>'')" for st
    by (rule exposes_separated [where z = "[]"]) (use e exposes_mono in \<open>auto simp: exposes.simps(1)\<close>)
  moreover have "secret_at (x @ r)" if "secret_at (x @ take d r @ CHR ''<'' # ''redacted>'')" for x
    using secret_at_before [of "x @ take d r" "CHR ''<''" "''redacted>''"] secret_at_extend [of "x @ take d r" "drop d r"] that
    by simp
  moreover have "set (take d r @ redacted) \<subseteq> set r \<union> literal_chars"
    using set_take_subset [of d r] redacted_chars by auto
  ultimately show ?thesis by (simp add: safe_for_def redacted_def)
qed

lemma key_lower: "key \<in> set diagnostic_secret_keys \<Longrightarrow> to_ascii_lowercase key = key"
  by (auto simp: diagnostic_secret_keys_def to_ascii_lowercase_def ascii_lower_char_def char_code_def)

lemma case_prefix_take: "ascii_case_prefix v p \<Longrightarrow> to_ascii_lowercase p = p \<Longrightarrow> to_ascii_lowercase (take (length p) v) = p"
  by (simp add: ascii_case_prefix_def eq_ignore_ascii_case_def)

lemma secret_key_at_Some: "secret_key_at v = Some key \<Longrightarrow> key \<in> set diagnostic_secret_keys \<and> ascii_case_prefix v key"
  unfolding secret_key_at_def by (auto dest: find_Some_iff_first)

lemma safe_marker:
  assumes "ascii_case_prefix r key" "key \<in> set diagnostic_secret_keys \<or> key = ''authorization''"
    and "assignment_delimiter r (length key) = Some d"
  shows "safe_for r (take d r @ redacted)"
proof (rule safe_redacted, rule disjI1)
  have lk: "to_ascii_lowercase key = key"
    using assms(2) key_lower by (auto simp: to_ascii_lowercase_def ascii_lower_char_def char_code_def)
  have d: "length key < d" "list_all is_ascii_punctuation (take (d - length key) (drop (length key) r))"
    using delimiter_from_bounds assms(3) by (auto simp: assignment_delimiter_def)
  have "take d r = take (length key) r @ take (d - length key) (drop (length key) r)"
    using d(1) by (metis le_add_diff_inverse less_or_eq_imp_le take_add)
  with exposes_marker [OF case_prefix_take [OF assms(1) lk] assms(2) d(2), of "[]" True]
  show "\<not> exposes True (take d r)" by (simp add: exposes.simps)
qed

lemma safe_complete:
  assumes "ascii_case_prefix r key" "key \<in> set diagnostic_secret_keys"
    and "list_all is_ascii_punctuation (drop (length key) r)"
  shows "safe_for r r"
proof -
  have "\<not> exposes st (take (length key) r @ drop (length key) r @ [])" for st
    by (rule exposes_marker [OF case_prefix_take [OF assms(1) key_lower [OF assms(2)]]])
      (use assms in \<open>auto simp: exposes.simps\<close>)
  then show ?thesis unfolding safe_for_def by auto
qed

lemma safe_bearer:
  assumes "ascii_case_prefix r ''bearer''"
  shows "safe_for r ''Bearer''"
proof -
  have low: "to_ascii_lowercase (take (length ''bearer'') r) = ''bearer''"
    by (rule case_prefix_take [OF assms]) (simp add: to_ascii_lowercase_def ascii_lower_char_def char_code_def)
  have "secret_at (x @ r)" if "secret_at (x @ ''Bearer'')" for x
  proof -
    have "to_ascii_lowercase (x @ ''Bearer'') = to_ascii_lowercase (x @ take (length ''bearer'') r)"
      by (simp only: to_ascii_lowercase_append low) (simp add: to_ascii_lowercase_def ascii_lower_char_def char_code_def char_of_def bit_0)
    then have "secret_at (x @ take (length ''bearer'') r)" using that by (simp only: secret_at_lower)
    then show ?thesis using secret_at_extend [of "x @ take (length ''bearer'') r" "drop (length ''bearer'') r"] by simp
  qed
  then show ?thesis using redacted_chars(2) unfolding safe_for_def by (auto simp del: list.set)
qed

lemma redact_key_safe:
  assumes "redact_key_at (pre @ r) (length pre) (length (trim_end_punct (pre @ r))) nx = Some (u, n)"
  shows "\<exists>w. u = pre @ w \<and> safe_for r w"
proof -
  obtain key where k: "key \<in> set diagnostic_secret_keys" "ascii_case_prefix r key" "secret_key_at r = Some key"
    using assms secret_key_at_Some [of r] by (auto simp: redact_key_at_def split: option.splits)
  show ?thesis
  proof (cases "marker_is_complete (pre @ r) (length pre) (length (trim_end_punct (pre @ r))) key")
    case True
    then have "list_all is_ascii_punctuation (drop (length pre + length key) (pre @ r))"
      using drop_trim_end_punct [of "pre @ r"] by (simp add: marker_is_complete_def)
    then have "safe_for r r" by (intro safe_complete [OF k(2,1)]) simp
    moreover have "u = pre @ r" using True assms k(3) by (simp add: redact_key_at_def)
    ultimately show ?thesis by blast
  next
    case False
    then obtain d where d: "assignment_delimiter r (length key) = Some d" "u = pre @ take d r @ redacted"
      using assms k(3) by (auto simp: redact_key_at_def split: option.splits)
    then show ?thesis using safe_marker [OF k(2) _ d(1)] k(1) by blast
  qed
qed

lemma redact_authorization_safe:
  "redact_authorization_at (pre @ r) (length pre) nx = Some (u, n) \<Longrightarrow> \<exists>w. u = pre @ w \<and> safe_for r w"
  by (auto simp: redact_authorization_at_def split: if_splits option.splits intro!: safe_marker)

lemma redact_marker_safe:
  assumes "redact_marker_at (pre @ r) (length pre) (length (trim_end_punct (pre @ r))) nx = Some (u, n)"
  shows "\<exists>w. u = pre @ w \<and> safe_for r w"
  using assms safe_redacted [of 0 r]
  by (auto simp: redact_marker_at_def marker_is_complete_def intro!: safe_bearer
      dest: redact_key_safe redact_authorization_safe split: if_splits option.splits)

lemma redact_marker_None: "redact_marker_at tok i fin nx = None \<Longrightarrow> \<not> secret_at (drop i tok)"
  by (auto simp: redact_marker_at_def secret_value_starts_def secret_at_def split: if_splits option.splits)

lemma scan_safe:
  "scan_markers (pre @ r) (length (trim_end_punct (pre @ r))) st (length pre) r nx = Some (u, n) \<Longrightarrow>
     \<exists>w. u = pre @ w \<and> \<not> exposes st w \<and> (\<forall>x. secret_at (x @ w) \<longrightarrow> secret_at (x @ r))
       \<and> set w \<subseteq> set r \<union> literal_chars"
proof (induction r arbitrary: pre st)
  case (Cons c r)
  let ?m = "if st then redact_marker_at (pre @ c # r) (length pre) (length (trim_end_punct (pre @ c # r))) nx else None"
  show ?case
  proof (cases ?m)
    case (Some q)
    then have "redact_marker_at (pre @ c # r) (length pre) (length (trim_end_punct (pre @ c # r))) nx = Some (u, n)"
      using Cons.prems by (simp split: if_splits)
    from redact_marker_safe [OF this] show ?thesis unfolding safe_for_def by blast
  next
    case None
    then have scan: "scan_markers ((pre @ [c]) @ r) (length (trim_end_punct ((pre @ [c]) @ r))) (\<not> is_alphanumeric c)
        (length (pre @ [c])) r nx = Some (u, n)"
      using Cons.prems by simp
    obtain w where w: "u = (pre @ [c]) @ w" "\<not> exposes (\<not> is_alphanumeric c) w"
      "\<forall>x. secret_at (x @ w) \<longrightarrow> secret_at (x @ r)" "set w \<subseteq> set r \<union> literal_chars"
      using Cons.IH [OF scan] by blast
    have keep: "secret_at (x @ c # w) \<longrightarrow> secret_at (x @ c # r)" for x
      using w(3) by (metis append.assoc append_Cons append_Nil)
    have "\<not> (st \<and> secret_at (c # r))" using None redact_marker_None [of "pre @ c # r" "length pre"] by (auto split: if_splits)
    then have "\<not> exposes st (c # w)" using keep [of "[]"] w(2) by (auto simp: exposes.simps)
    moreover have "set (c # w) \<subseteq> set (c # r) \<union> literal_chars"
      using w(4) by (metis Un_insert_left insert_mono list.simps(15))
    ultimately show ?thesis using keep w(1) by (intro exI [of _ "c # w"]) simp
  qed
qed simp

lemma scan_None: "scan_markers (pre @ r) fin st (length pre) r nx = None \<Longrightarrow> \<not> exposes st r"
proof (induction r arbitrary: pre st)
  case (Cons c r)
  then have "scan_markers ((pre @ [c]) @ r) fin (\<not> is_alphanumeric c) (length (pre @ [c])) r nx = None"
    "\<not> (st \<and> secret_at (c # r))"
    using redact_marker_None [of "pre @ c # r" "length pre"] by (auto split: if_splits option.splits)
  with Cons.IH [OF this(1)] show ?case by (simp add: exposes.simps)
qed (simp add: exposes.simps)

lemma absolute_path_shape: "absolute_path_from pre r = Some t \<Longrightarrow> \<exists>x z. rev pre @ r = x @ z \<and> t = x @ ''<redacted-path>''"
proof (induction pre r rule: absolute_path_from.induct)
  case (2 pre c cs)
  then show ?case by (cases "(pre = [] \<or> \<not> word_byte (hd pre)) \<and> (c = CHR ''/'' \<or> windows_root (c # cs))") fastforce+
qed simp

lemma normalized_marker:
  assumes "eq_ignore_ascii_case (trim_start_punct (trim_end_punct tok)) key"
  shows "\<exists>p k q. tok = p @ k @ q \<and> list_all is_ascii_punctuation p \<and> list_all is_ascii_punctuation q
    \<and> to_ascii_lowercase k = to_ascii_lowercase key"
proof -
  let ?e = "trim_end_punct tok"
  have "tok = ?e @ drop (length ?e) tok"
  proof -
    have "rev tok = takeWhile is_ascii_punctuation (rev tok) @ rev ?e" by (simp add: trim_end_punct_def takeWhile_dropWhile_id)
    then have "tok = ?e @ rev (takeWhile is_ascii_punctuation (rev tok))" by (metis rev_append rev_rev_ident)
    then show ?thesis by (metis append_eq_conv_conj)
  qed
  moreover have "?e = takeWhile is_ascii_punctuation ?e @ trim_start_punct ?e"
    by (simp add: trim_start_punct_def takeWhile_dropWhile_id)
  moreover have "list_all is_ascii_punctuation (takeWhile is_ascii_punctuation ?e)"
    by (simp add: list_all_iff) (meson set_takeWhileD)
  ultimately show ?thesis using drop_trim_end_punct [of tok] assms
    by (metis append.assoc eq_ignore_ascii_case_def)
qed

lemma take_trim_end: "take (length (trim_end_punct tok)) tok = trim_end_punct tok"
proof -
  have "rev tok = takeWhile is_ascii_punctuation (rev tok) @ rev (trim_end_punct tok)"
    by (simp add: trim_end_punct_def takeWhile_dropWhile_id)
  then have "tok = trim_end_punct tok @ rev (takeWhile is_ascii_punctuation (rev tok))" by (metis rev_append rev_rev_ident)
  then show ?thesis by (metis append_eq_conv_conj)
qed

lemma key_token_safe:
  assumes "secret_key (trim_start_punct (trim_end_punct tok))"
  shows "\<not> exposes True tok"
proof -
  obtain key where key: "key \<in> set diagnostic_secret_keys" "eq_ignore_ascii_case (trim_start_punct (trim_end_punct tok)) key"
    using assms by (auto simp: secret_key_def list_ex_iff)
  obtain p k q where tok: "tok = p @ k @ q" "list_all is_ascii_punctuation p" "list_all is_ascii_punctuation q"
    "to_ascii_lowercase k = key" using normalized_marker [OF key(2)] key_lower [OF key(1)] by auto
  have "\<not> exposes True (k @ q @ [])"
    by (rule exposes_marker [OF tok(4) _ tok(3)]) (use key(1) in \<open>simp_all add: exposes.simps\<close>)
  then show ?thesis using exposes_punct [OF tok(2)] by (simp add: tok(1))
qed

lemma token_safe:
  assumes "sanitize_diagnostic_token tok nx = (u, n)"
  shows "\<not> exposes True u \<and> set u \<subseteq> set tok \<union> literal_chars"
proof (cases "nx \<or> eq_ignore_ascii_case (trim_start_punct (trim_end_punct tok)) ''bearer''
    \<or> secret_key (trim_start_punct (trim_end_punct tok)) \<or> secret_value_starts (trim_start_punct (trim_end_punct tok))")
  case True
  then have "u = redacted \<or> u = ''Bearer'' \<or> u = tok \<and> secret_key (trim_start_punct (trim_end_punct tok))"
    using assms by (auto simp: sanitize_diagnostic_token_def take_trim_end Let_def split: if_splits)
  then show ?thesis using key_token_safe [of tok] redacted_chars(1,2) by (auto simp del: list.set)
next
  case False
  let ?scan = "scan_markers tok (length (trim_end_punct tok)) True 0 tok nx"
  show ?thesis
  proof (cases ?scan)
    case (Some r)
    then have "?scan = Some (u, n)" using False assms by (simp add: sanitize_diagnostic_token_def take_trim_end)
    with scan_safe [of "[]" tok True nx u n] show ?thesis by auto
  next
    case None
    have ne: "\<not> exposes True tok" using None by (rule scan_None [of "[]" tok, simplified])
    show ?thesis
    proof (cases "redact_absolute_path tok")
      case (Some t)
      then obtain x z where x: "tok = x @ z" "t = x @ ''<redacted-path>''"
        using absolute_path_shape [of "[]" tok t] by (auto simp: redact_absolute_path_def)
      have "\<not> exposes True (x @ CHR ''<'' # ''redacted-path>'')"
        by (rule exposes_separated) (use ne x(1) in auto)
      moreover have "u = x @ ''<redacted-path>''"
        using False assms None Some x(2) by (simp add: sanitize_diagnostic_token_def take_trim_end)
      ultimately show ?thesis using redacted_chars(3) x(1) by (auto simp del: list.set)
    qed (use False assms None ne in \<open>auto simp: sanitize_diagnostic_token_def take_trim_end\<close>)
  qed
qed

section \<open>Messages, redacted\<close>

lemma sanitize_tokens_safe:
  "t \<in> set (sanitize_tokens nx ts) \<Longrightarrow> \<not> exposes True t \<and> set t \<subseteq> \<Union> (set ` set ts) \<union> literal_chars"
proof (induction ts arbitrary: nx)
  case (Cons a ts)
  obtain u n where "sanitize_diagnostic_token a nx = (u, n)" by fastforce
  with Cons token_safe [OF this] show ?case by auto
qed simp

lemma exposes_join: "\<forall>t\<in>set ts. \<not> exposes True t \<Longrightarrow> \<not> exposes True (str_join '' '' ts)"
proof (induction ts rule: induct_list012)
  case (3 t u ts)
  then have "\<not> exposes True (t @ CHR '' '' # str_join '' '' (u # ts))"
    by (intro exposes_separated [where z = "[]"]) auto
  then show ?case by simp
qed (auto simp: exposes.simps)

lemma set_join: "set (str_join sep ts) \<subseteq> \<Union> (set ` set ts) \<union> set sep"
  by (induction ts rule: induct_list012) auto

lemma take_bytes_prefix: "\<exists>z. s = take_bytes n s @ z"
  by (induction n s rule: take_bytes.induct) auto

lemma take_bytes_len: "utf8_len (take_bytes n s) \<le> n"
  by (induction n s rule: take_bytes.induct) (auto simp: utf8_len_def)

lemma bounded_prefix: "\<exists>z. s = bounded_utf8 s n @ z"
  using take_bytes_prefix by (auto simp: bounded_utf8_def)

lemma trim_end_prefix: "\<exists>z. s = trim_end s @ z"
  unfolding trim_end_def by (metis rev_append rev_rev_ident takeWhile_dropWhile_id)

lemma words_from_chars: "w \<in> set (words_from acc s) \<Longrightarrow> c \<in> set w \<Longrightarrow> c \<in> set acc \<or> (c \<in> set s \<and> \<not> is_ws c)"
  by (induction acc s arbitrary: w rule: words_from.induct) (auto split: if_splits)

lemma sanitize_prefix:
  "\<exists>z. str_join '' '' (sanitize_tokens False (split_whitespace (blank_controls m))) = sanitize_work_order_diagnostic m n @ z"
  unfolding sanitize_work_order_diagnostic_def by (metis append.assoc bounded_prefix trim_end_prefix)

lemma utf8_len_append [simp]: "utf8_len (a @ b) = utf8_len a + utf8_len b"
  by (simp add: utf8_len_def)

text \<open>C29. No credential survives redaction: whatever a tool printed, at no start of a word of the
  published diagnostic does a known credential prefix (OpenAI, GitHub, Slack, Hugging Face) begin,
  in any letter case, before or after the message is cut to its maximal size.\<close>

theorem no_credential_survives: "\<not> exposes True (sanitize_work_order_diagnostic message maximum_bytes)"
proof -
  obtain z where "str_join '' '' (sanitize_tokens False (split_whitespace (blank_controls message)))
      = sanitize_work_order_diagnostic message maximum_bytes @ z" using sanitize_prefix by blast
  moreover have "\<not> exposes True (str_join '' '' (sanitize_tokens False (split_whitespace (blank_controls message))))"
    using sanitize_tokens_safe by (intro exposes_join) blast
  ultimately show ?thesis using exposes_prefix by metis
qed

text \<open>The published form is bounded in bytes and free of control characters.\<close>

theorem diagnostic_printable:
  "utf8_len (sanitize_work_order_diagnostic message n) \<le> n
   \<and> list_all (\<lambda>c. \<not> is_control c) (sanitize_work_order_diagnostic message n)"
proof
  have bound: "utf8_len (bounded_utf8 s n) \<le> n" for s using take_bytes_len by (simp add: bounded_utf8_def)
  have "utf8_len (trim_end s) \<le> utf8_len s" for s
    using trim_end_prefix [of s] by (metis le_add1 utf8_len_append)
  then show "utf8_len (sanitize_work_order_diagnostic message n) \<le> n"
    unfolding sanitize_work_order_diagnostic_def using bound le_trans by blast
  let ?ts = "split_whitespace (blank_controls message)"
  have "\<not> is_control c" if "w \<in> set ?ts" "c \<in> set w" for w c
    using words_from_chars [of w "[]" "blank_controls message" c] that
    by (auto simp: split_whitespace_def blank_controls_def is_control_def char_code_def split: if_splits)
  moreover have "\<not> is_control c" if "c \<in> literal_chars \<union> set '' ''" for c
    using that by (auto simp: literal_chars_def is_control_def char_code_def)
  ultimately have "\<not> is_control c" if "c \<in> set (str_join '' '' (sanitize_tokens False ?ts))" for c
    using that set_join [of "'' ''" "sanitize_tokens False ?ts"] sanitize_tokens_safe [of _ False ?ts] by blast
  then show "list_all (\<lambda>c. \<not> is_control c) (sanitize_work_order_diagnostic message n)"
    using sanitize_prefix [of message n] by (metis Ball_set Un_iff set_append)
qed

text \<open>A credential-like component of an absolute path is redacted first and the path in front of it only
  when the text is sanitized again: the published form is not a fixed point, although the reader of
  stored messages requires one.\<close>

definition published_tokens :: "string \<Rightarrow> string" where
  "published_tokens m = str_join '' '' (sanitize_tokens False (split_whitespace (blank_controls m)))"

lemma sanitize_published:
  "utf8_len (published_tokens m) \<le> n \<Longrightarrow> sanitize_work_order_diagnostic m n = trim_end (published_tokens m)"
  by (simp add: sanitize_work_order_diagnostic_def published_tokens_def bounded_utf8_def)

lemma published_examples:
  "published_tokens ''/a/hf_b'' = ''/a/<redacted>''"
  "published_tokens ''/a/<redacted>'' = ''<redacted-path>''"
  "published_tokens ''/home/u/token'' = ''/home/u/token''"
  by code_simp+

lemma sanitize_not_idempotent:
  "sanitize_work_order_diagnostic ''/a/hf_b'' 4096 = ''/a/<redacted>''"
  "sanitize_work_order_diagnostic ''/a/<redacted>'' 4096 = ''<redacted-path>''"
  using published_examples by (simp_all add: sanitize_published utf8_len_def trim_end_def is_ws_def)

text \<open>A path that ends in a key word keeps its directory.\<close>

lemma path_before_key_survives: "sanitize_work_order_diagnostic ''/home/u/token'' 4096 = ''/home/u/token''"
  using published_examples(3) by (simp add: sanitize_published utf8_len_def trim_end_def is_ws_def)

end
