(* ===== verification/Work_Order_Packet.thy ===== *)
theory Work_Order_Packet
  imports Work_Order_Store Diagnostic_Text Engine_Kind
begin

text \<open>
  Content-addressed work-order packets, \<^verbatim>\<open>crates/hf-service/src/harness_work_order.rs\<close> with the packet
  side of \<^verbatim>\<open>crates/hf-service/src/container/harness_work_order.rs\<close>: canonicalization of the authoring
  evidence, construction and verification of packets, the bounded source excerpt, seed references and
  the shell commands a packet shows its author. JSON text and SHA-256 come from \<^verbatim>\<open>serde_json\<close> and \<^verbatim>\<open>sha2\<close>
  and are a parameter; an encoder that fails is part of it.
\<close>

section \<open>Errors\<close>

datatype wo_error_kind = KindValidation | KindNotFound | KindConflict | KindUnavailable | KindProvider | KindSandbox
  | KindStorage | KindInternal

datatype wo_error_code =
    CodeStorageRequired | CodeInvalidRequest | CodeInvalidIdentifier | CodeInvalidWorkOrderDigest
  | CodeUnsupportedWorkOrderSchema | CodeSourceEmpty | CodeSourceTooLarge | CodeInvalidProvenance | CodeParentNotFound
  | CodeParentWorkOrderMismatch | CodeSubmissionLimitReached | CodeSubmissionHasBlockingLint | CodeStaleWorkOrder
  | CodeAttemptInterrupted | CodeAttemptNotSmokePassed | CodeAttemptNotActive | CodePromotionDenied
  | CodeWorkOrderNotFound | CodeSubmissionNotFound | CodeAttemptNotFound | CodeInvalidTransition
  | CodeRankingLimitExceeded | CodeInvalidProjectPath | CodeSeedLimitExceeded | CodeWorkOrderTooLarge

record wo_error =
  we_code :: wo_error_code
  we_kind :: wo_error_kind
  we_message :: string

definition wo_validation :: "wo_error_code \<Rightarrow> string \<Rightarrow> wo_error" where
  "wo_validation c m = \<lparr>we_code = c, we_kind = KindValidation, we_message = m\<rparr>"

definition wo_storage :: "string \<Rightarrow> wo_error" where
  "wo_storage m = \<lparr>we_code = CodeStorageRequired, we_kind = KindStorage, we_message = m\<rparr>"

definition wo_not_found :: "wo_error_code \<Rightarrow> string \<Rightarrow> wo_error" where
  "wo_not_found c m = \<lparr>we_code = c, we_kind = KindNotFound, we_message = m\<rparr>"

definition wo_conflict :: "wo_error_code \<Rightarrow> string \<Rightarrow> wo_error" where
  "wo_conflict c m = \<lparr>we_code = c, we_kind = KindConflict, we_message = m\<rparr>"

definition wo_internal :: "string \<Rightarrow> wo_error" where
  "wo_internal m = \<lparr>we_code = CodeInvalidWorkOrderDigest, we_kind = KindInternal, we_message = m\<rparr>"

section \<open>Packets\<close>

definition work_order_schema_version :: nat where
  "work_order_schema_version = 2"

definition max_work_order_packet_bytes :: nat where
  "max_work_order_packet_bytes = 262144"

definition max_source_excerpt_bytes :: nat where
  "max_source_excerpt_bytes = 65536"

definition max_source_excerpt_lines :: nat where
  "max_source_excerpt_lines = 60"

definition max_work_order_seeds :: nat where
  "max_work_order_seeds = 20"

record target_evidence =
  te_symbol :: string
  te_signature :: "string option"
  te_language :: target_language
  te_relative_source :: string
  te_line :: nat
  te_rationale :: string

record source_evidence =
  se_excerpt :: string
  se_truncated :: bool
  se_sha :: string

record compile_context =
  cc_include_dirs :: "string list"
  cc_defines :: "string list"
  cc_std_flag :: "string option"
  cc_extra_flags :: "string list"
  cc_units :: nat
  cc_dropped :: "string list"

record work_order_rule =
  ru_id :: string
  ru_blocking :: bool
  ru_message :: string

record seed_reference =
  sr_sha :: string
  sr_size :: nat

datatype work_order_step_kind = StepImport | StepQualify | StepRank | StepPromote | StepRunCampaign nat | StepCoverage

record work_order_payload =
  wp_target :: target_evidence
  wp_engine :: engine_kind
  wp_source :: source_evidence
  wp_context :: compile_context
  wp_context_sha :: string
  wp_rules :: "work_order_rule list"
  wp_seeds :: "seed_reference list"
  wp_seeds_truncated :: bool
  wp_steps :: "work_order_step_kind list"

record work_order =
  ho_schema :: nat
  ho_id :: string
  ho_payload :: work_order_payload

text \<open>The encoders: an encoder answers the text or its error.\<close>

record packet_lib =
  context_json :: "compile_context \<Rightarrow> string + string"
  payload_json :: "work_order_payload \<Rightarrow> string + string"
  packet_json :: "work_order \<Rightarrow> string + string"
  parse_packet :: "string \<Rightarrow> work_order option"
  sha256_hex :: "string \<Rightarrow> string"

definition canonical_json :: "string + string \<Rightarrow> (wo_error, string) result" where
  "canonical_json r = (case r of Inr s \<Rightarrow> Inr s
     | Inl e \<Rightarrow> Inl (wo_internal (''serialize canonical packet evidence: '' @ e)))"

section \<open>Canonical form\<close>

definition sort_dedup :: "('a \<Rightarrow> 'k::linorder) \<Rightarrow> 'a list \<Rightarrow> 'a list" where
  "sort_dedup key xs = remdups_adj (sort_key key xs)"

definition normalize_strings :: "string list \<Rightarrow> string list" where
  "normalize_strings xs = sort_dedup (\<lambda>s. s) xs"

definition rule_key :: "work_order_rule \<Rightarrow> string \<times> bool \<times> string" where
  "rule_key r = (ru_id r, ru_blocking r, ru_message r)"

definition normalize_rules :: "work_order_rule list \<Rightarrow> work_order_rule list" where
  "normalize_rules rs = sort_dedup rule_key rs"

definition seed_key :: "seed_reference \<Rightarrow> string \<times> nat" where
  "seed_key s = (sr_sha s, sr_size s)"

definition step_sort_key :: "work_order_step_kind \<Rightarrow> nat \<times> nat" where
  "step_sort_key s = (case s of StepImport \<Rightarrow> (0, 0) | StepQualify \<Rightarrow> (1, 0) | StepRank \<Rightarrow> (2, 0) | StepPromote \<Rightarrow> (3, 0)
     | StepRunCampaign d \<Rightarrow> (4, d) | StepCoverage \<Rightarrow> (5, 0))"

definition normalize_steps :: "work_order_step_kind list \<Rightarrow> work_order_step_kind list" where
  "normalize_steps ss = sort_dedup step_sort_key ss"

definition validate_sha256 :: "string \<Rightarrow> string \<Rightarrow> (wo_error, unit) result" where
  "validate_sha256 v subject =
     (if utf8_len v \<noteq> 64 \<or> \<not> list_all (\<lambda>c. is_ascii_digit c \<or> (97 \<le> char_code c \<and> char_code c \<le> 102)) v
      then Inl (wo_validation CodeInvalidWorkOrderDigest (subject @ '' must be a lowercase SHA-256 digest'')) else Inr ())"

fun validate_each :: "('a \<Rightarrow> (wo_error, unit) result) \<Rightarrow> 'a list \<Rightarrow> (wo_error, unit) result" where
  "validate_each f [] = Inr ()"
| "validate_each f (x # xs) = bind_result (f x) (\<lambda>_. validate_each f xs)"

definition normalize_seeds :: "seed_reference list \<Rightarrow> bool \<Rightarrow> (wo_error, seed_reference list) result" where
  "normalize_seeds seeds truncated =
     bind_result (validate_each (\<lambda>s. validate_sha256 (sr_sha s) ''seed SHA-256'') seeds) (\<lambda>_.
       let sorted = sort_dedup seed_key seeds
       in if length sorted > max_work_order_seeds
          then Inl (wo_validation CodeSeedLimitExceeded (''packet has more than '' @ nat_str max_work_order_seeds @ '' seed references''))
          else if truncated \<and> length sorted \<noteq> max_work_order_seeds
          then Inl (wo_validation CodeInvalidRequest ''a truncated seed set must carry exactly the packet bound'')
          else Inr sorted)"

definition validate_source_evidence :: "source_evidence \<Rightarrow> (wo_error, unit) result" where
  "validate_source_evidence s =
     (if se_excerpt s = [] then Inl (wo_validation CodeSourceEmpty ''source excerpt is empty'')
      else if utf8_len (se_excerpt s) > max_source_excerpt_bytes \<or> length (str_lines (se_excerpt s)) > max_source_excerpt_lines
      then Inl (wo_validation CodeSourceTooLarge (''source excerpt exceeds '' @ nat_str max_source_excerpt_bytes
        @ '' bytes or '' @ nat_str max_source_excerpt_lines @ '' lines''))
      else validate_sha256 (se_sha s) ''source SHA-256'')"

text \<open>\<^verbatim>\<open>split(['/', '\\'])\<close>: pieces between separators of either kind.\<close>

definition path_pieces :: "string \<Rightarrow> string list" where
  "path_pieces s = split_char CHR ''/'' (map (\<lambda>c. if c = CHR 0x5C then CHR ''/'' else c) s)"

definition validate_project_relative_path :: "string \<Rightarrow> (wo_error, unit) result" where
  "validate_project_relative_path v =
     (if v = [] \<or> hd v = CHR ''/'' \<or> hd v = CHR 0x5C \<or> windows_root v \<or> list_ex (\<lambda>p. p = ''..'') (path_pieces v)
      then Inl (wo_validation CodeInvalidProjectPath ''packet paths must be project-relative and must not escape the project'')
      else Inr ())"

datatype fixed_include_path = IncludeOutside | IncludeCanonical | IncludeInvalid

definition is_separator :: "char \<Rightarrow> bool" where
  "is_separator c \<longleftrightarrow> c = CHR ''/'' \<or> c = CHR 0x5C"

definition claims_work_namespace :: "string \<Rightarrow> bool" where
  "claims_work_namespace v \<longleftrightarrow> v \<noteq> [] \<and> is_separator (hd v)
     \<and> (case strip_prefix ''work'' (dropWhile is_separator v) of None \<Rightarrow> False | Some s \<Rightarrow> s = [] \<or> is_separator (hd s))"

definition classify_fixed_sandbox_include_path :: "string \<Rightarrow> fixed_include_path" where
  "classify_fixed_sandbox_include_path v =
     (if v = ''/work'' then IncludeCanonical
      else if \<not> claims_work_namespace v then IncludeOutside
      else (case strip_prefix ''/work/'' v of
              None \<Rightarrow> IncludeInvalid
            | Some d \<Rightarrow>
                if d \<noteq> [] \<and> CHR 0x5C \<notin> set v
                   \<and> list_all (\<lambda>p. p \<noteq> [] \<and> p \<noteq> ''.'' \<and> p \<noteq> ''..'' \<and> \<not> list_ex is_control p) (split_char CHR ''/'' d)
                then IncludeCanonical else IncludeInvalid))"

definition validate_compile_include_path :: "string \<Rightarrow> (wo_error, unit) result" where
  "validate_compile_include_path v = (case classify_fixed_sandbox_include_path v of
     IncludeCanonical \<Rightarrow> Inr ()
   | IncludeInvalid \<Rightarrow> Inl (wo_validation CodeInvalidProjectPath ''packet path is a noncanonical fixed sandbox include path'')
   | IncludeOutside \<Rightarrow> validate_project_relative_path v)"

definition normalize_context :: "compile_context \<Rightarrow> compile_context" where
  "normalize_context c = c\<lparr>cc_include_dirs := normalize_strings (cc_include_dirs c), cc_defines := normalize_strings (cc_defines c),
     cc_extra_flags := normalize_strings (cc_extra_flags c), cc_dropped := normalize_strings (cc_dropped c)\<rparr>"

definition canonical_payload :: "packet_lib \<Rightarrow> work_order_payload \<Rightarrow> (wo_error, work_order_payload) result" where
  "canonical_payload lib p =
     bind_result (validate_source_evidence (wp_source p)) (\<lambda>_.
     bind_result (validate_project_relative_path (te_relative_source (wp_target p))) (\<lambda>_.
     bind_result (validate_each validate_compile_include_path (cc_include_dirs (wp_context p))) (\<lambda>_.
       let ctx = normalize_context (wp_context p); rules = normalize_rules (wp_rules p)
       in bind_result (normalize_seeds (wp_seeds p) (wp_seeds_truncated p)) (\<lambda>seeds.
            let steps = normalize_steps (wp_steps p)
            in bind_result (canonical_json (context_json lib ctx)) (\<lambda>json.
                 Inr (p\<lparr>wp_context := ctx, wp_rules := rules, wp_seeds := seeds, wp_steps := steps,
                   wp_context_sha := sha256_hex lib json\<rparr>))))))"

definition ensure_packet_size :: "packet_lib \<Rightarrow> work_order \<Rightarrow> (wo_error, unit) result" where
  "ensure_packet_size lib w = bind_result (canonical_json (packet_json lib w)) (\<lambda>json.
     if utf8_len json > max_work_order_packet_bytes
     then Inl (wo_validation CodeWorkOrderTooLarge (''packet exceeds '' @ nat_str max_work_order_packet_bytes @ '' bytes''))
     else Inr ())"

definition build_work_order :: "packet_lib \<Rightarrow> work_order_payload \<Rightarrow> (wo_error, work_order) result" where
  "build_work_order lib p =
     bind_result (canonical_payload lib p) (\<lambda>q.
     bind_result (canonical_json (payload_json lib q)) (\<lambda>json.
       let w = \<lparr>ho_schema = work_order_schema_version, ho_id = sha256_hex lib json, ho_payload = q\<rparr>
       in bind_result (ensure_packet_size lib w) (\<lambda>_. Inr w)))"

definition verify_work_order :: "packet_lib \<Rightarrow> work_order \<Rightarrow> (wo_error, unit) result" where
  "verify_work_order lib w =
     (if ho_schema w \<noteq> work_order_schema_version
      then Inl (wo_validation CodeUnsupportedWorkOrderSchema
             (''schema '' @ nat_str (ho_schema w) @ '' is not supported; expected '' @ nat_str work_order_schema_version))
      else bind_result (canonical_payload lib (ho_payload w)) (\<lambda>c.
        if c \<noteq> ho_payload w then Inl (wo_validation CodeInvalidWorkOrderDigest ''packet payload is not canonical'')
        else bind_result (canonical_json (payload_json lib c)) (\<lambda>json.
          bind_result (ensure_packet_size lib w) (\<lambda>_.
            if ho_id w \<noteq> sha256_hex lib json
            then Inl (wo_validation CodeInvalidWorkOrderDigest ''packet identifier does not match canonical payload'')
            else Inr ()))))"

definition serialization_error :: wo_error where
  "serialization_error = wo_validation CodeInvalidWorkOrderDigest ''work order packet cannot be serialized''"

definition wo_json :: "string + string \<Rightarrow> (wo_error, string) result" where
  "wo_json r = (case r of Inr s \<Rightarrow> Inr s | Inl _ \<Rightarrow> Inl serialization_error)"

text \<open>Reading back a retained row; the caller may expect a project and a target.\<close>

definition retained_packet ::
  "packet_lib \<Rightarrow> work_order_record \<Rightarrow> (string \<times> uuid128) option \<Rightarrow> (wo_error, work_order) result" where
  "retained_packet lib r expected =
     (if (case expected of None \<Rightarrow> False | Some (project, target) \<Rightarrow> wo_target r \<noteq> target \<or> wo_project r \<noteq> project)
      then Inl (wo_validation CodeInvalidWorkOrderDigest ''durable work order identity conflicts with retained target evidence'')
      else bind_result (ok_or (wo_validation CodeInvalidWorkOrderDigest ''durable work order packet is malformed'')
                          (parse_packet lib (wo_packet r))) (\<lambda>w.
        bind_result (wo_json (packet_json lib w)) (\<lambda>json.
          if json \<noteq> wo_packet r then Inl (wo_validation CodeInvalidWorkOrderDigest ''durable work order packet is not canonical'')
          else if ho_id w \<noteq> wo_id r \<or> ho_schema w \<noteq> wo_schema r
          then Inl (wo_validation CodeInvalidWorkOrderDigest ''durable work order metadata does not match its packet'')
          else bind_result (verify_work_order lib w) (\<lambda>_. Inr w))))"

section \<open>Interface: an order that identifies\<close>

lemma increasing_unique:
  fixes key :: "'a \<Rightarrow> 'k::linorder"
  shows "sorted_wrt (\<lambda>a b. key a < key b) xs \<Longrightarrow> sorted_wrt (\<lambda>a b. key a < key b) ys \<Longrightarrow> set xs = set ys \<Longrightarrow> xs = ys"
proof (induction xs arbitrary: ys)
  case (Cons x xs)
  then obtain y zs where ys: "ys = y # zs" by (cases ys) auto
  have "x = y" using Cons.prems unfolding ys by (simp, metis insert_iff not_less_iff_gr_or_eq order_less_trans)
  moreover from this have "set xs = set zs" using Cons.prems unfolding ys by (simp, metis insert_ident less_irrefl)
  ultimately show ?case using Cons.IH [of zs] Cons.prems ys by simp
qed simp

text \<open>A list ordered by a key that identifies its elements, without repetitions, is a canonical
  form of the set of its elements.\<close>

locale canonical_order =
  fixes key :: "'a \<Rightarrow> 'k::linorder"
  assumes key_inj: "inj key"
begin

lemma sort_dedup_set [simp]: "set (sort_dedup key xs) = set xs"
  by (simp add: sort_dedup_def)

lemma sort_dedup_increasing: "sorted_wrt (\<lambda>a b. key a < key b) (sort_dedup key xs)"
proof -
  have "sorted (map key (remdups_adj ys))" if "sorted (map key ys)" for ys
    using that by (induction ys rule: remdups_adj.induct) (auto split: if_splits)
  then have "sorted (map key (sort_dedup key xs))" unfolding sort_dedup_def by simp
  moreover have "distinct (sort_dedup key xs)"
  proof -
    have "distinct (remdups_adj ys)" if "sorted (map key ys)" for ys
      using that
    proof (induction ys rule: remdups_adj.induct)
      case (3 a b ys)
      then show ?case using key_inj by (auto simp: inj_eq dest: antisym)
    qed auto
    then show ?thesis by (simp add: sort_dedup_def)
  qed
  ultimately show ?thesis
    by (simp add: sorted_wrt_map sorted_wrt_iff_nth_less distinct_conv_nth)
      (metis inj_eq key_inj le_neq_trans nat_neq_iff order_less_trans)
qed

lemma sort_dedup_canonical: "sort_dedup key xs = sort_dedup key ys \<longleftrightarrow> set xs = set ys"
  by (metis increasing_unique sort_dedup_increasing sort_dedup_set)

lemma sort_dedup_idem [simp]: "sort_dedup key (sort_dedup key xs) = sort_dedup key xs"
  by (simp add: sort_dedup_canonical)

end

interpretation strings: canonical_order "\<lambda>s :: string. s"
  by unfold_locales simp

interpretation rules: canonical_order rule_key
  by unfold_locales (auto simp: inj_def rule_key_def)

interpretation seeds: canonical_order seed_key
  by unfold_locales (auto simp: inj_def seed_key_def)

interpretation steps: canonical_order step_sort_key
  by unfold_locales (auto simp: inj_def step_sort_key_def split: work_order_step_kind.splits)

section \<open>Built packets verify\<close>

lemma validate_each_ok: "validate_each f xs = Inr () \<longleftrightarrow> (\<forall>x\<in>set xs. f x = Inr ())"
  by (induction xs) (auto simp: bind_result_def split: sum.splits)

lemma normalize_context_idem [simp]: "normalize_context (normalize_context c) = normalize_context c"
  by (simp add: normalize_context_def normalize_strings_def)

lemma normalize_seeds_ok: "normalize_seeds seeds t = Inr s \<Longrightarrow> normalize_seeds s t = Inr s"
  by (auto simp: normalize_seeds_def validate_each_ok Let_def result_simps split: if_splits)

lemma canonical_payload_fields:
  "canonical_payload lib p = Inr q \<longleftrightarrow>
     validate_source_evidence (wp_source p) = Inr ()
     \<and> validate_project_relative_path (te_relative_source (wp_target p)) = Inr ()
     \<and> validate_each validate_compile_include_path (cc_include_dirs (wp_context p)) = Inr ()
     \<and> (\<exists>seeds json. normalize_seeds (wp_seeds p) (wp_seeds_truncated p) = Inr seeds
          \<and> canonical_json (context_json lib (normalize_context (wp_context p))) = Inr json
          \<and> q = p\<lparr>wp_context := normalize_context (wp_context p), wp_rules := normalize_rules (wp_rules p), wp_seeds := seeds,
               wp_steps := normalize_steps (wp_steps p), wp_context_sha := sha256_hex lib json\<rparr>)"
  by (auto simp: canonical_payload_def result_simps Let_def)

lemma canonical_payload_idem: "canonical_payload lib p = Inr q \<Longrightarrow> canonical_payload lib q = Inr q"
  by (auto simp: canonical_payload_fields validate_each_ok normalize_seeds_ok normalize_rules_def normalize_steps_def
      normalize_context_def normalize_strings_def)

text \<open>Packets round trip: a packet built from any evidence verifies, and the row stored for it reads back as the
  same packet, provided the JSON reader inverts the writer on this packet.\<close>

theorem built_packet_retained:
  assumes "build_work_order lib p = Inr w" "packet_json lib w = Inr json" "parse_packet lib json = Some w"
  shows "verify_work_order lib w = Inr ()
    \<and> retained_packet lib \<lparr>wo_id = ho_id w, wo_target = target, wo_project = project, wo_schema = ho_schema w,
        wo_packet = json, wo_created = t\<rparr> (Some (project, target)) = Inr w"
proof -
  have "verify_work_order lib w = Inr ()"
    using assms(1) canonical_payload_idem
    by (fastforce simp: build_work_order_def verify_work_order_def result_simps Let_def)
  then show ?thesis using assms by (simp add: retained_packet_def wo_json_def)
qed

text \<open>Permuting or repeating the listed evidence does not change the packet.\<close>

definition same_evidence :: "work_order_payload \<Rightarrow> work_order_payload \<Rightarrow> bool" where
  "same_evidence p q \<longleftrightarrow> normalize_context (wp_context p) = normalize_context (wp_context q)
     \<and> set (wp_rules p) = set (wp_rules q) \<and> set (wp_seeds p) = set (wp_seeds q) \<and> set (wp_steps p) = set (wp_steps q)
     \<and> p\<lparr>wp_context := wp_context q, wp_rules := wp_rules q, wp_seeds := wp_seeds q, wp_steps := wp_steps q,
         wp_context_sha := wp_context_sha q\<rparr> = q"

lemma normalize_seeds_cong:
  "set xs = set ys \<Longrightarrow> normalize_seeds xs t = Inr s \<Longrightarrow> normalize_seeds ys t = Inr s"
  by (auto simp: normalize_seeds_def validate_each_ok Let_def result_simps seeds.sort_dedup_canonical [of xs ys, THEN iffD2]
      split: if_splits)

lemma canonical_payload_cong:
  assumes "canonical_payload lib p = Inr c" "same_evidence p q"
  shows "canonical_payload lib q = Inr c"
proof -
  have lists: "normalize_rules (wp_rules q) = normalize_rules (wp_rules p)" "normalize_steps (wp_steps q) = normalize_steps (wp_steps p)"
    and ctx: "normalize_context (wp_context q) = normalize_context (wp_context p)"
    and seeds: "set (wp_seeds p) = set (wp_seeds q)"
    and q: "p\<lparr>wp_context := wp_context q, wp_rules := wp_rules q, wp_seeds := wp_seeds q, wp_steps := wp_steps q,
         wp_context_sha := wp_context_sha q\<rparr> = q"
    using assms(2) by (simp_all add: same_evidence_def normalize_rules_def normalize_steps_def
        rules.sort_dedup_canonical steps.sort_dedup_canonical)
  have "normalize_strings (cc_include_dirs (wp_context q)) = normalize_strings (cc_include_dirs (wp_context p))"
    using arg_cong [OF ctx, of cc_include_dirs] by (simp add: normalize_context_def)
  then have "set (cc_include_dirs (wp_context q)) = set (cc_include_dirs (wp_context p))"
    by (simp add: normalize_strings_def strings.sort_dedup_canonical)
  moreover have "wp_source q = wp_source p" "wp_target q = wp_target p" "wp_seeds_truncated q = wp_seeds_truncated p"
    using arg_cong [OF q, of wp_source] arg_cong [OF q, of wp_target] arg_cong [OF q, of wp_seeds_truncated] by simp_all
  moreover have "q\<lparr>wp_context := a, wp_rules := b, wp_seeds := d, wp_steps := e, wp_context_sha := f\<rparr>
      = p\<lparr>wp_context := a, wp_rules := b, wp_seeds := d, wp_steps := e, wp_context_sha := f\<rparr>" for a b d e f
    by (subst q [symmetric]) simp
  ultimately show ?thesis
    using assms(1) seeds normalize_seeds_cong [OF seeds]
    by (auto simp: canonical_payload_fields lists ctx validate_each_ok)
qed

theorem packet_identity_canonical:
  "same_evidence p q \<Longrightarrow> build_work_order lib p = Inr w \<Longrightarrow> build_work_order lib q = Inr w"
  unfolding build_work_order_def by (auto simp: result_simps dest: canonical_payload_cong)

section \<open>The source excerpt\<close>

fun excerpt_from :: "nat \<Rightarrow> string \<Rightarrow> string list \<Rightarrow> string \<times> bool" where
  "excerpt_from index excerpt [] = (excerpt, False)"
| "excerpt_from index excerpt (line # rest) =
     (if index = max_source_excerpt_lines then (excerpt, True)
      else
        let separator = (if index > 0 then [CHR 0x0A] else []);
            available = max_source_excerpt_bytes - utf8_len excerpt
        in if utf8_len separator + utf8_len line > available
           then (if line = [] then (excerpt, True)
                 else let prefix = take_bytes (available - utf8_len separator) line
                      in if prefix = [] then (excerpt, True) else (excerpt @ separator @ prefix, True))
           else excerpt_from (index + 1) (excerpt @ separator @ line) rest)"

definition bounded_excerpt :: "string list \<Rightarrow> string \<times> bool" where
  "bounded_excerpt lines = excerpt_from 0 [] lines"

definition newlines :: "string \<Rightarrow> nat" where
  "newlines s = length (filter (\<lambda>c. c = CHR 0x0A) s)"

lemma newlines_append [simp]: "newlines (a @ b) = newlines a + newlines b"
  by (simp add: newlines_def)

lemma lines_from_count: "length (lines_from acc s) \<le> newlines s + 1"
  by (induction acc s rule: lines_from.induct) (auto simp: newlines_def)

lemma lines_from_free: "CHR 0x0A \<notin> set acc \<Longrightarrow> l \<in> set (lines_from acc s) \<Longrightarrow> CHR 0x0A \<notin> set l"
proof (induction acc s arbitrary: l rule: lines_from.induct)
  case (2 acc c cs)
  show ?case
  proof (cases "c = CHR 0x0A")
    case True
    then have "l \<in> set (lines_from [] cs) \<or> l = rev (case acc of [] \<Rightarrow> [] | a # as \<Rightarrow> if a = CHR 0x0D then as else acc)"
      using "2.prems"(2) by auto
    then show ?thesis using "2.IH"(1) [OF True, of l] "2.prems"(1) by (auto split: list.splits if_splits)
  next
    case False
    then show ?thesis using "2.IH"(2) [OF False, of l] "2.prems" by simp
  qed
qed (simp split: if_splits)

lemma join_snoc: "str_join sep (xs @ [x]) = str_join sep xs @ (if xs = [] then [] else sep) @ x"
  by (induction xs rule: induct_list012) auto

lemma join_append_Cons: "\<exists>z. str_join sep (xs @ y # ys) = str_join sep xs @ (if xs = [] then [] else sep) @ y @ z"
proof (induction ys arbitrary: xs y)
  case (Cons a ys)
  obtain z where "str_join sep ((xs @ [y]) @ a # ys) = str_join sep (xs @ [y]) @ (if xs @ [y] = [] then [] else sep) @ a @ z"
    using Cons by blast
  then show ?case by (simp add: join_snoc)
qed (simp add: join_snoc)

lemma newlines_join:
  "xs \<noteq> [] \<Longrightarrow> \<forall>l\<in>set xs. newlines l = 0 \<Longrightarrow> newlines (str_join [CHR 0x0A] xs) = length xs - 1"
proof (induction xs rule: induct_list012)
  case (3 x y ys)
  then show ?case by (simp add: newlines_def)
qed (auto simp: newlines_def)

text \<open>What an excerpt of the given lines is.\<close>

definition excerpt_ok :: "string list \<Rightarrow> string \<times> bool \<Rightarrow> bool" where
  "excerpt_ok lines r \<longleftrightarrow> utf8_len (fst r) \<le> max_source_excerpt_bytes
     \<and> length (str_lines (fst r)) \<le> max_source_excerpt_lines
     \<and> (if snd r then \<exists>z. z \<noteq> [] \<and> str_join [CHR 0x0A] lines = fst r @ z else fst r = str_join [CHR 0x0A] lines)"

lemma join_lines_bound:
  assumes "length xs \<le> max_source_excerpt_lines" "\<forall>l\<in>set xs. newlines l = 0"
  shows "length (str_lines (str_join [CHR 0x0A] xs)) \<le> max_source_excerpt_lines"
proof (cases "xs = []")
  case False
  then show ?thesis
    using assms lines_from_count [of "[]" "str_join [CHR 0x0A] xs"] newlines_join [OF False assms(2)]
    by (cases xs) (auto simp: str_lines_def)
qed (simp add: str_lines_def)

lemma utf8_len_nl [simp]: "utf8_len [] = 0" "utf8_len [CHR 0x0A] = 1"
  by (simp_all add: utf8_len_def)

lemma utf8_len_pos: "s \<noteq> [] \<Longrightarrow> 0 < utf8_len s"
  by (cases s) (simp_all add: utf8_len_def)

lemma excerpt_cut:
  assumes "take_bytes n line = p" "utf8_len line > n"
  shows "\<exists>z. line = p @ z \<and> z \<noteq> [] \<and> utf8_len p \<le> n"
proof -
  obtain z where "line = p @ z" using take_bytes_prefix assms(1) by metis
  moreover have "utf8_len p \<le> n" using take_bytes_len assms(1) by metis
  ultimately show ?thesis using assms(2) by (cases z) auto
qed

lemma excerpt_from_ok:
  assumes "utf8_len (str_join [CHR 0x0A] seen) \<le> max_source_excerpt_bytes" "length seen \<le> max_source_excerpt_lines"
    "\<forall>l\<in>set (seen @ lines). newlines l = 0"
  shows "excerpt_ok (seen @ lines) (excerpt_from (length seen) (str_join [CHR 0x0A] seen) lines)"
  using assms
proof (induction lines arbitrary: seen)
  case Nil
  then show ?case using join_lines_bound [of seen] by (simp add: excerpt_ok_def)
next
  case (Cons line rest)
  let ?sep = "if seen \<noteq> [] then [CHR 0x0A] else []"
  let ?avail = "max_source_excerpt_bytes - utf8_len (str_join [CHR 0x0A] seen)"
  let ?p = "take_bytes (?avail - utf8_len ?sep) line"
  obtain z where z: "str_join [CHR 0x0A] (seen @ line # rest) = str_join [CHR 0x0A] seen @ ?sep @ line @ z"
    using join_append_Cons [of "[CHR 0x0A]" seen line rest] by (auto split: if_splits)
  have here: "length (str_lines (str_join [CHR 0x0A] seen)) \<le> max_source_excerpt_lines"
    using Cons.prems join_lines_bound [of seen] by simp
  have seen: "(length seen > 0) = (seen \<noteq> [])" by simp
  consider (full) "length seen = max_source_excerpt_lines"
    | (fits) "length seen < max_source_excerpt_lines" "utf8_len ?sep + utf8_len line \<le> ?avail"
    | (cut) "length seen < max_source_excerpt_lines" "utf8_len ?sep + utf8_len line > ?avail"
    using Cons.prems(2) by linarith
  then show ?case
  proof cases
    case full
    then have "seen \<noteq> []" by (auto simp: max_source_excerpt_lines_def)
    then show ?thesis using full z here Cons.prems(1) by (simp add: excerpt_ok_def)
  next
    case fits
    then have "utf8_len (str_join [CHR 0x0A] (seen @ [line])) \<le> max_source_excerpt_bytes"
      using Cons.prems(1) by (simp add: join_snoc split: if_splits)
    then have "excerpt_ok ((seen @ [line]) @ rest) (excerpt_from (length (seen @ [line])) (str_join [CHR 0x0A] (seen @ [line])) rest)"
      using fits(1) Cons.prems(3) by (intro Cons.IH) auto
    then show ?thesis using fits by (auto simp: join_snoc seen Let_def)
  next
    case cut
    have result: "excerpt_from (length seen) (str_join [CHR 0x0A] seen) (line # rest)
        = (if line = [] \<or> ?p = [] then (str_join [CHR 0x0A] seen, True) else (str_join [CHR 0x0A] seen @ ?sep @ ?p, True))"
      using cut by (simp add: seen Let_def)
    show ?thesis
    proof (cases "line = [] \<or> ?p = []")
      case True
      have "?sep @ line @ z \<noteq> []" using cut(2) by (auto simp: utf8_len_def split: if_splits)
      then show ?thesis using True z here Cons.prems(1) unfolding result by (auto simp: excerpt_ok_def)
    next
      case False
      have "utf8_len line > ?avail - utf8_len ?sep" using cut(2) utf8_len_pos [of line] False by linarith
      from excerpt_cut [OF refl this]
      obtain w where w: "line = ?p @ w" "w \<noteq> []" "utf8_len ?p \<le> ?avail - utf8_len ?sep" by blast
      have "newlines ?p = 0" using Cons.prems(3) w(1) by (metis add_is_0 in_set_conv_decomp newlines_append)
      then have lines: "length (str_lines (str_join [CHR 0x0A] (seen @ [?p]))) \<le> max_source_excerpt_lines"
        using cut(1) Cons.prems(3) by (intro join_lines_bound) auto
      have "utf8_len ?p > 0" using False utf8_len_pos by blast
      then have "utf8_len (str_join [CHR 0x0A] seen @ ?sep @ ?p) \<le> max_source_excerpt_bytes" using w(3) by simp
      moreover have "str_join [CHR 0x0A] (seen @ line # rest) = (str_join [CHR 0x0A] seen @ ?sep @ ?p) @ w @ z"
        using z w(1) by (metis append.assoc)
      ultimately show ?thesis using False lines w(2) unfolding result by (auto simp: excerpt_ok_def join_snoc)
    qed
  qed
qed

text \<open>The excerpt of a target is never over the bounds a packet is verified against, is the rest of the file
  when it is not marked as truncated, and a proper prefix of it when it is.\<close>

theorem excerpt_faithful: "excerpt_ok (drop start (str_lines content)) (bounded_excerpt (drop start (str_lines content)))"
proof -
  have "newlines l = 0" if "l \<in> set (drop start (str_lines content))" for l
    using lines_from_free [of "[]" l content] in_set_dropD [OF that] by (auto simp: str_lines_def newlines_def filter_empty_conv)
  then show ?thesis
    using excerpt_from_ok [of "[]" "drop start (str_lines content)"] by (simp add: bounded_excerpt_def utf8_len_def)
qed

section \<open>Seed references and commands\<close>

definition seed_references :: "seed_reference list \<Rightarrow> seed_reference list \<times> bool" where
  "seed_references entries = (let seeds = sort_dedup seed_key entries
     in (take max_work_order_seeds seeds, length seeds > max_work_order_seeds))"

text \<open>The seeds exported for a target pass the check of the packet, marked as truncated exactly when some
  are left out.\<close>

lemma exported_seeds_accepted:
  assumes "\<forall>s\<in>set entries. validate_sha256 (sr_sha s) ''seed SHA-256'' = Inr ()"
  shows "normalize_seeds (fst (seed_references entries)) (snd (seed_references entries)) = Inr (fst (seed_references entries))"
proof -
  let ?seeds = "sort_dedup seed_key entries"
  have "sorted_wrt (\<lambda>a b. seed_key a < seed_key b) (take n ?seeds)" for n
    using seeds.sort_dedup_increasing [of entries] by (simp add: sorted_wrt_take)
  then have "sort_dedup seed_key (take n ?seeds) = take n ?seeds" for n
    by (metis increasing_unique seeds.sort_dedup_increasing seeds.sort_dedup_set)
  moreover have "\<forall>s\<in>set (take n ?seeds). validate_sha256 (sr_sha s) ''seed SHA-256'' = Inr ()" for n
    using assms by (metis in_set_takeD seeds.sort_dedup_set)
  ultimately show ?thesis
    using validate_each_ok [of "\<lambda>s. validate_sha256 (sr_sha s) ''seed SHA-256''" "take max_work_order_seeds ?seeds"]
    by (simp add: seed_references_def normalize_seeds_def Let_def)
qed

datatype work_order_placeholder = HoleProject | HoleSourceFile | HoleSubmissionOrigin | HoleSubmissionId | HoleAttemptIds | HoleAttemptId

datatype work_order_arg = ArgLiteral string | ArgPlaceholder work_order_placeholder

record work_order_command =
  co_step :: work_order_step_kind
  co_argv :: "work_order_arg list"
  co_approval :: bool

definition work_order_target_selector :: "work_order \<Rightarrow> string" where
  "work_order_target_selector w = te_relative_source (wp_target (ho_payload w)) @ ''::'' @ te_symbol (wp_target (ho_payload w))"

fun step_argv :: "work_order \<Rightarrow> work_order_step_kind \<Rightarrow> work_order_arg list \<times> bool" where
  "step_argv w StepImport = (map ArgLiteral [''oxfuzz'', ''work-order'', ''import'', ''--work-order'', ho_id w, ''--source'']
     @ [ArgPlaceholder HoleSourceFile, ArgLiteral ''--origin'', ArgPlaceholder HoleSubmissionOrigin], False)"
| "step_argv w StepQualify = (map ArgLiteral [''oxfuzz'', ''work-order'', ''qualify'', ''--submission'']
     @ [ArgPlaceholder HoleSubmissionId], True)"
| "step_argv w StepRank = (map ArgLiteral [''oxfuzz'', ''work-order'', ''rank'', ''--attempt''] @ [ArgPlaceholder HoleAttemptIds], False)"
| "step_argv w StepPromote = (map ArgLiteral [''oxfuzz'', ''work-order'', ''promote'', ''--attempt''] @ [ArgPlaceholder HoleAttemptId], True)"
| "step_argv w (StepRunCampaign d) = (map ArgLiteral [''oxfuzz'', ''run''] @ [ArgPlaceholder HoleProject]
     @ map ArgLiteral [''--target'', work_order_target_selector w, ''--engine'', engine_str (wp_engine (ho_payload w)),
         ''--lang'', language_str (te_language (wp_target (ho_payload w))), ''--duration'', nat_str d @ ''s''], True)"
| "step_argv w StepCoverage = (map ArgLiteral [''oxfuzz'', ''coverage''] @ [ArgPlaceholder HoleProject]
     @ map ArgLiteral [''--target'', work_order_target_selector w], False)"

definition command_for_step :: "work_order \<Rightarrow> work_order_step_kind \<Rightarrow> work_order_command" where
  "command_for_step w s = \<lparr>co_step = s, co_argv = fst (step_argv w s), co_approval = snd (step_argv w s)\<rparr>"

definition work_order_commands :: "work_order \<Rightarrow> work_order_command list" where
  "work_order_commands w = map (command_for_step w) (wp_steps (ho_payload w))"

definition shell_safe :: "char \<Rightarrow> bool" where
  "shell_safe c \<longleftrightarrow> is_ascii_alphanumeric c \<or> c \<in> set ''@%_+=:,./-''"

definition escape_quotes :: "string \<Rightarrow> string" where
  "escape_quotes v = concat (map (\<lambda>c. if c = CHR 0x27 then [CHR 0x27, CHR 0x22, CHR 0x27, CHR 0x22, CHR 0x27] else [c]) v)"

definition quote_posix_arg :: "string \<Rightarrow> string" where
  "quote_posix_arg v = (if v \<noteq> [] \<and> list_all shell_safe v then v else CHR 0x27 # escape_quotes v @ [CHR 0x27])"

fun placeholder_text :: "work_order_placeholder \<Rightarrow> string" where
  "placeholder_text HoleProject = ''<project>''"
| "placeholder_text HoleSourceFile = ''<source-file>''"
| "placeholder_text HoleSubmissionOrigin = ''<submission-origin>''"
| "placeholder_text HoleSubmissionId = ''<submission-id>''"
| "placeholder_text HoleAttemptIds = ''<attempt-id>...''"
| "placeholder_text HoleAttemptId = ''<attempt-id>''"

definition render_arg :: "work_order_arg \<Rightarrow> string" where
  "render_arg a = (case a of ArgLiteral v \<Rightarrow> quote_posix_arg v | ArgPlaceholder p \<Rightarrow> placeholder_text p)"

definition render_command :: "work_order_command \<Rightarrow> string" where
  "render_command c = str_join '' '' (map render_arg (co_argv c))"

text \<open>
  A reference reader of shell words (POSIX 2.2, 2.3): blanks separate words outside quotes, single quotes
  take everything literally, double quotes everything but the characters that keep a meaning there, and
  outside quotes only characters without a special meaning are accepted. \<open>None\<close> is input outside this
  fragment. The first argument is the word being read, if one has begun.
\<close>

datatype quote_mode = Bare | InSingle | InDouble

fun sh_scan :: "quote_mode \<Rightarrow> string option \<Rightarrow> string \<Rightarrow> string list option" where
  "sh_scan Bare None [] = Some []"
| "sh_scan Bare (Some w) [] = Some [w]"
| "sh_scan InSingle _ [] = None"
| "sh_scan InDouble _ [] = None"
| "sh_scan Bare w (c # cs) =
     (if c = CHR '' '' then map_option (\<lambda>ws. (case w of None \<Rightarrow> ws | Some v \<Rightarrow> v # ws)) (sh_scan Bare None cs)
      else if c = CHR 0x27 then sh_scan InSingle (Some (case w of None \<Rightarrow> [] | Some v \<Rightarrow> v)) cs
      else if c = CHR 0x22 then sh_scan InDouble (Some (case w of None \<Rightarrow> [] | Some v \<Rightarrow> v)) cs
      else if shell_safe c then sh_scan Bare (Some ((case w of None \<Rightarrow> [] | Some v \<Rightarrow> v) @ [c])) cs
      else None)"
| "sh_scan InSingle w (c # cs) =
     (if c = CHR 0x27 then sh_scan Bare w cs else sh_scan InSingle (map_option (\<lambda>v. v @ [c]) w) cs)"
| "sh_scan InDouble w (c # cs) =
     (if c = CHR 0x22 then sh_scan Bare w cs
      else if c \<in> {CHR ''$'', CHR 0x60, CHR 0x5C} then None else sh_scan InDouble (map_option (\<lambda>v. v @ [c]) w) cs)"

definition sh_words :: "string \<Rightarrow> string list option" where
  "sh_words s = sh_scan Bare None s"

lemma shell_safe_plain: "shell_safe c \<Longrightarrow> c \<noteq> CHR '' '' \<and> c \<noteq> CHR 0x27 \<and> c \<noteq> CHR 0x22"
  by (auto simp: shell_safe_def is_ascii_alphanumeric_def is_ascii_digit_def char_code_def)

lemma scan_plain: "list_all shell_safe v \<Longrightarrow> sh_scan Bare (Some w) (v @ r) = sh_scan Bare (Some (w @ v)) r"
  by (induction v arbitrary: w) (use shell_safe_plain in auto)

lemma scan_quoted: "sh_scan InSingle (Some w) (escape_quotes v @ CHR 0x27 # r) = sh_scan Bare (Some (w @ v)) r"
  by (induction v arbitrary: w) (simp_all add: escape_quotes_def)

lemma scan_arg: "sh_scan Bare None (quote_posix_arg v @ r) = sh_scan Bare (Some v) r"
proof (cases "v \<noteq> [] \<and> list_all shell_safe v")
  case True
  then obtain c cs where "v = c # cs" "shell_safe c" "list_all shell_safe cs" by (cases v) auto
  then show ?thesis using True scan_plain [of cs "[c]" r] shell_safe_plain [of c] by (simp add: quote_posix_arg_def)
next
  case False
  then show ?thesis using scan_quoted [of "[]" v r] by (auto simp: quote_posix_arg_def)
qed


end
