(* ===== verification/Work_Order_Service.thy ===== *)
theory Work_Order_Service
  imports Work_Order_Packet F64
begin

text \<open>
  Qualification of externally authored harnesses,
  \<^verbatim>\<open>crates/hf-service/src/container/harness_work_order.rs\<close> with the smoke verdict of \<^verbatim>\<open>verification.rs\<close>,
  \<^verbatim>\<open>container/harness_behavior.rs\<close> and the end of the smoke run of \<^verbatim>\<open>hf-harness/src/generator.rs\<close>: importing
  submissions, the preflight, the qualification of one submission through compile, review and smoke, the
  checks on every row read back, ranking and promotion. The answers of the compiler, the reviewer, the
  fuzzer, the linter, the file system and the promotion itself are arguments, as are the clock and new
  identifiers. The JSON text of results, origins and lint findings is \<^verbatim>\<open>serde_json\<close>'s, a parameter.
\<close>

section \<open>Smoke verdicts\<close>

datatype verdict_level = VerdictPass | VerdictSuspect | VerdictFail

record smoke_summary =
  sm_duration :: nat
  sm_execs :: f64
  sm_crashes :: nat
  sm_passed :: bool
  sm_source_sha :: "string option"
  sm_binary_sha :: "string option"
  sm_run_id :: "uuid128 option"

text \<open>\<^verbatim>\<open>MIN_MEANINGFUL_EXECS_PER_SEC\<close> is one.\<close>

definition min_meaningful_execs :: f64 where
  "min_meaningful_execs = Fin False 1 0"

text \<open>\<^verbatim>\<open>a >= b\<close> of floats: false when one of them is NaN.\<close>

definition f_ge :: "f64 \<Rightarrow> f64 \<Rightarrow> bool" where
  "f_ge a b \<longleftrightarrow> a \<noteq> FNaN \<and> b \<noteq> FNaN \<and> \<not> f_less a b"

text \<open>Whether the fuzzer ran, from its rate, its crashes and the progress markers in its output, and the summary and
  status the smoke run ends with.\<close>

definition smoke_ran :: "engine_kind \<Rightarrow> f64 \<Rightarrow> nat \<Rightarrow> string \<Rightarrow> bool" where
  "smoke_ran engine execs crashes lower =
     (if engine = LibFuzzer then f_less f_zero execs \<or> crashes > 0
      else f_less f_zero execs \<or> crashes > 0
        \<or> list_ex (\<lambda>m. str_contains m lower) [''exec/s'', ''exec speed'', ''cycles done'', ''iterations'', ''speed''])"

definition smoke_result ::
  "engine_kind \<Rightarrow> nat \<Rightarrow> f64 \<Rightarrow> nat \<Rightarrow> string \<Rightarrow> bool \<Rightarrow> bool \<Rightarrow> (smoke_summary \<times> harness_status) option" where
  "smoke_result engine duration execs crashes lower mutator_exercised custom_mutator =
     (let ran = smoke_ran engine execs crashes lower
      in if \<not> ran \<and> \<not> custom_mutator then None
         else Some (\<lparr>sm_duration = duration, sm_execs = execs, sm_crashes = crashes,
                     sm_passed = (crashes = 0 \<and> ran \<and> mutator_exercised),
                     sm_source_sha = None, sm_binary_sha = None, sm_run_id = None\<rparr>,
                    if ran \<and> mutator_exercised then HarnessSmokePassed else HarnessFailed))"

text \<open>The level of the verdict; the reasons that go with it are text for the author.\<close>

definition assess_harness_smoke :: "smoke_summary \<Rightarrow> harness_status \<Rightarrow> verdict_level" where
  "assess_harness_smoke s status =
     (if \<not> (status = HarnessCompiled \<or> status = HarnessSmokePassed \<or> status = HarnessPromoted) then VerdictFail
      else if \<not> sm_passed s then VerdictFail
      else if f_less (sm_execs s) min_meaningful_execs \<or> sm_crashes s > 0 then VerdictSuspect else VerdictPass)"

datatype behavior_check = CheckPass string | CheckSuspect string | CheckUnavailable string

fun is_suspect :: "behavior_check \<Rightarrow> bool" where
  "is_suspect (CheckSuspect _) = True"
| "is_suspect _ = False"

definition augment_verdict :: "behavior_check list \<Rightarrow> verdict_level \<Rightarrow> verdict_level" where
  "augment_verdict checks v = foldl (\<lambda>v c. if is_suspect c \<and> v = VerdictPass then VerdictSuspect else v) v checks"

section \<open>Evidence of an attempt\<close>

record attempt_result =
  ar_compiled :: bool
  ar_verdict :: "verdict_level option"
  ar_depth :: nat
  ar_source_sha :: "string option"
  ar_binary_sha :: "string option"
  ar_execs :: "f64 option"
  ar_crashes :: "nat option"

record work_order_attempt =
  wa_id :: uuid128
  wa_submission :: uuid128
  wa_status :: attempt_status
  wa_stage :: attempt_stage
  wa_harness :: "uuid128 option"
  wa_smoke_run :: "uuid128 option"
  wa_result :: "attempt_result option"
  wa_failure_code :: "string option"
  wa_failure_message :: "string option"
  wa_started :: timestamp
  wa_updated :: timestamp
  wa_ended :: "timestamp option"

datatype submission_origin = OriginHuman | OriginTool string "string option" "string option"

datatype lint_severity = LintError | LintWarning

record lint_finding =
  lf_severity :: lint_severity
  lf_rule :: string
  lf_message :: string
  lf_line :: nat

record evidence_lib =
  packets :: packet_lib
  result_json :: "attempt_result \<Rightarrow> string + string"
  parse_result :: "string \<Rightarrow> attempt_result option"
  origin_json :: "submission_origin \<Rightarrow> string + string"
  parse_origin :: "string \<Rightarrow> submission_origin option"
  lint_json :: "lint_finding list \<Rightarrow> string + string"
  parse_lint :: "string \<Rightarrow> lint_finding list option"

abbreviation digest_of :: "evidence_lib \<Rightarrow> string \<Rightarrow> string" where
  "digest_of lib s \<equiv> sha256_hex (packets lib) s"

definition max_failure_code_bytes :: nat where
  "max_failure_code_bytes = 128"

definition max_failure_message_bytes :: nat where
  "max_failure_message_bytes = 4096"

definition valid_sha256 :: "string \<Rightarrow> bool" where
  "valid_sha256 v \<longleftrightarrow> utf8_len v = 64 \<and> list_all (\<lambda>c. is_ascii_hexdigit c \<and> \<not> (65 \<le> char_code c \<and> char_code c \<le> 90)) v"

definition valid_failure_message :: "string \<Rightarrow> bool" where
  "valid_failure_message m \<longleftrightarrow> m \<noteq> [] \<and> utf8_len m \<le> max_failure_message_bytes \<and> \<not> list_ex is_control m
     \<and> sanitize_work_order_diagnostic m max_failure_message_bytes = m"

definition no_failure :: "attempt_record \<Rightarrow> bool" where
  "no_failure r \<longleftrightarrow> att_failure_code r = None \<and> att_failure_message r = None"

definition valid_failure :: "attempt_record \<Rightarrow> bool" where
  "valid_failure r \<longleftrightarrow>
     (case att_failure_code r of None \<Rightarrow> False
      | Some c \<Rightarrow> list_ex (\<lambda>k. c = k) [''provider'', ''sandbox'', ''engine'', ''harness'', ''validation'', ''timeout'', ''internal''])
     \<and> (case att_failure_message r of None \<Rightarrow> False | Some m \<Rightarrow> valid_failure_message m)"

definition no_digest_evidence :: "attempt_result \<Rightarrow> bool" where
  "no_digest_evidence r \<longleftrightarrow> ar_source_sha r = None \<and> ar_binary_sha r = None"

definition no_smoke_evidence :: "attempt_result \<Rightarrow> bool" where
  "no_smoke_evidence r \<longleftrightarrow> ar_verdict r = None \<and> ar_execs r = None \<and> ar_crashes r = None"

definition valid_result_values :: "attempt_result option \<Rightarrow> bool" where
  "valid_result_values res = (case res of None \<Rightarrow> True | Some r \<Rightarrow>
     ar_depth r < max_work_order_submissions
     \<and> (case ar_source_sha r of None \<Rightarrow> True | Some s \<Rightarrow> valid_sha256 s)
     \<and> (case ar_binary_sha r of None \<Rightarrow> True | Some s \<Rightarrow> valid_sha256 s)
     \<and> (case ar_execs r of None \<Rightarrow> True | Some x \<Rightarrow> f_is_finite x \<and> f_ge x f_zero))"

definition valid_compile_failure_result :: "attempt_result \<Rightarrow> bool" where
  "valid_compile_failure_result r \<longleftrightarrow> \<not> ar_compiled r \<and> no_digest_evidence r \<and> no_smoke_evidence r"

definition valid_review_failure_result :: "attempt_result \<Rightarrow> bool" where
  "valid_review_failure_result r \<longleftrightarrow> ar_compiled r \<and> no_smoke_evidence r \<and> (ar_binary_sha r = None \<or> ar_source_sha r \<noteq> None)"

definition valid_smoke_failure_result :: "attempt_result \<Rightarrow> bool" where
  "valid_smoke_failure_result r \<longleftrightarrow> ar_compiled r \<and> ar_source_sha r \<noteq> None \<and> ar_binary_sha r \<noteq> None \<and> no_smoke_evidence r"

definition metrics_match_verdict :: "verdict_level \<Rightarrow> f64 \<Rightarrow> nat \<Rightarrow> bool" where
  "metrics_match_verdict v execs crashes = (case v of
     VerdictPass \<Rightarrow> crashes = 0 \<and> f_ge execs min_meaningful_execs
   | VerdictSuspect \<Rightarrow> crashes = 0 \<and> f_less f_zero execs \<and> f_less execs min_meaningful_execs
   | VerdictFail \<Rightarrow> crashes > 0)"

definition valid_smoke_passed_result :: "attempt_result \<Rightarrow> bool" where
  "valid_smoke_passed_result r = (case (ar_verdict r, ar_execs r, ar_crashes r) of
     (Some v, Some x, Some c) \<Rightarrow> ar_compiled r \<and> ar_source_sha r \<noteq> None \<and> ar_binary_sha r \<noteq> None \<and> metrics_match_verdict v x c
   | _ \<Rightarrow> False)"

definition some_and :: "('a \<Rightarrow> bool) \<Rightarrow> 'a option \<Rightarrow> bool" where
  "some_and P x = (case x of None \<Rightarrow> False | Some v \<Rightarrow> P v)"

definition valid_terminal :: "attempt_record \<Rightarrow> attempt_result option \<Rightarrow> bool" where
  "valid_terminal r res = (case att_status r of
     CompileFailed \<Rightarrow> att_harness r = None \<and> att_smoke_run r = None \<and> valid_failure r \<and> some_and valid_compile_failure_result res
   | ReviewFailed \<Rightarrow> att_harness r \<noteq> None \<and> att_smoke_run r = None \<and> valid_failure r \<and> some_and valid_review_failure_result res
   | SmokeFailed \<Rightarrow> att_harness r \<noteq> None \<and> valid_failure r \<and> some_and valid_smoke_failure_result res
   | SmokePassed \<Rightarrow> att_harness r \<noteq> None \<and> att_smoke_run r \<noteq> None \<and> no_failure r \<and> some_and valid_smoke_passed_result res
   | Interrupted \<Rightarrow> att_smoke_run r = None \<and> att_result r = None \<and> att_failure_code r = Some ''attempt_interrupted''
       \<and> some_and valid_failure_message (att_failure_message r)
   | AttemptRunning \<Rightarrow> False)"

definition valid_running :: "attempt_record \<Rightarrow> bool" where
  "valid_running r \<longleftrightarrow> att_stage r \<noteq> StageComplete \<and> att_ended r = None \<and> att_smoke_run r = None \<and> att_result r = None
     \<and> no_failure r \<and> (case att_stage r of StageCompile \<Rightarrow> att_harness r = None | StageReview \<Rightarrow> att_harness r \<noteq> None
         | StageSmoke \<Rightarrow> att_harness r \<noteq> None | StageComplete \<Rightarrow> False)"

definition valid_attempt_semantics :: "attempt_record \<Rightarrow> attempt_result option \<Rightarrow> bool" where
  "valid_attempt_semantics r res =
     (if att_id r = 0 \<or> att_submission r = 0 \<or> att_harness r = Some 0 \<or> att_smoke_run r = Some 0
         \<or> att_updated r < att_started r \<or> \<not> valid_result_values res then False
      else if att_status r = AttemptRunning then valid_running r
      else if att_stage r \<noteq> StageComplete \<or> att_ended r \<noteq> Some (att_updated r) then False
      else valid_terminal r res)"

definition invalid_attempt_evidence :: wo_error where
  "invalid_attempt_evidence = wo_validation CodeInvalidWorkOrderDigest ''durable qualification attempt contains contradictory evidence''"

definition parse_retained_result :: "evidence_lib \<Rightarrow> attempt_record \<Rightarrow> (wo_error, attempt_result option) result" where
  "parse_retained_result lib r = (case att_result r of
     None \<Rightarrow> Inr None
   | Some raw \<Rightarrow>
       bind_result (ok_or (wo_validation CodeInvalidWorkOrderDigest ''durable qualification result is malformed'')
                      (parse_result lib raw)) (\<lambda>parsed.
         bind_result (wo_json (result_json lib parsed)) (\<lambda>json.
           if json \<noteq> raw then Inl invalid_attempt_evidence else Inr (Some parsed))))"

definition public_attempt :: "attempt_record \<Rightarrow> attempt_result option \<Rightarrow> work_order_attempt" where
  "public_attempt r res = \<lparr>wa_id = att_id r, wa_submission = att_submission r, wa_status = att_status r, wa_stage = att_stage r,
     wa_harness = att_harness r, wa_smoke_run = att_smoke_run r, wa_result = res, wa_failure_code = att_failure_code r,
     wa_failure_message = att_failure_message r, wa_started = att_started r, wa_updated = att_updated r, wa_ended = att_ended r\<rparr>"

definition retained_attempt :: "evidence_lib \<Rightarrow> attempt_record \<Rightarrow> (wo_error, work_order_attempt) result" where
  "retained_attempt lib r = bind_result (parse_retained_result lib r) (\<lambda>res.
     if \<not> valid_attempt_semantics r res then Inl invalid_attempt_evidence else Inr (public_attempt r res))"

section \<open>Submissions\<close>

definition max_provenance_label_bytes :: nat where
  "max_provenance_label_bytes = 128"

definition max_provenance_response_id_bytes :: nat where
  "max_provenance_response_id_bytes = 256"

definition invalid_provenance :: wo_error where
  "invalid_provenance = wo_validation CodeInvalidProvenance ''submission provenance is invalid''"

definition invalid_durable_origin :: wo_error where
  "invalid_durable_origin = wo_validation CodeInvalidWorkOrderDigest ''durable submission origin is malformed''"

definition validate_submission_source :: "string \<Rightarrow> (wo_error, unit) result" where
  "validate_submission_source s =
     (if s = [] then Inl (wo_validation CodeSourceEmpty ''submission source must not be empty'')
      else if utf8_len s > max_source_excerpt_bytes
      then Inl (wo_validation CodeSourceTooLarge ''submission source exceeds the maximum size'') else Inr ())"

definition normalized_provenance_label :: "string \<Rightarrow> nat \<Rightarrow> (wo_error, string) result" where
  "normalized_provenance_label v n =
     (if list_ex is_control v then Inl invalid_provenance
      else if trim v = [] \<or> utf8_len (trim v) > n then Inl invalid_provenance else Inr (trim v))"

definition normalized_optional_label :: "string option \<Rightarrow> nat \<Rightarrow> (wo_error, string option) result" where
  "normalized_optional_label v n = (case v of None \<Rightarrow> Inr None
     | Some s \<Rightarrow> bind_result (normalized_provenance_label s n) (\<lambda>t. Inr (Some t)))"

definition normalized_submission_origin :: "submission_origin \<Rightarrow> (wo_error, submission_origin) result" where
  "normalized_submission_origin org = (case org of
     OriginHuman \<Rightarrow> Inr OriginHuman
   | OriginTool tool model response \<Rightarrow>
       bind_result (normalized_provenance_label tool max_provenance_label_bytes) (\<lambda>t.
       bind_result (normalized_optional_label model max_provenance_label_bytes) (\<lambda>m.
       bind_result (normalized_optional_label response max_provenance_response_id_bytes) (\<lambda>r.
         Inr (OriginTool t m r)))))"

record work_order_submission =
  ws_id :: uuid128
  ws_order :: string
  ws_source :: string
  ws_sha :: string
  ws_origin :: submission_origin
  ws_parent :: "uuid128 option"
  ws_lint :: "lint_finding list"
  ws_submitted :: timestamp

definition replace_error :: "'e \<Rightarrow> ('d, 'a) result \<Rightarrow> ('e, 'a) result" where
  "replace_error e r = (case r of Inr x \<Rightarrow> Inr x | Inl _ \<Rightarrow> Inl e)"

definition retained_submission :: "evidence_lib \<Rightarrow> submission_record \<Rightarrow> (wo_error, work_order_submission) result" where
  "retained_submission lib r =
     bind_result (validate_submission_source (sub_source r)) (\<lambda>_.
       if sub_sha r \<noteq> digest_of lib (sub_source r)
       then Inl (wo_validation CodeInvalidWorkOrderDigest ''durable submission source digest does not match its source'')
       else
         bind_result (ok_or invalid_durable_origin (parse_origin lib (sub_origin r))) (\<lambda>parsed.
         bind_result (replace_error invalid_durable_origin (normalized_submission_origin parsed)) (\<lambda>origin.
         bind_result (wo_json (origin_json lib origin)) (\<lambda>oj.
           if oj \<noteq> sub_origin r then Inl invalid_durable_origin
           else
             bind_result (ok_or (wo_validation CodeInvalidWorkOrderDigest ''durable submission lint is malformed'')
                            (parse_lint lib (sub_lint r))) (\<lambda>lint.
             bind_result (wo_json (lint_json lib lint)) (\<lambda>lj.
               if lj \<noteq> sub_lint r then Inl (wo_validation CodeInvalidWorkOrderDigest ''durable submission lint is not canonical'')
               else Inr \<lparr>ws_id = sub_id r, ws_order = sub_order r, ws_source = sub_source r, ws_sha = sub_sha r, ws_origin = origin,
                         ws_parent = sub_parent r, ws_lint = lint, ws_submitted = sub_submitted r\<rparr>))))))"

section \<open>Reading the store\<close>

definition wo_storage_error :: wo_error where
  "wo_storage_error = wo_storage ''durable work order storage is unavailable''"

text \<open>Every failure of the store is \<^verbatim>\<open>storage_error\<close>. A row that does not decode is not a value of the store's
  model, so loading only fails to find one.\<close>

definition submission_insertion_error :: "submission_insert_error \<Rightarrow> wo_error" where
  "submission_insertion_error e = (case e of
     MissingWorkOrder \<Rightarrow> wo_not_found CodeWorkOrderNotFound ''work order was not found''
   | MissingParent \<Rightarrow> wo_not_found CodeParentNotFound ''submission parent was not found''
   | ParentWorkOrderMismatch \<Rightarrow> wo_validation CodeParentWorkOrderMismatch ''submission parent belongs to a different work order''
   | SubmissionLimitReached \<Rightarrow> wo_validation CodeSubmissionLimitReached ''work order submission limit reached''
   | SubmissionStorage _ \<Rightarrow> wo_storage_error)"

definition work_order_not_found :: wo_error where
  "work_order_not_found = wo_not_found CodeWorkOrderNotFound ''work order was not found''"

definition submission_not_found :: wo_error where
  "submission_not_found = wo_not_found CodeSubmissionNotFound ''work order submission was not found''"

definition attempt_not_found :: wo_error where
  "attempt_not_found = wo_not_found CodeAttemptNotFound ''work order qualification attempt was not found''"

definition load_verified_work_order :: "evidence_lib \<Rightarrow> work_order_db \<Rightarrow> string \<Rightarrow> (wo_error, work_order) result" where
  "load_verified_work_order lib db i =
     bind_result (ok_or work_order_not_found (load_work_order db i)) (\<lambda>r. retained_packet (packets lib) r None)"

text \<open>The parents of a submission, counted; the search gives up at the number of submissions an order can have.\<close>

function repair_depth_from ::
  "evidence_lib \<Rightarrow> work_order_db \<Rightarrow> string \<Rightarrow> nat \<Rightarrow> uuid128 option \<Rightarrow> (wo_error, nat) result" where
  "repair_depth_from lib db order depth None = Inr depth"
| "repair_depth_from lib db order depth (Some i) =
     bind_result (ok_or (wo_validation CodeInvalidWorkOrderDigest ''durable submission ancestry is incomplete'') (load_submission db i)) (\<lambda>r.
     bind_result (retained_submission lib r) (\<lambda>parent.
       if ws_order parent \<noteq> order
       then Inl (wo_validation CodeInvalidWorkOrderDigest ''durable submission ancestry crosses work orders'')
       else if depth + 1 \<ge> max_work_order_submissions
       then Inl (wo_validation CodeInvalidWorkOrderDigest ''durable submission ancestry is too deep'')
       else repair_depth_from lib db order (depth + 1) (ws_parent parent)))"
  by pat_completeness auto
termination
  by (relation "measure (\<lambda>(lib, db, order, depth, p). max_work_order_submissions - depth)") auto

definition submission_repair_depth :: "evidence_lib \<Rightarrow> work_order_db \<Rightarrow> work_order_submission \<Rightarrow> (wo_error, nat) result" where
  "submission_repair_depth lib db s = repair_depth_from lib db (ws_order s) 0 (ws_parent s)"

section \<open>Import\<close>

record import_request =
  ir_order :: string
  ir_source :: string
  ir_origin :: submission_origin
  ir_parent :: "uuid128 option"

definition import_harness_work_order_submission ::
  "evidence_lib \<Rightarrow> (string \<Rightarrow> bool) \<Rightarrow> (string \<Rightarrow> target_language \<Rightarrow> lint_finding list) \<Rightarrow> work_order_db \<Rightarrow> import_request
     \<Rightarrow> uuid128 \<Rightarrow> timestamp \<Rightarrow> work_order_db \<times> (wo_error, work_order_submission) result" where
  "import_harness_work_order_submission lib jv linter db q new now =
     (case load_verified_work_order lib db (ir_order q) of
        Inl e \<Rightarrow> (db, Inl e)
      | Inr w \<Rightarrow>
          (case bind_result (validate_submission_source (ir_source q)) (\<lambda>_.
                bind_result (normalized_submission_origin (ir_origin q)) (\<lambda>origin.
                bind_result (wo_json (origin_json lib origin)) (\<lambda>oj.
                bind_result (wo_json (lint_json lib (linter (ir_source q) (te_language (wp_target (ho_payload w)))))) (\<lambda>lj.
                  Inr \<lparr>sub_id = new, sub_order = ir_order q, sub_source = ir_source q, sub_sha = digest_of lib (ir_source q),
                       sub_origin = oj, sub_parent = ir_parent q, sub_lint = lj, sub_submitted = now\<rparr>)))) of
             Inl e \<Rightarrow> (db, Inl e)
           | Inr r \<Rightarrow>
               (case insert_harness_work_order_submission jv db r of
                  (db', Inl e) \<Rightarrow> (db', Inl (submission_insertion_error e))
                | (db', Inr persisted) \<Rightarrow> (db', retained_submission lib persisted))))"

section \<open>Ranking\<close>

text \<open>\<^verbatim>\<open>f64::total_cmp\<close> compares the bit patterns of two floats as signed integers, with the bits of a negative
  float below its sign inverted.\<close>

definition magnitude_bits :: "nat \<Rightarrow> int \<Rightarrow> nat" where
  "magnitude_bits m e =
     (let n = bit_len m; field = e + int n + 1022
      in if m = 0 then 0
         else if field < 1 then m * 2 ^ nat (e + 1074)
         else nat field * 2 ^ 52 + (m * 2 ^ 53 div 2 ^ n - 2 ^ 52))"

fun total_order_key :: "f64 \<Rightarrow> int" where
  "total_order_key FNaN = 2047 * 2 ^ 52 + 2 ^ 51"
| "total_order_key (FInf s) = (if s then - (2047 * 2 ^ 52) - 1 else 2047 * 2 ^ 52)"
| "total_order_key (Fin s m e) = (if s then - int (magnitude_bits m e) - 1 else int (magnitude_bits m e))"

record ranked_attempt =
  ra_id :: uuid128
  ra_compiled :: bool
  ra_verdict :: nat
  ra_depth :: nat
  ra_execs :: f64
  ra_submitted :: timestamp

definition verdict_rank :: "verdict_level option \<Rightarrow> nat" where
  "verdict_rank v = (case v of Some VerdictPass \<Rightarrow> 0 | Some VerdictSuspect \<Rightarrow> 1 | Some VerdictFail \<Rightarrow> 2 | None \<Rightarrow> 3)"

definition ranked_attempt_new :: "work_order_attempt \<Rightarrow> timestamp \<Rightarrow> nat \<Rightarrow> ranked_attempt" where
  "ranked_attempt_new a submitted depth = \<lparr>ra_id = wa_id a, ra_compiled = (wa_harness a \<noteq> None),
     ra_verdict = verdict_rank (Option.bind (wa_result a) ar_verdict), ra_depth = depth,
     ra_execs = (case Option.bind (wa_result a) ar_execs of None \<Rightarrow> f_zero | Some x \<Rightarrow> x), ra_submitted = submitted\<rparr>"

text \<open>\<^verbatim>\<open>RankedAttempt::compare\<close> as the key it compares by: compiled first, then verdict, depth, speed (faster first),
  submission time and identifier.\<close>

definition rank_key :: "ranked_attempt \<Rightarrow> bool \<times> nat \<times> nat \<times> int \<times> timestamp \<times> uuid128" where
  "rank_key a = (\<not> ra_compiled a, ra_verdict a, ra_depth a, - total_order_key (ra_execs a), ra_submitted a, ra_id a)"

definition validate_ranking_request :: "uuid128 list \<Rightarrow> (wo_error, unit) result" where
  "validate_ranking_request ids =
     (if length ids > max_work_order_rank_attempts
      then Inl (wo_validation CodeRankingLimitExceeded (''ranking accepts at most '' @ nat_str max_work_order_rank_attempts @ '' attempts''))
      else if ids = [] \<or> \<not> distinct ids
      then Inl (wo_validation CodeInvalidTransition ''ranking requires one or more unique attempt identifiers'') else Inr ())"

definition load_ranked :: "evidence_lib \<Rightarrow> work_order_db \<Rightarrow> uuid128 \<Rightarrow> (wo_error, ranked_attempt) result" where
  "load_ranked lib db i =
     bind_result (ok_or attempt_not_found (load_attempt db i)) (\<lambda>r.
     bind_result (retained_attempt lib r) (\<lambda>a.
     bind_result (ok_or (wo_validation CodeInvalidWorkOrderDigest ''ranked attempt submission is missing'') (load_submission db (wa_submission a))) (\<lambda>sr.
     bind_result (retained_submission lib sr) (\<lambda>s.
     bind_result (load_verified_work_order lib db (ws_order s)) (\<lambda>_.
     bind_result (submission_repair_depth lib db s) (\<lambda>depth.
       if (case wa_result a of None \<Rightarrow> False | Some res \<Rightarrow> ar_depth res \<noteq> depth) then Inl invalid_attempt_evidence
       else Inr (ranked_attempt_new a (ws_submitted s) depth)))))))"

fun collect_results :: "('a \<Rightarrow> ('e, 'b) result) \<Rightarrow> 'a list \<Rightarrow> ('e, 'b list) result" where
  "collect_results f [] = Inr []"
| "collect_results f (x # xs) = bind_result (f x) (\<lambda>y. bind_result (collect_results f xs) (\<lambda>ys. Inr (y # ys)))"

record work_order_ranking =
  wr_attempts :: "uuid128 list"
  wr_winner :: "uuid128 option"

definition rank_harness_work_order_attempts ::
  "evidence_lib \<Rightarrow> work_order_db \<Rightarrow> uuid128 list \<Rightarrow> (wo_error, work_order_ranking) result" where
  "rank_harness_work_order_attempts lib db ids =
     bind_result (validate_ranking_request ids) (\<lambda>_.
     bind_result (collect_results (load_ranked lib db) ids) (\<lambda>attempts.
       let sorted = sort_key rank_key attempts
       in Inr \<lparr>wr_attempts = map ra_id sorted, wr_winner = map_option ra_id (find ra_compiled sorted)\<rparr>))"

section \<open>Qualification\<close>

definition stale_work_order :: wo_error where
  "stale_work_order = wo_validation CodeStaleWorkOrder ''retained work order evidence no longer matches the project''"

record target_candidate =
  tc_id :: uuid128
  tc_symbol :: string
  tc_language :: target_language
  tc_signature :: "string option"
  tc_line :: nat
  tc_rationale :: string

text \<open>What the project looks like now: its canonical root, the discovered targets, the source of a candidate and the
  normalized build context, where \<open>None\<close> is an error; and the linter.\<close>

record project_view =
  pv_root :: "string \<Rightarrow> string option"
  pv_targets :: "string \<Rightarrow> target_candidate list"
  pv_source :: "string \<Rightarrow> target_candidate \<Rightarrow> (string \<times> source_evidence) option"
  pv_context :: "string \<Rightarrow> compile_context option"
  pv_linter :: "string \<Rightarrow> target_language \<Rightarrow> lint_finding list"

record preflight =
  pf_project :: string
  pf_order :: work_order
  pf_submission :: work_order_submission
  pf_depth :: nat

definition has_blocking_finding :: "lint_finding list \<Rightarrow> bool" where
  "has_blocking_finding fs = list_ex (\<lambda>f. lf_severity f = LintError) fs"

definition candidate_current :: "target_candidate \<Rightarrow> target_evidence \<Rightarrow> bool" where
  "candidate_current c t \<longleftrightarrow> tc_symbol c = te_symbol t \<and> tc_language c = te_language t \<and> tc_signature c = te_signature t
     \<and> tc_line c = te_line t \<and> tc_rationale c = te_rationale t"

definition require :: "bool \<Rightarrow> 'e \<Rightarrow> ('e, unit) result" where
  "require b e = (if b then Inr () else Inl e)"

definition check_evidence_current ::
  "evidence_lib \<Rightarrow> project_view \<Rightarrow> work_order_record \<Rightarrow> work_order \<Rightarrow> (wo_error, string) result" where
  "check_evidence_current lib v r w =
     bind_result (ok_or stale_work_order (pv_root v (wo_project r))) (\<lambda>project.
     bind_result (require (project = wo_project r) stale_work_order) (\<lambda>_.
     bind_result (ok_or stale_work_order (find (\<lambda>c. tc_id c = wo_target r) (pv_targets v (wo_project r)))) (\<lambda>c.
     bind_result (require (candidate_current c (wp_target (ho_payload w))) stale_work_order) (\<lambda>_.
     bind_result (ok_or stale_work_order (pv_source v project c)) (\<lambda>(relative, source).
     bind_result (require (relative = te_relative_source (wp_target (ho_payload w))) stale_work_order) (\<lambda>_.
     bind_result (require (se_sha source = se_sha (wp_source (ho_payload w))) stale_work_order) (\<lambda>_.
     bind_result (ok_or stale_work_order (pv_context v project)) (\<lambda>ctx.
     bind_result (replace_error stale_work_order (build_work_order (packets lib) ((ho_payload w)\<lparr>wp_context := ctx\<rparr>))) (\<lambda>current.
     bind_result (require (wp_context_sha (ho_payload current) = wp_context_sha (ho_payload w)) stale_work_order) (\<lambda>_.
       Inr project))))))))))"

definition check_lint :: "project_view \<Rightarrow> work_order_submission \<Rightarrow> work_order \<Rightarrow> (wo_error, unit) result" where
  "check_lint v s w =
     (let lint = pv_linter v (ws_source s) (te_language (wp_target (ho_payload w)))
      in if lint \<noteq> ws_lint s
         then Inl (wo_validation CodeInvalidWorkOrderDigest ''durable submission lint does not match its source'')
         else if has_blocking_finding lint
         then Inl (wo_validation CodeSubmissionHasBlockingLint ''submission has blocking harness lint findings'')
         else Inr ())"

definition qualification_preflight ::
  "evidence_lib \<Rightarrow> project_view \<Rightarrow> work_order_db \<Rightarrow> uuid128 \<Rightarrow> (wo_error, preflight) result" where
  "qualification_preflight lib v db i =
     bind_result (ok_or submission_not_found (load_submission db i)) (\<lambda>sr.
     bind_result (retained_submission lib sr) (\<lambda>s.
     bind_result (ok_or work_order_not_found (load_work_order db (ws_order s))) (\<lambda>r.
     bind_result (retained_packet (packets lib) r None) (\<lambda>w.
     bind_result (check_evidence_current lib v r w) (\<lambda>project.
     bind_result (check_lint v s w) (\<lambda>_.
     bind_result (submission_repair_depth lib db s) (\<lambda>depth.
       Inr \<lparr>pf_project = project, pf_order = w, pf_submission = s, pf_depth = depth\<rparr>)))))))"

definition failure_code :: "classified_error \<Rightarrow> string" where
  "failure_code e = (case e of ProviderFailure _ \<Rightarrow> ''provider'' | SandboxFailure _ \<Rightarrow> ''sandbox'' | EngineFailure _ \<Rightarrow> ''engine''
     | HarnessFailure _ \<Rightarrow> ''harness'' | StorageFailure _ \<Rightarrow> ''storage'' | ValidationFailure _ \<Rightarrow> ''validation''
     | TimeoutFailure \<Rightarrow> ''timeout'' | InternalFailure _ \<Rightarrow> ''internal'')"

definition bounded_attempt_failure :: "classified_error \<Rightarrow> string \<times> string" where
  "bounded_attempt_failure e =
     (let message = sanitize_work_order_diagnostic (classified_display e) max_failure_message_bytes
      in (bounded_utf8 (failure_code e) max_failure_code_bytes, if message = [] then failure_code e @ '' failure'' else message))"

fun is_storage_failure :: "classified_error \<Rightarrow> bool" where
  "is_storage_failure (StorageFailure _) = True"
| "is_storage_failure _ = False"

definition settle_attempt ::
  "evidence_lib \<Rightarrow> (string \<Rightarrow> bool) \<Rightarrow> work_order_db \<Rightarrow> uuid128 \<Rightarrow> attempt_completion \<Rightarrow> work_order_db \<times> (wo_error, work_order_attempt) result" where
  "settle_attempt lib jv db i c = (case complete_harness_work_order_attempt jv db i c of
     (db', Inl _) \<Rightarrow> (db', Inl wo_storage_error) | (db', Inr r) \<Rightarrow> (db', retained_attempt lib r))"

definition complete_failed_attempt ::
  "evidence_lib \<Rightarrow> (string \<Rightarrow> bool) \<Rightarrow> work_order_db \<Rightarrow> uuid128 \<Rightarrow> attempt_stage \<Rightarrow> attempt_status \<Rightarrow> uuid128 option \<Rightarrow> uuid128 option
     \<Rightarrow> attempt_result \<Rightarrow> classified_error \<Rightarrow> timestamp \<Rightarrow> work_order_db \<times> (wo_error, work_order_attempt) result" where
  "complete_failed_attempt lib jv db i stage status harness smoke_run res e now =
     (if is_storage_failure e then (db, Inl (wo_storage ''harness qualification persistence failed''))
      else (case wo_json (result_json lib res) of
              Inl err \<Rightarrow> (db, Inl err)
            | Inr json \<Rightarrow>
                (case bounded_attempt_failure e of (code, message) \<Rightarrow>
                   settle_attempt lib jv db i \<lparr>ac_expected = stage, ac_status = status, ac_harness = harness, ac_smoke_run = smoke_run,
                     ac_result = Some json, ac_failure_code = Some code, ac_failure_message = Some message, ac_completed = now\<rparr>)))"

record smoke_outcome =
  so_summary :: smoke_summary
  so_verdict :: verdict_level

text \<open>What happens around one qualification: the lease, the new identifier, the clock at each transition and the
  answers of the compiler, the reviewer and the smoke run.\<close>

record qualification_run =
  qr_lease :: bool
  qr_attempt :: uuid128
  qr_started :: timestamp
  qr_compile :: "(classified_error, uuid128) result"
  qr_reviewed_at :: timestamp
  qr_review :: "(classified_error \<times> (string \<times> string) option, string \<times> string) result"
  qr_smoked_at :: timestamp
  qr_smoke :: "(classified_error \<times> uuid128 option, smoke_outcome) result"
  qr_ended :: timestamp

definition fresh_attempt :: "uuid128 \<Rightarrow> uuid128 \<Rightarrow> timestamp \<Rightarrow> attempt_record" where
  "fresh_attempt i submission now = \<lparr>att_id = i, att_submission = submission, att_status = AttemptRunning, att_stage = StageCompile,
     att_harness = None, att_smoke_run = None, att_result = None, att_failure_code = None, att_failure_message = None,
     att_started = now, att_updated = now, att_ended = None\<rparr>"

definition initial_result :: "nat \<Rightarrow> attempt_result" where
  "initial_result depth = \<lparr>ar_compiled = False, ar_verdict = None, ar_depth = depth, ar_source_sha = None, ar_binary_sha = None,
     ar_execs = None, ar_crashes = None\<rparr>"

definition qualify_smoke ::
  "evidence_lib \<Rightarrow> (string \<Rightarrow> bool) \<Rightarrow> work_order_db \<Rightarrow> qualification_run \<Rightarrow> uuid128 \<Rightarrow> attempt_result
     \<Rightarrow> work_order_db \<times> (wo_error, work_order_attempt) result" where
  "qualify_smoke lib jv db q harness res = (case qr_smoke q of
     Inl (e, run) \<Rightarrow> complete_failed_attempt lib jv db (qr_attempt q) StageSmoke SmokeFailed (Some harness) run res e (qr_ended q)
   | Inr smoke \<Rightarrow>
       (case sm_run_id (so_summary smoke) of
          None \<Rightarrow> complete_failed_attempt lib jv db (qr_attempt q) StageSmoke SmokeFailed (Some harness) None res
                    (InternalFailure ''successful smoke qualification omitted its durable run id'') (qr_ended q)
        | Some run \<Rightarrow>
            let res = res\<lparr>ar_verdict := Some (so_verdict smoke), ar_execs := Some (sm_execs (so_summary smoke)),
                  ar_crashes := Some (sm_crashes (so_summary smoke))\<rparr>
            in (case wo_json (result_json lib res) of
                  Inl err \<Rightarrow> (db, Inl err)
                | Inr json \<Rightarrow>
                    settle_attempt lib jv db (qr_attempt q) \<lparr>ac_expected = StageSmoke, ac_status = SmokePassed, ac_harness = Some harness,
                      ac_smoke_run = Some run, ac_result = Some json, ac_failure_code = None, ac_failure_message = None,
                      ac_completed = qr_ended q\<rparr>)))"

definition qualify_review ::
  "evidence_lib \<Rightarrow> (string \<Rightarrow> bool) \<Rightarrow> work_order_db \<Rightarrow> qualification_run \<Rightarrow> uuid128 \<Rightarrow> attempt_result
     \<Rightarrow> work_order_db \<times> (wo_error, work_order_attempt) result" where
  "qualify_review lib jv db q harness res = (case qr_review q of
     Inl (e, evidence) \<Rightarrow>
       complete_failed_attempt lib jv db (qr_attempt q) StageReview ReviewFailed (Some harness) None
         (case evidence of None \<Rightarrow> res | Some (s, b) \<Rightarrow> res\<lparr>ar_source_sha := Some s, ar_binary_sha := Some b\<rparr>) e (qr_ended q)
   | Inr (s, b) \<Rightarrow>
       (case transition_harness_work_order_attempt db (qr_attempt q) StageReview StageSmoke (Some harness) (qr_smoked_at q) of
          (db', Inl _) \<Rightarrow> (db', Inl wo_storage_error)
        | (db', Inr _) \<Rightarrow> qualify_smoke lib jv db' q harness (res\<lparr>ar_source_sha := Some s, ar_binary_sha := Some b\<rparr>)))"

definition qualify_compile ::
  "evidence_lib \<Rightarrow> (string \<Rightarrow> bool) \<Rightarrow> work_order_db \<Rightarrow> qualification_run \<Rightarrow> nat \<Rightarrow> work_order_db \<times> (wo_error, work_order_attempt) result" where
  "qualify_compile lib jv db q depth = (case qr_compile q of
     Inl e \<Rightarrow> complete_failed_attempt lib jv db (qr_attempt q) StageCompile CompileFailed None None (initial_result depth) e (qr_ended q)
   | Inr harness \<Rightarrow>
       (case transition_harness_work_order_attempt db (qr_attempt q) StageCompile StageReview (Some harness) (qr_reviewed_at q) of
          (db', Inl _) \<Rightarrow> (db', Inl wo_storage_error)
        | (db', Inr _) \<Rightarrow> qualify_review lib jv db' q harness ((initial_result depth)\<lparr>ar_compiled := True\<rparr>)))"

definition qualify_harness_work_order_submission ::
  "evidence_lib \<Rightarrow> (string \<Rightarrow> bool) \<Rightarrow> (uuid128 \<Rightarrow> string) \<Rightarrow> project_view \<Rightarrow> work_order_db \<Rightarrow> uuid128 \<Rightarrow> qualification_run
     \<Rightarrow> work_order_db \<times> (wo_error, work_order_attempt) result" where
  "qualify_harness_work_order_submission lib jv ut v db submission q = (case qualification_preflight lib v db submission of
     Inl e \<Rightarrow> (db, Inl e)
   | Inr pf \<Rightarrow>
       if \<not> qr_lease q then (db, Inl (wo_storage ''harness work order qualification ownership is unavailable''))
       else (case insert_harness_work_order_attempt ut db (fresh_attempt (qr_attempt q) submission (qr_started q)) of
               (db', Inl _) \<Rightarrow> (db', Inl wo_storage_error)
             | (db', Inr _) \<Rightarrow> qualify_compile lib jv db' q (pf_depth pf)))"

section \<open>Promotion\<close>

record harness_revision =
  hr_id :: uuid128
  hr_source :: string
  hr_status :: harness_status
  hr_smoke :: "smoke_summary option"

record promotion_evidence =
  pe_harness :: uuid128
  pe_smoke_run :: uuid128
  pe_depth :: nat
  pe_source_sha :: string
  pe_binary_sha :: string

datatype promotion_failure = FailureDenied string | FailureOperation classified_error

definition attempt_not_smoke_passed :: wo_error where
  "attempt_not_smoke_passed = wo_validation CodeAttemptNotSmokePassed
     ''promotion requires complete clean-smoke evidence for the exact attempt''"

definition attempt_not_active :: wo_error where
  "attempt_not_active = wo_conflict CodeAttemptNotActive ''attempt harness id or qualified artifacts are no longer active''"

definition promotion_evidence_from :: "work_order_attempt \<Rightarrow> (wo_error, promotion_evidence) result" where
  "promotion_evidence_from a =
     bind_result (ok_or attempt_not_smoke_passed (wa_result a)) (\<lambda>res.
       if wa_status a \<noteq> SmokePassed \<or> wa_stage a \<noteq> StageComplete \<or> ar_verdict res = Some VerdictFail then Inl attempt_not_smoke_passed
       else
         bind_result (ok_or attempt_not_smoke_passed (wa_harness a)) (\<lambda>h.
         bind_result (ok_or attempt_not_smoke_passed (wa_smoke_run a)) (\<lambda>run.
         bind_result (ok_or attempt_not_smoke_passed (ar_source_sha res)) (\<lambda>s.
         bind_result (ok_or attempt_not_smoke_passed (ar_binary_sha res)) (\<lambda>b.
           Inr \<lparr>pe_harness = h, pe_smoke_run = run, pe_depth = ar_depth res, pe_source_sha = s, pe_binary_sha = b\<rparr>)))))"

definition validate_retained_promotion_harness :: "evidence_lib \<Rightarrow> harness_revision \<Rightarrow> promotion_evidence \<Rightarrow> (wo_error, unit) result" where
  "validate_retained_promotion_harness lib h ev =
     bind_result (ok_or attempt_not_smoke_passed (hr_smoke h)) (\<lambda>smoke.
       if \<not> (hr_status h = HarnessSmokePassed \<or> hr_status h = HarnessPromoted) \<or> \<not> sm_passed smoke \<or> sm_crashes smoke \<noteq> 0
          \<or> sm_run_id smoke \<noteq> Some (pe_smoke_run ev)
       then Inl attempt_not_smoke_passed
       else if sm_source_sha smoke \<noteq> Some (pe_source_sha ev) \<or> sm_binary_sha smoke \<noteq> Some (pe_binary_sha ev)
          \<or> digest_of lib (hr_source h) \<noteq> pe_source_sha ev
       then Inl attempt_not_active
       else Inr ())"

definition exact_promotion_error :: "promotion_failure \<Rightarrow> wo_error" where
  "exact_promotion_error e = (case e of
     FailureDenied m \<Rightarrow> wo_validation CodePromotionDenied (sanitize_work_order_diagnostic m max_failure_message_bytes)
   | FailureOperation c \<Rightarrow> if is_storage_failure c then wo_storage ''persist exact harness promotion'' else attempt_not_active)"

definition promotion_depth_error :: "wo_error \<Rightarrow> wo_error" where
  "promotion_depth_error e = (if we_kind e = KindStorage then e else attempt_not_smoke_passed)"

record promotion_request =
  pr_project :: string
  pr_target :: string
  pr_engine :: engine_kind
  pr_harness :: uuid128
  pr_source_sha :: string
  pr_binary_sha :: string

text \<open>The request that reaches \<^verbatim>\<open>harness_promote_exact\<close>.\<close>

definition promotion_request_for ::
  "evidence_lib \<Rightarrow> (uuid128 \<Rightarrow> harness_revision option) \<Rightarrow> work_order_db \<Rightarrow> uuid128 \<Rightarrow> (wo_error, promotion_request) result" where
  "promotion_request_for lib harnesses db i =
     bind_result (ok_or attempt_not_found (load_attempt db i)) (\<lambda>r.
     bind_result (replace_error attempt_not_smoke_passed (retained_attempt lib r)) (\<lambda>a.
     bind_result (promotion_evidence_from a) (\<lambda>ev.
     bind_result (ok_or attempt_not_smoke_passed (load_submission db (wa_submission a))) (\<lambda>sr.
     bind_result (replace_error attempt_not_smoke_passed (retained_submission lib sr)) (\<lambda>s.
     bind_result (case submission_repair_depth lib db s of Inl e \<Rightarrow> Inl (promotion_depth_error e) | Inr d \<Rightarrow> Inr d) (\<lambda>depth.
     bind_result (require (depth = pe_depth ev) attempt_not_smoke_passed) (\<lambda>_.
     bind_result (ok_or attempt_not_smoke_passed (load_work_order db (ws_order s))) (\<lambda>wr.
     bind_result (replace_error attempt_not_smoke_passed (retained_packet (packets lib) wr None)) (\<lambda>w.
     bind_result (ok_or attempt_not_smoke_passed (harnesses (pe_harness ev))) (\<lambda>h.
     bind_result (validate_retained_promotion_harness lib h ev) (\<lambda>_.
       Inr \<lparr>pr_project = wo_project wr, pr_target = work_order_target_selector w, pr_engine = wp_engine (ho_payload w),
            pr_harness = pe_harness ev, pr_source_sha = pe_source_sha ev, pr_binary_sha = pe_binary_sha ev\<rparr>)))))))))))"

definition promote_harness_work_order_attempt ::
  "evidence_lib \<Rightarrow> (uuid128 \<Rightarrow> harness_revision option) \<Rightarrow> (promotion_request \<Rightarrow> (promotion_failure, 'h) result)
     \<Rightarrow> work_order_db \<Rightarrow> uuid128 \<Rightarrow> (wo_error, 'h) result" where
  "promote_harness_work_order_attempt lib harnesses promote_exact db i =
     bind_result (promotion_request_for lib harnesses db i) (\<lambda>q.
       case promote_exact q of Inl e \<Rightarrow> Inl (exact_promotion_error e) | Inr h \<Rightarrow> Inr h)"

end
