(* ===== verification/Work_Order_Qualification.thy ===== *)
theory Work_Order_Qualification
  imports Work_Order_Service
begin

text \<open>
  What the qualification of submitted harnesses guarantees, over the definitions of \<^verbatim>\<open>Work_Order_Service\<close>: repair
  depths, rankings, promotions, and which recorded attempts their own readers accept. The last section is one
  order worked through the code.
\<close>

section \<open>Repair depth\<close>

text \<open>The ancestors of a submission, nearest first.\<close>

inductive repair_chain :: "work_order_db \<Rightarrow> uuid128 option \<Rightarrow> submission_record list \<Rightarrow> bool" for db where
  ChainRoot: "repair_chain db None []"
| ChainStep: "load_submission db i = Some r \<Longrightarrow> repair_chain db (sub_parent r) rs \<Longrightarrow> repair_chain db (Some i) (r # rs)"

lemma retained_submission_fields:
  "retained_submission lib r = Inr s \<Longrightarrow> ws_order s = sub_order r \<and> ws_parent s = sub_parent r \<and> ws_id s = sub_id r
     \<and> ws_submitted s = sub_submitted r"
  by (auto simp: retained_submission_def result_simps split: if_splits)

lemma repair_depth_chain:
  assumes "repair_chain db p rs" "\<forall>r\<in>set rs. is_ok (retained_submission lib r) \<and> sub_order r = order"
    "depth + length rs < max_work_order_submissions"
  shows "repair_depth_from lib db order depth p = Inr (depth + length rs)"
  using assms
proof (induction arbitrary: depth)
  case (ChainStep i r rs)
  then obtain s where s: "retained_submission lib r = Inr s" by (auto simp: is_ok_iff)
  then show ?case using ChainStep retained_submission_fields [OF s] by simp
qed simp

lemma repair_depth_bounded:
  "repair_depth_from lib db order depth p = Inr n \<Longrightarrow> depth < max_work_order_submissions \<Longrightarrow> n < max_work_order_submissions"
  by (induction lib db order depth p rule: repair_depth_from.induct) (auto simp: result_simps split: if_splits)

lemma load_nth:
  assumes "distinct (map sub_id (wd_submissions db))" "j < length (wd_submissions db)"
  shows "load_submission db (sub_id (wd_submissions db ! j)) = Some (wd_submissions db ! j)"
  unfolding load_submission_def using assms
  by (auto simp: find_Some_iff distinct_conv_nth intro!: exI [of _ j])

lemma nth_not_in_take: "distinct xs \<Longrightarrow> j < length xs \<Longrightarrow> xs ! j \<notin> set (take j xs)"
  by (auto simp: in_set_conv_nth nth_eq_iff_index_eq)

lemma chain_exists:
  assumes "distinct (map sub_id (wd_submissions db))" "ancestry_ok (wd_submissions db)" "k < length (wd_submissions db)"
  shows "\<exists>rs. repair_chain db (sub_parent (wd_submissions db ! k)) rs \<and> distinct rs \<and> set rs \<subseteq> set (take k (wd_submissions db))
    \<and> (\<forall>r\<in>set rs. sub_order r = sub_order (wd_submissions db ! k))"
  using assms(3)
proof (induction k rule: less_induct)
  case (less k)
  let ?subs = "wd_submissions db"
  show ?case
  proof (cases "sub_parent (?subs ! k)")
    case None
    then show ?thesis by (intro exI [of _ "[]"]) (simp add: ChainRoot)
  next
    case (Some p)
    then obtain j where j: "j < k" "sub_id (?subs ! j) = p" "sub_order (?subs ! j) = sub_order (?subs ! k)"
      using assms(2) less.prems by (auto simp: ancestry_ok_def)
    then have jl: "j < length ?subs" using less.prems by simp
    obtain rs where rs: "repair_chain db (sub_parent (?subs ! j)) rs" "distinct rs" "set rs \<subseteq> set (take j ?subs)"
      "\<forall>r\<in>set rs. sub_order r = sub_order (?subs ! j)" using less.IH [OF j(1) jl] by blast
    have "?subs ! j \<notin> set (take j ?subs)"
      using assms(1) jl by (intro nth_not_in_take) (simp_all add: distinct_map)
    moreover have "repair_chain db (Some p) (?subs ! j # rs)"
      using load_nth [OF assms(1) jl] rs(1) j(2) by (auto intro: ChainStep)
    moreover have "set (take j ?subs) \<subseteq> set (take k ?subs)" using j(1) set_take_subset_set_take [of j k ?subs] by simp
    moreover have "?subs ! j \<in> set (take k ?subs)" using j(1) jl less.prems by (auto simp: in_set_conv_nth intro!: exI [of _ j])
    ultimately show ?thesis using rs j(3) Some by (intro exI [of _ "?subs ! j # rs"]) auto
  qed
qed

lemma chain_short:
  assumes "distinct (map sub_id (wd_submissions db))" "k < length (wd_submissions db)" "distinct rs"
    "set rs \<subseteq> set (take k (wd_submissions db))" "\<forall>r\<in>set rs. sub_order r = sub_order (wd_submissions db ! k)"
  shows "length rs < submission_count db (sub_order (wd_submissions db ! k))"
proof -
  let ?s = "wd_submissions db ! k"
  let ?same = "filter (\<lambda>r. sub_order r = sub_order ?s) (wd_submissions db)"
  have "?s \<notin> set rs" using nth_not_in_take [of "wd_submissions db" k] assms by (auto simp: distinct_map)
  then have "card (set (?s # rs)) = Suc (length rs)" using assms(3) distinct_card by fastforce
  moreover have "set (?s # rs) \<subseteq> set ?same" using assms(2,4,5) by (auto dest!: in_set_takeD subsetD)
  ultimately show ?thesis using card_mono [of "set ?same" "set (?s # rs)"] card_length [of ?same]
    by (simp add: submission_count_def)
qed

text \<open>In every state the store reaches, the repair depth of a stored submission is the number of its ancestors: the
  search through the parents ends before its limit of 20 and finds neither a missing parent nor one of another
  order, provided the stored submissions are readable.\<close>

theorem repair_depth_exact:
  assumes "db = foldl (work_order_step jv ut) work_order_db_empty ops" "s \<in> set (wd_submissions db)"
    "\<forall>r\<in>set (wd_submissions db). is_ok (retained_submission lib r)" "retained_submission lib s = Inr w"
  shows "\<exists>rs. repair_chain db (sub_parent s) rs \<and> distinct rs \<and> length rs < max_work_order_submissions
    \<and> submission_repair_depth lib db w = Inr (length rs)"
proof -
  have ok: "work_order_db_ok db" unfolding assms(1) by (rule work_orders.run_inv [OF work_order_empty_ok])
  obtain k where k: "k < length (wd_submissions db)" "wd_submissions db ! k = s" using assms(2) by (auto simp: in_set_conv_nth)
  obtain rs where rs: "repair_chain db (sub_parent s) rs" "distinct rs" "set rs \<subseteq> set (take k (wd_submissions db))"
    "\<forall>r\<in>set rs. sub_order r = sub_order s"
    using chain_exists [of db k] ok k by (auto simp: work_order_db_ok_def)
  have "length rs < max_work_order_submissions"
    using chain_short [of db k rs] rs k ok by (auto simp: work_order_db_ok_def dest: le_less_trans less_le_trans)
  moreover have "\<forall>r\<in>set rs. is_ok (retained_submission lib r) \<and> sub_order r = ws_order w"
    using rs(3,4) assms(3) retained_submission_fields [OF assms(4)] by (auto dest!: in_set_takeD subsetD)
  ultimately show ?thesis
    using repair_depth_chain [of db "sub_parent s" rs lib "ws_order w" 0] rs(1,2) retained_submission_fields [OF assms(4)]
    by (auto simp: submission_repair_depth_def)
qed

section \<open>Rankings\<close>

lemma collect_results_Inr:
  "collect_results f xs = Inr ys \<longleftrightarrow> length xs = length ys \<and> (\<forall>i < length xs. f (xs ! i) = Inr (ys ! i))"
proof (induction xs arbitrary: ys)
  case (Cons x xs)
  show ?case by (cases ys) (auto simp: result_simps Cons.IH All_less_Suc2)
qed auto

lemma load_ranked_id: "load_ranked lib db i = Inr a \<Longrightarrow> ra_id a = i"
proof -
  assume "load_ranked lib db i = Inr a"
  then obtain r w s d where r: "load_attempt db i = Some r" "retained_attempt lib r = Inr w" "a = ranked_attempt_new w s d"
    unfolding load_ranked_def by (auto simp: result_simps split: if_splits)
  then have "att_id r = i" using find_Some_iff_first by (fastforce simp: load_attempt_def)
  moreover have "wa_id w = att_id r" using r(2) by (auto simp: retained_attempt_def public_attempt_def result_simps split: if_splits)
  ultimately show ?thesis using r(3) by (simp add: ranked_attempt_new_def)
qed

lemma collect_ranked:
  assumes "collect_results (load_ranked lib db) ids = Inr as"
  shows "map ra_id as = ids \<and> (\<forall>a\<in>set as. load_ranked lib db (ra_id a) = Inr a)"
proof -
  have "length ids = length as" "\<forall>i < length ids. load_ranked lib db (ids ! i) = Inr (as ! i)"
    using assms by (simp_all add: collect_results_Inr)
  moreover from this have "map ra_id as = ids" by (auto simp: list_eq_iff_nth_eq load_ranked_id)
  ultimately show ?thesis by (auto simp: in_set_conv_nth)
qed

lemma collect_ranked_back:
  assumes "\<forall>a\<in>set as. load_ranked lib db (ra_id a) = Inr a"
  shows "collect_results (load_ranked lib db) (map ra_id as) = Inr as"
  using assms by (simp add: collect_results_Inr)

lemma sort_rank_increasing:
  assumes "distinct (map ra_id as)"
  shows "sorted_wrt (\<lambda>a b. rank_key a < rank_key b) (sort_key rank_key as)"
proof -
  have "distinct (map rank_key (sort_key rank_key as))"
    using assms by (auto simp: distinct_map inj_on_def rank_key_def)
  then have "sorted_wrt (<) (map rank_key (sort_key rank_key as))" by (simp add: strict_sorted_iff)
  then show ?thesis by (simp add: sorted_wrt_map)
qed

lemma find_first: "find P xs = Some x \<Longrightarrow> \<exists>ys zs. xs = ys @ x # zs \<and> P x \<and> list_all (\<lambda>y. \<not> P y) ys"
proof (induction xs)
  case (Cons y xs)
  show ?case
  proof (cases "P y")
    case True
    with Cons.prems show ?thesis by (intro exI [of _ "[]"] exI [of _ xs]) auto
  next
    case False
    with Cons obtain ys zs where "xs = ys @ x # zs" "P x" "list_all (\<lambda>y. \<not> P y) ys" by auto
    with False have "y # xs = (y # ys) @ x # zs \<and> P x \<and> list_all (\<lambda>y. \<not> P y) (y # ys)" by simp
    then show ?thesis by blast
  qed
qed simp

text \<open>The winner is the first compiled attempt of the ranking.\<close>

definition best_compiled :: "ranked_attempt list \<Rightarrow> uuid128 option \<Rightarrow> bool" where
  "best_compiled as w = (case w of
     None \<Rightarrow> list_all (\<lambda>a. \<not> ra_compiled a) as
   | Some i \<Rightarrow> list_ex (\<lambda>a. ra_id a = i \<and> ra_compiled a \<and> list_all (\<lambda>b. ra_compiled b \<longrightarrow> rank_key a \<le> rank_key b) as) as)"

lemma find_best:
  assumes "sorted (map rank_key as)"
  shows "best_compiled as (map_option ra_id (find ra_compiled as))"
proof (cases "find ra_compiled as")
  case None
  then have "list_all (\<lambda>a. \<not> ra_compiled a) as" by (simp add: find_None_iff list_all_iff)
  with None show ?thesis by (simp add: best_compiled_def)
next
  case (Some a)
  then obtain ys zs where a: "as = ys @ a # zs" "ra_compiled a" "list_all (\<lambda>y. \<not> ra_compiled y) ys" using find_first [of ra_compiled as a] by blast
  then have "list_all (\<lambda>b. ra_compiled b \<longrightarrow> rank_key a \<le> rank_key b) as"
    using assms by (auto simp: list_all_iff sorted_append)
  moreover have "a \<in> set as" using a(1) by simp
  ultimately have "list_ex (\<lambda>b. ra_id b = ra_id a \<and> ra_compiled b \<and> list_all (\<lambda>c. ra_compiled c \<longrightarrow> rank_key b \<le> rank_key c) as) as"
    unfolding list_ex_iff using a(2) by blast
  then show ?thesis using Some by (simp add: best_compiled_def)
qed

text \<open>A ranking is the requested attempts ordered from the strongest evidence to the weakest, with the best attempt
  that compiled as its winner, and the order in which attempts are requested does not matter.\<close>

theorem ranking_sound:
  assumes "rank_harness_work_order_attempts lib db ids = Inr r" "distinct ids'" "set ids' = set ids"
  shows "distinct (wr_attempts r) \<and> set (wr_attempts r) = set ids \<and> rank_harness_work_order_attempts lib db ids' = Inr r
    \<and> (\<exists>as. wr_attempts r = map ra_id as \<and> list_all (\<lambda>a. load_ranked lib db (ra_id a) = Inr a) as
          \<and> sorted_wrt (\<lambda>a b. rank_key a < rank_key b) as \<and> best_compiled as (wr_winner r))"
proof -
  let ?ranking = "\<lambda>as. \<lparr>wr_attempts = map ra_id (sort_key rank_key as), wr_winner = map_option ra_id (find ra_compiled (sort_key rank_key as))\<rparr>"
  obtain as where as: "collect_results (load_ranked lib db) ids = Inr as" "validate_ranking_request ids = Inr ()" "r = ?ranking as"
    using assms(1) by (auto simp: rank_harness_work_order_attempts_def result_simps Let_def)
  have ids: "map ra_id as = ids" "\<forall>a\<in>set as. load_ranked lib db (ra_id a) = Inr a" using collect_ranked [OF as(1)] by auto
  have valid: "distinct ids" "ids \<noteq> []" "length ids \<le> max_work_order_rank_attempts"
    using as(2) by (auto simp: validate_ranking_request_def split: if_splits)
  let ?bs = "map (\<lambda>i. projr (load_ranked lib db i)) ids'"
  have each: "load_ranked lib db i = Inr (projr (load_ranked lib db i))" if "i \<in> set ids'" for i
    using that ids assms(3) by force
  then have bs: "collect_results (load_ranked lib db) ids' = Inr ?bs" by (simp add: collect_results_Inr)
  have "set ?bs = (\<lambda>i. projr (load_ranked lib db i)) ` ra_id ` set as" using assms(3) ids(1) by auto
  also have "\<dots> = (\<lambda>a. a) ` set as" unfolding image_image by (rule image_cong) (simp_all add: ids(2))
  finally have "set ?bs = set as" by simp
  moreover have "distinct (map ra_id ?bs)" using collect_ranked [OF bs] assms(2) by simp
  ultimately have same: "sort_key rank_key ?bs = sort_key rank_key as"
    using ids(1) valid(1) by (intro increasing_unique [of rank_key] sort_rank_increasing) simp_all
  have "length ids' = length ids" using assms(2,3) valid(1) by (metis distinct_card)
  then have "validate_ranking_request ids' = Inr ()" using assms(2) valid by (auto simp: validate_ranking_request_def)
  then have "rank_harness_work_order_attempts lib db ids' = Inr r"
    using bs as(3) by (simp add: rank_harness_work_order_attempts_def Let_def same)
  moreover have "sorted_wrt (\<lambda>a b. rank_key a < rank_key b) (sort_key rank_key as)"
    using ids(1) valid(1) by (intro sort_rank_increasing) simp
  moreover have "best_compiled (sort_key rank_key as) (wr_winner r)" using find_best [of "sort_key rank_key as"] as(3) by simp
  ultimately show ?thesis using as(3) ids valid(1)
    by (intro conjI exI [of _ "sort_key rank_key as"]) (auto simp: list_all_iff distinct_map inj_on_def)
qed

section \<open>Promotions\<close>

lemma at_least_one_positive: "f_ge x min_meaningful_execs \<Longrightarrow> f_less f_zero x"
proof (cases x)
  case (Fin s m e)
  assume "f_ge x min_meaningful_execs"
  then have "2 ^ nat (0 - min e 0) \<le> fin_over (min e 0) s m e"
    using Fin by (simp add: f_ge_def min_meaningful_execs_def fin_over_def split: if_splits)
  moreover have "(0 :: int) < 2 ^ nat (0 - min e 0)" by simp
  ultimately have "0 < fin_over (min e 0) s m e" by linarith
  then show ?thesis using Fin by (simp add: f_zero_def fin_over_def min.commute)
qed (auto simp: f_ge_def min_meaningful_execs_def f_zero_def)

lemma retained_attempt_Inr:
  "retained_attempt lib r = Inr a \<longleftrightarrow>
     (\<exists>res. parse_retained_result lib r = Inr res \<and> valid_attempt_semantics r res \<and> a = public_attempt r res)"
  by (auto simp: retained_attempt_def result_simps split: if_splits)

lemma clean_smoke_evidence:
  assumes "valid_attempt_semantics r (Some res)" "att_status r = SmokePassed" "ar_verdict res \<noteq> Some VerdictFail"
  shows "ar_crashes res = Some 0 \<and> (\<exists>x. ar_execs res = Some x \<and> f_less f_zero x)"
proof -
  have "valid_smoke_passed_result res"
    using assms(1,2) by (auto simp: valid_attempt_semantics_def valid_terminal_def some_and_def split: if_splits)
  then obtain v x c where "ar_verdict res = Some v" "ar_execs res = Some x" "ar_crashes res = Some c" "metrics_match_verdict v x c"
    by (auto simp: valid_smoke_passed_result_def split: option.splits)
  then show ?thesis using assms(3) at_least_one_positive by (cases v) (auto simp: metrics_match_verdict_def)
qed

lemma replace_error_Inr [simp]: "replace_error e x = Inr y \<longleftrightarrow> x = Inr y"
  by (simp add: replace_error_def split: sum.splits)

lemma require_Inr [simp]: "require b e = Inr u \<longleftrightarrow> b"
  by (simp add: require_def)

lemma promotion_request_evidence:
  assumes "promotion_request_for lib harnesses db i = Inr q"
  obtains r a ev rev where "load_attempt db i = Some r" "retained_attempt lib r = Inr a" "promotion_evidence_from a = Inr ev"
    "harnesses (pe_harness ev) = Some rev" "validate_retained_promotion_harness lib rev ev = Inr ()"
    "pr_harness q = pe_harness ev" "pr_source_sha q = pe_source_sha ev" "pr_binary_sha q = pe_binary_sha ev"
  using assms unfolding promotion_request_for_def by (auto simp: result_simps)

text \<open>What promotion may rest on: a stored attempt that passed smoke without a crash and with executions, and the active
  revision of the same harness, whose own clean smoke run is the attempt's and whose source and binary are
  the ones reviewed.\<close>

definition clean_promotion ::
  "evidence_lib \<Rightarrow> (uuid128 \<Rightarrow> harness_revision option) \<Rightarrow> attempt_record \<Rightarrow> promotion_request \<Rightarrow> bool" where
  "clean_promotion lib harnesses r q \<longleftrightarrow>
     att_status r = SmokePassed \<and> att_harness r = Some (pr_harness q)
     \<and> (\<exists>res x. parse_retained_result lib r = Inr (Some res) \<and> ar_crashes res = Some 0 \<and> ar_execs res = Some x \<and> f_less f_zero x
          \<and> ar_source_sha res = Some (pr_source_sha q) \<and> ar_binary_sha res = Some (pr_binary_sha q))
     \<and> (\<exists>rev smoke. harnesses (pr_harness q) = Some rev \<and> hr_smoke rev = Some smoke \<and> sm_passed smoke \<and> sm_crashes smoke = 0
          \<and> sm_run_id smoke = att_smoke_run r \<and> sm_source_sha smoke = Some (pr_source_sha q)
          \<and> sm_binary_sha smoke = Some (pr_binary_sha q) \<and> digest_of lib (hr_source rev) = pr_source_sha q)"


section \<open>Qualifications\<close>

text \<open>The steps of a qualification work on the row just appended.\<close>

definition with_attempt :: "work_order_db \<Rightarrow> attempt_record \<Rightarrow> work_order_db" where
  "with_attempt db a = db\<lparr>wd_attempts := wd_attempts db @ [a]\<rparr>"

lemma load_with_attempt: "load_attempt db (att_id a) = None \<Longrightarrow> load_attempt (with_attempt db a) (att_id a) = Some a"
  by (simp add: load_attempt_def with_attempt_def find_last_row)

lemma update_with_attempt:
  assumes "load_attempt db (att_id a) = None" "\<And>b. P b \<Longrightarrow> att_id b = att_id a" "P a"
  shows "update_attempts P f (with_attempt db a) = (with_attempt db (f a), 1)"
proof -
  have "\<not> P b" if "b \<in> set (wd_attempts db)" for b
    using that assms(1,2) by (auto simp: load_attempt_def find_None_iff)
  then have "map (\<lambda>b. if P b then f b else b) (wd_attempts db) = wd_attempts db" "filter P (wd_attempts db) = []"
    by (auto simp: map_idI filter_empty_conv)
  then show ?thesis using assms(3) by (simp add: update_attempts_def with_attempt_def)
qed

lemma transition_with_attempt:
  assumes "load_attempt db (att_id a) = None" "att_status a = AttemptRunning" "att_stage a = s" "valid_stage_transition s s'"
  shows "transition_harness_work_order_attempt (with_attempt db a) (att_id a) s s' h t
    = (with_attempt db (advance_attempt s' h t a), Inr (advance_attempt s' h t a))"
proof -
  have "update_attempts (at_stage (att_id a) s) (advance_attempt s' h t) (with_attempt db a) = (with_attempt db (advance_attempt s' h t a), 1)"
    by (rule update_with_attempt) (use assms in \<open>auto simp: at_stage_def\<close>)
  moreover have "load_attempt (with_attempt db (advance_attempt s' h t a)) (att_id a) = Some (advance_attempt s' h t a)"
    using load_with_attempt [of db "advance_attempt s' h t a"] assms(1) by (simp add: advance_attempt_def)
  ultimately show ?thesis using assms(4) by (simp add: transition_harness_work_order_attempt_def require_one_attempt_row_def)
qed

lemma settle_with_attempt:
  assumes "load_attempt db (att_id a) = None" "att_status a = AttemptRunning" "att_stage a = ac_expected c" "valid_completion c"
    "attempt_checks jv (finish_attempt c a)"
  shows "settle_attempt lib jv (with_attempt db a) (att_id a) c = (with_attempt db (finish_attempt c a), retained_attempt lib (finish_attempt c a))"
proof -
  have "update_attempts (at_stage (att_id a) (ac_expected c)) (finish_attempt c) (with_attempt db a) = (with_attempt db (finish_attempt c a), 1)"
    by (rule update_with_attempt) (use assms in \<open>auto simp: at_stage_def\<close>)
  moreover have "load_attempt (with_attempt db (finish_attempt c a)) (att_id a) = Some (finish_attempt c a)"
    using load_with_attempt [of db "finish_attempt c a"] assms(1) by (simp add: finish_attempt_def)
  moreover have "\<not> (\<exists>b\<in>set (wd_attempts (with_attempt db a)). at_stage (att_id a) (ac_expected c) b \<and> \<not> attempt_checks jv (finish_attempt c b))"
    using assms(1,5) by (auto simp: with_attempt_def at_stage_def load_attempt_def find_None_iff)
  ultimately show ?thesis using assms(4)
    by (auto simp: settle_attempt_def complete_harness_work_order_attempt_def require_one_attempt_row_def)
qed

text \<open>The outcome of a smoke run as the service returns it: the summary with the digests and the run it belongs to, and
  the verdict with the behavioral checks applied.\<close>

definition smoke_outcome_of :: "smoke_summary \<times> harness_status \<Rightarrow> string \<Rightarrow> string \<Rightarrow> uuid128 \<Rightarrow> behavior_check list \<Rightarrow> smoke_outcome" where
  "smoke_outcome_of smoked source_sha binary_sha run checks =
     (let summary = (fst smoked)\<lparr>sm_source_sha := Some source_sha, sm_binary_sha := Some binary_sha, sm_run_id := Some run\<rparr>
      in \<lparr>so_summary = summary, so_verdict = augment_verdict checks (assess_harness_smoke summary (snd smoked))\<rparr>)"

lemma augment_verdict_simps [simp]:
  "augment_verdict checks VerdictFail = VerdictFail"
  "augment_verdict checks VerdictSuspect = VerdictSuspect"
  "augment_verdict checks VerdictPass = (if list_ex is_suspect checks then VerdictSuspect else VerdictPass)"
proof -
  show fixed: "augment_verdict checks VerdictFail = VerdictFail" "augment_verdict checks VerdictSuspect = VerdictSuspect" for checks
    by (induction checks) (simp_all add: augment_verdict_def)
  show "augment_verdict checks VerdictPass = (if list_ex is_suspect checks then VerdictSuspect else VerdictPass)"
    using fixed(2) by (induction checks) (auto simp: augment_verdict_def)
qed

text \<open>When the verdict of a smoke run and its figures fit together in the eyes of the reader of stored attempts.\<close>

definition readable_smoke :: "engine_kind \<Rightarrow> f64 \<Rightarrow> nat \<Rightarrow> string \<Rightarrow> bool \<Rightarrow> behavior_check list \<Rightarrow> bool" where
  "readable_smoke engine execs crashes lower mutator_exercised checks \<longleftrightarrow>
     crashes > 0 \<or> (smoke_ran engine execs crashes lower \<and> mutator_exercised \<and> f_less f_zero execs
       \<and> (f_less execs min_meaningful_execs \<or> \<not> list_ex is_suspect checks))"

lemma verdict_matches_iff:
  assumes "smoke_result engine duration execs crashes lower mutator_exercised custom_mutator = Some smoked" "f_is_finite execs"
  shows "metrics_match_verdict (so_verdict (smoke_outcome_of smoked sa ba run checks)) execs crashes
    \<longleftrightarrow> readable_smoke engine execs crashes lower mutator_exercised checks"
proof -
  have "execs \<noteq> FNaN" using assms(2) by auto
  moreover have "f_less f_zero execs" if "\<not> f_less execs min_meaningful_execs"
    using that at_least_one_positive \<open>execs \<noteq> FNaN\<close> by (simp add: f_ge_def min_meaningful_execs_def)
  moreover have "min_meaningful_execs \<noteq> FNaN" by (simp add: min_meaningful_execs_def)
  ultimately show ?thesis using assms(1)
    by (auto simp: smoke_result_def smoke_outcome_of_def assess_harness_smoke_def metrics_match_verdict_def readable_smoke_def
        f_ge_def Let_def split: if_splits)
qed

definition smoke_evidence :: "nat \<Rightarrow> string \<Rightarrow> string \<Rightarrow> smoke_outcome \<Rightarrow> attempt_result" where
  "smoke_evidence depth s b smoke = \<lparr>ar_compiled = True, ar_verdict = Some (so_verdict smoke), ar_depth = depth, ar_source_sha = Some s,
     ar_binary_sha = Some b, ar_execs = Some (sm_execs (so_summary smoke)), ar_crashes = Some (sm_crashes (so_summary smoke))\<rparr>"

definition smoked_row :: "qualification_run \<Rightarrow> uuid128 \<Rightarrow> uuid128 \<Rightarrow> uuid128 \<Rightarrow> string \<Rightarrow> attempt_record" where
  "smoked_row q submission h run json = \<lparr>att_id = qr_attempt q, att_submission = submission, att_status = SmokePassed,
     att_stage = StageComplete, att_harness = Some h, att_smoke_run = Some run, att_result = Some json, att_failure_code = None,
     att_failure_message = None, att_started = qr_started q, att_updated = qr_ended q, att_ended = Some (qr_ended q)\<rparr>"

lemma preflight_facts:
  assumes "qualification_preflight lib v db i = Inr pf"
  shows "load_submission db i \<noteq> None \<and> pf_depth pf < max_work_order_submissions"
proof -
  obtain sr s where "load_submission db i = Some sr" "submission_repair_depth lib db s = Inr (pf_depth pf)"
    using assms unfolding qualification_preflight_def by (auto simp: result_simps)
  then show ?thesis using repair_depth_bounded by (auto simp: submission_repair_depth_def max_work_order_submissions_def)
qed

lemma qualify_smoked:
  assumes pf: "qualification_preflight lib v db i = Inr pf" "qr_lease q" "load_attempt db (qr_attempt q) = None"
    and run: "qr_compile q = Inr h" "qr_review q = Inr (s, b)" "qr_smoke q = Inr smoke" "sm_run_id (so_summary smoke) = Some run"
    and json: "result_json lib (smoke_evidence (pf_depth pf) s b smoke) = Inr json" "json_within jv 65536 json"
  shows "qualify_harness_work_order_submission lib jv ut v db i q
    = (with_attempt db (smoked_row q i h run json), retained_attempt lib (smoked_row q i h run json))"
proof -
  let ?a = "fresh_attempt (qr_attempt q) i (qr_started q)"
  let ?b = "advance_attempt StageReview (Some h) (qr_reviewed_at q) ?a"
  let ?c = "advance_attempt StageSmoke (Some h) (qr_smoked_at q) ?b"
  let ?done = "\<lparr>ac_expected = StageSmoke, ac_status = SmokePassed, ac_harness = Some h, ac_smoke_run = Some run, ac_result = Some json,
    ac_failure_code = None, ac_failure_message = None, ac_completed = qr_ended q\<rparr>"
  have ids: "att_id ?a = qr_attempt q" "att_id ?b = qr_attempt q" "att_id ?c = qr_attempt q"
    by (simp_all add: fresh_attempt_def advance_attempt_def)
  have row: "finish_attempt ?done ?c = smoked_row q i h run json"
    by (simp add: finish_attempt_def advance_attempt_def fresh_attempt_def smoked_row_def coalesce_def)
  have "insert_harness_work_order_attempt ut db ?a = (with_attempt db ?a, Inr ?a)"
    using pf(3) preflight_facts [OF pf(1)]
    by (auto simp: insert_harness_work_order_attempt_def validate_new_attempt_def fresh_attempt_def with_attempt_def)
  moreover have "transition_harness_work_order_attempt (with_attempt db ?a) (att_id ?a) StageCompile StageReview (Some h) (qr_reviewed_at q)
      = (with_attempt db ?b, Inr ?b)"
    by (rule transition_with_attempt) (use pf(3) in \<open>simp_all add: fresh_attempt_def valid_stage_transition_def\<close>)
  moreover have "transition_harness_work_order_attempt (with_attempt db ?b) (att_id ?b) StageReview StageSmoke (Some h) (qr_smoked_at q)
      = (with_attempt db ?c, Inr ?c)"
    by (rule transition_with_attempt) (use pf(3) ids in \<open>simp_all add: fresh_attempt_def advance_attempt_def valid_stage_transition_def\<close>)
  moreover have "settle_attempt lib jv (with_attempt db ?c) (att_id ?c) ?done
      = (with_attempt db (finish_attempt ?done ?c), retained_attempt lib (finish_attempt ?done ?c))"
    by (rule settle_with_attempt)
      (use pf(3) ids json(2) in \<open>simp_all add: finish_attempt_def fresh_attempt_def advance_attempt_def valid_completion_def attempt_checks_def\<close>)
  moreover have "((initial_result (pf_depth pf))\<lparr>ar_compiled := True\<rparr>)\<lparr>ar_source_sha := Some s, ar_binary_sha := Some b\<rparr>
      \<lparr>ar_verdict := Some (so_verdict smoke), ar_execs := Some (sm_execs (so_summary smoke)), ar_crashes := Some (sm_crashes (so_summary smoke))\<rparr>
      = smoke_evidence (pf_depth pf) s b smoke"
    by (simp add: initial_result_def smoke_evidence_def)
  ultimately show ?thesis using pf(1,2) run json(1)
    by (simp add: qualify_harness_work_order_submission_def qualify_compile_def qualify_review_def qualify_smoke_def ids row wo_json_def)
qed

lemma smoked_row_readable:
  assumes "parse_result lib json = Some res" "result_json lib res = Inr json" "res = smoke_evidence depth s b smoke"
    "depth < max_work_order_submissions" "valid_sha256 s" "valid_sha256 b" "f_is_finite (sm_execs (so_summary smoke))"
    "f_ge (sm_execs (so_summary smoke)) f_zero" "qr_attempt q \<noteq> 0" "i \<noteq> 0" "h \<noteq> 0" "run \<noteq> 0" "qr_started q \<le> qr_ended q"
  shows "is_ok (retained_attempt lib (smoked_row q i h run json))
    \<longleftrightarrow> metrics_match_verdict (so_verdict smoke) (sm_execs (so_summary smoke)) (sm_crashes (so_summary smoke))"
proof -
  have "parse_retained_result lib (smoked_row q i h run json) = Inr (Some res)"
    using assms(1,2) by (simp add: parse_retained_result_def smoked_row_def wo_json_def)
  moreover have "valid_attempt_semantics (smoked_row q i h run json) (Some res)
      \<longleftrightarrow> metrics_match_verdict (so_verdict smoke) (sm_execs (so_summary smoke)) (sm_crashes (so_summary smoke))"
    using assms(3-)
    by (auto simp: valid_attempt_semantics_def valid_terminal_def valid_result_values_def smoked_row_def some_and_def
        no_failure_def valid_smoke_passed_result_def smoke_evidence_def)
  ultimately show ?thesis by (simp add: retained_attempt_def)
qed

text \<open>C31. A qualification whose compile, review and smoke stages all answer is recorded as passed, and its row can be read
  back exactly when the smoke run found a crash, or ran at a positive rate with the mutator in use and either
  that rate is below the floor or no behavioral check was suspect. A healthy run with a suspect check, and a
  run whose rate could not be measured, are therefore recorded and then rejected by every reader.\<close>

theorem smoke_qualification_readable_iff:
  assumes "qualification_preflight lib v db i = Inr pf" "qr_lease q" "load_attempt db (qr_attempt q) = None"
    "smoke_result engine duration execs crashes lower mutator_exercised custom_mutator = Some smoked"
    "qr_compile q = Inr h" "qr_review q = Inr (s, b)" "qr_smoke q = Inr (smoke_outcome_of smoked s b run checks)"
    "result_json lib (smoke_evidence (pf_depth pf) s b (smoke_outcome_of smoked s b run checks)) = Inr json"
    "parse_result lib json = Some (smoke_evidence (pf_depth pf) s b (smoke_outcome_of smoked s b run checks))"
    "json_within jv 65536 json" "valid_sha256 s" "valid_sha256 b" "f_is_finite execs" "f_ge execs f_zero"
    "qr_attempt q \<noteq> 0" "i \<noteq> 0" "h \<noteq> 0" "run \<noteq> 0" "qr_started q \<le> qr_ended q"
  shows "load_attempt (fst (qualify_harness_work_order_submission lib jv ut v db i q)) (qr_attempt q) = Some (smoked_row q i h run json)
    \<and> (is_ok (snd (qualify_harness_work_order_submission lib jv ut v db i q))
         \<longleftrightarrow> readable_smoke engine execs crashes lower mutator_exercised checks)"
proof -
  let ?smoke = "smoke_outcome_of smoked s b run checks"
  have smoke: "sm_run_id (so_summary ?smoke) = Some run" "sm_execs (so_summary ?smoke) = execs" "sm_crashes (so_summary ?smoke) = crashes"
    using assms(4) by (auto simp: smoke_outcome_of_def smoke_result_def Let_def split: if_splits)
  have "qualify_harness_work_order_submission lib jv ut v db i q
      = (with_attempt db (smoked_row q i h run json), retained_attempt lib (smoked_row q i h run json))"
    by (rule qualify_smoked [OF assms(1-3,5-7) smoke(1) assms(8,10)])
  moreover have "load_attempt (with_attempt db (smoked_row q i h run json)) (qr_attempt q) = Some (smoked_row q i h run json)"
    using load_with_attempt [of db "smoked_row q i h run json"] assms(3) by (simp add: smoked_row_def)
  moreover have "is_ok (retained_attempt lib (smoked_row q i h run json))
      \<longleftrightarrow> metrics_match_verdict (so_verdict ?smoke) (sm_execs (so_summary ?smoke)) (sm_crashes (so_summary ?smoke))"
    by (rule smoked_row_readable [OF assms(9,8) refl]) (use assms(11-) smoke preflight_facts [OF assms(1)] in simp_all)
  ultimately show ?thesis using verdict_matches_iff [OF assms(4,13)] by (simp add: smoke)
qed

text \<open>A failed compilation is recorded, and readable exactly when its sanitized message is a fixed point of the
  sanitizer.\<close>

theorem compile_failure_readable_iff:
  assumes "qualification_preflight lib v db i = Inr pf" "qr_lease q" "load_attempt db (qr_attempt q) = None"
    "qr_compile q = Inl e" "\<not> is_storage_failure e"
    "result_json lib (initial_result (pf_depth pf)) = Inr json" "parse_result lib json = Some (initial_result (pf_depth pf))"
    "json_within jv 65536 json" "qr_attempt q \<noteq> 0" "i \<noteq> 0" "qr_started q \<le> qr_ended q"
    "message = snd (bounded_attempt_failure e)"
  shows "is_ok (snd (qualify_harness_work_order_submission lib jv ut v db i q))
    \<longleftrightarrow> sanitize_work_order_diagnostic message max_failure_message_bytes = message"
proof -
  let ?a = "fresh_attempt (qr_attempt q) i (qr_started q)"
  let ?done = "\<lparr>ac_expected = StageCompile, ac_status = CompileFailed, ac_harness = None, ac_smoke_run = None, ac_result = Some json,
    ac_failure_code = Some (failure_code e), ac_failure_message = Some message, ac_completed = qr_ended q\<rparr>"
  have code: "fst (bounded_attempt_failure e) = failure_code e" "1 \<le> utf8_len (failure_code e)" "utf8_len (failure_code e) \<le> 128"
    "\<not> list_ex is_control (failure_code e @ '' failure'')" "utf8_len (failure_code e @ '' failure'') \<le> 4096"
    by (cases e; simp add: bounded_attempt_failure_def failure_code_def bounded_utf8_def max_failure_code_bytes_def utf8_len_def Let_def
        is_control_def char_code_def)+
  have msg: "message \<noteq> []" "utf8_len message \<le> 4096" "\<not> list_ex is_control message"
    using assms(12) code(4,5) diagnostic_printable [of "classified_display e" max_failure_message_bytes]
    by (auto simp: bounded_attempt_failure_def Let_def max_failure_message_bytes_def list_ex_iff list_all_iff split: if_splits)
  have "insert_harness_work_order_attempt ut db ?a = (with_attempt db ?a, Inr ?a)"
    using assms(3) preflight_facts [OF assms(1)]
    by (auto simp: insert_harness_work_order_attempt_def validate_new_attempt_def fresh_attempt_def with_attempt_def)
  moreover have "settle_attempt lib jv (with_attempt db ?a) (att_id ?a) ?done
      = (with_attempt db (finish_attempt ?done ?a), retained_attempt lib (finish_attempt ?done ?a))"
    by (rule settle_with_attempt)
      (use assms(3,8) code msg utf8_len_pos [OF msg(1)] in \<open>simp_all add: fresh_attempt_def finish_attempt_def valid_completion_def attempt_checks_def\<close>)
  moreover have "bounded_attempt_failure e = (failure_code e, message)" using code(1) assms(12) by (metis prod.collapse)
  ultimately have "snd (qualify_harness_work_order_submission lib jv ut v db i q) = retained_attempt lib (finish_attempt ?done ?a)"
    using assms(1,2,4,5,6)
    by (simp add: qualify_harness_work_order_submission_def qualify_compile_def complete_failed_attempt_def wo_json_def fresh_attempt_def)
  moreover have "parse_retained_result lib (finish_attempt ?done ?a) = Inr (Some (initial_result (pf_depth pf)))"
    using assms(6,7) by (simp add: parse_retained_result_def finish_attempt_def wo_json_def)
  moreover have "valid_failure (finish_attempt ?done ?a) \<longleftrightarrow> sanitize_work_order_diagnostic message max_failure_message_bytes = message"
    using msg assms(5) by (cases e) (auto simp: valid_failure_def finish_attempt_def failure_code_def valid_failure_message_def max_failure_message_bytes_def)
  ultimately show ?thesis using assms(9-11) preflight_facts [OF assms(1)]
    by (auto simp: retained_attempt_def valid_attempt_semantics_def valid_terminal_def valid_result_values_def finish_attempt_def fresh_attempt_def
        some_and_def valid_compile_failure_result_def no_digest_evidence_def no_smoke_evidence_def initial_result_def coalesce_def)
qed

section \<open>A worked example\<close>

text \<open>One order with a submission and its repair, encoders that are constant, and a project that has not changed.\<close>

definition sample_digest :: string where
  "sample_digest = replicate 64 CHR ''a''"

definition sample_payload :: work_order_payload where
  "sample_payload = \<lparr>
     wp_target = \<lparr>te_symbol = ''f'', te_signature = None, te_language = LangC, te_relative_source = ''a.c'', te_line = 1, te_rationale = ''r''\<rparr>,
     wp_engine = LibFuzzer, wp_source = \<lparr>se_excerpt = ''int f;'', se_truncated = False, se_sha = sample_digest\<rparr>,
     wp_context = \<lparr>cc_include_dirs = [], cc_defines = [], cc_std_flag = None, cc_extra_flags = [], cc_units = 0, cc_dropped = []\<rparr>,
     wp_context_sha = sample_digest, wp_rules = [], wp_seeds = [], wp_seeds_truncated = False, wp_steps = [StepImport]\<rparr>"

definition sample_order :: work_order where
  "sample_order = \<lparr>ho_schema = 2, ho_id = sample_digest, ho_payload = sample_payload\<rparr>"

definition sample_packets :: packet_lib where
  "sample_packets = \<lparr>context_json = (\<lambda>_. Inr ''c''), payload_json = (\<lambda>_. Inr ''p''), packet_json = (\<lambda>_. Inr ''w''),
     parse_packet = (\<lambda>_. Some sample_order), sha256_hex = (\<lambda>_. sample_digest)\<rparr>"

definition sample_lib :: "attempt_result \<Rightarrow> evidence_lib" where
  "sample_lib res = \<lparr>packets = sample_packets, result_json = (\<lambda>_. Inr ''r''), parse_result = (\<lambda>_. Some res),
     origin_json = (\<lambda>_. Inr ''h''), parse_origin = (\<lambda>_. Some OriginHuman), lint_json = (\<lambda>_. Inr ''l''), parse_lint = (\<lambda>_. Some [])\<rparr>"

definition sample_order_row :: work_order_record where
  "sample_order_row = \<lparr>wo_id = sample_digest, wo_target = 9, wo_project = ''/p'', wo_schema = 2, wo_packet = ''w'', wo_created = 0\<rparr>"

definition sample_submission :: "uuid128 \<Rightarrow> uuid128 option \<Rightarrow> submission_record" where
  "sample_submission i parent = \<lparr>sub_id = i, sub_order = sample_digest, sub_source = ''x'', sub_sha = sample_digest, sub_origin = ''h'',
     sub_parent = parent, sub_lint = ''l'', sub_submitted = 5\<rparr>"

definition sample_ops :: "work_order_op list" where
  "sample_ops = [OpOrder sample_order_row, OpSubmission (sample_submission 1 None), OpSubmission (sample_submission 2 (Some 1)),
     OpAttempt (fresh_attempt 10 1 7), OpAttempt (fresh_attempt 11 2 8)]"

definition sample_db :: work_order_db where
  "sample_db = \<lparr>wd_orders = [sample_order_row], wd_submissions = [sample_submission 1 None, sample_submission 2 (Some 1)],
     wd_attempts = [fresh_attempt 10 1 7, fresh_attempt 11 2 8]\<rparr>"

lemma sample_digest_ok: "utf8_len sample_digest = 64" "lower_hex sample_digest" "valid_sha256 sample_digest"
  "validate_sha256 sample_digest subject = Inr ()"
proof -
  show n: "utf8_len sample_digest = 64" by (simp add: sample_digest_def utf8_len_def sum_list_replicate)
  have a: "list_all (\<lambda>c. c = CHR ''a'') sample_digest" by (simp add: sample_digest_def list_all_iff)
  have "list_all (\<lambda>c. is_ascii_digit c \<or> (97 \<le> char_code c \<and> char_code c \<le> 102)) sample_digest"
    by (rule list.pred_mono_strong [OF a]) (simp add: char_code_def)
  then show "lower_hex sample_digest" "validate_sha256 sample_digest subject = Inr ()"
    using n by (simp_all add: lower_hex_def validate_sha256_def sample_digest_def)
  have "list_all (\<lambda>c. is_ascii_hexdigit c \<and> \<not> (65 \<le> char_code c \<and> char_code c \<le> 90)) sample_digest"
    by (rule list.pred_mono_strong [OF a]) (simp add: is_ascii_hexdigit_def char_code_def)
  then show "valid_sha256 sample_digest" using n by (simp add: valid_sha256_def)
qed

lemma utf8_len_letter: "utf8_len [c] \<le> 2" "1 \<le> utf8_len [c]"
  by (simp_all add: utf8_len_def)

lemma sample_run: "foldl (work_order_step (\<lambda>_. True) (\<lambda>_. [])) work_order_db_empty sample_ops = sample_db"
proof -
  have "order_checks (\<lambda>_. True) sample_order_row"
    using utf8_len_letter(1) [of "CHR ''w''"] by (simp add: order_checks_def sample_order_row_def json_within_def sample_digest_ok)
  moreover have "submission_checks (\<lambda>_. True) (sample_submission i p)" for i p
    using utf8_len_letter [of "CHR ''x''"] utf8_len_letter(1) [of "CHR ''h''"] utf8_len_letter(1) [of "CHR ''l''"]
    by (simp add: submission_checks_def sample_submission_def json_within_def sample_digest_ok)
  ultimately show ?thesis
    by (simp add: sample_ops_def sample_db_def work_order_db_empty_def insert_harness_work_order_def load_work_order_def
        insert_harness_work_order_submission_def load_submission_def load_submission_identity_def check_parent_def submission_count_def
        max_work_order_submissions_def insert_harness_work_order_attempt_def validate_new_attempt_def load_attempt_def
        sample_order_row_def sample_submission_def fresh_attempt_def Let_def)
qed

lemma sample_canonical: "canonical_payload sample_packets sample_payload = Inr sample_payload"
proof -
  have "validate_source_evidence (wp_source sample_payload) = Inr ()"
    by (simp add: validate_source_evidence_def sample_payload_def sample_digest_ok str_lines_def utf8_len_def max_source_excerpt_bytes_def
        max_source_excerpt_lines_def)
  moreover have "validate_project_relative_path (te_relative_source (wp_target sample_payload)) = Inr ()"
    by (simp add: validate_project_relative_path_def sample_payload_def windows_root_def path_pieces_def split_char_def)
  ultimately show ?thesis
    by (simp add: canonical_payload_def sample_payload_def sample_packets_def normalize_context_def normalize_strings_def sort_dedup_def
        normalize_rules_def normalize_seeds_def normalize_steps_def canonical_json_def Let_def max_work_order_seeds_def)
qed

lemma sample_packet_size: "ensure_packet_size sample_packets w = Inr ()"
  using utf8_len_letter(1) [of "CHR ''w''"]
  by (simp add: ensure_packet_size_def sample_packets_def canonical_json_def max_work_order_packet_bytes_def)

lemma sample_packet_retained: "retained_packet sample_packets sample_order_row None = Inr sample_order"
proof -
  have "verify_work_order sample_packets sample_order = Inr ()"
    using sample_canonical sample_packet_size [of sample_order]
    by (simp add: verify_work_order_def sample_order_def work_order_schema_version_def canonical_json_def sample_packets_def)
  then show ?thesis by (simp add: retained_packet_def sample_order_row_def sample_packets_def sample_order_def wo_json_def)
qed

definition sample_view :: "uuid128 \<Rightarrow> uuid128 option \<Rightarrow> work_order_submission" where
  "sample_view i parent = \<lparr>ws_id = i, ws_order = sample_digest, ws_source = ''x'', ws_sha = sample_digest, ws_origin = OriginHuman,
     ws_parent = parent, ws_lint = [], ws_submitted = 5\<rparr>"

lemma sample_submission_retained: "retained_submission (sample_lib res) (sample_submission i parent) = Inr (sample_view i parent)"
  using utf8_len_letter(1) [of "CHR ''x''"]
  by (simp add: retained_submission_def sample_submission_def sample_lib_def sample_packets_def sample_view_def validate_submission_source_def
      normalized_submission_origin_def wo_json_def max_source_excerpt_bytes_def replace_error_def)

lemma sample_depths:
  "submission_repair_depth (sample_lib res) (sample_db\<lparr>wd_attempts := as\<rparr>) (sample_view 1 None) = Inr 0"
  "submission_repair_depth (sample_lib res) (sample_db\<lparr>wd_attempts := as\<rparr>) (sample_view 2 (Some 1)) = Inr 1"
  by (simp_all add: submission_repair_depth_def sample_view_def sample_db_def load_submission_def sample_submission_retained
      max_work_order_submissions_def) (simp_all add: sample_submission_def sample_submission_retained sample_view_def)

lemma sample_db_attempts: "sample_db\<lparr>wd_attempts := wd_attempts sample_db\<rparr> = sample_db"
  by (simp add: sample_db_def)

theorem repair_depth_exact_witness:
  "\<exists>rs. repair_chain sample_db (Some 1) rs \<and> distinct rs \<and> length rs < max_work_order_submissions
    \<and> submission_repair_depth (sample_lib (initial_result 0)) sample_db (sample_view 2 (Some 1)) = Inr (length rs)"
proof -
  let ?s = "sample_submission 2 (Some 1)"
  have "?s \<in> set (wd_submissions sample_db)" by (simp add: sample_db_def)
  moreover have "\<forall>r\<in>set (wd_submissions sample_db). is_ok (retained_submission (sample_lib (initial_result 0)) r)"
    by (simp add: sample_db_def sample_submission_retained)
  moreover have "sub_parent ?s = Some 1" by (simp add: sample_submission_def)
  ultimately show ?thesis
    using repair_depth_exact [OF sample_run [symmetric] _ _ sample_submission_retained, of 2 "Some 1" "initial_result 0"] by simp
qed

lemma sample_ranked:
  fixes p :: "uuid128 option"
  assumes "i = 1 \<and> p = None \<and> d = 0 \<or> i = 2 \<and> p = Some 1 \<and> d = 1" "load_attempt sample_db n = Some (fresh_attempt n i t)" "n \<noteq> 0" "i \<noteq> 0"
  shows "load_ranked (sample_lib res) sample_db n
    = Inr \<lparr>ra_id = n, ra_compiled = False, ra_verdict = 3, ra_depth = d, ra_execs = f_zero, ra_submitted = 5\<rparr>"
proof -
  have a: "retained_attempt (sample_lib res) (fresh_attempt n i t) = Inr (public_attempt (fresh_attempt n i t) None)"
    using assms(3,4) by (simp add: retained_attempt_def parse_retained_result_def fresh_attempt_def valid_attempt_semantics_def
        valid_result_values_def valid_running_def no_failure_def)
  have s: "load_submission sample_db i = Some (sample_submission i p)"
    using assms(1) by (auto simp: load_submission_def sample_db_def sample_submission_def)
  have w: "load_verified_work_order (sample_lib res) sample_db sample_digest = Inr sample_order"
    using sample_packet_retained
    by (simp add: load_verified_work_order_def load_work_order_def sample_db_def sample_lib_def) (simp add: sample_order_row_def)
  have d: "submission_repair_depth (sample_lib res) sample_db (sample_view i p) = Inr d"
    using assms(1) sample_depths [of res "wd_attempts sample_db"] unfolding sample_db_attempts by auto
  have "wa_submission (public_attempt (fresh_attempt n i t) None) = i" by (simp add: public_attempt_def fresh_attempt_def)
  moreover have "ws_order (sample_view i p) = sample_digest" "ws_submitted (sample_view i p) = 5" by (simp_all add: sample_view_def)
  ultimately show ?thesis unfolding load_ranked_def
    by (simp add: assms(2) a s sample_submission_retained w d)
      (simp add: public_attempt_def fresh_attempt_def ranked_attempt_new_def verdict_rank_def)
qed

lemma sample_ranking:
  "rank_harness_work_order_attempts (sample_lib res) sample_db [10, 11] = Inr \<lparr>wr_attempts = [10, 11], wr_winner = None\<rparr>"
proof -
  have "load_attempt sample_db 10 = Some (fresh_attempt 10 1 7)" "load_attempt sample_db 11 = Some (fresh_attempt 11 2 8)"
    by (simp_all add: load_attempt_def sample_db_def fresh_attempt_def)
  then have "load_ranked (sample_lib res) sample_db 10 = Inr \<lparr>ra_id = 10, ra_compiled = False, ra_verdict = 3, ra_depth = 0, ra_execs = f_zero, ra_submitted = 5\<rparr>"
    "load_ranked (sample_lib res) sample_db 11 = Inr \<lparr>ra_id = 11, ra_compiled = False, ra_verdict = 3, ra_depth = 1, ra_execs = f_zero, ra_submitted = 5\<rparr>"
    using sample_ranked [of 1 None 0 10 7 res] sample_ranked [of 2 "Some 1" 1 11 8 res] by simp_all
  then show ?thesis
    by (simp add: rank_harness_work_order_attempts_def validate_ranking_request_def max_work_order_rank_attempts_def Let_def rank_key_def)
qed

theorem ranking_sound_witness:
  "rank_harness_work_order_attempts (sample_lib (initial_result 0)) sample_db [11, 10] = Inr \<lparr>wr_attempts = [10, 11], wr_winner = None\<rparr>"
  using ranking_sound [OF sample_ranking, of "[11, 10]" "initial_result 0"] by auto

text \<open>A smoke run of a thousand executions per second and no crash.\<close>

definition sample_smoked :: "smoke_summary \<times> harness_status" where
  "sample_smoked = (\<lparr>sm_duration = 30, sm_execs = Fin False 1000 0, sm_crashes = 0, sm_passed = True, sm_source_sha = None,
     sm_binary_sha = None, sm_run_id = None\<rparr>, HarnessSmokePassed)"

lemma sample_smoke_result: "smoke_result LibFuzzer 30 (Fin False 1000 0) 0 [] True False = Some sample_smoked"
  by (simp add: smoke_result_def smoke_ran_def sample_smoked_def f_zero_def fin_over_def)

definition sample_outcome :: "behavior_check list \<Rightarrow> smoke_outcome" where
  "sample_outcome checks = smoke_outcome_of sample_smoked sample_digest sample_digest 30 checks"

definition sample_qualification :: "behavior_check list \<Rightarrow> qualification_run" where
  "sample_qualification checks = \<lparr>qr_lease = True, qr_attempt = 12, qr_started = 20, qr_compile = Inr 40, qr_reviewed_at = 21,
     qr_review = Inr (sample_digest, sample_digest), qr_smoked_at = 22, qr_smoke = Inr (sample_outcome checks), qr_ended = 23\<rparr>"

definition sample_project :: project_view where
  "sample_project = \<lparr>pv_root = Some,
     pv_targets = (\<lambda>_. [\<lparr>tc_id = 9, tc_symbol = ''f'', tc_language = LangC, tc_signature = None, tc_line = 1, tc_rationale = ''r''\<rparr>]),
     pv_source = (\<lambda>_ _. Some (''a.c'', wp_source sample_payload)), pv_context = (\<lambda>_. Some (wp_context sample_payload)),
     pv_linter = (\<lambda>_ _. [])\<rparr>"

lemma sample_preflight:
  "qualification_preflight (sample_lib res) sample_project sample_db 1
     = Inr \<lparr>pf_project = ''/p'', pf_order = sample_order, pf_submission = sample_view 1 None, pf_depth = 0\<rparr>"
proof -
  have s: "load_submission sample_db 1 = Some (sample_submission 1 None)"
    by (simp add: load_submission_def sample_db_def sample_submission_def)
  have r: "load_work_order sample_db (ws_order (sample_view 1 None)) = Some sample_order_row"
    by (simp add: load_work_order_def sample_db_def sample_view_def sample_order_row_def)
  have build: "build_work_order sample_packets sample_payload = Inr sample_order"
    using sample_canonical sample_packet_size
    by (simp add: build_work_order_def canonical_json_def sample_order_def work_order_schema_version_def)
      (simp add: sample_packets_def)
  have "(ho_payload sample_order)\<lparr>wp_context := wp_context sample_payload\<rparr> = sample_payload" by (simp add: sample_order_def sample_payload_def)
  then have current: "check_evidence_current (sample_lib res) sample_project sample_order_row sample_order = Inr ''/p''"
    by (simp add: check_evidence_current_def sample_project_def sample_lib_def build replace_error_def require_def)
      (simp add: sample_order_row_def sample_order_def sample_payload_def candidate_current_def)
  have lint: "check_lint sample_project (sample_view 1 None) sample_order = Inr ()"
    by (simp add: check_lint_def sample_project_def sample_view_def has_blocking_finding_def)
  have p: "packets (sample_lib res) = sample_packets" by (simp add: sample_lib_def)
  show ?thesis using sample_depths(1) [of res "wd_attempts sample_db"] unfolding sample_db_attempts
    by (simp add: qualification_preflight_def s sample_submission_retained r p sample_packet_retained current lint)
qed

lemma sample_outcome_figures:
  "sm_execs (so_summary (sample_outcome checks)) = Fin False 1000 0" "sm_crashes (so_summary (sample_outcome checks)) = 0"
  "sm_run_id (so_summary (sample_outcome checks)) = Some 30"
  by (simp_all add: sample_outcome_def smoke_outcome_of_def sample_smoked_def Let_def)

theorem smoke_qualification_readable_iff_witness:
  "(let checks = [CheckSuspect ''unstable'']; q = sample_qualification checks;
        res = smoke_evidence 0 sample_digest sample_digest (sample_outcome checks);
        out = qualify_harness_work_order_submission (sample_lib res) (\<lambda>_. True) (\<lambda>_. []) sample_project sample_db 1 q
    in load_attempt (fst out) 12 = Some (smoked_row q 1 40 30 ''r'') \<and> \<not> is_ok (snd out))"
proof -
  let ?checks = "[CheckSuspect ''unstable'']"
  let ?q = "sample_qualification ?checks"
  let ?res = "smoke_evidence 0 sample_digest sample_digest (sample_outcome ?checks)"
  have "load_attempt sample_db (qr_attempt ?q) = None"
    by (simp add: load_attempt_def sample_db_def sample_qualification_def fresh_attempt_def)
  moreover have "json_within (\<lambda>_. True) 65536 ''r''" using utf8_len_letter(1) [of "CHR ''r''"] by (simp add: json_within_def)
  moreover have "f_ge (Fin False 1000 0) f_zero" by (simp add: f_ge_def f_zero_def fin_over_def)
  moreover have "\<not> readable_smoke LibFuzzer (Fin False 1000 0) 0 [] True ?checks"
    by (simp add: readable_smoke_def min_meaningful_execs_def fin_over_def)
  ultimately show ?thesis
    using smoke_qualification_readable_iff [of "sample_lib ?res" sample_project sample_db 1 _ ?q LibFuzzer 30 "Fin False 1000 0" 0 "[]" True False
        sample_smoked 40 sample_digest sample_digest 30 ?checks "''r''" "\<lambda>_. True" "\<lambda>_. []", OF sample_preflight _ _ sample_smoke_result]
    by (simp add: sample_qualification_def sample_outcome_def sample_lib_def sample_digest_ok Let_def)
qed

definition sample_revision :: harness_revision where
  "sample_revision = \<lparr>hr_id = 40, hr_source = ''x'', hr_status = HarnessSmokePassed, hr_smoke = Some (so_summary (sample_outcome []))\<rparr>"


end
