(* ===== verification/Context_Window.thy ===== *)
theory Context_Window
  imports Json Diagnostic_Text "HOL-Library.Sublist"
begin

text \<open>
  What the agent sends to a model, \<^verbatim>\<open>crates/hf-context/src/simple.rs\<close> with the messages of
  \<^verbatim>\<open>crates/hf-core/src/types.rs\<close> and the compaction step of \<^verbatim>\<open>crates/hf-agent/src/lib.rs\<close>: the token budget,
  the trimming of old and of oversized tool results and the replacement of the older conversation by a summary.
  The summary is the answer of a model, an argument. Sizes of texts in bytes stay below \<^verbatim>\<open>usize\<close>.
\<close>

section \<open>Messages\<close>

datatype role = RoleSystem | RoleUser | RoleAssistant | RoleTool

record tool_call =
  tc_id :: string
  tc_name :: string
  tc_arguments :: json
  tc_provider_metadata :: "json option"

record message =
  me_id :: string
  me_role :: role
  me_content :: string
  me_tool_call_id :: "string option"
  me_tool_calls :: "tool_call list"
  me_timestamp :: int
  me_metadata :: json

definition is_system :: "message \<Rightarrow> bool" where
  "is_system m \<longleftrightarrow> me_role m = RoleSystem"

definition is_user :: "message \<Rightarrow> bool" where
  "is_user m \<longleftrightarrow> me_role m = RoleUser"

section \<open>The token budget\<close>

definition default_budget_tokens :: nat where
  "default_budget_tokens = 96000"

definition text_tokens :: "string \<Rightarrow> nat" where
  "text_tokens s = (utf8_len s + 3) div 4"

definition message_tokens :: "message \<Rightarrow> nat" where
  "message_tokens m = text_tokens (me_content m)"

definition total_tokens :: "message list \<Rightarrow> nat" where
  "total_tokens ms = sum_list (map message_tokens ms)"

text \<open>The flags of \<^verbatim>\<open>assemble\<close>, newest message first.\<close>

fun window_flags :: "nat \<Rightarrow> bool \<Rightarrow> message list \<Rightarrow> bool list" where
  "window_flags budget closed [] = []"
| "window_flags budget closed (m # ms) =
     (if is_system m then True # window_flags budget closed ms
      else if closed then False # window_flags budget closed ms
      else if message_tokens m \<le> budget then True # window_flags (budget - message_tokens m) closed ms
      else False # window_flags budget True ms)"

fun drop_leading :: "message list \<Rightarrow> bool list \<Rightarrow> bool list" where
  "drop_leading (m # ms) (k # ks) =
     (if is_system m \<or> \<not> k then k # drop_leading ms ks
      else if is_user m then k # ks
      else False # drop_leading ms ks)"
| "drop_leading _ ks = ks"

definition kept :: "message list \<Rightarrow> bool list \<Rightarrow> message list" where
  "kept ms ks = map fst (filter snd (zip ms ks))"

definition assemble :: "message list \<Rightarrow> nat \<Rightarrow> message list" where
  "assemble ms max_tokens =
     (let system_tokens = total_tokens (filter is_system ms);
          budget = max_tokens - system_tokens;
          keep = rev (window_flags budget False (rev ms))
      in kept ms (drop_leading ms keep))"

section \<open>Old and oversized tool results\<close>

definition keep_recent_tool_results :: nat where
  "keep_recent_tool_results = 3"

definition hard_clear_tool_results_after :: nat where
  "hard_clear_tool_results_after = 10"

definition soft_trim_keep_chars :: nat where
  "soft_trim_keep_chars = 500"

definition hard_clear_placeholder :: string where
  "hard_clear_placeholder = ''[tool result omitted -- superseded by newer output]''"

definition excerpt_around :: "nat \<Rightarrow> string \<Rightarrow> string \<Rightarrow> string" where
  "excerpt_around n marker s = take n s @ [CHR 0x0A] @ ''[... '' @ nat_str (length s - n * 2) @ marker @ [CHR 0x0A] @ drop (length s - n) s"

definition soft_trim :: "string \<Rightarrow> string" where
  "soft_trim s = (if length s \<le> soft_trim_keep_chars * 2 + 80 then s
     else excerpt_around soft_trim_keep_chars '' chars trimmed to fit context; oldest output first ...]'' s)"

text \<open>The rank counts tool results, newest first.\<close>

definition aged :: "nat \<Rightarrow> string \<Rightarrow> string" where
  "aged rank s = (if rank \<ge> hard_clear_tool_results_after then hard_clear_placeholder
     else if rank \<ge> keep_recent_tool_results then soft_trim s else s)"

fun age_newest_first :: "nat \<Rightarrow> message list \<Rightarrow> message list" where
  "age_newest_first rank [] = []"
| "age_newest_first rank (m # ms) =
     (if me_role m \<noteq> RoleTool then m # age_newest_first rank ms
      else m\<lparr>me_content := aged rank (me_content m)\<rparr> # age_newest_first (rank + 1) ms)"

definition prune_tool_results_by_age :: "message list \<Rightarrow> message list" where
  "prune_tool_results_by_age ms = rev (age_newest_first 0 (rev ms))"

definition max_fresh_tool_result_chars :: nat where
  "max_fresh_tool_result_chars = 12000"

definition fresh_tool_result_keep_chars :: nat where
  "fresh_tool_result_keep_chars = 4000"

definition cap_fresh_tool_result :: "string \<Rightarrow> string option" where
  "cap_fresh_tool_result s = (if length s \<le> max_fresh_tool_result_chars then None
     else Some (excerpt_around fresh_tool_result_keep_chars
       '' chars omitted: this tool produced a large result; only its head and tail are kept to fit context ...]'' s))"

section \<open>Compaction\<close>

definition compaction_retain :: nat where
  "compaction_retain = 6"

definition safe_compaction_tail_start :: "message list \<Rightarrow> nat \<Rightarrow> nat option" where
  "safe_compaction_tail_start ms retain = find (\<lambda>i. is_user (ms ! i)) [length ms - retain..<length ms]"

fun role_debug :: "role \<Rightarrow> string" where
  "role_debug RoleSystem = ''System''"
| "role_debug RoleUser = ''User''"
| "role_debug RoleAssistant = ''Assistant''"
| "role_debug RoleTool = ''Tool''"

definition compaction_line :: "message \<Rightarrow> string" where
  "compaction_line m = role_debug (me_role m) @ '': '' @ me_content m"

definition system_message :: "string \<Rightarrow> int \<Rightarrow> string \<Rightarrow> message" where
  "system_message i t content = \<lparr>me_id = i, me_role = RoleSystem, me_content = content, me_tool_call_id = None, me_tool_calls = [],
     me_timestamp = t, me_metadata = JNull\<rparr>"

text \<open>
  The engine of \<^verbatim>\<open>compaction.rs\<close> with its default configuration, the only one the agent uses: one prompt for
  all the messages and three attempts. A backend answers the call of a number with an error or a text.
\<close>

type_synonym backend = "nat \<Rightarrow> string \<Rightarrow> string + string"

record compaction_result =
  cr_summary :: string
  cr_messages_compacted :: nat
  cr_tokens_saved :: nat
  cr_summary_tokens :: nat

definition estimate_tokens :: "string \<Rightarrow> nat" where
  "estimate_tokens s = min u32_max ((utf8_len s + 3) div 4)"

definition compaction_max_retries :: nat where
  "compaction_max_retries = 3"

definition build_summarize_prompt :: "string list \<Rightarrow> string" where
  "build_summarize_prompt messages =
     ''Summarize the following conversation messages concisely. Preserve all important details, decisions, code references, file paths, URLs, and identifiers:''
       @ [CHR 0x0A, CHR 0x0A]
       @ concat (map (\<lambda>(i, m). ''Message '' @ nat_str (i + 1) @ '': '' @ m @ [CHR 0x0A]) (enumerate 0 messages))
       @ [CHR 0x0A] @ ''Summary:''"

fun call_with_retry :: "backend \<Rightarrow> nat \<Rightarrow> nat \<Rightarrow> string \<Rightarrow> nat \<Rightarrow> string option" where
  "call_with_retry llm 0 attempt prompt source_tokens = None"
| "call_with_retry llm (Suc left) attempt prompt source_tokens =
     (case llm attempt prompt of
        Inr summary \<Rightarrow>
          if trim summary \<noteq> [] then
            if estimate_tokens summary \<ge> source_tokens then call_with_retry llm left (attempt + 1) prompt source_tokens
            else Some summary
          else call_with_retry llm left (attempt + 1) prompt source_tokens
      | Inl _ \<Rightarrow> call_with_retry llm left (attempt + 1) prompt source_tokens)"

definition source_tokens :: "string list \<Rightarrow> nat" where
  "source_tokens messages = sum_list (map estimate_tokens messages)"

definition summarize_all :: "backend \<Rightarrow> string list \<Rightarrow> string" where
  "summarize_all llm messages =
     (case call_with_retry llm compaction_max_retries 0 (build_summarize_prompt messages) (source_tokens messages) of
        Some summary \<Rightarrow> summary
      | None \<Rightarrow> [])"

definition compact_with_retain :: "string list \<Rightarrow> nat \<Rightarrow> compaction_result" where
  "compact_with_retain messages retain_window =
     (if length messages \<le> retain_window then \<lparr>cr_summary = [], cr_messages_compacted = 0, cr_tokens_saved = 0, cr_summary_tokens = 0\<rparr>
      else let to_compact = length messages - retain_window;
               summary = ''[Compacted '' @ nat_str to_compact @ '' messages using Summarize strategy]''
           in \<lparr>cr_summary = summary, cr_messages_compacted = to_compact,
               cr_tokens_saved = source_tokens (take to_compact messages) - estimate_tokens summary,
               cr_summary_tokens = estimate_tokens summary\<rparr>)"

definition compact_async_with_retain :: "backend option \<Rightarrow> string list \<Rightarrow> nat \<Rightarrow> compaction_result" where
  "compact_async_with_retain llm messages retain_window =
     (if length messages \<le> retain_window then \<lparr>cr_summary = [], cr_messages_compacted = 0, cr_tokens_saved = 0, cr_summary_tokens = 0\<rparr>
      else let to_compact = length messages - retain_window; compacted = take to_compact messages
           in (case llm of
                 None \<Rightarrow> compact_with_retain messages retain_window
               | Some f \<Rightarrow> let summary = summarize_all f compacted
                   in \<lparr>cr_summary = summary, cr_messages_compacted = to_compact,
                       cr_tokens_saved = source_tokens compacted - estimate_tokens summary,
                       cr_summary_tokens = estimate_tokens summary\<rparr>))"

text \<open>The agent's backend: the provider pool's answer, trimmed.\<close>

definition pool_summarize :: "backend \<Rightarrow> backend" where
  "pool_summarize pool n prompt = (case pool n prompt of Inl e \<Rightarrow> Inl e | Inr reply \<Rightarrow> Inr (trim reply))"

definition summary_heading :: string where
  "summary_heading = ''[Summary of earlier conversation]'' @ [CHR 0x0A]"

text \<open>The arguments: the provider pool, when there is one, and the identifier and time of the new message.\<close>

definition maybe_compact :: "backend option \<Rightarrow> string \<Rightarrow> int \<Rightarrow> message list \<Rightarrow> message list" where
  "maybe_compact provider_pool i t ms =
     (if total_tokens ms \<le> default_budget_tokens then ms
      else if length ms \<le> compaction_retain + 2 then ms
      else (case provider_pool of
              None \<Rightarrow> ms
            | Some pool \<Rightarrow>
                (case safe_compaction_tail_start ms compaction_retain of
                   None \<Rightarrow> ms
                 | Some tail \<Rightarrow>
                     let middle = map compaction_line (drop 1 (take tail ms))
                     in if middle = [] then ms
                        else let summary = cr_summary (compact_async_with_retain (Some (pool_summarize pool)) middle 0)
                             in if trim summary = [] then ms
                                else take 1 ms @ [system_message i t (summary_heading @ summary)] @ drop tail ms)))"

section \<open>The assembled window\<close>

text \<open>The reference: the longest suffix that fits the budget, without what precedes its first user message.\<close>

fun fitting_prefix :: "nat \<Rightarrow> message list \<Rightarrow> message list" where
  "fitting_prefix budget [] = []"
| "fitting_prefix budget (m # ms) = (if message_tokens m \<le> budget then m # fitting_prefix (budget - message_tokens m) ms else [])"

definition newest_window :: "nat \<Rightarrow> message list \<Rightarrow> message list" where
  "newest_window budget ms = rev (fitting_prefix budget (rev ms))"

lemma total_tokens_append [simp]: "total_tokens (a @ b) = total_tokens a + total_tokens b"
  by (simp add: total_tokens_def)

lemma total_tokens_simps [simp]: "total_tokens [] = 0" "total_tokens (m # ms) = message_tokens m + total_tokens ms"
  by (simp_all add: total_tokens_def)

lemma total_tokens_rev [simp]: "total_tokens (rev ms) = total_tokens ms"
  by (induction ms) simp_all

lemma fitting_prefix_maximal:
  "\<exists>r. ms = fitting_prefix budget ms @ r \<and> total_tokens (fitting_prefix budget ms) \<le> budget
     \<and> (r = [] \<or> total_tokens (fitting_prefix budget ms) + message_tokens (hd r) > budget)"
proof (induction budget ms rule: fitting_prefix.induct)
  case (2 budget m ms)
  then show ?case by (cases "message_tokens m \<le> budget") auto
qed simp

text \<open>The window is the longest suffix within the budget.\<close>

lemma prefix_beyond: "prefix p (w @ r) \<Longrightarrow> prefix p w \<or> (\<exists>x xs. p = w @ x # xs \<and> r \<noteq> [] \<and> x = hd r)"
  by (auto simp: prefix_append) (metis append_Nil2 hd_append2 list.collapse list.distinct(1) list.sel(1) prefix_def)

lemma newest_window_maximal:
  "suffix (newest_window budget ms) ms \<and> total_tokens (newest_window budget ms) \<le> budget
     \<and> (\<forall>s. suffix s ms \<longrightarrow> total_tokens s \<le> budget \<longrightarrow> suffix s (newest_window budget ms))"
proof -
  let ?w = "fitting_prefix budget (rev ms)"
  obtain r where r: "rev ms = ?w @ r" "total_tokens ?w \<le> budget" "r = [] \<or> total_tokens ?w + message_tokens (hd r) > budget"
    using fitting_prefix_maximal by blast
  have "suffix s (rev ?w)" if s: "suffix s ms" "total_tokens s \<le> budget" for s
  proof -
    have "prefix (rev s) (?w @ r)" using s(1) r(1) suffix_to_prefix [of s ms] by simp
    moreover have False if "rev s = ?w @ hd r # xs" "r \<noteq> []" for xs
    proof -
      have "total_tokens (?w @ hd r # xs) \<le> budget" using s(2) that(1) total_tokens_rev [of s] by presburger
      then show False using r(3) that(2) by simp
    qed
    ultimately have "prefix (rev s) ?w" using prefix_beyond [of "rev s" ?w r] by blast
    then show ?thesis using suffix_to_prefix [of s "rev ?w"] by simp
  qed
  moreover have "suffix (rev ?w) ms" using r(1) suffix_to_prefix [of "rev ?w" ms] by (metis prefixI rev_rev_ident)
  ultimately show ?thesis using r(2) by (simp add: newest_window_def)
qed

lemma kept_simps [simp]: "kept [] ks = []" "kept ms [] = []" "kept (m # ms) (k # ks) = (if k then [m] else []) @ kept ms ks"
  by (simp_all add: kept_def)

lemma kept_append: "length a = length ka \<Longrightarrow> kept (a @ b) (ka @ kb) = kept a ka @ kept b kb"
  by (simp add: kept_def)

lemma kept_subseq: "subseq (kept ms ks) ms"
proof (induction ms arbitrary: ks)
  case (Cons m ms)
  then show ?case by (cases ks) (auto simp: subseq_Cons')
qed simp

lemma window_flags_length [simp]: "length (window_flags b c ms) = length ms"
  by (induction b c ms rule: window_flags.induct) auto

lemma kept_rev: "length ms = length ks \<Longrightarrow> kept (rev ms) (rev ks) = rev (kept ms ks)"
  by (simp add: kept_def zip_rev rev_filter rev_map)

lemma window_flags_kept:
  "filter is_system (kept ms (window_flags b c ms)) = filter is_system ms"
  "filter (\<lambda>m. \<not> is_system m) (kept ms (window_flags b c ms)) = (if c then [] else fitting_prefix b (filter (\<lambda>m. \<not> is_system m) ms))"
  by (induction b c ms rule: window_flags.induct) (auto split: if_splits)

lemma drop_leading_kept:
  "filter is_system (kept ms (drop_leading ms ks)) = filter is_system (kept ms ks)"
  "filter (\<lambda>m. \<not> is_system m) (kept ms (drop_leading ms ks)) = dropWhile (\<lambda>m. \<not> is_user m) (filter (\<lambda>m. \<not> is_system m) (kept ms ks))"
proof (induction ms ks rule: drop_leading.induct)
  case (1 m ms k ks)
  {
    case 1
    then show ?case using "1.IH" by (auto simp: is_user_def is_system_def)
  next
    case 2
    then show ?case using "1.IH" by (auto simp: is_user_def is_system_def)
  }
qed (auto simp: kept_def)

abbreviation chat :: "message list \<Rightarrow> message list" where
  "chat ms \<equiv> filter (\<lambda>m. \<not> is_system m) ms"

text \<open>What is left for the conversation once the system messages are paid for.\<close>

definition chat_budget :: "message list \<Rightarrow> nat \<Rightarrow> nat" where
  "chat_budget ms max_tokens = max_tokens - total_tokens (filter is_system ms)"

lemma assemble_parts:
  "filter is_system (assemble ms n) = filter is_system ms"
  "chat (assemble ms n) = dropWhile (\<lambda>m. \<not> is_user m) (newest_window (chat_budget ms n) (chat ms))"
proof -
  let ?k = "window_flags (chat_budget ms n) False (rev ms)"
  have "kept ms (rev ?k) = rev (kept (rev ms) ?k)" using kept_rev [of "rev ms" ?k] by simp
  then show "filter is_system (assemble ms n) = filter is_system ms"
    "chat (assemble ms n) = dropWhile (\<lambda>m. \<not> is_user m) (newest_window (chat_budget ms n) (chat ms))"
    by (simp_all add: assemble_def chat_budget_def Let_def drop_leading_kept rev_filter [symmetric] window_flags_kept newest_window_def)
qed

lemma total_tokens_split: "total_tokens ms = total_tokens (filter is_system ms) + total_tokens (chat ms)"
  by (induction ms) auto

lemma total_tokens_suffix: "suffix s ms \<Longrightarrow> total_tokens s \<le> total_tokens ms"
  by (auto simp: suffix_def)

lemma assemble_within: "total_tokens (assemble ms n) \<le> max n (total_tokens (filter is_system ms))"
proof -
  have "total_tokens (chat (assemble ms n)) \<le> chat_budget ms n"
    unfolding assemble_parts
    using newest_window_maximal [of "chat_budget ms n" "chat ms"] total_tokens_suffix [OF suffix_dropWhile] le_trans by blast
  then show ?thesis using total_tokens_split [of "assemble ms n"] by (simp add: assemble_parts chat_budget_def)
qed

text \<open>C33. What the agent sends: \<^verbatim>\<open>assemble\<close> keeps every system message and the order of the
  conversation, and of the other messages keeps exactly the longest newest run that fits what the
  system messages leave of the budget, less what precedes its first user message. So the first
  message after the system prompts is a user turn, the whole fits the budget whenever the system
  prompts do, and a user turn which fits together with all that follows it is sent with all of it.\<close>

theorem assembled_window_exact:
  "subseq (assemble ms n) ms
     \<and> filter is_system (assemble ms n) = filter is_system ms
     \<and> chat (assemble ms n) = dropWhile (\<lambda>m. \<not> is_user m) (newest_window (chat_budget ms n) (chat ms))
     \<and> (chat (assemble ms n) = [] \<or> is_user (hd (chat (assemble ms n))))
     \<and> total_tokens (assemble ms n) \<le> max n (total_tokens (filter is_system ms))
     \<and> (\<forall>u s. suffix (u # s) (chat ms) \<and> is_user u \<and> total_tokens (u # s) \<le> chat_budget ms n
          \<longrightarrow> suffix (u # s) (chat (assemble ms n)))"
proof (intro conjI allI impI)
  let ?w = "newest_window (chat_budget ms n) (chat ms)"
  note max = newest_window_maximal [of "chat_budget ms n" "chat ms"]
  show "subseq (assemble ms n) ms" by (simp add: assemble_def Let_def kept_subseq)
  show "filter is_system (assemble ms n) = filter is_system ms"
    and parts: "chat (assemble ms n) = dropWhile (\<lambda>m. \<not> is_user m) ?w" by (fact assemble_parts)+
  show "chat (assemble ms n) = [] \<or> is_user (hd (chat (assemble ms n)))"
    unfolding parts using hd_dropWhile by blast
  show "total_tokens (assemble ms n) \<le> max n (total_tokens (filter is_system ms))" by (rule assemble_within)
  fix u s
  assume "suffix (u # s) (chat ms) \<and> is_user u \<and> total_tokens (u # s) \<le> chat_budget ms n"
  then obtain p where p: "?w = p @ u # s" and u: "is_user u" using max by (auto simp: suffix_def)
  show "suffix (u # s) (chat (assemble ms n))"
    unfolding parts p using u by (cases "\<exists>x\<in>set p. is_user x") (auto simp: dropWhile_append suffix_def)
qed

definition sample_chat :: "message list" where
  "sample_chat = [system_message [] 0 ''be brief'', (system_message [] 0 ''a long question'')\<lparr>me_role := RoleUser\<rparr>,
     (system_message [] 0 ''fine'')\<lparr>me_role := RoleAssistant\<rparr>, (system_message [] 0 ''go on'')\<lparr>me_role := RoleUser\<rparr>]"

theorem assembled_window_exact_witness:
  "suffix (drop 3 sample_chat) (chat (assemble sample_chat 6))"
proof -
  have "chat sample_chat = [sample_chat ! 1, sample_chat ! 2, sample_chat ! 3]"
    by (simp add: sample_chat_def is_system_def system_message_def)
  then have "suffix [sample_chat ! 3] (chat sample_chat)" by (simp add: suffix_def)
  moreover have "is_user (sample_chat ! 3)" "total_tokens [sample_chat ! 3] \<le> chat_budget sample_chat 6"
    by (simp_all add: sample_chat_def is_user_def system_message_def chat_budget_def is_system_def message_tokens_def text_tokens_def utf8_len_def)
  moreover have "drop 3 sample_chat = [sample_chat ! 3]" by (simp add: sample_chat_def)
  ultimately show ?thesis using assembled_window_exact [of sample_chat 6] by metis
qed

text \<open>A conversation that fits and opens with a user turn is sent as it is.\<close>

lemma assemble_identity:
  assumes "total_tokens ms \<le> n" "chat ms = [] \<or> is_user (hd (chat ms))"
  shows "assemble ms n = ms"
proof -
  have "total_tokens (chat ms) \<le> chat_budget ms n" using assms(1) total_tokens_split [of ms] by (simp add: chat_budget_def)
  then have "newest_window (chat_budget ms n) (chat ms) = chat ms"
    using newest_window_maximal [of "chat_budget ms n" "chat ms"] suffix_order.antisym by blast
  then have "chat (assemble ms n) = chat ms" using assms(2) by (cases "chat ms") (auto simp: assemble_parts)
  then have "length (assemble ms n) = length ms"
    using sum_length_filter_compl [of is_system ms] sum_length_filter_compl [of is_system "assemble ms n"]
    by (simp add: assemble_parts)
  then show ?thesis using kept_subseq subseq_same_length by (metis assemble_def)
qed

section \<open>What compaction does\<close>

text \<open>An answer is accepted when it says something in fewer tokens than it replaces; the first accepted one counts.\<close>

definition accepted :: "nat \<Rightarrow> string + string \<Rightarrow> string option" where
  "accepted n r = (case r of Inl _ \<Rightarrow> None | Inr s \<Rightarrow> if trim s \<noteq> [] \<and> estimate_tokens s < n then Some s else None)"

lemma call_with_retry_first: "call_with_retry llm left k prompt n = find_map (\<lambda>j. accepted n (llm j prompt)) [k..<k + left]"
proof (induction left arbitrary: k)
  case (Suc left)
  have "[k..<k + Suc left] = k # [k + 1..<k + 1 + left]" by (simp add: upt_conv_Cons del: upt_Suc)
  then show ?case using Suc.IH [of "k + 1"] by (auto simp: accepted_def split: sum.splits)
qed simp

lemma accepted_SomeD: "accepted n r = Some s \<Longrightarrow> r = Inr s \<and> trim s \<noteq> [] \<and> estimate_tokens s < n"
  by (auto simp: accepted_def split: sum.splits if_splits)

lemma tail_start_SomeD:
  assumes "safe_compaction_tail_start ms retain = Some k"
  shows "k < length ms \<and> length ms - retain \<le> k \<and> is_user (ms ! k)"
  using find_Some_iff_first [OF assms [unfolded safe_compaction_tail_start_def]] by auto

lemma text_tokens_append_le: "text_tokens (a @ b) \<le> (utf8_len a + 3) div 4 + text_tokens b"
  by (simp add: text_tokens_def)

lemma compaction_line_tokens: "estimate_tokens (compaction_line m) \<le> 3 + message_tokens m"
proof -
  have "utf8_len (role_debug (me_role m) @ '': '') \<le> 11" by (cases "me_role m") (simp_all add: utf8_len_def)
  then have "text_tokens ((role_debug (me_role m) @ '': '') @ me_content m) \<le> 3 + text_tokens (me_content m)"
    using text_tokens_append_le [of "role_debug (me_role m) @ '': ''" "me_content m"] by linarith
  then show ?thesis by (simp add: estimate_tokens_def text_tokens_def compaction_line_def message_tokens_def)
qed

lemma source_tokens_lines: "source_tokens (map compaction_line ms) \<le> 3 * length ms + total_tokens ms"
proof (induction ms)
  case (Cons m ms)
  then show ?case using compaction_line_tokens [of m] by (simp add: source_tokens_def)
qed (simp add: source_tokens_def)

lemma summary_message_tokens:
  assumes "estimate_tokens s < n" "n \<le> u32_max"
  shows "message_tokens (system_message i t (summary_heading @ s)) \<le> 8 + n"
proof -
  have "utf8_len summary_heading = 34" by (simp add: summary_heading_def utf8_len_def)
  then have "text_tokens (summary_heading @ s) \<le> 9 + text_tokens s" using text_tokens_append_le [of summary_heading s] by simp
  moreover have "text_tokens s < n" using assms by (simp add: estimate_tokens_def text_tokens_def)
  ultimately show ?thesis by (simp add: message_tokens_def system_message_def)
qed

text \<open>The replaced messages, and the answers of the pool that may stand for them.\<close>

definition accepted_summary :: "backend \<Rightarrow> message list \<Rightarrow> string option" where
  "accepted_summary pool ms =
     (let middle = map compaction_line ms
      in find_map (\<lambda>j. accepted (source_tokens middle) (pool_summarize pool j (build_summarize_prompt middle))) [0..<3])"

lemma compact_async_summary:
  "middle \<noteq> [] \<Longrightarrow> cr_summary (compact_async_with_retain (Some f) middle 0)
     = (case find_map (\<lambda>j. accepted (source_tokens middle) (f j (build_summarize_prompt middle))) [0..<3] of Some s \<Rightarrow> s | None \<Rightarrow> [])"
  by (simp add: compact_async_with_retain_def Let_def summarize_all_def call_with_retry_first compaction_max_retries_def del: upt.simps upt_rec_numeral)

lemma trim_Nil [simp]: "trim [] = []"
  by (simp add: trim_def trim_start_def trim_end_def)

text \<open>
  Compaction happens exactly when the conversation is over the budget and longer than eight messages,
  a provider pool exists, a user turn lies among the last six messages and one of three answers of
  the pool is accepted. Otherwise the history is unchanged.
\<close>

theorem compaction_exact:
  "maybe_compact pool i t ms =
     (if default_budget_tokens < total_tokens ms \<and> 8 < length ms
      then (case (pool, safe_compaction_tail_start ms compaction_retain) of
              (Some p, Some k) \<Rightarrow>
                (case accepted_summary p (drop 1 (take k ms)) of
                   Some summary \<Rightarrow> hd ms # system_message i t (summary_heading @ summary) # drop k ms
                 | None \<Rightarrow> ms)
            | _ \<Rightarrow> ms)
      else ms)"
proof (cases "default_budget_tokens < total_tokens ms \<and> 8 < length ms \<and> pool \<noteq> None \<and> safe_compaction_tail_start ms compaction_retain \<noteq> None")
  case True
  then obtain p k where p: "pool = Some p" and k: "safe_compaction_tail_start ms compaction_retain = Some k" by auto
  have "1 < k" using tail_start_SomeD [OF k] True unfolding compaction_retain_def by linarith
  then have ne: "drop 1 (take k ms) \<noteq> []" using tail_start_SomeD [OF k] by simp
  have hd: "take 1 ms = [hd ms]" using True by (cases ms) auto
  let ?s = "accepted_summary p (drop 1 (take k ms))"
  have s: "cr_summary (compact_async_with_retain (Some (pool_summarize p)) (map compaction_line (drop 1 (take k ms))) 0)
      = (case ?s of Some s \<Rightarrow> s | None \<Rightarrow> [])"
    using ne by (simp add: compact_async_summary accepted_summary_def Let_def del: upt.simps upt_rec_numeral drop_take)
  have nt: "trim x \<noteq> []" if "?s = Some x" for x
    using that by (auto simp: accepted_summary_def Let_def dest!: find_map_Some_in accepted_SomeD)
  show ?thesis using True p k ne hd s nt
    by (cases ?s) (simp_all add: maybe_compact_def compaction_retain_def Let_def)
qed (auto simp: maybe_compact_def compaction_retain_def split: option.splits)

text \<open>C34. Compaction loses nothing silently. When it changes the history, the first message stays, the
  conversation from a user turn among the last six messages on stays, and what lies between is
  replaced by one system message with an answer of the model, not blank, in fewer tokens than the
  lines it stands for. The check that a summary shrinks its source counts the role's name on every
  line and not the heading: the history may still grow, by less than nine tokens and three for each
  replaced message. If it then fits the budget it is sent to the model as it is.\<close>

theorem compaction_sound:
  assumes "maybe_compact (Some p) i t ms \<noteq> ms" "3 * length ms + total_tokens ms \<le> u32_max" "is_system (hd ms)"
  shows "\<exists>mid tail summary. ms = hd ms # mid @ tail \<and> mid \<noteq> [] \<and> tail \<noteq> [] \<and> is_user (hd tail) \<and> length tail \<le> 6
     \<and> maybe_compact (Some p) i t ms = hd ms # system_message i t (summary_heading @ summary) # tail
     \<and> accepted_summary p mid = Some summary \<and> trim summary \<noteq> []
     \<and> estimate_tokens summary < source_tokens (map compaction_line mid)
     \<and> total_tokens (maybe_compact (Some p) i t ms) \<le> total_tokens ms + 8 + 3 * length mid
     \<and> (total_tokens (maybe_compact (Some p) i t ms) \<le> default_budget_tokens
          \<longrightarrow> assemble (maybe_compact (Some p) i t ms) default_budget_tokens = maybe_compact (Some p) i t ms)"
proof -
  from assms(1) obtain k s where len: "8 < length ms" and k: "safe_compaction_tail_start ms compaction_retain = Some k"
    and s: "accepted_summary p (drop 1 (take k ms)) = Some s"
    and eq: "maybe_compact (Some p) i t ms = hd ms # system_message i t (summary_heading @ s) # drop k ms"
    by (auto simp: compaction_exact split: if_splits option.splits)
  let ?mid = "drop 1 (take k ms)" and ?m = "system_message i t (summary_heading @ s)"
  have kk: "k < length ms" "length ms - 6 \<le> k" "is_user (ms ! k)"
    using tail_start_SomeD [OF k] unfolding compaction_retain_def by auto
  have "1 < k" using kk len by linarith
  then have ms: "ms = hd ms # ?mid @ drop k ms" using kk(1)
    by (metis append_Cons append_take_drop_id drop0 drop_Suc hd_take length_0_conv length_greater_0_conv list.collapse One_nat_def take_eq_Nil less_trans zero_less_one not_less_zero)
  then have tot: "total_tokens ms = message_tokens (hd ms) + total_tokens ?mid + total_tokens (drop k ms)"
    by (metis total_tokens_append total_tokens_simps(2) add.assoc)
  have acc: "estimate_tokens s < source_tokens (map compaction_line ?mid)" "trim s \<noteq> []"
    using s by (auto simp: accepted_summary_def Let_def dest!: find_map_Some_in accepted_SomeD)
  moreover have "length ?mid \<le> length ms" by simp
  ultimately have "message_tokens ?m \<le> 8 + (3 * length ?mid + total_tokens ?mid)"
    using source_tokens_lines [of ?mid] assms(2) tot by (intro summary_message_tokens) linarith+
  then have "total_tokens (maybe_compact (Some p) i t ms) \<le> total_tokens ms + 8 + 3 * length ?mid"
    using tot eq by simp
  moreover have tail: "is_user (hd (drop k ms))" "drop k ms \<noteq> []" "length (drop k ms) \<le> 6" using kk by (simp_all add: hd_drop_conv_nth)
  moreover have "?mid \<noteq> []" using \<open>1 < k\<close> kk(1) by simp
  moreover have "chat (hd ms # ?m # drop k ms) = chat (drop k ms)" using assms(3) by (simp add: is_system_def system_message_def)
  moreover have "chat (drop k ms) = [] \<or> is_user (hd (chat (drop k ms)))"
    using tail(1,2) by (cases "drop k ms") (auto simp: is_user_def is_system_def)
  ultimately show ?thesis using ms eq s acc assemble_identity [of "hd ms # ?m # drop k ms"] by metis
qed

text \<open>A conversation of which the model sees every message, and an answer that makes it longer.\<close>

definition plain_message :: "role \<Rightarrow> string \<Rightarrow> message" where
  "plain_message r c = \<lparr>me_id = [], me_role = r, me_content = c, me_tool_call_id = None, me_tool_calls = [], me_timestamp = 0, me_metadata = JNull\<rparr>"

definition long_text :: string where
  "long_text = replicate 400000 (CHR ''a'')"

definition long_history :: "message list" where
  "long_history = [plain_message RoleSystem [], plain_message RoleUser [], plain_message RoleAssistant [],
     plain_message RoleUser long_text, plain_message RoleAssistant [], plain_message RoleAssistant [],
     plain_message RoleAssistant [], plain_message RoleAssistant [], plain_message RoleAssistant []]"

definition brief_backend :: backend where
  "brief_backend n prompt = Inr ''brief talk.''"

lemma utf8_len_replicate: "utf8_len (replicate n (CHR ''a'')) = n"
  by (induction n) (simp_all add: utf8_len_def)

lemma long_history_facts:
  "length long_history = 9" "total_tokens long_history = 100000" "is_system (hd long_history)"
  "safe_compaction_tail_start long_history compaction_retain = Some 3"
  "accepted_summary brief_backend (drop 1 (take 3 long_history)) = Some ''brief talk.''"
proof -
  have "utf8_len long_text = 400000" by (simp add: long_text_def utf8_len_replicate)
  then show "total_tokens long_history = 100000"
    by (simp add: long_history_def plain_message_def message_tokens_def text_tokens_def utf8_len_def [of "[]"])
  show "length long_history = 9" "is_system (hd long_history)" by (simp_all add: long_history_def is_system_def plain_message_def)
  have "[length long_history - 6..<length long_history] = [3, 4, 5, 6, 7, 8]" by (simp add: long_history_def upt_rec)
  then show "safe_compaction_tail_start long_history compaction_retain = Some 3"
    by (simp add: safe_compaction_tail_start_def compaction_retain_def) (simp add: long_history_def is_user_def plain_message_def)
  have "accepted 5 (Inr ''brief talk.'') = Some ''brief talk.''"
    by (simp add: accepted_def trim_def trim_start_def trim_end_def is_ws_def estimate_tokens_def u32_max_def utf8_len_def)
  moreover have "trim ''brief talk.'' = ''brief talk.''" by (simp add: trim_def trim_start_def trim_end_def is_ws_def)
  moreover have "source_tokens (map compaction_line (drop 1 (take 3 long_history))) = 5"
    by (simp add: long_history_def source_tokens_def compaction_line_def plain_message_def estimate_tokens_def u32_max_def utf8_len_def)
  ultimately show "accepted_summary brief_backend (drop 1 (take 3 long_history)) = Some ''brief talk.''"
    by (simp add: accepted_summary_def Let_def pool_summarize_def brief_backend_def upt_rec)
qed

lemma long_history_compacted:
  "maybe_compact (Some brief_backend) i t long_history
     = hd long_history # system_message i t (summary_heading @ ''brief talk.'') # drop 3 long_history"
  using long_history_facts by (simp add: compaction_exact default_budget_tokens_def del: drop_take)

theorem compaction_sound_witness:
  "\<exists>mid tail summary. long_history = hd long_history # mid @ tail \<and> mid \<noteq> [] \<and> is_user (hd tail)
     \<and> maybe_compact (Some brief_backend) ''s'' 0 long_history
         = hd long_history # system_message ''s'' 0 (summary_heading @ summary) # tail"
proof -
  have "maybe_compact (Some brief_backend) ''s'' 0 long_history \<noteq> long_history"
  proof
    assume "maybe_compact (Some brief_backend) ''s'' 0 long_history = long_history"
    then have "length (hd long_history # system_message ''s'' 0 (summary_heading @ ''brief talk.'') # drop 3 long_history) = 9"
      using long_history_compacted long_history_facts(1) by metis
    then show False by (simp add: long_history_facts(1))
  qed
  then show ?thesis using compaction_sound [of brief_backend "''s''" 0 long_history] long_history_facts(1-3)
    by (simp add: u32_max_def) blast
qed

text \<open>The history grows, although the summary passed the check.\<close>

theorem compaction_may_grow:
  "total_tokens long_history < total_tokens (maybe_compact (Some brief_backend) i t long_history)"
proof -
  have "total_tokens (drop 3 long_history) = 100000"
    using long_history_facts(2) by (simp add: long_history_def plain_message_def message_tokens_def text_tokens_def utf8_len_def)
  then show ?thesis
    by (simp add: long_history_compacted long_history_facts message_tokens_def system_message_def text_tokens_def summary_heading_def utf8_len_def)
qed

section \<open>What the trimming of tool results does\<close>

lemma nat_str_length: "0 < k \<Longrightarrow> n < 10 ^ k \<Longrightarrow> length (nat_str n) \<le> k"
proof (induction k arbitrary: n)
  case (Suc k)
  show ?case
  proof (cases "n < 10")
    case True
    then show ?thesis by (subst nat_str.simps) simp
  next
    case False
    then have "k \<noteq> 0" using Suc.prems(2) by (cases k) auto
    moreover have "n div 10 < 10 ^ k" using Suc.prems(2) by (simp add: less_mult_imp_div_less mult.commute)
    ultimately have "length (nat_str (n div 10)) \<le> k" using Suc.IH by blast
    then show ?thesis using False by (subst nat_str.simps) simp
  qed
qed simp

lemma excerpt_length:
  assumes "2 * n \<le> length s" "length s < 10 ^ 18"
  shows "length (excerpt_around n marker s) \<le> 2 * n + 25 + length marker"
proof -
  have "length s - n * 2 < 10 ^ 18" using assms(2) by linarith
  then have "length (nat_str (length s - n * 2)) \<le> 18" by (intro nat_str_length) simp_all
  then show ?thesis using assms(1) by (simp add: excerpt_around_def)
qed

lemma excerpt_ends:
  assumes "n \<le> length s"
  shows "take n (excerpt_around n marker s) = take n s"
    and "drop (length (excerpt_around n marker s) - n) (excerpt_around n marker s) = drop (length s - n) s"
proof -
  obtain x where x: "excerpt_around n marker s = (take n s @ x) @ drop (length s - n) s"
    by (simp add: excerpt_around_def)
  have "length (excerpt_around n marker s) - n = length (take n s @ x)" using assms by (simp add: x)
  then show "drop (length (excerpt_around n marker s) - n) (excerpt_around n marker s) = drop (length s - n) s"
    unfolding x by (simp only: append_eq_conv_conj) simp
  show "take n (excerpt_around n marker s) = take n s" using assms by (simp add: x)
qed

lemma soft_trim_short: "length s < 10 ^ 18 \<Longrightarrow> length (soft_trim s) \<le> soft_trim_keep_chars * 2 + 80"
  using excerpt_length [of 500 s "'' chars trimmed to fit context; oldest output first ...]''"]
  by (simp add: soft_trim_def soft_trim_keep_chars_def)

lemma soft_trim_idem: "length s < 10 ^ 18 \<Longrightarrow> soft_trim (soft_trim s) = soft_trim s"
  using soft_trim_short [of s] by (simp add: soft_trim_def [of "soft_trim s"])

lemma aged_idem: "length s < 10 ^ 18 \<Longrightarrow> aged rank (aged rank s) = aged rank s"
  by (simp add: aged_def soft_trim_idem)

lemma age_newest_first_idem:
  "\<forall>m\<in>set ms. length (me_content m) < 10 ^ 18 \<Longrightarrow> age_newest_first r (age_newest_first r ms) = age_newest_first r ms"
  by (induction r ms rule: age_newest_first.induct) (auto simp: aged_idem)

text \<open>The tool results of a history, newest first.\<close>

definition tool_results :: "message list \<Rightarrow> message list" where
  "tool_results ms = filter (\<lambda>m. me_role m = RoleTool) (rev ms)"

lemma age_newest_first_results:
  "k < length (filter (\<lambda>m. me_role m = RoleTool) ms) \<Longrightarrow>
     filter (\<lambda>m. me_role m = RoleTool) (age_newest_first r ms) ! k
       = (let m = filter (\<lambda>m. me_role m = RoleTool) ms ! k in m\<lparr>me_content := aged (r + k) (me_content m)\<rparr>)"
proof (induction r ms arbitrary: k rule: age_newest_first.induct)
  case (2 rank m ms)
  then show ?case by (cases k) (auto simp: Let_def)
qed simp

lemma age_newest_first_others:
  "filter (\<lambda>m. me_role m \<noteq> RoleTool) (age_newest_first r ms) = filter (\<lambda>m. me_role m \<noteq> RoleTool) ms"
  "map (\<lambda>m. m\<lparr>me_content := []\<rparr>) (age_newest_first r ms) = map (\<lambda>m. m\<lparr>me_content := []\<rparr>) ms"
  by (induction r ms rule: age_newest_first.induct) auto

text \<open>C35. Trimming by age: only the contents of tool results change. Of the tool results, newest first,
  the first three stay, the fourth to the tenth become a text of at most 1080 characters and every
  older one the placeholder. The trimming may run before every call of the model, because trimming a
  trimmed history changes nothing.\<close>

theorem age_trimming_exact:
  assumes "\<forall>m\<in>set ms. length (me_content m) < 10 ^ 18"
  shows "map (\<lambda>m. m\<lparr>me_content := []\<rparr>) (prune_tool_results_by_age ms) = map (\<lambda>m. m\<lparr>me_content := []\<rparr>) ms
     \<and> filter (\<lambda>m. me_role m \<noteq> RoleTool) (prune_tool_results_by_age ms) = filter (\<lambda>m. me_role m \<noteq> RoleTool) ms
     \<and> (\<forall>k < length (tool_results ms).
          me_content (tool_results (prune_tool_results_by_age ms) ! k)
            = (if k < 3 then me_content (tool_results ms ! k)
               else if k < 10 then soft_trim (me_content (tool_results ms ! k)) else hard_clear_placeholder)
          \<and> (3 \<le> k \<longrightarrow> length (me_content (tool_results (prune_tool_results_by_age ms) ! k)) \<le> 1080))
     \<and> prune_tool_results_by_age (prune_tool_results_by_age ms) = prune_tool_results_by_age ms"
proof (intro conjI allI impI)
  show "map (\<lambda>m. m\<lparr>me_content := []\<rparr>) (prune_tool_results_by_age ms) = map (\<lambda>m. m\<lparr>me_content := []\<rparr>) ms"
    using age_newest_first_others(2) [of 0 "rev ms"] by (simp add: prune_tool_results_by_age_def rev_map [symmetric])
  show "filter (\<lambda>m. me_role m \<noteq> RoleTool) (prune_tool_results_by_age ms) = filter (\<lambda>m. me_role m \<noteq> RoleTool) ms"
    using age_newest_first_others(1) [of 0 "rev ms"] by (simp add: prune_tool_results_by_age_def rev_filter [symmetric])
  show "prune_tool_results_by_age (prune_tool_results_by_age ms) = prune_tool_results_by_age ms"
    using age_newest_first_idem [of "rev ms" 0] assms by (simp add: prune_tool_results_by_age_def)
  fix k
  assume k: "k < length (tool_results ms)"
  let ?c = "me_content (tool_results ms ! k)"
  have "me_content (tool_results (prune_tool_results_by_age ms) ! k) = aged k ?c"
    using age_newest_first_results [of k "rev ms" 0] k by (simp add: prune_tool_results_by_age_def tool_results_def Let_def)
  then show eq: "me_content (tool_results (prune_tool_results_by_age ms) ! k)
      = (if k < 3 then ?c else if k < 10 then soft_trim ?c else hard_clear_placeholder)"
    by (simp add: aged_def keep_recent_tool_results_def hard_clear_tool_results_after_def)
  have "tool_results ms ! k \<in> set ms" using nth_mem [OF k] by (auto simp: tool_results_def)
  then have "length (soft_trim ?c) \<le> 1080" using soft_trim_short [of ?c] assms by (simp add: soft_trim_keep_chars_def)
  then show "length (me_content (tool_results (prune_tool_results_by_age ms) ! k)) \<le> 1080" if "3 \<le> k"
    using that by (simp add: eq hard_clear_placeholder_def)
qed

theorem age_trimming_exact_witness:
  "me_content (tool_results (prune_tool_results_by_age (replicate 12 (plain_message RoleTool ''ok''))) ! 11) = hard_clear_placeholder"
proof -
  have "tool_results (replicate 12 (plain_message RoleTool ''ok'')) = replicate 12 (plain_message RoleTool ''ok'')"
    by (simp add: tool_results_def plain_message_def)
  then show ?thesis using age_trimming_exact [of "replicate 12 (plain_message RoleTool ''ok'')"] by (simp add: plain_message_def)
qed

text \<open>An oversized fresh result keeps its head and its tail, within the limit.\<close>

theorem capped_result_bounded:
  assumes "cap_fresh_tool_result s = Some c" "length s < 10 ^ 18"
  shows "length c \<le> 8134 \<and> take 4000 c = take 4000 s \<and> drop (length c - 4000) c = drop (length s - 4000) s"
proof -
  from assms(1) have len: "12000 < length s"
    and c: "c = excerpt_around 4000 '' chars omitted: this tool produced a large result; only its head and tail are kept to fit context ...]'' s"
    by (auto simp: cap_fresh_tool_result_def max_fresh_tool_result_chars_def fresh_tool_result_keep_chars_def split: if_splits)
  have "length c \<le> 2 * 4000 + 25 + length '' chars omitted: this tool produced a large result; only its head and tail are kept to fit context ...]''"
    unfolding c using len assms(2) by (intro excerpt_length) simp_all
  then have "length c \<le> 8134" by simp
  then show ?thesis using excerpt_ends [of 4000 s] len unfolding c by simp
qed

end
