(* ===== verification/Spill_Store.thy ===== *)
theory Spill_Store
  imports Context_Window
begin

text \<open>
  The overflow store of \<^verbatim>\<open>crates/hf-spill/src/lib.rs\<close> and its use by the agent
  (\<^verbatim>\<open>bound_fresh_result\<close> of \<^verbatim>\<open>crates/hf-agent/src/lib.rs\<close>). The directory of the store is a tree of
  nodes; the hash function, the random identifiers, the clock and the failures of the file system are
  arguments. Permissions are not modelled.
\<close>

section \<open>Files\<close>

text \<open>The UTF-8 encoding of code points below 256.\<close>

definition str_bytes :: "string \<Rightarrow> nat list" where
  "str_bytes s = concat (map (\<lambda>c. let n = of_char c in if n < 128 then [n] else [192 + n div 64, 128 + n mod 64]) s)"

datatype fs_node = FsFile "nat list" int | FsDir "(string \<times> fs_node) list" | FsOther

type_synonym fs = "(string \<times> fs_node) list"

fun fs_lookup :: "fs \<Rightarrow> string list \<Rightarrow> fs_node option" where
  "fs_lookup fs [] = None"
| "fs_lookup fs [n] = map_of fs n"
| "fs_lookup fs (n # m # p) = (case map_of fs n of Some (FsDir es) \<Rightarrow> fs_lookup es (m # p) | _ \<Rightarrow> None)"

text \<open>\<^verbatim>\<open>fs::remove_file\<close>.\<close>

fun fs_remove :: "fs \<Rightarrow> string list \<Rightarrow> fs" where
  "fs_remove fs [] = fs"
| "fs_remove fs [n] = filter (\<lambda>(k, x). k \<noteq> n) fs"
| "fs_remove fs (n # m # p) =
     map (\<lambda>(k, x). (k, if k = n then (case x of FsDir es \<Rightarrow> FsDir (fs_remove es (m # p)) | _ \<Rightarrow> x) else x)) fs"

fun fs_put :: "string \<Rightarrow> fs_node \<Rightarrow> fs \<Rightarrow> fs" where
  "fs_put n x [] = [(n, x)]"
| "fs_put n x ((k, y) # fs) = (if k = n then (k, x) # fs else (k, y) # fs_put n x fs)"

text \<open>The failures of the calls of one operation.\<close>

record fs_faults =
  ff_create_dir :: bool
  ff_open :: bool
  ff_write :: "nat option"
  ff_unreadable :: "string list \<Rightarrow> bool"
  ff_remove :: "string list \<Rightarrow> bool"

section \<open>Eviction\<close>

record spill_entry =
  se_path :: "string list"
  se_bytes :: nat
  se_modified :: int

fun evict_until :: "nat \<Rightarrow> nat \<Rightarrow> string list \<Rightarrow> spill_entry list \<Rightarrow> string list list" where
  "evict_until held max_total_bytes keep [] = []"
| "evict_until held max_total_bytes keep (e # es) =
     (if held \<le> max_total_bytes then []
      else if se_path e = keep then evict_until held max_total_bytes keep es
      else se_path e # evict_until (held - se_bytes e) max_total_bytes keep es)"

definition evictions :: "spill_entry list \<Rightarrow> nat \<Rightarrow> string list \<Rightarrow> string list list" where
  "evictions entries max_total_bytes keep =
     (let held = sum_list (map se_bytes entries)
      in if held \<le> max_total_bytes then [] else evict_until held max_total_bytes keep (sort_key se_modified entries))"

fun collect_entries :: "fs_faults \<Rightarrow> string list \<Rightarrow> fs \<Rightarrow> spill_entry list"
and collect_node :: "fs_faults \<Rightarrow> string list \<Rightarrow> fs_node \<Rightarrow> spill_entry list" where
  "collect_entries ff p [] = []"
| "collect_entries ff p ((n, x) # fs) = collect_node ff (p @ [n]) x @ collect_entries ff p fs"
| "collect_node ff p (FsFile c m) = (if ff_unreadable ff p then [] else [\<lparr>se_path = p, se_bytes = length c, se_modified = m\<rparr>])"
| "collect_node ff p (FsDir es) = (if ff_unreadable ff p then [] else collect_entries ff p es)"
| "collect_node ff p FsOther = []"

definition prune_empty_dirs :: "fs_faults \<Rightarrow> fs \<Rightarrow> fs" where
  "prune_empty_dirs ff fs =
     (if ff_unreadable ff [] then fs
      else filter (\<lambda>(n, x). \<not> (x = FsDir [] \<and> \<not> ff_unreadable ff [n] \<and> \<not> ff_remove ff [n])) fs)"

record spill_store =
  sp_root :: string
  sp_max_total_bytes :: nat

definition default_max_total_bytes :: nat where
  "default_max_total_bytes = 256 * 1024 * 1024"

definition sweep :: "fs_faults \<Rightarrow> spill_store \<Rightarrow> string list \<Rightarrow> fs \<Rightarrow> fs" where
  "sweep ff st just_written fs =
     (let entries = (if ff_unreadable ff [] then [] else collect_entries ff [] fs);
          gone = filter (\<lambda>p. \<not> ff_remove ff p) (evictions entries (sp_max_total_bytes st) just_written)
      in prune_empty_dirs ff (foldl fs_remove fs gone))"

section \<open>Names and previews\<close>

text \<open>\<^verbatim>\<open>str::is_char_boundary\<close>, and slices at a boundary.\<close>

definition is_char_boundary :: "string \<Rightarrow> nat \<Rightarrow> bool" where
  "is_char_boundary s e \<longleftrightarrow> (\<exists>k\<in>set [0..<length s + 1]. utf8_len (take k s) = e)"

definition str_to :: "string \<Rightarrow> nat \<Rightarrow> string" where
  "str_to s e = take_bytes e s"

definition str_from :: "string \<Rightarrow> nat \<Rightarrow> string" where
  "str_from s e = drop (length (take_bytes e s)) s"

fun floor_boundary :: "string \<Rightarrow> nat \<Rightarrow> nat" where
  "floor_boundary s 0 = 0"
| "floor_boundary s (Suc e) = (if is_char_boundary s (Suc e) then Suc e else floor_boundary s e)"

function ceil_boundary :: "string \<Rightarrow> nat \<Rightarrow> nat" where
  "ceil_boundary s e = (if e < utf8_len s \<and> \<not> is_char_boundary s e then ceil_boundary s (e + 1) else e)"
  by auto
termination by (relation "measure (\<lambda>(s, e). utf8_len s - e)") auto

declare ceil_boundary.simps [simp del]

definition head_within :: "string \<Rightarrow> nat \<Rightarrow> string" where
  "head_within s n = (if utf8_len s \<le> n then s else str_to s (floor_boundary s n))"

definition tail_within :: "string \<Rightarrow> nat \<Rightarrow> string" where
  "tail_within s n = (if utf8_len s \<le> n then s else str_from s (ceil_boundary s (utf8_len s - n)))"

definition omission_notice :: "string \<Rightarrow> string \<Rightarrow> string" where
  "omission_notice content hint =
     [CHR 0x0A] @ ''[... '' @ nat_str (utf8_len content) @ '' bytes omitted; full output '' @ hint @ '' ...]'' @ [CHR 0x0A]"

definition preview_replacing :: "string \<Rightarrow> nat \<Rightarrow> string \<Rightarrow> string option" where
  "preview_replacing content max_bytes retrieval_hint =
     (if utf8_len content \<le> max_bytes then None
      else let notice = omission_notice content retrieval_hint
           in if max_bytes < utf8_len notice then Some (head_within content max_bytes)
              else let budget = max_bytes - utf8_len notice
                   in Some (head_within content (budget div 2) @ notice @ tail_within content (budget - budget div 2)))"

definition hex_char :: "nat \<Rightarrow> char" where
  "hex_char d = char_of (if d < 10 then 48 + d else 87 + d)"

definition artifact_digest :: "(nat list \<Rightarrow> nat list) \<Rightarrow> string \<Rightarrow> string" where
  "artifact_digest sha256 owner = concat (map (\<lambda>b. [hex_char (b div 16), hex_char (b mod 16)]) (take 8 (sha256 (str_bytes owner))))"

definition safe_char :: "char \<Rightarrow> char" where
  "safe_char c = (if is_ascii_alphanumeric c \<or> c = CHR ''.'' \<or> c = CHR ''-'' \<or> c = CHR ''_'' then c else CHR ''_'')"

definition trim_dots :: "string \<Rightarrow> string" where
  "trim_dots s = rev (dropWhile (\<lambda>c. c = CHR ''.'') (rev (dropWhile (\<lambda>c. c = CHR ''.'') s)))"

definition safe_name :: "string \<Rightarrow> string" where
  "safe_name suggested_name =
     (let cleaned = trim_dots (map safe_char suggested_name)
      in if cleaned = [] then ''artifact'' else head_within cleaned 64)"

section \<open>Saving\<close>

datatype spill_error = SpillIo

record spilled =
  sd_locator :: "string list"
  sd_bytes :: nat
  sd_retrieval_hint :: string

definition path_display :: "spill_store \<Rightarrow> string list \<Rightarrow> string" where
  "path_display st p = sp_root st @ concat (map (\<lambda>n. CHR ''/'' # n) p)"

text \<open>\<^verbatim>\<open>create_private_dir\<close> below the root: the directory's entries, when there is one or one can be made.\<close>

definition create_private_dir :: "fs_faults \<Rightarrow> string \<Rightarrow> fs \<Rightarrow> (spill_error, fs) result" where
  "create_private_dir ff n fs =
     (case map_of fs n of
        Some (FsDir es) \<Rightarrow> Inr es
      | Some _ \<Rightarrow> Inl SpillIo
      | None \<Rightarrow> if ff_create_dir ff then Inl SpillIo else Inr [])"

text \<open>\<^verbatim>\<open>write_private_new\<close>: a failed write may leave a part of the bytes.\<close>

definition write_private_new :: "fs_faults \<Rightarrow> string \<Rightarrow> nat list \<Rightarrow> int \<Rightarrow> fs \<Rightarrow> fs \<times> (spill_error, unit) result" where
  "write_private_new ff n bytes now es =
     (if ff_open ff \<or> map_of es n \<noteq> None then (es, Inl SpillIo)
      else (case ff_write ff of
              Some k \<Rightarrow> (fs_put n (FsFile (take k bytes) now) es, Inl SpillIo)
            | None \<Rightarrow> (fs_put n (FsFile bytes now) es, Inr ())))"

definition save_text ::
  "(nat list \<Rightarrow> nat list) \<Rightarrow> fs_faults \<Rightarrow> string \<Rightarrow> int \<Rightarrow> spill_store \<Rightarrow> string \<Rightarrow> string \<Rightarrow> string \<Rightarrow> fs \<Rightarrow> fs \<times> (spill_error, spilled) result" where
  "save_text sha256 ff uuid now st owner suggested_name content fs =
     (let dir = ''session-'' @ artifact_digest sha256 owner; name = uuid @ ''-'' @ safe_name suggested_name
      in (case create_private_dir ff dir fs of
            Inl e \<Rightarrow> (fs, Inl e)
          | Inr es \<Rightarrow>
              (case write_private_new ff name (str_bytes content) now es of
                 (es', Inl e) \<Rightarrow> (fs_put dir (FsDir es') fs, Inl e)
               | (es', Inr _) \<Rightarrow>
                   (sweep ff st [dir, name] (fs_put dir (FsDir es') fs),
                    Inr \<lparr>sd_locator = [dir, name], sd_bytes = utf8_len content, sd_retrieval_hint = ''at '' @ path_display st [dir, name]\<rparr>))))"

definition file_read_tool :: string where
  "file_read_tool = ''FileRead''"

definition bound_fresh_result ::
  "(nat list \<Rightarrow> nat list) \<Rightarrow> fs_faults \<Rightarrow> string \<Rightarrow> int \<Rightarrow> string \<Rightarrow> string \<Rightarrow> spill_store option \<Rightarrow> string \<Rightarrow> fs \<Rightarrow> fs \<times> string" where
  "bound_fresh_result sha256 ff uuid now tool res spill owner fs =
     (case cap_fresh_tool_result res of
        None \<Rightarrow> (fs, res)
      | Some capped \<Rightarrow>
          if tool = file_read_tool then (fs, capped)
          else (case spill of
                  None \<Rightarrow> (fs, capped)
                | Some st \<Rightarrow>
                    (case save_text sha256 ff uuid now st owner tool res fs of
                       (fs', Inr sp) \<Rightarrow>
                         (fs', case preview_replacing res max_fresh_tool_result_chars (sd_retrieval_hint sp) of
                                 Some r \<Rightarrow> r | None \<Rightarrow> capped)
                     | (fs', Inl _) \<Rightarrow> (fs', capped))))"

section \<open>Previews fit\<close>

lemma utf8_len_take_mono: "i \<le> j \<Longrightarrow> utf8_len (take i s) \<le> utf8_len (take j s)"
  by (metis append_take_drop_id le_add1 take_take min.absorb1 utf8_len_append)

lemma length_le_utf8_len: "length s \<le> utf8_len s"
  by (induction s) (auto simp: utf8_len_def)

lemma utf8_len_0 [simp]: "utf8_len s = 0 \<longleftrightarrow> s = []" "utf8_len [] = 0"
proof -
  show nil: "utf8_len [] = 0" by (simp add: utf8_len_def)
  show "utf8_len s = 0 \<longleftrightarrow> s = []"
    using length_le_utf8_len [of s] nil by (metis le_zero_eq length_0_conv)
qed

lemma longer_prefix: "prefix p w \<or> prefix w p \<Longrightarrow> utf8_len w \<le> utf8_len p \<Longrightarrow> prefix w p"
proof (elim disjE)
  assume "prefix p w" "utf8_len w \<le> utf8_len p"
  then obtain z where z: "w = p @ z" "utf8_len (p @ z) \<le> utf8_len p" by (auto simp: prefix_def)
  then have "utf8_len z = 0" by (simp only: utf8_len_append)
  then show "prefix w p" using z by simp
qed

lemma utf8_len_Cons: "utf8_len (c # s) = utf8_len [c] + utf8_len s"
  by (simp add: utf8_len_def)

lemma take_bytes_longest: "prefix p s \<Longrightarrow> utf8_len p \<le> n \<Longrightarrow> prefix p (take_bytes n s)"
proof (induction n s arbitrary: p rule: take_bytes.induct)
  case (2 n c cs)
  show ?case
  proof (cases p)
    case (Cons d q)
    then have "d = c" "prefix q cs" "utf8_len [c] + utf8_len q \<le> n" using "2.prems" utf8_len_Cons [of c q] by auto
    then show ?thesis using "2.IH" [of q] Cons by auto
  qed simp
qed simp

lemma take_bytes_is_prefix: "prefix (take_bytes n s) s"
  using take_bytes_prefix by (metis prefixI)

lemma prefix_boundary: "prefix p s \<Longrightarrow> is_char_boundary s (utf8_len p)"
  by (auto simp: is_char_boundary_def prefix_def intro!: bexI [where x = "length p"])

lemma boundary_prefix: "is_char_boundary s e \<Longrightarrow> \<exists>p. prefix p s \<and> utf8_len p = e"
  by (auto simp: is_char_boundary_def intro: take_is_prefix)

lemma take_bytes_at_boundary: "is_char_boundary s e \<Longrightarrow> utf8_len (take_bytes e s) = e"
proof -
  assume "is_char_boundary s e"
  then obtain p where "prefix p s" "utf8_len p = e" using boundary_prefix by blast
  then have "prefix p (take_bytes e s)" by (simp add: take_bytes_longest)
  then have "e \<le> utf8_len (take_bytes e s)" using \<open>utf8_len p = e\<close> by (auto simp: prefix_def)
  then show ?thesis using take_bytes_len [of e s] by simp
qed

lemma floor_boundary_greatest: "floor_boundary s n \<le> n \<and> (\<forall>e \<le> n. is_char_boundary s e \<longrightarrow> e \<le> floor_boundary s n)"
  by (induction n) (auto simp: le_Suc_eq)

text \<open>The longest prefix, and the longest suffix, of whole characters within the bound.\<close>

lemma head_within_longest:
  "prefix (head_within s n) s \<and> utf8_len (head_within s n) \<le> n \<and> (\<forall>p. prefix p s \<and> utf8_len p \<le> n \<longrightarrow> prefix p (head_within s n))"
proof (cases "utf8_len s \<le> n")
  case False
  let ?e = "floor_boundary s n"
  note e = floor_boundary_greatest [of s n]
  have "prefix p (take_bytes ?e s)" if "prefix p s" "utf8_len p \<le> n" for p
    using that e prefix_boundary [OF that(1)] by (intro take_bytes_longest) auto
  then show ?thesis using False e take_bytes_len [of ?e s] take_bytes_is_prefix by (auto simp: head_within_def str_to_def intro: order_trans)
qed (simp add: head_within_def)

lemma ceil_boundary_least:
  "e \<le> utf8_len s \<Longrightarrow> e \<le> ceil_boundary s e \<and> is_char_boundary s (ceil_boundary s e)
     \<and> (\<forall>b \<ge> e. is_char_boundary s b \<longrightarrow> ceil_boundary s e \<le> b)"
proof (induction s e rule: ceil_boundary.induct)
  case (1 s e)
  show ?case
  proof (cases "e < utf8_len s \<and> \<not> is_char_boundary s e")
    case True
    then have "e + 1 \<le> b" if "e \<le> b" "is_char_boundary s b" for b using that by (cases "b = e") auto
    then show ?thesis using "1.IH" True by (subst (1 2 3) ceil_boundary.simps) auto
  next
    case False
    then have "is_char_boundary s e" using "1.prems" prefix_boundary [of s s] by (cases "e = utf8_len s") auto
    then show ?thesis using False by (subst (1 2 3) ceil_boundary.simps) auto
  qed
qed

lemma suffix_from_boundary:
  assumes "is_char_boundary s e"
  shows "s = take_bytes e s @ str_from s e" "utf8_len (str_from s e) = utf8_len s - e"
proof -
  obtain z where z: "s = take_bytes e s @ z" using take_bytes_prefix by blast
  then have "str_from s e = z" unfolding str_from_def by (metis append_eq_conv_conj)
  then show "s = take_bytes e s @ str_from s e" using z by simp
  then show "utf8_len (str_from s e) = utf8_len s - e"
    using take_bytes_at_boundary [OF assms] by (metis add_diff_cancel_left' utf8_len_append)
qed

lemma tail_within_longest:
  "suffix (tail_within s n) s \<and> utf8_len (tail_within s n) \<le> n \<and> (\<forall>t. suffix t s \<and> utf8_len t \<le> n \<longrightarrow> suffix t (tail_within s n))"
proof (cases "utf8_len s \<le> n")
  case False
  let ?b = "utf8_len s - n" and ?e = "ceil_boundary s (utf8_len s - n)"
  have e: "?b \<le> ?e" "is_char_boundary s ?e" "\<And>b. b \<ge> ?b \<Longrightarrow> is_char_boundary s b \<Longrightarrow> ?e \<le> b"
    using ceil_boundary_least [of ?b s] by auto
  note parts = suffix_from_boundary [OF e(2)]
  have "suffix t (str_from s ?e)" if t: "suffix t s" "utf8_len t \<le> n" for t
  proof -
    obtain p where p: "s = p @ t" using t(1) by (auto simp: suffix_def)
    have "utf8_len s = utf8_len p + utf8_len t" unfolding p by simp
    then have "?e \<le> utf8_len p" using t(2) prefix_boundary [of p s] p by (intro e(3)) auto
    moreover have "utf8_len (take_bytes ?e s) = ?e" using e(2) by (rule take_bytes_at_boundary)
    moreover have "prefix p (take_bytes ?e s) \<or> prefix (take_bytes ?e s) p"
      using prefix_same_cases [OF _ take_bytes_is_prefix, of p s ?e] prefixI [OF p] by blast
    ultimately have "prefix (take_bytes ?e s) p" using longer_prefix [of p "take_bytes ?e s"] by presburger
    then obtain q where "p = take_bytes ?e s @ q" by (auto simp: prefix_def)
    then have "str_from s ?e = q @ t" using p parts(1) by (metis append.assoc same_append_eq)
    then show ?thesis by (simp add: suffix_def)
  qed
  moreover have "suffix (str_from s ?e) s" using parts(1) by (metis suffixI)
  ultimately show ?thesis using False parts(2) e(1) by (simp add: tail_within_def)
qed (simp add: tail_within_def)

text \<open>The replacement: within the limit, and with room for the notice a head and a tail of the text around it.\<close>

lemma preview_within:
  assumes "preview_replacing content n hint = Some r"
  shows "utf8_len r \<le> n"
proof -
  note h = head_within_longest and t = tail_within_longest
  let ?notice = "omission_notice content hint"
  let ?b = "n - utf8_len ?notice"
  show ?thesis
  proof (cases "n < utf8_len ?notice")
    case True
    then show ?thesis using assms h [of content n] by (auto simp: preview_replacing_def Let_def split: if_splits)
  next
    case False
    then have "r = head_within content (?b div 2) @ ?notice @ tail_within content (?b - ?b div 2)"
      using assms by (auto simp: preview_replacing_def Let_def split: if_splits)
    moreover have "utf8_len (head_within content (?b div 2)) \<le> ?b div 2" "utf8_len (tail_within content (?b - ?b div 2)) \<le> ?b - ?b div 2"
      using h t by blast+
    moreover have "?b div 2 \<le> ?b" by simp
    ultimately have "utf8_len r \<le> ?b div 2 + utf8_len ?notice + (?b - ?b div 2)" by (simp only: utf8_len_append)
    then show ?thesis using False \<open>?b div 2 \<le> ?b\<close> by linarith
  qed
qed

lemma bound_fresh_result_within:
  assumes "length res < 10 ^ 18"
  shows "length (snd (bound_fresh_result sha ff uuid now tool res spill owner fs)) \<le> max_fresh_tool_result_chars"
proof (cases "cap_fresh_tool_result res")
  case None
  then show ?thesis by (auto simp: bound_fresh_result_def cap_fresh_tool_result_def split: if_splits)
next
  case (Some c)
  have c: "length c \<le> max_fresh_tool_result_chars"
    using capped_result_bounded [OF Some assms] by (simp add: max_fresh_tool_result_chars_def)
  have "length r \<le> max_fresh_tool_result_chars" if "preview_replacing res max_fresh_tool_result_chars h = Some r" for r h
    using preview_within [OF that] length_le_utf8_len [of r] by simp
  then show ?thesis using Some c by (auto simp: bound_fresh_result_def split: option.splits sum.splits prod.splits)
qed

section \<open>Eviction is by age and stops at the budget\<close>

definition evictable :: "spill_entry list \<Rightarrow> string list \<Rightarrow> spill_entry list" where
  "evictable entries keep = filter (\<lambda>e. se_path e \<noteq> keep) (sort_key se_modified entries)"

definition held_bytes :: "spill_entry list \<Rightarrow> nat" where
  "held_bytes es = sum_list (map se_bytes es)"

lemma evict_until_prefix:
  "\<exists>j. evict_until held n keep es = map se_path (take j (filter (\<lambda>e. se_path e \<noteq> keep) es))
     \<and> j \<le> length (filter (\<lambda>e. se_path e \<noteq> keep) es)
     \<and> (held - held_bytes (take j (filter (\<lambda>e. se_path e \<noteq> keep) es)) \<le> n \<or> j = length (filter (\<lambda>e. se_path e \<noteq> keep) es))
     \<and> (\<forall>i<j. n < held - held_bytes (take i (filter (\<lambda>e. se_path e \<noteq> keep) es)))"
proof (induction held n keep es rule: evict_until.induct)
  case (2 held n keep e es)
  consider "held \<le> n" | "n < held" "se_path e = keep" | "n < held" "se_path e \<noteq> keep" by linarith
  then show ?case
  proof cases
    case 1
    then show ?thesis by (intro exI [of _ 0]) (simp add: held_bytes_def)
  next
    case 2
    then show ?thesis using "2.IH"(1) by simp
  next
    case 3
    then obtain j where j: "evict_until (held - se_bytes e) n keep es = map se_path (take j (filter (\<lambda>e. se_path e \<noteq> keep) es))"
      "j \<le> length (filter (\<lambda>e. se_path e \<noteq> keep) es)"
      "held - se_bytes e - held_bytes (take j (filter (\<lambda>e. se_path e \<noteq> keep) es)) \<le> n \<or> j = length (filter (\<lambda>e. se_path e \<noteq> keep) es)"
      "\<And>i. i < j \<Longrightarrow> n < held - se_bytes e - held_bytes (take i (filter (\<lambda>e. se_path e \<noteq> keep) es))"
      using "2.IH"(2) by (auto simp: not_le)
    have "n < held - held_bytes (take i (filter (\<lambda>e. se_path e \<noteq> keep) (e # es)))" if "i < Suc j" for i
      using that j(4) [of "i - 1"] 3 by (cases i) (auto simp: held_bytes_def)
    then show ?thesis using 3 j(1-3) by (intro exI [of _ "Suc j"]) (auto simp: held_bytes_def)
  qed
qed simp

theorem evictions_exact:
  "\<exists>j \<le> length (evictable entries keep).
     evictions entries n keep = map se_path (take j (evictable entries keep))
     \<and> (held_bytes entries - held_bytes (take j (evictable entries keep)) \<le> n \<or> j = length (evictable entries keep))
     \<and> (\<forall>i<j. n < held_bytes entries - held_bytes (take i (evictable entries keep)))
     \<and> keep \<notin> set (evictions entries n keep)"
proof (cases "held_bytes entries \<le> n")
  case True
  then show ?thesis by (intro exI [of _ 0]) (simp add: evictions_def held_bytes_def Let_def)
next
  case False
  then have ev: "evictions entries n keep = evict_until (held_bytes entries) n keep (sort_key se_modified entries)"
    by (simp add: evictions_def held_bytes_def Let_def)
  obtain j where j: "evictions entries n keep = map se_path (take j (evictable entries keep))" "j \<le> length (evictable entries keep)"
    "held_bytes entries - held_bytes (take j (evictable entries keep)) \<le> n \<or> j = length (evictable entries keep)"
    "\<forall>i<j. n < held_bytes entries - held_bytes (take i (evictable entries keep))"
    using evict_until_prefix [of "held_bytes entries" n keep "sort_key se_modified entries"]
    unfolding ev [symmetric] evictable_def [symmetric] by blast
  moreover have "keep \<notin> set (evictions entries n keep)" unfolding j(1) by (auto simp: evictable_def dest!: in_set_takeD)
  ultimately show ?thesis by blast
qed

section \<open>Names stay inside the store\<close>

lemma trim_dots_edges: "trim_dots s \<noteq> [] \<Longrightarrow> hd (trim_dots s) \<noteq> CHR ''.''"
proof -
  let ?d = "\<lambda>c. c = CHR ''.''"
  let ?u = "dropWhile ?d s"
  obtain z where z: "?u = trim_dots s @ z" unfolding trim_dots_def by (metis rev_append rev_rev_ident takeWhile_dropWhile_id)
  assume ne: "trim_dots s \<noteq> []"
  then have "hd (trim_dots s) = hd ?u" "?u \<noteq> []" using z by auto
  then show ?thesis using hd_dropWhile [of ?d s] by auto
qed

lemma trim_dots_chars: "set (trim_dots s) \<subseteq> set s"
  by (auto simp: trim_dots_def dest!: set_dropWhileD)

text \<open>A safe name is one path component of 1 to 64 bytes: no separator, not a parent reference.\<close>

theorem safe_name_component:
  "safe_name s \<noteq> [] \<and> utf8_len (safe_name s) \<le> 64 \<and> hd (safe_name s) \<noteq> CHR ''.''
     \<and> (\<forall>c\<in>set (safe_name s). is_ascii_alphanumeric c \<or> c \<in> {CHR ''.'', CHR ''-'', CHR ''_''})"
proof (cases "trim_dots (map safe_char s) = []")
  case True
  then show ?thesis by (simp add: safe_name_def utf8_len_def is_ascii_alphanumeric_def char_code_def)
next
  case False
  let ?c = "trim_dots (map safe_char s)"
  have chars: "is_ascii_alphanumeric c \<or> c \<in> {CHR ''.'', CHR ''-'', CHR ''_''}" if "c \<in> set ?c" for c
    using that trim_dots_chars [of "map safe_char s"] by (auto simp: safe_char_def)
  note h = head_within_longest [of ?c 64]
  have "utf8_len [hd ?c] \<le> 64" by (simp add: utf8_len_def)
  moreover have "prefix [hd ?c] ?c" using False by (cases ?c) auto
  ultimately have "prefix [hd ?c] (head_within ?c 64)" using h by blast
  then have "head_within ?c 64 \<noteq> []" "hd (head_within ?c 64) = hd ?c" by (auto simp: prefix_def)
  moreover have "set (head_within ?c 64) \<subseteq> set ?c" using h set_mono_prefix by blast
  ultimately show ?thesis using False h trim_dots_edges [OF False] chars by (auto simp: safe_name_def Let_def)
qed

section \<open>What a save leaves behind\<close>

fun fs_ok :: "fs \<Rightarrow> bool" and node_ok :: "fs_node \<Rightarrow> bool" where
  "fs_ok [] = True"
| "fs_ok ((n, x) # fs) = (n \<notin> fst ` set fs \<and> node_ok x \<and> fs_ok fs)"
| "node_ok (FsDir es) = fs_ok es"
| "node_ok _ = True"

definition fs_file :: "fs \<Rightarrow> string list \<Rightarrow> (nat list \<times> int) option" where
  "fs_file fs p = (case fs_lookup fs p of Some (FsFile c m) \<Rightarrow> Some (c, m) | _ \<Rightarrow> None)"

definition fs_is_dir :: "fs \<Rightarrow> string list \<Rightarrow> bool" where
  "fs_is_dir fs p = (case fs_lookup fs p of Some (FsDir _) \<Rightarrow> True | _ \<Rightarrow> False)"

lemma map_of_update_node:
  "map_of (map (\<lambda>(k, x). (k, if k = n then f x else x)) fs) q = map_option (\<lambda>x. if q = n then f x else x) (map_of fs q)"
  by (induction fs) auto

lemma map_of_without: "map_of (filter (\<lambda>(k, x). k \<noteq> n) fs) q = (if q = n then None else map_of fs q)"
  by (induction fs) auto

lemma fs_remove_view:
  assumes "\<not> fs_is_dir fs p" "p \<noteq> []"
  shows "fs_file (fs_remove fs p) q = (if q = p then None else fs_file fs q) \<and> fs_is_dir (fs_remove fs p) q = fs_is_dir fs q"
  using assms
proof (induction fs p arbitrary: q rule: fs_remove.induct)
  case (2 fs n)
  consider "q = []" | k where "q = [k]" | k l r where "q = k # l # r" by (metis list.exhaust)
  then show ?case using "2.prems"
    by cases (auto simp: fs_file_def fs_is_dir_def map_of_without split: option.splits fs_node.splits)
next
  case (3 fs n m p)
  let ?f = "\<lambda>x. case x of FsDir es \<Rightarrow> FsDir (fs_remove es (m # p)) | _ \<Rightarrow> x"
  have new: "map_of (fs_remove fs (n # m # p)) k = map_option (\<lambda>x. if k = n then ?f x else x) (map_of fs k)" for k
    by (simp add: map_of_update_node)
  consider "q = []" | k where "q = [k]" | k l r where "q = k # l # r" by (metis list.exhaust)
  then show ?case
  proof cases
    case 1
    then show ?thesis by (simp add: fs_file_def fs_is_dir_def)
  next
    case 2
    then show ?thesis using new [of "hd q"]
      by (auto simp: fs_file_def fs_is_dir_def simp del: fs_remove.simps split: option.splits fs_node.splits)
  next
    case (3 k l r)
    show ?thesis
    proof (cases "k = n \<and> (\<exists>es. map_of fs n = Some (FsDir es))")
      case True
      then obtain es where es: "map_of fs n = Some (FsDir es)" "k = n" by blast
      then have "\<not> fs_is_dir es (m # p)" using "3.prems" by (simp add: fs_is_dir_def)
      then show ?thesis using "3.IH" [of "(n, FsDir es)" n "FsDir es" es "l # r"] es 3 new [of n] map_of_SomeD [OF es(1)]
        by (auto simp: fs_file_def fs_is_dir_def simp del: fs_remove.simps)
    next
      case False
      then show ?thesis using 3 new [of k]
        by (auto simp: fs_file_def fs_is_dir_def simp del: fs_remove.simps split: option.splits fs_node.splits)
    qed
  qed
qed simp

lemma fs_remove_all_view:
  "\<forall>p\<in>set ps. p \<noteq> [] \<and> \<not> fs_is_dir fs p \<Longrightarrow> fs_file (foldl fs_remove fs ps) q = (if q \<in> set ps then None else fs_file fs q)"
proof (induction ps arbitrary: fs)
  case (Cons p ps)
  then show ?case using fs_remove_view [of fs p] by auto
qed simp

lemma fs_remove_names: "distinct (map fst fs) \<Longrightarrow> distinct (map fst (fs_remove fs p))"
  by (induction fs p rule: fs_remove.induct) (auto simp: distinct_map_filter comp_def split_beta)

lemma foldl_remove_names: "distinct (map fst fs) \<Longrightarrow> distinct (map fst (foldl fs_remove fs ps))"
  by (induction ps arbitrary: fs) (simp_all add: fs_remove_names)

lemma map_of_filter_distinct:
  "distinct (map fst fs) \<Longrightarrow> map_of (filter P fs) n = (case map_of fs n of Some x \<Rightarrow> if P (n, x) then Some x else None | None \<Rightarrow> None)"
proof (induction fs)
  case (Cons a fs)
  obtain k y where "a = (k, y)" by (cases a)
  moreover have "map_of (filter P fs) k = None" if "k \<notin> fst ` set fs" using that by (auto simp: map_of_eq_None_iff)
  ultimately show ?case using Cons by auto
qed simp

lemma fs_lookup_Nil [simp]: "fs_lookup [] p = None"
  by (cases p rule: remdups_adj.cases) auto

lemma prune_empty_dirs_view:
  assumes "distinct (map fst fs)"
  shows "fs_file (prune_empty_dirs ff fs) q = fs_file fs q"
proof -
  consider "q = []" | k where "q = [k]" | k l r where "q = k # l # r" by (metis list.exhaust)
  then show ?thesis using assms
    by cases (auto simp: fs_file_def prune_empty_dirs_def map_of_filter_distinct split: option.splits fs_node.splits)
qed

lemma fs_put_lookup: "map_of (fs_put n x fs) k = (if k = n then Some x else map_of fs k)"
  by (induction n x fs rule: fs_put.induct) auto

lemma fs_put_names: "fst ` set (fs_put n x fs) = insert n (fst ` set fs)"
  by (induction n x fs rule: fs_put.induct) auto

lemma fs_put_ok: "fs_ok fs \<Longrightarrow> node_ok x \<Longrightarrow> fs_ok (fs_put n x fs)"
  by (induction n x fs rule: fs_put.induct) (auto simp: fs_put_names)

lemma fs_ok_distinct: "fs_ok fs \<Longrightarrow> distinct (map fst fs)"
  by (induction fs) force+

lemma fs_ok_node: "fs_ok fs \<Longrightarrow> map_of fs n = Some x \<Longrightarrow> node_ok x"
  by (induction fs) (auto split: if_splits)

lemma fs_lookup_Cons_other: "n \<noteq> k \<Longrightarrow> fs_lookup ((k, x) # fs) (n # r) = fs_lookup fs (n # r)"
  by (cases r) auto

lemma fs_lookup_here: "fs_lookup ((n, x) # fs) [n] = Some x" "r \<noteq> [] \<Longrightarrow> fs_lookup ((n, FsDir es) # fs) (n # r) = fs_lookup es r"
  by (simp, cases r) auto

text \<open>Every collected entry is a file of the tree.\<close>

lemma collected_is_file:
  "fs_ok fs \<Longrightarrow> e \<in> set (collect_entries ff p fs) \<Longrightarrow> \<exists>r c. se_path e = p @ r \<and> r \<noteq> [] \<and> hd r \<in> fst ` set fs \<and> fs_lookup fs r = Some (FsFile c (se_modified e))"
  "node_ok x \<Longrightarrow> e \<in> set (collect_node ff p x) \<Longrightarrow>
     (\<exists>c. se_path e = p \<and> x = FsFile c (se_modified e))
     \<or> (\<exists>es r c. x = FsDir es \<and> se_path e = p @ r \<and> r \<noteq> [] \<and> fs_lookup es r = Some (FsFile c (se_modified e)))"
proof (induction ff p fs and ff p x rule: collect_entries_collect_node.induct)
  case (2 ff p n x fs)
  then consider "e \<in> set (collect_node ff (p @ [n]) x)" | "e \<in> set (collect_entries ff p fs)" by auto
  then show ?case
  proof cases
    case 1
    then consider c where "se_path e = p @ [n]" "x = FsFile c (se_modified e)"
      | es r c where "x = FsDir es" "se_path e = (p @ [n]) @ r" "r \<noteq> []" "fs_lookup es r = Some (FsFile c (se_modified e))"
      using "2.IH"(1) "2.prems" by auto
    then show ?thesis
    proof cases
      case 1
      then show ?thesis by (intro exI [of _ "[n]"]) simp
    next
      case 2
      then show ?thesis using fs_lookup_here(2) [of r n es fs] by (intro exI [of _ "n # r"]) simp
    qed
  next
    case 2
    then obtain r c where "se_path e = p @ r" "r \<noteq> []" "hd r \<in> fst ` set fs" "fs_lookup fs r = Some (FsFile c (se_modified e))"
      using "2.IH"(2) "2.prems" by auto
    moreover have "hd r \<noteq> n" using \<open>hd r \<in> fst ` set fs\<close> "2.prems"(1) by auto
    ultimately show ?thesis using fs_lookup_Cons_other [of "hd r" n x fs "tl r"] by (intro exI [of _ r]) auto
  qed
qed (auto split: if_splits)

lemma evictions_paths: "set (evictions entries n keep) \<subseteq> se_path ` set entries - {keep}"
  using evictions_exact [of entries keep n] by (auto simp: evictable_def dest!: in_set_takeD)

lemma sweep_view:
  assumes "fs_ok fs"
  shows "\<exists>gone. keep \<notin> gone \<and> (\<forall>q. fs_file (sweep ff st keep fs) q = (if q \<in> gone then None else fs_file fs q))"
proof -
  let ?es = "if ff_unreadable ff [] then [] else collect_entries ff [] fs"
  let ?gone = "filter (\<lambda>p. \<not> ff_remove ff p) (evictions ?es (sp_max_total_bytes st) keep)"
  have paths: "set ?gone \<subseteq> se_path ` set ?es - {keep}"
    using evictions_paths [of ?es "sp_max_total_bytes st" keep] by (meson filter_is_subset order_trans)
  have "p \<noteq> [] \<and> \<not> fs_is_dir fs p" if "p \<in> set ?gone" for p
  proof -
    have "p \<in> se_path ` set (collect_entries ff [] fs)" using paths that by (auto split: if_splits)
    then obtain c m where "p \<noteq> []" "fs_lookup fs p = Some (FsFile c m)" using collected_is_file(1) [OF assms, of _ ff "[]"] by (metis append_Nil imageE)
    then show ?thesis by (simp add: fs_is_dir_def)
  qed
  then have "fs_file (foldl fs_remove fs ?gone) q = (if q \<in> set ?gone then None else fs_file fs q)" for q
    by (intro fs_remove_all_view) blast
  moreover have "fs_file (sweep ff st keep fs) q = fs_file (foldl fs_remove fs ?gone) q" for q
    unfolding sweep_def Let_def by (intro prune_empty_dirs_view foldl_remove_names fs_ok_distinct assms)
  ultimately show ?thesis using paths by (intro exI [of _ "set ?gone"]) auto
qed

lemma length_str_bytes: "length (str_bytes s) = utf8_len s"
  by (induction s) (simp_all add: str_bytes_def utf8_len_def Let_def)

lemma fs_put_dir_view:
  "fs_file (fs_put d (FsDir es) fs) q = (case q of k # l # r \<Rightarrow> if k = d then fs_file es (l # r) else fs_file fs q | [k] \<Rightarrow> if k = d then None else fs_file fs q | [] \<Rightarrow> None)"
  by (cases q rule: remdups_adj.cases) (auto simp: fs_file_def fs_put_lookup)

lemma fs_put_file_view: "fs_file (fs_put n (FsFile c m) es) [n] = Some (c, m)"
  "r \<noteq> [n] \<Longrightarrow> map_of es n = None \<Longrightarrow> fs_file (fs_put n (FsFile c m) es) r = fs_file es r"
  by (simp add: fs_file_def fs_put_lookup, cases r rule: remdups_adj.cases) (auto simp: fs_file_def fs_put_lookup)

lemma same_dir_view:
  assumes "map_of fs d = Some (FsDir es) \<or> map_of fs d = None \<and> es = []"
  shows "fs_file (fs_put d (FsDir es) fs) q = fs_file fs q"
  using assms by (cases q rule: remdups_adj.cases) (auto simp: fs_file_def fs_put_lookup)

text \<open>The directory of the owner with a new file in it: nothing else changes.\<close>

lemma new_file_view:
  assumes "map_of fs d = Some (FsDir es) \<or> map_of fs d = None \<and> es = []" "map_of es n = None"
  shows "fs_file (fs_put d (FsDir (fs_put n (FsFile c m) es)) fs) [d, n] = Some (c, m)"
    and "q \<noteq> [d, n] \<Longrightarrow> fs_file (fs_put d (FsDir (fs_put n (FsFile c m) es)) fs) q = fs_file fs q"
    and "fs_file fs [d, n] = None"
proof -
  show "fs_file (fs_put d (FsDir (fs_put n (FsFile c m) es)) fs) [d, n] = Some (c, m)"
    by (simp add: fs_put_dir_view fs_put_file_view)
  show "fs_file fs [d, n] = None" using assms by (auto simp: fs_file_def)
  assume q: "q \<noteq> [d, n]"
  show "fs_file (fs_put d (FsDir (fs_put n (FsFile c m) es)) fs) q = fs_file fs q"
  proof (cases q rule: remdups_adj.cases)
    case (3 k l r)
    have "fs_file es (l # r) = fs_file fs q" if "k = d" using assms(1) 3 that by (auto simp: fs_file_def)
    then show ?thesis using 3 q assms(2) fs_put_file_view(2) [of "l # r" n es c m] by (auto simp: fs_put_dir_view)
  qed (use assms(1) in \<open>auto simp: fs_file_def fs_put_lookup\<close>)
qed

text \<open>Saving loses nothing: a successful save returns a path that held nothing before and now holds
  exactly the text, and the cleanup that follows may remove older artifacts but never that one nor
  any byte of what it leaves. A failed save removes nothing.\<close>

theorem save_text_keeps_artifact:
  assumes "fs_ok fs"
  shows "(case save_text sha ff uuid now st owner name content fs of
       (fs', Inr sp) \<Rightarrow>
          fs_file fs (sd_locator sp) = None \<and> fs_file fs' (sd_locator sp) = Some (str_bytes content, now)
          \<and> sd_bytes sp = length (str_bytes content) \<and> sd_retrieval_hint sp = ''at '' @ path_display st (sd_locator sp)
          \<and> (\<forall>p. p \<noteq> sd_locator sp \<longrightarrow> fs_file fs' p = fs_file fs p \<or> fs_file fs' p = None)
     | (fs', Inl _) \<Rightarrow> \<forall>p. fs_file fs p \<noteq> None \<longrightarrow> fs_file fs' p = fs_file fs p)"
proof -
  define d n where "d = ''session-'' @ artifact_digest sha owner" and "n = uuid @ ''-'' @ safe_name name"
  note save = save_text_def [of sha ff uuid now st owner name content fs, folded d_def n_def, unfolded Let_def]
  show ?thesis
  proof (cases "create_private_dir ff d fs")
    case (Inl e)
    then show ?thesis by (simp add: save)
  next
    case (Inr es)
    then have es: "map_of fs d = Some (FsDir es) \<or> map_of fs d = None \<and> es = []"
      by (auto simp: create_private_dir_def split: option.splits fs_node.splits if_splits)
    then have es_ok: "fs_ok es" using fs_ok_node [OF assms, of d] by auto
    consider "ff_open ff \<or> map_of es n \<noteq> None" | k where "\<not> ff_open ff" "map_of es n = None" "ff_write ff = Some k"
      | "\<not> ff_open ff" "map_of es n = None" "ff_write ff = None" by (cases "ff_write ff") auto
    then show ?thesis
    proof cases
      case 1
      then show ?thesis using Inr same_dir_view [OF es] by (simp add: save write_private_new_def)
    next
      case (2 k)
      note new = new_file_view(1,2) [OF es 2(2), where c = "take k (str_bytes content)" and m = now] new_file_view(3) [OF es 2(2)]
      have "fs_file (fs_put d (FsDir (fs_put n (FsFile (take k (str_bytes content)) now) es)) fs) p = fs_file fs p" if "fs_file fs p \<noteq> None" for p
        using new that by (cases "p = [d, n]") auto
      then show ?thesis using Inr 2 by (simp add: save write_private_new_def)
    next
      case 3
      note new = new_file_view(1,2) [OF es 3(2), where c = "str_bytes content" and m = now] new_file_view(3) [OF es 3(2)]
      let ?fs = "fs_put d (FsDir (fs_put n (FsFile (str_bytes content) now) es)) fs"
      have "fs_ok ?fs" using assms es_ok by (simp add: fs_put_ok)
      then obtain gone where gone: "[d, n] \<notin> gone" "\<And>q. fs_file (sweep ff st [d, n] ?fs) q = (if q \<in> gone then None else fs_file ?fs q)"
        using sweep_view [of ?fs "[d, n]" ff st] by blast
      have "save_text sha ff uuid now st owner name content fs = (sweep ff st [d, n] ?fs,
          Inr \<lparr>sd_locator = [d, n], sd_bytes = utf8_len content, sd_retrieval_hint = ''at '' @ path_display st [d, n]\<rparr>)"
        using Inr 3 by (simp add: save write_private_new_def)
      moreover have "fs_file (sweep ff st [d, n] ?fs) [d, n] = Some (str_bytes content, now)" by (simp only: gone new if_False)
      moreover have "fs_file (sweep ff st [d, n] ?fs) p = fs_file fs p \<or> fs_file (sweep ff st [d, n] ?fs) p = None" if "p \<noteq> [d, n]" for p
        by (simp only: gone(2) new(2) [OF that]) simp
      ultimately show ?thesis using new(3) by (simp add: length_str_bytes)
    qed
  qed
qed

lemma capped_iff: "cap_fresh_tool_result s = None \<longleftrightarrow> length s \<le> 12000"
  by (simp add: cap_fresh_tool_result_def max_fresh_tool_result_chars_def)

lemma preview_exists: "12000 < length s \<Longrightarrow> \<exists>r. preview_replacing s max_fresh_tool_result_chars h = Some r"
  using length_le_utf8_len [of s] by (simp add: preview_replacing_def max_fresh_tool_result_chars_def Let_def)


definition no_faults :: fs_faults where
  "no_faults = \<lparr>ff_create_dir = False, ff_open = False, ff_write = None, ff_unreadable = (\<lambda>_. False), ff_remove = (\<lambda>_. False)\<rparr>"

definition sample_spill :: spill_store where
  "sample_spill = \<lparr>sp_root = ''/spill'', sp_max_total_bytes = default_max_total_bytes\<rparr>"


end
