(* ===== verification/Context_Pruning.thy ===== *)
theory Context_Pruning
  imports Context_Window F64
begin

text \<open>
  The pruning of failed, empty and repeated steps, \<^verbatim>\<open>crates/hf-context/src/pruning/intra_turn.rs\<close> with
  \<^verbatim>\<open>patterns.rs\<close>, \<^verbatim>\<open>config.rs\<close> and \<^verbatim>\<open>token_utils.rs\<close>, and how the agent prepares the messages of a request
  (\<^verbatim>\<open>crates/hf-agent/src/lib.rs\<close>): pruning, compaction, trimming by age, the budget. The set of identifiers to
  remove is a set; each insertion comes with the tokens it adds, kept as a list of marks. The sums of
  tokens stay below \<^verbatim>\<open>u32::MAX\<close>.
\<close>

section \<open>Patterns\<close>

definition error_patterns :: "string list" where
  "error_patterns = [[CHR 0x22] @ ''error'' @ [CHR 0x22] @ '':'', [CHR 0x22] @ ''error_type'' @ [CHR 0x22] @ '':'', ''error:'', ''Error:'', ''FAILED'',
     ''failed to'', ''parameter validation failed'', ''not found'', ''permission denied'']"

definition empty_result_patterns :: "string list" where
  "empty_result_patterns = [[CHR 0x22] @ ''results'' @ [CHR 0x22] @ '': []'', [CHR 0x22] @ ''results'' @ [CHR 0x22] @ '':[]'',
     [CHR 0x22] @ ''count'' @ [CHR 0x22] @ '': 0'', [CHR 0x22] @ ''count'' @ [CHR 0x22] @ '':0'',
     ''no results found'', ''No results found'', ''no matches'', ''No matches'', ''[]'']"

definition empty_result_max_len :: nat where
  "empty_result_max_len = 200"

definition similarity_threshold :: f64 where
  "similarity_threshold = f_decimal False 8 (-1)"

definition max_adjacent_distance :: nat where
  "max_adjacent_distance = 3"

definition matches_error_patterns :: "string \<Rightarrow> string list \<Rightarrow> bool" where
  "matches_error_patterns content extra_patterns \<longleftrightarrow>
     list_ex (\<lambda>p. str_contains p content) error_patterns \<or> list_ex (\<lambda>p. str_contains p content) extra_patterns"

definition matches_empty_patterns :: "string \<Rightarrow> bool" where
  "matches_empty_patterns content \<longleftrightarrow>
     utf8_len content < empty_result_max_len \<and> list_ex (\<lambda>p. str_contains p content) empty_result_patterns"

definition content_similarity :: "string \<Rightarrow> string \<Rightarrow> f64" where
  "content_similarity a b =
     (if a = [] \<and> b = [] then f_of_nat 1
      else if a = [] \<or> b = [] then f_of_nat 0
      else let min_len = min (utf8_len a) (utf8_len b); max_len = max (utf8_len a) (utf8_len b);
               matching = length (filter (\<lambda>(x, y). x = y) (take min_len (zip a b)))
           in f_div (f_of_nat matching) (f_of_nat max_len))"

section \<open>The pruner\<close>

record intra_turn_pruner =
  ip_enabled :: bool
  ip_min_iteration :: nat
  ip_token_threshold :: nat
  ip_extra_patterns :: "string list"

record intra_turn_config =
  ic_enabled :: bool
  ic_min_iteration :: nat
  ic_token_threshold :: nat

definition default_intra_turn_config :: intra_turn_config where
  "default_intra_turn_config = \<lparr>ic_enabled = True, ic_min_iteration = 3, ic_token_threshold = 1000\<rparr>"

definition pruner_from_config :: "intra_turn_config \<Rightarrow> intra_turn_pruner" where
  "pruner_from_config c = \<lparr>ip_enabled = ic_enabled c, ip_min_iteration = ic_min_iteration c,
     ip_token_threshold = ic_token_threshold c, ip_extra_patterns = []\<rparr>"

record pruning_report =
  pr_messages_removed :: nat
  pr_tokens_saved :: nat
  pr_skipped :: bool

definition skipped_report :: pruning_report where
  "skipped_report = \<lparr>pr_messages_removed = 0, pr_tokens_saved = 0, pr_skipped = True\<rparr>"

type_synonym mark = "string \<times> nat"

definition mark_of :: "message \<Rightarrow> mark" where
  "mark_of m = (me_id m, estimate_tokens (me_content m))"

definition answers_call :: "message \<Rightarrow> tool_call \<Rightarrow> bool" where
  "answers_call m tc \<longleftrightarrow> me_tool_call_id m = Some (tc_id tc)"

definition has_tool_result :: "message list \<Rightarrow> nat \<Rightarrow> bool" where
  "has_tool_result ms i \<longleftrightarrow>
     (i + 1 < length ms \<and> me_role (ms ! (i + 1)) = RoleTool)
     \<or> list_ex (\<lambda>tc. list_ex (\<lambda>m. answers_call m tc) (drop (i + 1) ms)) (me_tool_calls (ms ! i))"

definition find_last_assistant_tool_boundary :: "message list \<Rightarrow> nat option" where
  "find_last_assistant_tool_boundary ms =
     find (\<lambda>i. me_role (ms ! i) = RoleAssistant \<and> has_tool_result ms i) (rev [0..<length ms])"

fun is_protected :: "nat \<Rightarrow> nat option \<Rightarrow> bool" where
  "is_protected idx (Some boundary) = (boundary \<le> idx)"
| "is_protected idx None = False"

text \<open>The marks of one tool result, when its content matches: the result, and the assistant message right before it.\<close>

definition result_marks :: "(string \<Rightarrow> bool) \<Rightarrow> message list \<Rightarrow> nat option \<Rightarrow> nat \<Rightarrow> mark list" where
  "result_marks matches ms b i =
     (let m = ms ! i
      in if me_role m \<noteq> RoleTool then []
         else if is_protected i b then []
         else if i > 0 \<and> me_role (ms ! (i - 1)) = RoleAssistant \<and> me_tool_calls (ms ! (i - 1)) \<noteq> [] then []
         else if matches (me_content m)
              then mark_of m # (if i > 0 \<and> me_role (ms ! (i - 1)) = RoleAssistant \<and> \<not> is_protected (i - 1) b
                                then [mark_of (ms ! (i - 1))] else [])
              else [])"

definition detect_error_tool_results :: "intra_turn_pruner \<Rightarrow> message list \<Rightarrow> nat option \<Rightarrow> mark list" where
  "detect_error_tool_results p ms b =
     concat (map (result_marks (\<lambda>c. matches_error_patterns c (ip_extra_patterns p)) ms b) [0..<length ms])"

definition detect_empty_tool_results :: "message list \<Rightarrow> nat option \<Rightarrow> mark list" where
  "detect_empty_tool_results ms b = concat (map (result_marks matches_empty_patterns ms b) [0..<length ms])"

definition assistant_indices :: "message list \<Rightarrow> nat list" where
  "assistant_indices ms = filter (\<lambda>i. me_role (ms ! i) = RoleAssistant) [0..<length ms]"

definition repeat_marks :: "message list \<Rightarrow> nat option \<Rightarrow> nat \<Rightarrow> nat \<Rightarrow> mark list" where
  "repeat_marks ms b idx_a idx_b =
     (let msg_a = ms ! idx_a; msg_b = ms ! idx_b
      in if idx_b - idx_a > max_adjacent_distance then []
         else if is_protected idx_a b then []
         else if me_tool_calls msg_a \<noteq> [] then []
         else if trim (me_content msg_a) = [] \<and> trim (me_content msg_b) = [] then []
         else if f_less similarity_threshold (content_similarity (me_content msg_a) (me_content msg_b))
              then mark_of msg_a # (if idx_a + 1 < length ms \<and> me_role (ms ! (idx_a + 1)) = RoleTool \<and> \<not> is_protected (idx_a + 1) b
                                    then [mark_of (ms ! (idx_a + 1))] else [])
              else [])"

definition detect_repeated_calls :: "message list \<Rightarrow> nat option \<Rightarrow> mark list" where
  "detect_repeated_calls ms b =
     (let as = assistant_indices ms
      in if length as < 2 then []
         else concat (map (\<lambda>j. repeat_marks ms b (as ! j) (as ! (j + 1))) [0..<length as - 1]))"

section \<open>Structural integrity\<close>

definition answers_any :: "tool_call list \<Rightarrow> message \<Rightarrow> bool" where
  "answers_any tcs m \<longleftrightarrow> me_role m = RoleTool \<and> list_ex (answers_call m) tcs"

definition remove_call_results :: "message list \<Rightarrow> string set \<Rightarrow> string set" where
  "remove_call_results ms ids =
     ids \<union> set (map me_id (filter (\<lambda>r. list_ex (\<lambda>a. me_role a = RoleAssistant \<and> me_tool_calls a \<noteq> [] \<and> me_id a \<in> ids
        \<and> answers_any (me_tool_calls a) r) ms) ms))"

definition remove_answered_call :: "message list \<Rightarrow> string set \<Rightarrow> message \<Rightarrow> string set" where
  "remove_answered_call ms ids a =
     (if me_role a = RoleAssistant \<and> me_tool_calls a \<noteq> []
      then let results = filter (answers_any (me_tool_calls a)) ms
           in if list_all (\<lambda>m. me_id m \<in> ids) results \<and> list_ex (\<lambda>m. me_id m \<in> ids) results then insert (me_id a) ids else ids
      else ids)"

definition ensure_structural_integrity :: "message list \<Rightarrow> string set \<Rightarrow> string set" where
  "ensure_structural_integrity ms ids = foldl (remove_answered_call ms) (remove_call_results ms ids) ms"

definition prune_marks :: "intra_turn_pruner \<Rightarrow> message list \<Rightarrow> mark list" where
  "prune_marks p ms =
     (let b = find_last_assistant_tool_boundary ms
      in detect_error_tool_results p ms b @ detect_repeated_calls ms b @ detect_empty_tool_results ms b)"

definition prune_working_history :: "intra_turn_pruner \<Rightarrow> message list \<Rightarrow> nat \<Rightarrow> message list \<times> pruning_report" where
  "prune_working_history p working_history iteration =
     (if \<not> ip_enabled p then (working_history, skipped_report)
      else if iteration mod 2 ^ 32 < ip_min_iteration p then (working_history, skipped_report)
      else let marks = prune_marks p working_history;
               remove_ids = set (map fst marks); candidate_tokens = sum_list (map snd marks)
           in if remove_ids = {} \<or> candidate_tokens < ip_token_threshold p then (working_history, skipped_report)
              else let ids = ensure_structural_integrity working_history remove_ids
                   in (filter (\<lambda>m. me_id m \<notin> ids) working_history,
                       \<lparr>pr_messages_removed = card ids,
                        pr_tokens_saved = sum_list (map (\<lambda>m. estimate_tokens (me_content m)) (filter (\<lambda>m. me_id m \<in> ids) working_history)),
                        pr_skipped = False\<rparr>))"

section \<open>The messages of a request\<close>

definition prune_over_budget :: "message list \<Rightarrow> message list" where
  "prune_over_budget ms =
     (if total_tokens ms \<le> default_budget_tokens then ms
      else fst (prune_working_history (pruner_from_config (default_intra_turn_config\<lparr>ic_min_iteration := 0\<rparr>)) ms 0))"

text \<open>
  The start of \<^verbatim>\<open>run_turn\<close> and the head of its loop: what the agent works on, and what one call of the model gets.
  The provider-facing copy of a tool result is a user message.
\<close>

definition turn_history :: "backend option \<Rightarrow> string \<Rightarrow> int \<Rightarrow> message \<Rightarrow> message list \<Rightarrow> message \<Rightarrow> message list" where
  "turn_history pool i t system_prompt history user_message =
     maybe_compact pool i t (prune_over_budget (system_prompt # history @ [user_message]))"

definition provider_copy :: "message \<Rightarrow> message" where
  "provider_copy m = (if me_role m = RoleTool then m\<lparr>me_role := RoleUser, me_tool_call_id := None\<rparr> else m)"

definition request_messages :: "message list \<Rightarrow> message list" where
  "request_messages ms = map provider_copy (assemble (prune_tool_results_by_age ms) default_budget_tokens)"

section \<open>Steps and their results stay together\<close>

text \<open>Every tool result directly follows an assistant message.\<close>

fun paired_from :: "bool \<Rightarrow> message list \<Rightarrow> bool" where
  "paired_from prev [] = True"
| "paired_from prev (m # ms) = ((me_role m = RoleTool \<longrightarrow> prev) \<and> paired_from (me_role m = RoleAssistant) ms)"

definition paired :: "message list \<Rightarrow> bool" where
  "paired ms = paired_from False ms"

lemma paired_from_mono: "paired_from False ms \<Longrightarrow> paired_from prev ms"
  by (cases ms) auto

lemma paired_from_append:
  "paired_from prev (a @ b) = (paired_from prev a \<and> paired_from (if a = [] then prev else me_role (last a) = RoleAssistant) b)"
  by (induction a arbitrary: prev) auto

lemma paired_chat: "paired_from prev ms \<Longrightarrow> paired_from prev (chat ms)"
proof (induction ms arbitrary: prev)
  case (Cons m ms)
  show ?case
  proof (cases "is_system m")
    case True
    then have "paired_from False ms" using Cons.prems by (simp add: is_system_def)
    then show ?thesis using True Cons.IH [of False] paired_from_mono by simp
  next
    case False
    then show ?thesis using Cons.prems Cons.IH by simp
  qed
qed simp

lemma paired_suffix: "paired_from prev ms \<Longrightarrow> suffix s ms \<Longrightarrow> s = [] \<or> me_role (hd s) \<noteq> RoleTool \<Longrightarrow> paired s"
  by (cases s) (auto simp: suffix_def paired_def paired_from_append)

lemma paired_roles: "map me_role ms = map me_role ns \<Longrightarrow> paired_from prev ms = paired_from prev ns"
proof (induction ms arbitrary: ns prev)
  case (Cons m ms)
  then obtain n ns' where "ns = n # ns'" "me_role m = me_role n" "map me_role ms = map me_role ns'" by (cases ns) auto
  then show ?case using Cons.IH by simp
qed simp

text \<open>A filter that keeps or drops a step and its result together keeps the history paired.\<close>

fun agrees_on_pairs :: "(message \<Rightarrow> bool) \<Rightarrow> message list \<Rightarrow> bool" where
  "agrees_on_pairs K (a # b # ms) = ((me_role a = RoleAssistant \<and> me_role b = RoleTool \<longrightarrow> K a = K b) \<and> agrees_on_pairs K (b # ms))"
| "agrees_on_pairs K _ = True"

lemma agrees_on_pairsI:
  "(\<And>i. i + 1 < length ms \<Longrightarrow> me_role (ms ! i) = RoleAssistant \<Longrightarrow> me_role (ms ! (i + 1)) = RoleTool \<Longrightarrow> K (ms ! i) = K (ms ! (i + 1)))
     \<Longrightarrow> agrees_on_pairs K ms"
proof (induction K ms rule: agrees_on_pairs.induct)
  case (1 K a b ms)
  have "agrees_on_pairs K (b # ms)"
  proof (rule "1.IH")
    fix i
    assume "i + 1 < length (b # ms)" "me_role ((b # ms) ! i) = RoleAssistant" "me_role ((b # ms) ! (i + 1)) = RoleTool"
    then show "K ((b # ms) ! i) = K ((b # ms) ! (i + 1))" using "1.prems" [of "i + 1"] by simp
  qed
  then show ?case using "1.prems" [of 0] by simp
qed simp_all

lemma paired_filter:
  "paired_from prev ms \<Longrightarrow> agrees_on_pairs K ms
     \<Longrightarrow> (prev \<and> ms \<noteq> [] \<and> me_role (hd ms) = RoleTool \<and> K (hd ms) \<longrightarrow> prev') \<Longrightarrow> paired_from prev' (filter K ms)"
proof (induction K ms arbitrary: prev prev' rule: agrees_on_pairs.induct)
  case (1 K a b ms)
  show ?case
  proof (cases "K a")
    case True
    have "paired_from (me_role a = RoleAssistant) (filter K (b # ms))"
      using "1.prems"(1,2) by (intro "1.IH" [of "me_role a = RoleAssistant" "me_role a = RoleAssistant"]) simp_all
    moreover have "me_role a = RoleTool \<longrightarrow> prev'" using "1.prems"(1,3) True by simp
    moreover have "filter K (a # b # ms) = a # filter K (b # ms)" using True by simp
    ultimately show ?thesis by (simp only: paired_from.simps simp_thms)
  next
    case False
    then have "paired_from prev' (filter K (b # ms))"
      using "1.prems"(1,2) by (intro "1.IH" [of "me_role a = RoleAssistant" prev']) auto
    then show ?thesis using False by simp
  qed
qed auto

text \<open>What a mark means: the position it is for, and why.\<close>

definition is_failed_result :: "(string \<Rightarrow> bool) \<Rightarrow> message list \<Rightarrow> nat option \<Rightarrow> nat \<Rightarrow> bool" where
  "is_failed_result P ms b i \<longleftrightarrow> i < length ms \<and> me_role (ms ! i) = RoleTool \<and> \<not> is_protected i b \<and> P (me_content (ms ! i))
     \<and> \<not> (i > 0 \<and> me_role (ms ! (i - 1)) = RoleAssistant \<and> me_tool_calls (ms ! (i - 1)) \<noteq> [])"

lemma protected_before: "\<not> is_protected i b \<Longrightarrow> \<not> is_protected (i - 1) b"
  by (cases b) auto

lemma result_marks_eq:
  "i < length ms \<Longrightarrow> result_marks P ms b i =
     (if is_failed_result P ms b i then mark_of (ms ! i) # (if i > 0 \<and> me_role (ms ! (i - 1)) = RoleAssistant then [mark_of (ms ! (i - 1))] else []) else [])"
  using protected_before [of i b] by (auto simp: result_marks_def is_failed_result_def Let_def)

lemma detected_results:
  "fst ` set (concat (map (result_marks P ms b) [0..<length ms]))
     = {me_id (ms ! i) | i. is_failed_result P ms b i} \<union> {me_id (ms ! i) | i. is_failed_result P ms b (i + 1) \<and> me_role (ms ! i) = RoleAssistant}"
    (is "?l = ?r")
proof
  show "?l \<subseteq> ?r"
  proof
    fix x
    assume "x \<in> ?l"
    then obtain i where "i < length ms" "x \<in> fst ` set (result_marks P ms b i)" by force
    then consider "is_failed_result P ms b i" "x = me_id (ms ! i)"
      | "is_failed_result P ms b i" "i > 0" "me_role (ms ! (i - 1)) = RoleAssistant" "x = me_id (ms ! (i - 1))"
      by (auto simp: result_marks_eq mark_of_def split: if_splits)
    then show "x \<in> ?r"
    proof cases
      case 2
      then have "is_failed_result P ms b (i - 1 + 1)" by simp
      then show ?thesis using 2 by blast
    qed blast
  qed
  have "me_id (ms ! i) \<in> ?l" if "is_failed_result P ms b i" for i
    using that by (auto simp: result_marks_eq is_failed_result_def mark_of_def intro!: rev_image_eqI bexI [of _ i])
  moreover have "me_id (ms ! i) \<in> ?l" if "is_failed_result P ms b (i + 1)" "me_role (ms ! i) = RoleAssistant" for i
    using that by (auto simp: result_marks_eq is_failed_result_def mark_of_def intro!: rev_image_eqI [of "mark_of (ms ! i)"] bexI [of _ "i + 1"])
  ultimately show "?r \<subseteq> ?l" by blast
qed

definition repeats :: "message list \<Rightarrow> nat option \<Rightarrow> nat \<Rightarrow> nat \<Rightarrow> bool" where
  "repeats ms b a c \<longleftrightarrow> c - a \<le> max_adjacent_distance \<and> \<not> is_protected a b \<and> me_tool_calls (ms ! a) = []
     \<and> \<not> (trim (me_content (ms ! a)) = [] \<and> trim (me_content (ms ! c)) = [])
     \<and> f_less similarity_threshold (content_similarity (me_content (ms ! a)) (me_content (ms ! c)))"

definition repeated_step :: "message list \<Rightarrow> nat option \<Rightarrow> nat \<Rightarrow> bool" where
  "repeated_step ms b a \<longleftrightarrow> (\<exists>j. j + 1 < length (assistant_indices ms) \<and> a = assistant_indices ms ! j \<and> repeats ms b a (assistant_indices ms ! (j + 1)))"

lemma repeat_marks_eq:
  "repeat_marks ms b a c =
     (if repeats ms b a c then mark_of (ms ! a) # (if a + 1 < length ms \<and> me_role (ms ! (a + 1)) = RoleTool \<and> \<not> is_protected (a + 1) b
        then [mark_of (ms ! (a + 1))] else []) else [])"
  by (simp add: repeat_marks_def repeats_def Let_def)

lemma repeat_mark_ids:
  "x \<in> fst ` set (repeat_marks ms b a c) \<longleftrightarrow> repeats ms b a c \<and> (x = me_id (ms ! a)
     \<or> a + 1 < length ms \<and> me_role (ms ! (a + 1)) = RoleTool \<and> \<not> is_protected (a + 1) b \<and> x = me_id (ms ! (a + 1)))"
  by (cases "repeats ms b a c"; cases "a + 1 < length ms \<and> me_role (ms ! (a + 1)) = RoleTool \<and> \<not> is_protected (a + 1) b")
    (auto simp: repeat_marks_eq mark_of_def)

lemma repeated_step_assistant: "repeated_step ms b a \<Longrightarrow> a < length ms \<and> me_role (ms ! a) = RoleAssistant \<and> \<not> is_protected a b"
proof -
  assume "repeated_step ms b a"
  then have "a \<in> set (assistant_indices ms)" "\<not> is_protected a b" by (auto simp: repeated_step_def repeats_def)
  then show ?thesis by (auto simp: assistant_indices_def)
qed

lemma detected_repeats:
  "fst ` set (detect_repeated_calls ms b)
     = {me_id (ms ! a) | a. repeated_step ms b a}
       \<union> {me_id (ms ! (a + 1)) | a. repeated_step ms b a \<and> a + 1 < length ms \<and> me_role (ms ! (a + 1)) = RoleTool \<and> \<not> is_protected (a + 1) b}"
    (is "?l = ?r")
proof -
  let ?as = "assistant_indices ms"
  have "x \<in> ?l \<longleftrightarrow> (\<exists>j. j + 1 < length ?as \<and> x \<in> fst ` set (repeat_marks ms b (?as ! j) (?as ! (j + 1))))" for x
    by (auto simp: detect_repeated_calls_def Let_def image_UN less_diff_conv)
  also have "\<dots> x \<longleftrightarrow> x \<in> ?r" for x
    unfolding repeat_mark_ids repeated_step_def by blast
  finally show ?thesis by blast
qed

lemma boundary_assistant: "find_last_assistant_tool_boundary ms = Some b \<Longrightarrow> b < length ms \<and> me_role (ms ! b) = RoleAssistant"
  unfolding find_last_assistant_tool_boundary_def using find_Some_iff_first by fastforce

text \<open>The positions that pruning marks, whatever the three signals are.\<close>

definition dead_result :: "intra_turn_pruner \<Rightarrow> message list \<Rightarrow> nat \<Rightarrow> bool" where
  "dead_result p ms i \<longleftrightarrow> (let b = find_last_assistant_tool_boundary ms
     in is_failed_result (\<lambda>c. matches_error_patterns c (ip_extra_patterns p)) ms b i \<or> is_failed_result matches_empty_patterns ms b i)"

definition dead_step :: "intra_turn_pruner \<Rightarrow> message list \<Rightarrow> nat \<Rightarrow> bool" where
  "dead_step p ms a \<longleftrightarrow> me_role (ms ! a) = RoleAssistant
     \<and> (dead_result p ms (a + 1) \<or> repeated_step ms (find_last_assistant_tool_boundary ms) a)"

lemma dead_result_tool: "dead_result p ms i \<Longrightarrow> i < length ms \<and> me_role (ms ! i) = RoleTool"
  by (auto simp: dead_result_def is_failed_result_def Let_def)

lemma marked_ids:
  "set (map fst (prune_marks p ms)) = {me_id (ms ! a) | a. dead_step p ms a} \<union> {me_id (ms ! i) | i. dead_result p ms i}
     \<union> {me_id (ms ! (a + 1)) | a. repeated_step ms (find_last_assistant_tool_boundary ms) a \<and> a + 1 < length ms \<and> me_role (ms ! (a + 1)) = RoleTool}"
proof -
  let ?b = "find_last_assistant_tool_boundary ms"
  have tool: "\<not> is_protected (a + 1) ?b" if "repeated_step ms ?b a" "me_role (ms ! (a + 1)) = RoleTool" for a
  proof (cases ?b)
    case (Some c)
    have "a < c" using repeated_step_assistant [OF that(1)] Some by simp
    moreover have "a + 1 \<noteq> c" using boundary_assistant [OF Some] that(2) by auto
    ultimately show ?thesis using Some by simp
  qed simp
  have "x \<in> set (map fst (prune_marks p ms)) \<longleftrightarrow>
      x \<in> fst ` set (detect_error_tool_results p ms ?b) \<or> x \<in> fst ` set (detect_repeated_calls ms ?b) \<or> x \<in> fst ` set (detect_empty_tool_results ms ?b)" for x
    by (auto simp: prune_marks_def Let_def image_Un)
  then show ?thesis
    unfolding detect_error_tool_results_def detect_empty_tool_results_def detected_results detected_repeats set_eq_iff dead_step_def dead_result_def Let_def
    using tool repeated_step_assistant by blast
qed

text \<open>With distinct identifiers, a mark is a mark of a position.\<close>

lemma marked_position:
  assumes "distinct (map me_id ms)" "k < length ms"
  shows "me_id (ms ! k) \<in> set (map fst (prune_marks p ms)) \<longleftrightarrow> dead_step p ms k \<or> dead_result p ms k
     \<or> (k > 0 \<and> me_role (ms ! k) = RoleTool \<and> repeated_step ms (find_last_assistant_tool_boundary ms) (k - 1))"
proof -
  have inj: "me_id (ms ! i) = me_id (ms ! k) \<longleftrightarrow> i = k" if "i < length ms" for i
    using nth_eq_iff_index_eq [OF assms(1)] that assms(2) by simp
  have step: "a < length ms" if "dead_step p ms a" for a
    using that dead_result_tool [of p ms "a + 1"] repeated_step_assistant by (auto simp: dead_step_def)
  have "(\<exists>a. me_id (ms ! k) = me_id (ms ! (a + 1)) \<and> repeated_step ms b a \<and> a + 1 < length ms \<and> me_role (ms ! (a + 1)) = RoleTool)
      \<longleftrightarrow> k > 0 \<and> me_role (ms ! k) = RoleTool \<and> repeated_step ms b (k - 1)" (is "?l \<longleftrightarrow> ?r") for b
  proof
    assume ?l
    then obtain a where "me_id (ms ! (a + 1)) = me_id (ms ! k)" "repeated_step ms b a" "a + 1 < length ms" "me_role (ms ! (a + 1)) = RoleTool" by metis
    moreover then have "a + 1 = k" using inj by blast
    ultimately show ?r by auto
  next
    assume ?r
    then show ?l using assms(2) by (intro exI [of _ "k - 1"]) simp
  qed
  moreover have "(\<exists>a. me_id (ms ! k) = me_id (ms ! a) \<and> dead_step p ms a) \<longleftrightarrow> dead_step p ms k" using inj step by metis
  moreover have "(\<exists>i. me_id (ms ! k) = me_id (ms ! i) \<and> dead_result p ms i) \<longleftrightarrow> dead_result p ms k" using inj dead_result_tool by metis
  ultimately show ?thesis unfolding marked_ids by simp
qed

lemma marked_pairs_agree:
  assumes "distinct (map me_id ms)" "i + 1 < length ms" "me_role (ms ! i) = RoleAssistant" "me_role (ms ! (i + 1)) = RoleTool"
  shows "me_id (ms ! i) \<in> set (map fst (prune_marks p ms)) \<longleftrightarrow> me_id (ms ! (i + 1)) \<in> set (map fst (prune_marks p ms))"
  using assms marked_position [OF assms(1), of i p] marked_position [OF assms(1,2), of p] dead_result_tool [of p ms i]
  by (auto simp: dead_step_def)

section \<open>The requests of a turn\<close>

text \<open>The agent's own protocol is text: no message carries native tool calls.\<close>

definition text_protocol :: "message list \<Rightarrow> bool" where
  "text_protocol ms \<longleftrightarrow> list_all (\<lambda>m. me_tool_calls m = []) ms"

lemma integrity_text_protocol: "text_protocol ms \<Longrightarrow> ensure_structural_integrity ms ids = ids"
proof -
  assume plain: "text_protocol ms"
  have "remove_call_results ms ids = ids"
    using plain by (auto simp: remove_call_results_def text_protocol_def list_all_iff list_ex_iff)
  moreover have "foldl (remove_answered_call ms) s xs = s" if "text_protocol xs" for s xs
    using that by (induction xs) (auto simp: remove_answered_call_def text_protocol_def)
  ultimately show ?thesis using plain by (simp add: ensure_structural_integrity_def)
qed

lemma marked_roles:
  assumes "distinct (map me_id ms)" "m \<in> set ms" "me_id m \<in> set (map fst (prune_marks p ms))"
  shows "me_role m = RoleAssistant \<or> me_role m = RoleTool"
proof -
  obtain k where "k < length ms" "m = ms ! k" using assms(2) by (metis in_set_conv_nth)
  then show ?thesis using marked_position [OF assms(1), of k p] assms(3) dead_result_tool [of p ms k] by (auto simp: dead_step_def)
qed

lemma prune_text_protocol:
  assumes "distinct (map me_id ms)" "text_protocol ms" "paired ms"
  shows "paired (fst (prune_working_history p ms n))" "text_protocol (fst (prune_working_history p ms n))"
    "filter (\<lambda>m. me_role m \<noteq> RoleAssistant \<and> me_role m \<noteq> RoleTool) (fst (prune_working_history p ms n))
       = filter (\<lambda>m. me_role m \<noteq> RoleAssistant \<and> me_role m \<noteq> RoleTool) ms"
proof -
  let ?K = "\<lambda>m. me_id m \<notin> set (map fst (prune_marks p ms))"
  have res: "fst (prune_working_history p ms n) = ms \<or> fst (prune_working_history p ms n) = filter ?K ms"
    using integrity_text_protocol [OF assms(2)] by (simp add: prune_working_history_def Let_def)
  have "agrees_on_pairs ?K ms" using marked_pairs_agree [OF assms(1)] by (intro agrees_on_pairsI) blast
  then have "paired (filter ?K ms)" using assms(3) unfolding paired_def by (intro paired_filter [of False]) simp_all
  then show "paired (fst (prune_working_history p ms n))" using res assms(3) by (elim disjE) simp_all
  show "text_protocol (fst (prune_working_history p ms n))" using res assms(2) by (auto simp: text_protocol_def list_all_iff)
  have "filter (\<lambda>m. me_role m \<noteq> RoleAssistant \<and> me_role m \<noteq> RoleTool) (filter ?K ms)
      = filter (\<lambda>m. me_role m \<noteq> RoleAssistant \<and> me_role m \<noteq> RoleTool) ms"
    unfolding filter_filter using marked_roles [OF assms(1)] by (intro filter_cong) blast+
  then show "filter (\<lambda>m. me_role m \<noteq> RoleAssistant \<and> me_role m \<noteq> RoleTool) (fst (prune_working_history p ms n))
      = filter (\<lambda>m. me_role m \<noteq> RoleAssistant \<and> me_role m \<noteq> RoleTool) ms" using res by (elim disjE) simp_all
qed

lemma paired_drop: "paired ms \<Longrightarrow> k < length ms \<Longrightarrow> is_user (ms ! k) \<Longrightarrow> paired (drop k ms)"
  by (rule paired_suffix [of False ms]) (auto simp: paired_def suffix_drop is_user_def hd_drop_conv_nth)

lemma compact_paired:
  assumes "paired ms" "is_system (hd ms)"
  shows "paired (maybe_compact pool i t ms)"
proof -
  have "paired (hd ms # system_message i t c # drop k ms)" if "safe_compaction_tail_start ms n = Some k" for n k c
    using paired_drop [OF assms(1)] tail_start_SomeD [OF that] assms(2) by (simp add: paired_def is_system_def system_message_def)
  then show ?thesis using assms(1) by (auto simp: compaction_exact split: option.splits)
qed

lemma prune_over_budget_paired:
  assumes "distinct (map me_id (s # ms))" "text_protocol (s # ms)" "paired (s # ms)" "is_system s"
  shows "paired (prune_over_budget (s # ms))" "is_system (hd (prune_over_budget (s # ms)))"
proof -
  note pr = prune_text_protocol [OF assms(1-3)]
  show "paired (prune_over_budget (s # ms))" using pr(1) assms(3) by (simp add: prune_over_budget_def)
  let ?p = "pruner_from_config (default_intra_turn_config\<lparr>ic_min_iteration := 0\<rparr>)"
  have keep: "me_id s \<notin> set (map fst (prune_marks ?p (s # ms)))"
    using marked_roles [OF assms(1), of s ?p] assms(4) by (auto simp: is_system_def)
  have "hd (fst (prune_working_history ?p (s # ms) 0)) = s"
    using keep integrity_text_protocol [OF assms(2)] by (auto simp: prune_working_history_def Let_def)
  then show "is_system (hd (prune_over_budget (s # ms)))" using assms(4) by (simp add: prune_over_budget_def)
qed

text \<open>How the messages of a turn grow: reminders, trimming by age, a step with its result, a step with a correction.\<close>

inductive turn_messages :: "message list \<Rightarrow> message list \<Rightarrow> bool" for start where
  turn_start: "turn_messages start start"
| turn_reminder: "turn_messages start ms \<Longrightarrow> me_role m = RoleUser \<Longrightarrow> turn_messages start (ms @ [m])"
| turn_aged: "turn_messages start ms \<Longrightarrow> turn_messages start (prune_tool_results_by_age ms)"
| turn_step: "turn_messages start ms \<Longrightarrow> me_role a = RoleAssistant \<Longrightarrow> me_role r = RoleTool \<Longrightarrow> turn_messages start (ms @ [a, r])"
| turn_correction: "turn_messages start ms \<Longrightarrow> me_role a = RoleAssistant \<Longrightarrow> me_role u = RoleUser \<Longrightarrow> turn_messages start (ms @ [a, u])"

lemma aged_roles: "map me_role (prune_tool_results_by_age ms) = map me_role ms"
proof -
  have "map me_role (age_newest_first r ns) = map me_role ns" for r ns
    by (induction r ns rule: age_newest_first.induct) auto
  then show ?thesis by (simp add: prune_tool_results_by_age_def rev_map [symmetric])
qed

lemma aged_paired: "paired (prune_tool_results_by_age ms) = paired ms"
  unfolding paired_def by (rule paired_roles [OF aged_roles])

lemma turn_messages_paired: "turn_messages start ms \<Longrightarrow> paired start \<Longrightarrow> paired ms"
proof (induction rule: turn_messages.induct)
  case (turn_aged ms)
  then show ?case by (simp add: aged_paired)
qed (auto simp: paired_def paired_from_append)

lemma aged_system: "filter is_system (prune_tool_results_by_age ms) = filter is_system ms"
proof -
  have "filter is_system (age_newest_first r ns) = filter is_system ns" for r ns
    by (induction r ns rule: age_newest_first.induct) (auto simp: is_system_def)
  then show ?thesis by (simp add: prune_tool_results_by_age_def rev_filter [symmetric])
qed

lemma assembled_paired:
  assumes "paired ms"
  shows "paired (chat (assemble ms n))"
proof -
  have "paired_from False (chat ms)" using paired_chat [of False ms] assms by (simp add: paired_def)
  moreover have "suffix (chat (assemble ms n)) (chat ms)"
    unfolding assemble_parts using newest_window_maximal suffix_dropWhile suffix_order.trans by blast
  moreover have "chat (assemble ms n) = [] \<or> is_user (hd (chat (assemble ms n)))" unfolding assemble_parts using hd_dropWhile by blast
  ultimately show ?thesis by (intro paired_suffix) (auto simp: is_user_def)
qed

text \<open>C36. Every request of a turn is well formed. From a history in which each tool result directly
  follows the step that asked for it, pruning, compaction, trimming and the budget cut, in any number
  of iterations, never separate a result from its step: in what is sent each tool result directly
  follows an assistant message, the first message after the system prompts is a user turn, the
  whole is within the budget unless the system prompts alone exceed it, and the provider sees no
  message in the tool role.\<close>

theorem requests_wellformed:
  assumes "distinct (map me_id (system_prompt # history @ [user_message]))" "text_protocol (system_prompt # history @ [user_message])"
    and "paired history" "is_system system_prompt" "is_user user_message"
    and "turn_messages (turn_history pool i t system_prompt history user_message) ms"
  shows "paired (chat (assemble (prune_tool_results_by_age ms) default_budget_tokens))
     \<and> (let sent = chat (assemble (prune_tool_results_by_age ms) default_budget_tokens) in sent = [] \<or> is_user (hd sent))
     \<and> total_tokens (assemble (prune_tool_results_by_age ms) default_budget_tokens)
         \<le> max default_budget_tokens (total_tokens (filter is_system ms))
     \<and> map me_content (request_messages ms) = map me_content (assemble (prune_tool_results_by_age ms) default_budget_tokens)
     \<and> RoleTool \<notin> me_role ` set (request_messages ms)"
proof -
  have "paired (system_prompt # history @ [user_message])"
    using assms(3-5) by (auto simp: paired_def paired_from_append is_system_def is_user_def)
  note pruned = prune_over_budget_paired [OF assms(1,2) this assms(4)]
  have "paired ms"
    using turn_messages_paired [OF assms(6)] compact_paired [OF pruned] by (simp add: turn_history_def)
  then have "paired (chat (assemble (prune_tool_results_by_age ms) default_budget_tokens))"
    by (intro assembled_paired) (simp add: aged_paired)
  moreover have "chat (assemble ns n) = [] \<or> is_user (hd (chat (assemble ns n)))" for ns n
    unfolding assemble_parts using hd_dropWhile by blast
  moreover have "total_tokens (assemble (prune_tool_results_by_age ms) default_budget_tokens)
      \<le> max default_budget_tokens (total_tokens (filter is_system ms))"
    using assemble_within [of "prune_tool_results_by_age ms" default_budget_tokens] by (simp add: aged_system)
  moreover have "map me_content (request_messages ms) = map me_content (assemble (prune_tool_results_by_age ms) default_budget_tokens)"
    by (simp add: request_messages_def provider_copy_def)
  moreover have "RoleTool \<notin> me_role ` set (request_messages ms)" by (auto simp: request_messages_def provider_copy_def)
  ultimately show ?thesis by (simp add: Let_def)
qed

definition sample_message :: "string \<Rightarrow> role \<Rightarrow> string \<Rightarrow> message" where
  "sample_message i r c = (plain_message r c)\<lparr>me_id := i\<rparr>"

theorem requests_wellformed_witness:
  "let ms = turn_history None ''s'' 0 (sample_message ''0'' RoleSystem ''fuzz'') [sample_message ''1'' RoleUser ''hello'', sample_message ''2'' RoleAssistant ''{tool}'',
       sample_message ''3'' RoleTool ''ok''] (sample_message ''4'' RoleUser ''go on'')
   in paired (chat (assemble (prune_tool_results_by_age ms) default_budget_tokens)) \<and> RoleTool \<notin> me_role ` set (request_messages ms)"
  using requests_wellformed [OF _ _ _ _ _ turn_start, of "sample_message ''0'' RoleSystem ''fuzz''"
      "[sample_message ''1'' RoleUser ''hello'', sample_message ''2'' RoleAssistant ''{tool}'', sample_message ''3'' RoleTool ''ok'']"
      "sample_message ''4'' RoleUser ''go on''" None "''s''" 0]
  by (simp add: sample_message_def plain_message_def text_protocol_def paired_def is_system_def is_user_def Let_def)

section \<open>Parallel native calls\<close>

text \<open>
  With native tool calls the rule that a result of a call is never pruned looks at the message right
  before it only: of two results of one step the second is pruned when it reports an error, and the
  step keeps a call that nothing answers.
\<close>

definition pruned_call :: "string \<Rightarrow> tool_call" where
  "pruned_call i = \<lparr>tc_id = i, tc_name = ''Grep'', tc_arguments = JNull, tc_provider_metadata = None\<rparr>"

definition parallel_history :: "string \<Rightarrow> message list" where
  "parallel_history c = [(sample_message ''a1'' RoleAssistant ''both'')\<lparr>me_tool_calls := [pruned_call ''c1'', pruned_call ''c2'']\<rparr>,
     (sample_message ''t1'' RoleTool ''ok'')\<lparr>me_tool_call_id := Some ''c1''\<rparr>,
     (sample_message ''t2'' RoleTool c)\<lparr>me_tool_call_id := Some ''c2''\<rparr>,
     (sample_message ''a2'' RoleAssistant ''next'')\<lparr>me_tool_calls := [pruned_call ''c3'']\<rparr>,
     (sample_message ''t3'' RoleTool ''ok'')\<lparr>me_tool_call_id := Some ''c3''\<rparr>]"

lemma parallel_boundary: "find_last_assistant_tool_boundary (parallel_history c) = Some 3"
  by (simp add: find_last_assistant_tool_boundary_def parallel_history_def sample_message_def plain_message_def has_tool_result_def upt_rec)

lemma parallel_dead_result:
  assumes "matches_error_patterns c []"
  shows "dead_result (pruner_from_config default_intra_turn_config) (parallel_history c) i \<longleftrightarrow> i = 2"
proof -
  consider "i = 0" | "i = 1" | "i = 2" | "i = 3" | "i = 4" | "5 \<le> i" by linarith
  then show ?thesis
    unfolding dead_result_def Let_def parallel_boundary
    using assms by cases (simp_all add: is_failed_result_def parallel_history_def sample_message_def plain_message_def pruner_from_config_def)
qed

lemma parallel_no_repeat: "\<not> repeated_step (parallel_history c) b a"
proof
  assume r: "repeated_step (parallel_history c) b a"
  then have calls: "me_tool_calls (parallel_history c ! a) = []" "me_role (parallel_history c ! a) = RoleAssistant"
    using repeated_step_assistant [OF r] by (auto simp: repeated_step_def repeats_def)
  have "a < 5" using repeated_step_assistant [OF r] by (simp add: parallel_history_def)
  then consider "a = 0" | "a = 1" | "a = 2" | "a = 3" | "a = 4" by linarith
  then show False using calls by cases (simp_all add: parallel_history_def sample_message_def plain_message_def)
qed

theorem parallel_result_pruned:
  assumes "matches_error_patterns c []" "1000 \<le> estimate_tokens c"
  shows "fst (prune_working_history (pruner_from_config default_intra_turn_config) (parallel_history c) 3)
     = filter (\<lambda>m. me_id m \<noteq> ''t2'') (parallel_history c)"
proof -
  let ?p = "pruner_from_config default_intra_turn_config" and ?ms = "parallel_history c"
  have step: "\<not> dead_step ?p ?ms a" for a
  proof
    assume "dead_step ?p ?ms a"
    then have "me_role (?ms ! a) = RoleAssistant" "a = 1" using parallel_dead_result [OF assms(1)] parallel_no_repeat by (auto simp: dead_step_def)
    then show False by (simp add: parallel_history_def sample_message_def plain_message_def)
  qed
  have ids: "set (map fst (prune_marks ?p ?ms)) = {''t2''}"
    unfolding marked_ids parallel_dead_result [OF assms(1)]
    using step parallel_no_repeat by (auto simp: parallel_history_def sample_message_def)
  have "mark_of (?ms ! 2) \<in> set (prune_marks ?p ?ms)"
  proof -
    have "is_failed_result (\<lambda>c. matches_error_patterns c (ip_extra_patterns ?p)) ?ms (Some 3) 2"
      using assms(1) by (simp add: is_failed_result_def parallel_history_def sample_message_def plain_message_def pruner_from_config_def)
    then have "mark_of (?ms ! 2) \<in> set (result_marks (\<lambda>c. matches_error_patterns c (ip_extra_patterns ?p)) ?ms (Some 3) 2)"
      by (subst result_marks_eq) (simp_all add: parallel_history_def)
    moreover have "2 < length ?ms" by (simp add: parallel_history_def)
    ultimately show ?thesis
      unfolding prune_marks_def Let_def parallel_boundary detect_error_tool_results_def by (auto intro!: bexI [of _ 2])
  qed
  then have "snd (mark_of (?ms ! 2)) \<le> sum_list (map snd (prune_marks ?p ?ms))" by (intro member_le_sum_list) auto
  then have tokens: "1000 \<le> sum_list (map snd (prune_marks ?p ?ms))"
    using assms(2) by (simp add: parallel_history_def mark_of_def sample_message_def plain_message_def)
  have "ensure_structural_integrity ?ms {''t2''} = {''t2''}"
    by (simp add: ensure_structural_integrity_def remove_call_results_def remove_answered_call_def answers_any_def answers_call_def
      parallel_history_def sample_message_def plain_message_def pruned_call_def)
  then show ?thesis unfolding prune_working_history_def Let_def ids
    using tokens by (simp add: pruner_from_config_def default_intra_turn_config_def)
qed

end
