(* ===== verification/Transcript_Store.thy ===== *)
theory Transcript_Store
  imports Text "HOL-Library.Sublist"
begin

text \<open>
  The transcripts of a session, \<^verbatim>\<open>crates/hf-storage/src/transcript.rs\<close> and \<^verbatim>\<open>transcript_display.rs\<close>: files of one JSON
  record per line, written by appending and rewritten by renaming. A file is its bytes. The encoder and the
  decoder of a record are arguments; an append may reach the disk in part, when the process or the
  machine stops.
\<close>

section \<open>Records and lines\<close>

type_synonym bytes = "nat list"

definition newline :: nat where
  "newline = 10"

definition is_ascii_whitespace :: "nat \<Rightarrow> bool" where
  "is_ascii_whitespace b \<longleftrightarrow> b \<in> {9, 10, 12, 13, 32}"

text \<open>\<^verbatim>\<open>read_until\<close>: the lines of a file, each with its newline; the last one may lack it.\<close>

fun lines_of :: "bytes \<Rightarrow> bytes \<Rightarrow> bytes list" where
  "lines_of acc [] = (if acc = [] then [] else [rev acc])"
| "lines_of acc (b # bs) = (if b = newline then rev (b # acc) # lines_of [] bs else lines_of (b # acc) bs)"

definition visit_messages_from_file :: "(bytes \<Rightarrow> 'm option) \<Rightarrow> bytes \<Rightarrow> 'm list" where
  "visit_messages_from_file dec bs = List.map_filter dec (filter (\<lambda>l. \<not> list_all is_ascii_whitespace l) (lines_of [] bs))"

definition read_messages_from_file :: "(bytes \<Rightarrow> 'm option) \<Rightarrow> bytes \<Rightarrow> 'm list" where
  "read_messages_from_file dec bs = foldl (\<lambda>ms m. ms @ [m]) [] (visit_messages_from_file dec bs)"

definition count_messages_from_file :: "(bytes \<Rightarrow> 'm option) \<Rightarrow> bytes \<Rightarrow> nat" where
  "count_messages_from_file dec bs = foldl (\<lambda>n _. n + 1) 0 (visit_messages_from_file dec bs)"

definition ring_push :: "nat \<Rightarrow> 'm list \<Rightarrow> 'm \<Rightarrow> 'm list" where
  "ring_push count ring m = (if length ring = count then tl ring else ring) @ [m]"

definition read_last_messages_from_file :: "(bytes \<Rightarrow> 'm option) \<Rightarrow> bytes \<Rightarrow> nat \<Rightarrow> 'm list" where
  "read_last_messages_from_file dec bs count =
     (if count = 0 then [] else foldl (ring_push count) [] (visit_messages_from_file dec bs))"

section \<open>Writing\<close>

definition ensure_record_separator :: "bytes \<Rightarrow> bytes" where
  "ensure_record_separator bs = (if bs = [] then [] else if last bs \<noteq> newline then [newline] else [])"

text \<open>The bytes an append writes, and the file afterwards: all of them, or as many as reached the disk.\<close>

definition append_record :: "('m \<Rightarrow> bytes) \<Rightarrow> bytes \<Rightarrow> 'm \<Rightarrow> bytes" where
  "append_record enc bs m = ensure_record_separator bs @ enc m @ [newline]"

definition transcript_append :: "('m \<Rightarrow> bytes) \<Rightarrow> nat option \<Rightarrow> 'm \<Rightarrow> bytes \<Rightarrow> bytes" where
  "transcript_append enc torn m bs =
     bs @ (case torn of None \<Rightarrow> append_record enc bs m | Some k \<Rightarrow> take k (append_record enc bs m))"

text \<open>\<^verbatim>\<open>truncate\<close> with \<^verbatim>\<open>durable_rewrite\<close>: the new file replaces the old one by a rename, which may fail.\<close>

definition transcript_truncate :: "('m \<Rightarrow> bytes) \<Rightarrow> (bytes \<Rightarrow> 'm option) \<Rightarrow> bool \<Rightarrow> nat \<Rightarrow> bytes \<Rightarrow> bytes \<times> nat option" where
  "transcript_truncate enc dec failed keep_count bs =
     (let all = read_messages_from_file dec bs
      in if keep_count \<ge> length all then (bs, Some 0)
         else if failed then (bs, None)
         else (concat (map (\<lambda>m. enc m @ [newline]) (take keep_count all)), Some (length all - keep_count)))"

definition transcript_file_stem :: "string \<Rightarrow> string option" where
  "transcript_file_stem value =
     (if value = [] \<or> utf8_len value > 128 \<or> \<not> list_all (\<lambda>c. is_ascii_alphanumeric c \<or> c = CHR ''-'' \<or> c = CHR ''_'') value
      then None else Some value)"

section \<open>What a reader gets\<close>

text \<open>
  What the code relies on in the encoder and decoder: a record is one line, decoding returns what was encoded
  whether or not the newline is there, and a torn record decodes to nothing.
\<close>

definition codec_ok :: "('m \<Rightarrow> bytes) \<Rightarrow> (bytes \<Rightarrow> 'm option) \<Rightarrow> bool" where
  "codec_ok enc dec \<longleftrightarrow> (\<forall>m. newline \<notin> set (enc m) \<and> \<not> list_all is_ascii_whitespace (enc m)
     \<and> dec (enc m) = Some m \<and> dec (enc m @ [newline]) = Some m
     \<and> (\<forall>k < length (enc m). dec (take k (enc m)) = None \<and> dec (take k (enc m) @ [newline]) = None))"

lemma read_is_visit: "read_messages_from_file dec bs = visit_messages_from_file dec bs"
proof -
  have "foldl (\<lambda>ms m. ms @ [m]) a xs = a @ xs" for a and xs :: "'a list" by (induction xs arbitrary: a) auto
  then show ?thesis by (simp add: read_messages_from_file_def)
qed

lemma count_is_length: "count_messages_from_file dec bs = length (read_messages_from_file dec bs)"
proof -
  have "foldl (\<lambda>n _. n + 1) a xs = a + length xs" for a :: nat and xs :: "'a list" by (induction xs arbitrary: a) auto
  then show ?thesis by (simp add: count_messages_from_file_def read_is_visit)
qed

lemma ring_push_last: "0 < n \<Longrightarrow> foldl (ring_push n) (drop (length a - n) a) xs = drop (length (a @ xs) - n) (a @ xs)"
proof (induction xs arbitrary: a)
  case (Cons x xs)
  have "ring_push n (drop (length a - n) a) x = drop (length (a @ [x]) - n) (a @ [x])"
    using Cons.prems by (cases "n \<le> length a") (auto simp: ring_push_def tl_drop drop_Suc Suc_diff_le)
  then show ?case using Cons.IH [of "a @ [x]"] Cons.prems by simp
qed simp

lemma read_last_is_suffix:
  "read_last_messages_from_file dec bs n = drop (length (read_messages_from_file dec bs) - n) (read_messages_from_file dec bs)"
  using ring_push_last [of n "[]" "visit_messages_from_file dec bs"] by (simp add: read_last_messages_from_file_def read_is_visit)

lemma lines_of_terminated: "lines_of acc (xs @ newline # ys) = lines_of acc (xs @ [newline]) @ lines_of [] ys"
  by (induction acc xs rule: lines_of.induct) auto

lemma lines_of_unterminated: "newline \<notin> set xs \<Longrightarrow> lines_of acc xs = (if rev acc @ xs = [] then [] else [rev acc @ xs])"
  by (induction acc xs rule: lines_of.induct) auto

lemma lines_of_line: "newline \<notin> set xs \<Longrightarrow> lines_of acc (xs @ [newline]) = [rev acc @ xs @ [newline]]"
  by (induction acc xs rule: lines_of.induct) auto

text \<open>A file is complete lines and an unterminated rest.\<close>

definition terminated :: "bytes \<Rightarrow> bool" where
  "terminated bs \<longleftrightarrow> bs = [] \<or> last bs = newline"

lemma visit_terminated:
  assumes "terminated a"
  shows "visit_messages_from_file dec (a @ b) = visit_messages_from_file dec a @ visit_messages_from_file dec b"
proof (cases "a = []")
  case True
  then show ?thesis by (simp add: visit_messages_from_file_def List.map_filter_def)
next
  case False
  then obtain xs where a: "a = xs @ [newline]" using assms by (metis terminated_def append_butlast_last_id)
  show ?thesis using lines_of_terminated [of "[]" xs b] by (simp add: visit_messages_from_file_def List.map_filter_def a)
qed

lemma visit_record:
  assumes "codec_ok enc dec" "k \<le> length (enc m)"
  shows "visit_messages_from_file dec (take k (enc m)) = (if k = length (enc m) then [m] else [])"
    and "visit_messages_from_file dec (take k (enc m) @ [newline]) = (if k = length (enc m) then [m] else [])"
proof -
  have c: "newline \<notin> set (enc m)" "\<not> list_all is_ascii_whitespace (enc m)" "dec (enc m) = Some m" "dec (enc m @ [newline]) = Some m"
    "k < length (enc m) \<Longrightarrow> dec (take k (enc m)) = None" "k < length (enc m) \<Longrightarrow> dec (take k (enc m) @ [newline]) = None"
    using assms(1) by (auto simp: codec_ok_def)
  have n: "newline \<notin> set (take k (enc m))" using c(1) by (meson in_set_takeD)
  have full: "take k (enc m) = enc m" if "k = length (enc m)" using that by simp
  have short: "k < length (enc m)" if "k \<noteq> length (enc m)" using that assms(2) by simp
  show "visit_messages_from_file dec (take k (enc m)) = (if k = length (enc m) then [m] else [])"
    using lines_of_unterminated [OF n, of "[]"] full short c(2,3,5) by (auto simp: visit_messages_from_file_def List.map_filter_def)
  have "\<not> list_all is_ascii_whitespace (enc m @ [newline])" using c(2) by simp
  then show "visit_messages_from_file dec (take k (enc m) @ [newline]) = (if k = length (enc m) then [m] else [])"
    using lines_of_line [OF n, of "[]"] full short c(4,6) by (auto simp: visit_messages_from_file_def List.map_filter_def)
qed

text \<open>The rest of a file is the start of a record.\<close>

definition torn_file :: "('m \<Rightarrow> bytes) \<Rightarrow> bytes \<Rightarrow> bool" where
  "torn_file enc bs \<longleftrightarrow> (\<exists>a p. bs = a @ p \<and> terminated a \<and> (p = [] \<or> (\<exists>m. \<exists>k \<le> length (enc m). p = take k (enc m))))"

lemma terminated_torn_file: "terminated bs \<Longrightarrow> torn_file enc bs"
  unfolding torn_file_def by (metis append_Nil2)

lemma terminated_append: "terminated (xs @ [newline])"
  by (simp add: terminated_def)

text \<open>After a complete line, what reached the disk of one record.\<close>

lemma append_at_line:
  assumes "codec_ok enc dec" "terminated a"
  shows "torn_file enc (a @ take j (enc m @ [newline]))
     \<and> visit_messages_from_file dec (a @ take j (enc m @ [newline])) = visit_messages_from_file dec a @ (if length (enc m) \<le> j then [m] else [])"
proof (cases "j \<le> length (enc m)")
  case True
  then have "torn_file enc (a @ take j (enc m @ [newline]))" using assms(2) by (auto simp: torn_file_def)
  moreover have "visit_messages_from_file dec (take j (enc m @ [newline])) = (if length (enc m) \<le> j then [m] else [])"
    using visit_record(1) [of enc dec j m] assms(1) True by auto
  ultimately show ?thesis by (simp add: visit_terminated [OF assms(2)])
next
  case False
  then have full: "take j (enc m @ [newline]) = enc m @ [newline]" by simp
  have "torn_file enc (a @ enc m @ [newline])" using terminated_torn_file [OF terminated_append, of enc "a @ enc m"] by simp
  then show ?thesis using visit_record(2) [of enc dec "length (enc m)" m] assms(1) False
    by (simp add: full visit_terminated [OF assms(2)])
qed

lemma torn_file_separated:
  assumes "codec_ok enc dec" "torn_file enc bs"
  shows "terminated (bs @ ensure_record_separator bs)"
    and "visit_messages_from_file dec (bs @ ensure_record_separator bs) = visit_messages_from_file dec bs"
proof -
  show "terminated (bs @ ensure_record_separator bs)" by (auto simp: terminated_def ensure_record_separator_def)
  obtain a p where bs: "bs = a @ p" "terminated a" "p = [] \<or> (\<exists>m. \<exists>k \<le> length (enc m). p = take k (enc m))"
    using assms(2) by (auto simp: torn_file_def)
  show "visit_messages_from_file dec (bs @ ensure_record_separator bs) = visit_messages_from_file dec bs"
  proof (cases "ensure_record_separator bs = []")
    case False
    then have sep: "ensure_record_separator bs = [newline]" "bs \<noteq> []" "last bs \<noteq> newline"
      by (auto simp: ensure_record_separator_def split: if_splits)
    then have "p \<noteq> []" using bs(1,2) by (auto simp: terminated_def)
    then obtain m k where p: "k \<le> length (enc m)" "p = take k (enc m)" using bs(3) by blast
    have "visit_messages_from_file dec (p @ [newline]) = visit_messages_from_file dec p"
      unfolding p(2) using visit_record [OF assms(1) p(1)] by simp
    then show ?thesis using visit_terminated [OF bs(2), of dec] by (simp add: bs(1) sep(1)[unfolded bs(1)])
  qed simp
qed

text \<open>Whether the record of an attempt is in the file.\<close>

definition landed :: "('m \<Rightarrow> bytes) \<Rightarrow> nat option \<Rightarrow> 'm \<Rightarrow> bytes \<Rightarrow> bool" where
  "landed enc torn m bs \<longleftrightarrow> (case torn of None \<Rightarrow> True | Some k \<Rightarrow> length (ensure_record_separator bs) + length (enc m) \<le> k)"

lemma append_effect:
  assumes "codec_ok enc dec" "torn_file enc bs"
  shows "torn_file enc (transcript_append enc torn m bs)
     \<and> visit_messages_from_file dec (transcript_append enc torn m bs)
         = visit_messages_from_file dec bs @ (if landed enc torn m bs then [m] else [])"
proof -
  let ?s = "ensure_record_separator bs"
  note sep = torn_file_separated [OF assms]
  have some: "torn_file enc (bs @ take k (?s @ enc m @ [newline]))
     \<and> visit_messages_from_file dec (bs @ take k (?s @ enc m @ [newline]))
         = visit_messages_from_file dec bs @ (if length ?s + length (enc m) \<le> k then [m] else [])" for k
  proof (cases "k < length ?s")
    case True
    then have "k = 0" by (auto simp: ensure_record_separator_def split: if_splits)
    then show ?thesis using True assms(2) by simp
  next
    case False
    then have e: "bs @ take k (?s @ enc m @ [newline]) = (bs @ ?s) @ take (k - length ?s) (enc m @ [newline])" by simp
    have i: "(length ?s + length (enc m) \<le> k) = (length (enc m) \<le> k - length ?s)" using False by linarith
    show ?thesis unfolding e i using append_at_line [OF assms(1) sep(1), of "k - length ?s" m] unfolding sep(2) .
  qed
  show ?thesis
  proof (cases torn)
    case None
    then show ?thesis using some [of "length (?s @ enc m @ [newline])"] by (simp add: transcript_append_def append_record_def landed_def)
  next
    case (Some k)
    then show ?thesis using some [of k] by (simp add: transcript_append_def append_record_def landed_def)
  qed
qed

lemma rewritten_file:
  assumes "codec_ok enc dec"
  shows "terminated (concat (map (\<lambda>m. enc m @ [newline]) ms)) \<and> visit_messages_from_file dec (concat (map (\<lambda>m. enc m @ [newline]) ms)) = ms"
proof (induction ms)
  case Nil
  show ?case by (simp add: terminated_def visit_messages_from_file_def List.map_filter_def)
next
  case (Cons m ms)
  let ?r = "concat (map (\<lambda>m. enc m @ [newline]) ms)"
  have "terminated ((enc m @ [newline]) @ ?r)" using Cons.IH by (auto simp: terminated_def)
  moreover have "visit_messages_from_file dec ((enc m @ [newline]) @ ?r) = m # ms"
    using visit_terminated [OF terminated_append [of "enc m"], of dec ?r] visit_record(2) [OF assms, of "length (enc m)" m] Cons.IH by simp
  ultimately show ?case by simp
qed

section \<open>Acknowledged messages survive\<close>

datatype 'm transcript_event = Append 'm "nat option" | Truncate nat bool

fun transcript_step :: "('m \<Rightarrow> bytes) \<Rightarrow> (bytes \<Rightarrow> 'm option) \<Rightarrow> bytes \<Rightarrow> 'm transcript_event \<Rightarrow> bytes" where
  "transcript_step enc dec bs (Append m torn) = transcript_append enc torn m bs"
| "transcript_step enc dec bs (Truncate n failed) = fst (transcript_truncate enc dec failed n bs)"

text \<open>The abstract transcript: a list, of which an append that is acknowledged extends the end and one that is not may.\<close>

inductive transcript_spec :: "'m list \<Rightarrow> 'm transcript_event list \<Rightarrow> 'm list \<Rightarrow> bool" where
  spec_done: "transcript_spec ms [] ms"
| spec_appended: "transcript_spec (ms @ [m]) es r \<Longrightarrow> transcript_spec ms (Append m torn # es) r"
| spec_torn: "transcript_spec ms es r \<Longrightarrow> transcript_spec ms (Append m (Some k) # es) r"
| spec_truncated: "transcript_spec (take n ms) es r \<Longrightarrow> transcript_spec ms (Truncate n False # es) r"
| spec_kept: "transcript_spec ms es r \<Longrightarrow> transcript_spec ms (Truncate n True # es) r"

lemma truncate_effect:
  assumes "codec_ok enc dec" "torn_file enc bs"
  shows "torn_file enc (fst (transcript_truncate enc dec failed n bs))
     \<and> visit_messages_from_file dec (fst (transcript_truncate enc dec failed n bs))
         = (if failed then visit_messages_from_file dec bs else take n (visit_messages_from_file dec bs))"
  using assms rewritten_file [OF assms(1), of "take n (visit_messages_from_file dec bs)"] terminated_torn_file [of _ enc]
  by (auto simp: transcript_truncate_def Let_def read_is_visit)

lemma transcript_refines_from:
  assumes "codec_ok enc dec" "torn_file enc bs"
  shows "transcript_spec (visit_messages_from_file dec bs) es (visit_messages_from_file dec (foldl (transcript_step enc dec) bs es))"
  using assms(2)
proof (induction es arbitrary: bs)
  case Nil
  show ?case by (simp add: spec_done)
next
  case (Cons e es)
  show ?case
  proof (cases e)
    case (Append m torn)
    note step = append_effect [OF assms(1) Cons.prems, of torn m]
    show ?thesis
    proof (cases "landed enc torn m bs")
      case True
      then show ?thesis using step Cons.IH [of "transcript_append enc torn m bs"] Append by (auto intro: spec_appended)
    next
      case False
      then obtain k where "torn = Some k" by (auto simp: landed_def split: option.splits)
      then show ?thesis using False step Cons.IH [of "transcript_append enc torn m bs"] Append by (auto intro: spec_torn)
    qed
  next
    case (Truncate n failed)
    note step = truncate_effect [OF assms(1) Cons.prems, of failed n]
    show ?thesis using step Cons.IH [of "fst (transcript_truncate enc dec failed n bs)"] Truncate
      by (cases failed) (auto intro: spec_truncated spec_kept)
  qed
qed

text \<open>C38. The transcript file is a list of messages, through crashes: after any sequence of appends,
  of which any may stop after any number of bytes, and of truncations, of which any may fail, the
  messages read are those of the abstract transcript, in which every acknowledged append added its
  message at the end and a torn one added it whole or not at all. Counting counts and reading the
  last messages returns the end of exactly that list.\<close>

theorem transcript_survives_crashes:
  assumes "codec_ok enc dec"
  shows "let bs = foldl (transcript_step enc dec) [] es; ms = read_messages_from_file dec bs
     in transcript_spec [] es ms \<and> count_messages_from_file dec bs = length ms
        \<and> (\<forall>n. read_last_messages_from_file dec bs n = drop (length ms - n) ms)"
proof -
  have "torn_file enc []" by (intro terminated_torn_file) (simp add: terminated_def)
  moreover have "visit_messages_from_file dec [] = []" by (simp add: visit_messages_from_file_def List.map_filter_def)
  ultimately show ?thesis using transcript_refines_from [OF assms, of "[]" es] by (simp add: Let_def count_is_length read_last_is_suffix read_is_visit)
qed

text \<open>A codec of numbers: a number is a bracketed run of ones.\<close>

definition run_encode :: "nat \<Rightarrow> bytes" where
  "run_encode n = 123 # replicate n 49 @ [125]"

definition run_decode :: "bytes \<Rightarrow> nat option" where
  "run_decode bs = (let l = (if bs \<noteq> [] \<and> last bs = newline then butlast bs else bs)
     in if 2 \<le> length l \<and> l = run_encode (length l - 2) then Some (length l - 2) else None)"

lemma run_codec_ok: "codec_ok run_encode run_decode"
proof -
  have last: "last (run_encode m) = 125" "length (run_encode m) = m + 2" for m by (simp_all add: run_encode_def)
  have torn: "take k (run_encode m) \<noteq> run_encode j" if "k < length (run_encode m)" for k m j
  proof
    assume eq: "take k (run_encode m) = run_encode j"
    then have "k = j + 2" using that last(2) by (metis length_take min.absorb4)
    then have "take k (run_encode m) ! (j + 1) = run_encode m ! (j + 1)" "run_encode m ! (j + 1) = 49"
      using that last(2) [of m] by (simp, simp add: run_encode_def nth_append)
    moreover have "run_encode j ! (j + 1) = 125" by (simp add: run_encode_def nth_append)
    ultimately show False using eq by simp
  qed
  have short: "run_decode (take k (run_encode m)) = None" "run_decode (take k (run_encode m) @ [newline]) = None" if "k < length (run_encode m)" for k m
  proof -
    have "newline \<notin> set (take k (run_encode m))" by (auto simp: run_encode_def newline_def dest!: in_set_takeD)
    then have "take k (run_encode m) \<noteq> [] \<Longrightarrow> last (take k (run_encode m)) \<noteq> newline" by (metis last_in_set)
    then show "run_decode (take k (run_encode m)) = None" "run_decode (take k (run_encode m) @ [newline]) = None"
      using torn [OF that] by (auto simp: run_decode_def Let_def)
  qed
  have "run_decode (run_encode m) = Some m" "run_decode (run_encode m @ [newline]) = Some m" for m
    using last [of m] by (simp_all add: run_decode_def Let_def newline_def)
  moreover have "newline \<notin> set (run_encode m)" "\<not> list_all is_ascii_whitespace (run_encode m)" for m
    by (auto simp: run_encode_def newline_def is_ascii_whitespace_def)
  ultimately show ?thesis using short by (simp add: codec_ok_def)
qed

theorem transcript_survives_crashes_witness:
  "transcript_spec [] [Append (2::nat) None, Append 5 (Some 3), Append 1 None]
     (read_messages_from_file run_decode (foldl (transcript_step run_encode run_decode) [] [Append 2 None, Append 5 (Some 3), Append 1 None]))"
  using transcript_survives_crashes [OF run_codec_ok, of "[Append 2 None, Append 5 (Some 3), Append 1 None]"] by (simp add: Let_def)

end
