(* ===== verification/Session_Manager.thy ===== *)
theory Session_Manager
  imports Context_Window Transcript_Store
begin

text \<open>
  Sessions: \<^verbatim>\<open>crates/hf-session/src/state_machine.rs\<close>, \<^verbatim>\<open>manager.rs\<close> and \<^verbatim>\<open>checkpoint.rs\<close> over the stores of
  \<^verbatim>\<open>crates/hf-storage\<close> (\<^verbatim>\<open>session_store.rs\<close>, \<^verbatim>\<open>checkpoint_store.rs\<close> and the transcripts). The world is the table of
  sessions, the table of checkpoints and the two transcripts of each session. Every call of a store
  may fail; a fault says at which call and, for the two calls that can fail after they took effect,
  whether they did. Errors that embed other errors keep them as arguments instead of their text.
  Identifiers of new rows are arguments and the clock is part of the world. The columns that nothing here writes (channel,
  label and the compaction counters) are left out.
\<close>

section \<open>Sessions\<close>

datatype session_state = SActive | SPaused | SArchived | SMerged | STombstone

datatype session_type = TyMain | TyChild | TyBranch | TyEphemeral | TySubAgent | TyCanonical

record session_node =
  sn_id :: string
  sn_parent_id :: "string option"
  sn_root_id :: string
  sn_depth :: nat
  sn_path :: "string list"
  sn_session_type :: session_type
  sn_state :: session_state
  sn_agent_id :: "string option"
  sn_title :: "string option"
  sn_manual_title :: "string option"
  sn_token_count :: nat
  sn_message_count :: nat
  sn_context_reset_index :: "nat option"
  sn_custom_system_prompt :: "string option"
  sn_created_at :: int
  sn_updated_at :: int

record create_session_options =
  co_parent_id :: "string option"
  co_session_type :: session_type
  co_agent_id :: "string option"
  co_title :: "string option"

record chat_checkpoint =
  cc_checkpoint_id :: string
  cc_session_id :: string
  cc_turn_number :: nat
  cc_message_count_before :: nat
  cc_journal_scope_id :: string
  cc_invalidated :: bool
  cc_created_at :: int

datatype session_error = SeNotFound string | SeStorage string | SeTranscript string | SeOther string

datatype manager_error =
    MeNotFound string
  | MeInvalidTransition session_state session_state
  | MeNotActive session_state
  | MeStorage session_error
  | MeTranscript string session_error
  | MeConfig nat
  | MeNothingToFork
  | MeRolledBack string manager_error
  | MeCompensationFailed string manager_error "manager_error list"

fun from_session_error :: "session_error \<Rightarrow> manager_error" where
  "from_session_error (SeNotFound i) = MeNotFound i"
| "from_session_error e = MeStorage e"

section \<open>The state machine\<close>

fun is_valid_transition :: "session_state \<Rightarrow> session_state \<Rightarrow> bool" where
  "is_valid_transition SActive s' = (s' \<in> {SPaused, SArchived, SMerged, STombstone})"
| "is_valid_transition SPaused s' = (s' \<in> {SActive, SArchived, STombstone})"
| "is_valid_transition SArchived s' = (s' = STombstone)"
| "is_valid_transition SMerged s' = (s' = STombstone)"
| "is_valid_transition STombstone s' = False"

definition validate_transition :: "session_state \<Rightarrow> session_state \<Rightarrow> (manager_error, unit) result" where
  "validate_transition s s' =
     (if s = s' then Inl (MeInvalidTransition s s')
      else if is_valid_transition s s' then Inr () else Inl (MeInvalidTransition s s'))"

definition valid_transitions :: "session_state \<Rightarrow> session_state list" where
  "valid_transitions s = filter (is_valid_transition s) [SActive, SPaused, SArchived, SMerged, STombstone]"

section \<open>The stores\<close>

datatype fault = NoFault | FailBefore string | FailAfter string

type_synonym faults = "nat \<Rightarrow> fault"

record world =
  sw_sessions :: "session_node list"
  sw_checkpoints :: "chat_checkpoint list"
  sw_display :: "string \<Rightarrow> message list"
  sw_context :: "string \<Rightarrow> message list"
  sw_calls :: nat
  sw_now :: int

type_synonym ('e, 'a) outcome = "world \<times> ('e, 'a) result"

definition sbind :: "('e, 'a) outcome \<Rightarrow> ('a \<Rightarrow> world \<Rightarrow> ('e, 'b) outcome) \<Rightarrow> ('e, 'b) outcome" where
  "sbind o1 k = (case o1 of (w, Inl e) \<Rightarrow> (w, Inl e) | (w, Inr a) \<Rightarrow> k a w)"

definition map_err :: "('e \<Rightarrow> 'd) \<Rightarrow> ('e, 'a) outcome \<Rightarrow> ('d, 'a) outcome" where
  "map_err g o1 = (case o1 of (w, Inl e) \<Rightarrow> (w, Inl (g e)) | (w, Inr a) \<Rightarrow> (w, Inr a))"

text \<open>One call: a fault before it changes nothing; a fault after it matters where \<open>late\<close> says what it left.\<close>

definition store_call ::
  "faults \<Rightarrow> (world \<Rightarrow> world) \<Rightarrow> (world \<Rightarrow> (session_error, 'a) outcome) \<Rightarrow> world \<Rightarrow> (session_error, 'a) outcome" where
  "store_call f late op1 w =
     (let w' = w\<lparr>sw_calls := sw_calls w + 1\<rparr>
      in (case f (sw_calls w) of
            NoFault \<Rightarrow> op1 w'
          | FailBefore e \<Rightarrow> (w', Inl (SeStorage e))
          | FailAfter e \<Rightarrow> (late w', Inl (SeStorage e))))"

abbreviation sql_call :: "faults \<Rightarrow> (world \<Rightarrow> (session_error, 'a) outcome) \<Rightarrow> world \<Rightarrow> (session_error, 'a) outcome" where
  "sql_call f op1 \<equiv> store_call f (\<lambda>w. w) op1"

definition lookup_session :: "world \<Rightarrow> string \<Rightarrow> session_node option" where
  "lookup_session w i = find (\<lambda>n. sn_id n = i) (sw_sessions w)"

definition session_get :: "faults \<Rightarrow> string \<Rightarrow> world \<Rightarrow> (session_error, session_node) outcome" where
  "session_get f i = sql_call f (\<lambda>w. (w, case lookup_session w i of Some n \<Rightarrow> Inr n | None \<Rightarrow> Inl (SeNotFound i)))"

text \<open>An \<^verbatim>\<open>UPDATE ... WHERE id = ?\<close> that fails when no row matches.\<close>

definition update_row :: "string \<Rightarrow> (session_node \<Rightarrow> session_node) \<Rightarrow> world \<Rightarrow> (session_error, unit) outcome" where
  "update_row i g w =
     (if lookup_session w i = None then (w, Inl (SeNotFound i))
      else (w\<lparr>sw_sessions := map (\<lambda>n. if sn_id n = i then (g n)\<lparr>sn_updated_at := sw_now w\<rparr> else n) (sw_sessions w)\<rparr>, Inr ()))"

definition session_set_state :: "faults \<Rightarrow> string \<Rightarrow> session_state \<Rightarrow> world \<Rightarrow> (session_error, unit) outcome" where
  "session_set_state f i s = sql_call f (update_row i (\<lambda>n. n\<lparr>sn_state := s\<rparr>))"

definition update_metadata :: "faults \<Rightarrow> string \<Rightarrow> string option \<Rightarrow> nat \<Rightarrow> nat \<Rightarrow> world \<Rightarrow> (session_error, unit) outcome" where
  "update_metadata f i title tokens messages =
     sql_call f (update_row i (\<lambda>n. n\<lparr>sn_title := (case title of Some t \<Rightarrow> Some t | None \<Rightarrow> sn_title n), sn_token_count := tokens, sn_message_count := messages\<rparr>))"

definition session_set_title :: "faults \<Rightarrow> string \<Rightarrow> string \<Rightarrow> world \<Rightarrow> (session_error, unit) outcome" where
  "session_set_title f i title = sql_call f (update_row i (\<lambda>n. n\<lparr>sn_title := Some title\<rparr>))"

definition session_set_manual_title :: "faults \<Rightarrow> string \<Rightarrow> string option \<Rightarrow> world \<Rightarrow> (session_error, unit) outcome" where
  "session_set_manual_title f i title = sql_call f (update_row i (\<lambda>n. n\<lparr>sn_manual_title := title\<rparr>))"

definition get_context_reset_index :: "faults \<Rightarrow> string \<Rightarrow> world \<Rightarrow> (session_error, nat option) outcome" where
  "get_context_reset_index f i = sql_call f (\<lambda>w. (w, case lookup_session w i of Some n \<Rightarrow> Inr (sn_context_reset_index n) | None \<Rightarrow> Inl (SeNotFound i)))"

definition set_context_reset_index :: "faults \<Rightarrow> string \<Rightarrow> nat option \<Rightarrow> world \<Rightarrow> (session_error, unit) outcome" where
  "set_context_reset_index f i index = sql_call f (update_row i (\<lambda>n. n\<lparr>sn_context_reset_index := index\<rparr>))"

definition set_custom_system_prompt :: "faults \<Rightarrow> string \<Rightarrow> string option \<Rightarrow> world \<Rightarrow> (session_error, unit) outcome" where
  "set_custom_system_prompt f i prompt = sql_call f (update_row i (\<lambda>n. n\<lparr>sn_custom_system_prompt := prompt\<rparr>))"

text \<open>\<^verbatim>\<open>create\<close>: the parent is read, the row inserted, and read back.\<close>

definition insert_session :: "string \<Rightarrow> create_session_options \<Rightarrow> session_node option \<Rightarrow> world \<Rightarrow> (session_error, unit) outcome" where
  "insert_session i opts parent w =
     (if lookup_session w i \<noteq> None then (w, Inl (SeStorage ''UNIQUE constraint failed''))
      else (w\<lparr>sw_sessions := sw_sessions w @ [\<lparr>sn_id = i, sn_parent_id = co_parent_id opts,
          sn_root_id = (case parent of Some p \<Rightarrow> sn_root_id p | None \<Rightarrow> i),
          sn_depth = (case parent of Some p \<Rightarrow> sn_depth p + 1 | None \<Rightarrow> 0),
          sn_path = (case parent of Some p \<Rightarrow> sn_path p @ [sn_id p] | None \<Rightarrow> []),
          sn_session_type = co_session_type opts, sn_state = SActive, sn_agent_id = co_agent_id opts, sn_title = co_title opts,
          sn_manual_title = None, sn_token_count = 0, sn_message_count = 0, sn_context_reset_index = None,
          sn_custom_system_prompt = None, sn_created_at = sw_now w, sn_updated_at = sw_now w\<rparr>]\<rparr>, Inr ()))"

definition session_create :: "faults \<Rightarrow> string \<Rightarrow> create_session_options \<Rightarrow> world \<Rightarrow> (session_error, session_node) outcome" where
  "session_create f i opts w =
     sbind (case co_parent_id opts of
              Some p \<Rightarrow> sbind (session_get f p w) (\<lambda>n w. (w, Inr (Some n)))
            | None \<Rightarrow> (w, Inr None))
       (\<lambda>parent w. sbind (sql_call f (insert_session i opts parent) w) (\<lambda>_. session_get f i))"

text \<open>\<^verbatim>\<open>delete\<close>: refused while another row names the session; the checkpoints are deleted by a second statement.\<close>

definition references :: "string \<Rightarrow> session_node \<Rightarrow> bool" where
  "references i n \<longleftrightarrow> sn_id n \<noteq> i \<and> (sn_parent_id n = Some i \<or> sn_root_id n = i)"

definition delete_row :: "string \<Rightarrow> world \<Rightarrow> (session_error, unit) outcome" where
  "delete_row i w =
     (if list_ex (references i) (sw_sessions w) then (w, Inl (SeStorage ''FOREIGN KEY constraint failed''))
      else if lookup_session w i = None then (w, Inl (SeNotFound i))
      else (w\<lparr>sw_sessions := filter (\<lambda>n. sn_id n \<noteq> i) (sw_sessions w)\<rparr>, Inr ()))"

definition session_delete :: "faults \<Rightarrow> string \<Rightarrow> world \<Rightarrow> (session_error, unit) outcome" where
  "session_delete f i w =
     sbind (sql_call f (delete_row i) w)
       (\<lambda>_. sql_call f (\<lambda>w. (w\<lparr>sw_checkpoints := filter (\<lambda>c. cc_session_id c \<noteq> i) (sw_checkpoints w)\<rparr>, Inr ())))"

text \<open>The transcripts: what a reader of \<^verbatim>\<open>Transcript_Store\<close> sees. Only an append can fail after it took effect.\<close>

datatype channel_kind = Display | Context

fun transcript_of :: "channel_kind \<Rightarrow> world \<Rightarrow> string \<Rightarrow> message list" where
  "transcript_of Display w = sw_display w"
| "transcript_of Context w = sw_context w"

fun set_transcript :: "channel_kind \<Rightarrow> string \<Rightarrow> message list \<Rightarrow> world \<Rightarrow> world" where
  "set_transcript Display i ms w = w\<lparr>sw_display := (sw_display w)(i := ms)\<rparr>"
| "set_transcript Context i ms w = w\<lparr>sw_context := (sw_context w)(i := ms)\<rparr>"

definition with_stem :: "string \<Rightarrow> (world \<Rightarrow> (session_error, 'a) outcome) \<Rightarrow> world \<Rightarrow> (session_error, 'a) outcome" where
  "with_stem i op1 w = (if transcript_file_stem i = None then (w, Inl (SeTranscript ''invalid session identifier for transcript storage'')) else op1 w)"

definition message_append :: "faults \<Rightarrow> channel_kind \<Rightarrow> string \<Rightarrow> message \<Rightarrow> world \<Rightarrow> (session_error, unit) outcome" where
  "message_append f k i m = with_stem i
     (store_call f (\<lambda>w. set_transcript k i (transcript_of k w i @ [m]) w) (\<lambda>w. (set_transcript k i (transcript_of k w i @ [m]) w, Inr ())))"

definition message_read_all :: "faults \<Rightarrow> channel_kind \<Rightarrow> string \<Rightarrow> world \<Rightarrow> (session_error, message list) outcome" where
  "message_read_all f k i = with_stem i (sql_call f (\<lambda>w. (w, Inr (transcript_of k w i))))"

definition message_count :: "faults \<Rightarrow> channel_kind \<Rightarrow> string \<Rightarrow> world \<Rightarrow> (session_error, nat) outcome" where
  "message_count f k i = with_stem i (sql_call f (\<lambda>w. (w, Inr (length (transcript_of k w i)))))"

definition message_truncate :: "faults \<Rightarrow> channel_kind \<Rightarrow> string \<Rightarrow> nat \<Rightarrow> world \<Rightarrow> (session_error, nat) outcome" where
  "message_truncate f k i keep = with_stem i
     (sql_call f (\<lambda>w. (set_transcript k i (take keep (transcript_of k w i)) w, Inr (length (transcript_of k w i) - keep))))"

fun append_each :: "faults \<Rightarrow> channel_kind \<Rightarrow> string \<Rightarrow> message list \<Rightarrow> world \<Rightarrow> (session_error, unit) outcome" where
  "append_each f k i [] w = (w, Inr ())"
| "append_each f k i (m # ms) w = sbind (message_append f k i m w) (\<lambda>_. append_each f k i ms)"

section \<open>The session manager\<close>

definition compensated_error :: "string \<Rightarrow> manager_error \<Rightarrow> (manager_error list, unit) result \<Rightarrow> manager_error" where
  "compensated_error operation original compensation =
     (case compensation of Inr _ \<Rightarrow> MeRolledBack operation original | Inl errors \<Rightarrow> MeCompensationFailed operation original errors)"

definition create_session :: "faults \<Rightarrow> nat \<Rightarrow> string \<Rightarrow> create_session_options \<Rightarrow> world \<Rightarrow> (manager_error, session_node) outcome" where
  "create_session f max_depth i opts w =
     sbind (case co_parent_id opts of
              Some p \<Rightarrow> sbind (map_err from_session_error (session_get f p w))
                          (\<lambda>n w. if sn_depth n \<ge> max_depth then (w, Inl (MeConfig max_depth)) else (w, Inr ()))
            | None \<Rightarrow> (w, Inr ()))
       (\<lambda>_ w. map_err from_session_error (session_create f i opts w))"

definition branch_session :: "faults \<Rightarrow> nat \<Rightarrow> string \<Rightarrow> string \<Rightarrow> string option \<Rightarrow> world \<Rightarrow> (manager_error, session_node) outcome" where
  "branch_session f max_depth i p title w =
     sbind (map_err from_session_error (session_get f p w))
       (\<lambda>n w. if sn_depth n \<ge> max_depth then (w, Inl (MeConfig max_depth))
              else map_err from_session_error (session_create f i
                     \<lparr>co_parent_id = Some p, co_session_type = TyBranch, co_agent_id = sn_agent_id n, co_title = title\<rparr> w))"

definition transition_state :: "faults \<Rightarrow> string \<Rightarrow> session_state \<Rightarrow> world \<Rightarrow> (manager_error, unit) outcome" where
  "transition_state f i s' w =
     sbind (map_err from_session_error (session_get f i w))
       (\<lambda>n w. sbind (w, validate_transition (sn_state n) s')
          (\<lambda>_ w. map_err from_session_error (session_set_state f i s' w)))"

record transcript_snapshot =
  ts_context_count :: nat
  ts_display_count :: nat
  ts_token_count :: nat
  ts_message_count :: nat

definition take_transcript_snapshot :: "faults \<Rightarrow> string \<Rightarrow> session_node \<Rightarrow> world \<Rightarrow> (manager_error, transcript_snapshot) outcome" where
  "take_transcript_snapshot f i n w =
     sbind (map_err (MeTranscript ''count display transcript'') (message_count f Display i w))
       (\<lambda>d w. sbind (map_err (MeTranscript ''count context transcript'') (message_count f Context i w))
          (\<lambda>c w. (w, Inr \<lparr>ts_context_count = c, ts_display_count = d, ts_token_count = sn_token_count n, ts_message_count = sn_message_count n\<rparr>)))"

definition restore_transcript_snapshot :: "faults \<Rightarrow> string \<Rightarrow> transcript_snapshot \<Rightarrow> world \<Rightarrow> (manager_error, unit) outcome" where
  "restore_transcript_snapshot f i s w =
     sbind (map_err (MeTranscript ''restore display transcript'') (message_truncate f Display i (ts_display_count s) w))
       (\<lambda>_ w. sbind (map_err (MeTranscript ''restore context transcript'') (message_truncate f Context i (ts_context_count s) w))
          (\<lambda>_ w. map_err from_session_error (update_metadata f i None (ts_token_count s) (ts_message_count s) w)))"

definition to_u32 :: "nat \<Rightarrow> nat" where
  "to_u32 n = min u32_max n"

definition append_mutation :: "faults \<Rightarrow> string \<Rightarrow> session_node \<Rightarrow> message list \<Rightarrow> world \<Rightarrow> (manager_error, unit) outcome" where
  "append_mutation f i n ms w =
     sbind (map_err (MeTranscript ''display transcript'') (append_each f Display i ms w))
       (\<lambda>_ w. sbind (map_err (MeTranscript ''context transcript'') (append_each f Context i ms w))
          (\<lambda>_ w. sbind (map_err (MeTranscript ''count context transcript'') (message_count f Context i w))
             (\<lambda>c w. map_err from_session_error (update_metadata f i None (sn_token_count n) (to_u32 c) w))))"

text \<open>On an error of the mutation, the compensation runs and its outcome is part of the error.\<close>

definition compensate :: "string \<Rightarrow> (manager_error, 'a) outcome \<Rightarrow> (world \<Rightarrow> world \<times> (manager_error list, unit) result) \<Rightarrow> (manager_error, 'a) outcome" where
  "compensate operation mutation restore =
     (case mutation of
        (w, Inr a) \<Rightarrow> (w, Inr a)
      | (w, Inl e) \<Rightarrow> (case restore w of (w', r) \<Rightarrow> (w', Inl (compensated_error operation e r))))"

definition one_error :: "(manager_error, 'a) outcome \<Rightarrow> world \<times> (manager_error list, 'a) result" where
  "one_error o1 = map_err (\<lambda>e. [e]) o1"

definition append_messages :: "faults \<Rightarrow> string \<Rightarrow> message list \<Rightarrow> world \<Rightarrow> (manager_error, unit) outcome" where
  "append_messages f i ms w =
     sbind (map_err from_session_error (session_get f i w))
       (\<lambda>n w. if sn_state n \<noteq> SActive then (w, Inl (MeNotActive (sn_state n)))
              else if ms = [] then (w, Inr ())
              else sbind (take_transcript_snapshot f i n w)
                (\<lambda>s w. compensate ''append messages'' (append_mutation f i n ms w) (\<lambda>w. one_error (restore_transcript_snapshot f i s w))))"

definition append_message :: "faults \<Rightarrow> string \<Rightarrow> message \<Rightarrow> world \<Rightarrow> (manager_error, unit) outcome" where
  "append_message f i m = append_messages f i [m]"

record full_snapshot =
  fs_context :: "message list"
  fs_display :: "message list"
  fs_session :: session_node

definition full_transcript_snapshot :: "faults \<Rightarrow> string \<Rightarrow> world \<Rightarrow> (manager_error, full_snapshot) outcome" where
  "full_transcript_snapshot f i w =
     sbind (map_err from_session_error (session_get f i w))
       (\<lambda>n w. sbind (map_err (MeTranscript ''read display transcript'') (message_read_all f Display i w))
          (\<lambda>d w. sbind (map_err (MeTranscript ''read context transcript'') (message_read_all f Context i w))
             (\<lambda>c w. (w, Inr \<lparr>fs_context = c, fs_display = d, fs_session = n\<rparr>))))"

text \<open>The three parts of a restore run whatever becomes of the others; the errors are collected.\<close>

definition restore_one :: "faults \<Rightarrow> channel_kind \<Rightarrow> string \<Rightarrow> message list \<Rightarrow> world \<Rightarrow> (session_error, unit) outcome" where
  "restore_one f k i ms w = sbind (message_truncate f k i 0 w) (\<lambda>_. append_each f k i ms)"

definition collect_error :: "(manager_error, unit) outcome \<Rightarrow> world \<times> manager_error list" where
  "collect_error o1 = (case o1 of (w, Inl e) \<Rightarrow> (w, [e]) | (w, Inr _) \<Rightarrow> (w, []))"

definition restore_all :: "faults \<Rightarrow> string \<Rightarrow> message list \<Rightarrow> message list \<Rightarrow> nat \<Rightarrow> nat \<Rightarrow> world \<Rightarrow> world \<times> (manager_error list, unit) result" where
  "restore_all f i display context1 tokens messages w =
     (let (w1, e1) = collect_error (map_err (MeTranscript ''restore display transcript'') (restore_one f Display i display w));
          (w2, e2) = collect_error (map_err (MeTranscript ''restore context transcript'') (restore_one f Context i context1 w1));
          (w3, e3) = collect_error (map_err from_session_error (update_metadata f i None tokens messages w2));
          errors = e1 @ e2 @ e3
      in (w3, if errors = [] then Inr () else Inl errors))"

definition restore_full_transcript :: "faults \<Rightarrow> string \<Rightarrow> full_snapshot \<Rightarrow> world \<Rightarrow> world \<times> (manager_error list, unit) result" where
  "restore_full_transcript f i s =
     restore_all f i (fs_display s) (fs_context s) (sn_token_count (fs_session s)) (sn_message_count (fs_session s))"

fun is_foreign_key_delete_error :: "session_error \<Rightarrow> bool" where
  "is_foreign_key_delete_error (SeStorage message) = str_contains ''FOREIGN KEY constraint failed'' message"
| "is_foreign_key_delete_error _ = False"

definition tombstone_session :: "faults \<Rightarrow> string \<Rightarrow> session_node \<Rightarrow> world \<Rightarrow> (manager_error, unit) outcome" where
  "tombstone_session f i n w =
     sbind (w, if sn_state n \<noteq> STombstone then validate_transition (sn_state n) STombstone else Inr ())
       (\<lambda>_ w. sbind (map_err from_session_error (update_metadata f i None 0 0 w))
          (\<lambda>_ w. if sn_state n \<noteq> STombstone then map_err from_session_error (session_set_state f i STombstone w) else (w, Inr ())))"

definition delete_session :: "faults \<Rightarrow> string \<Rightarrow> world \<Rightarrow> (manager_error, unit) outcome" where
  "delete_session f i w =
     sbind (full_transcript_snapshot f i w)
       (\<lambda>s w. sbind (map_err (MeTranscript ''clear display transcript before delete'') (message_truncate f Display i 0 w))
          (\<lambda>_ w. (case message_truncate f Context i 0 w of
                    (w, Inl e) \<Rightarrow> compensate ''clear context transcript before delete'' (w, Inl (MeTranscript [] e)) (restore_full_transcript f i s)
                  | (w, Inr _) \<Rightarrow>
                      (case session_delete f i w of
                         (w, Inr _) \<Rightarrow> (w, Inr ())
                       | (w, Inl e) \<Rightarrow>
                           if is_foreign_key_delete_error e
                           then compensate ''tombstone session after delete conflict'' (tombstone_session f i (fs_session s) w) (restore_full_transcript f i s)
                           else compensate ''delete session metadata'' (w, Inl (from_session_error e)) (restore_full_transcript f i s)))))"

definition cleanup_incomplete_session :: "faults \<Rightarrow> string \<Rightarrow> world \<Rightarrow> world \<times> (manager_error list, unit) result" where
  "cleanup_incomplete_session f i w =
     (let (w1, e1) = collect_error (map_err (MeTranscript ''clear display transcript'') (sbind (message_truncate f Display i 0 w) (\<lambda>_ w. (w, Inr ()))));
          (w2, e2) = collect_error (map_err (MeTranscript ''clear context transcript'') (sbind (message_truncate f Context i 0 w1) (\<lambda>_ w. (w, Inr ()))));
          (w3, e3) = collect_error (map_err from_session_error (session_delete f i w2));
          errors = e1 @ e2 @ e3
      in (w3, if errors = [] then Inr () else Inl errors))"

definition fork_copy :: "faults \<Rightarrow> string \<Rightarrow> string \<Rightarrow> message list \<Rightarrow> message list \<Rightarrow> world \<Rightarrow> (manager_error, unit) outcome" where
  "fork_copy f source fork display context1 w =
     sbind (map_err (MeTranscript ''write forked display transcript'') (append_each f Display fork display w))
       (\<lambda>_ w. sbind (map_err (MeTranscript ''write forked context transcript'') (append_each f Context fork context1 w))
          (\<lambda>_ w. sbind (map_err from_session_error (get_context_reset_index f source w))
             (\<lambda>reset w. sbind (case reset of
                                 Some r \<Rightarrow> if r < length context1 then map_err from_session_error (set_context_reset_index f fork (Some r) w) else (w, Inr ())
                               | None \<Rightarrow> (w, Inr ()))
                (\<lambda>_ w. map_err from_session_error (update_metadata f fork None 0 (to_u32 (length context1)) w)))))"

definition fork_session :: "faults \<Rightarrow> nat \<Rightarrow> string \<Rightarrow> string \<Rightarrow> nat \<Rightarrow> string option \<Rightarrow> world \<Rightarrow> (manager_error, session_node) outcome" where
  "fork_session f max_depth fork source message_index title w =
     sbind (map_err from_session_error (session_get f source w))
       (\<lambda>n w. sbind (map_err (MeTranscript ''read display transcript'') (message_read_all f Display source w))
          (\<lambda>d w. sbind (map_err (MeTranscript []) (message_read_all f Context source w))
             (\<lambda>c w. if d = [] \<and> c = [] then (w, Inl MeNothingToFork)
                     else if sn_depth n \<ge> max_depth then (w, Inl (MeConfig max_depth))
                     else sbind (map_err from_session_error (session_create f fork
                              \<lparr>co_parent_id = Some source, co_session_type = TyBranch, co_agent_id = sn_agent_id n,
                               co_title = (case title of Some t \<Rightarrow> Some t | None \<Rightarrow> map_option (\<lambda>t. t @ '' (Branch)'') (sn_title n))\<rparr> w))
                       (\<lambda>_ w. sbind (compensate ''copy branch transcript''
                                      (fork_copy f source fork (take (message_index + 1) d) (take (message_index + 1) c) w)
                                      (cleanup_incomplete_session f fork))
                          (\<lambda>_ w. map_err from_session_error (session_get f fork w))))))"

section \<open>Checkpoints\<close>

text \<open>The table has one row for each identifier and at most one for each session and turn.\<close>

definition checkpoint_save :: "faults \<Rightarrow> chat_checkpoint \<Rightarrow> world \<Rightarrow> (session_error, unit) outcome" where
  "checkpoint_save f c = sql_call f (\<lambda>w.
     if list_ex (\<lambda>d. cc_checkpoint_id d \<noteq> cc_checkpoint_id c \<and> cc_session_id d = cc_session_id c \<and> cc_turn_number d = cc_turn_number c) (sw_checkpoints w)
     then (w, Inl (SeStorage ''UNIQUE constraint failed''))
     else if list_ex (\<lambda>d. cc_checkpoint_id d = cc_checkpoint_id c) (sw_checkpoints w)
     then (w\<lparr>sw_checkpoints := map (\<lambda>d. if cc_checkpoint_id d = cc_checkpoint_id c then c else d) (sw_checkpoints w)\<rparr>, Inr ())
     else (w\<lparr>sw_checkpoints := sw_checkpoints w @ [c]\<rparr>, Inr ()))"

definition checkpoint_load :: "faults \<Rightarrow> string \<Rightarrow> world \<Rightarrow> (session_error, chat_checkpoint) outcome" where
  "checkpoint_load f i = sql_call f (\<lambda>w. (w, case find (\<lambda>c. cc_checkpoint_id c = i) (sw_checkpoints w) of Some c \<Rightarrow> Inr c | None \<Rightarrow> Inl (SeNotFound i)))"

definition session_checkpoints :: "string \<Rightarrow> world \<Rightarrow> chat_checkpoint list" where
  "session_checkpoints i w = rev (sort_key cc_turn_number (filter (\<lambda>c. cc_session_id c = i) (sw_checkpoints w)))"

definition list_by_session :: "faults \<Rightarrow> string \<Rightarrow> world \<Rightarrow> (session_error, chat_checkpoint list) outcome" where
  "list_by_session f i = sql_call f (\<lambda>w. (w, Inr (session_checkpoints i w)))"

definition checkpoint_latest :: "faults \<Rightarrow> string \<Rightarrow> world \<Rightarrow> (session_error, chat_checkpoint option) outcome" where
  "checkpoint_latest f i = sql_call f (\<lambda>w. (w, Inr (find (\<lambda>c. \<not> cc_invalidated c) (session_checkpoints i w))))"

definition invalidate_after :: "faults \<Rightarrow> string \<Rightarrow> nat \<Rightarrow> world \<Rightarrow> (session_error, nat) outcome" where
  "invalidate_after f i turn = sql_call f (\<lambda>w.
     let hit = (\<lambda>c. cc_session_id c = i \<and> cc_turn_number c > turn \<and> \<not> cc_invalidated c)
     in (w\<lparr>sw_checkpoints := map (\<lambda>c. if hit c then c\<lparr>cc_invalidated := True\<rparr> else c) (sw_checkpoints w)\<rparr>,
         Inr (to_u32 (length (filter hit (sw_checkpoints w))))))"

definition create_checkpoint :: "faults \<Rightarrow> string \<Rightarrow> string \<Rightarrow> nat \<Rightarrow> nat \<Rightarrow> string \<Rightarrow> world \<Rightarrow> (session_error, chat_checkpoint) outcome" where
  "create_checkpoint f cid i turn count_before scope w =
     sbind (session_get f i w)
       (\<lambda>_ w. let c = \<lparr>cc_checkpoint_id = cid, cc_session_id = i, cc_turn_number = turn, cc_message_count_before = count_before,
                       cc_journal_scope_id = scope, cc_invalidated = False, cc_created_at = sw_now w\<rparr>
               in sbind (checkpoint_save f c w) (\<lambda>_ w. (w, Inr c)))"

record rollback_snapshot =
  rb_context :: "message list"
  rb_display :: "message list"
  rb_token_count :: nat
  rb_message_count :: nat

definition take_rollback_snapshot :: "faults \<Rightarrow> string \<Rightarrow> world \<Rightarrow> (session_error, rollback_snapshot) outcome" where
  "take_rollback_snapshot f i w =
     sbind (session_get f i w)
       (\<lambda>n w. sbind (message_read_all f Context i w)
          (\<lambda>c w. sbind (message_read_all f Display i w)
             (\<lambda>d w. (w, Inr \<lparr>rb_context = c, rb_display = d, rb_token_count = sn_token_count n, rb_message_count = sn_message_count n\<rparr>))))"

record rollback_result =
  rr_messages_removed :: nat
  rr_scopes_rolled_back :: "string list"
  rr_rolled_back_to_turn :: nat
  rr_checkpoints_invalidated :: nat

datatype rollback_error =
    RbStore session_error
  | RbOtherSession string
  | RbInvalidated string
  | RbTooShort nat
  | RbNoCheckpoint
  | RbRolledBack session_error
  | RbCompensationFailed session_error "manager_error list"

definition restore_rollback_snapshot :: "faults \<Rightarrow> string \<Rightarrow> rollback_snapshot \<Rightarrow> world \<Rightarrow> world \<times> (manager_error list, unit) result" where
  "restore_rollback_snapshot f i s = restore_all f i (rb_display s) (rb_context s) (rb_token_count s) (rb_message_count s)"

definition rollback_mutation :: "faults \<Rightarrow> string \<Rightarrow> chat_checkpoint \<Rightarrow> nat \<Rightarrow> world \<Rightarrow> (session_error, nat \<times> nat) outcome" where
  "rollback_mutation f i target tokens w =
     sbind (message_truncate f Display i (cc_message_count_before target) w)
       (\<lambda>_ w. sbind (message_truncate f Context i (cc_message_count_before target) w)
          (\<lambda>removed w. sbind (update_metadata f i None tokens (cc_message_count_before target) w)
             (\<lambda>_ w. sbind (invalidate_after f i (cc_turn_number target - 1) w)
                (\<lambda>invalidated w. (w, Inr (removed, invalidated))))))"

text \<open>The part of a rollback after the checkpoint was checked.\<close>

definition rollback_body :: "faults \<Rightarrow> string \<Rightarrow> chat_checkpoint \<Rightarrow> string list \<Rightarrow> rollback_snapshot \<Rightarrow> world \<Rightarrow> (rollback_error, rollback_result) outcome" where
  "rollback_body f i target scopes s w =
     (if cc_message_count_before target > length (rb_context s) \<or> cc_message_count_before target > length (rb_display s)
      then (w, Inl (RbTooShort (cc_message_count_before target)))
      else (case rollback_mutation f i target (rb_token_count s) w of
              (w, Inr (removed, invalidated)) \<Rightarrow>
                (w, Inr \<lparr>rr_messages_removed = removed, rr_scopes_rolled_back = scopes,
                         rr_rolled_back_to_turn = cc_turn_number target - 1, rr_checkpoints_invalidated = invalidated\<rparr>)
            | (w, Inl e) \<Rightarrow>
                (case restore_rollback_snapshot f i s w of
                   (w, Inr _) \<Rightarrow> (w, Inl (RbRolledBack e))
                 | (w, Inl errors) \<Rightarrow> (w, Inl (RbCompensationFailed e errors)))))"

definition rollback_to :: "faults \<Rightarrow> string \<Rightarrow> string \<Rightarrow> world \<Rightarrow> (rollback_error, rollback_result) outcome" where
  "rollback_to f i cid w =
     sbind (map_err RbStore (checkpoint_load f cid w))
       (\<lambda>target w. if cc_session_id target \<noteq> i then (w, Inl (RbOtherSession cid))
          else if cc_invalidated target then (w, Inl (RbInvalidated cid))
          else sbind (map_err RbStore (list_by_session f i w))
            (\<lambda>all w. sbind (map_err RbStore (take_rollback_snapshot f i w))
               (rollback_body f i target (map cc_journal_scope_id (filter (\<lambda>c. cc_turn_number target \<le> cc_turn_number c \<and> \<not> cc_invalidated c) all)))))"

definition rollback_last :: "faults \<Rightarrow> string \<Rightarrow> world \<Rightarrow> (rollback_error, rollback_result) outcome" where
  "rollback_last f i w =
     sbind (map_err RbStore (checkpoint_latest f i w))
       (\<lambda>c w. case c of None \<Rightarrow> (w, Inl RbNoCheckpoint) | Some c \<Rightarrow> rollback_to f i (cc_checkpoint_id c) w)"

definition current_turn :: "faults \<Rightarrow> string \<Rightarrow> world \<Rightarrow> (session_error, nat) outcome" where
  "current_turn f i w = sbind (list_by_session f i w) (\<lambda>cs w. (w, Inr (foldr max (map cc_turn_number cs) 0)))"

section \<open>A turn of the chat\<close>

text \<open>\<^verbatim>\<open>persist_chat_turn_unlocked\<close> of \<^verbatim>\<open>crates/hf-service/src/container/mod.rs\<close>; the caller holds the lock of the session.\<close>

definition persist_chat_turn :: "faults \<Rightarrow> string \<Rightarrow> string \<Rightarrow> string \<Rightarrow> message list \<Rightarrow> world \<Rightarrow> (manager_error, unit) outcome" where
  "persist_chat_turn f cid scope i ms w =
     sbind (sbind (map_err from_session_error (session_get f i w)) (take_transcript_snapshot f i))
       (\<lambda>s w. sbind (map_err from_session_error (current_turn f i w))
          (\<lambda>turn w. sbind (append_messages f i ms w)
             (\<lambda>_ w. compensate ''create chat checkpoint''
                       (map_err from_session_error (sbind (create_checkpoint f cid i (min u32_max (turn + 1)) (to_u32 (ts_context_count s)) scope w) (\<lambda>_ w. (w, Inr ()))))
                       (\<lambda>w. one_error (restore_transcript_snapshot f i s w)))))"

end

