(* ===== verification/Session_Atomicity.thy ===== *)
theory Session_Atomicity
  imports Session_Manager
begin

text \<open>
  What the operations of \<^verbatim>\<open>Session_Manager\<close> leave behind when calls of the stores fail: a reported rollback
  is one, a turn that is persisted can be undone, and the life of a session ends.
\<close>

section \<open>Worlds up to one session\<close>

definition untimed :: "session_node \<Rightarrow> session_node" where
  "untimed n = n\<lparr>sn_updated_at := 0\<rparr>"

text \<open>The same transcripts, sessions (up to the time of the last update) and checkpoints.\<close>

definition same_content :: "world \<Rightarrow> world \<Rightarrow> bool" where
  "same_content w0 w \<longleftrightarrow> sw_display w = sw_display w0 \<and> sw_context w = sw_context w0
     \<and> map untimed (sw_sessions w) = map untimed (sw_sessions w0) \<and> sw_checkpoints w = sw_checkpoints w0"

definition uncounted :: "string \<Rightarrow> session_node \<Rightarrow> session_node" where
  "uncounted i n = (if sn_id n = i then n\<lparr>sn_token_count := 0, sn_message_count := 0, sn_updated_at := 0\<rparr> else n\<lparr>sn_updated_at := 0\<rparr>)"

text \<open>Only the transcripts and the counters of one session differ.\<close>

definition touched :: "string \<Rightarrow> world \<Rightarrow> world \<Rightarrow> bool" where
  "touched i w0 w \<longleftrightarrow> (\<forall>j. j \<noteq> i \<longrightarrow> sw_display w j = sw_display w0 j \<and> sw_context w j = sw_context w0 j)
     \<and> map (uncounted i) (sw_sessions w) = map (uncounted i) (sw_sessions w0) \<and> sw_checkpoints w = sw_checkpoints w0"

text \<open>Its transcripts have only grown.\<close>

definition grown :: "string \<Rightarrow> world \<Rightarrow> world \<Rightarrow> bool" where
  "grown i w0 w \<longleftrightarrow> touched i w0 w \<and> prefix (sw_display w0 i) (sw_display w i) \<and> prefix (sw_context w0 i) (sw_context w i)"

lemma same_content_refl [simp]: "same_content w w"
  by (simp add: same_content_def)

lemma same_content_trans: "same_content a b \<Longrightarrow> same_content b c \<Longrightarrow> same_content a c"
  by (simp add: same_content_def)

lemma grown_refl [simp]: "grown i w w"
  by (simp add: grown_def touched_def)

lemma touched_refl [simp]: "touched i w w"
  by (simp add: touched_def)

lemma ignores_calls [simp]:
  "same_content w0 (w\<lparr>sw_calls := n\<rparr>) = same_content w0 w"
  "touched i w0 (w\<lparr>sw_calls := n\<rparr>) = touched i w0 w"
  "grown i w0 (w\<lparr>sw_calls := n\<rparr>) = grown i w0 w"
  "lookup_session (w\<lparr>sw_calls := n\<rparr>) j = lookup_session w j"
  "transcript_of k (w\<lparr>sw_calls := n\<rparr>) = transcript_of k w"
  by (cases k; simp add: same_content_def touched_def grown_def lookup_session_def)+

lemma store_call_inv:
  assumes "P (w\<lparr>sw_calls := sw_calls w + 1\<rparr>)" "\<And>v. P v \<Longrightarrow> P (late v)" "\<And>v. P v \<Longrightarrow> P (fst (op1 v))"
  shows "P (fst (store_call f late op1 w))"
  using assms by (simp add: store_call_def Let_def split: fault.splits)

lemma sbind_inv: "P (fst o1) \<Longrightarrow> (\<And>a v. P v \<Longrightarrow> P (fst (k a v))) \<Longrightarrow> P (fst (sbind o1 k))"
  by (cases o1) (auto simp: sbind_def split: sum.splits)

lemma fst_map_err [simp]: "fst (map_err g o1) = fst o1"
  by (cases o1) (auto simp: map_err_def split: sum.splits)

lemma map_err_Inr [simp]: "map_err g o1 = (w, Inr a) \<longleftrightarrow> o1 = (w, Inr a)"
  by (cases o1) (auto simp: map_err_def split: sum.splits)

lemma map_err_Inl: "map_err g o1 = (w, Inl e) \<longleftrightarrow> (\<exists>e'. o1 = (w, Inl e') \<and> e = g e')"
  by (cases o1) (auto simp: map_err_def split: sum.splits)

lemma sbind_Inr: "sbind o1 k = (w, Inr b) \<longleftrightarrow> (\<exists>v a. o1 = (v, Inr a) \<and> k a v = (w, Inr b))"
  by (cases o1) (auto simp: sbind_def split: sum.splits)

lemma sbind_Inl: "sbind o1 k = (w, Inl e) \<longleftrightarrow> o1 = (w, Inl e) \<or> (\<exists>v a. o1 = (v, Inr a) \<and> k a v = (w, Inl e))"
  by (cases o1) (auto simp: sbind_def split: sum.splits)

text \<open>A call that only reads.\<close>

lemma sql_read_world: "fst (sql_call f (\<lambda>w. (w, g w)) w) = w\<lparr>sw_calls := sw_calls w + 1\<rparr>"
  by (auto simp: store_call_def Let_def split: fault.splits)

lemma session_get_world: "fst (session_get f i w) = w\<lparr>sw_calls := sw_calls w + 1\<rparr>"
  by (simp add: session_get_def sql_read_world)

lemma session_get_Inr: "session_get f i w = (w', Inr n) \<Longrightarrow> w' = w\<lparr>sw_calls := sw_calls w + 1\<rparr> \<and> lookup_session w i = Some n"
  by (simp add: session_get_def store_call_def Let_def split: fault.splits option.splits)

lemma calls_only: "\<exists>n. w = w\<lparr>sw_calls := n\<rparr>"
  by (rule exI [of _ "sw_calls w"]) simp

lemma with_stem_inv: "P w \<Longrightarrow> P (fst (op1 w)) \<Longrightarrow> P (fst (with_stem i op1 w))"
  by (simp add: with_stem_def)

lemma with_stem_Inr: "with_stem i op1 w = (w', Inr a) \<Longrightarrow> op1 w = (w', Inr a)"
  by (simp add: with_stem_def split: if_splits)

lemma message_count_Inr: "message_count f k i w = (w', Inr n) \<Longrightarrow> w' = w\<lparr>sw_calls := sw_calls w + 1\<rparr> \<and> n = length (transcript_of k w i)"
  by (auto simp: message_count_def with_stem_def store_call_def Let_def split: fault.splits if_splits)

lemma message_read_Inr: "message_read_all f k i w = (w', Inr ms) \<Longrightarrow> w' = w\<lparr>sw_calls := sw_calls w + 1\<rparr> \<and> ms = transcript_of k w i"
  by (auto simp: message_read_all_def with_stem_def store_call_def Let_def split: fault.splits if_splits)

lemma message_read_world: "P w \<Longrightarrow> (\<And>v n. P v \<Longrightarrow> P (v\<lparr>sw_calls := n\<rparr>)) \<Longrightarrow> P (fst (message_read_all f k i w))"
  unfolding message_read_all_def by (rule with_stem_inv [where P = P]) (simp_all add: sql_read_world)

lemma message_count_world: "P w \<Longrightarrow> (\<And>v n. P v \<Longrightarrow> P (v\<lparr>sw_calls := n\<rparr>)) \<Longrightarrow> P (fst (message_count f k i w))"
  unfolding message_count_def by (rule with_stem_inv [where P = P]) (simp_all add: sql_read_world)

section \<open>Each call touches one session\<close>

lemma touched_set_transcript [simp]: "touched i w0 (set_transcript k i ms w) = touched i w0 w"
  by (cases k) (simp_all add: touched_def)

lemma grown_append_transcript: "grown i w0 w \<Longrightarrow> grown i w0 (set_transcript k i (transcript_of k w i @ ms) w)"
  by (cases k) (auto simp: grown_def touched_def intro: prefix_order.trans)

lemma append_each_inv:
  assumes "P w" "\<And>v n. P v \<Longrightarrow> P (v\<lparr>sw_calls := n\<rparr>)" "\<And>v m. P v \<Longrightarrow> P (set_transcript k i (transcript_of k v i @ [m]) v)"
  shows "P (fst (append_each f k i ms w))"
  using assms(1)
proof (induction ms arbitrary: w)
  case (Cons m ms)
  have "P (fst (message_append f k i m w))"
    unfolding message_append_def using Cons.prems assms(2,3)
    by (intro with_stem_inv [where P = P, OF _ store_call_inv [where P = P]]) simp_all
  then show ?case using Cons.IH by (simp add: sbind_inv [where P = P])
qed simp

lemma append_each_Inr:
  "append_each f k i ms w = (w', Inr u) \<Longrightarrow> \<exists>n. w' = (set_transcript k i (transcript_of k w i @ ms) w)\<lparr>sw_calls := n\<rparr>"
proof (induction ms arbitrary: w)
  case Nil
  then show ?case using calls_only [of w] by (cases k) simp_all
next
  case (Cons m ms)
  then obtain v where v: "message_append f k i m w = (v, Inr ())" "append_each f k i ms v = (w', Inr u)" by (auto simp: sbind_Inr)
  from v(1) have "v = set_transcript k i (transcript_of k w i @ [m]) (w\<lparr>sw_calls := sw_calls w + 1\<rparr>)"
    by (auto simp: message_append_def store_call_def Let_def split: fault.splits dest!: with_stem_Inr)
  moreover obtain n where "w' = (set_transcript k i (transcript_of k v i @ ms) v)\<lparr>sw_calls := n\<rparr>" using Cons.IH [OF v(2)] by blast
  ultimately show ?case by (cases k) auto
qed

lemma message_truncate_inv:
  assumes "P w" "\<And>v n. P v \<Longrightarrow> P (v\<lparr>sw_calls := n\<rparr>)" "\<And>v. P v \<Longrightarrow> P (set_transcript k i (take keep (transcript_of k v i)) v)"
  shows "P (fst (message_truncate f k i keep w))"
  unfolding message_truncate_def using assms by (intro with_stem_inv [where P = P, OF _ store_call_inv [where P = P]]) simp_all

lemma message_truncate_Inr:
  "message_truncate f k i keep w = (w', Inr n) \<Longrightarrow>
     w' = set_transcript k i (take keep (transcript_of k w i)) (w\<lparr>sw_calls := sw_calls w + 1\<rparr>) \<and> n = length (transcript_of k w i) - keep"
  by (cases k) (auto simp: message_truncate_def store_call_def Let_def split: fault.splits dest!: with_stem_Inr)

lemma message_truncate_Inl:
  "message_truncate f k i keep w = (w', Inl e) \<Longrightarrow> \<exists>n. w' = w\<lparr>sw_calls := n\<rparr>"
  using calls_only [of w] by (auto simp: message_truncate_def with_stem_def store_call_def Let_def split: fault.splits if_splits)

lemma uncounted_update:
  "map (uncounted i) (map (\<lambda>n. if sn_id n = i then n\<lparr>sn_token_count := a, sn_message_count := b, sn_updated_at := t\<rparr> else n) ns) = map (uncounted i) ns"
  by (auto simp: uncounted_def)

lemma update_metadata_inv:
  assumes "P w" "\<And>v n. P v \<Longrightarrow> P (v\<lparr>sw_calls := n\<rparr>)"
    "\<And>v. P v \<Longrightarrow> P (v\<lparr>sw_sessions := map (\<lambda>n. if sn_id n = i then n\<lparr>sn_token_count := a, sn_message_count := b, sn_updated_at := sw_now v\<rparr> else n) (sw_sessions v)\<rparr>)"
  shows "P (fst (update_metadata f i None a b w))"
proof -
  have "P (fst (update_row i (\<lambda>n. n\<lparr>sn_title := sn_title n, sn_token_count := a, sn_message_count := b\<rparr>) v))" if "P v" for v
    using assms(3) [OF that] that by (simp add: update_row_def cong: if_cong)
  then show ?thesis unfolding update_metadata_def using assms(1,2) by (intro store_call_inv [where P = P]) simp_all
qed

lemma touched_update_metadata: "touched i w0 w \<Longrightarrow> touched i w0 (fst (update_metadata f i None a b w))"
  by (rule update_metadata_inv) (simp_all add: touched_def uncounted_update del: map_map)

lemma grown_update_metadata: "grown i w0 w \<Longrightarrow> grown i w0 (fst (update_metadata f i None a b w))"
  by (rule update_metadata_inv) (simp_all add: grown_def touched_def uncounted_update del: map_map)

lemma update_metadata_Inr:
  "update_metadata f i None a b w = (w', Inr u) \<Longrightarrow> lookup_session w i \<noteq> None \<and> w' = w\<lparr>sw_calls := sw_calls w + 1,
     sw_sessions := map (\<lambda>n. if sn_id n = i then n\<lparr>sn_token_count := a, sn_message_count := b, sn_updated_at := sw_now w\<rparr> else n) (sw_sessions w)\<rparr>"
  by (auto simp: update_metadata_def store_call_def update_row_def Let_def split: fault.splits if_splits cong: if_cong)

lemma update_metadata_Inl:
  "update_metadata f i None a b w = (w', Inl e) \<Longrightarrow> \<exists>n. w' = w\<lparr>sw_calls := n\<rparr>"
  by (auto simp: update_metadata_def store_call_def update_row_def Let_def split: fault.splits if_splits)

section \<open>A restore restores\<close>

definition ids_distinct :: "world \<Rightarrow> bool" where
  "ids_distinct w \<longleftrightarrow> distinct (map sn_id (sw_sessions w))"

lemma lookup_nth:
  "ids_distinct w \<Longrightarrow> lookup_session w i = Some n \<Longrightarrow> k < length (sw_sessions w) \<Longrightarrow> sn_id (sw_sessions w ! k) = i \<Longrightarrow> sw_sessions w ! k = n"
proof -
  assume a: "ids_distinct w" "lookup_session w i = Some n" "k < length (sw_sessions w)" "sn_id (sw_sessions w ! k) = i"
  then have "n \<in> set (sw_sessions w)" "sn_id n = i" using find_Some_iff_first [of "\<lambda>n. sn_id n = i"] by (auto simp: lookup_session_def)
  then show ?thesis using a(1,3,4) by (metis ids_distinct_def distinct_map inj_onD nth_mem)
qed

lemma recount:
  "a\<lparr>sn_token_count := 0, sn_message_count := 0, sn_updated_at := 0\<rparr> = b\<lparr>sn_token_count := 0, sn_message_count := 0, sn_updated_at := 0\<rparr> \<Longrightarrow>
     a\<lparr>sn_token_count := sn_token_count b, sn_message_count := sn_message_count b, sn_updated_at := 0\<rparr> = b\<lparr>sn_updated_at := (0::int)\<rparr>"
  for a b :: session_node
  by (cases a; cases b) simp

lemma counters_restored:
  assumes "touched i w0 w" "ids_distinct w0" "lookup_session w0 i = Some n0"
  shows "map untimed (map (\<lambda>n. if sn_id n = i then n\<lparr>sn_token_count := sn_token_count n0, sn_message_count := sn_message_count n0, sn_updated_at := t\<rparr> else n) (sw_sessions w))
     = map untimed (sw_sessions w0)" (is "map untimed (map ?g _) = _")
proof (rule nth_equalityI)
  have eq: "map (uncounted i) (sw_sessions w) = map (uncounted i) (sw_sessions w0)" using assms(1) by (simp add: touched_def)
  then have len: "length (sw_sessions w) = length (sw_sessions w0)" by (rule map_eq_imp_length_eq)
  then show "length (map untimed (map ?g (sw_sessions w))) = length (map untimed (sw_sessions w0))" by simp
  fix k
  assume "k < length (map untimed (map ?g (sw_sessions w)))"
  then have k: "k < length (sw_sessions w)" "k < length (sw_sessions w0)" using len by simp_all
  let ?a = "sw_sessions w ! k" and ?b = "sw_sessions w0 ! k"
  have u: "uncounted i ?a = uncounted i ?b" using eq k by (metis nth_map)
  have ids: "sn_id ?a = sn_id ?b"
  proof -
    have "sn_id (uncounted i n) = sn_id n" for n by (simp add: uncounted_def)
    then show ?thesis using u by metis
  qed
  have "untimed (?g ?a) = untimed ?b"
  proof (cases "sn_id ?b = i")
    case True
    then have "?b = n0" using lookup_nth [OF assms(2,3) k(2)] by blast
    then show ?thesis using u ids True recount [of ?a n0] by (simp add: uncounted_def untimed_def)
  next
    case False
    then show ?thesis using u ids by (simp add: uncounted_def untimed_def)
  qed
  then show "map untimed (map ?g (sw_sessions w)) ! k = map untimed (sw_sessions w0) ! k" using k by simp
qed

lemma metadata_restored:
  assumes "update_metadata f i None (sn_token_count n0) (sn_message_count n0) w = (w', Inr u)" "touched i w0 w" "ids_distinct w0"
    "lookup_session w0 i = Some n0" "sw_display w = sw_display w0" "sw_context w = sw_context w0"
  shows "same_content w0 w'"
  using update_metadata_Inr [OF assms(1)] counters_restored [OF assms(2-4)] assms(2,5,6)
  by (auto simp: same_content_def touched_def simp del: map_map)

lemma restore_one_inv:
  assumes "P w" "\<And>v n. P v \<Longrightarrow> P (v\<lparr>sw_calls := n\<rparr>)" "\<And>v ms. P v \<Longrightarrow> P (set_transcript k i ms v)"
  shows "P (fst (restore_one f k i ms w))"
  unfolding restore_one_def
  by (rule sbind_inv [where P = P]) (use assms in \<open>auto intro: message_truncate_inv [where P = P] append_each_inv [where P = P]\<close>)

lemma restore_one_Inr:
  "restore_one f k i ms w = (w', Inr u) \<Longrightarrow> \<exists>n. w' = (set_transcript k i ms w)\<lparr>sw_calls := n\<rparr>"
proof -
  assume "restore_one f k i ms w = (w', Inr u)"
  then obtain v a where v: "message_truncate f k i 0 w = (v, Inr a)" "append_each f k i ms v = (w', Inr u)"
    by (auto simp: restore_one_def sbind_Inr)
  then obtain n where "w' = (set_transcript k i (transcript_of k v i @ ms) v)\<lparr>sw_calls := n\<rparr>" using append_each_Inr by blast
  then show ?thesis using message_truncate_Inr [OF v(1)] by (cases k) auto
qed

lemma collect_error_Nil: "collect_error o1 = (w, []) \<longleftrightarrow> o1 = (w, Inr ())"
  by (cases o1) (auto simp: collect_error_def split: sum.splits)

text \<open>A restore that reports no error gives back the world, up to the time of the last update.\<close>

lemma restore_all_same:
  assumes "restore_all f i d c tokens messages w = (w', Inr u)" "touched i w0 w" "ids_distinct w0" "lookup_session w0 i = Some n0"
    "d = sw_display w0 i" "c = sw_context w0 i" "tokens = sn_token_count n0" "messages = sn_message_count n0"
  shows "same_content w0 w'"
proof -
  from assms(1) obtain w1 w2 where w1: "restore_one f Display i d w = (w1, Inr ())" and w2: "restore_one f Context i c w1 = (w2, Inr ())"
    and w3: "update_metadata f i None tokens messages w2 = (w', Inr ())"
    by (auto simp: restore_all_def Let_def collect_error_Nil split: prod.splits if_splits)
  obtain n1 n2 where v: "w2 = (set_transcript Context i c ((set_transcript Display i d w)\<lparr>sw_calls := n1\<rparr>))\<lparr>sw_calls := n2\<rparr>"
    using restore_one_Inr [OF w1] restore_one_Inr [OF w2] by auto
  have t: "touched i w0 w2" unfolding v using assms(2) by (simp add: touched_def)
  have "sw_display w2 = sw_display w0" "sw_context w2 = sw_context w0"
    using assms(2,5,6) by (auto simp: v touched_def fun_eq_iff)
  then show ?thesis using metadata_restored [OF w3 [unfolded assms(7,8)] t assms(3,4)] by simp
qed

lemma restore_snapshot_same:
  assumes "restore_transcript_snapshot f i s w = (w', Inr u)" "grown i w0 w" "ids_distinct w0" "lookup_session w0 i = Some n0"
    "s = \<lparr>ts_context_count = length (sw_context w0 i), ts_display_count = length (sw_display w0 i), ts_token_count = sn_token_count n0, ts_message_count = sn_message_count n0\<rparr>"
  shows "same_content w0 w'"
proof -
  from assms(1) obtain w1 a1 w2 a2 where w1: "message_truncate f Display i (ts_display_count s) w = (w1, Inr a1)"
    and w2: "message_truncate f Context i (ts_context_count s) w1 = (w2, Inr a2)"
    and w3: "update_metadata f i None (ts_token_count s) (ts_message_count s) w2 = (w', Inr u)"
    by (auto simp: restore_transcript_snapshot_def sbind_Inr)
  note v = message_truncate_Inr [OF w1] message_truncate_Inr [OF w2]
  have g: "touched i w0 w" "take (length (sw_display w0 i)) (sw_display w i) = sw_display w0 i" "take (length (sw_context w0 i)) (sw_context w i) = sw_context w0 i"
    using assms(2) by (auto simp: grown_def prefix_def)
  have t: "touched i w0 w2" using v g(1) by (simp add: touched_def)
  have "sw_display w2 = sw_display w0" "sw_context w2 = sw_context w0"
    using v g assms(5) by (auto simp: touched_def fun_eq_iff)
  moreover have c: "ts_token_count s = sn_token_count n0" "ts_message_count s = sn_message_count n0" using assms(5) by simp_all
  ultimately show ?thesis using metadata_restored [OF w3 [unfolded c] t assms(3,4)] by simp
qed

section \<open>Failed operations are undone\<close>

text \<open>An error that admits that the compensation failed too.\<close>

fun gives_up :: "manager_error \<Rightarrow> bool" where
  "gives_up (MeCompensationFailed _ _ _) = True"
| "gives_up _ = False"

lemma from_session_error_not: "\<not> gives_up (from_session_error e)"
  by (cases e) simp_all

lemma compensate_Inl:
  "compensate operation mutation restore = (w', Inl e) \<Longrightarrow> \<not> gives_up e \<Longrightarrow> \<exists>w e1 u. mutation = (w, Inl e1) \<and> restore w = (w', Inr u)"
  by (auto simp: compensate_def compensated_error_def split: prod.splits sum.splits)

lemma compensate_Inr: "compensate operation mutation restore = (w', Inr a) \<longleftrightarrow> mutation = (w', Inr a)"
  by (auto simp: compensate_def split: prod.splits sum.splits)

lemma one_error_Inr [simp]: "one_error o1 = (w, Inr a) \<longleftrightarrow> o1 = (w, Inr a)"
  by (simp add: one_error_def)

lemma snapshot_Inr:
  "take_transcript_snapshot f i n w = (w', Inr s) \<Longrightarrow> (\<exists>c. w' = w\<lparr>sw_calls := c\<rparr>) \<and> s = \<lparr>ts_context_count = length (sw_context w i),
     ts_display_count = length (sw_display w i), ts_token_count = sn_token_count n, ts_message_count = sn_message_count n\<rparr>"
  unfolding take_transcript_snapshot_def by (auto simp: sbind_Inr dest!: message_count_Inr)

lemma snapshot_world: "same_content w0 w \<Longrightarrow> same_content w0 (fst (take_transcript_snapshot f i n w))"
  unfolding take_transcript_snapshot_def
  by (intro sbind_inv [where P = "same_content w0"]) (simp_all add: message_count_world [where P = "same_content w0"])

lemma grown_append_each: "grown i w0 w \<Longrightarrow> grown i w0 (fst (append_each f k i ms w))"
  by (rule append_each_inv [where P = "grown i w0"]) (simp_all add: grown_append_transcript)

lemma append_mutation_grown: "grown i w0 w \<Longrightarrow> grown i w0 (fst (append_mutation f i n ms w))"
  unfolding append_mutation_def
  by (intro sbind_inv [where P = "grown i w0"])
    (simp_all add: grown_append_each grown_update_metadata message_count_world [where P = "grown i w0"])

lemma fst_eq: "x = (w, r) \<Longrightarrow> fst x = w"
  by simp

lemma append_messages_failed:
  assumes "append_messages f i ms w = (w', Inl e)" "\<not> gives_up e" "ids_distinct w"
  shows "same_content w w'"
proof (cases "session_get f i w")
  case (Pair v r)
  have v: "v = w\<lparr>sw_calls := sw_calls w + 1\<rparr>" using session_get_world [of f i w] Pair by simp
  show ?thesis
  proof (cases r)
    case (Inl e')
    then show ?thesis using assms(1) Pair v by (auto simp: append_messages_def map_err_def sbind_def)
  next
    case (Inr n)
    then have n: "lookup_session w i = Some n" using session_get_Inr Pair by blast
    from assms(1) Pair Inr have r: "(if sn_state n \<noteq> SActive then (v, Inl (MeNotActive (sn_state n)))
              else if ms = [] then (v, Inr ())
              else sbind (take_transcript_snapshot f i n v)
                (\<lambda>s w. compensate ''append messages'' (append_mutation f i n ms w) (\<lambda>w. one_error (restore_transcript_snapshot f i s w)))) = (w', Inl e)"
      by (simp add: append_messages_def map_err_def sbind_def)
    show ?thesis
    proof (cases "sn_state n \<noteq> SActive \<or> ms = []")
      case True
      then show ?thesis using r v by (auto split: if_splits)
    next
      case False
      then consider "take_transcript_snapshot f i n v = (w', Inl e)"
        | s u where "take_transcript_snapshot f i n v = (u, Inr s)"
          "compensate ''append messages'' (append_mutation f i n ms u) (\<lambda>w. one_error (restore_transcript_snapshot f i s w)) = (w', Inl e)"
        using r by (auto simp: sbind_Inl)
      then show ?thesis
      proof cases
        case 1
        then show ?thesis using snapshot_world [of w v f i n] fst_eq [OF 1] v by simp
      next
        case 2
        note s = snapshot_Inr [OF 2(1)]
        obtain x e1 y where x: "append_mutation f i n ms u = (x, Inl e1)" "restore_transcript_snapshot f i s x = (w', Inr y)"
          using compensate_Inl [OF 2(2) assms(2)] by auto
        have "grown i w u" using s v by auto
        then have "grown i w x" using append_mutation_grown [of i w u f n ms] fst_eq [OF x(1)] by simp
        then show ?thesis using restore_snapshot_same [OF x(2) _ assms(3) n] s v by simp
      qed
    qed
  qed
qed

lemma full_snapshot_Inr:
  "full_transcript_snapshot f i w = (w', Inr s) \<Longrightarrow> (\<exists>c. w' = w\<lparr>sw_calls := c\<rparr>) \<and> fs_display s = sw_display w i \<and> fs_context s = sw_context w i
     \<and> lookup_session w i = Some (fs_session s)"
  unfolding full_transcript_snapshot_def by (auto simp: sbind_Inr dest!: session_get_Inr message_read_Inr)

lemma full_snapshot_world: "same_content w0 w \<Longrightarrow> same_content w0 (fst (full_transcript_snapshot f i w))"
  unfolding full_transcript_snapshot_def
  by (intro sbind_inv [where P = "same_content w0"]) (simp_all add: session_get_world message_read_world [where P = "same_content w0"])

lemma same_content_touched: "same_content w0 w \<Longrightarrow> touched i w0 w"
proof -
  have "uncounted i n = uncounted i (untimed n)" for n by (simp add: uncounted_def untimed_def)
  then have "map (uncounted i) ns = map (uncounted i) (map untimed ns)" for ns by simp
  then show "same_content w0 w \<Longrightarrow> touched i w0 w" unfolding same_content_def touched_def by metis
qed

text \<open>A session that is gone cannot be restored.\<close>

lemma lookup_set_transcript [simp]: "lookup_session (set_transcript k i ms w) j = lookup_session w j"
  by (cases k) (simp_all add: lookup_session_def)

lemma update_metadata_gone: "lookup_session w i = None \<Longrightarrow> update_metadata f i t a b w = (w', Inr u) \<Longrightarrow> False"
  by (auto simp: update_metadata_def store_call_def update_row_def Let_def split: fault.splits)

lemma restore_all_gone:
  assumes "lookup_session w i = None"
  shows "restore_all f i d c a b w \<noteq> (w', Inr u)"
proof
  assume "restore_all f i d c a b w = (w', Inr u)"
  then obtain w1 w2 where w1: "restore_one f Display i d w = (w1, Inr ())" and w2: "restore_one f Context i c w1 = (w2, Inr ())"
    and w3: "update_metadata f i None a b w2 = (w', Inr ())"
    by (auto simp: restore_all_def Let_def collect_error_Nil split: prod.splits if_splits)
  have "lookup_session w2 i = None" using restore_one_Inr [OF w1] restore_one_Inr [OF w2] assms by (auto simp: lookup_session_def)
  then show False using update_metadata_gone w3 by blast
qed

lemma update_row_gone: "lookup_session w i = None \<Longrightarrow> fst (update_row i g w) = w"
  by (simp add: update_row_def)

lemma tombstone_gone: "lookup_session w i = None \<Longrightarrow> lookup_session (fst (tombstone_session f i n w)) i = None"
  unfolding tombstone_session_def update_metadata_def session_set_state_def
  by (intro sbind_inv [where P = "\<lambda>w. lookup_session w i = None"])
    (simp_all add: store_call_inv [where P = "\<lambda>w. lookup_session w i = None"] update_row_gone)

lemma set_state_Inl: "session_set_state f i s w = (w', Inl e) \<Longrightarrow> \<exists>n. w' = w\<lparr>sw_calls := n\<rparr>"
  by (auto simp: session_set_state_def store_call_def update_row_def Let_def split: fault.splits if_splits)

lemma tombstone_failed: "tombstone_session f i n w = (w', Inl e) \<Longrightarrow> touched i w0 w \<Longrightarrow> touched i w0 w'"
proof -
  assume t: "touched i w0 w" and "tombstone_session f i n w = (w', Inl e)"
  then consider "w' = w" | e1 where "update_metadata f i None 0 0 w = (w', Inl e1)"
    | v e1 where "update_metadata f i None 0 0 w = (v, Inr ())" "session_set_state f i STombstone v = (w', Inl e1)"
    unfolding tombstone_session_def by (auto simp: sbind_Inl map_err_Inl split: if_splits)
  then show ?thesis
  proof cases
    case 1
    then show ?thesis using t by simp
  next
    case 2
    then show ?thesis using update_metadata_Inl [OF 2] t by auto
  next
    case 3
    then show ?thesis using set_state_Inl [OF 3(2)] touched_update_metadata [OF t, of f 0 0] fst_eq [OF 3(1)] by auto
  qed
qed

lemma delete_row_call:
  "sql_call f (delete_row i) w = (w', Inl e) \<Longrightarrow> \<exists>n. w' = w\<lparr>sw_calls := n\<rparr>"
  "sql_call f (delete_row i) w = (w', Inr u) \<Longrightarrow> lookup_session w' i = None"
  by (auto simp: store_call_def delete_row_def Let_def lookup_session_def find_None_iff split: fault.splits if_splits)

lemma sql_total_Inl: "sql_call f (\<lambda>w. (g w, Inr a)) w = (w', Inl e) \<Longrightarrow> w' = w\<lparr>sw_calls := sw_calls w + 1\<rparr>"
  by (auto simp: store_call_def Let_def split: fault.splits)

lemma session_delete_Inl:
  assumes "session_delete f i w = (w', Inl e)"
  shows "(\<exists>n. w' = w\<lparr>sw_calls := n\<rparr>) \<or> lookup_session w' i = None"
proof -
  from assms consider "sql_call f (delete_row i) w = (w', Inl e)"
    | v u where "sql_call f (delete_row i) w = (v, Inr u)"
        "sql_call f (\<lambda>w. (w\<lparr>sw_checkpoints := filter (\<lambda>c. cc_session_id c \<noteq> i) (sw_checkpoints w)\<rparr>, Inr ())) v = (w', Inl e)"
    unfolding session_delete_def sbind_Inl by blast
  then show ?thesis
  proof cases
    case 1
    then show ?thesis using delete_row_call(1) by blast
  next
    case 2
    then show ?thesis using delete_row_call(2) [OF 2(1)] sql_total_Inl [OF 2(2)] by simp
  qed
qed

lemma restore_full_same:
  assumes "restore_full_transcript f i s x = (w', Inr u)" "touched i w0 x" "ids_distinct w0"
    "fs_display s = sw_display w0 i" "fs_context s = sw_context w0 i" "lookup_session w0 i = Some (fs_session s)"
  shows "same_content w0 w'"
  using restore_all_same [OF assms(1) [unfolded restore_full_transcript_def] assms(2,3,6) assms(4,5)] by simp

lemma delete_session_failed:
  assumes "delete_session f i w = (w', Inl e)" "\<not> gives_up e" "ids_distinct w"
  shows "same_content w w'"
proof (cases "\<exists>v s. full_transcript_snapshot f i w = (v, Inr s)")
  case False
  then have "full_transcript_snapshot f i w = (w', Inl e)" using assms(1) by (auto simp: delete_session_def sbind_Inl)
  then show ?thesis using full_snapshot_world [of w w f i] by (simp add: fst_eq)
next
  case True
  then obtain v s where vs: "full_transcript_snapshot f i w = (v, Inr s)" by blast
  note s = full_snapshot_Inr [OF vs]
  have tv: "touched i w v" using s by auto
  note restored = restore_full_same [OF _ _ assms(3), of f i s]
  consider e1 where "message_truncate f Display i 0 v = (w', Inl e1)"
    | w1 a x e1 where "message_truncate f Display i 0 v = (w1, Inr a)" "message_truncate f Context i 0 w1 = (x, Inl e1)"
        "compensate ''clear context transcript before delete'' (x, Inl (MeTranscript [] e1)) (restore_full_transcript f i s) = (w', Inl e :: (manager_error, unit) result)"
    | w1 a w2 b x e1 where "message_truncate f Display i 0 v = (w1, Inr a)" "message_truncate f Context i 0 w1 = (w2, Inr b)"
        "session_delete f i w2 = (x, Inl e1)"
        "(if is_foreign_key_delete_error e1
          then compensate ''tombstone session after delete conflict'' (tombstone_session f i (fs_session s) x) (restore_full_transcript f i s)
          else compensate ''delete session metadata'' (x, Inl (from_session_error e1)) (restore_full_transcript f i s)) = (w', Inl e)"
  proof (cases "message_truncate f Display i 0 v")
    case (Pair w1 r1)
    show thesis
    proof (cases r1)
      case (Inl e1)
      then show thesis using that(1) assms(1) vs Pair by (auto simp: delete_session_def sbind_def map_err_def)
    next
      case (Inr a)
      note d = Pair Inr
      obtain w2 r2 where w2: "message_truncate f Context i 0 w1 = (w2, r2)" by (cases "message_truncate f Context i 0 w1")
      show thesis
      proof (cases r2)
        case (Inl e1)
        then show thesis using assms(1) vs d w2 by (intro that(2) [of w1 a w2 e1]) (simp_all add: delete_session_def sbind_def map_err_def)
      next
        case (Inr b)
        obtain x r3 where x: "session_delete f i w2 = (x, r3)" by (cases "session_delete f i w2")
        show thesis
        proof (cases r3)
          case (Inl e1)
          then show thesis using assms(1) vs d w2 Inr x
            by (intro that(3) [of w1 a w2 b x e1]) (simp_all add: delete_session_def sbind_def map_err_def)
        next
          case (Inr c)
          then show thesis using assms(1) vs d w2 \<open>r2 = Inr b\<close> x by (simp add: delete_session_def sbind_def map_err_def)
        qed
      qed
    qed
  qed
  then show ?thesis
  proof cases
    case 1
    then show ?thesis using message_truncate_Inl [OF 1] s by auto
  next
    case 2
    have "touched i w w1" using message_truncate_Inr [OF 2(1)] tv by (simp add: touched_def)
    then have "touched i w x" using message_truncate_Inl [OF 2(2)] by auto
    then show ?thesis using compensate_Inl [OF 2(3) assms(2)] restored s by auto
  next
    case 3
    have "touched i w w2" using message_truncate_Inr [OF 3(1)] message_truncate_Inr [OF 3(2)] tv by (simp add: touched_def)
    then have x: "touched i w x \<or> lookup_session x i = None" using session_delete_Inl [OF 3(3)] by auto
    obtain y e2 u where y: "touched i w y \<or> lookup_session y i = None" "restore_full_transcript f i s y = (w', Inr u)"
    proof (cases "is_foreign_key_delete_error e1")
      case True
      then obtain y e2 u where yy: "tombstone_session f i (fs_session s) x = (y, Inl e2)" "restore_full_transcript f i s y = (w', Inr u)"
        using compensate_Inl [OF 3(4) [unfolded if_P [OF True]] assms(2)] by blast
      then have "touched i w y \<or> lookup_session y i = None"
        using x tombstone_failed [OF yy(1)] tombstone_gone [of x i f "fs_session s"] fst_eq [OF yy(1)] by auto
      then show thesis using yy(2) that by blast
    next
      case False
      then have "compensate ''delete session metadata'' (x, Inl (from_session_error e1)) (restore_full_transcript f i s) = (w', Inl e :: (manager_error, unit) result)"
        using 3(4) by simp
      then obtain u where "restore_full_transcript f i s x = (w', Inr u)" using compensate_Inl [OF _ assms(2)] by fastforce
      then show thesis using x that by blast
    qed
    then have "touched i w y" using restore_all_gone [of y i] by (auto simp: restore_full_transcript_def)
    then show ?thesis using restored [OF y(2)] s by auto
  qed
qed

lemma touched_truncate: "touched i w0 w \<Longrightarrow> touched i w0 (fst (message_truncate f k i n w))"
  by (rule message_truncate_inv [where P = "touched i w0"]) simp_all

lemma invalidate_Inl: "invalidate_after f i turn w = (w', Inl e) \<Longrightarrow> w' = w\<lparr>sw_calls := sw_calls w + 1\<rparr>"
  by (auto simp: invalidate_after_def store_call_def Let_def split: fault.splits)

lemma rollback_mutation_failed:
  assumes "rollback_mutation f i target tokens w = (w', Inl e)" "touched i w0 w"
  shows "touched i w0 w'"
proof -
  note t = touched_truncate [where f = f] and u = touched_update_metadata [where f = f]
  let ?n = "cc_message_count_before target"
  from assms(1) consider "message_truncate f Display i ?n w = (w', Inl e)"
    | w1 a where "message_truncate f Display i ?n w = (w1, Inr a)" "message_truncate f Context i ?n w1 = (w', Inl e)"
    | w1 a w2 b where "message_truncate f Display i ?n w = (w1, Inr a)" "message_truncate f Context i ?n w1 = (w2, Inr b)"
        "update_metadata f i None tokens ?n w2 = (w', Inl e)"
    | w1 a w2 b w3 c where "message_truncate f Display i ?n w = (w1, Inr a)" "message_truncate f Context i ?n w1 = (w2, Inr b)"
        "update_metadata f i None tokens ?n w2 = (w3, Inr c)" "invalidate_after f i (cc_turn_number target - 1) w3 = (w', Inl e)"
    unfolding rollback_mutation_def sbind_Inl by blast
  then show ?thesis
  proof cases
    case 1
    then show ?thesis using t [OF assms(2), of Display ?n] by (simp add: fst_eq)
  next
    case 2
    then show ?thesis using t [OF t [OF assms(2), of Display ?n], of Context ?n] by (simp add: fst_eq)
  next
    case 3
    then show ?thesis using u [OF t [OF t [OF assms(2), of Display ?n], of Context ?n], of tokens ?n] by (simp add: fst_eq)
  next
    case 4
    then show ?thesis using u [OF t [OF t [OF assms(2), of Display ?n], of Context ?n], of tokens ?n] invalidate_Inl [OF 4(4)] by (simp add: fst_eq)
  qed
qed

fun rollback_gives_up :: "rollback_error \<Rightarrow> bool" where
  "rollback_gives_up (RbCompensationFailed _ _) = True"
| "rollback_gives_up _ = False"

lemma checkpoint_load_world: "fst (checkpoint_load f cid w) = w\<lparr>sw_calls := sw_calls w + 1\<rparr>"
  by (simp add: checkpoint_load_def sql_read_world)

lemma list_by_session_world: "fst (list_by_session f i w) = w\<lparr>sw_calls := sw_calls w + 1\<rparr>"
  by (simp add: list_by_session_def sql_read_world)

lemma rollback_snapshot_Inr:
  "take_rollback_snapshot f i w = (w', Inr s) \<Longrightarrow> (\<exists>c. w' = w\<lparr>sw_calls := c\<rparr>) \<and> rb_display s = sw_display w i \<and> rb_context s = sw_context w i
     \<and> (\<exists>n. lookup_session w i = Some n \<and> rb_token_count s = sn_token_count n \<and> rb_message_count s = sn_message_count n)"
  unfolding take_rollback_snapshot_def by (auto simp: sbind_Inr dest!: session_get_Inr message_read_Inr)

lemma rollback_snapshot_world: "same_content w0 w \<Longrightarrow> same_content w0 (fst (take_rollback_snapshot f i w))"
  unfolding take_rollback_snapshot_def
  by (intro sbind_inv [where P = "same_content w0"]) (simp_all add: session_get_world message_read_world [where P = "same_content w0"])

lemma rollback_body_failed:
  assumes "rollback_body f i target scopes s w = (w', Inl e)" "\<not> rollback_gives_up e" "ids_distinct w0" "same_content w0 w"
    "rb_display s = sw_display w0 i" "rb_context s = sw_context w0 i"
    "lookup_session w0 i = Some n" "rb_token_count s = sn_token_count n" "rb_message_count s = sn_message_count n"
  shows "same_content w0 w'"
proof (cases "cc_message_count_before target > length (rb_context s) \<or> cc_message_count_before target > length (rb_display s)")
  case True
  then show ?thesis using assms(1,4) by (auto simp: rollback_body_def)
next
  case False
  then obtain x e1 u where x: "rollback_mutation f i target (rb_token_count s) w = (x, Inl e1)" "restore_rollback_snapshot f i s x = (w', Inr u)"
    using assms(1,2) by (auto simp: rollback_body_def split: prod.splits sum.splits)
  have "touched i w0 x" using rollback_mutation_failed [OF x(1)] same_content_touched [OF assms(4)] by blast
  then show ?thesis using restore_all_same [OF x(2) [unfolded restore_rollback_snapshot_def] _ assms(3,7) assms(5,6,8,9)] by blast
qed

lemma rollback_to_failed:
  assumes "rollback_to f i cid w = (w', Inl e)" "\<not> rollback_gives_up e" "ids_distinct w"
  shows "same_content w w'"
proof -
  obtain w1 r1 where w1: "checkpoint_load f cid w = (w1, r1)" by (cases "checkpoint_load f cid w")
  have s1: "w1 = w\<lparr>sw_calls := sw_calls w + 1\<rparr>" using checkpoint_load_world [of f cid w] w1 by simp
  obtain w2 r2 where w2: "list_by_session f i w1 = (w2, r2)" by (cases "list_by_session f i w1")
  have s2: "w2 = w\<lparr>sw_calls := sw_calls w + 1 + 1\<rparr>" using list_by_session_world [of f i w1] w2 s1 by simp
  obtain w3 r3 where w3: "take_rollback_snapshot f i w2 = (w3, r3)" by (cases "take_rollback_snapshot f i w2")
  have s3: "same_content w w3" using rollback_snapshot_world [of w w2 f i] w3 s2 by simp
  from assms(1) consider "w' = w1" | "w' = w2" | "w' = w3"
    | target scopes s where "r3 = Inr s" "rollback_body f i target scopes s w3 = (w', Inl e)"
    using w1 w2 w3 by (auto simp: rollback_to_def sbind_def map_err_def split: sum.splits if_splits)
  then show ?thesis
  proof cases
    case 4
    note s = rollback_snapshot_Inr [OF w3 [unfolded 4(1)]]
    then obtain n where "lookup_session w i = Some n" "rb_token_count s = sn_token_count n" "rb_message_count s = sn_message_count n"
      using s2 by auto
    then show ?thesis using rollback_body_failed [OF 4(2) assms(2,3) s3] s s2 by simp
  qed (use s1 s2 s3 in simp_all)
qed

lemma append_mutation_Inr:
  assumes "append_mutation f i n ms w = (w', Inr u)"
  shows "sw_display w' = (sw_display w)(i := sw_display w i @ ms)" "sw_context w' = (sw_context w)(i := sw_context w i @ ms)"
    "sw_checkpoints w' = sw_checkpoints w"
    "sw_sessions w' = map (\<lambda>m. if sn_id m = i then m\<lparr>sn_token_count := sn_token_count n, sn_message_count := to_u32 (length (sw_context w' i)), sn_updated_at := sw_now w\<rparr> else m) (sw_sessions w)"
proof -
  from assms obtain w1 w2 w3 c where w1: "append_each f Display i ms w = (w1, Inr ())" and w2: "append_each f Context i ms w1 = (w2, Inr ())"
    and w3: "message_count f Context i w2 = (w3, Inr c)" and w4: "update_metadata f i None (sn_token_count n) (to_u32 c) w3 = (w', Inr ())"
    by (auto simp: append_mutation_def sbind_Inr)
  note e = append_each_Inr [OF w1] append_each_Inr [OF w2] message_count_Inr [OF w3] update_metadata_Inr [OF w4]
  show "sw_display w' = (sw_display w)(i := sw_display w i @ ms)" "sw_context w' = (sw_context w)(i := sw_context w i @ ms)"
    "sw_checkpoints w' = sw_checkpoints w"
    "sw_sessions w' = map (\<lambda>m. if sn_id m = i then m\<lparr>sn_token_count := sn_token_count n, sn_message_count := to_u32 (length (sw_context w' i)), sn_updated_at := sw_now w\<rparr> else m) (sw_sessions w)"
    using e by auto
qed

lemma append_messages_Inr:
  assumes "append_messages f i ms w = (w', Inr u)"
  shows "sw_display w' = (sw_display w)(i := sw_display w i @ ms)" "sw_context w' = (sw_context w)(i := sw_context w i @ ms)"
    "sw_checkpoints w' = sw_checkpoints w" "grown i w w'"
    "\<exists>n. lookup_session w i = Some n \<and> sn_state n = SActive"
proof -
  from assms obtain v n where v: "session_get f i w = (v, Inr n)" and act: "sn_state n = SActive"
    and r: "ms = [] \<and> w' = v \<or> (\<exists>x s. take_transcript_snapshot f i n v = (x, Inr s) \<and> append_mutation f i n ms x = (w', Inr ()))"
    by (auto simp: append_messages_def sbind_Inr compensate_Inr split: if_splits)
  note g = session_get_Inr [OF v]
  then show "\<exists>n. lookup_session w i = Some n \<and> sn_state n = SActive" using act by blast
  from r have "(\<exists>c. w' = w\<lparr>sw_calls := c\<rparr> \<and> ms = []) \<or> (\<exists>c. append_mutation f i n ms (w\<lparr>sw_calls := c\<rparr>) = (w', Inr ()))"
    using g by (auto dest!: snapshot_Inr)
  then show "sw_display w' = (sw_display w)(i := sw_display w i @ ms)" "sw_context w' = (sw_context w)(i := sw_context w i @ ms)"
    "sw_checkpoints w' = sw_checkpoints w"
    by (auto dest: append_mutation_Inr)
  from \<open>(\<exists>c. w' = w\<lparr>sw_calls := c\<rparr> \<and> ms = []) \<or> _\<close> show "grown i w w'"
    using append_mutation_grown [of i w _ f n ms] by (auto dest: fst_eq)
qed

lemma checkpoint_save_Inl: "checkpoint_save f c w = (w', Inl e) \<Longrightarrow> w' = w\<lparr>sw_calls := sw_calls w + 1\<rparr>"
  by (auto simp: checkpoint_save_def store_call_def Let_def split: fault.splits if_splits)

lemma create_checkpoint_Inl:
  assumes "create_checkpoint f cid i turn n scope w = (w', Inl e)"
  shows "\<exists>c. w' = w\<lparr>sw_calls := c\<rparr>"
proof -
  from assms consider "session_get f i w = (w', Inl e)" | v m c where "session_get f i w = (v, Inr m)" "checkpoint_save f c v = (w', Inl e)"
    by (auto simp: create_checkpoint_def sbind_Inl Let_def)
  then show ?thesis
  proof cases
    case 1
    then show ?thesis using session_get_world [of f i w] by (metis fst_eq)
  next
    case 2
    then show ?thesis using session_get_Inr [OF 2(1)] checkpoint_save_Inl [OF 2(2)] by auto
  qed
qed

lemma current_turn_world: "fst (current_turn f i w) = w\<lparr>sw_calls := sw_calls w + 1\<rparr>"
  using list_by_session_world [of f i w] by (auto simp: current_turn_def sbind_def split: prod.splits sum.splits)

text \<open>The steps of a turn that was or was not persisted.\<close>

lemma persist_cases:
  assumes "persist_chat_turn f cid scope i ms w = (w', r)"
  obtains (start) e where "r = Inl e" "same_content w w'"
  | (append) c e where "r = Inl e" "append_messages f i ms (w\<lparr>sw_calls := c\<rparr>) = (w', Inl e)"
  | (checkpoint) c n s turn w2 where "lookup_session w i = Some n" "take_transcript_snapshot f i n (w\<lparr>sw_calls := sw_calls w + 1\<rparr>) = (w\<lparr>sw_calls := c\<rparr>, Inr s)"
      "current_turn f i (w\<lparr>sw_calls := c\<rparr>) = (w\<lparr>sw_calls := c + 1\<rparr>, Inr turn)"
      "append_messages f i ms (w\<lparr>sw_calls := c + 1\<rparr>) = (w2, Inr ())"
      "compensate ''create chat checkpoint''
         (map_err from_session_error (sbind (create_checkpoint f cid i (min u32_max (turn + 1)) (to_u32 (ts_context_count s)) scope w2) (\<lambda>_ w. (w, Inr ()))))
         (\<lambda>w. one_error (restore_transcript_snapshot f i s w)) = (w', r)"
proof -
  obtain w0 r0 where w0: "session_get f i w = (w0, r0)" by (cases "session_get f i w")
  have s0: "w0 = w\<lparr>sw_calls := sw_calls w + 1\<rparr>" using session_get_world [of f i w] w0 by simp
  show thesis
  proof (cases r0)
    case (Inl e)
    then show thesis using assms w0 s0 start by (auto simp: persist_chat_turn_def sbind_def map_err_def)
  next
    case (Inr n)
    then have n: "lookup_session w i = Some n" using session_get_Inr w0 by blast
    obtain w1 r1 where w1: "take_transcript_snapshot f i n w0 = (w1, r1)" by (cases "take_transcript_snapshot f i n w0")
    show thesis
    proof (cases r1)
      case (Inl e)
      have "same_content w w1" using snapshot_world [of w w0 f i n] w1 s0 by simp
      then show thesis using assms w0 w1 Inr Inl start by (auto simp: persist_chat_turn_def sbind_def map_err_def)
    next
      case (Inr s)
      note r1 = this
      obtain c where c: "w1 = w\<lparr>sw_calls := c\<rparr>" using snapshot_Inr [OF w1 [unfolded r1]] s0 by auto
      obtain w2 r2 where w2: "current_turn f i w1 = (w2, r2)" by (cases "current_turn f i w1")
      have s2: "w2 = w\<lparr>sw_calls := c + 1\<rparr>" using current_turn_world [of f i w1] w2 c by simp
      show thesis
      proof (cases r2)
        case (Inl e)
        then show thesis using assms w0 w1 w2 \<open>r0 = Inr n\<close> r1 s2 start by (auto simp: persist_chat_turn_def sbind_def map_err_def)
      next
        case (Inr turn)
        obtain w3 r3 where w3: "append_messages f i ms w2 = (w3, r3)" by (cases "append_messages f i ms w2")
        show thesis
        proof (cases r3)
          case (Inl e)
          then show thesis using assms w0 w1 w2 w3 \<open>r0 = Inr n\<close> r1 s2 Inr append by (auto simp: persist_chat_turn_def sbind_def map_err_def)
        next
          case r3: (Inr u)
          then show thesis using checkpoint [OF n, of c s turn w3] assms w0 w1 w2 w3 \<open>r0 = Inr n\<close> r1 s0 s2 c Inr
            by (simp add: persist_chat_turn_def sbind_def [of "(_, _)"] map_err_def [of _ "(_, _)"])
        qed
      qed
    qed
  qed
qed

lemma persist_chat_turn_failed:
  assumes "persist_chat_turn f cid scope i ms w = (w', Inl e)" "\<not> gives_up e" "ids_distinct w"
  shows "same_content w w'"
  using assms(1)
proof (cases rule: persist_cases)
  case (append c e')
  then show ?thesis using append_messages_failed [OF append(2)] assms(2,3) by (simp add: ids_distinct_def same_content_def)
next
  case (checkpoint c n s turn w2)
  note s = snapshot_Inr [OF checkpoint(2)]
  have g: "grown i w w2" using append_messages_Inr(4) [OF checkpoint(4)] by (simp add: grown_def touched_def)
  obtain x e1 u where x: "sbind (create_checkpoint f cid i (min u32_max (turn + 1)) (to_u32 (ts_context_count s)) scope w2) (\<lambda>_ w. (w, Inr ())) = (x, Inl e1)"
    "restore_transcript_snapshot f i s x = (w', Inr u)"
    using compensate_Inl [OF checkpoint(5) assms(2)] by (auto simp: map_err_Inl)
  then have "create_checkpoint f cid i (min u32_max (turn + 1)) (to_u32 (ts_context_count s)) scope w2 = (x, Inl e1)" by (auto simp: sbind_Inl)
  then have "grown i w x" using create_checkpoint_Inl g by fastforce
  then show ?thesis using restore_snapshot_same [OF x(2) _ assms(3) checkpoint(1)] s by simp
qed simp

text \<open>C39. A failed change of a session changes nothing. Whatever calls of the stores fail, and at whatever
  point: when appending messages, persisting a turn, deleting a session or rolling it back ends in
  an error, then unless the error says that the compensation failed as well, both transcripts,
  the checkpoints and the sessions with their counters are as before, up to the time of the last update.\<close>

theorem session_changes_atomic:
  assumes "ids_distinct w"
  shows "(append_messages f i ms w = (w', Inl e) \<and> \<not> gives_up e \<longrightarrow> same_content w w')
     \<and> (persist_chat_turn f cid scope i ms w = (w', Inl e) \<and> \<not> gives_up e \<longrightarrow> same_content w w')
     \<and> (delete_session f i w = (w', Inl e) \<and> \<not> gives_up e \<longrightarrow> same_content w w')
     \<and> (rollback_to f i cid w = (w', Inl e') \<and> \<not> rollback_gives_up e' \<longrightarrow> same_content w w')"
  using append_messages_failed [of f i ms w w' e] persist_chat_turn_failed [of f cid scope i ms w w' e]
    delete_session_failed [of f i w w' e] rollback_to_failed [of f i cid w w' e'] assms by blast

section \<open>A turn can be undone\<close>

lemma no_fault_call [simp]: "store_call (\<lambda>_. NoFault) late op1 w = op1 (w\<lparr>sw_calls := sw_calls w + 1\<rparr>)"
  by (simp add: store_call_def Let_def)

lemma insort_key_last: "g x \<le> g c \<Longrightarrow> insort_key g x (ys @ [c]) = insort_key g x ys @ [c]"
  by (induction ys) auto

lemma sort_key_last: "\<forall>x\<in>set xs. g x \<le> g c \<Longrightarrow> sort_key g (xs @ [c]) = sort_key g xs @ [c]"
  by (induction xs) (auto simp: insort_key_last)

lemma snapshot_stem: "take_transcript_snapshot f i n w = (w', Inr s) \<Longrightarrow> transcript_file_stem i \<noteq> None"
  by (auto simp: take_transcript_snapshot_def sbind_Inr message_count_def with_stem_def split: if_splits)

lemma current_turn_Inr:
  assumes "current_turn f i w = (w', Inr turn)" "c \<in> set (sw_checkpoints w)" "cc_session_id c = i"
  shows "cc_turn_number c \<le> turn"
proof -
  from assms(1) have "turn = foldr max (map cc_turn_number (session_checkpoints i w)) 0"
    by (auto simp: current_turn_def sbind_Inr list_by_session_def store_call_def session_checkpoints_def Let_def split: fault.splits)
  moreover have "x \<in> set xs \<Longrightarrow> x \<le> foldr max xs (0::nat)" for x xs by (induction xs) auto
  moreover have "cc_turn_number c \<in> set (map cc_turn_number (session_checkpoints i w))"
    using assms(2,3) by (simp add: session_checkpoints_def)
  ultimately show ?thesis by blast
qed

lemma create_checkpoint_Inr:
  assumes "create_checkpoint f cid i turn n scope w = (w', Inr c)" "\<forall>d\<in>set (sw_checkpoints w). cc_checkpoint_id d \<noteq> cid"
  shows "sw_checkpoints w' = sw_checkpoints w @ [c]" "sw_display w' = sw_display w" "sw_context w' = sw_context w" "sw_sessions w' = sw_sessions w"
    "cc_checkpoint_id c = cid" "cc_session_id c = i" "cc_turn_number c = turn" "cc_message_count_before c = n" "cc_journal_scope_id c = scope" "\<not> cc_invalidated c"
proof -
  from assms(1) obtain v m where v: "session_get f i w = (v, Inr m)" and c: "checkpoint_save f c v = (w', Inr ())"
    "c = \<lparr>cc_checkpoint_id = cid, cc_session_id = i, cc_turn_number = turn, cc_message_count_before = n, cc_journal_scope_id = scope, cc_invalidated = False, cc_created_at = sw_now v\<rparr>"
    by (auto simp: create_checkpoint_def sbind_Inr Let_def)
  have "\<not> list_ex (\<lambda>d. cc_checkpoint_id d = cid) (sw_checkpoints w)" using assms(2) by (auto simp: list_ex_iff)
  then have "w' = v\<lparr>sw_calls := sw_calls v + 1, sw_checkpoints := sw_checkpoints v @ [c]\<rparr>"
    using c session_get_Inr [OF v] by (auto simp: checkpoint_save_def store_call_def Let_def split: fault.splits if_splits)
  then show "sw_checkpoints w' = sw_checkpoints w @ [c]" "sw_display w' = sw_display w" "sw_context w' = sw_context w" "sw_sessions w' = sw_sessions w"
    using session_get_Inr [OF v] by auto
  show "cc_checkpoint_id c = cid" "cc_session_id c = i" "cc_turn_number c = turn" "cc_message_count_before c = n" "cc_journal_scope_id c = scope" "\<not> cc_invalidated c"
    using c(2) by simp_all
qed

lemma find_at_end: "\<forall>d\<in>set ds. \<not> P d \<Longrightarrow> P c \<Longrightarrow> find P (ds @ [c]) = Some c"
  by (induction ds) auto

text \<open>The calls of a rollback, when none fails.\<close>

lemma no_fault_rollback:
  assumes "transcript_file_stem i \<noteq> None" "lookup_session w i \<noteq> None"
  shows "\<exists>w' x. rollback_mutation (\<lambda>_. NoFault) i c tokens w = (w', Inr (length (sw_context w i) - cc_message_count_before c, x))
     \<and> sw_display w' = (sw_display w)(i := take (cc_message_count_before c) (sw_display w i))
     \<and> sw_context w' = (sw_context w)(i := take (cc_message_count_before c) (sw_context w i))
     \<and> sw_checkpoints w' = map (\<lambda>d. if cc_session_id d = i \<and> cc_turn_number c - 1 < cc_turn_number d \<and> \<not> cc_invalidated d then d\<lparr>cc_invalidated := True\<rparr> else d) (sw_checkpoints w)"
  using assms by (simp add: rollback_mutation_def message_truncate_def with_stem_def update_metadata_def update_row_def invalidate_after_def
    sbind_def lookup_session_def Let_def)

text \<open>Rolling back to the newest checkpoint of a session, when no call fails.\<close>

lemma rollback_newest:
  assumes cs: "sw_checkpoints w = cs @ [c]" "\<forall>d\<in>set cs. cc_checkpoint_id d \<noteq> cc_checkpoint_id c \<and> (cc_session_id d = i \<longrightarrow> cc_turn_number d < cc_turn_number c)"
    and c: "cc_session_id c = i" "\<not> cc_invalidated c" and pos: "0 < cc_turn_number c"
    and n: "lookup_session w i \<noteq> None" "transcript_file_stem i \<noteq> None"
    and len: "cc_message_count_before c \<le> length (sw_context w i)" "cc_message_count_before c \<le> length (sw_display w i)"
  shows "\<exists>w' r. rollback_last (\<lambda>_. NoFault) i w = (w', Inr r)
     \<and> sw_display w' = (sw_display w)(i := take (cc_message_count_before c) (sw_display w i))
     \<and> sw_context w' = (sw_context w)(i := take (cc_message_count_before c) (sw_context w i))
     \<and> sw_checkpoints w' = cs @ [c\<lparr>cc_invalidated := True\<rparr>]
     \<and> rr_messages_removed r = length (sw_context w i) - cc_message_count_before c
     \<and> rr_scopes_rolled_back r = [cc_journal_scope_id c]"
proof -
  let ?own = "filter (\<lambda>d. cc_session_id d = i) cs"
  have sorted: "session_checkpoints i w = c # rev (sort_key cc_turn_number ?own)"
  proof -
    have "\<forall>d\<in>set ?own. cc_turn_number d \<le> cc_turn_number c" using cs(2) by (auto simp: less_imp_le)
    then show ?thesis using c(1) by (simp add: session_checkpoints_def cs(1) sort_key_last)
  qed
  have nc [simp]: "session_checkpoints i (w\<lparr>sw_calls := k\<rparr>) = session_checkpoints i w" for k by (simp add: session_checkpoints_def)
  have latest: "find (\<lambda>c. \<not> cc_invalidated c) (session_checkpoints i w) = Some c" using sorted c(2) by simp
  have load: "find (\<lambda>d. cc_checkpoint_id d = cc_checkpoint_id c) (sw_checkpoints w) = Some c"
    using cs(2) by (simp add: cs(1) find_at_end)
  have scopes: "map cc_journal_scope_id (filter (\<lambda>d. cc_turn_number c \<le> cc_turn_number d \<and> \<not> cc_invalidated d) (session_checkpoints i w)) = [cc_journal_scope_id c]"
    unfolding sorted using cs(2) c(2) by (auto simp: filter_empty_conv)
  obtain m where m: "lookup_session w i = Some m" using n(1) by blast
  obtain y where y: "transcript_file_stem i = Some y" using n(2) by blast
  define k where "k = sw_calls w + 6"
  have start: "rollback_last (\<lambda>_. NoFault) i w = rollback_body (\<lambda>_. NoFault) i c [cc_journal_scope_id c]
      \<lparr>rb_context = sw_context w i, rb_display = sw_display w i, rb_token_count = sn_token_count m, rb_message_count = sn_message_count m\<rparr> (w\<lparr>sw_calls := k\<rparr>)"
    using latest load scopes c m y
    by (simp add: rollback_last_def checkpoint_latest_def rollback_to_def checkpoint_load_def list_by_session_def take_rollback_snapshot_def
      session_get_def message_read_all_def with_stem_def sbind_def map_err_def k_def numeral_eq_Suc)
  obtain w' x where w': "rollback_mutation (\<lambda>_. NoFault) i c (sn_token_count m) (w\<lparr>sw_calls := k\<rparr>) = (w', Inr (length (sw_context w i) - cc_message_count_before c, x))"
    "sw_display w' = (sw_display w)(i := take (cc_message_count_before c) (sw_display w i))"
    "sw_context w' = (sw_context w)(i := take (cc_message_count_before c) (sw_context w i))"
    "sw_checkpoints w' = map (\<lambda>d. if cc_session_id d = i \<and> cc_turn_number c - 1 < cc_turn_number d \<and> \<not> cc_invalidated d then d\<lparr>cc_invalidated := True\<rparr> else d) (sw_checkpoints w)"
    using no_fault_rollback [OF n(2), of "w\<lparr>sw_calls := k\<rparr>" c "sn_token_count m"] n(1) by auto
  have "sw_checkpoints w' = cs @ [c\<lparr>cc_invalidated := True\<rparr>]"
  proof -
    have "cc_turn_number d \<le> cc_turn_number c - 1" if "d \<in> set cs" "cc_session_id d = i" for d using cs(2) that by fastforce
    then have "map (\<lambda>d. if cc_session_id d = i \<and> cc_turn_number c - 1 < cc_turn_number d \<and> \<not> cc_invalidated d then d\<lparr>cc_invalidated := True\<rparr> else d) cs = cs"
      by (intro map_idI) (simp add: not_less)
    then show ?thesis unfolding w'(4) cs(1) using c pos by simp
  qed
  then show ?thesis using w' len by (simp add: start rollback_body_def)
qed


definition sample_session :: session_node where
  "sample_session = \<lparr>sn_id = ''s'', sn_parent_id = None, sn_root_id = ''s'', sn_depth = 0, sn_path = [], sn_session_type = TyMain, sn_state = SActive,
     sn_agent_id = None, sn_title = None, sn_manual_title = None, sn_token_count = 0, sn_message_count = 0, sn_context_reset_index = None,
     sn_custom_system_prompt = None, sn_created_at = 0, sn_updated_at = 0\<rparr>"

definition sample_world :: world where
  "sample_world = \<lparr>sw_sessions = [sample_session], sw_checkpoints = [], sw_display = (\<lambda>_. []), sw_context = (\<lambda>_. []), sw_calls = 0, sw_now = 1\<rparr>"

definition sample_turn :: "message list" where
  "sample_turn = [plain_message RoleUser ''hello'', plain_message RoleAssistant ''hi'']"

text \<open>A fault at one call.\<close>

definition fault_at :: "nat \<Rightarrow> fault \<Rightarrow> faults" where
  "fault_at k x n = (if n = k then x else NoFault)"

lemmas session_eval = append_messages_def append_mutation_def session_get_def take_transcript_snapshot_def message_count_def message_append_def
  message_truncate_def message_read_all_def with_stem_def update_metadata_def update_row_def store_call_def sbind_def map_err_def one_error_def
  compensate_def compensated_error_def restore_transcript_snapshot_def lookup_session_def sample_world_def sample_session_def
  transcript_file_stem_def is_ascii_alphanumeric_def char_code_def utf8_len_def Let_def

lemma sample_append_fails:
  "\<exists>e. snd (append_messages (fault_at 5 (FailBefore ''disk full'')) ''s'' sample_turn sample_world) = Inl e \<and> \<not> gives_up e"
  by (simp add: session_eval sample_turn_def fault_at_def)

theorem session_changes_atomic_witness:
  "same_content sample_world (fst (append_messages (fault_at 5 (FailBefore ''disk full'')) ''s'' sample_turn sample_world))"
proof -
  obtain e where e: "append_messages (fault_at 5 (FailBefore ''disk full'')) ''s'' sample_turn sample_world
      = (fst (append_messages (fault_at 5 (FailBefore ''disk full'')) ''s'' sample_turn sample_world), Inl e)" "\<not> gives_up e"
    using sample_append_fails by (metis prod.collapse)
  moreover have "ids_distinct sample_world" by (simp add: ids_distinct_def sample_world_def)
  ultimately show ?thesis using session_changes_atomic [of sample_world "fault_at 5 (FailBefore ''disk full'')" "''s''" sample_turn] by blast
qed

lemma sample_persisted:
  "\<exists>w. persist_chat_turn (\<lambda>_. NoFault) ''c1'' ''j1'' ''s'' sample_turn sample_world = (w, Inr ())"
  by (simp add: persist_chat_turn_def current_turn_def list_by_session_def session_checkpoints_def create_checkpoint_def checkpoint_save_def session_eval sample_turn_def)


section \<open>The end of a session\<close>

text \<open>
  Deleting is not one statement: when the row is deleted and deleting its checkpoints fails, the error
  is reported as a failed deletion and the transcripts are written back, for a session that is gone.
\<close>

theorem deletion_may_orphan_transcripts:
  assumes "lookup_session w i = Some n" "transcript_file_stem i \<noteq> None" "\<not> list_ex (references i) (sw_sessions w)" "sw_calls w = 0"
    "\<not> str_contains ''FOREIGN KEY constraint failed'' msg"
  shows "\<exists>w' e es. delete_session (fault_at 6 (FailBefore msg)) i w = (w', Inl (MeCompensationFailed ''delete session metadata'' e es))
     \<and> lookup_session w' i = None \<and> sw_display w' i = sw_display w i \<and> sw_context w' i = sw_context w i"
proof -
  let ?f = "fault_at 6 (FailBefore msg)"
  obtain y where y: "transcript_file_stem i = Some y" using assms(2) by blast
  have after: "?f k = NoFault" if "7 \<le> k" for k using that by (simp add: fault_at_def)
  have each: "append_each ?f k i ms v = ((set_transcript k i (transcript_of k v i @ ms) v)\<lparr>sw_calls := sw_calls v + length ms\<rparr>, Inr ())" if "7 \<le> sw_calls v" for k ms v
    using that
  proof (induction ms arbitrary: v)
    case Nil
    then show ?case by (cases k) simp_all
  next
    case (Cons m ms)
    let ?v = "set_transcript k i (transcript_of k v i @ [m]) (v\<lparr>sw_calls := sw_calls v + 1\<rparr>)"
    have "7 \<le> sw_calls ?v" using Cons.prems by (cases k) simp_all
    then show ?case using Cons.IH [of ?v] after [OF Cons.prems] y
      by (cases k) (simp_all add: message_append_def with_stem_def store_call_def sbind_def Let_def)
  qed
  have one: "restore_one ?f k i ms v = ((set_transcript k i ms v)\<lparr>sw_calls := sw_calls v + 1 + length ms\<rparr>, Inr ())" if "7 \<le> sw_calls v" for k ms v
  proof -
    let ?v = "set_transcript k i [] (v\<lparr>sw_calls := sw_calls v + 1\<rparr>)"
    have "7 \<le> sw_calls ?v" using that by (cases k) simp_all
    then show ?thesis using each [of ?v k ms] after [OF that] y
      by (cases k) (simp_all add: restore_one_def message_truncate_def with_stem_def store_call_def sbind_def Let_def)
  qed
  have seven: "Suc (Suc (Suc (Suc (Suc (Suc (Suc 0)))))) = 7" by simp
  define v where "v = w\<lparr>sw_display := (sw_display w)(i := []), sw_context := (sw_context w)(i := []), sw_sessions := filter (\<lambda>n. sn_id n \<noteq> i) (sw_sessions w), sw_calls := 7\<rparr>"
  have gone: "find (\<lambda>n. sn_id n = i) (filter (\<lambda>n. sn_id n \<noteq> i) ns) = None" for ns by (induction ns) auto
  have "delete_session ?f i w = compensate ''delete session metadata'' (v, Inl (from_session_error (SeStorage msg)))
      (restore_full_transcript ?f i \<lparr>fs_context = sw_context w i, fs_display = sw_display w i, fs_session = n\<rparr>)"
    using assms(1,3-5) y
    by (simp add: delete_session_def full_transcript_snapshot_def session_get_def message_read_all_def message_truncate_def session_delete_def delete_row_def
      with_stem_def store_call_def sbind_def map_err_def fault_at_def lookup_session_def Let_def v_def seven)
  moreover define u where "u = w\<lparr>sw_sessions := filter (\<lambda>n. sn_id n \<noteq> i) (sw_sessions w), sw_calls := 10 + length (sw_display w i) + length (sw_context w i)\<rparr>"
  have "restore_full_transcript ?f i \<lparr>fs_context = sw_context w i, fs_display = sw_display w i, fs_session = n\<rparr> v = (u, Inl [MeNotFound i])"
    by (simp add: restore_full_transcript_def restore_all_def one v_def u_def collect_error_def map_err_def update_metadata_def store_call_def after update_row_def
      lookup_session_def gone Let_def)
  ultimately have "delete_session ?f i w = (u, Inl (MeCompensationFailed ''delete session metadata'' (MeStorage (SeStorage msg)) [MeNotFound i]))"
    by (simp add: compensate_def compensated_error_def)
  then show ?thesis by (simp add: u_def lookup_session_def gone)
qed

text \<open>
  The states form a line of no return: a transition the machine accepts never leaves a tombstone, never
  makes an archived or merged session active, and a session can only be written while it is active.
\<close>

inductive reaches :: "session_state \<Rightarrow> session_state \<Rightarrow> bool" where
  reaches_refl: "reaches s s"
| reaches_step: "reaches s t \<Longrightarrow> validate_transition t u = Inr () \<Longrightarrow> reaches s u"

theorem lifecycle_one_way:
  "reaches s t \<Longrightarrow> (s = STombstone \<longrightarrow> t = STombstone) \<and> (s \<in> {SArchived, SMerged} \<longrightarrow> t \<in> {s, STombstone}) \<and> (t \<in> {SActive, SPaused} \<longrightarrow> s \<in> {SActive, SPaused})"
proof (induction rule: reaches.induct)
  case (reaches_step s t u)
  then show ?case by (cases t; cases u) (auto simp: validate_transition_def)
qed simp

lemma valid_transitions_correct: "t \<in> set (valid_transitions s) \<longleftrightarrow> validate_transition s t = Inr ()"
  by (cases s; cases t) (auto simp: valid_transitions_def validate_transition_def)

section \<open>A branch is a copy\<close>

lemma fork_copy_Inr:
  assumes "fork_copy f source fork d c w = (w', Inr u)"
  shows "sw_display w' = (sw_display w)(fork := sw_display w fork @ d)" "sw_context w' = (sw_context w)(fork := sw_context w fork @ c)"
    "sw_checkpoints w' = sw_checkpoints w" "map sn_id (sw_sessions w') = map sn_id (sw_sessions w)"
    "filter (\<lambda>n. sn_id n \<noteq> fork) (sw_sessions w') = filter (\<lambda>n. sn_id n \<noteq> fork) (sw_sessions w)"
proof -
  from assms obtain w1 w2 w3 r w4 where w1: "append_each f Display fork d w = (w1, Inr ())" and w2: "append_each f Context fork c w1 = (w2, Inr ())"
    and w3: "get_context_reset_index f source w2 = (w3, Inr r)"
    and w4: "(case r of Some r \<Rightarrow> if r < length c then map_err from_session_error (set_context_reset_index f fork (Some r) w3) else (w3, Inr ()) | None \<Rightarrow> (w3, Inr ())) = (w4, Inr ())"
    and w5: "update_metadata f fork None 0 (to_u32 (length c)) w4 = (w', Inr ())"
    by (auto simp: fork_copy_def sbind_Inr)
  note e1 = append_each_Inr [OF w1] and e2 = append_each_Inr [OF w2]
  have e3: "\<exists>k. w3 = w2\<lparr>sw_calls := k\<rparr>" using w3 by (auto simp: get_context_reset_index_def store_call_def Let_def split: fault.splits)
  have row: "\<exists>k. \<exists>g. w4 = w3\<lparr>sw_calls := k, sw_sessions := map (\<lambda>n. if sn_id n = fork then g n else n) (sw_sessions w3)\<rparr> \<and> (\<forall>n. sn_id n = fork \<longrightarrow> sn_id (g n) = fork)"
  proof (cases "w4 = w3")
    case True
    then show ?thesis by (intro exI [of _ "sw_calls w3"] exI [of _ "\<lambda>n. n"]) simp
  next
    case False
    then obtain x where "set_context_reset_index f fork (Some x) w3 = (w4, Inr ())" using w4 by (auto split: option.splits if_splits)
    then have "w4 = w3\<lparr>sw_calls := sw_calls w3 + 1, sw_sessions := map (\<lambda>n. if sn_id n = fork then n\<lparr>sn_context_reset_index := Some x, sn_updated_at := sw_now w3\<rparr> else n) (sw_sessions w3)\<rparr>"
      by (auto simp: set_context_reset_index_def store_call_def update_row_def Let_def split: fault.splits if_splits)
    then show ?thesis by (intro exI [of _ "sw_calls w3 + 1"] exI [of _ "\<lambda>n. n\<lparr>sn_context_reset_index := Some x, sn_updated_at := sw_now w3\<rparr>"]) simp
  qed
  have others: "map sn_id (map (\<lambda>n. if sn_id n = fork then g n else n) ns) = map sn_id ns"
    "filter (\<lambda>n. sn_id n \<noteq> fork) (map (\<lambda>n. if sn_id n = fork then g n else n) ns) = filter (\<lambda>n. sn_id n \<noteq> fork) ns"
    if "\<forall>n. sn_id n = fork \<longrightarrow> sn_id (g n) = fork" for g ns
    using that by (induction ns) auto
  note e5 = update_metadata_Inr [OF w5]
  show "sw_display w' = (sw_display w)(fork := sw_display w fork @ d)" "sw_context w' = (sw_context w)(fork := sw_context w fork @ c)"
    "sw_checkpoints w' = sw_checkpoints w" using e1 e2 e3 row e5 by auto
  have "sw_sessions w3 = sw_sessions w" using e1 e2 e3 by auto
  then show "map sn_id (sw_sessions w') = map sn_id (sw_sessions w)"
    "filter (\<lambda>n. sn_id n \<noteq> fork) (sw_sessions w') = filter (\<lambda>n. sn_id n \<noteq> fork) (sw_sessions w)"
    using row e5 by (auto simp: others simp del: map_map)
qed

lemma session_create_Inr:
  assumes "session_create f i opts w = (w', Inr n)" "co_parent_id opts = Some p"
  shows "\<exists>k m parent. w' = w\<lparr>sw_calls := k, sw_sessions := sw_sessions w @ [m]\<rparr> \<and> lookup_session w i = None \<and> lookup_session w p = Some parent
     \<and> sn_id m = i \<and> sn_parent_id m = Some p \<and> sn_root_id m = sn_root_id parent \<and> sn_depth m = sn_depth parent + 1
     \<and> sn_path m = sn_path parent @ [sn_id parent] \<and> sn_state m = SActive"
proof -
  from assms obtain v parent u where v: "session_get f p w = (v, Inr parent)" and u: "sql_call f (insert_session i opts (Some parent)) v = (u, Inr ())"
    and g: "session_get f i u = (w', Inr n)" by (auto simp: session_create_def sbind_Inr)
  have fresh: "lookup_session v i = None" using u by (auto simp: store_call_def insert_session_def Let_def split: fault.splits if_splits)
  have "\<exists>k m. u = v\<lparr>sw_calls := k, sw_sessions := sw_sessions v @ [m]\<rparr>
      \<and> sn_id m = i \<and> sn_parent_id m = Some p \<and> sn_root_id m = sn_root_id parent \<and> sn_depth m = sn_depth parent + 1
      \<and> sn_path m = sn_path parent @ [sn_id parent] \<and> sn_state m = SActive"
    using u assms(2) unfolding store_call_def insert_session_def Let_def
    by (auto split: fault.splits if_splits intro!: exI)
  then obtain k m where u': "u = v\<lparr>sw_calls := k, sw_sessions := sw_sessions v @ [m]\<rparr>" and m: "sn_id m = i" "sn_parent_id m = Some p"
      "sn_root_id m = sn_root_id parent" "sn_depth m = sn_depth parent + 1" "sn_path m = sn_path parent @ [sn_id parent]" "sn_state m = SActive"
    by blast
  note v0 = session_get_Inr [OF v] and g0 = session_get_Inr [OF g]
  then obtain a b where "v = w\<lparr>sw_calls := a\<rparr>" "w' = u\<lparr>sw_calls := b\<rparr>" by blast
  then have "w' = w\<lparr>sw_calls := b, sw_sessions := sw_sessions w @ [m]\<rparr>" "lookup_session w i = None" using u' fresh
    by (simp_all add: lookup_session_def)
  then show ?thesis using m v0 by blast
qed

text \<open>A branch without messages is a new row below its parent, within the depth limit; the parent and all else stay.\<close>

theorem branch_grows_tree:
  assumes "branch_session f max_depth i p title w = (w', Inr n)"
  shows "\<exists>k m parent. w' = w\<lparr>sw_calls := k, sw_sessions := sw_sessions w @ [m]\<rparr> \<and> lookup_session w i = None
     \<and> lookup_session w p = Some parent \<and> sn_parent_id m = Some p \<and> sn_root_id m = sn_root_id parent
     \<and> sn_path m = sn_path parent @ [sn_id parent] \<and> sn_depth m = sn_depth parent + 1 \<and> sn_depth m \<le> max_depth"
proof -
  from assms obtain v parent where v: "session_get f p w = (v, Inr parent)" and depth: "sn_depth parent < max_depth"
    and new: "session_create f i \<lparr>co_parent_id = Some p, co_session_type = TyBranch, co_agent_id = sn_agent_id parent, co_title = title\<rparr> v = (w', Inr n)"
    by (auto simp: branch_session_def sbind_Inr not_le split: if_splits)
  have v': "v = w\<lparr>sw_calls := sw_calls w + 1\<rparr>" and parent: "lookup_session w p = Some parent" using session_get_Inr [OF v] by auto
  obtain k m q where "w' = v\<lparr>sw_calls := k, sw_sessions := sw_sessions v @ [m]\<rparr>" "lookup_session v i = None" "lookup_session v p = Some q"
      "sn_parent_id m = Some p" "sn_root_id m = sn_root_id q" "sn_depth m = sn_depth q + 1" "sn_path m = sn_path q @ [sn_id q]"
    using session_create_Inr [OF new] by auto
  moreover from this(3) have "q = parent" using parent v' by (simp add: lookup_session_def)
  ultimately show ?thesis using v' parent depth by (intro exI [of _ k] exI [of _ m] exI [of _ parent]) (simp add: lookup_session_def)
qed

lemma filter_other_ids: "lookup_session w i = None \<Longrightarrow> filter (\<lambda>n. sn_id n \<noteq> i) (sw_sessions w) = sw_sessions w"
  by (auto simp: lookup_session_def find_None_iff)

text \<open>
  A branch holds the first messages of both transcripts of its source, is one level deeper, within the
  limit, and nothing of any other session changes.
\<close>

theorem fork_is_copy:
  assumes "fork_session f max_depth fork source k title w = (w', Inr n)" "sw_display w fork = []" "sw_context w fork = []"
  shows "sw_display w' = (sw_display w)(fork := take (k + 1) (sw_display w source))
     \<and> sw_context w' = (sw_context w)(fork := take (k + 1) (sw_context w source))
     \<and> filter (\<lambda>n. sn_id n \<noteq> fork) (sw_sessions w') = sw_sessions w \<and> sw_checkpoints w' = sw_checkpoints w
     \<and> (\<exists>m. lookup_session w source = Some m \<and> sn_depth m + 1 \<le> max_depth)"
proof -
  from assms(1) obtain w0 m w1 d w2 c w3 x w4 where g: "session_get f source w = (w0, Inr m)" and d: "message_read_all f Display source w0 = (w1, Inr d)"
    and c: "message_read_all f Context source w1 = (w2, Inr c)" and depth: "sn_depth m < max_depth"
    and new: "session_create f fork \<lparr>co_parent_id = Some source, co_session_type = TyBranch, co_agent_id = sn_agent_id m,
        co_title = (case title of Some t \<Rightarrow> Some t | None \<Rightarrow> map_option (\<lambda>t. t @ '' (Branch)'') (sn_title m))\<rparr> w2 = (w3, Inr x)"
    and cp: "fork_copy f source fork (take (k + 1) d) (take (k + 1) c) w3 = (w4, Inr ())" and fin: "session_get f fork w4 = (w', Inr n)"
    by (auto simp: fork_session_def sbind_Inr compensate_Inr not_le split: if_splits)
  note g0 = session_get_Inr [OF g] and d0 = message_read_Inr [OF d] and c0 = message_read_Inr [OF c] and f0 = session_get_Inr [OF fin]
  note copy = fork_copy_Inr [OF cp]
  obtain j r where w3: "w3 = w2\<lparr>sw_calls := j, sw_sessions := sw_sessions w2 @ [r]\<rparr>" "lookup_session w2 fork = None" "sn_id r = fork"
    using session_create_Inr [OF new] by auto
  have "sw_display w' = (sw_display w)(fork := take (k + 1) (sw_display w source))" "sw_context w' = (sw_context w)(fork := take (k + 1) (sw_context w source))"
    "sw_checkpoints w' = sw_checkpoints w"
    using copy(1-3) w3 g0 d0 c0 f0 assms(2,3) by auto
  moreover have "filter (\<lambda>n. sn_id n \<noteq> fork) (sw_sessions w') = sw_sessions w"
    using copy(5) w3 g0 d0 c0 f0 filter_other_ids [of w2 fork] by simp
  ultimately show ?thesis using g0 depth by auto
qed

end
