(* ===== verification/Spec2Isabelle.thy ===== *)
theory Spec2Isabelle
  imports Guard_Engine Loop_Guard Budget_Service Provider_Pool Dbc Candump_Log Capture_Analysis Dispatch_Runs Occurrence_Store Campaign_Dispatch Work_Order_Qualification Spill_Store Context_Pruning Session_Atomicity
begin

text \<open>
  \<^bold>\<open>Verification of the oxfuzz core\<close>

  oxfuzz is an AI-assisted fuzzing workbench (Rust, \<^verbatim>\<open>crates/\<close>). A service discovers fuzz targets, drafts
  harnesses with language models, runs fuzzing engines in a sandbox and triages crashes. Four mechanisms keep
  that unattended work under control, and they are the core of this development: guardrails decide which
  privileged action may run; a model budget and a provider pool decide which model call may run, where, and
  at what cost; a scheduler decides when a campaign fires and that it fires once; and campaign allocations and
  budgets decide which reviewed harness a fire may run and for how long. The automotive decoders are the
  parsers that untrusted input reaches; the agent's context and the sessions decide what a model sees and what
  survives a failure.

  \<^bold>\<open>Parts, theories and sources\<close> (paths below \<^verbatim>\<open>src/crates\<close>)

  \<^item> Shared: \<^verbatim>\<open>Prelude\<close> (results, checked and saturating arithmetic, the interfaces \<open>invariant_machine\<close>,
    \<open>monotone_machine\<close>, \<open>ranked_machine\<close> and \<open>keyed_store\<close>), \<^verbatim>\<open>Text\<close> (strings of the standard library),
    \<^verbatim>\<open>F64\<close> (binary64 arithmetic), \<^verbatim>\<open>Json\<close> (\<^verbatim>\<open>serde_json::Value\<close>), \<^verbatim>\<open>Ordered_Map\<close> (\<^verbatim>\<open>BTreeMap\<close>).
  \<^item> Guardrails, \<^verbatim>\<open>hf-guardrails/src\<close>: \<^verbatim>\<open>Guard_Action\<close> (\<^verbatim>\<open>action.rs\<close>: actions and risk tiers),
    \<^verbatim>\<open>Guard_Engine\<close> (\<^verbatim>\<open>lib.rs\<close>, \<^verbatim>\<open>hitl.rs\<close>: \<^verbatim>\<open>Guardrails::authorize\<close> in its three phases, the gates, the builders and
    \<^verbatim>\<open>from_env\<close>, and sessions that arm and disarm), \<^verbatim>\<open>Loop_Guard\<close> (\<^verbatim>\<open>loop_guard.rs\<close>: bounded history and four detectors).
  \<^item> Model budget: \<^verbatim>\<open>Budget_Store\<close> (\<^verbatim>\<open>hf-storage/src/model_budget_store.rs\<close>: reservation and settlement
    transactions over the tables), \<^verbatim>\<open>Budget_Service\<close> (\<^verbatim>\<open>hf-service/src/model_budget.rs\<close>, \<^verbatim>\<open>model_budget/dispatch.rs\<close>:
    pricing, admission, plain and streamed calls).
  \<^item> Providers, \<^verbatim>\<open>hf-provider/src\<close>: \<^verbatim>\<open>Provider_Error\<close> (\<^verbatim>\<open>error_classifier.rs\<close> with the vocabulary of \<^verbatim>\<open>hf-core\<close>),
    \<^verbatim>\<open>Provider_Freeze\<close> (\<^verbatim>\<open>freeze.rs\<close>), \<^verbatim>\<open>Provider_Router\<close> (\<^verbatim>\<open>router.rs\<close>), \<^verbatim>\<open>Provider_Pool\<close> (\<^verbatim>\<open>pool.rs\<close>, \<^verbatim>\<open>metrics.rs\<close>,
    \<^verbatim>\<open>health.rs\<close>: permits, retries, failover, accounting).
  \<^item> Automotive, \<^verbatim>\<open>hf-automotive/src\<close>: \<^verbatim>\<open>Isotp\<close> (\<^verbatim>\<open>isotp.rs\<close>), \<^verbatim>\<open>Dbc\<close> (\<^verbatim>\<open>dbc.rs\<close>), \<^verbatim>\<open>Capture\<close>
    (\<^verbatim>\<open>capture.rs\<close>: the four importers, interface \<open>line_importer\<close>), \<^verbatim>\<open>Candump_Log\<close> (the reference writer of candump logs),
    \<^verbatim>\<open>Capture_Analysis\<close> (\<^verbatim>\<open>analysis.rs\<close>).
  \<^item> Scheduler, \<^verbatim>\<open>hf-scheduler/src\<close>: \<^verbatim>\<open>Schedule_Store\<close> (\<^verbatim>\<open>store.rs\<close>, \<^verbatim>\<open>trigger.rs\<close>, \<^verbatim>\<open>interval.rs\<close>, \<^verbatim>\<open>cron.rs\<close>,
    \<^verbatim>\<open>onetime.rs\<close>), \<^verbatim>\<open>Schedule_Recovery\<close> (\<^verbatim>\<open>recovery.rs\<close> and the start and tick of \<^verbatim>\<open>manager.rs\<close>),
    \<^verbatim>\<open>Occurrence_Store\<close> (\<^verbatim>\<open>occurrence.rs\<close> with the receipt and history stores of \<^verbatim>\<open>hf-storage\<close>).
  \<^item> Events and dispatch, \<^verbatim>\<open>hf-scheduler/src\<close>: \<^verbatim>\<open>Schedule_Params\<close> (\<^verbatim>\<open>params.rs\<close>, \<^verbatim>\<open>event.rs\<close>), \<^verbatim>\<open>Event_Bridge\<close>
    (\<^verbatim>\<open>event_bridge.rs\<close>), \<^verbatim>\<open>Execution_Store\<close> (\<^verbatim>\<open>executor.rs\<close>), \<^verbatim>\<open>Workflow\<close> (\<^verbatim>\<open>dispatcher.rs\<close>), \<^verbatim>\<open>Schedule_Dispatch\<close>
    (\<^verbatim>\<open>handle_fired_trigger\<close> of \<^verbatim>\<open>manager.rs\<close> and the tasks it spawns), \<^verbatim>\<open>Dispatch_Runs\<close> (their interleavings).
  \<^item> Campaigns, \<^verbatim>\<open>hf-service/src\<close>: \<^verbatim>\<open>Engine_Kind\<close> (engine and language vocabulary of \<^verbatim>\<open>hf-core\<close>),
    \<^verbatim>\<open>Campaign_Allocation\<close> (\<^verbatim>\<open>campaign_allocation.rs\<close>, \<^verbatim>\<open>campaign_allocation/storage.rs\<close>, \<^verbatim>\<open>run_comparison.rs\<close>,
    \<^verbatim>\<open>container/campaign_allocation.rs\<close>), \<^verbatim>\<open>Campaign_State\<close> (\<^verbatim>\<open>campaign_state.rs\<close>: sidecar and gate),
    \<^verbatim>\<open>Campaign_Dispatch\<close> (\<^verbatim>\<open>FuzzCampaignDispatcher\<close> of \<^verbatim>\<open>scheduler.rs\<close> and the campaign loop of \<^verbatim>\<open>container/run.rs\<close>).
  \<^item> Harness work orders: \<^verbatim>\<open>Diagnostic_Text\<close> (redaction in \<^verbatim>\<open>hf-service/src/harness_work_order.rs\<close>), \<^verbatim>\<open>Work_Order_Store\<close>
    (\<^verbatim>\<open>hf-storage/src/work_order_store.rs\<close>), \<^verbatim>\<open>Work_Order_Packet\<close> (packets of \<^verbatim>\<open>harness_work_order.rs\<close>, interface
    \<open>canonical_order\<close>), \<^verbatim>\<open>Work_Order_Service\<close> (\<^verbatim>\<open>container/harness_work_order.rs\<close>: import, qualification, ranking,
    promotion; the smoke verdict of \<^verbatim>\<open>verification.rs\<close>), \<^verbatim>\<open>Work_Order_Qualification\<close> (what they guarantee).
  \<^item> The agent's context: \<^verbatim>\<open>Context_Window\<close> (\<^verbatim>\<open>hf-context/src/simple.rs\<close>, \<^verbatim>\<open>compaction.rs\<close> and \<^verbatim>\<open>maybe_compact\<close> of
    \<^verbatim>\<open>hf-agent/src/lib.rs\<close>), \<^verbatim>\<open>Context_Pruning\<close> (\<^verbatim>\<open>hf-context/src/pruning\<close> and the requests of \<^verbatim>\<open>run_turn\<close>),
    \<^verbatim>\<open>Spill_Store\<close> (\<^verbatim>\<open>hf-spill/src/lib.rs\<close> and \<^verbatim>\<open>bound_fresh_result\<close>).
  \<^item> Sessions: \<^verbatim>\<open>Transcript_Store\<close> (\<^verbatim>\<open>hf-storage/src/transcript.rs\<close>, \<^verbatim>\<open>transcript_display.rs\<close>), \<^verbatim>\<open>Session_Manager\<close>
    (\<^verbatim>\<open>hf-session/src\<close> with \<^verbatim>\<open>session_store.rs\<close> and \<^verbatim>\<open>checkpoint_store.rs\<close> of \<^verbatim>\<open>hf-storage\<close>, and the chat turn of
    \<^verbatim>\<open>hf-service/src/container/mod.rs\<close>), \<^verbatim>\<open>Session_Atomicity\<close> (what they guarantee when store calls fail).

  \<^bold>\<open>How code becomes definitions.\<close> A struct is a record, an enum a datatype, a method a function from the
  state to the new state and a result, with \<open>Inl\<close> for \<^verbatim>\<open>Err\<close>. A database transaction or a critical section is one
  step, so concurrency is an interleaving of steps: a fold over events, an inductive step relation where the
  source works with atomics (\<open>gate_step\<close>), or runs with outputs. Integers keep their width where overflow
  matters (words in \<^verbatim>\<open>Isotp\<close>, \<^verbatim>\<open>Dbc\<close>, \<^verbatim>\<open>Budget_Service\<close>, \<^verbatim>\<open>Provider_Freeze\<close>; saturation and \<^verbatim>\<open>mod 2 ^ 64\<close> written
  out elsewhere). Loops are recursions with termination proofs; none needs fuel. Clocks, generated ids, the
  answers of language models, fuzz runs and the file system are arguments of the steps, so a theorem holds for
  whatever they answer. Third-party code is a parameter: \<^verbatim>\<open>chrono\<close> and \<^verbatim>\<open>croner\<close> are the record \<open>time_lib\<close> with
  \<open>chrono_laws\<close> and \<open>croner_laws\<close> as hypotheses, SQLite's \<^verbatim>\<open>julianday\<close>, the JSON encoders and SHA-256 are functions
  without hypotheses.

  \<^bold>\<open>What the lemmas show.\<close>

  \<^item> Guardrails: exactly when an action is authorized, that guards and advisors only tighten, what an
    unattended process may do, and that a disarmed session authorizes nothing above the medium tier.
    The loop guard's bounded history is as good as the whole one, and a repeating agent is always caught.
  \<^item> Budget: under every interleaving the ledger of a scope stays within its limits, is the sum of its attempts,
    settles each attempt once, blocks after an overrun, and a call reaches a backend only with a committed
    reservation that covers honest usage.
  \<^item> Providers: concurrency limits and the retry bound hold; a failed provider is not routed to until its freeze
    ends, which it does; selection is sound and complete.
  \<^item> Automotive: reassembly returns what was segmented; extraction is the bit slice of the payload; an accepted
    database and every imported frame are well formed, an import stops at the first malformed line, a candump log is
    read back exactly; statistics, change maps and differences are exact, and the UDS summary treats each stream alone.
  \<^item> Scheduler: a missed fire is recovered as the policy says, and nothing stays due; checkpoints survive a
    restart; a one-time schedule is dispatched once whatever instances do.
  \<^item> Events and dispatch: debounce windows, hourly limits, concurrency policies and permits hold in every
    interleaving; cascades of events stop; no template reaches a workflow unresolved.
  \<^item> Campaigns: an allocation deals out exactly what was requested, no interleaving spends more than was reviewed,
    every stored state is readable and every reserved run reachable; a campaign never counts more runs than its
    budget, and its rotation starves no target.
  \<^item> Work orders: the ledger is consistent and attempts follow compile, review, smoke; packets are canonical
    and verify; rendered commands read back; rankings, repair depths and promotions are exact; no known
    credential survives redaction; and which recorded attempts their own reader rejects.
  \<^item> Context: the assembled window is the longest that fits; compaction replaces only what was summarized;
    every request of a turn keeps results behind their steps; an oversized result is kept on disk or cut.
  \<^item> Sessions: the transcript file is a list of messages through torn writes; a failed change of a session
    changes nothing unless its error says so; a persisted turn can be undone; a branch is a copy.

  \<^bold>\<open>Bounds.\<close> Strings are code points below 256 (\<^verbatim>\<open>utf8_len\<close> gives their size in bytes), which covers every literal the
  code compares with. Numbers are unbounded only where the code's own checks keep them in range.

  \<^bold>\<open>Not modelled.\<close> Sandboxing, engines, discovery, harness generation, triage, reports, front ends, HTTP
  backends and the agent runtime drive external programs, files and services: their effect on the state above
  enters as arguments. Log lines, notifications and metrics export change nothing here. Failures of the storage
  medium are modelled where the code reacts to them (the JSON sidecars, the spill store, transcripts and sessions), and end a transaction unchanged elsewhere. Canonical sessions and the unused compaction strategies are left out.

  \<^bold>\<open>Planned next.\<close> Canonical sessions, the export of work orders and the promotion of the active harness revision.
\<close>

end
